(* ===== verification/Prelude.thy ===== *)
theory Prelude
  imports Main "HOL-Library.Char_ord" "HOL-Library.List_Lexorder" "HOL-Library.Sublist"
begin

text \<open>
  What the component theories share: Go's byte strings and the functions of its standard
  library the sources call on them, results of fallible operations, the loop that advances a
  cursor while a byte test holds, and the interface \<open>codec\<close> of an encoder and its decoder.
  A Go \<open>string\<close> or \<open>[]byte\<close> is a list of bytes, HOL's \<open>string\<close>; string order is
  the lexicographic order of bytes (\<open>List_Lexorder\<close> over \<open>Char_ord\<close>), as in Go.
\<close>

named_theorems cursor_simps "facts about cursor loops over a byte string"
named_theorems ws_simps "facts about stripping white space"

type_synonym bytes = string

section \<open>Results of fallible operations\<close>

text \<open>A Go function returning \<open>(T, error)\<close> returns \<open>Inl e\<close> or \<open>Inr v\<close> here.\<close>

type_synonym ('e, 'a) res = "'e + 'a"

definition bind_res :: "('e, 'a) res \<Rightarrow> ('a \<Rightarrow> ('e, 'b) res) \<Rightarrow> ('e, 'b) res" where
  "bind_res m f = (case m of Inl e \<Rightarrow> Inl e | Inr a \<Rightarrow> f a)"

lemma bind_res_simps [simp]:
  "bind_res (Inl e) f = Inl e"
  "bind_res (Inr a) f = f a"
  by (simp_all add: bind_res_def)

lemma bind_res_Inr: "bind_res m f = Inr b \<longleftrightarrow> (\<exists>a. m = Inr a \<and> f a = Inr b)"
  by (cases m) auto

lemma bind_res_Inl: "bind_res m f = Inl e \<longleftrightarrow> m = Inl e \<or> (\<exists>a. m = Inr a \<and> f a = Inl e)"
  by (cases m) auto

section \<open>Cursor loops\<close>

text \<open>
  The shape \<open>for pos < len(src) && keep(src[pos]) { pos++ }\<close> of the lexer and the readers.
\<close>

function advance_while :: "(char \<Rightarrow> bool) \<Rightarrow> bytes \<Rightarrow> nat \<Rightarrow> nat" where
  "advance_while keep src pos =
     (if pos < length src \<and> keep (src ! pos) then advance_while keep src (Suc pos) else pos)"
  by pat_completeness auto
termination by (relation "measure (\<lambda>(k, src, pos). length src - pos)") auto

declare advance_while.simps [simp del]

lemma advance_while_takeWhile [cursor_simps]:
  "advance_while keep src pos = pos + length (takeWhile keep (drop pos src))"
proof (induction keep src pos rule: advance_while.induct)
  case (1 keep src pos)
  show ?case
  proof (cases "pos < length src \<and> keep (src ! pos)")
    case True
    then have "drop pos src = src ! pos # drop (Suc pos) src"
      by (simp add: Cons_nth_drop_Suc)
    with True 1 show ?thesis by (simp add: advance_while.simps [of keep src pos])
  next
    case False
    have "takeWhile keep (drop pos src) = []"
    proof (cases "pos < length src")
      case True
      then have "drop pos src = src ! pos # drop (Suc pos) src"
        by (simp add: Cons_nth_drop_Suc)
      with False True show ?thesis by simp
    qed simp
    with False show ?thesis by (auto simp: advance_while.simps [of keep src pos])
  qed
qed

lemma advance_while_ge: "pos \<le> advance_while keep src pos"
  by (simp add: advance_while_takeWhile)

lemma advance_while_le: "pos \<le> length src \<Longrightarrow> advance_while keep src pos \<le> length src"
proof -
  assume "pos \<le> length src"
  moreover have "length (takeWhile keep (drop pos src)) \<le> length (drop pos src)"
    by (rule length_takeWhile_le)
  ultimately show ?thesis by (simp add: advance_while_takeWhile)
qed

text \<open>A byte range \<open>s[i:j]\<close> of a string.\<close>

definition slice :: "nat \<Rightarrow> nat \<Rightarrow> 'a list \<Rightarrow> 'a list" where
  "slice i j s = take (j - i) (drop i s)"

lemma slice_append:
  assumes "i \<le> j" "j \<le> k"
  shows "slice i j s @ slice j k s = slice i k s"
proof -
  from assms have "k - i = (j - i) + (k - j)" and "j = (j - i) + i" by simp_all
  then show ?thesis
    using take_add [of "j - i" "k - j" "drop i s"] by (simp add: slice_def)
qed

lemma slice_all: "slice 0 (length s) s = s"
  by (simp add: slice_def)

lemma length_slice: "j \<le> length s \<Longrightarrow> length (slice i j s) = j - i"
  by (simp add: slice_def min_def) arith

lemma slice_advance_while:
  "slice pos (advance_while keep src pos) src = takeWhile keep (drop pos src)"
  by (simp add: slice_def advance_while_takeWhile) (metis takeWhile_eq_take)

text \<open>\<open>strings.Join\<close>.\<close>

fun join_with :: "string \<Rightarrow> string list \<Rightarrow> string" where
  "join_with sep [] = []"
| "join_with sep [s] = s"
| "join_with sep (s # t # ss) = s @ sep @ join_with sep (t # ss)"

section \<open>The codec interface\<close>

text \<open>
  An encoder with a decoder that inverts it on the well-formed values. The components that
  write names and values into another notation provide it.
\<close>

locale codec =
  fixes enc :: "'a \<Rightarrow> 'b" and dec :: "'b \<Rightarrow> 'a option" and wf :: "'a \<Rightarrow> bool"
  assumes dec_enc: "wf x \<Longrightarrow> dec (enc x) = Some x"
begin

lemma enc_inj: "wf x \<Longrightarrow> wf y \<Longrightarrow> enc x = enc y \<Longrightarrow> x = y"
  using dec_enc by (metis option.inject)

lemma enc_inj_on: "inj_on enc {x. wf x}"
  by (auto intro: inj_onI enc_inj)

lemma map_enc_inj: "list_all wf xs \<Longrightarrow> list_all wf ys \<Longrightarrow> map enc xs = map enc ys \<Longrightarrow> xs = ys"
proof (induction xs arbitrary: ys)
  case Nil
  then show ?case by simp
next
  case (Cons x xs)
  then show ?case by (cases ys) (auto dest: enc_inj)
qed

end

end
