(* ===== verification/Source.thy ===== *)
theory Source
  imports Prelude
begin

text \<open>
  The package \<open>internal/core/source\<close>: source files, their language, byte spans and the
  line index that turns byte offsets into line and column. Go's \<open>int\<close> is \<open>int\<close> here;
  an index that the code keeps non-negative is \<open>nat\<close>.
\<close>

section \<open>Language of a file\<close>

datatype lang_kind = KindUnknown | KindSysML | KindKerML

fun kind_string :: "lang_kind \<Rightarrow> string" where
  "kind_string KindSysML = ''SysML''"
| "kind_string KindKerML = ''KerML''"
| "kind_string KindUnknown = ''unknown''"

definition kind_of :: "string \<Rightarrow> lang_kind" where
  "kind_of name =
     (if suffix ''.sysml'' name then KindSysML
      else if suffix ''.kerml'' name then KindKerML
      else KindUnknown)"

section \<open>Files, spans and positions\<close>

record span =
  span_offset :: nat
  span_len :: nat

definition span_end :: "span \<Rightarrow> nat" where
  "span_end s = span_offset s + span_len s"

record source_pos =
  pos_line :: int
  pos_col :: int

record source_file =
  sf_name :: string
  sf_content :: bytes
  sf_kind :: lang_kind

definition new_source :: "string \<Rightarrow> bytes \<Rightarrow> source_file" where
  "new_source name content = \<lparr>sf_name = name, sf_content = content, sf_kind = kind_of name\<rparr>"

definition new_source_with_kind :: "string \<Rightarrow> bytes \<Rightarrow> lang_kind \<Rightarrow> source_file" where
  "new_source_with_kind name content kind =
     \<lparr>sf_name = name, sf_content = content, sf_kind = kind\<rparr>"

text \<open>\<open>content[sp.Offset:sp.End()]\<close> panics out of range: \<open>None\<close>.\<close>

definition source_text :: "source_file \<Rightarrow> span \<Rightarrow> bytes option" where
  "source_text sf sp =
     (if span_end sp \<le> length (sf_content sf)
      then Some (slice (span_offset sp) (span_end sp) (sf_content sf)) else None)"

section \<open>The line index\<close>

record line_index =
  li_content :: bytes
  li_starts :: "nat list"

fun line_starts_from :: "nat \<Rightarrow> bytes \<Rightarrow> nat list" where
  "line_starts_from i [] = []"
| "line_starts_from i (b # bs) =
     (if b = CHR 0x0A then (i + 1) # line_starts_from (i + 1) bs
      else line_starts_from (i + 1) bs)"

definition new_line_index :: "bytes \<Rightarrow> line_index" where
  "new_line_index content =
     \<lparr>li_content = content, li_starts = 0 # line_starts_from 0 content\<rparr>"

definition source_lines :: "source_file \<Rightarrow> line_index" where
  "source_lines sf = new_line_index (sf_content sf)"

text \<open>The binary search of \<open>PosAt\<close> for the greatest line start not above the offset.\<close>

function pos_search :: "nat list \<Rightarrow> int \<Rightarrow> nat \<Rightarrow> nat \<Rightarrow> nat" where
  "pos_search starts offset lo hi =
     (if lo < hi then
        (let mid = (lo + hi + 1) div 2 in
         if int (starts ! mid) \<le> offset then pos_search starts offset mid hi
         else pos_search starts offset lo (mid - 1))
      else lo)"
  by pat_completeness auto
termination by (relation "measure (\<lambda>(s, off, lo, hi). hi - lo)") auto

declare pos_search.simps [simp del]

definition pos_at :: "line_index \<Rightarrow> int \<Rightarrow> source_pos" where
  "pos_at li offset =
     (let lo = pos_search (li_starts li) offset 0 (length (li_starts li) - 1) in
      \<lparr>pos_line = int lo + 1, pos_col = offset - int (li_starts li ! lo) + 1\<rparr>)"

definition offset_at :: "line_index \<Rightarrow> source_pos \<Rightarrow> int" where
  "offset_at li p =
     (if pos_line p < 1 \<or> pos_line p > int (length (li_starts li)) then -1
      else int (li_starts li ! nat (pos_line p - 1)) + (pos_col p - 1))"

section \<open>The line index is sorted and the search is exact\<close>

lemma line_starts_gt: "x \<in> set (line_starts_from i bs) \<Longrightarrow> i < x \<and> x \<le> i + length bs"
  by (induction i bs rule: line_starts_from.induct) (auto split: if_splits)

lemma line_starts_sorted: "sorted_wrt (<) (line_starts_from i bs)"
  by (induction i bs rule: line_starts_from.induct) (auto dest: line_starts_gt)

lemma li_starts_sorted: "sorted_wrt (<) (li_starts (new_line_index content))"
  by (auto simp: new_line_index_def line_starts_sorted dest: line_starts_gt)

lemma line_starts_newline:
  "x \<in> set (line_starts_from i bs) \<longleftrightarrow> i < x \<and> x \<le> i + length bs \<and> bs ! (x - i - 1) = CHR 0x0A"
proof (induction i bs rule: line_starts_from.induct)
  case (1 i)
  then show ?case by auto
next
  case (2 i b bs)
  have "(b # bs) ! (x - i - 1) = bs ! (x - Suc i - 1)" if "Suc i < x"
  proof -
    from that have "x - i - 1 = Suc (x - Suc i - 1)" by simp
    then show ?thesis by simp
  qed
  moreover have "(b # bs) ! (x - i - 1) = b" if "x = Suc i" using that by simp
  ultimately show ?case
    using 2 line_starts_gt [of x "Suc i" bs]
    by (cases x "Suc i" rule: linorder_cases) auto
qed

lemma pos_search_bounds: "lo \<le> hi \<Longrightarrow> lo \<le> pos_search st off lo hi \<and> pos_search st off lo hi \<le> hi"
proof (induction st off lo hi rule: pos_search.induct)
  case (1 st off lo hi)
  show ?case
  proof (cases "lo < hi")
    case True
    then have mid: "lo < (lo + hi + 1) div 2" "(lo + hi + 1) div 2 \<le> hi" by auto
    show ?thesis
      using 1(1) [OF True refl] 1(2) [OF True refl] mid True
      by (simp add: pos_search.simps [of st off lo hi] Let_def) linarith
  next
    case False
    with 1(3) show ?thesis by (simp add: pos_search.simps)
  qed
qed

lemma pos_search_exact:
  assumes "sorted_wrt (<) st" "hi < length st" "lo \<le> hi" "int (st ! lo) \<le> off"
    and "\<forall>j. hi < j \<and> j < length st \<longrightarrow> off < int (st ! j)"
  defines "r \<equiv> pos_search st off lo hi"
  shows "int (st ! r) \<le> off \<and> (\<forall>j. r < j \<and> j < length st \<longrightarrow> off < int (st ! j))"
  using assms(1-5) unfolding r_def
proof (induction st off lo hi rule: pos_search.induct)
  case (1 st off lo hi)
  show ?case
  proof (cases "lo < hi")
    case False
    with 1(5) have "lo = hi" by simp
    with 1(3-7) show ?thesis by (simp add: pos_search.simps)
  next
    case True
    define mid where "mid = (lo + hi + 1) div 2"
    from True have mid: "lo < mid" "mid \<le> hi" by (auto simp: mid_def)
    show ?thesis
    proof (cases "int (st ! mid) \<le> off")
      case le: True
      have "pos_search st off lo hi = pos_search st off mid hi"
        using le True by (simp add: pos_search.simps [of st off lo hi] Let_def mid_def)
      with 1(1) [OF True mid_def le 1(3,4)] 1(7) mid le show ?thesis by simp
    next
      case gt: False
      have "\<forall>j. mid - 1 < j \<and> j < length st \<longrightarrow> off < int (st ! j)"
      proof (intro allI impI)
        fix j assume j: "mid - 1 < j \<and> j < length st"
        then have "st ! mid \<le> st ! j"
          using 1(3) by (cases "j = mid") (auto simp: sorted_wrt_iff_nth_less less_imp_le)
        with gt show "off < int (st ! j)" by simp
      qed
      moreover have "pos_search st off lo hi = pos_search st off lo (mid - 1)"
        using gt True by (simp add: pos_search.simps [of st off lo hi] Let_def mid_def)
      ultimately show ?thesis
        using 1(2) [OF True mid_def gt 1(3)] 1(4,6) mid by simp
    qed
  qed
qed

lemma pos_search_index:
  assumes "0 \<le> off" "st = li_starts (new_line_index content)"
    "r = pos_search st off 0 (length st - 1)"
  shows "r < length st \<and> int (st ! r) \<le> off \<and> (\<forall>j. r < j \<and> j < length st \<longrightarrow> off < int (st ! j))"
proof -
  have ne: "0 < length st" by (simp add: assms(2) new_line_index_def)
  have st0: "int (st ! 0) \<le> off" using assms(1) by (simp add: assms(2) new_line_index_def)
  have "r \<le> length st - 1"
    using pos_search_bounds [of 0 "length st - 1" st off] by (simp add: assms(3))
  then have "r < length st" using ne by linarith
  moreover have "int (st ! r) \<le> off \<and> (\<forall>j. r < j \<and> j < length st \<longrightarrow> off < int (st ! j))"
    unfolding assms(3) using ne st0 li_starts_sorted [of content]
    by (intro pos_search_exact) (auto simp: assms(2))
  ultimately show ?thesis by blast
qed

section \<open>Properties\<close>

text \<open>
  C29. \<open>PosAt\<close> is exact and \<open>OffsetAt\<close> inverts it: for every non-negative offset the
  line is the one whose start is the greatest line start not above the offset (line starts
  are 0 and the offsets just past a newline), and converting the position back gives the
  offset.
\<close>

theorem pos_at_exact:
  assumes "0 \<le> off"
  shows "\<exists>start. (start = 0 \<or> 0 < start \<and> start \<le> length content \<and> content ! (start - 1) = CHR 0x0A)
      \<and> int start \<le> off
      \<and> (\<forall>i < length content. content ! i = CHR 0x0A \<longrightarrow> start < i + 1 \<longrightarrow> off < int i + 1)
      \<and> pos_col (pos_at (new_line_index content) off) = off - int start + 1
      \<and> offset_at (new_line_index content) (pos_at (new_line_index content) off) = off"
proof -
  define st where "st = li_starts (new_line_index content)"
  define r where "r = pos_search st off 0 (length st - 1)"
  from pos_search_index [OF assms st_def r_def]
  have r: "r < length st" "int (st ! r) \<le> off" "\<And>j. r < j \<Longrightarrow> j < length st \<Longrightarrow> off < int (st ! j)"
    by auto
  have st: "st = 0 # line_starts_from 0 content" by (simp add: st_def new_line_index_def)
  have at: "pos_at (new_line_index content) off = \<lparr>pos_line = int r + 1, pos_col = off - int (st ! r) + 1\<rparr>"
    by (simp add: pos_at_def r_def st_def Let_def)
  have "st ! r \<in> set st" using r(1) by simp
  then have start: "st ! r = 0 \<or> 0 < st ! r \<and> st ! r \<le> length content \<and> content ! (st ! r - 1) = CHR 0x0A"
    by (auto simp: st line_starts_newline)
  have later: "off < int i + 1"
    if i: "i < length content" "content ! i = CHR 0x0A" "st ! r < i + 1" for i
  proof -
    from i have "i + 1 \<in> set st" by (simp add: st line_starts_newline)
    then obtain j where j: "j < length st" "st ! j = i + 1" by (auto simp: in_set_conv_nth)
    have "r < j"
    proof (rule ccontr)
      assume "\<not> r < j"
      then have "st ! j \<le> st ! r"
        using li_starts_sorted [of content] r(1)
        by (cases "j = r") (auto simp: st_def sorted_wrt_iff_nth_less less_imp_le)
      with j i(3) show False by simp
    qed
    from r(3) [OF this j(1)] j(2) show ?thesis by simp
  qed
  have "offset_at (new_line_index content) (pos_at (new_line_index content) off) = off"
    using r(1) by (simp add: at offset_at_def st_def [symmetric] nat_add_distrib)
  with start later r(2) show ?thesis by (intro exI [of _ "st ! r"]) (auto simp: at)
qed

theorem pos_at_exact_witness:
  "(0::int) \<le> 5 \<and> offset_at (new_line_index [CHR ''a'', CHR 0x0A, CHR ''b''])
      (pos_at (new_line_index [CHR ''a'', CHR 0x0A, CHR ''b'']) 5) = 5"
  using pos_at_exact [of 5 "[CHR ''a'', CHR 0x0A, CHR ''b'']"] by auto

end
