(* ===== verification/Lexer.thy ===== *)
theory Lexer
  imports Source
begin

text \<open>
  The package \<open>internal/core/lexer\<close>: token kinds (\<open>token.go\<close>), the keyword sets
  (\<open>keywords.go\<close>, \<open>contextual.go\<close>), the pull scanner \<open>Next\<close> with every scanning loop
  (\<open>lexer.go\<close>) and the spelling of names (\<open>name.go\<close>). The scanner's state is the source and
  the byte cursor; each \<open>Next\<close> returns the token and the new state.
\<close>

section \<open>Tokens\<close>

datatype kind =
    T_Invalid | T_EOF | T_Identifier | T_UnrestrictedName | T_String | T_Decimal | T_Real
    | T_Whitespace | T_SLNote | T_MLNote | T_RegularComment | T_Question | T_QuestionQ | T_Pipe
    | T_Amp | T_EqEq | T_NotEq | T_EqEqEq | T_NotEqEq | T_At | T_AtAt | T_Lt | T_Gt | T_Le
    | T_Ge | T_DotDot | T_Plus | T_Minus | T_Star | T_Slash | T_Percent | T_StarStar | T_Caret
    | T_Tilde | T_Dot | T_Hash | T_LParen | T_RParen | T_LBracket | T_RBracket | T_Arrow
    | T_DotQuestion | T_Comma | T_ColonColon | T_Dollar | T_Eq | T_LBrace | T_RBrace
    | T_Semicolon | T_Colon | T_ColonEq | T_ColonGt | T_ColonGtGt | T_ColonColonGt | T_EqGt
    | T_Keyword | T_Error

text \<open>\<open>Kind.String\<close>: every declared kind is in \<open>kindNames\<close>, so its numeric fallback is
  unreachable on this type.\<close>

fun kind_name :: "kind \<Rightarrow> string" where
  "kind_name T_Invalid = ''Invalid''"
| "kind_name T_EOF = ''EOF''"
| "kind_name T_Identifier = ''Identifier''"
| "kind_name T_UnrestrictedName = ''UnrestrictedName''"
| "kind_name T_String = ''String''"
| "kind_name T_Decimal = ''Decimal''"
| "kind_name T_Real = ''Real''"
| "kind_name T_Whitespace = ''Whitespace''"
| "kind_name T_SLNote = ''SLNote''"
| "kind_name T_MLNote = ''MLNote''"
| "kind_name T_RegularComment = ''RegularComment''"
| "kind_name T_Question = ''?''"
| "kind_name T_QuestionQ = ''??''"
| "kind_name T_Pipe = ''|''"
| "kind_name T_Amp = ''&''"
| "kind_name T_EqEq = ''==''"
| "kind_name T_NotEq = ''!=''"
| "kind_name T_EqEqEq = ''===''"
| "kind_name T_NotEqEq = ''!==''"
| "kind_name T_At = ''@''"
| "kind_name T_AtAt = ''@@''"
| "kind_name T_Lt = ''<''"
| "kind_name T_Gt = ''>''"
| "kind_name T_Le = ''<=''"
| "kind_name T_Ge = ''>=''"
| "kind_name T_DotDot = ''..''"
| "kind_name T_Plus = ''+''"
| "kind_name T_Minus = ''-''"
| "kind_name T_Star = ''*''"
| "kind_name T_Slash = ''/''"
| "kind_name T_Percent = ''%''"
| "kind_name T_StarStar = ''**''"
| "kind_name T_Caret = ''^''"
| "kind_name T_Tilde = ''~''"
| "kind_name T_Dot = ''.''"
| "kind_name T_Hash = ''#''"
| "kind_name T_LParen = ''(''"
| "kind_name T_RParen = '')''"
| "kind_name T_LBracket = ''[''"
| "kind_name T_RBracket = '']''"
| "kind_name T_Arrow = ''->''"
| "kind_name T_DotQuestion = ''.?''"
| "kind_name T_Comma = '',''"
| "kind_name T_ColonColon = ''::''"
| "kind_name T_Dollar = ''$''"
| "kind_name T_Eq = ''=''"
| "kind_name T_LBrace = ''{''"
| "kind_name T_RBrace = ''}''"
| "kind_name T_Semicolon = '';''"
| "kind_name T_Colon = '':''"
| "kind_name T_ColonEq = '':=''"
| "kind_name T_ColonGt = '':>''"
| "kind_name T_ColonGtGt = '':>>''"
| "kind_name T_ColonColonGt = ''::>''"
| "kind_name T_EqGt = ''=>''"
| "kind_name T_Keyword = ''Keyword''"
| "kind_name T_Error = ''Error''"

record token =
  tok_kind :: kind
  tok_span :: span
  tok_keyword :: string
  tok_unterminated :: bool

definition is_trivia :: "token \<Rightarrow> bool" where
  "is_trivia t \<longleftrightarrow> (case tok_kind t of
     T_Whitespace \<Rightarrow> True | T_SLNote \<Rightarrow> True | T_MLNote \<Rightarrow> True | _ \<Rightarrow> False)"

section \<open>Keywords\<close>

definition keyword_list :: "string list" where
  "keyword_list = [
     ''about'', ''abstract'', ''accept'', ''action'', ''actor'', ''after'', ''alias'', ''all'',
     ''allocate'', ''allocation'', ''analysis'', ''and'', ''as'', ''assert'', ''assign'',
     ''assoc'', ''assume'', ''at'', ''attribute'', ''behavior'', ''bind'', ''binding'',
     ''bool'', ''by'', ''calc'', ''case'', ''chains'', ''class'', ''classifier'', ''comment'',
     ''composite'', ''concern'', ''conjugate'', ''conjugates'', ''conjugation'', ''connect'',
     ''connection'', ''connector'', ''const'', ''constant'', ''constraint'', ''crosses'',
     ''datatype'', ''decide'', ''def'', ''default'', ''defined'', ''dependency'', ''derived'',
     ''differences'', ''disjoining'', ''disjoint'', ''do'', ''doc'', ''else'', ''end'',
     ''entry'', ''enum'', ''event'', ''exhibit'', ''exit'', ''expose'', ''expr'', ''false'',
     ''feature'', ''featured'', ''featuring'', ''filter'', ''first'', ''flow'', ''for'',
     ''fork'', ''frame'', ''from'', ''function'', ''hastype'', ''if'', ''implies'', ''import'',
     ''in'', ''include'', ''individual'', ''inout'', ''interaction'', ''interface'',
     ''intersects'', ''inv'', ''inverse'', ''inverting'', ''istype'', ''item'', ''join'',
     ''language'', ''library'', ''locale'', ''loop'', ''member'', ''merge'', ''message'',
     ''meta'', ''metaclass'', ''metadata'', ''multiplicity'', ''namespace'', ''new'',
     ''nonunique'', ''not'', ''null'', ''objective'', ''occurrence'', ''of'', ''or'',
     ''ordered'', ''out'', ''package'', ''parallel'', ''part'', ''perform'', ''port'',
     ''portion'', ''predicate'', ''private'', ''protected'', ''public'', ''redefines'',
     ''redefinition'', ''ref'', ''references'', ''render'', ''rendering'', ''rep'', ''require'',
     ''requirement'', ''return'', ''satisfy'', ''send'', ''snapshot'', ''specialization'',
     ''specializes'', ''stakeholder'', ''standard'', ''state'', ''step'', ''struct'',
     ''subclassifier'', ''subject'', ''subset'', ''subsets'', ''subtype'', ''succession'',
     ''terminate'', ''then'', ''timeslice'', ''to'', ''transition'', ''true'', ''type'',
     ''typed'', ''typing'', ''unions'', ''until'', ''use'', ''variant'', ''variation'',
     ''verification'', ''verify'', ''via'', ''view'', ''viewpoint'', ''when'', ''while'',
     ''xor'']"

definition keyword_list_kerml :: "string list" where
  "keyword_list_kerml = [
     ''about'', ''abstract'', ''alias'', ''all'', ''and'', ''as'', ''assoc'', ''behavior'',
     ''binding'', ''bool'', ''by'', ''chains'', ''class'', ''classifier'', ''comment'',
     ''composite'', ''conjugate'', ''conjugates'', ''conjugation'', ''connector'', ''const'',
     ''crosses'', ''datatype'', ''default'', ''dependency'', ''derived'', ''differences'',
     ''disjoining'', ''disjoint'', ''doc'', ''else'', ''end'', ''expr'', ''false'', ''feature'',
     ''featured'', ''featuring'', ''filter'', ''first'', ''flow'', ''for'', ''from'',
     ''function'', ''hastype'', ''if'', ''implies'', ''import'', ''in'', ''inout'',
     ''interaction'', ''intersects'', ''inv'', ''inverse'', ''inverting'', ''istype'',
     ''language'', ''library'', ''locale'', ''member'', ''meta'', ''metaclass'', ''metadata'',
     ''multiplicity'', ''namespace'', ''new'', ''nonunique'', ''not'', ''null'', ''of'', ''or'',
     ''ordered'', ''out'', ''package'', ''portion'', ''predicate'', ''private'', ''protected'',
     ''public'', ''redefines'', ''redefinition'', ''references'', ''rep'', ''return'',
     ''specialization'', ''specializes'', ''standard'', ''step'', ''struct'', ''subclassifier'',
     ''subset'', ''subsets'', ''subtype'', ''succession'', ''then'', ''to'', ''true'', ''type'',
     ''typed'', ''typing'', ''unions'', ''var'', ''xor'']"

definition keyword_list_sysml :: "string list" where
  "keyword_list_sysml = [
     ''about'', ''abstract'', ''accept'', ''action'', ''actor'', ''after'', ''alias'', ''all'',
     ''allocate'', ''allocation'', ''analysis'', ''and'', ''as'', ''assert'', ''assign'',
     ''assume'', ''at'', ''attribute'', ''bind'', ''binding'', ''by'', ''calc'', ''case'',
     ''comment'', ''concern'', ''connect'', ''connection'', ''constant'', ''constraint'',
     ''crosses'', ''decide'', ''def'', ''default'', ''defined'', ''dependency'', ''derived'',
     ''do'', ''doc'', ''else'', ''end'', ''entry'', ''enum'', ''event'', ''exhibit'', ''exit'',
     ''expose'', ''false'', ''filter'', ''first'', ''flow'', ''for'', ''fork'', ''frame'',
     ''from'', ''hastype'', ''if'', ''implies'', ''import'', ''in'', ''include'',
     ''individual'', ''inout'', ''interface'', ''istype'', ''item'', ''join'', ''language'',
     ''library'', ''locale'', ''loop'', ''merge'', ''message'', ''meta'', ''metadata'', ''new'',
     ''nonunique'', ''not'', ''null'', ''objective'', ''occurrence'', ''of'', ''or'',
     ''ordered'', ''out'', ''package'', ''parallel'', ''part'', ''perform'', ''port'',
     ''private'', ''protected'', ''public'', ''redefines'', ''ref'', ''references'', ''render'',
     ''rendering'', ''rep'', ''require'', ''requirement'', ''return'', ''satisfy'', ''send'',
     ''snapshot'', ''specializes'', ''stakeholder'', ''standard'', ''state'', ''subject'',
     ''subsets'', ''succession'', ''terminate'', ''then'', ''timeslice'', ''to'',
     ''transition'', ''true'', ''until'', ''use'', ''variant'', ''variation'', ''verification'',
     ''verify'', ''via'', ''view'', ''viewpoint'', ''when'', ''while'', ''xor'']"

definition keyword_set :: "lang_kind \<Rightarrow> string list" where
  "keyword_set k = (case k of
     KindKerML \<Rightarrow> keyword_list_kerml | KindSysML \<Rightarrow> keyword_list_sysml
   | KindUnknown \<Rightarrow> keyword_list)"

definition is_keyword :: "string \<Rightarrow> bool" where
  "is_keyword s \<longleftrightarrow> s \<in> set keyword_list"

definition is_keyword_in :: "string \<Rightarrow> lang_kind \<Rightarrow> bool" where
  "is_keyword_in s k \<longleftrightarrow> s \<in> set (keyword_set k)"

definition contextual_list :: "string list" where
  "contextual_list =
     [''chain'', ''choice'', ''decision'', ''deep'', ''defer'', ''done'', ''final'', ''history'',
      ''initial'', ''junction'', ''point'', ''region'', ''shallow'']"

definition contextual_list_kerml :: "string list" where
  "contextual_list_kerml = [''var'']"

definition contextual_words :: "lang_kind \<Rightarrow> string list" where
  "contextual_words k =
     sort (contextual_list @ (if k \<noteq> KindSysML then contextual_list_kerml else []))"

section \<open>Byte classes\<close>

definition is_ident_start :: "char \<Rightarrow> bool" where
  "is_ident_start c \<longleftrightarrow> c = CHR ''_'' \<or> (CHR ''a'' \<le> c \<and> c \<le> CHR ''z'') \<or> (CHR ''A'' \<le> c \<and> c \<le> CHR ''Z'')"

definition is_digit :: "char \<Rightarrow> bool" where
  "is_digit c \<longleftrightarrow> CHR ''0'' \<le> c \<and> c \<le> CHR ''9''"

definition is_ident_cont :: "char \<Rightarrow> bool" where
  "is_ident_cont c \<longleftrightarrow> is_ident_start c \<or> (CHR ''0'' \<le> c \<and> c \<le> CHR ''9'')"

definition is_ws :: "char \<Rightarrow> bool" where
  "is_ws c \<longleftrightarrow> c = CHR '' '' \<or> c = CHR 0x09 \<or> c = CHR 0x0D \<or> c = CHR 0x0A"

definition operator_bytes :: "char list" where
  "operator_bytes = '':-.*=!<>?@/'' @ ''|&+%^~#()[]'' @ ''{},$;''"

definition can_start_token :: "char \<Rightarrow> bool" where
  "can_start_token c \<longleftrightarrow>
     is_ws c \<or> is_ident_start c \<or> is_digit c \<or> c = CHR 0x27 \<or> c = CHR 0x22
     \<or> c \<in> set operator_bytes"

definition single_char_kind :: "char \<Rightarrow> kind option" where
  "single_char_kind c = map_of
     [(CHR ''|'', T_Pipe), (CHR ''&'', T_Amp), (CHR ''+'', T_Plus), (CHR ''%'', T_Percent),
      (CHR ''^'', T_Caret), (CHR ''~'', T_Tilde), (CHR ''#'', T_Hash), (CHR ''('', T_LParen),
      (CHR '')'', T_RParen), (CHR ''['', T_LBracket), (CHR '']'', T_RBracket),
      (CHR ''{'', T_LBrace), (CHR ''}'', T_RBrace), (CHR '','', T_Comma), (CHR ''$'', T_Dollar),
      (CHR '';'', T_Semicolon)] c"

definition is_identifier :: "string \<Rightarrow> bool" where
  "is_identifier s \<longleftrightarrow> s \<noteq> [] \<and> is_ident_start (hd s) \<and> list_all is_ident_cont (tl s)"


section \<open>The scanner\<close>

record lexer =
  lx_src :: bytes
  lx_pos :: nat

definition new_lexer :: "source_file \<Rightarrow> lexer" where
  "new_lexer sf = \<lparr>lx_src = sf_content sf, lx_pos = 0\<rparr>"

text \<open>\<open>peek\<close>: the byte at \<open>pos+n\<close>, or 0 past the end.\<close>

definition peek :: "lexer \<Rightarrow> nat \<Rightarrow> char" where
  "peek lx n = (let i = lx_pos lx + n in if i \<ge> length (lx_src lx) then CHR 0x00 else lx_src lx ! i)"

definition lx_span :: "lexer \<Rightarrow> nat \<Rightarrow> span" where
  "lx_span lx start = \<lparr>span_offset = start, span_len = lx_pos lx - start\<rparr>"

definition mk_token :: "kind \<Rightarrow> nat \<Rightarrow> lexer \<Rightarrow> token \<times> lexer" where
  "mk_token k start lx =
     (\<lparr>tok_kind = k, tok_span = lx_span lx start, tok_keyword = [], tok_unterminated = False\<rparr>, lx)"

definition skip :: "nat \<Rightarrow> lexer \<Rightarrow> lexer" where
  "skip n lx = lx\<lparr>lx_pos := lx_pos lx + n\<rparr>"

definition skip_while :: "(char \<Rightarrow> bool) \<Rightarrow> lexer \<Rightarrow> lexer" where
  "skip_while keep lx = lx\<lparr>lx_pos := advance_while keep (lx_src lx) (lx_pos lx)\<rparr>"

definition at_byte :: "lexer \<Rightarrow> nat \<Rightarrow> (char \<Rightarrow> bool) \<Rightarrow> bool" where
  "at_byte lx n p \<longleftrightarrow> lx_pos lx + n < length (lx_src lx) \<and> p (lx_src lx ! (lx_pos lx + n))"

definition scan_whitespace :: "nat \<Rightarrow> lexer \<Rightarrow> token \<times> lexer" where
  "scan_whitespace start lx = mk_token T_Whitespace start (skip_while is_ws lx)"

definition scan_sl_note :: "nat \<Rightarrow> lexer \<Rightarrow> token \<times> lexer" where
  "scan_sl_note start lx =
     (let lx1 = skip_while (\<lambda>c. c \<noteq> CHR 0x0A \<and> c \<noteq> CHR 0x0D) (skip 2 lx);
          lx2 = (if at_byte lx1 0 (\<lambda>c. c = CHR 0x0D) then skip 1 lx1 else lx1);
          lx3 = (if at_byte lx2 0 (\<lambda>c. c = CHR 0x0A) then skip 1 lx2 else lx2)
      in mk_token T_SLNote start lx3)"

function until_star_slash :: "bytes \<Rightarrow> nat \<Rightarrow> bool \<times> nat" where
  "until_star_slash src pos =
     (if pos < length src then
        (if src ! pos = CHR ''*'' \<and> pos + 1 < length src \<and> src ! (pos + 1) = CHR ''/''
         then (True, pos + 2) else until_star_slash src (Suc pos))
      else (False, pos))"
  by pat_completeness auto
termination by (relation "measure (\<lambda>(src, pos). length src - pos)") auto

definition scan_ml_note :: "nat \<Rightarrow> lexer \<Rightarrow> token \<times> lexer" where
  "scan_ml_note start lx =
     (let lx1 = skip 3 lx; (closed, pos) = until_star_slash (lx_src lx1) (lx_pos lx1);
          (t, lx2) = mk_token T_MLNote start (lx1\<lparr>lx_pos := pos\<rparr>)
      in (t\<lparr>tok_unterminated := \<not> closed\<rparr>, lx2))"

definition scan_block_comment :: "nat \<Rightarrow> lexer \<Rightarrow> token \<times> lexer" where
  "scan_block_comment start lx =
     (let lx1 = skip 2 lx; (closed, pos) = until_star_slash (lx_src lx1) (lx_pos lx1);
          (t, lx2) = mk_token T_RegularComment start (lx1\<lparr>lx_pos := pos\<rparr>)
      in (t\<lparr>tok_unterminated := \<not> closed\<rparr>, lx2))"

text \<open>The loop of \<open>scanQuoted\<close>: the kind of the token it ends with, and the cursor.\<close>

function quoted_loop :: "char \<Rightarrow> kind \<Rightarrow> bytes \<Rightarrow> nat \<Rightarrow> kind \<times> nat" where
  "quoted_loop quote k src pos =
     (if pos < length src then
        (let c = src ! pos in
         if c = CHR 0x5C then
           quoted_loop quote k src (if pos + 1 < length src then pos + 2 else pos + 1)
         else if c = quote then (k, pos + 1)
         else if c = CHR 0x0A \<or> c = CHR 0x0D then (T_Error, pos)
         else quoted_loop quote k src (pos + 1))
      else (T_Error, pos))"
  by pat_completeness auto
termination by (relation "measure (\<lambda>(q, k, src, pos). length src - pos)") auto

definition scan_quoted :: "nat \<Rightarrow> char \<Rightarrow> kind \<Rightarrow> lexer \<Rightarrow> token \<times> lexer" where
  "scan_quoted start quote k lx =
     (let lx1 = skip 1 lx; (k', pos) = quoted_loop quote k (lx_src lx1) (lx_pos lx1)
      in mk_token k' start (lx1\<lparr>lx_pos := pos\<rparr>))"

definition scan_ident_or_keyword :: "nat \<Rightarrow> lexer \<Rightarrow> token \<times> lexer" where
  "scan_ident_or_keyword start lx =
     (let lx1 = skip_while is_ident_cont (skip 1 lx);
          text = slice start (lx_pos lx1) (lx_src lx1)
      in if is_keyword text
         then (\<lparr>tok_kind = T_Keyword, tok_span = lx_span lx1 start, tok_keyword = text,
                tok_unterminated = False\<rparr>, lx1)
         else mk_token T_Identifier start lx1)"

text \<open>\<open>consumeExponent\<close> returns whether it set \<open>isReal\<close>.\<close>

definition consume_exponent :: "lexer \<Rightarrow> bool \<times> lexer" where
  "consume_exponent lx =
     (if at_byte lx 0 (\<lambda>c. c = CHR ''e'' \<or> c = CHR ''E'') then
        (let n = (if at_byte lx 1 (\<lambda>c. c = CHR ''+'' \<or> c = CHR ''-'') then 2 else 1)
         in if at_byte lx n is_digit then (True, skip_while is_digit (skip n lx))
            else (False, lx))
      else (False, lx))"

definition scan_number :: "nat \<Rightarrow> lexer \<Rightarrow> token \<times> lexer" where
  "scan_number start lx =
     (if at_byte lx 0 (\<lambda>c. c = CHR ''.'') then
        mk_token T_Real start (snd (consume_exponent (skip_while is_digit (skip 1 lx))))
      else
        (let lx1 = skip_while is_digit lx;
             frac = at_byte lx1 0 (\<lambda>c. c = CHR ''.'') \<and> at_byte lx1 1 is_digit;
             lx2 = (if frac then skip_while is_digit (skip 1 lx1) else lx1);
             (expo, lx3) = consume_exponent lx2
         in mk_token (if frac \<or> expo then T_Real else T_Decimal) start lx3))"

definition scan_error :: "nat \<Rightarrow> lexer \<Rightarrow> token \<times> lexer" where
  "scan_error start lx =
     mk_token T_Error start (skip_while (\<lambda>c. \<not> can_start_token c) (skip 1 lx))"

text \<open>
  The operator switch of \<open>Next\<close>, longest match first: the kind and its length, or
  \<open>None\<close> for a byte that starts no operator of the switch.
\<close>

definition operator_kind :: "lexer \<Rightarrow> char \<Rightarrow> (kind \<times> nat) option" where
  "operator_kind lx c =
     (if c = CHR '':'' then
        (if peek lx 1 = CHR '':'' then
           (if peek lx 2 = CHR ''>'' then Some (T_ColonColonGt, 3) else Some (T_ColonColon, 2))
         else if peek lx 1 = CHR ''='' then Some (T_ColonEq, 2)
         else if peek lx 1 = CHR ''>'' then
           (if peek lx 2 = CHR ''>'' then Some (T_ColonGtGt, 3) else Some (T_ColonGt, 2))
         else Some (T_Colon, 1))
      else if c = CHR ''-'' then
        (if peek lx 1 = CHR ''>'' then Some (T_Arrow, 2) else Some (T_Minus, 1))
      else if c = CHR ''.'' then
        (if peek lx 1 = CHR ''?'' then Some (T_DotQuestion, 2)
         else if peek lx 1 = CHR ''.'' then Some (T_DotDot, 2) else Some (T_Dot, 1))
      else if c = CHR ''*'' then
        (if peek lx 1 = CHR ''*'' then Some (T_StarStar, 2) else Some (T_Star, 1))
      else if c = CHR ''='' then
        (if peek lx 1 = CHR ''='' \<and> peek lx 2 = CHR ''='' then Some (T_EqEqEq, 3)
         else if peek lx 1 = CHR ''='' then Some (T_EqEq, 2)
         else if peek lx 1 = CHR ''>'' then Some (T_EqGt, 2) else Some (T_Eq, 1))
      else if c = CHR ''!'' then
        (if peek lx 1 = CHR ''='' \<and> peek lx 2 = CHR ''='' then Some (T_NotEqEq, 3)
         else if peek lx 1 = CHR ''='' then Some (T_NotEq, 2) else Some (T_Error, 1))
      else if c = CHR ''<'' then
        (if peek lx 1 = CHR ''='' then Some (T_Le, 2) else Some (T_Lt, 1))
      else if c = CHR ''>'' then
        (if peek lx 1 = CHR ''='' then Some (T_Ge, 2) else Some (T_Gt, 1))
      else if c = CHR ''?'' then
        (if peek lx 1 = CHR ''?'' then Some (T_QuestionQ, 2) else Some (T_Question, 1))
      else if c = CHR ''@'' then
        (if peek lx 1 = CHR ''@'' then Some (T_AtAt, 2) else Some (T_At, 1))
      else if c = CHR ''/'' then Some (T_Slash, 1)
      else None)"

definition scan_operator :: "nat \<Rightarrow> lexer \<Rightarrow> token \<times> lexer" where
  "scan_operator start lx =
     (let c = lx_src lx ! lx_pos lx in
      case operator_kind lx c of
        Some (k, n) \<Rightarrow> mk_token k start (skip n lx)
      | None \<Rightarrow> (case single_char_kind c of
          Some k \<Rightarrow> mk_token k start (skip 1 lx)
        | None \<Rightarrow> scan_error start lx))"

definition next_token :: "lexer \<Rightarrow> token \<times> lexer" where
  "next_token lx =
     (if lx_pos lx \<ge> length (lx_src lx)
      then (\<lparr>tok_kind = T_EOF, tok_span = \<lparr>span_offset = length (lx_src lx), span_len = 0\<rparr>,
             tok_keyword = [], tok_unterminated = False\<rparr>, lx)
      else
        (let start = lx_pos lx; c = lx_src lx ! lx_pos lx in
         if is_ws c then scan_whitespace start lx
         else if c = CHR ''/'' \<and> peek lx 1 = CHR ''/'' \<and> peek lx 2 = CHR ''*'' then scan_ml_note start lx
         else if c = CHR ''/'' \<and> peek lx 1 = CHR ''/'' then scan_sl_note start lx
         else if c = CHR ''/'' \<and> peek lx 1 = CHR ''*'' then scan_block_comment start lx
         else if is_ident_start c then scan_ident_or_keyword start lx
         else if c = CHR 0x27 then scan_quoted start (CHR 0x27) T_UnrestrictedName lx
         else if is_digit c then scan_number start lx
         else if c = CHR ''.'' \<and> is_digit (peek lx 1) then scan_number start lx
         else if c = CHR 0x22 then scan_quoted start (CHR 0x22) T_String lx
         else scan_operator start lx))"

section \<open>Spelling of names\<close>

definition name_text :: "string \<Rightarrow> string" where
  "name_text name =
     (if is_identifier name \<and> \<not> is_keyword name then name
      else [CHR 0x27] @ name @ [CHR 0x27])"

end
