(* ===== verification/Tokens.thy ===== *)
theory Tokens
  imports Lexer
begin

text \<open>
  What the scanner promises its clients: every call of \<open>Next\<close> before the end of the source
  consumes at least one byte and returns the span it consumed, so pulling tokens until
  \<open>EOF\<close> ends and the tokens tile the source. The interface \<open>tokenizer\<close> states it for
  the formatter; \<open>tokenize\<close> (\<open>internal/core/format/format.go\<close>) provides it.
\<close>

section \<open>One call of the scanner\<close>

definition scans :: "lexer \<Rightarrow> token \<times> lexer \<Rightarrow> bool" where
  "scans lx r \<longleftrightarrow> (case r of (t, lx') \<Rightarrow>
     lx_src lx' = lx_src lx \<and> lx_pos lx < lx_pos lx' \<and> lx_pos lx' \<le> length (lx_src lx)
     \<and> tok_span t = \<lparr>span_offset = lx_pos lx, span_len = lx_pos lx' - lx_pos lx\<rparr>
     \<and> tok_kind t \<noteq> T_EOF)"

lemma src_skip [simp]: "lx_src (skip n lx) = lx_src lx" "lx_pos (skip n lx) = lx_pos lx + n"
  by (simp_all add: skip_def)

lemma src_skip_while [simp]: "lx_src (skip_while k lx) = lx_src lx"
  by (simp add: skip_while_def)

lemma pos_skip_while_ge: "lx_pos lx \<le> lx_pos (skip_while k lx)"
  by (simp add: skip_while_def advance_while_ge)

lemma pos_skip_while_le [intro]:
  "lx_pos lx \<le> length (lx_src lx) \<Longrightarrow> lx_pos (skip_while k lx) \<le> length (lx_src lx)"
  by (simp add: skip_while_def advance_while_le)

lemma skip_while_first:
  "lx_pos lx < length (lx_src lx) \<Longrightarrow> k (lx_src lx ! lx_pos lx) \<Longrightarrow> lx_pos lx < lx_pos (skip_while k lx)"
  using advance_while_ge [of "Suc (lx_pos lx)" k "lx_src lx"]
  by (simp add: skip_while_def advance_while.simps [of k "lx_src lx" "lx_pos lx"])

lemma scans_mk_token:
  "k \<noteq> T_EOF \<Longrightarrow> lx_src lx' = lx_src lx \<Longrightarrow> lx_pos lx < lx_pos lx' \<Longrightarrow> lx_pos lx' \<le> length (lx_src lx)
   \<Longrightarrow> scans lx (mk_token k (lx_pos lx) lx')"
  by (simp add: scans_def mk_token_def lx_span_def)

lemma peek_nonzero: "peek lx n = c \<Longrightarrow> c \<noteq> CHR 0x00 \<Longrightarrow> lx_pos lx + n < length (lx_src lx)"
  by (auto simp: peek_def Let_def split: if_splits)

lemma until_star_slash_bounds:
  "pos \<le> length src \<Longrightarrow> until_star_slash src pos = (b, pos') \<Longrightarrow> pos \<le> pos' \<and> pos' \<le> length src"
proof (induction src pos rule: until_star_slash.induct)
  case (1 src pos)
  show ?case
    using 1(1) 1(2,3) by (subst (asm) (2) until_star_slash.simps) (auto split: if_splits)
qed

lemma quoted_loop_bounds:
  "pos \<le> length src \<Longrightarrow> quoted_loop q k src pos = (k', pos') \<Longrightarrow>
    pos \<le> pos' \<and> pos' \<le> length src \<and> (k' = k \<or> k' = T_Error)"
proof (induction q k src pos rule: quoted_loop.induct)
  case (1 q k src pos)
  note eq = 1(4) [unfolded quoted_loop.simps [of q k src pos] Let_def]
  consider (eof) "\<not> pos < length src" | (esc) "pos < length src" "src ! pos = CHR 0x5C"
    | (quote) "pos < length src" "src ! pos \<noteq> CHR 0x5C" "src ! pos = q"
    | (nl) "pos < length src" "src ! pos \<noteq> CHR 0x5C" "src ! pos \<noteq> q"
        "src ! pos = CHR 0x0A \<or> src ! pos = CHR 0x0D"
    | (other) "pos < length src" "src ! pos \<noteq> CHR 0x5C" "src ! pos \<noteq> q"
        "\<not> (src ! pos = CHR 0x0A \<or> src ! pos = CHR 0x0D)"
    by blast
  then show ?case
  proof cases
    case esc
    with eq have "quoted_loop q k src (if pos + 1 < length src then pos + 2 else pos + 1) = (k', pos')"
      by simp
    from 1(1) [OF esc(1) refl esc(2) _ this] esc(1) show ?thesis
      by (cases "pos + 1 < length src") auto
  next
    case other
    with eq have "quoted_loop q k src (pos + 1) = (k', pos')" by simp
    from 1(2) [OF other(1) refl other(2,3,4) _ this] other(1) show ?thesis by simp
  qed (use eq 1(3) in auto)
qed

declare until_star_slash.simps [simp del] quoted_loop.simps [simp del]

lemma at_byte_skip: "at_byte lx n p \<Longrightarrow> lx_pos lx + n < length (lx_src lx)"
  by (simp add: at_byte_def)

lemma scans_whitespace:
  "lx_pos lx < length (lx_src lx) \<Longrightarrow> is_ws (lx_src lx ! lx_pos lx) \<Longrightarrow>
    scans lx (scan_whitespace (lx_pos lx) lx)"
  unfolding scan_whitespace_def by (rule scans_mk_token) (auto intro: skip_while_first)

lemma scans_sl_note:
  assumes "lx_pos lx + 1 < length (lx_src lx)"
  shows "scans lx (scan_sl_note (lx_pos lx) lx)"
proof -
  define lx1 where "lx1 = skip_while (\<lambda>c. c \<noteq> CHR 0x0A \<and> c \<noteq> CHR 0x0D) (skip 2 lx)"
  have 1: "lx_src lx1 = lx_src lx" "lx_pos lx < lx_pos lx1" "lx_pos lx1 \<le> length (lx_src lx)"
    using assms pos_skip_while_le [of "skip 2 lx"]
      pos_skip_while_ge [of "skip 2 lx" "\<lambda>c. c \<noteq> CHR 0x0A \<and> c \<noteq> CHR 0x0D"]
    unfolding lx1_def by auto
  define lx2 where "lx2 = (if at_byte lx1 0 (\<lambda>c. c = CHR 0x0D) then skip 1 lx1 else lx1)"
  have 2: "lx_src lx2 = lx_src lx" "lx_pos lx < lx_pos lx2" "lx_pos lx2 \<le> length (lx_src lx)"
    using 1 by (auto simp: lx2_def at_byte_def)
  show ?thesis
    unfolding scan_sl_note_def lx1_def [symmetric] Let_def lx2_def [symmetric]
    using 2 by (intro scans_mk_token) (auto simp: at_byte_def)
qed

lemma scans_ml_note:
  assumes "lx_pos lx + 2 < length (lx_src lx)"
  shows "scans lx (scan_ml_note (lx_pos lx) lx)"
  using assms until_star_slash_bounds [of "lx_pos lx + 3" "lx_src lx"]
  by (auto simp: scan_ml_note_def scans_def mk_token_def lx_span_def Let_def split: prod.splits)

lemma scans_block_comment:
  assumes "lx_pos lx + 1 < length (lx_src lx)"
  shows "scans lx (scan_block_comment (lx_pos lx) lx)"
  using assms until_star_slash_bounds [of "lx_pos lx + 2" "lx_src lx"]
  by (auto simp: scan_block_comment_def scans_def mk_token_def lx_span_def Let_def split: prod.splits)

lemma scans_quoted:
  assumes "lx_pos lx < length (lx_src lx)" "k \<noteq> T_EOF"
  shows "scans lx (scan_quoted (lx_pos lx) q k lx)"
  using assms quoted_loop_bounds [of "lx_pos lx + 1" "lx_src lx" q k]
  by (fastforce simp: scan_quoted_def scans_def mk_token_def lx_span_def Let_def split: prod.splits)

lemma scans_ident:
  assumes "lx_pos lx < length (lx_src lx)"
  shows "scans lx (scan_ident_or_keyword (lx_pos lx) lx)"
  using assms pos_skip_while_ge [of "skip 1 lx" is_ident_cont] pos_skip_while_le [of "skip 1 lx" is_ident_cont]
  by (auto simp: scan_ident_or_keyword_def scans_def mk_token_def lx_span_def Let_def)

lemma consume_exponent_bounds:
  assumes "lx_pos lx \<le> length (lx_src lx)" "consume_exponent lx = (r, lx')"
  shows "lx_src lx' = lx_src lx \<and> lx_pos lx \<le> lx_pos lx' \<and> lx_pos lx' \<le> length (lx_src lx)"
  using assms pos_skip_while_ge [of "skip 1 lx" is_digit] pos_skip_while_le [of "skip 1 lx" is_digit]
    pos_skip_while_ge [of "skip 2 lx" is_digit] pos_skip_while_le [of "skip 2 lx" is_digit]
  by (auto simp: consume_exponent_def Let_def at_byte_def split: if_splits)

lemma scans_number:
  assumes "lx_pos lx < length (lx_src lx)" "at_byte lx 0 is_digit \<or> at_byte lx 0 (\<lambda>c. c = CHR ''.'')"
  shows "scans lx (scan_number (lx_pos lx) lx)"
proof (cases "at_byte lx 0 (\<lambda>c. c = CHR ''.'')")
  case True
  define lx1 where "lx1 = skip_while is_digit (skip 1 lx)"
  have 1: "lx_src lx1 = lx_src lx" "lx_pos lx < lx_pos lx1" "lx_pos lx1 \<le> length (lx_src lx)"
    using assms(1) pos_skip_while_ge [of "skip 1 lx" is_digit] pos_skip_while_le [of "skip 1 lx" is_digit]
    by (auto simp: lx1_def)
  obtain r lx2 where "consume_exponent lx1 = (r, lx2)" by force
  with True 1 consume_exponent_bounds [OF _ this] show ?thesis
    unfolding scan_number_def lx1_def [symmetric] by (auto intro!: scans_mk_token)
next
  case False
  define lx1 where "lx1 = skip_while is_digit lx"
  have 1: "lx_src lx1 = lx_src lx" "lx_pos lx < lx_pos lx1" "lx_pos lx1 \<le> length (lx_src lx)"
    using assms False skip_while_first [of lx is_digit] pos_skip_while_le [of lx is_digit]
    by (auto simp: lx1_def at_byte_def)
  define frac where "frac = (at_byte lx1 0 (\<lambda>c. c = CHR ''.'') \<and> at_byte lx1 1 is_digit)"
  define lx2 where "lx2 = (if frac then skip_while is_digit (skip 1 lx1) else lx1)"
  have 2: "lx_src lx2 = lx_src lx" "lx_pos lx < lx_pos lx2" "lx_pos lx2 \<le> length (lx_src lx)"
    using 1 pos_skip_while_ge [of "skip 1 lx1" is_digit] pos_skip_while_le [of "skip 1 lx1" is_digit]
    by (auto simp: lx2_def frac_def at_byte_def)
  obtain r lx3 where "consume_exponent lx2 = (r, lx3)" by force
  with False 2 consume_exponent_bounds [OF _ this] show ?thesis
    unfolding scan_number_def lx1_def [symmetric] Let_def frac_def [symmetric] lx2_def [symmetric]
    by (auto intro!: scans_mk_token)
qed

lemma scans_error:
  assumes "lx_pos lx < length (lx_src lx)"
  shows "scans lx (scan_error (lx_pos lx) lx)"
  using assms pos_skip_while_ge [of "skip 1 lx" "\<lambda>c. \<not> can_start_token c"]
    pos_skip_while_le [of "skip 1 lx" "\<lambda>c. \<not> can_start_token c"]
  unfolding scan_error_def by (intro scans_mk_token) auto

lemma operator_kind_bounds:
  assumes "lx_pos lx < length (lx_src lx)" "operator_kind lx c = Some (k, n)"
  shows "0 < n \<and> lx_pos lx + n \<le> length (lx_src lx) \<and> k \<noteq> T_EOF"
  using assms(2) assms(1) peek_nonzero [of lx 1] peek_nonzero [of lx 2]
  unfolding operator_kind_def
  by (fastforce split: if_splits)

lemma single_char_kind_EOF: "single_char_kind c \<noteq> Some T_EOF"
  by (simp add: single_char_kind_def)

lemma scans_operator:
  assumes "lx_pos lx < length (lx_src lx)"
  shows "scans lx (scan_operator (lx_pos lx) lx)"
  using assms single_char_kind_EOF operator_kind_bounds [OF assms]
  by (auto simp: scan_operator_def Let_def intro!: scans_mk_token scans_error split: option.splits)

lemma next_token_scans:
  assumes "lx_pos lx < length (lx_src lx)"
  shows "scans lx (next_token lx)"
proof -
  let ?c = "lx_src lx ! lx_pos lx"
  have p1: "c \<noteq> CHR 0x00 \<Longrightarrow> peek lx 1 = c \<Longrightarrow> lx_pos lx + 1 < length (lx_src lx)" for c
    using peek_nonzero [of lx 1] by simp
  have p2: "c \<noteq> CHR 0x00 \<Longrightarrow> peek lx 2 = c \<Longrightarrow> lx_pos lx + 2 < length (lx_src lx)" for c
    using peek_nonzero [of lx 2] by simp
  show ?thesis
    using assms p1 [of "CHR ''/''"] p1 [of "CHR ''*''"] p2 [of "CHR ''*''"]
    by (simp add: next_token_def Let_def scans_whitespace scans_ml_note scans_sl_note
        scans_block_comment scans_ident scans_quoted scans_operator scans_number at_byte_def)
qed

section \<open>Pulling every token\<close>

lemma next_token_EOF: "tok_kind (fst (next_token lx)) = T_EOF \<longleftrightarrow> length (lx_src lx) \<le> lx_pos lx"
  using next_token_scans [of lx]
  by (cases "lx_pos lx < length (lx_src lx)") (auto simp: scans_def next_token_def split: prod.splits)

function tokenize_from :: "lexer \<Rightarrow> token list" where
  "tokenize_from lx =
     (case next_token lx of (tok, lx') \<Rightarrow>
        if tok_kind tok = T_EOF then [] else tok # tokenize_from lx')"
  by pat_completeness auto
termination
proof (relation "measure (\<lambda>lx. length (lx_src lx) - lx_pos lx)", goal_cases)
  case (2 lx tok lx')
  then have "tok_kind (fst (next_token lx)) \<noteq> T_EOF" by (metis fst_conv)
  then have "lx_pos lx < length (lx_src lx)" by (simp add: next_token_EOF)
  from next_token_scans [OF this] have "scans lx (tok, lx')" using 2(1,2) by metis
  then show ?case by (auto simp: scans_def)
qed simp

declare tokenize_from.simps [simp del]

definition tokenize :: "string \<Rightarrow> bytes \<Rightarrow> token list" where
  "tokenize name src = tokenize_from (new_lexer (new_source name src))"

definition token_text :: "bytes \<Rightarrow> token \<Rightarrow> bytes" where
  "token_text src tok = slice (span_offset (tok_span tok)) (span_end (tok_span tok)) src"

text \<open>The tokens of a source lie side by side and none is empty.\<close>

fun spans_from :: "nat \<Rightarrow> token list \<Rightarrow> nat \<Rightarrow> bool" where
  "spans_from p [] q \<longleftrightarrow> p = q"
| "spans_from p (t # ts) q \<longleftrightarrow>
     span_offset (tok_span t) = p \<and> 0 < span_len (tok_span t) \<and> spans_from (span_end (tok_span t)) ts q"

lemma spans_from_le: "spans_from p ts q \<Longrightarrow> p \<le> q"
  by (induction ts arbitrary: p) (force simp: span_end_def)+

lemma spans_from_concat:
  "spans_from p ts q \<Longrightarrow> concat (map (token_text src) ts) = slice p q src"
proof (induction ts arbitrary: p)
  case Nil
  then show ?case by (simp add: slice_def)
next
  case (Cons t ts)
  then have "p \<le> span_end (tok_span t)" "span_end (tok_span t) \<le> q"
    by (auto simp: span_end_def dest: spans_from_le)
  then have "slice p (span_end (tok_span t)) src @ slice (span_end (tok_span t)) q src = slice p q src"
    by (rule slice_append)
  moreover have "concat (map (token_text src) ts) = slice (span_end (tok_span t)) q src"
    using Cons by simp
  moreover have "token_text src t = slice p (span_end (tok_span t)) src"
    using Cons.prems by (simp add: token_text_def)
  ultimately show ?case by simp
qed

lemma scans_induct [case_names scan]:
  assumes "\<And>lx. (\<And>t lx'. scans lx (t, lx') \<Longrightarrow> P lx') \<Longrightarrow> P lx"
  shows "P lx"
proof (induction "length (lx_src lx) - lx_pos lx" arbitrary: lx rule: less_induct)
  case less
  show ?case
  proof (rule assms)
    fix t lx' assume "scans lx (t, lx')"
    then show "P lx'" by (intro less) (auto simp: scans_def)
  qed
qed

lemma tokenize_from_cases:
  assumes "lx_pos lx \<le> length (lx_src lx)"
  obtains (eof) "lx_pos lx = length (lx_src lx)" "tokenize_from lx = []"
  | (tok) t lx' where "lx_pos lx < length (lx_src lx)" "next_token lx = (t, lx')"
      "scans lx (t, lx')" "tokenize_from lx = t # tokenize_from lx'"
proof (cases "lx_pos lx < length (lx_src lx)")
  case True
  obtain t lx' where n: "next_token lx = (t, lx')" by force
  with next_token_scans [OF True] have "scans lx (t, lx')" by simp
  with n True show thesis
    by (intro tok) (auto simp: tokenize_from.simps [of lx] scans_def)
next
  case False
  with assms next_token_EOF [of lx] show thesis
    by (intro eof) (auto simp: tokenize_from.simps [of lx] split: prod.splits)
qed

lemma tokenize_from_spans:
  "lx_pos lx \<le> length (lx_src lx) \<Longrightarrow>
    spans_from (lx_pos lx) (tokenize_from lx) (length (lx_src lx))"
proof (induction lx rule: scans_induct)
  case (scan lx)
  from scan(2) show ?case
  proof (cases rule: tokenize_from_cases)
    case (tok t lx')
    then have "spans_from (lx_pos lx') (tokenize_from lx') (length (lx_src lx'))"
      using scan(1) [OF tok(3)] by (auto simp: scans_def)
    with tok show ?thesis by (auto simp: scans_def span_end_def)
  qed simp
qed

section \<open>White-space tokens hold white space only\<close>

definition ws_token_ok :: "bytes \<Rightarrow> token \<Rightarrow> bool" where
  "ws_token_ok src t \<longleftrightarrow> (tok_kind t = T_Whitespace \<longrightarrow> list_all is_ws (token_text src t))"

lemma single_char_kind_not_ws: "single_char_kind c \<noteq> Some T_Whitespace"
  by (simp add: single_char_kind_def)

lemma operator_kind_not_ws: "operator_kind lx c \<noteq> Some (T_Whitespace, n)"
  by (simp add: operator_kind_def)

lemma mk_token_fields [simp]:
  "tok_kind (fst (mk_token k start lx)) = k" "snd (mk_token k start lx) = lx"
  "tok_unterminated (fst (mk_token k start lx)) = False"
  by (simp_all add: mk_token_def)

lemma next_token_ws:
  assumes "lx_pos lx < length (lx_src lx)" "tok_kind (fst (next_token lx)) = T_Whitespace"
  shows "next_token lx = scan_whitespace (lx_pos lx) lx"
proof (rule ccontr)
  assume "next_token lx \<noteq> scan_whitespace (lx_pos lx) lx"
  moreover have "tok_kind (fst (scan_operator (lx_pos lx) lx)) \<noteq> T_Whitespace"
    using single_char_kind_not_ws operator_kind_not_ws
    by (auto simp: scan_operator_def Let_def scan_error_def split: option.splits)
  moreover have "tok_kind (fst (scan_quoted (lx_pos lx) q k lx)) \<noteq> T_Whitespace"
    if "k \<noteq> T_Whitespace" for q k
    using that quoted_loop_bounds [of "lx_pos lx + 1" "lx_src lx" q k] assms(1)
    by (auto simp: scan_quoted_def Let_def split: prod.splits)
  ultimately show False
    using assms
    by (auto simp: next_token_def Let_def scan_ml_note_def scan_sl_note_def scan_block_comment_def
        scan_ident_or_keyword_def scan_number_def mk_token_def
        split: if_splits prod.splits)
qed

lemma tokenize_from_ws:
  "lx_pos lx \<le> length (lx_src lx) \<Longrightarrow> list_all (ws_token_ok (lx_src lx)) (tokenize_from lx)"
proof (induction lx rule: scans_induct)
  case (scan lx)
  from scan(2) show ?case
  proof (cases rule: tokenize_from_cases)
    case (tok t lx')
    then have "list_all (ws_token_ok (lx_src lx')) (tokenize_from lx')"
      using scan(1) [OF tok(3)] by (auto simp: scans_def)
    moreover have "ws_token_ok (lx_src lx) t"
    proof -
      have "list_all is_ws (token_text (lx_src lx) t)" if k: "tok_kind t = T_Whitespace"
      proof -
        have "(t, lx') = scan_whitespace (lx_pos lx) lx"
          using next_token_ws [of lx] tok(1,2) k by simp
        then have "token_text (lx_src lx) t =
            slice (lx_pos lx) (advance_while is_ws (lx_src lx) (lx_pos lx)) (lx_src lx)"
          using advance_while_ge [of "lx_pos lx" is_ws "lx_src lx"]
          by (simp add: scan_whitespace_def mk_token_def token_text_def lx_span_def span_end_def skip_while_def)
        then show ?thesis
          by (simp add: slice_advance_while list_all_iff) (meson set_takeWhileD)
      qed
      then show ?thesis by (simp add: ws_token_ok_def)
    qed
    ultimately show ?thesis using tok by (auto simp: scans_def)
  qed simp
qed

section \<open>The interface of a tokenizer\<close>

definition strip_ws :: "bytes \<Rightarrow> bytes" where
  "strip_ws s = filter (\<lambda>c. \<not> is_ws c) s"

lemma strip_ws_simps [ws_simps]:
  "strip_ws [] = []"
  "strip_ws (a @ b) = strip_ws a @ strip_ws b"
  "strip_ws (c # b) = (if is_ws c then strip_ws b else c # strip_ws b)"
  by (simp_all add: strip_ws_def)

lemma strip_ws_all: "list_all is_ws s \<Longrightarrow> strip_ws s = []"
  by (induction s) (auto simp: ws_simps)

lemma strip_ws_concat: "strip_ws (concat xss) = concat (map strip_ws xss)"
  by (induction xss) (auto simp: ws_simps)

locale tokenizer =
  fixes toks :: "bytes \<Rightarrow> token list"
  assumes toks_tile: "spans_from 0 (toks src) (length src)"
    and toks_ws: "list_all (ws_token_ok src) (toks src)"
begin

lemma toks_concat: "concat (map (token_text src) (toks src)) = src"
  using spans_from_concat [OF toks_tile] by (simp add: slice_all)

lemma toks_strip:
  "strip_ws src = concat (map (\<lambda>t. strip_ws (token_text src t))
     (filter (\<lambda>t. tok_kind t \<noteq> T_Whitespace) (toks src)))"
proof -
  have "list_all (ws_token_ok src) ts \<Longrightarrow> concat (map (\<lambda>t. strip_ws (token_text src t)) ts) =
      concat (map (\<lambda>t. strip_ws (token_text src t)) (filter (\<lambda>t. tok_kind t \<noteq> T_Whitespace) ts))" for ts
    by (induction ts) (auto simp: ws_token_ok_def strip_ws_all)
  from this [OF toks_ws] show ?thesis
    by (subst toks_concat [of src, symmetric]) (simp add: strip_ws_concat comp_def)
qed

lemma toks_nonempty: "t \<in> set (toks src) \<Longrightarrow> token_text src t \<noteq> []"
proof -
  have "spans_from p ts q \<Longrightarrow> q \<le> length src \<Longrightarrow> t \<in> set ts \<Longrightarrow> token_text src t \<noteq> []" for p ts q t
  proof (induction ts arbitrary: p)
    case (Cons u ts)
    then have "span_end (tok_span u) \<le> q" by (auto dest: spans_from_le)
    with Cons show ?case by (auto simp: token_text_def slice_def span_end_def)
  qed simp
  with toks_tile show "t \<in> set (toks src) \<Longrightarrow> token_text src t \<noteq> []" by blast
qed

end

interpretation go_lexer: tokenizer "tokenize name"
proof
  fix src
  let ?lx = "new_lexer (new_source name src)"
  have lx: "lx_src ?lx = src" "lx_pos ?lx = 0" by (simp_all add: new_lexer_def new_source_def)
  show "spans_from 0 (tokenize name src) (length src)"
    using tokenize_from_spans [of ?lx] lx by (simp add: tokenize_def)
  show "list_all (ws_token_ok src) (tokenize name src)"
    using tokenize_from_ws [of ?lx] lx by (simp add: tokenize_def)
qed

section \<open>Properties\<close>

text \<open>
  C26. Tokenizing ends on every source and loses nothing: the texts of the tokens, in order,
  concatenate to the source byte for byte, and no token is empty. (\<open>tokenize\<close> is a total
  function: its termination proof is that every \<open>Next\<close> before the end consumes a byte.)
\<close>

theorem tokenize_tiles:
  "concat (map (token_text src) (tokenize name src)) = src
   \<and> list_all (\<lambda>t. token_text src t \<noteq> [] \<and> tok_kind t \<noteq> T_EOF) (tokenize name src)"
proof -
  have "lx_pos lx \<le> length (lx_src lx) \<Longrightarrow> list_all (\<lambda>t. tok_kind t \<noteq> T_EOF) (tokenize_from lx)" for lx
  proof (induction lx rule: scans_induct)
    case (scan lx)
    from scan(2) show ?case
      by (cases rule: tokenize_from_cases) (auto simp: scans_def intro: scan(1))
  qed
  from this [of "new_lexer (new_source name src)"] show ?thesis
    using go_lexer.toks_concat go_lexer.toks_nonempty
    by (auto simp: list_all_iff tokenize_def new_lexer_def)
qed

end
