(* ===== verification/Names.thy ===== *)
theory Names
  imports Tokens
begin

text \<open>
  Names as the notation spells them: \<open>NameText\<close> and \<open>QualifiedNameText\<close>
  (\<open>internal/core/lexer/name.go\<close>) against the reading of a name token by the parser
  (\<open>parseNameSegment\<close>, \<open>internal/core/parser/namespace.go\<close>). The pair is a codec on the
  names a quoted literal can hold.
\<close>

section \<open>Reading a name token\<close>

definition reserved_word :: "lang_kind \<Rightarrow> string \<Rightarrow> bool" where
  "reserved_word k w = is_keyword_in w (if k = KindUnknown then KindSysML else k)"

definition at_name :: "lang_kind \<Rightarrow> token \<Rightarrow> bool" where
  "at_name k tok \<longleftrightarrow> (case tok_kind tok of
     T_Identifier \<Rightarrow> True | T_UnrestrictedName \<Rightarrow> True
   | T_Keyword \<Rightarrow> \<not> reserved_word k (tok_keyword tok) | _ \<Rightarrow> False)"

definition parse_name_segment :: "lang_kind \<Rightarrow> bytes \<Rightarrow> token \<Rightarrow> bytes option" where
  "parse_name_segment k src tok =
     (if \<not> at_name k tok then None
      else
        (let text = token_text src tok in
         if tok_kind tok = T_UnrestrictedName \<and> length text \<ge> 2
            \<and> hd text = CHR 0x27 \<and> last text = CHR 0x27
         then Some (slice 1 (length text - 1) text) else Some text))"

text \<open>The name a one-token document spells.\<close>

definition read_name :: "lang_kind \<Rightarrow> bytes \<Rightarrow> bytes option" where
  "read_name k src = (case tokenize [] src of [tok] \<Rightarrow> parse_name_segment k src tok | _ \<Rightarrow> None)"

section \<open>Splitting a qualified name\<close>

text \<open>\<open>strings.Split(fqn, "::")\<close> and \<open>strings.Join(segments, "::")\<close>.\<close>

fun split_colons :: "string \<Rightarrow> string \<Rightarrow> string list" where
  "split_colons acc [] = [acc]"
| "split_colons acc [c] = [acc @ [c]]"
| "split_colons acc (c # d # s) =
     (if c = CHR '':'' \<and> d = CHR '':'' then acc # split_colons [] s
      else split_colons (acc @ [c]) (d # s))"

definition qualified_name_text :: "string \<Rightarrow> string" where
  "qualified_name_text fqn =
     (if fqn = [] then fqn
      else join_with ''::'' (map name_text (split_colons [] fqn)))"

section \<open>Quotable names lex back\<close>

text \<open>The raw text between the quotes of an unrestricted name: no bare quote or line end, and
  every backslash followed by the byte it escapes.\<close>

fun quotable :: "string \<Rightarrow> bool" where
  "quotable [] \<longleftrightarrow> True"
| "quotable [c] \<longleftrightarrow> c \<noteq> CHR 0x5C \<and> c \<noteq> CHR 0x27 \<and> c \<noteq> CHR 0x0A \<and> c \<noteq> CHR 0x0D"
| "quotable (c # d # s) \<longleftrightarrow>
     (if c = CHR 0x5C then quotable s
      else c \<noteq> CHR 0x27 \<and> c \<noteq> CHR 0x0A \<and> c \<noteq> CHR 0x0D \<and> quotable (d # s))"

lemma quoted_loop_quotable:
  "quotable n \<Longrightarrow> src = pre @ n @ CHR 0x27 # post \<Longrightarrow>
    quoted_loop (CHR 0x27) k src (length pre) = (k, length pre + length n + 1)"
proof (induction n arbitrary: pre rule: quotable.induct)
  case 1
  then show ?case by (simp add: quoted_loop.simps nth_append)
next
  case (2 c)
  then have "quoted_loop (CHR 0x27) k src (length (pre @ [c])) = (k, length (pre @ [c]) + 0 + 1)"
    by (simp add: quoted_loop.simps [of _ _ _ "Suc (length pre)"] nth_append)
  with 2 show ?case
    by (simp add: quoted_loop.simps [of _ _ _ "length pre"] nth_append)
next
  case (3 c d s)
  show ?case
  proof (cases "c = CHR 0x5C")
    case True
    with 3 have "quoted_loop (CHR 0x27) k src (length (pre @ [c, d])) = (k, length (pre @ [c, d]) + length s + 1)"
      by simp
    with 3 True show ?thesis
      by (simp add: quoted_loop.simps [of _ _ _ "length pre"] nth_append)
  next
    case False
    with 3 have "quoted_loop (CHR 0x27) k src (length (pre @ [c])) = (k, length (pre @ [c]) + length (d # s) + 1)"
      by simp
    with 3 False show ?thesis
      by (simp add: quoted_loop.simps [of _ _ _ "length pre"] nth_append)
  qed
qed

lemma ident_start_facts:
  "is_ident_start c \<Longrightarrow> \<not> is_ws c \<and> c \<noteq> CHR ''/'' \<and> c \<noteq> CHR 0x27"
  by (auto simp: is_ident_start_def is_ws_def)

lemma tokenize_single:
  assumes "src \<noteq> []" "next_token \<lparr>lx_src = src, lx_pos = 0\<rparr> = (t, \<lparr>lx_src = src, lx_pos = length src\<rparr>)"
  shows "tokenize name src = [t]"
proof -
  have "tokenize_from \<lparr>lx_src = src, lx_pos = length src\<rparr> = []"
    by (simp add: tokenize_from.simps next_token_def)
  moreover have "tok_kind t \<noteq> T_EOF"
    using next_token_EOF [of "\<lparr>lx_src = src, lx_pos = 0\<rparr>"] assms by simp
  ultimately show ?thesis
    using assms(2)
    by (simp add: tokenize_def new_lexer_def new_source_def tokenize_from.simps [of "\<lparr>lx_src = src, lx_pos = 0\<rparr>"])
qed

lemma next_token_quoted:
  assumes "quotable n"
  defines "src \<equiv> [CHR 0x27] @ n @ [CHR 0x27]"
  shows "next_token \<lparr>lx_src = src, lx_pos = 0\<rparr> =
    (\<lparr>tok_kind = T_UnrestrictedName, tok_span = \<lparr>span_offset = 0, span_len = length src\<rparr>,
      tok_keyword = [], tok_unterminated = False\<rparr>, \<lparr>lx_src = src, lx_pos = length src\<rparr>)"
  using quoted_loop_quotable [OF assms(1), of src "[CHR 0x27]" "[]" T_UnrestrictedName]
  by (simp add: src_def next_token_def is_ws_def is_ident_start_def scan_quoted_def mk_token_def
      lx_span_def skip_def Let_def)

lemma next_token_ident:
  assumes "is_identifier n" "\<not> is_keyword n"
  shows "next_token \<lparr>lx_src = n, lx_pos = 0\<rparr> =
    (\<lparr>tok_kind = T_Identifier, tok_span = \<lparr>span_offset = 0, span_len = length n\<rparr>,
      tok_keyword = [], tok_unterminated = False\<rparr>, \<lparr>lx_src = n, lx_pos = length n\<rparr>)"
proof -
  from assms(1) obtain c s where n: "n = c # s" "is_ident_start c" "list_all is_ident_cont s"
    by (cases n) (auto simp: is_identifier_def)
  have "skip_while is_ident_cont \<lparr>lx_src = n, lx_pos = 1\<rparr> = \<lparr>lx_src = n, lx_pos = length n\<rparr>"
  proof -
    have "length (takeWhile is_ident_cont s) = length s"
      by (metis list_all_iff n(3) takeWhile_eq_all_conv)
    then show ?thesis by (simp add: skip_while_def advance_while_takeWhile n(1))
  qed
  then have "scan_ident_or_keyword 0 \<lparr>lx_src = n, lx_pos = 0\<rparr> =
      mk_token T_Identifier 0 \<lparr>lx_src = n, lx_pos = length n\<rparr>"
    using assms(2) by (simp add: scan_ident_or_keyword_def skip_def slice_all)
  with n ident_start_facts [OF n(2)] show ?thesis
    by (simp add: next_token_def mk_token_def lx_span_def)
qed

interpretation name_codec: codec name_text "read_name k" quotable
proof
  fix n assume q: "quotable n"
  show "read_name k (name_text n) = Some n"
  proof (cases "is_identifier n \<and> \<not> is_keyword n")
    case True
    then have "n \<noteq> []" by (auto simp: is_identifier_def)
    with True tokenize_single [OF _ next_token_ident] show ?thesis
      by (simp add: read_name_def name_text_def parse_name_segment_def at_name_def token_text_def
          span_end_def slice_all)
  next
    case False
    note tokenize_single [OF _ next_token_quoted [OF q], of "[]"]
    with False show ?thesis
      by (auto simp: read_name_def name_text_def parse_name_segment_def at_name_def token_text_def
          span_end_def slice_def)
  qed
qed

text \<open>
  C27. A name written by \<open>NameText\<close> reads back as itself: when the name can stand between
  quotes, the written text lexes to exactly one name token and the parser's reading of that
  token, quotes stripped, is the name; so two different names are never written alike.
\<close>

theorem name_text_roundtrip:
  assumes "quotable n"
  shows "read_name k (name_text n) = Some n \<and> (\<forall>m. quotable m \<and> name_text m = name_text n \<longrightarrow> m = n)"
  using name_codec.dec_enc [OF assms] name_codec.enc_inj [OF _ assms] by blast

theorem name_text_roundtrip_witness:
  "quotable ''a b'' \<and> read_name KindSysML (name_text ''a b'') = Some ''a b''
   \<and> quotable ''part'' \<and> name_text ''part'' = [CHR 0x27] @ ''part'' @ [CHR 0x27]"
proof -
  have q: "quotable ''a b''" "quotable ''part''" by simp_all
  moreover have "name_text ''part'' = [CHR 0x27] @ ''part'' @ [CHR 0x27]" by code_simp
  ultimately show ?thesis using name_text_roundtrip [OF q(1), of KindSysML] by blast
qed

end
