(* ===== verification/Utf8.thy ===== *)
theory Utf8
  imports Prelude
begin

text \<open>
  UTF-8 as Go's \<open>range\<close> over a string, \<open>[]rune(s)\<close>, \<open>Builder.WriteRune\<close> and
  \<open>utf8.ValidString\<close> read and write it. A rune is a natural number; an ill-formed byte
  decodes to the replacement rune U+FFFD and is one byte wide.
\<close>

abbreviation byte_of :: "char \<Rightarrow> nat" where
  "byte_of c \<equiv> of_char c"

definition rune_error :: nat where
  "rune_error = 0xFFFD"

definition is_cont :: "nat \<Rightarrow> bool" where
  "is_cont b \<longleftrightarrow> 0x80 \<le> b \<and> b \<le> 0xBF"

text \<open>The well-formed sequence at the head of the bytes: its rune and its width.\<close>

fun decode_wf :: "nat list \<Rightarrow> (nat \<times> nat) option" where
  "decode_wf [] = None"
| "decode_wf (b0 # bs) =
     (if b0 < 0x80 then Some (b0, 1)
      else if 0xC2 \<le> b0 \<and> b0 \<le> 0xDF then
        (case bs of b1 # _ \<Rightarrow>
           if is_cont b1 then Some ((b0 - 0xC0) * 64 + (b1 - 0x80), 2) else None
         | _ \<Rightarrow> None)
      else if 0xE0 \<le> b0 \<and> b0 \<le> 0xEF then
        (case bs of b1 # b2 # _ \<Rightarrow>
           if is_cont b1 \<and> is_cont b2 \<and> (b0 = 0xE0 \<longrightarrow> 0xA0 \<le> b1) \<and> (b0 = 0xED \<longrightarrow> b1 \<le> 0x9F)
           then Some ((b0 - 0xE0) * 4096 + (b1 - 0x80) * 64 + (b2 - 0x80), 3) else None
         | _ \<Rightarrow> None)
      else if 0xF0 \<le> b0 \<and> b0 \<le> 0xF4 then
        (case bs of b1 # b2 # b3 # _ \<Rightarrow>
           if is_cont b1 \<and> is_cont b2 \<and> is_cont b3 \<and> (b0 = 0xF0 \<longrightarrow> 0x90 \<le> b1) \<and> (b0 = 0xF4 \<longrightarrow> b1 \<le> 0x8F)
           then Some ((b0 - 0xF0) * 262144 + (b1 - 0x80) * 4096 + (b2 - 0x80) * 64 + (b3 - 0x80), 4)
           else None
         | _ \<Rightarrow> None)
      else None)"

lemma decode_wf_width: "decode_wf bs = Some (r, n) \<Longrightarrow> 0 < n \<and> n \<le> length bs"
  by (cases bs) (auto split: if_splits list.splits)

definition decode_rune :: "string \<Rightarrow> nat \<times> nat" where
  "decode_rune s = (case decode_wf (map byte_of s) of Some rn \<Rightarrow> rn | None \<Rightarrow> (rune_error, 1))"

lemma decode_rune_width: "s \<noteq> [] \<Longrightarrow> 0 < snd (decode_rune s) \<and> snd (decode_rune s) \<le> length s"
  using decode_wf_width [of "map byte_of s"]
  by (cases s) (auto simp: decode_rune_def split: option.splits)

function runes :: "string \<Rightarrow> nat list" where
  "runes s = (if s = [] then [] else fst (decode_rune s) # runes (drop (snd (decode_rune s)) s))"
  by pat_completeness auto
termination
  using decode_rune_width by (relation "measure length") auto

function valid_utf8 :: "string \<Rightarrow> bool" where
  "valid_utf8 s \<longleftrightarrow>
     s = [] \<or> (case decode_wf (map byte_of s) of None \<Rightarrow> False | Some (r, n) \<Rightarrow> valid_utf8 (drop n s))"
  by pat_completeness auto
termination
  using decode_wf_width by (relation "measure length") (auto, fastforce)

declare runes.simps [simp del] valid_utf8.simps [simp del]

definition encode_rune :: "nat \<Rightarrow> string" where
  "encode_rune r = map char_of
     (if r < 0x80 then [r]
      else if r < 0x800 then [0xC0 + r div 64, 0x80 + r mod 64]
      else if (0xD800 \<le> r \<and> r < 0xE000) \<or> 0x10FFFF < r then [0xEF, 0xBF, 0xBD :: nat]
      else if r < 0x10000 then [0xE0 + r div 4096, 0x80 + (r div 64) mod 64, 0x80 + r mod 64]
      else [0xF0 + r div 262144, 0x80 + (r div 4096) mod 64, 0x80 + (r div 64) mod 64, 0x80 + r mod 64])"

lemma byte_of_less: "byte_of c < 256"
  using nat_of_char_less_256 .

lemma divmod_join: "b < (64::nat) \<Longrightarrow> (a * 64 + b) div 64 = a" "b < (64::nat) \<Longrightarrow> (a * 64 + b) mod 64 = b"
  by simp_all

lemma encode_decode2:
  assumes "0xC2 \<le> b0" "b0 \<le> 0xDF" "is_cont b1"
  shows "encode_rune ((b0 - 0xC0) * 64 + (b1 - 0x80)) = map char_of [b0, b1]"
proof -
  have c: "b1 - 0x80 < 64" using assms by (auto simp: is_cont_def)
  have "\<not> (b0 - 0xC0) * 64 + (b1 - 0x80) < 0x80" "(b0 - 0xC0) * 64 + (b1 - 0x80) < 0x800"
    using assms c by auto
  then show ?thesis
    using assms divmod_join [OF c] by (simp add: encode_rune_def is_cont_def)
qed

lemma encode_decode3:
  assumes "0xE0 \<le> b0" "b0 \<le> 0xEF" "is_cont b1" "is_cont b2"
    "b0 = 0xE0 \<longrightarrow> 0xA0 \<le> b1" "b0 = 0xED \<longrightarrow> b1 \<le> 0x9F"
  shows "encode_rune ((b0 - 0xE0) * 4096 + (b1 - 0x80) * 64 + (b2 - 0x80)) = map char_of [b0, b1, b2]"
proof -
  define r where "r = (b0 - 0xE0) * 4096 + (b1 - 0x80) * 64 + (b2 - 0x80)"
  have c: "b1 - 0x80 < 64" "b2 - 0x80 < 64" using assms by (auto simp: is_cont_def)
  have r: "r = ((b0 - 0xE0) * 64 + (b1 - 0x80)) * 64 + (b2 - 0x80)" by (simp add: r_def)
  have "r div 64 = (b0 - 0xE0) * 64 + (b1 - 0x80)" "r mod 64 = b2 - 0x80"
    unfolding r by (rule divmod_join [OF c(2)])+
  moreover have "r div 4096 = r div 64 div 64" by (simp add: div_mult2_eq [symmetric])
  moreover have "\<not> r < 0x800" "r < 0x10000"
    using assms c unfolding r_def is_cont_def by (auto simp: not_less)
  moreover have "\<not> (0xD800 \<le> r \<and> r < 0xE000)"
  proof (cases b0 "0xED :: nat" rule: linorder_cases)
    case less
    then show ?thesis using assms(1) c unfolding r_def by linarith
  next
    case equal
    then show ?thesis using assms(6) c(2) unfolding r_def by simp
  next
    case greater
    then have "0xE * 4096 \<le> (b0 - 0xE0) * 4096" using assms(1) by linarith
    then show ?thesis unfolding r_def by linarith
  qed
  ultimately show ?thesis
    using assms divmod_join [OF c(1)] unfolding r_def [symmetric]
    by (auto simp: encode_rune_def is_cont_def)
qed

lemma encode_decode4:
  assumes "0xF0 \<le> b0" "b0 \<le> 0xF4" "is_cont b1" "is_cont b2" "is_cont b3"
    "b0 = 0xF0 \<longrightarrow> 0x90 \<le> b1" "b0 = 0xF4 \<longrightarrow> b1 \<le> 0x8F"
  shows "encode_rune ((b0 - 0xF0) * 262144 + (b1 - 0x80) * 4096 + (b2 - 0x80) * 64 + (b3 - 0x80))
    = map char_of [b0, b1, b2, b3]"
proof -
  define r where "r = (b0 - 0xF0) * 262144 + (b1 - 0x80) * 4096 + (b2 - 0x80) * 64 + (b3 - 0x80)"
  have c: "b1 - 0x80 < 64" "b2 - 0x80 < 64" "b3 - 0x80 < 64" using assms by (auto simp: is_cont_def)
  have r: "r = (((b0 - 0xF0) * 64 + (b1 - 0x80)) * 64 + (b2 - 0x80)) * 64 + (b3 - 0x80)"
    by (simp add: r_def)
  have 1: "r div 64 = ((b0 - 0xF0) * 64 + (b1 - 0x80)) * 64 + (b2 - 0x80)" "r mod 64 = b3 - 0x80"
    unfolding r by (rule divmod_join [OF c(3)])+
  have d2: "r div 4096 = r div 64 div 64" "r div 262144 = r div 4096 div 64"
    by (simp_all add: div_mult2_eq [symmetric])
  have 2: "r div 4096 = (b0 - 0xF0) * 64 + (b1 - 0x80)" "r div 64 mod 64 = b2 - 0x80"
    unfolding d2(1) 1(1) by (rule divmod_join [OF c(2)])+
  have 3: "r div 262144 = b0 - 0xF0" "r div 4096 mod 64 = b1 - 0x80"
    unfolding d2(2) 2(1) by (rule divmod_join [OF c(1)])+
  have "\<not> r < 0x10000" "\<not> 0x10FFFF < r"
    using assms c unfolding r_def is_cont_def by (auto simp: not_less)
  then have "encode_rune r = map char_of
      [0xF0 + r div 262144, 0x80 + (r div 4096) mod 64, 0x80 + (r div 64) mod 64, 0x80 + r mod 64]"
    by (simp add: encode_rune_def)
  also have "\<dots> = map char_of [b0, b1, b2, b3]"
    using assms 1 2 3 by (simp add: is_cont_def)
  finally show ?thesis by (simp add: r_def)
qed

lemma encode_decode_wf:
  assumes "decode_wf bs = Some (r, n)"
  shows "encode_rune r = map char_of (take n bs)"
proof (cases bs)
  case Nil
  with assms show ?thesis by simp
next
  case (Cons b0 cs)
  note d = assms [unfolded Cons decode_wf.simps]
  consider (one) "b0 < 0x80" | (two) "\<not> b0 < 0x80" "0xC2 \<le> b0 \<and> b0 \<le> 0xDF"
    | (three) "0xE0 \<le> b0 \<and> b0 \<le> 0xEF" | (four) "0xF0 \<le> b0 \<and> b0 \<le> 0xF4"
    using d by (auto split: if_splits)
  then show ?thesis
  proof cases
    case one
    with d Cons show ?thesis by (auto simp: encode_rune_def)
  next
    case two
    with d obtain b1 ds where "cs = b1 # ds" "is_cont b1" "r = (b0 - 0xC0) * 64 + (b1 - 0x80)" "n = 2"
      by (auto split: list.splits if_splits)
    with two Cons encode_decode2 [of b0 b1] show ?thesis by simp
  next
    case three
    with d obtain b1 b2 ds where "cs = b1 # b2 # ds" "is_cont b1" "is_cont b2" "n = 3"
        "r = (b0 - 0xE0) * 4096 + (b1 - 0x80) * 64 + (b2 - 0x80)"
        "b0 = 0xE0 \<longrightarrow> 0xA0 \<le> b1" "b0 = 0xED \<longrightarrow> b1 \<le> 0x9F"
      by (auto split: list.splits if_splits)
    with three Cons encode_decode3 [of b0 b1 b2] show ?thesis by simp
  next
    case four
    with d obtain b1 b2 b3 ds where "cs = b1 # b2 # b3 # ds" "is_cont b1" "is_cont b2" "is_cont b3" "n = 4"
        "r = (b0 - 0xF0) * 262144 + (b1 - 0x80) * 4096 + (b2 - 0x80) * 64 + (b3 - 0x80)"
        "b0 = 0xF0 \<longrightarrow> 0x90 \<le> b1" "b0 = 0xF4 \<longrightarrow> b1 \<le> 0x8F"
      by (auto split: list.splits if_splits)
    with four Cons encode_decode4 [of b0 b1 b2 b3] show ?thesis by simp
  qed
qed

lemma valid_utf8_induct [consumes 1, case_names Nil step]:
  assumes "valid_utf8 s" "P []"
    and "\<And>s r n. s \<noteq> [] \<Longrightarrow> decode_wf (map byte_of s) = Some (r, n) \<Longrightarrow> decode_rune s = (r, n) \<Longrightarrow>
      encode_rune r = take n s \<Longrightarrow> 0 < n \<Longrightarrow> n \<le> length s \<Longrightarrow>
      valid_utf8 (drop n s) \<Longrightarrow> P (drop n s) \<Longrightarrow> P s"
  shows "P s"
  using assms(1)
proof (induction "length s" arbitrary: s rule: less_induct)
  case less
  show ?case
  proof (cases "s = []")
    case False
    with less(2) have "case decode_wf (map byte_of s) of None \<Rightarrow> False | Some (r, n) \<Rightarrow> valid_utf8 (drop n s)"
      unfolding valid_utf8.simps [of s] by simp
    then obtain r n where d: "decode_wf (map byte_of s) = Some (r, n)" "valid_utf8 (drop n s)"
      by (auto split: option.splits)
    with decode_wf_width have n: "0 < n" "n \<le> length s" by force+
    have "encode_rune r = take n s"
      using encode_decode_wf [OF d(1)] by (simp add: take_map comp_def)
    moreover have "decode_rune s = (r, n)" using d(1) by (simp add: decode_rune_def)
    moreover have "P (drop n s)" using n False d(2) by (intro less) auto
    ultimately show ?thesis using assms(3) False d n by blast
  qed (simp add: assms(2))
qed

text \<open>Decoding a well-formed string and writing its runes gives it back.\<close>

lemma encode_runes: "valid_utf8 s \<Longrightarrow> concat (map encode_rune (runes s)) = s"
proof (induction s rule: valid_utf8_induct)
  case Nil
  then show ?case by (simp add: runes.simps)
next
  case (step s r n)
  then show ?case by (simp add: runes.simps [of s])
qed

section \<open>White space\<close>

text \<open>\<open>unicode.IsSpace\<close>, and \<open>strings.TrimSpace\<close> with the runes read from either end.\<close>

definition is_space_rune :: "nat \<Rightarrow> bool" where
  "is_space_rune r \<longleftrightarrow>
     (9 \<le> r \<and> r \<le> 13) \<or> r = 0x20 \<or> r = 0x85 \<or> r = 0xA0 \<or> r = 0x1680
     \<or> (0x2000 \<le> r \<and> r \<le> 0x200A) \<or> r = 0x2028 \<or> r = 0x2029 \<or> r = 0x202F \<or> r = 0x205F \<or> r = 0x3000"

function trim_left :: "string \<Rightarrow> string" where
  "trim_left s =
     (if s \<noteq> [] \<and> is_space_rune (fst (decode_rune s)) then trim_left (drop (snd (decode_rune s)) s) else s)"
  by pat_completeness auto
termination
  using decode_rune_width by (relation "measure length") auto

definition decode_last_rune :: "string \<Rightarrow> nat \<times> nat" where
  "decode_last_rune s =
     (let n = length s in
      if byte_of (last s) < 0x80 then (byte_of (last s), 1)
      else
        (let lim = n - 4;
             starts = filter (\<lambda>i. \<not> is_cont (byte_of (s ! i))) (rev [lim..<n - 1]);
             start = (case starts of i # _ \<Rightarrow> i | [] \<Rightarrow> lim - 1);
             rn = decode_rune (drop start s)
         in if start + snd rn = n then rn else (rune_error, 1)))"

lemma decode_last_rune_width: "s \<noteq> [] \<Longrightarrow> 0 < snd (decode_last_rune s) \<and> snd (decode_last_rune s) \<le> length s"
proof -
  assume "s \<noteq> []"
  then have one: "Suc 0 \<le> length s" by (cases s) auto
  have "drop i s \<noteq> [] \<Longrightarrow> 0 < snd (decode_rune (drop i s))" for i
    using decode_rune_width by blast
  moreover have "drop i s = [] \<Longrightarrow> i + snd (decode_rune (drop i s)) = length s \<Longrightarrow> False" if "i \<le> length s" for i
    using that by (simp add: decode_rune_def)
  moreover have "(case filter (\<lambda>i. \<not> is_cont (byte_of (s ! i))) (rev [length s - 4..<length s - 1]) of
      i # _ \<Rightarrow> i | [] \<Rightarrow> length s - 4 - 1) \<le> length s" (is "?st \<le> _")
  proof (cases "filter (\<lambda>i. \<not> is_cont (byte_of (s ! i))) (rev [length s - 4..<length s - 1])")
    case (Cons i js)
    then have "i \<in> set (rev [length s - 4..<length s - 1])" by (metis filter_is_subset list.set_intros(1) subsetD)
    with Cons show ?thesis by auto
  qed simp
  ultimately show ?thesis
    using one unfolding decode_last_rune_def Let_def
    by (cases "drop ?st s = []") (auto split: if_splits)
qed

function trim_right :: "string \<Rightarrow> string" where
  "trim_right s =
     (if s \<noteq> [] \<and> is_space_rune (fst (decode_last_rune s))
      then trim_right (take (length s - snd (decode_last_rune s)) s) else s)"
  by pat_completeness auto
termination
proof (relation "measure length", simp, clarify)
  fix s :: string
  assume "s \<noteq> []"
  with decode_last_rune_width [OF this]
  show "(take (length s - snd (decode_last_rune s)) s, s) \<in> measure length" by simp
qed

declare trim_left.simps [simp del] trim_right.simps [simp del]

definition trim_space :: "string \<Rightarrow> string" where
  "trim_space s = trim_right (trim_left s)"

text \<open>A string with plain ends has nothing to trim.\<close>

lemma decode_rune_ascii: "s \<noteq> [] \<Longrightarrow> byte_of (hd s) < 0x80 \<Longrightarrow> decode_rune s = (byte_of (hd s), 1)"
  by (cases s) (simp_all add: decode_rune_def)

lemma trim_space_plain:
  assumes "s \<noteq> [] \<Longrightarrow> byte_of (hd s) < 0x80 \<and> \<not> is_space_rune (byte_of (hd s))"
    "s \<noteq> [] \<Longrightarrow> byte_of (last s) < 0x80 \<and> \<not> is_space_rune (byte_of (last s))"
  shows "trim_space s = s"
proof (cases "s = []")
  case False
  with assms have "trim_left s = s" by (subst trim_left.simps) (simp add: decode_rune_ascii)
  moreover have "trim_right s = s"
    using False assms(2) by (subst trim_right.simps) (simp add: decode_last_rune_def)
  ultimately show ?thesis by (simp add: trim_space_def)
qed (simp add: trim_space_def trim_left.simps trim_right.simps)

end
