(* ===== verification/Format.thy ===== *)
theory Format
  imports Tokens Utf8
begin

text \<open>
  The source formatter, \<open>internal/core/format/format.go\<close>: a pass over the tokens that rewrites
  only the white space between them. The state of \<open>formatter\<close> is a record, \<open>emit\<close> and
  \<open>run\<close> are functions on it, and \<open>format_source\<close> is \<open>Source\<close> with its safety net
  \<open>sameTokens\<close>. The lemmas show that the pass itself keeps every byte that is not white
  space and how the output ends.
\<close>

section \<open>Line endings\<close>

abbreviation LF :: char where "LF \<equiv> CHR 0x0A"
abbreviation CR :: char where "CR \<equiv> CHR 0x0D"

fun count_crlf :: "bytes \<Rightarrow> nat" where
  "count_crlf [] = 0"
| "count_crlf [c] = 0"
| "count_crlf (c # d # s) = (if c = CR \<and> d = LF then 1 + count_crlf s else count_crlf (d # s))"

definition dominant_newline :: "bytes \<Rightarrow> bytes" where
  "dominant_newline src =
     (let crlf = int (count_crlf src) in
      if crlf > int (count_list src LF) - crlf then [CR, LF] else [LF])"

fun crlf_to_lf :: "bytes \<Rightarrow> bytes" where
  "crlf_to_lf [] = []"
| "crlf_to_lf [c] = [c]"
| "crlf_to_lf (c # d # s) = (if c = CR \<and> d = LF then LF # crlf_to_lf s else c # crlf_to_lf (d # s))"

definition normalize_newlines :: "bytes \<Rightarrow> bytes \<Rightarrow> bytes" where
  "normalize_newlines text nl =
     (if LF \<notin> set text then text
      else concat (map (\<lambda>c. if c = LF then nl else [c]) (crlf_to_lf text)))"

text \<open>\<open>bytes.TrimRight(out, "\r\n")\<close>.\<close>

definition trim_right_nl :: "bytes \<Rightarrow> bytes" where
  "trim_right_nl b = rev (dropWhile (\<lambda>c. c = CR \<or> c = LF) (rev b))"

text \<open>\<open>strings.TrimSpace(s) == ""\<close>: every rune is Unicode white space.\<close>

definition blank :: "string \<Rightarrow> bool" where
  "blank s \<longleftrightarrow> list_all is_space_rune (runes s)"

text \<open>The text after the last newline, when there is one.\<close>

definition after_last_newline :: "bytes \<Rightarrow> bytes option" where
  "after_last_newline text =
     (if LF \<in> set text then Some (rev (takeWhile (\<lambda>c. c \<noteq> LF) (rev text))) else None)"

section \<open>Classes of tokens\<close>

definition is_comment :: "kind \<Rightarrow> bool" where
  "is_comment k \<longleftrightarrow> k = T_SLNote \<or> k = T_MLNote \<or> k = T_RegularComment"

definition infix_kinds :: "kind list" where
  "infix_kinds =
     [T_Pipe, T_Amp, T_EqEq, T_NotEq, T_EqEqEq, T_NotEqEq, T_Lt, T_Gt, T_Le, T_Ge, T_DotDot,
      T_Plus, T_Minus, T_Star, T_Slash, T_Percent, T_StarStar, T_Caret, T_Dot, T_Arrow,
      T_DotQuestion, T_Comma, T_ColonColon, T_Eq, T_Colon, T_ColonEq, T_ColonGt, T_ColonGtGt,
      T_ColonColonGt, T_EqGt]"

definition incomplete_before :: "kind list" where
  "incomplete_before = infix_kinds @
     [T_LParen, T_LBracket, T_Question, T_QuestionQ, T_Tilde, T_At, T_AtAt, T_Hash, T_Dollar]"

definition continues_after :: "kind list" where
  "continues_after = infix_kinds"

section \<open>The formatter\<close>

record options =
  indent_width :: int
  use_tabs :: bool

definition default_options :: options where
  "default_options = \<lparr>indent_width = 4, use_tabs = False\<rparr>"

record formatter =
  f_src :: bytes
  f_opts :: options
  f_buf :: bytes
  f_depth :: int
  f_nl :: bytes
  f_at_line_start :: bool
  f_pending_nl :: nat
  f_pending_ws :: bool
  f_prev :: kind
  f_started :: bool
  f_last_code :: kind
  f_open_comment :: bool

definition new_formatter :: "bytes \<Rightarrow> options \<Rightarrow> formatter" where
  "new_formatter src opts =
     \<lparr>f_src = src, f_opts = opts, f_buf = [], f_depth = 0, f_nl = dominant_newline src,
      f_at_line_start = False, f_pending_nl = 0, f_pending_ws = False, f_prev = T_Invalid,
      f_started = False, f_last_code = T_Invalid, f_open_comment = False\<rparr>"

definition write_buf :: "bytes \<Rightarrow> formatter \<Rightarrow> formatter" where
  "write_buf b f = f\<lparr>f_buf := f_buf f @ b\<rparr>"

text \<open>How many line endings the buffer already ends with; the buffer shrinks each round.\<close>

function count_trailing :: "bytes \<Rightarrow> bytes \<Rightarrow> nat" where
  "count_trailing nl b =
     (if nl \<noteq> [] \<and> suffix nl b then 1 + count_trailing nl (take (length b - length nl) b) else 0)"
  by pat_completeness auto
termination
  by (relation "measure (\<lambda>(nl, b). length b)") (auto simp: suffix_def)

declare count_trailing.simps [simp del]

definition trailing_newlines :: "formatter \<Rightarrow> nat" where
  "trailing_newlines f = count_trailing (f_nl f) (f_buf f)"

definition want_space :: "formatter \<Rightarrow> token \<Rightarrow> bool" where
  "want_space f tok \<longleftrightarrow>
     tok_kind tok \<notin> {T_Semicolon, T_Comma, T_RParen, T_RBracket}
     \<and> f_prev f \<notin> {T_LParen, T_LBracket}"

definition continues :: "formatter \<Rightarrow> token \<Rightarrow> bool" where
  "continues f tok \<longleftrightarrow>
     tok_kind tok \<notin> {T_LBrace, T_RBrace, T_RParen, T_RBracket}
     \<and> (f_last_code f \<in> set incomplete_before \<or> tok_kind tok \<in> set continues_after)"

definition indent_text :: "formatter \<Rightarrow> bool \<Rightarrow> bytes" where
  "indent_text f continuation =
     (let depth = (if continuation then f_depth f + 1 else f_depth f) in
      if use_tabs (f_opts f) then replicate (nat depth) (CHR 0x09)
      else replicate (nat (depth * indent_width (f_opts f))) (CHR '' ''))"

definition write_indent :: "bool \<Rightarrow> formatter \<Rightarrow> formatter" where
  "write_indent continuation f = write_buf (indent_text f continuation) f"

text \<open>\<open>emit\<close>, in the order of its statements.\<close>

definition emit_depth :: "token \<Rightarrow> formatter \<Rightarrow> formatter" where
  "emit_depth tok f =
     (if tok_kind tok = T_RBrace
      then f\<lparr>f_depth := (if f_depth f - 1 < 0 then 0 else f_depth f - 1)\<rparr> else f)"

definition emit_gap :: "token \<Rightarrow> formatter \<Rightarrow> formatter" where
  "emit_gap tok f =
     (let f1 =
        (if f_pending_nl f > 0 then
           (let want = (if f_pending_nl f > 1 then 2 else 1);
                f' = (if f_started f
                      then write_buf (concat (replicate (want - trailing_newlines f) (f_nl f))) f else f)
            in f'\<lparr>f_at_line_start := True\<rparr>)
         else if f_pending_ws f \<and> f_started f \<and> \<not> f_at_line_start f \<and> want_space f tok
         then write_buf ('' '') f
         else f)
      in f1\<lparr>f_pending_nl := 0, f_pending_ws := False\<rparr>)"

definition emit_text :: "token \<Rightarrow> formatter \<Rightarrow> formatter" where
  "emit_text tok f =
     (let f1 = (if f_at_line_start f then write_indent (continues f tok) f else f);
          text = normalize_newlines (token_text (f_src f) tok) (f_nl f);
          f2 = write_buf text f1;
          f3 = (if tok_kind tok = T_LBrace then f2\<lparr>f_depth := f_depth f2 + 1\<rparr> else f2);
          f4 = f3\<lparr>f_prev := tok_kind tok, f_started := True, f_at_line_start := False,
                  f_open_comment := tok_unterminated tok\<rparr>;
          f5 = (if \<not> is_comment (tok_kind tok) then f4\<lparr>f_last_code := tok_kind tok\<rparr> else f4)
      in case after_last_newline text of
           None \<Rightarrow> f5
         | Some rest \<Rightarrow> f5\<lparr>f_at_line_start := blank rest\<rparr>)"

definition emit :: "token \<Rightarrow> formatter \<Rightarrow> formatter" where
  "emit tok f = emit_text tok (emit_gap tok (emit_depth tok f))"

definition run_token :: "formatter \<Rightarrow> token \<Rightarrow> formatter" where
  "run_token f tok =
     (if tok_kind tok = T_Whitespace then
        (let n = count_list (token_text (f_src f) tok) LF in
         if n > 0 then f\<lparr>f_pending_nl := f_pending_nl f + n\<rparr> else f\<lparr>f_pending_ws := True\<rparr>)
      else emit tok f)"

definition run_formatter :: "formatter \<Rightarrow> token list \<Rightarrow> bytes" where
  "run_formatter f toks =
     (let f' = fold (\<lambda>tok f. run_token f tok) toks (f\<lparr>f_at_line_start := True\<rparr>); out = f_buf f' in
      if f_started f' \<and> \<not> f_open_comment f' then trim_right_nl out @ f_nl f' else out)"

section \<open>The safety net\<close>

definition trim_suffix :: "bytes \<Rightarrow> bytes \<Rightarrow> bytes" where
  "trim_suffix s sfx = (if suffix sfx s then take (length s - length sfx) s else s)"

definition significant :: "string \<Rightarrow> bytes \<Rightarrow> string list" where
  "significant name src =
     map (\<lambda>tok.
       (let text = normalize_newlines (token_text src tok) [LF];
            text' = (if tok_kind tok = T_SLNote then trim_suffix text [LF] else text)
        in kind_name (tok_kind tok) @ '' '' @ text'))
       (filter (\<lambda>tok. tok_kind tok \<noteq> T_Whitespace) (tokenize name src))"

definition same_tokens :: "string \<Rightarrow> bytes \<Rightarrow> bytes \<Rightarrow> bool" where
  "same_tokens name before after \<longleftrightarrow> significant name before = significant name after"

text \<open>\<open>Source\<close>: the bytes, and whether \<open>ErrNotIdempotent\<close> was returned with them.\<close>

definition format_source :: "string \<Rightarrow> bytes \<Rightarrow> options \<Rightarrow> bytes \<times> bool" where
  "format_source name src opts =
     (let opts' = (if indent_width opts \<le> 0
                   then opts\<lparr>indent_width := indent_width default_options\<rparr> else opts);
          out = run_formatter (new_formatter src opts') (tokenize name src)
      in if \<not> same_tokens name src out then (src, True) else (out, False))"

section \<open>The pass keeps every byte that is not white space\<close>

lemma is_ws_nl [simp]: "is_ws LF" "is_ws CR" "is_ws (CHR '' '')" "is_ws (CHR 0x09)"
  by (simp_all add: is_ws_def)

lemma strip_replicate: "is_ws c \<Longrightarrow> strip_ws (replicate n c) = []"
  by (induction n) (simp_all add: ws_simps)

lemma strip_concat_replicate: "strip_ws nl = [] \<Longrightarrow> strip_ws (concat (replicate n nl)) = []"
  by (induction n) (simp_all add: ws_simps)

lemma strip_crlf_to_lf: "strip_ws (crlf_to_lf s) = strip_ws s"
  by (induction s rule: crlf_to_lf.induct) (auto simp: ws_simps)

lemma strip_map_nl:
  "strip_ws nl = [] \<Longrightarrow> strip_ws (concat (map (\<lambda>c. if c = LF then nl else [c]) s)) = strip_ws s"
  by (induction s) (auto simp: ws_simps)

lemma strip_normalize [ws_simps]:
  "strip_ws nl = [] \<Longrightarrow> strip_ws (normalize_newlines s nl) = strip_ws s"
  by (simp add: normalize_newlines_def strip_map_nl strip_crlf_to_lf)

lemma strip_dominant: "strip_ws (dominant_newline src) = []"
  by (simp add: dominant_newline_def Let_def ws_simps)

lemma trim_right_nl_split: "\<exists>tl. b = trim_right_nl b @ tl \<and> list_all is_ws tl"
proof -
  have "rev b = takeWhile (\<lambda>c. c = CR \<or> c = LF) (rev b) @ dropWhile (\<lambda>c. c = CR \<or> c = LF) (rev b)"
    by simp
  then have "b = trim_right_nl b @ rev (takeWhile (\<lambda>c. c = CR \<or> c = LF) (rev b))"
    unfolding trim_right_nl_def by (metis rev_append rev_rev_ident)
  moreover have "list_all is_ws (rev (takeWhile (\<lambda>c. c = CR \<or> c = LF) (rev b)))"
    by (auto simp: list_all_iff dest!: set_takeWhileD)
  ultimately show ?thesis by blast
qed

lemma strip_trim_right_nl: "strip_ws (trim_right_nl b) = strip_ws b"
  using trim_right_nl_split [of b] by (metis append_Nil2 strip_ws_all strip_ws_simps(2))

lemma strip_indent: "strip_ws (indent_text f c) = []"
  by (simp add: indent_text_def Let_def strip_replicate)

lemma emit_strip:
  assumes "strip_ws (f_nl f) = []"
  shows "strip_ws (f_buf (emit tok f)) = strip_ws (f_buf f) @ strip_ws (token_text (f_src f) tok)"
    and "f_nl (emit tok f) = f_nl f" and "f_src (emit tok f) = f_src f"
proof -
  have d: "f_buf (emit_depth tok f) = f_buf f" "f_nl (emit_depth tok f) = f_nl f"
      "f_src (emit_depth tok f) = f_src f" for f
    by (simp_all add: emit_depth_def)
  have g: "strip_ws (f_buf (emit_gap tok f)) = strip_ws (f_buf f)"
      "f_nl (emit_gap tok f) = f_nl f" "f_src (emit_gap tok f) = f_src f" if "strip_ws (f_nl f) = []" for f
    using that by (auto simp: emit_gap_def Let_def write_buf_def strip_concat_replicate ws_simps)
  have t: "strip_ws (f_buf (emit_text tok f)) = strip_ws (f_buf f) @ strip_ws (token_text (f_src f) tok)"
      "f_nl (emit_text tok f) = f_nl f" "f_src (emit_text tok f) = f_src f" if "strip_ws (f_nl f) = []" for f
    using that
    by (auto simp: emit_text_def Let_def write_buf_def write_indent_def strip_indent ws_simps
        split: option.splits)
  show "strip_ws (f_buf (emit tok f)) = strip_ws (f_buf f) @ strip_ws (token_text (f_src f) tok)"
    and "f_nl (emit tok f) = f_nl f" and "f_src (emit tok f) = f_src f"
    using assms by (simp_all add: emit_def d g t)
qed

lemma run_tokens_strip:
  "strip_ws (f_nl f) = [] \<Longrightarrow>
   (let f' = fold (\<lambda>tok f. run_token f tok) toks f in
    strip_ws (f_buf f') = strip_ws (f_buf f) @
      concat (map (\<lambda>t. strip_ws (token_text (f_src f) t)) (filter (\<lambda>t. tok_kind t \<noteq> T_Whitespace) toks))
    \<and> f_nl f' = f_nl f)"
proof (induction toks arbitrary: f)
  case Nil
  then show ?case by simp
next
  case (Cons tok toks)
  have "f_nl (run_token f tok) = f_nl f" "f_src (run_token f tok) = f_src f"
    "strip_ws (f_buf (run_token f tok)) = strip_ws (f_buf f) @
       (if tok_kind tok = T_Whitespace then [] else strip_ws (token_text (f_src f) tok))"
    using emit_strip [OF Cons.prems, of tok] by (auto simp: run_token_def Let_def)
  with Cons.IH [of "run_token f tok"] Cons.prems show ?case by (simp add: Let_def)
qed

text \<open>The formatter is a client of the tokenizer: its lemma rests on the interface alone.\<close>

context tokenizer
begin

lemma run_keeps_text:
  "strip_ws (run_formatter (new_formatter src opts) (toks src)) = strip_ws src"
proof -
  let ?f = "(new_formatter src opts)\<lparr>f_at_line_start := True\<rparr>"
  let ?f' = "fold (\<lambda>tok f. run_token f tok) (toks src) ?f"
  have nl: "strip_ws (f_nl ?f) = []" "f_src ?f = src" "f_buf ?f = []"
    by (simp_all add: new_formatter_def strip_dominant)
  with run_tokens_strip [OF nl(1), of "toks src"]
  have "strip_ws (f_buf ?f') = strip_ws src" "strip_ws (f_nl ?f') = []"
    by (simp_all add: Let_def toks_strip [of src] ws_simps)
  then show ?thesis
    by (simp add: run_formatter_def Let_def strip_trim_right_nl ws_simps)
qed

end

section \<open>How the output ends\<close>

lemma emit_flags:
  "f_started (emit tok f)" "f_open_comment (emit tok f) = tok_unterminated tok" "f_nl (emit tok f) = f_nl f"
proof -
  have t: "f_started (emit_text tok g)" "f_open_comment (emit_text tok g) = tok_unterminated tok"
      "f_nl (emit_text tok g) = f_nl g" for g
    by (auto simp: emit_text_def write_indent_def write_buf_def Let_def split: option.splits)
  have g: "f_nl (emit_gap tok g) = f_nl g" "f_nl (emit_depth tok g) = f_nl g" for g
    by (simp_all add: emit_gap_def emit_depth_def write_buf_def Let_def)
  show "f_started (emit tok f)" "f_open_comment (emit tok f) = tok_unterminated tok" "f_nl (emit tok f) = f_nl f"
    by (simp_all add: emit_def t g)
qed

lemma run_tokens_flags:
  "(let f' = fold (\<lambda>tok f. run_token f tok) toks f; code = filter (\<lambda>t. tok_kind t \<noteq> T_Whitespace) toks in
    (f_started f' \<longleftrightarrow> f_started f \<or> code \<noteq> []) \<and> f_nl f' = f_nl f
    \<and> f_open_comment f' = (if code = [] then f_open_comment f else tok_unterminated (last code))
    \<and> (code = [] \<longrightarrow> f_buf f' = f_buf f))"
proof (induction toks arbitrary: f)
  case Nil
  then show ?case by simp
next
  case (Cons tok toks)
  have "f_nl (run_token f tok) = f_nl f"
    "f_started (run_token f tok) \<longleftrightarrow> f_started f \<or> tok_kind tok \<noteq> T_Whitespace"
    "f_open_comment (run_token f tok) =
      (if tok_kind tok = T_Whitespace then f_open_comment f else tok_unterminated tok)"
    "tok_kind tok = T_Whitespace \<Longrightarrow> f_buf (run_token f tok) = f_buf f"
    by (auto simp: run_token_def Let_def emit_flags)
  with Cons.IH [of "run_token f tok"] show ?case by (simp add: Let_def)
qed

lemma trim_right_nl_last: "trim_right_nl b \<noteq> [] \<Longrightarrow> last (trim_right_nl b) \<notin> {CR, LF}"
  using hd_dropWhile [of "\<lambda>c. c = CR \<or> c = LF" "rev b"]
  by (simp add: trim_right_nl_def last_rev)

section \<open>Properties\<close>

text \<open>
  C28. Formatting changes white space only: whatever the options, the text the formatter
  writes is, once spaces, tabs, carriage returns and newlines are dropped, the source's text;
  this is the pass itself, before \<open>sameTokens\<close> looks at it.
\<close>

theorem formatter_keeps_text:
  "strip_ws (run_formatter (new_formatter src opts) (tokenize name src)) = strip_ws src"
  by (rule go_lexer.run_keeps_text)

text \<open>
  The formatter closes a document with exactly one line ending: the output of a source
  whose last token that is not white space is a closed one is a text that does not end in a
  carriage return or newline, followed by one line ending in the document's dominant style; a
  source of white space only gives the empty output.
\<close>

theorem formatter_final_newline:
  assumes "out = run_formatter (new_formatter src opts) toks"
    and "code = filter (\<lambda>t. tok_kind t \<noteq> T_Whitespace) toks"
  shows "(code = [] \<longrightarrow> out = [])
    \<and> (code \<noteq> [] \<longrightarrow> \<not> tok_unterminated (last code) \<longrightarrow>
        (\<exists>body. out = body @ dominant_newline src \<and> (body = [] \<or> last body \<notin> {CR, LF})))"
proof -
  let ?f = "(new_formatter src opts)\<lparr>f_at_line_start := True\<rparr>"
  let ?f' = "fold (\<lambda>tok f. run_token f tok) toks ?f"
  have f: "\<not> f_started ?f" "f_nl ?f = dominant_newline src" "f_buf ?f = []" "\<not> f_open_comment ?f"
    by (simp_all add: new_formatter_def)
  with run_tokens_flags [of toks ?f] assms(2)
  have "f_started ?f' = (code \<noteq> [])" "f_nl ?f' = dominant_newline src"
    "code \<noteq> [] \<Longrightarrow> f_open_comment ?f' = tok_unterminated (last code)"
    "code = [] \<Longrightarrow> f_buf ?f' = []"
    by (auto simp: Let_def)
  moreover have "out = (if f_started ?f' \<and> \<not> f_open_comment ?f'
      then trim_right_nl (f_buf ?f') @ f_nl ?f' else f_buf ?f')"
    by (simp add: assms(1) run_formatter_def Let_def)
  ultimately show ?thesis using trim_right_nl_last [of "f_buf ?f'"] by auto
qed

theorem formatter_final_newline_witness:
  "\<exists>out. out = run_formatter (new_formatter ''x;'' default_options) (tokenize [] ''x;'')
     \<and> (\<exists>body. out = body @ dominant_newline ''x;'' \<and> (body = [] \<or> last body \<notin> {CR, LF}))"
proof -
  have code: "filter (\<lambda>t. tok_kind t \<noteq> T_Whitespace) (tokenize [] ''x;'') \<noteq> []"
    and closed: "\<not> tok_unterminated (last (filter (\<lambda>t. tok_kind t \<noteq> T_Whitespace) (tokenize [] ''x;'')))"
    by code_simp+
  show ?thesis
    using formatter_final_newline [of _ "''x;''" default_options "tokenize [] ''x;''", OF refl refl]
      code closed
    by blast
qed

end
