(* ===== verification/Message_Bus.thy ===== *)
theory Message_Bus
  imports Prelude
begin

text \<open>
  Messages in flight and the bus of \<open>internal/core/runtime/signal.go\<close>: how a message names its
  destination, which consumer may take it, and the queue discipline of \<open>PostMessage\<close> and
  \<open>TakeMessage\<close>. Payload values are of any type \<open>'v\<close>; an object identity is 0 for none.
\<close>

section \<open>Messages\<close>

datatype delivery_kind =
  DeliverAnyone | DeliverPort | DeliverPortReceiver | DeliverReceiver | DeliverObject

record 'v message =
  m_signal :: string
  m_target :: string
  m_port :: string
  m_object :: int
  m_delivery :: delivery_kind
  m_payload :: "string \<Rightarrow> 'v option"

definition delivery_of :: "'v message \<Rightarrow> delivery_kind" where
  "delivery_of m =
     (if m_port m \<noteq> [] \<and> m_target m \<noteq> [] then DeliverPortReceiver
      else if m_port m \<noteq> [] then DeliverPort
      else if m_target m \<noteq> [] then DeliverReceiver
      else if m_object m \<noteq> 0 then DeliverObject
      else DeliverAnyone)"

definition reaches :: "'v message \<Rightarrow> string \<Rightarrow> string \<Rightarrow> int \<Rightarrow> bool" where
  "reaches m name port obj =
     (if m_port m \<noteq> port then False
      else (case m_delivery m of
          DeliverPort \<Rightarrow> m_object m = obj
        | DeliverObject \<Rightarrow> m_object m = obj
        | DeliverPortReceiver \<Rightarrow> m_target m = name \<and> m_object m = obj
        | DeliverReceiver \<Rightarrow> m_target m = name \<and> (m_object m = obj \<or> m_object m = 0 \<or> obj = 0)
        | DeliverAnyone \<Rightarrow> True))"

definition carries_signal :: "'v message \<Rightarrow> string \<Rightarrow> bool" where
  "carries_signal m signal_type \<longleftrightarrow> signal_type = [] \<or> signal_type = m_signal m"

section \<open>The bus\<close>

text \<open>The queue of messages, oldest first.\<close>

definition post_message :: "'v message \<Rightarrow> 'v message list \<Rightarrow> 'v message list" where
  "post_message m q =
     q @ [if m_delivery m = DeliverAnyone then m\<lparr>m_delivery := delivery_of m\<rparr> else m]"

fun take_message :: "('v message \<Rightarrow> bool) \<Rightarrow> 'v message list \<Rightarrow> 'v message option \<times> 'v message list" where
  "take_message match [] = (None, [])"
| "take_message match (m # q) =
     (if match m then (Some m, q)
      else (case take_message match q of (r, q') \<Rightarrow> (r, m # q')))"

lemma take_message_Some:
  "take_message match q = (Some m, q') \<longleftrightarrow>
    (\<exists>xs ys. q = xs @ m # ys \<and> q' = xs @ ys \<and> match m \<and> (\<forall>x \<in> set xs. \<not> match x))"
proof (induction q arbitrary: q')
  case Nil
  then show ?case by simp
next
  case (Cons a q)
  show ?case
  proof (cases "match a")
    case True
    then show ?thesis by (fastforce simp: Cons_eq_append_conv)
  next
    case False
    show ?thesis
    proof
      assume "take_message match (a # q) = (Some m, q')"
      with False obtain q2 where "take_message match q = (Some m, q2)" "q' = a # q2"
        by (auto split: prod.splits)
      with Cons.IH [of q2] obtain xs ys where "q = xs @ m # ys" "q2 = xs @ ys" "match m"
        "\<forall>x \<in> set xs. \<not> match x" by auto
      with \<open>q' = a # q2\<close> False
      show "\<exists>xs ys. a # q = xs @ m # ys \<and> q' = xs @ ys \<and> match m \<and> (\<forall>x \<in> set xs. \<not> match x)"
        by (intro exI [of _ "a # xs"] exI [of _ ys]) simp
    next
      assume "\<exists>xs ys. a # q = xs @ m # ys \<and> q' = xs @ ys \<and> match m \<and> (\<forall>x \<in> set xs. \<not> match x)"
      then obtain xs ys where xs: "a # q = xs @ m # ys" "q' = xs @ ys" "match m"
        "\<forall>x \<in> set xs. \<not> match x" by blast
      with False obtain zs where "xs = a # zs" by (cases xs) auto
      with xs Cons.IH [of "zs @ ys"] have "take_message match q = (Some m, zs @ ys)" by auto
      with False \<open>xs = a # zs\<close> xs(2) show "take_message match (a # q) = (Some m, q')" by simp
    qed
  qed
qed

lemma take_message_None:
  "take_message match q = (None, q') \<longleftrightarrow> q' = q \<and> (\<forall>x \<in> set q. \<not> match x)"
proof (induction q arbitrary: q')
  case Nil
  then show ?case by auto
next
  case (Cons a q)
  obtain r q2 where t: "take_message match q = (r, q2)" by force
  with Cons.IH [of q2] Cons.IH [of q] show ?case by auto
qed

section \<open>The contract of a bus\<close>

text \<open>
  What the executors rely on: a consumer is served the oldest message it matches, every other
  message keeps its place, and a consumer with no match leaves the queue as it is.
\<close>

locale message_bus =
  fixes take_msg :: "('m \<Rightarrow> bool) \<Rightarrow> 'm list \<Rightarrow> 'm option \<times> 'm list"
  assumes served: "take_msg p q = (Some m, q') \<longleftrightarrow>
      (\<exists>xs ys. q = xs @ m # ys \<and> q' = xs @ ys \<and> p m \<and> (\<forall>x \<in> set xs. \<not> p x))"
    and unserved: "take_msg p q = (None, q') \<longleftrightarrow> q' = q \<and> (\<forall>x \<in> set q. \<not> p x)"
begin

text \<open>Two consumers with disjoint interests do not disturb each other.\<close>

lemma disjoint_consumers:
  assumes "\<And>m. p m \<Longrightarrow> \<not> r m"
  shows "filter r (snd (take_msg p q)) = filter r q"
proof (cases "take_msg p q")
  case (Pair res q')
  show ?thesis
  proof (cases res)
    case None
    with Pair unserved [of p q q'] show ?thesis by simp
  next
    case (Some m)
    with Pair served [of p q m q'] obtain xs ys where "q = xs @ m # ys" "q' = xs @ ys" "p m" by blast
    with assms Pair show ?thesis by simp
  qed
qed

lemma served_iff: "fst (take_msg p q) = None \<longleftrightarrow> (\<forall>x \<in> set q. \<not> p x)"
proof (cases "take_msg p q")
  case (Pair res q')
  show ?thesis
  proof (cases res)
    case None
    with Pair unserved [of p q q'] show ?thesis by simp
  next
    case (Some m)
    with Pair served [of p q m q'] show ?thesis by auto
  qed
qed

end

interpretation bus: message_bus take_message
  by unfold_locales (rule take_message_Some, rule take_message_None)

section \<open>Properties\<close>

text \<open>
  C18. The message bus is a fair queue per consumer: \<open>TakeMessage\<close> hands out the oldest matching
  message, removes nothing else and reorders nothing; with no match it changes nothing; and
  a consumer of one kind of message never takes or reorders the messages a disjoint consumer
  is waiting for.
\<close>

theorem take_message_fair:
  "(\<forall>m q'. take_message p q = (Some m, q') \<longleftrightarrow>
      (\<exists>xs ys. q = xs @ m # ys \<and> q' = xs @ ys \<and> p m \<and> (\<forall>x \<in> set xs. \<not> p x)))
   \<and> (fst (take_message p q) = None \<longleftrightarrow> (\<forall>x \<in> set q. \<not> p x))
   \<and> (\<forall>r. (\<forall>m. p m \<longrightarrow> \<not> r m) \<longrightarrow> filter r (snd (take_message p q)) = filter r q)"
  by (intro conjI allI impI) (rule bus.served, rule bus.served_iff, rule bus.disjoint_consumers, blast)

definition example_message :: "string \<Rightarrow> nat message" where
  "example_message s = \<lparr>m_signal = s, m_target = [], m_port = [], m_object = 0,
     m_delivery = DeliverAnyone, m_payload = (\<lambda>_. None)\<rparr>"

theorem take_message_fair_witness:
  "filter (\<lambda>m. m_signal m = ''B'')
       (snd (take_message (\<lambda>m. m_signal m = ''A'') [example_message ''B'', example_message ''A'']))
     = [example_message ''B'']"
proof -
  have "filter (\<lambda>m. m_signal m = ''B'')
       (snd (take_message (\<lambda>m. m_signal m = ''A'') [example_message ''B'', example_message ''A'']))
     = filter (\<lambda>m. m_signal m = ''B'') [example_message ''B'', example_message ''A'']"
    by (rule take_message_fair [THEN conjunct2, THEN conjunct2, THEN spec, THEN mp]) simp
  then show ?thesis by (simp add: example_message_def)
qed

text \<open>
  Addressed and port-routed traffic stay apart: a message posted without a delivery kind is
  held to exactly the destination its fields name, so a consumer takes it only on the named
  port, and a message naming a receiver or an object is taken by no other one.
\<close>

theorem post_message_destination:
  assumes "m_delivery m = DeliverAnyone" and "posted = last (post_message m q)"
    and "reaches posted name port obj"
  shows "port = m_port m
    \<and> (m_target m \<noteq> [] \<longrightarrow> name = m_target m)
    \<and> (m_port m \<noteq> [] \<longrightarrow> obj = m_object m)
    \<and> (m_object m \<noteq> 0 \<and> obj \<noteq> 0 \<longrightarrow> obj = m_object m)"
  using assms
  by (auto simp: post_message_def delivery_of_def reaches_def split: if_splits)

theorem post_message_destination_witness:
  "reaches (last (post_message \<lparr>m_signal = ''S'', m_target = ''r'', m_port = ''p'', m_object = 3,
      m_delivery = DeliverAnyone, m_payload = (\<lambda>_. None :: nat option)\<rparr> [])) ''r'' ''p'' 3
   \<and> ''p'' = m_port \<lparr>m_signal = ''S'', m_target = ''r'', m_port = ''p'', m_object = 3,
      m_delivery = DeliverAnyone, m_payload = (\<lambda>_. None :: nat option)\<rparr>"
proof -
  let ?m = "\<lparr>m_signal = ''S'', m_target = ''r'', m_port = ''p'', m_object = 3,
      m_delivery = DeliverAnyone, m_payload = (\<lambda>_. None :: nat option)\<rparr>"
  have r: "reaches (last (post_message ?m [])) ''r'' ''p'' 3"
    by (simp add: post_message_def delivery_of_def reaches_def)
  with post_message_destination [OF _ refl r] show ?thesis by simp
qed

end
