(* ===== verification/Prog.thy ===== *)
theory Prog
  imports Prelude
begin

text \<open>
  Methods that change the state of a component and may fail: a Go method \<open>func (e *T) m(...)
  (A, error)\<close> is a function from the state to the state after it and a result, an error or a
  value. The state changed before an error stays changed, as in the code. The combinators are the
  statements the methods are written with, and \<open>keeps\<close> is the statement that a method preserves
  an invariant on every path, errors included.
\<close>

named_theorems keeps_intros "preservation of an invariant by the statements of a method"

type_synonym ('m, 'x, 'a) prog = "'m \<Rightarrow> 'm \<times> ('x, 'a) res"

section \<open>Statements\<close>

definition give :: "'a \<Rightarrow> ('m, 'x, 'a) prog" where
  "give a m = (m, Inr a)"

definition throw :: "'x \<Rightarrow> ('m, 'x, 'a) prog" where
  "throw x m = (m, Inl x)"

definition then_do :: "('m, 'x, 'a) prog \<Rightarrow> ('a \<Rightarrow> ('m, 'x, 'b) prog) \<Rightarrow> ('m, 'x, 'b) prog" where
  "then_do p f m = (case p m of (m', Inl x) \<Rightarrow> (m', Inl x) | (m', Inr a) \<Rightarrow> f a m')"

definition update :: "('m \<Rightarrow> 'm) \<Rightarrow> ('m, 'x, unit) prog" where
  "update f m = (f m, Inr ())"

definition with_state :: "('m \<Rightarrow> ('m, 'x, 'a) prog) \<Rightarrow> ('m, 'x, 'a) prog" where
  "with_state k m = k m m"

text \<open>Statements one after the other, each returning on the first error.\<close>

primrec block :: "('m, 'x, unit) prog list \<Rightarrow> ('m, 'x, unit) prog" where
  "block [] = give ()"
| "block (p # ps) = then_do p (\<lambda>_. block ps)"

text \<open>\<open>for _, x := range xs { ... }\<close>, with an error ending it, and with an accumulated value.\<close>

primrec for_each :: "('a \<Rightarrow> ('m, 'x, unit) prog) \<Rightarrow> 'a list \<Rightarrow> ('m, 'x, unit) prog" where
  "for_each f [] = give ()"
| "for_each f (a # as) = then_do (f a) (\<lambda>_. for_each f as)"

primrec fold_each :: "('a \<Rightarrow> 'b \<Rightarrow> ('m, 'x, 'b) prog) \<Rightarrow> 'a list \<Rightarrow> 'b \<Rightarrow> ('m, 'x, 'b) prog" where
  "fold_each f [] b = give b"
| "fold_each f (a # as) b = then_do (f a b) (fold_each f as)"

text \<open>\<open>fmt.Errorf("...: %w", err)\<close> around the error of a call.\<close>

definition wrapped :: "('x \<Rightarrow> 'x) \<Rightarrow> ('m, 'x, 'a) prog \<Rightarrow> ('m, 'x, 'a) prog" where
  "wrapped w p m = (case p m of (m', Inl x) \<Rightarrow> (m', Inl (w x)) | (m', Inr a) \<Rightarrow> (m', Inr a))"

text \<open>A deferred function, run on every path out of the method.\<close>

definition finally_do :: "('m, 'x, 'a) prog \<Rightarrow> ('m \<Rightarrow> 'm) \<Rightarrow> ('m, 'x, 'a) prog" where
  "finally_do p f m = (case p m of (m', r) \<Rightarrow> (f m', r))"

lemma prog_simps [simp]:
  "give a m = (m, Inr a)"
  "throw x m = (m, Inl x)"
  "update f m = (f m, Inr ())"
  "with_state k m = k m m"
  by (simp_all add: give_def throw_def update_def with_state_def)

lemma then_do_simps [simp]:
  "p m = (m', Inl x) \<Longrightarrow> then_do p f m = (m', Inl x)"
  "p m = (m', Inr a) \<Longrightarrow> then_do p f m = f a m'"
  by (simp_all add: then_do_def)

lemma then_do_give [simp]: "then_do (give a) f = f a"
  by (simp add: fun_eq_iff then_do_def)

lemma block_update: "block (update f # ps) m = block ps (f m)"
  by simp

lemma then_do_update: "then_do (update f) k m = k () (f m)"
  by simp

lemma wrapped_simps [simp]:
  "p m = (m', Inl x) \<Longrightarrow> wrapped w p m = (m', Inl (w x))"
  "p m = (m', Inr a) \<Longrightarrow> wrapped w p m = (m', Inr a)"
  by (simp_all add: wrapped_def)

lemma fst_wrapped [simp]: "fst (wrapped w p m) = fst (p m)"
  by (cases "p m"; cases "snd (p m)") (auto simp: wrapped_def)

lemma finally_do_simps [simp]: "p m = (m', r) \<Longrightarrow> finally_do p f m = (f m', r)"
  by (simp add: finally_do_def)

lemma then_do_Inr:
  "then_do p f m = (m', Inr b) \<longleftrightarrow> (\<exists>m1 a. p m = (m1, Inr a) \<and> f a m1 = (m', Inr b))"
  by (cases "p m"; cases "snd (p m)") (auto simp: then_do_def)

lemma then_do_Inl:
  "then_do p f m = (m', Inl x) \<longleftrightarrow>
    p m = (m', Inl x) \<or> (\<exists>m1 a. p m = (m1, Inr a) \<and> f a m1 = (m', Inl x))"
  by (cases "p m"; cases "snd (p m)") (auto simp: then_do_def)

lemma wrapped_Inr [simp]: "wrapped w p m = (m', Inr a) \<longleftrightarrow> p m = (m', Inr a)"
  by (cases "p m"; cases "snd (p m)") (auto simp: wrapped_def)

lemma wrapped_Inl: "wrapped w p m = (m', Inl x) \<longleftrightarrow> (\<exists>y. p m = (m', Inl y) \<and> x = w y)"
  by (cases "p m"; cases "snd (p m)") (auto simp: wrapped_def)

lemma for_each_append: "for_each f (xs @ ys) = then_do (for_each f xs) (\<lambda>_. for_each f ys)"
proof (induction xs)
  case Nil
  then show ?case by (simp add: fun_eq_iff)
next
  case (Cons a xs)
  have assoc: "then_do (then_do p (\<lambda>_. q)) k = then_do p (\<lambda>_. then_do q k)" for p q k
    by (auto simp: fun_eq_iff then_do_def split: prod.splits sum.splits)
  show ?case using Cons by (simp add: assoc)
qed

section \<open>Invariants of methods\<close>

text \<open>
  \<open>maintains P bad p\<close>: started in a state that satisfies \<open>P\<close>, the method ends in one, on every path,
  and does not return a \<open>bad\<close> error. \<open>keeps P p\<close> is the case where no error is bad.
\<close>

definition maintains :: "('m \<Rightarrow> bool) \<Rightarrow> ('x \<Rightarrow> bool) \<Rightarrow> ('m, 'x, 'a) prog \<Rightarrow> bool" where
  "maintains P bad p \<longleftrightarrow> (\<forall>m. P m \<longrightarrow> P (fst (p m)) \<and> (\<forall>x. snd (p m) = Inl x \<longrightarrow> \<not> bad x))"

abbreviation keeps :: "('m \<Rightarrow> bool) \<Rightarrow> ('m, 'x, 'a) prog \<Rightarrow> bool" where
  "keeps P \<equiv> maintains P (\<lambda>_. False)"

lemma maintainsI:
  "(\<And>m m' r. P m \<Longrightarrow> p m = (m', r) \<Longrightarrow> P m' \<and> (\<forall>x. r = Inl x \<longrightarrow> \<not> bad x)) \<Longrightarrow> maintains P bad p"
  by (simp add: maintains_def prod_eq_iff)

lemma maintains_at: "maintains P bad p \<Longrightarrow> P m \<Longrightarrow> p m = (m', r) \<Longrightarrow> P m'"
  unfolding maintains_def by fastforce

lemma maintains_error: "maintains P bad p \<Longrightarrow> P m \<Longrightarrow> p m = (m', Inl x) \<Longrightarrow> \<not> bad x"
  unfolding maintains_def by fastforce

lemma maintains_fst: "maintains P bad p \<Longrightarrow> P m \<Longrightarrow> P (fst (p m))"
  by (simp add: maintains_def)

lemma maintains_give [keeps_intros]: "maintains P bad (give a)"
  by (rule maintainsI) auto

lemma maintains_throw: "\<not> bad x \<Longrightarrow> maintains P bad (throw x)"
  by (rule maintainsI) auto

lemma maintains_update: "(\<And>m. P m \<Longrightarrow> P (f m)) \<Longrightarrow> maintains P bad (update f)"
  by (rule maintainsI) auto

lemma maintains_with_state [keeps_intros]:
  "(\<And>m. P m \<Longrightarrow> maintains P bad (k m)) \<Longrightarrow> maintains P bad (with_state k)"
  by (simp add: maintains_def)

lemma maintains_then_do [keeps_intros]:
  assumes "maintains P bad p" "\<And>a. maintains P bad (f a)"
  shows "maintains P bad (then_do p f)"
proof (rule maintainsI)
  fix m m' r
  assume P: "P m" and t: "then_do p f m = (m', r)"
  obtain m1 r1 where 1: "p m = (m1, r1)" by force
  with assms(1) P have "P m1" by (rule maintains_at)
  show "P m' \<and> (\<forall>x. r = Inl x \<longrightarrow> \<not> bad x)"
  proof (cases r1)
    case (Inl x)
    with 1 t have "m' = m1" "r = Inl x" by auto
    with \<open>P m1\<close> maintains_error [OF assms(1) P] 1 Inl show ?thesis by auto
  next
    case (Inr a)
    with 1 t have "f a m1 = (m', r)" by auto
    with maintains_at [OF assms(2) \<open>P m1\<close>] maintains_error [OF assms(2) \<open>P m1\<close>] show ?thesis by auto
  qed
qed

lemma maintains_block [keeps_intros]: "list_all (maintains P bad) ps \<Longrightarrow> maintains P bad (block ps)"
  by (induction ps) (auto intro: keeps_intros)

lemma maintains_for_each [keeps_intros]:
  "(\<And>a. a \<in> set as \<Longrightarrow> maintains P bad (f a)) \<Longrightarrow> maintains P bad (for_each f as)"
  by (induction as) (auto intro: keeps_intros)

lemma maintains_fold_each [keeps_intros]:
  "(\<And>a b. a \<in> set as \<Longrightarrow> maintains P bad (f a b)) \<Longrightarrow> maintains P bad (fold_each f as b)"
  by (induction as arbitrary: b) (auto intro: keeps_intros)

lemma maintains_wrapped:
  "maintains P bad p \<Longrightarrow> (\<And>x. bad (w x) \<Longrightarrow> bad x) \<Longrightarrow> maintains P bad (wrapped w p)"
  by (fastforce simp: maintains_def wrapped_def split: prod.splits sum.splits)

lemma maintains_finally_do:
  assumes "maintains P bad p" "\<And>m. P m \<Longrightarrow> P (f m)"
  shows "maintains P bad (finally_do p f)"
  using assms by (fastforce simp: maintains_def finally_do_def split: prod.splits)

lemma maintains_if [keeps_intros]:
  "(b \<Longrightarrow> maintains P bad p) \<Longrightarrow> (\<not> b \<Longrightarrow> maintains P bad q) \<Longrightarrow> maintains P bad (if b then p else q)"
  by simp

lemma maintains_case_option [keeps_intros]:
  "(x = None \<Longrightarrow> maintains P bad p) \<Longrightarrow> (\<And>a. x = Some a \<Longrightarrow> maintains P bad (f a))
    \<Longrightarrow> maintains P bad (case x of None \<Rightarrow> p | Some a \<Rightarrow> f a)"
  by (cases x) auto

lemma maintains_case_sum [keeps_intros]:
  "(\<And>a. x = Inl a \<Longrightarrow> maintains P bad (f a)) \<Longrightarrow> (\<And>b. x = Inr b \<Longrightarrow> maintains P bad (h b))
    \<Longrightarrow> maintains P bad (case x of Inl a \<Rightarrow> f a | Inr b \<Rightarrow> h b)"
  by (cases x) auto

lemma maintains_case_prod [keeps_intros]:
  "(\<And>a b. x = (a, b) \<Longrightarrow> maintains P bad (f a b)) \<Longrightarrow> maintains P bad (case x of (a, b) \<Rightarrow> f a b)"
  by (cases x) auto

end
