(* ===== verification/Runtime_Context.thy ===== *)
theory Runtime_Context
  imports Message_Bus Prog
begin

text \<open>
  What the two executors share: the execution states of \<open>executor_common.go\<close> and the parts of
  the runtime's \<open>Context\<close> they use, the message bus, the counters and the budgets. The rest of
  the context (instances, activations, memoized calculations) is the field \<open>rc_rest\<close>, which only
  the evaluator and the statement engine read and write.
\<close>

datatype execution_state =
  StateReady | StateRunning | StateCompleted | StateSuspended | StateWaiting

record ('v, 'c) rt_context =
  rc_messages :: "'v message list"
  rc_steps :: int
  rc_elements :: int
  rc_run_depth :: int
  rc_max_action_steps :: int
  rc_max_state_events :: int
  rc_max_do_steps :: int
  rc_rest :: 'c

type_synonym 'v feats = "string \<Rightarrow> 'v option"

section \<open>A run under way\<close>

text \<open>
  \<open>beginExecutorRun\<close> and the function it returns, deferred to the end of the call: the first call
  of a run that no other run encloses resets the counters; \<open>reset\<close> clears the memoized runs.
\<close>

definition begin_executor_run :: "('c \<Rightarrow> 'c) \<Rightarrow> bool \<Rightarrow> ('v, 'c) rt_context \<Rightarrow> ('v, 'c) rt_context" where
  "begin_executor_run reset started ctx =
     (let ctx1 = (if rc_run_depth ctx = 0 \<and> \<not> started
                  then ctx\<lparr>rc_steps := 0, rc_elements := 0, rc_rest := reset (rc_rest ctx)\<rparr>
                  else ctx)
      in ctx1\<lparr>rc_run_depth := rc_run_depth ctx1 + 1\<rparr>)"

definition end_executor_run :: "('v, 'c) rt_context \<Rightarrow> ('v, 'c) rt_context" where
  "end_executor_run ctx = ctx\<lparr>rc_run_depth := rc_run_depth ctx - 1\<rparr>"

declare begin_executor_run_def [simp] end_executor_run_def [simp]

end
