(* ===== verification/Action_Executor.thy ===== *)
theory Action_Executor
  imports Runtime_Context
begin

text \<open>
  The token-flow executor of actions, \<open>internal/core/runtime/action_executor.go\<close> with the token
  and state types of \<open>executor_common.go\<close>, over the graph of
  \<open>internal/core/lower/action_graph.go\<close>. AST nodes are identities (\<open>nid\<close>), as the code
  compares node pointers; what a node is, its edges, guards, flows, bodies and accepts are fields
  of the graph. Three services of the runtime are arguments, the record \<open>engine\<close>: the
  expression evaluator (\<open>EvalContext.Eval\<close>), the statement engine (\<open>executeBody\<close>) and the
  invocation of another action (\<open>invokeAction\<close>); each may change the context and fail, and
  every theorem holds whatever they do. A handler returns the new executor and its error:
  state changed before an error stays changed, as in the code.
\<close>

type_synonym nid = nat

section \<open>Errors and node kinds\<close>

record accept_wait =
  aw_param :: string
  aw_signal :: string
  aw_via :: string
  aw_since :: int
  aw_trigger :: string

datatype action_error =
    ErrInvalidActionFlow string
  | ErrTypeMismatch string
  | ErrAmbiguousSuccession string
  | ErrNoEnabledSuccession string
  | ErrActionDeadlock nat
  | ErrAcceptDeadlock "accept_wait list" nat
  | ErrActionStepLimitExceeded int
  | ErrNoValue string string
  | ErrNoClock string
  | ErrOther string
  | ErrWrapped string action_error

text \<open>\<open>errors.Is(err, ErrAcceptDeadlock)\<close>: through every \<open>%w\<close> wrapping.\<close>

fun is_accept_deadlock :: "action_error \<Rightarrow> bool" where
  "is_accept_deadlock (ErrAcceptDeadlock ws n) = True"
| "is_accept_deadlock (ErrWrapped s e) = is_accept_deadlock e"
| "is_accept_deadlock _ = False"

datatype 'e anode =
    InitialNode string
  | FinalNode string
  | ForkNode string
  | JoinNode string
  | MergeNode string
  | DecisionNode string
  | ActionExecutionNode string "'e option" "'e option"
  | UsageNode bool string string "'e option"
  | StatementNode string
  | StateNode string
  | DefinitionNode string string
  | OtherNode

text \<open>\<open>ActionNodeName\<close> and \<open>ActionNodeNames\<close>.\<close>

fun action_node_name :: "'e anode \<Rightarrow> string" where
  "action_node_name (InitialNode n) = n"
| "action_node_name (FinalNode n) = n"
| "action_node_name (ForkNode n) = n"
| "action_node_name (JoinNode n) = n"
| "action_node_name (MergeNode n) = n"
| "action_node_name (DecisionNode n) = n"
| "action_node_name (ActionExecutionNode n _ _) = n"
| "action_node_name (StateNode n) = n"
| "action_node_name (UsageNode _ n short _) = (if n \<noteq> [] then n else short)"
| "action_node_name (DefinitionNode n short) = (if n \<noteq> [] then n else short)"
| "action_node_name _ = []"

definition action_node_names :: "'e anode \<Rightarrow> string list" where
  "action_node_names nd =
     (let name = action_node_name nd;
          short = (case nd of UsageNode _ _ s _ \<Rightarrow> s | DefinitionNode _ s \<Rightarrow> s | _ \<Rightarrow> [])
      in (if name \<noteq> [] then [name] else []) @ (if short \<noteq> [] \<and> short \<noteq> name then [short] else []))"

section \<open>The execution graph\<close>

datatype 'e trigger = ChangeEvent 'e | TimeEvent | OtherTrigger

record 'e accept =
  ac_param :: string
  ac_signal :: string
  ac_subsets :: string
  ac_via :: string
  ac_trigger :: "('e trigger \<times> string) option"

record object_flow =
  of_name :: string
  of_source_pin :: string
  of_target_pin :: string

record ('e, 's) action_graph =
  g_node :: "nid \<Rightarrow> 'e anode"
  g_nodes :: "nid list"
  g_edges :: "(nid \<times> nid list) list"
  g_guards :: "nid \<Rightarrow> (nid \<times> 'e) list"
  g_flows :: "nid \<Rightarrow> object_flow list"
  g_bodies :: "nid \<Rightarrow> 's list"
  g_accepts :: "nid \<Rightarrow> 'e accept option"
  g_initial :: "nid option"
  g_attributes :: "(string \<times> 'e) list"

definition edges_of :: "('e, 's) action_graph \<Rightarrow> nid \<Rightarrow> nid list" where
  "edges_of g n = (case map_of (g_edges g) n of Some l \<Rightarrow> l | None \<Rightarrow> [])"

definition guard_of :: "('e, 's) action_graph \<Rightarrow> nid \<Rightarrow> nid \<Rightarrow> 'e option" where
  "guard_of g n succ = map_of (g_guards g n) succ"

definition incoming_edges :: "('e, 's) action_graph \<Rightarrow> nid \<Rightarrow> nid list" where
  "incoming_edges g n = map fst (filter (\<lambda>(src, targets). n \<in> set targets) (g_edges g))"

section \<open>The executor's state\<close>

record flow_token =
  ft_id :: int
  ft_loc :: nid
  ft_wait :: "accept_wait option"

record ('v, 'c) executor =
  x_ctx :: "('v, 'c) rt_context"
  x_self :: int
  x_tokens :: "flow_token list"
  x_state :: execution_state
  x_next_id :: int
  x_step_count :: int
  x_breakpoints :: "string list"
  x_fired :: "(int \<times> nid) list"
  x_data :: "'v feats"
  x_merge_visited :: "nid list"
  x_inputs :: "(string \<times> 'v) list"
  x_paused_at :: string
  x_run_started :: bool
  x_trace :: "(int \<times> (int \<times> nid) list) list option"

text \<open>
  The services. \<open>as_bool\<close> is the test \<open>Kind == ValConst && Const.Kind == ValBool\<close> with the
  boolean read; \<open>reset_runs\<close> clears the calc usage runs of a new run.
\<close>

record ('e, 's, 'v, 'c) engine =
  eval_expr :: "('v, 'c) rt_context \<Rightarrow> 'v feats \<Rightarrow> 'e \<Rightarrow> ('v, 'c) rt_context \<times> (action_error, 'v) res"
  as_bool :: "'v \<Rightarrow> bool option"
  run_stmts :: "nid \<Rightarrow> 's list \<Rightarrow> ('v, 'c) rt_context \<Rightarrow> 'v feats
    \<Rightarrow> ('v, 'c) rt_context \<times> 'v feats \<times> action_error option"
  invoke_action :: "'e \<Rightarrow> ('v, 'c) rt_context \<Rightarrow> 'v feats
    \<Rightarrow> ('v, 'c) rt_context \<times> (action_error, (string \<times> 'v) list) res"
  reset_runs :: "'c \<Rightarrow> 'c"

type_synonym ('v, 'c) outcome = "('v, 'c) executor \<times> action_error option"

definition ok :: "('v, 'c) executor \<Rightarrow> ('v, 'c) outcome" where
  "ok e = (e, None)"

definition fail :: "action_error \<Rightarrow> ('v, 'c) executor \<Rightarrow> ('v, 'c) outcome" where
  "fail err e = (e, Some err)"

definition and_then :: "('v, 'c) outcome \<Rightarrow> (('v, 'c) executor \<Rightarrow> ('v, 'c) outcome) \<Rightarrow> ('v, 'c) outcome" where
  "and_then r f = (case r of (e, None) \<Rightarrow> f e | (e, Some err) \<Rightarrow> (e, Some err))"

text \<open>\<open>beginExecutorRun\<close> and the function it returns, deferred to the end of the call.\<close>

definition begin_run :: "('e, 's, 'v, 'c) engine \<Rightarrow> ('v, 'c) executor \<Rightarrow> ('v, 'c) executor" where
  "begin_run eng e =
     e\<lparr>x_ctx := begin_executor_run (reset_runs eng) (x_run_started e) (x_ctx e), x_run_started := True\<rparr>"

definition end_run :: "('v, 'c) executor \<Rightarrow> ('v, 'c) executor" where
  "end_run e = e\<lparr>x_ctx := end_executor_run (x_ctx e)\<rparr>"

definition bracket_run ::
  "('e, 's, 'v, 'c) engine \<Rightarrow> (('v, 'c) executor \<Rightarrow> ('v, 'c) outcome) \<Rightarrow> ('v, 'c) executor \<Rightarrow> ('v, 'c) outcome"
where
  "bracket_run eng body e = (case body (begin_run eng e) of (e', err) \<Rightarrow> (end_run e', err))"

section \<open>Construction and initialization\<close>

definition new_executor :: "('v, 'c) rt_context \<Rightarrow> int \<Rightarrow> ('v, 'c) executor" where
  "new_executor ctx self =
     \<lparr>x_ctx = ctx, x_self = self, x_tokens = [], x_state = StateReady, x_next_id = 1,
      x_step_count = 0, x_breakpoints = [], x_fired = [], x_data = (\<lambda>_. None),
      x_merge_visited = [], x_inputs = [], x_paused_at = [], x_run_started = False, x_trace = None\<rparr>"

definition set_inputs :: "(string \<times> 'v) list \<Rightarrow> ('v, 'c) executor \<Rightarrow> ('v, 'c) executor" where
  "set_inputs inputs e = e\<lparr>x_inputs := inputs\<rparr>"

definition store_all :: "(string \<times> 'v) list \<Rightarrow> ('v, 'c) executor \<Rightarrow> ('v, 'c) executor" where
  "store_all kvs e = e\<lparr>x_data := fold (\<lambda>(k, v) d. d(k \<mapsto> v)) kvs (x_data e)\<rparr>"

fun initialize_attributes ::
  "('e, 's, 'v, 'c) engine \<Rightarrow> (string \<times> 'e) list \<Rightarrow> ('v, 'c) executor \<Rightarrow> ('v, 'c) outcome" where
  "initialize_attributes eng [] e = ok e"
| "initialize_attributes eng ((name, ex) # attrs) e =
     (case eval_expr eng (x_ctx e) (\<lambda>_. None) ex of (ctx, r) \<Rightarrow>
        (let e' = e\<lparr>x_ctx := ctx\<rparr> in
         case r of
           Inl err \<Rightarrow> fail (ErrWrapped (''eval attribute default '' @ name) err) e'
         | Inr v \<Rightarrow> initialize_attributes eng attrs (e'\<lparr>x_data := (x_data e')(name \<mapsto> v)\<rparr>)))"

definition has_flow :: "('e, 's) action_graph \<Rightarrow> bool" where
  "has_flow g \<longleftrightarrow> g_initial g \<noteq> None"

definition init_body ::
  "('e, 's, 'v, 'c) engine \<Rightarrow> ('e, 's) action_graph \<Rightarrow> ('v, 'c) executor \<Rightarrow> ('v, 'c) outcome" where
  "init_body eng g e =
     (case g_initial g of
        None \<Rightarrow> fail (ErrInvalidActionFlow ''no initial node found'') e
      | Some n \<Rightarrow>
          (case initialize_attributes eng (g_attributes g) e of
             (e1, Some err) \<Rightarrow> fail (ErrWrapped ''initialize attributes'' err) e1
           | (e1, None) \<Rightarrow>
               (let e2 = store_all (x_inputs e1) e1;
                    tok = \<lparr>ft_id = x_next_id e2, ft_loc = n, ft_wait = None\<rparr>
                in ok (e2\<lparr>x_next_id := x_next_id e2 + 1, x_tokens := x_tokens e2 @ [tok],
                          x_state := StateRunning\<rparr>))))"

definition initialize ::
  "('e, 's, 'v, 'c) engine \<Rightarrow> ('e, 's) action_graph \<Rightarrow> ('v, 'c) executor \<Rightarrow> ('v, 'c) outcome" where
  "initialize eng g = bracket_run eng (init_body eng g)"

section \<open>Bodies, guards and enabled successions\<close>

definition execute_body ::
  "('e, 's, 'v, 'c) engine \<Rightarrow> ('e, 's) action_graph \<Rightarrow> nid \<Rightarrow> ('v, 'c) executor \<Rightarrow> ('v, 'c) outcome" where
  "execute_body eng g n e =
     (case run_stmts eng n (g_bodies g n) (x_ctx e) (x_data e) of
        (ctx, d, err) \<Rightarrow> (e\<lparr>x_ctx := ctx, x_data := d\<rparr>, err))"

definition run_node_body ::
  "('e, 's, 'v, 'c) engine \<Rightarrow> ('e, 's) action_graph \<Rightarrow> nid \<Rightarrow> ('v, 'c) executor \<Rightarrow> ('v, 'c) outcome" where
  "run_node_body eng g n e = (if g_bodies g n = [] then ok e else execute_body eng g n e)"

definition node_description :: "('e, 's) action_graph \<Rightarrow> nid \<Rightarrow> string" where
  "node_description g n =
     (let name = action_node_name (g_node g n) in if name \<noteq> [] then ''node '' @ name else ''the node'')"

definition guard_holds ::
  "('e, 's, 'v, 'c) engine \<Rightarrow> ('e, 's) action_graph \<Rightarrow> nid \<Rightarrow> 'e option \<Rightarrow> ('v, 'c) executor
    \<Rightarrow> ('v, 'c) executor \<times> (action_error, bool) res" where
  "guard_holds eng g n guard e =
     (case guard of
        None \<Rightarrow> (e, Inr True)
      | Some ex \<Rightarrow>
          (case eval_expr eng (x_ctx e) (x_data e) ex of (ctx, r) \<Rightarrow>
             (e\<lparr>x_ctx := ctx\<rparr>,
              (case r of
                 Inl err \<Rightarrow> Inl (ErrWrapped (''eval guard of '' @ node_description g n) err)
               | Inr v \<Rightarrow> (case as_bool eng v of
                    None \<Rightarrow> Inl (ErrTypeMismatch (node_description g n))
                  | Some b \<Rightarrow> Inr b)))))"

fun filter_enabled ::
  "('e, 's, 'v, 'c) engine \<Rightarrow> ('e, 's) action_graph \<Rightarrow> nid \<Rightarrow> nid list \<Rightarrow> ('v, 'c) executor
    \<Rightarrow> ('v, 'c) executor \<times> (action_error, nid list) res" where
  "filter_enabled eng g n [] e = (e, Inr [])"
| "filter_enabled eng g n (s # ss) e =
     (case guard_holds eng g n (guard_of g n s) e of
        (e1, Inl err) \<Rightarrow> (e1, Inl err)
      | (e1, Inr holds) \<Rightarrow>
          (case filter_enabled eng g n ss e1 of
             (e2, Inl err) \<Rightarrow> (e2, Inl err)
           | (e2, Inr rest) \<Rightarrow> (e2, Inr (if holds then s # rest else rest))))"

definition enabled_successions ::
  "('e, 's, 'v, 'c) engine \<Rightarrow> ('e, 's) action_graph \<Rightarrow> nid \<Rightarrow> ('v, 'c) executor
    \<Rightarrow> ('v, 'c) executor \<times> (action_error, nid list) res" where
  "enabled_successions eng g n e =
     (if edges_of g n = [] \<or> g_guards g n = [] then (e, Inr (edges_of g n))
      else filter_enabled eng g n (edges_of g n) e)"

definition with_successions ::
  "('e, 's, 'v, 'c) engine \<Rightarrow> ('e, 's) action_graph \<Rightarrow> nid \<Rightarrow>
    (nid list \<Rightarrow> ('v, 'c) executor \<Rightarrow> ('v, 'c) outcome) \<Rightarrow> ('v, 'c) executor \<Rightarrow> ('v, 'c) outcome" where
  "with_successions eng g n k e =
     (case enabled_successions eng g n e of (e1, Inl err) \<Rightarrow> fail err e1 | (e1, Inr ss) \<Rightarrow> k ss e1)"

section \<open>Moving, retiring and spawning tokens\<close>

definition delete_at :: "nat \<Rightarrow> 'a list \<Rightarrow> 'a list" where
  "delete_at i xs = take i xs @ drop (Suc i) xs"

definition move_token :: "nat \<Rightarrow> nid \<Rightarrow> ('v, 'c) executor \<Rightarrow> ('v, 'c) executor" where
  "move_token i n e = e\<lparr>x_tokens := (x_tokens e)[i := (x_tokens e ! i)\<lparr>ft_loc := n\<rparr>]\<rparr>"

definition set_wait :: "nat \<Rightarrow> accept_wait option \<Rightarrow> ('v, 'c) executor \<Rightarrow> ('v, 'c) executor" where
  "set_wait i w e = e\<lparr>x_tokens := (x_tokens e)[i := (x_tokens e ! i)\<lparr>ft_wait := w\<rparr>]\<rparr>"

definition complete_if_empty :: "('v, 'c) executor \<Rightarrow> ('v, 'c) executor" where
  "complete_if_empty e = (if x_tokens e = [] then e\<lparr>x_state := StateCompleted\<rparr> else e)"

definition retire_token :: "nat \<Rightarrow> ('v, 'c) executor \<Rightarrow> ('v, 'c) executor" where
  "retire_token i e = complete_if_empty (e\<lparr>x_tokens := delete_at i (x_tokens e)\<rparr>)"

fun spawn_tokens :: "int \<Rightarrow> nid list \<Rightarrow> flow_token list" where
  "spawn_tokens k [] = []"
| "spawn_tokens k (s # ss) = \<lparr>ft_id = k, ft_loc = s, ft_wait = None\<rparr> # spawn_tokens (k + 1) ss"

section \<open>One handler per kind of node\<close>

definition loc_of :: "nat \<Rightarrow> ('v, 'c) executor \<Rightarrow> nid" where
  "loc_of i e = ft_loc (x_tokens e ! i)"

definition step_initial_node ::
  "('e, 's, 'v, 'c) engine \<Rightarrow> ('e, 's) action_graph \<Rightarrow> nat \<Rightarrow> ('v, 'c) executor \<Rightarrow> ('v, 'c) outcome" where
  "step_initial_node eng g i e =
     (let n = loc_of i e in
      if edges_of g n = [] then fail (ErrInvalidActionFlow ''initial node has no successors'') e
      else and_then (run_node_body eng g n e) (with_successions eng g n (\<lambda>ss e.
        (case ss of [] \<Rightarrow> ok (retire_token i e) | s # _ \<Rightarrow> ok (move_token i s e)))))"

definition step_final_node :: "nat \<Rightarrow> ('v, 'c) executor \<Rightarrow> ('v, 'c) outcome" where
  "step_final_node i e = ok (retire_token i e)"

definition step_fork_node ::
  "('e, 's, 'v, 'c) engine \<Rightarrow> ('e, 's) action_graph \<Rightarrow> nat \<Rightarrow> ('v, 'c) executor \<Rightarrow> ('v, 'c) outcome" where
  "step_fork_node eng g i e =
     (let n = loc_of i e in
      if edges_of g n = [] then fail (ErrInvalidActionFlow ''fork node has no successors'') e
      else and_then (run_node_body eng g n e) (with_successions eng g n (\<lambda>ss e.
        (if ss = [] then ok (retire_token i e)
         else ok (e\<lparr>x_tokens := delete_at i (x_tokens e) @ spawn_tokens (x_next_id e) ss,
                    x_next_id := x_next_id e + int (length ss)\<rparr>)))))"

definition tokens_at :: "nid \<Rightarrow> ('v, 'c) executor \<Rightarrow> nat" where
  "tokens_at n e = length (filter (\<lambda>t. ft_loc t = n) (x_tokens e))"

definition step_join_node ::
  "('e, 's, 'v, 'c) engine \<Rightarrow> ('e, 's) action_graph \<Rightarrow> nat \<Rightarrow> ('v, 'c) executor \<Rightarrow> ('v, 'c) outcome" where
  "step_join_node eng g i e =
     (let n = loc_of i e in
      if tokens_at n e < length (incoming_edges g n) then ok e
      else and_then (run_node_body eng g n e) (\<lambda>e.
        (let remaining = filter (\<lambda>t. ft_loc t \<noteq> n) (x_tokens e) in
         if edges_of g n = [] then fail (ErrInvalidActionFlow ''join node has no successors'') e
         else if length (edges_of g n) > 1
         then fail (ErrInvalidActionFlow ''join node has multiple successors'') e
         else with_successions eng g n (\<lambda>ss e.
           (case ss of
              [] \<Rightarrow> ok (complete_if_empty (e\<lparr>x_tokens := remaining\<rparr>))
            | s # _ \<Rightarrow> ok (e\<lparr>x_tokens := remaining @ spawn_tokens (x_next_id e) [s],
                             x_next_id := x_next_id e + 1\<rparr>))) e)))"

definition step_merge_node ::
  "('e, 's, 'v, 'c) engine \<Rightarrow> ('e, 's) action_graph \<Rightarrow> nat \<Rightarrow> ('v, 'c) executor \<Rightarrow> ('v, 'c) outcome" where
  "step_merge_node eng g i e =
     (let n = loc_of i e in
      if n \<in> set (x_merge_visited e) then ok (e\<lparr>x_tokens := delete_at i (x_tokens e)\<rparr>)
      else if edges_of g n = [] then fail (ErrInvalidActionFlow ''merge node has no successors'') e
      else if length (edges_of g n) > 1
      then fail (ErrInvalidActionFlow ''merge node has multiple successors'') e
      else with_successions eng g n (\<lambda>ss e.
        (case ss of
           [] \<Rightarrow> ok (retire_token i e)
         | s # _ \<Rightarrow> and_then (run_node_body eng g n e) (\<lambda>e.
             ok (move_token i s (e\<lparr>x_merge_visited := n # x_merge_visited e\<rparr>))))) e)"

text \<open>The two passes of a decision: the first guard that holds, else the last unguarded edge.\<close>

fun decide ::
  "('e, 's, 'v, 'c) engine \<Rightarrow> ('e, 's) action_graph \<Rightarrow> nid \<Rightarrow> nid list \<Rightarrow> nid option \<Rightarrow> ('v, 'c) executor
    \<Rightarrow> ('v, 'c) executor \<times> (action_error, nid option) res" where
  "decide eng g n [] unguarded e = (e, Inr unguarded)"
| "decide eng g n (s # ss) unguarded e =
     (case guard_of g n s of
        None \<Rightarrow> decide eng g n ss (Some s) e
      | Some ex \<Rightarrow>
          (case guard_holds eng g n (Some ex) e of
             (e1, Inl err) \<Rightarrow> (e1, Inl err)
           | (e1, Inr True) \<Rightarrow> (e1, Inr (Some s))
           | (e1, Inr False) \<Rightarrow> decide eng g n ss unguarded e1))"

definition step_decision_node ::
  "('e, 's, 'v, 'c) engine \<Rightarrow> ('e, 's) action_graph \<Rightarrow> nat \<Rightarrow> ('v, 'c) executor \<Rightarrow> ('v, 'c) outcome" where
  "step_decision_node eng g i e =
     (let n = loc_of i e in
      if edges_of g n = [] then fail (ErrInvalidActionFlow ''decision node has no successors'') e
      else and_then (run_node_body eng g n e) (\<lambda>e.
        (case decide eng g n (edges_of g n) None e of
           (e1, Inl err) \<Rightarrow> fail err e1
         | (e1, Inr (Some s)) \<Rightarrow> ok (move_token i s e1)
         | (e1, Inr None) \<Rightarrow> fail (ErrNoEnabledSuccession (action_node_name (g_node g n))) e1)))"

text \<open>\<open>applyDataFlows\<close>, flow by flow.\<close>

definition or_any_pin :: "string \<Rightarrow> string" where
  "or_any_pin pin = (if pin = [] then ''its output'' else pin)"

definition flow_description :: "object_flow \<Rightarrow> string" where
  "flow_description fl =
     (if of_name fl \<noteq> [] then ''flow '' @ of_name fl
      else ''flow from '' @ or_any_pin (of_source_pin fl) @ '' to '' @ or_any_pin (of_target_pin fl))"

fun apply_flows :: "object_flow list \<Rightarrow> ('v, 'c) executor \<Rightarrow> ('v, 'c) outcome" where
  "apply_flows [] e = ok e"
| "apply_flows (fl # fls) e =
     (case x_data e (of_source_pin fl) of
        None \<Rightarrow> fail (ErrNoValue (flow_description fl) (or_any_pin (of_source_pin fl))) e
      | Some v \<Rightarrow> apply_flows fls (e\<lparr>x_data := (x_data e)(of_target_pin fl \<mapsto> v)\<rparr>))"

definition apply_data_flows ::
  "('e, 's) action_graph \<Rightarrow> nid \<Rightarrow> ('v, 'c) executor \<Rightarrow> ('v, 'c) outcome" where
  "apply_data_flows g n e = apply_flows (g_flows g n) e"

definition invoke_into ::
  "('e, 's, 'v, 'c) engine \<Rightarrow> 'e \<Rightarrow> ('v, 'c) executor \<Rightarrow> ('v, 'c) outcome" where
  "invoke_into eng ref e =
     (case invoke_action eng ref (x_ctx e) (x_data e) of (ctx, r) \<Rightarrow>
        (let e1 = e\<lparr>x_ctx := ctx\<rparr> in
         case r of Inl err \<Rightarrow> fail err e1 | Inr outputs \<Rightarrow> ok (store_all outputs e1)))"

text \<open>The end of a node that has one way on: flows out of it, then retire or move.\<close>

definition leave_node ::
  "('e, 's, 'v, 'c) engine \<Rightarrow> ('e, 's) action_graph \<Rightarrow> bool \<Rightarrow> action_error \<Rightarrow> nat \<Rightarrow> nid
    \<Rightarrow> ('v, 'c) executor \<Rightarrow> ('v, 'c) outcome" where
  "leave_node eng g flows ambiguous i n e =
     with_successions eng g n (\<lambda>ss e.
       (if length ss > 1 then fail ambiguous e
        else and_then (if flows then apply_data_flows g n e else ok e) (\<lambda>e.
          (case ss of [] \<Rightarrow> ok (retire_token i e) | s # _ \<Rightarrow> ok (move_token i s e))))) e"

definition output_pin :: "('e, 's) action_graph \<Rightarrow> nid \<Rightarrow> string" where
  "output_pin g n =
     (case g_flows g n of
        fl # _ \<Rightarrow> if of_source_pin fl \<noteq> [] then of_source_pin fl else ''result''
      | [] \<Rightarrow> ''result'')"

definition step_action_execution_node ::
  "('e, 's, 'v, 'c) engine \<Rightarrow> ('e, 's) action_graph \<Rightarrow> nat \<Rightarrow> 'e option \<Rightarrow> 'e option
    \<Rightarrow> ('v, 'c) executor \<Rightarrow> ('v, 'c) outcome" where
  "step_action_execution_node eng g i expression action_ref e =
     (let n = loc_of i e in
      and_then
        (case expression of
           Some ex \<Rightarrow>
             (case eval_expr eng (x_ctx e) (x_data e) ex of (ctx, r) \<Rightarrow>
                (let e1 = e\<lparr>x_ctx := ctx\<rparr> in
                 case r of
                   Inl err \<Rightarrow> fail (ErrWrapped ''eval expression'' err) e1
                 | Inr v \<Rightarrow> ok (e1\<lparr>x_data := (x_data e1)(output_pin g n \<mapsto> v)\<rparr>)))
         | None \<Rightarrow> (case action_ref of Some ref \<Rightarrow> invoke_into eng ref e | None \<Rightarrow> ok e))
        (leave_node eng g True (ErrAmbiguousSuccession (action_node_name (g_node g n))) i n))"

definition trigger_holds ::
  "('e, 's, 'v, 'c) engine \<Rightarrow> 'e trigger \<Rightarrow> string \<Rightarrow> ('v, 'c) executor
    \<Rightarrow> ('v, 'c) executor \<times> (action_error, bool) res" where
  "trigger_holds eng tr descr e =
     (case tr of
        ChangeEvent cond \<Rightarrow>
          (case eval_expr eng (x_ctx e) (x_data e) cond of (ctx, r) \<Rightarrow>
             (e\<lparr>x_ctx := ctx\<rparr>,
              (case r of
                 Inl err \<Rightarrow> Inl (ErrWrapped ''eval accept condition'' err)
               | Inr v \<Rightarrow> (case as_bool eng v of
                    None \<Rightarrow> Inl (ErrTypeMismatch ''accept when: condition must evaluate to boolean'')
                  | Some b \<Rightarrow> Inr b))))
      | TimeEvent \<Rightarrow> (e, Inl (ErrNoClock descr))
      | OtherTrigger \<Rightarrow> (e, Inl (ErrOther ''accept trigger is not executed'')))"

definition park :: "nat \<Rightarrow> accept_wait \<Rightarrow> ('v, 'c) executor \<Rightarrow> ('v, 'c) executor" where
  "park i w e = (if ft_wait (x_tokens e ! i) = None then set_wait i (Some w) e else e)"

definition wanted_signal :: "'e accept \<Rightarrow> string" where
  "wanted_signal ac = (if ac_signal ac \<noteq> [] then ac_signal ac else ac_subsets ac)"

definition message_matches :: "string \<Rightarrow> 'e accept \<Rightarrow> int \<Rightarrow> 'v message \<Rightarrow> bool" where
  "message_matches name ac self m \<longleftrightarrow>
     reaches m name (ac_via ac) self \<and> carries_signal m (wanted_signal ac)"

text \<open>The accept part of \<open>stepNestedAction\<close>: whether the token may go on, and the error.\<close>

definition step_accept ::
  "('e, 's, 'v, 'c) engine \<Rightarrow> string \<Rightarrow> 'e accept \<Rightarrow> nat \<Rightarrow> ('v, 'c) executor
    \<Rightarrow> ('v, 'c) executor \<times> (action_error, bool) res" where
  "step_accept eng name ac i e =
     (case ac_trigger ac of
        Some (tr, descr) \<Rightarrow>
          (case trigger_holds eng tr descr e of
             (e1, Inl err) \<Rightarrow> (e1, Inl err)
           | (e1, Inr ready) \<Rightarrow>
               (if \<not> ready
                then (park i \<lparr>aw_param = ac_param ac, aw_signal = [], aw_via = [],
                             aw_since = x_step_count e1 + 1, aw_trigger = descr\<rparr> e1, Inr False)
                else (set_wait i None e1, Inr True)))
      | None \<Rightarrow>
          (case take_message (message_matches name ac (x_self e)) (rc_messages (x_ctx e)) of
             (None, q) \<Rightarrow>
               (park i \<lparr>aw_param = ac_param ac, aw_signal = wanted_signal ac, aw_via = ac_via ac,
                       aw_since = x_step_count e + 1, aw_trigger = []\<rparr> e, Inr False)
           | (Some m, q) \<Rightarrow>
               (let e1 = set_wait i None (e\<lparr>x_ctx := (x_ctx e)\<lparr>rc_messages := q\<rparr>\<rparr>) in
                if ac_param ac = [] then (e1, Inr True)
                else (case m_payload m ''value'' of
                        None \<Rightarrow> (e1, Inl (ErrNoValue (ac_param ac) (m_signal m)))
                      | Some v \<Rightarrow> (e1\<lparr>x_data := (x_data e1)(ac_param ac \<mapsto> v)\<rparr>, Inr True)))))"

definition step_nested_action ::
  "('e, 's, 'v, 'c) engine \<Rightarrow> ('e, 's) action_graph \<Rightarrow> nat \<Rightarrow> 'e option
    \<Rightarrow> ('v, 'c) executor \<Rightarrow> ('v, 'c) outcome" where
  "step_nested_action eng g i invo e =
     (let n = loc_of i e; name = action_node_name (g_node g n) in
      case (case g_accepts g n of
              Some ac \<Rightarrow> step_accept eng name ac i e | None \<Rightarrow> (e, Inr True)) of
        (e1, Inl err) \<Rightarrow> fail err e1
      | (e1, Inr False) \<Rightarrow> ok e1
      | (e1, Inr True) \<Rightarrow>
          and_then (case invo of Some ref \<Rightarrow> invoke_into eng ref e1 | None \<Rightarrow> ok e1) (\<lambda>e2.
            and_then (execute_body eng g n e2)
              (leave_node eng g True (ErrAmbiguousSuccession name) i n)))"

definition step_statement_node ::
  "('e, 's, 'v, 'c) engine \<Rightarrow> ('e, 's) action_graph \<Rightarrow> nat \<Rightarrow> string \<Rightarrow> ('v, 'c) executor \<Rightarrow> ('v, 'c) outcome" where
  "step_statement_node eng g i keyword e =
     (let n = loc_of i e in
      and_then (execute_body eng g n e)
        (leave_node eng g False (ErrOther (keyword @ '' node has multiple successors'')) i n))"

definition step_token ::
  "('e, 's, 'v, 'c) engine \<Rightarrow> ('e, 's) action_graph \<Rightarrow> nat \<Rightarrow> ('v, 'c) executor \<Rightarrow> ('v, 'c) outcome" where
  "step_token eng g i e =
     (if i \<ge> length (x_tokens e) then fail (ErrOther ''invalid token index'') e
      else (case g_node g (loc_of i e) of
          InitialNode _ \<Rightarrow> step_initial_node eng g i e
        | FinalNode _ \<Rightarrow> step_final_node i e
        | ForkNode _ \<Rightarrow> step_fork_node eng g i e
        | JoinNode _ \<Rightarrow> step_join_node eng g i e
        | MergeNode _ \<Rightarrow> step_merge_node eng g i e
        | DecisionNode _ \<Rightarrow> step_decision_node eng g i e
        | ActionExecutionNode _ ex ref \<Rightarrow> step_action_execution_node eng g i ex ref e
        | UsageNode is_action _ _ invo \<Rightarrow>
            (if is_action then step_nested_action eng g i invo e
             else fail (ErrOther ''unsupported usage kind in action'') e)
        | StatementNode keyword \<Rightarrow> step_statement_node eng g i keyword e
        | _ \<Rightarrow> fail (ErrOther ''unsupported node type'') e))"

section \<open>A step of every token, and the runs\<close>

text \<open>The reverse loop of \<open>Step\<close> over the indices held before it.\<close>

fun step_indices ::
  "('e, 's, 'v, 'c) engine \<Rightarrow> ('e, 's) action_graph \<Rightarrow> nat \<Rightarrow> ('v, 'c) executor \<Rightarrow> ('v, 'c) outcome" where
  "step_indices eng g 0 e = ok e"
| "step_indices eng g (Suc i) e =
     (if i \<ge> length (x_tokens e) then step_indices eng g i e
      else and_then (step_token eng g i e) (step_indices eng g i))"

definition progress_made :: "nid list \<Rightarrow> flow_token list \<Rightarrow> bool" where
  "progress_made before toks \<longleftrightarrow>
     length toks \<noteq> length before
     \<or> (toks \<noteq> [] \<and> list_ex (\<lambda>(t, l). ft_loc t \<noteq> l) (zip toks before))
     \<or> toks = []"

definition any_token_waiting :: "('v, 'c) executor \<Rightarrow> bool" where
  "any_token_waiting e \<longleftrightarrow> list_ex (\<lambda>t. ft_wait t \<noteq> None) (x_tokens e)"

definition waiting_tokens :: "('v, 'c) executor \<Rightarrow> flow_token list" where
  "waiting_tokens e = sort_key ft_id (filter (\<lambda>t. ft_wait t \<noteq> None) (x_tokens e))"

definition deadlock_error :: "('v, 'c) executor \<Rightarrow> action_error" where
  "deadlock_error e =
     ErrAcceptDeadlock (map (\<lambda>t. the (ft_wait t)) (waiting_tokens e))
       (length (x_tokens e) - length (waiting_tokens e))"

definition record_step :: "('v, 'c) executor \<Rightarrow> ('v, 'c) executor" where
  "record_step e =
     (case x_trace e of
        None \<Rightarrow> e
      | Some tr \<Rightarrow> e\<lparr>x_trace := Some (tr @
          [(x_step_count e, map (\<lambda>t. (ft_id t, ft_loc t)) (sort_key ft_id (x_tokens e)))])\<rparr>)"

definition resume :: "('v, 'c) executor \<Rightarrow> ('v, 'c) executor" where
  "resume e =
     (let e1 = (if x_state e = StateSuspended then e\<lparr>x_state := StateRunning, x_paused_at := []\<rparr> else e)
      in if x_state e1 = StateWaiting then e1\<lparr>x_state := StateRunning\<rparr> else e1)"

definition finish_step :: "nid list \<Rightarrow> ('v, 'c) executor \<Rightarrow> ('v, 'c) outcome" where
  "finish_step before e =
     (if \<not> progress_made before (x_tokens e) \<and> x_tokens e \<noteq> [] \<and> \<not> any_token_waiting e
      then fail (ErrActionDeadlock (length (x_tokens e))) e
      else
        (let e1 = (if \<not> progress_made before (x_tokens e) \<and> x_tokens e \<noteq> []
                   then e\<lparr>x_state := StateWaiting\<rparr> else e)
         in ok (record_step (e1\<lparr>x_step_count := x_step_count e1 + 1\<rparr>))))"

definition step_body ::
  "('e, 's, 'v, 'c) engine \<Rightarrow> ('e, 's) action_graph \<Rightarrow> ('v, 'c) executor \<Rightarrow> ('v, 'c) outcome" where
  "step_body eng g e =
     (if x_state e = StateCompleted then ok e
      else if x_state e = StateReady then fail (ErrOther ''executor not initialized'') e
      else
        (let e1 = resume e; before = map ft_loc (x_tokens e1) in
         and_then (step_indices eng g (length (x_tokens e1)) e1) (finish_step before)))"

definition step ::
  "('e, 's, 'v, 'c) engine \<Rightarrow> ('e, 's) action_graph \<Rightarrow> ('v, 'c) executor \<Rightarrow> ('v, 'c) outcome" where
  "step eng g = bracket_run eng (step_body eng g)"

section \<open>Breakpoints\<close>

definition token_location :: "('v, 'c) executor \<Rightarrow> int \<Rightarrow> nid option" where
  "token_location e k = map_option ft_loc (find (\<lambda>t. ft_id t = k) (x_tokens e))"

definition breakpoint_name_of :: "('e, 's) action_graph \<Rightarrow> ('v, 'c) executor \<Rightarrow> nid \<Rightarrow> string" where
  "breakpoint_name_of g e n =
     (case find (\<lambda>nm. nm \<in> set (x_breakpoints e)) (action_node_names (g_node g n)) of
        Some nm \<Rightarrow> nm | None \<Rightarrow> [])"

fun first_breakpoint ::
  "('e, 's) action_graph \<Rightarrow> ('v, 'c) executor \<Rightarrow> flow_token list \<Rightarrow> (string \<times> (int \<times> nid)) option" where
  "first_breakpoint g e [] = None"
| "first_breakpoint g e (t # ts) =
     (let name = breakpoint_name_of g e (ft_loc t) in
      if name = [] \<or> (ft_id t, ft_loc t) \<in> set (x_fired e) then first_breakpoint g e ts
      else Some (name, (ft_id t, ft_loc t)))"

definition breakpoint_hit :: "('e, 's) action_graph \<Rightarrow> ('v, 'c) executor \<Rightarrow> string \<times> ('v, 'c) executor" where
  "breakpoint_hit g e =
     (if x_breakpoints e = [] then ([], e)
      else
        (let e1 = e\<lparr>x_fired := filter (\<lambda>(k, n). token_location e k = Some n) (x_fired e)\<rparr> in
         case first_breakpoint g e1 (x_tokens e1) of
           None \<Rightarrow> ([], e1)
         | Some (name, visit) \<Rightarrow> (name, e1\<lparr>x_fired := visit # x_fired e1\<rparr>)))"

definition set_breakpoint :: "string \<Rightarrow> ('v, 'c) executor \<Rightarrow> ('v, 'c) executor" where
  "set_breakpoint name e = e\<lparr>x_breakpoints := name # x_breakpoints e\<rparr>"

definition clear_breakpoints :: "('v, 'c) executor \<Rightarrow> ('v, 'c) executor" where
  "clear_breakpoints e = e\<lparr>x_breakpoints := [], x_fired := []\<rparr>"

section \<open>Running\<close>

text \<open>The loop of \<open>RunToCompletion\<close>; \<open>steps\<close> counts up to the budget.\<close>

function run_loop ::
  "('e, 's, 'v, 'c) engine \<Rightarrow> ('e, 's) action_graph \<Rightarrow> int \<Rightarrow> int \<Rightarrow> ('v, 'c) executor \<Rightarrow> ('v, 'c) outcome" where
  "run_loop eng g max_steps steps e =
     (if x_state e \<noteq> StateRunning \<and> x_state e \<noteq> StateWaiting then ok e
      else
        (case breakpoint_hit g e of (name, e1) \<Rightarrow>
           if name \<noteq> [] then ok (e1\<lparr>x_paused_at := name, x_state := StateSuspended\<rparr>)
           else if steps \<ge> max_steps then fail (ErrActionStepLimitExceeded max_steps) e1
           else
             (case step eng g e1 of
                (e2, Some err) \<Rightarrow> (e2, Some err)
              | (e2, None) \<Rightarrow>
                  (if x_state e2 = StateWaiting then fail (deadlock_error e2) e2
                   else run_loop eng g max_steps (steps + 1) e2))))"
  by pat_completeness auto
termination
  by (relation "measure (\<lambda>(eng, g, m, s, e). nat (m - s))") auto

declare run_loop.simps [simp del]

definition run_to_completion ::
  "('e, 's, 'v, 'c) engine \<Rightarrow> ('e, 's) action_graph \<Rightarrow> ('v, 'c) executor \<Rightarrow> ('v, 'c) outcome" where
  "run_to_completion eng g =
     bracket_run eng (\<lambda>e.
       (let e1 = e\<lparr>x_paused_at := []\<rparr>;
            e2 = (if x_state e1 = StateSuspended then e1\<lparr>x_state := StateRunning\<rparr> else e1)
        in run_loop eng g (rc_max_action_steps (x_ctx e)) 0 e2))"

definition run_to_quiescence ::
  "('e, 's, 'v, 'c) engine \<Rightarrow> ('e, 's) action_graph \<Rightarrow> ('v, 'c) executor \<Rightarrow> ('v, 'c) outcome" where
  "run_to_quiescence eng g e =
     (case run_to_completion eng g e of
        (e1, Some err) \<Rightarrow> (e1, if is_accept_deadlock err then None else Some err)
      | (e1, None) \<Rightarrow> (e1, None))"

definition has_pending_signal :: "('e, 's) action_graph \<Rightarrow> ('v, 'c) executor \<Rightarrow> bool" where
  "has_pending_signal g e \<longleftrightarrow>
     list_ex (\<lambda>t. ft_wait t \<noteq> None \<and>
       (case g_node g (ft_loc t) of
          UsageNode _ _ _ _ \<Rightarrow>
            (case g_accepts g (ft_loc t) of
               None \<Rightarrow> False
             | Some ac \<Rightarrow> ac_trigger ac = None \<and>
                 list_ex (message_matches (action_node_name (g_node g (ft_loc t))) ac (x_self e))
                   (rc_messages (x_ctx e)))
        | _ \<Rightarrow> False)) (x_tokens e)"

end
