(* ===== verification/Action_Flow.thy ===== *)
theory Action_Flow
  imports Action_Executor
begin

text \<open>
  The token game an action graph promises, and the proof that the executor plays it: an
  abstract step relation over the tokens, the id counter, the merges passed and completion;
  a refinement lemma per handler; and the invariant of the game, which every call of the
  executor keeps whatever the evaluator, the statement engine and nested actions do.
\<close>

named_theorems ctl_simps "services leave the control state of the executor alone"

section \<open>The abstract game\<close>

record flow_state =
  fs_tokens :: "flow_token list"
  fs_next :: int
  fs_visited :: "nid list"
  fs_done :: bool

definition flow_of :: "('v, 'c) executor \<Rightarrow> flow_state" where
  "flow_of e = \<lparr>fs_tokens = x_tokens e, fs_next = x_next_id e, fs_visited = x_merge_visited e,
     fs_done = (x_state e = StateCompleted)\<rparr>"

definition fs_loc :: "flow_state \<Rightarrow> nat \<Rightarrow> nid" where
  "fs_loc s i = ft_loc (fs_tokens s ! i)"

definition fs_settle :: "flow_token list \<Rightarrow> flow_state \<Rightarrow> flow_state" where
  "fs_settle ts s = s\<lparr>fs_tokens := ts, fs_done := (fs_done s \<or> ts = [])\<rparr>"

inductive tok_step :: "('e, 's) action_graph \<Rightarrow> flow_state \<Rightarrow> flow_state \<Rightarrow> bool" for g where
  wait: "i < length (fs_tokens s) \<Longrightarrow>
    tok_step g s (s\<lparr>fs_tokens := (fs_tokens s)[i := (fs_tokens s ! i)\<lparr>ft_wait := w\<rparr>]\<rparr>)"
| move: "i < length (fs_tokens s) \<Longrightarrow> n \<in> set (edges_of g (fs_loc s i)) \<Longrightarrow>
    \<forall>nm. g_node g (fs_loc s i) \<noteq> ForkNode nm \<and> g_node g (fs_loc s i) \<noteq> JoinNode nm
      \<and> g_node g (fs_loc s i) \<noteq> MergeNode nm \<Longrightarrow>
    tok_step g s (s\<lparr>fs_tokens := (fs_tokens s)[i := (fs_tokens s ! i)\<lparr>ft_loc := n\<rparr>]\<rparr>)"
| retire: "i < length (fs_tokens s) \<Longrightarrow> \<forall>nm. g_node g (fs_loc s i) \<noteq> JoinNode nm \<Longrightarrow>
    tok_step g s (fs_settle (delete_at i (fs_tokens s)) s)"
| fork: "i < length (fs_tokens s) \<Longrightarrow> g_node g (fs_loc s i) = ForkNode nm \<Longrightarrow> ss \<noteq> [] \<Longrightarrow>
    set ss \<subseteq> set (edges_of g (fs_loc s i)) \<Longrightarrow>
    tok_step g s (s\<lparr>fs_tokens := delete_at i (fs_tokens s) @ spawn_tokens (fs_next s) ss,
      fs_next := fs_next s + int (length ss)\<rparr>)"
| join: "i < length (fs_tokens s) \<Longrightarrow> g_node g (fs_loc s i) = JoinNode nm \<Longrightarrow>
    length (incoming_edges g (fs_loc s i)) \<le> length (filter (\<lambda>t. ft_loc t = fs_loc s i) (fs_tokens s)) \<Longrightarrow>
    edges_of g (fs_loc s i) = [n] \<Longrightarrow>
    tok_step g s (s\<lparr>fs_tokens := filter (\<lambda>t. ft_loc t \<noteq> fs_loc s i) (fs_tokens s) @ spawn_tokens (fs_next s) [n],
      fs_next := fs_next s + 1\<rparr>)"
| join_pruned: "i < length (fs_tokens s) \<Longrightarrow> g_node g (fs_loc s i) = JoinNode nm \<Longrightarrow>
    length (incoming_edges g (fs_loc s i)) \<le> length (filter (\<lambda>t. ft_loc t = fs_loc s i) (fs_tokens s)) \<Longrightarrow>
    tok_step g s (fs_settle (filter (\<lambda>t. ft_loc t \<noteq> fs_loc s i) (fs_tokens s)) s)"
| merge_first: "i < length (fs_tokens s) \<Longrightarrow> g_node g (fs_loc s i) = MergeNode nm \<Longrightarrow>
    fs_loc s i \<notin> set (fs_visited s) \<Longrightarrow> n \<in> set (edges_of g (fs_loc s i)) \<Longrightarrow>
    tok_step g s (s\<lparr>fs_tokens := (fs_tokens s)[i := (fs_tokens s ! i)\<lparr>ft_loc := n\<rparr>],
      fs_visited := fs_loc s i # fs_visited s\<rparr>)"
| merge_discard: "i < length (fs_tokens s) \<Longrightarrow> g_node g (fs_loc s i) = MergeNode nm \<Longrightarrow>
    fs_loc s i \<in> set (fs_visited s) \<Longrightarrow>
    tok_step g s (s\<lparr>fs_tokens := delete_at i (fs_tokens s)\<rparr>)"

abbreviation tok_steps :: "('e, 's) action_graph \<Rightarrow> flow_state \<Rightarrow> flow_state \<Rightarrow> bool" where
  "tok_steps g \<equiv> (tok_step g)\<^sup>*\<^sup>*"

section \<open>The invariant of the game\<close>

definition flow_inv :: "flow_state \<Rightarrow> bool" where
  "flow_inv s \<longleftrightarrow> distinct (map ft_id (fs_tokens s))
     \<and> (\<forall>t \<in> set (fs_tokens s). ft_id t < fs_next s)
     \<and> (fs_done s \<longrightarrow> fs_tokens s = [])"

lemma delete_at_set: "set (delete_at i xs) \<subseteq> set xs"
  by (auto simp: delete_at_def dest: in_set_takeD in_set_dropD)

lemma map_delete_at: "map f (delete_at i xs) = delete_at i (map f xs)"
  by (simp add: delete_at_def take_map drop_map)

lemma distinct_delete_at: "distinct xs \<Longrightarrow> distinct (delete_at i xs)"
proof -
  assume "distinct xs"
  then have d: "distinct (take i xs @ drop i xs)" by simp
  have "drop (Suc i) xs = tl (drop i xs)" by (simp add: drop_Suc tl_drop)
  moreover have "set (tl (drop i xs)) \<subseteq> set (drop i xs)" by (cases "drop i xs") auto
  ultimately show ?thesis
    using d unfolding delete_at_def distinct_append by (auto simp: distinct_tl)
qed

lemma spawn_ids: "map ft_id (spawn_tokens k ss) = [k..k + int (length ss) - 1]"
  by (induction ss arbitrary: k) (simp_all add: upto_rec1 algebra_simps)

lemma spawn_locs: "map ft_loc (spawn_tokens k ss) = ss"
  by (induction ss arbitrary: k) simp_all

lemma spawn_id_bounds: "t \<in> set (spawn_tokens k ss) \<Longrightarrow> k \<le> ft_id t \<and> ft_id t < k + int (length ss)"
proof -
  assume "t \<in> set (spawn_tokens k ss)"
  then have "ft_id t \<in> set (map ft_id (spawn_tokens k ss))" by simp
  then show ?thesis by (auto simp: spawn_ids simp del: set_map)
qed

text \<open>Any sublist of the old tokens with freshly numbered ones keeps the invariant.\<close>

lemma flow_inv_spawn:
  assumes "flow_inv s" "distinct (map ft_id ts)" "set ts \<subseteq> set (fs_tokens s)" "ts @ sp \<noteq> [] \<longrightarrow> fs_tokens s \<noteq> []"
    "sp = spawn_tokens (fs_next s) ss"
  shows "flow_inv (s\<lparr>fs_tokens := ts @ sp, fs_next := fs_next s + int (length ss)\<rparr>)"
proof -
  have "set (map ft_id ts) \<inter> set (map ft_id sp) = {}"
    using assms(1,3,5) by (fastforce simp: flow_inv_def dest!: spawn_id_bounds)
  moreover have "distinct (map ft_id sp)" by (simp add: assms(5) spawn_ids)
  moreover have "\<forall>t \<in> set (ts @ sp). ft_id t < fs_next s + int (length ss)"
    using assms(1,3,5) by (force simp: flow_inv_def dest!: spawn_id_bounds)
  ultimately show ?thesis using assms by (auto simp: flow_inv_def)
qed

lemma flow_inv_sublist:
  assumes "flow_inv s" "distinct (map ft_id ts)" "set ts \<subseteq> set (fs_tokens s)"
  shows "flow_inv (fs_settle ts s)" "flow_inv (s\<lparr>fs_tokens := ts\<rparr>)"
  using assms by (auto simp: flow_inv_def fs_settle_def)

lemma flow_inv_update:
  assumes "flow_inv s" "i < length (fs_tokens s)" "\<And>t. ft_id (f t) = ft_id t"
  shows "flow_inv (s\<lparr>fs_tokens := (fs_tokens s)[i := f (fs_tokens s ! i)]\<rparr>)"
proof -
  have "map ft_id ((fs_tokens s)[i := f (fs_tokens s ! i)]) = map ft_id (fs_tokens s)"
    using assms(2,3) by (simp add: map_update list_update_id)
      (metis list_update_id length_map nth_map)
  moreover have "\<forall>t \<in> set ((fs_tokens s)[i := f (fs_tokens s ! i)]). ft_id t < fs_next s"
    using assms by (auto simp: flow_inv_def set_conv_nth nth_list_update)
  ultimately show ?thesis using assms(1,2) by (auto simp: flow_inv_def)
qed

lemma flow_inv_visited: "flow_inv (s\<lparr>fs_visited := v\<rparr>) = flow_inv s"
  by (simp add: flow_inv_def)

lemma tok_step_inv: "tok_step g s s' \<Longrightarrow> flow_inv s \<Longrightarrow> flow_inv s'"
proof (induction rule: tok_step.induct)
  case (wait i s w)
  then show ?case by (intro flow_inv_update [where f = "\<lambda>t. t\<lparr>ft_wait := w\<rparr>"]) auto
next
  case (move i s n)
  then show ?case by (intro flow_inv_update [where f = "\<lambda>t. t\<lparr>ft_loc := n\<rparr>"]) auto
next
  case (retire i s)
  then show ?case
    by (intro flow_inv_sublist) (auto simp: flow_inv_def map_delete_at distinct_delete_at dest: delete_at_set [THEN subsetD])
next
  case (fork i s nm ss)
  then show ?case
    by (intro flow_inv_spawn) (auto simp: flow_inv_def map_delete_at distinct_delete_at dest: delete_at_set [THEN subsetD])
next
  case (join i s nm n)
  then have "flow_inv (s\<lparr>fs_tokens := filter (\<lambda>t. ft_loc t \<noteq> fs_loc s i) (fs_tokens s) @ spawn_tokens (fs_next s) [n],
      fs_next := fs_next s + int (length [n])\<rparr>)"
    by (intro flow_inv_spawn) (auto simp: flow_inv_def distinct_map_filter)
  then show ?case by simp
next
  case (join_pruned i s nm)
  then show ?case by (intro flow_inv_sublist) (auto simp: flow_inv_def distinct_map_filter)
next
  case (merge_first i s nm n)
  then have "flow_inv (s\<lparr>fs_tokens := (fs_tokens s)[i := (fs_tokens s ! i)\<lparr>ft_loc := n\<rparr>]\<rparr>)"
    by (intro flow_inv_update [where f = "\<lambda>t. t\<lparr>ft_loc := n\<rparr>"]) auto
  then show ?case by (simp add: flow_inv_def)
next
  case (merge_discard i s nm)
  then show ?case
    by (intro flow_inv_sublist) (auto simp: flow_inv_def map_delete_at distinct_delete_at dest: delete_at_set [THEN subsetD])
qed

lemma tok_steps_inv: "tok_steps g s s' \<Longrightarrow> flow_inv s \<Longrightarrow> flow_inv s'"
  by (induction rule: rtranclp_induct) (auto intro: tok_step_inv)

section \<open>Services leave the control state alone\<close>

definition ctl :: "('v, 'c) executor \<Rightarrow>
    flow_token list \<times> execution_state \<times> int \<times> nid list \<times> int \<times> string list \<times> (int \<times> nid) list \<times> string" where
  "ctl e = (x_tokens e, x_state e, x_next_id e, x_merge_visited e, x_step_count e, x_breakpoints e,
     x_fired e, x_paused_at e)"

lemma ctl_update [ctl_simps]:
  "ctl (e\<lparr>x_ctx := c\<rparr>) = ctl e" "ctl (e\<lparr>x_data := d\<rparr>) = ctl e"
  "ctl (e\<lparr>x_ctx := c, x_data := d\<rparr>) = ctl e" "ctl (store_all kvs e) = ctl e"
  "ctl (e\<lparr>x_run_started := b\<rparr>) = ctl e" "ctl (e\<lparr>x_ctx := c, x_run_started := b\<rparr>) = ctl e"
  "ctl (e\<lparr>x_trace := t\<rparr>) = ctl e"
  by (simp_all add: ctl_def store_all_def)

lemma ctl_execute_body [ctl_simps]: "ctl (fst (execute_body eng g n e)) = ctl e"
  by (simp add: execute_body_def ctl_simps split: prod.splits)

lemma ctl_run_node_body [ctl_simps]: "ctl (fst (run_node_body eng g n e)) = ctl e"
  by (simp add: run_node_body_def ok_def ctl_simps)

lemma ctl_guard_holds [ctl_simps]: "ctl (fst (guard_holds eng g n gd e)) = ctl e"
  by (simp add: guard_holds_def ctl_simps split: option.splits prod.splits)

lemma ctl_filter_enabled [ctl_simps]: "ctl (fst (filter_enabled eng g n ss e)) = ctl e"
proof (induction eng g n ss e rule: filter_enabled.induct)
  case (2 eng g n s ss e)
  then show ?case
    using ctl_guard_holds [of eng g n "guard_of g n s" e]
    by (auto split: prod.splits sum.splits)
qed simp

lemma ctl_enabled [ctl_simps]: "ctl (fst (enabled_successions eng g n e)) = ctl e"
  by (simp add: enabled_successions_def ctl_simps)

lemma ctl_decide [ctl_simps]: "ctl (fst (decide eng g n ss u e)) = ctl e"
proof (induction eng g n ss u e rule: decide.induct)
  case (2 eng g n s ss u e)
  show ?case
  proof (cases "guard_of g n s")
    case None
    with 2 show ?thesis by simp
  next
    case (Some ex)
    then show ?thesis
      using 2(2) [OF Some] ctl_guard_holds [of eng g n "Some ex" e]
      by (auto split: prod.splits sum.splits bool.splits)
  qed
qed simp

lemma ctl_invoke_into [ctl_simps]: "ctl (fst (invoke_into eng ref e)) = ctl e"
  by (simp add: invoke_into_def fail_def ok_def ctl_simps Let_def split: prod.splits sum.splits)

lemma ctl_apply_flows [ctl_simps]: "ctl (fst (apply_flows fls e)) = ctl e"
  by (induction fls e rule: apply_flows.induct)
    (auto simp: fail_def ok_def ctl_simps split: option.splits)

lemma enabled_subset:
  "enabled_successions eng g n e = (e', Inr ss) \<Longrightarrow> set ss \<subseteq> set (edges_of g n)"
proof -
  have "filter_enabled eng g n es e = (e', Inr ss) \<Longrightarrow> set ss \<subseteq> set es" for es e e' ss
    by (induction eng g n es e arbitrary: e' ss rule: filter_enabled.induct)
      (fastforce split: prod.splits sum.splits if_splits)+
  then show "enabled_successions eng g n e = (e', Inr ss) \<Longrightarrow> set ss \<subseteq> set (edges_of g n)"
    by (auto simp: enabled_successions_def split: if_splits)
qed

section \<open>Every handler plays the game\<close>

definition refines :: "('e, 's) action_graph \<Rightarrow> ('v, 'c) executor \<Rightarrow> ('v, 'c) outcome \<Rightarrow> bool" where
  "refines g e r \<longleftrightarrow> tok_steps g (flow_of e) (flow_of (fst r))"

lemma flow_of_ctl: "ctl e1 = ctl e \<Longrightarrow> flow_of e1 = flow_of e"
  by (simp add: ctl_def flow_of_def)

lemma refines_same: "ctl (fst r) = ctl e \<Longrightarrow> refines g e r"
  using flow_of_ctl [of "fst r" e] by (simp add: refines_def)

lemma refines_ok: "ctl e1 = ctl e \<Longrightarrow> refines g e (ok e1)"
  and refines_fail: "ctl e1 = ctl e \<Longrightarrow> refines g e (fail err e1)"
  by (simp_all add: refines_same ok_def fail_def)

lemma refines_trans: "refines g e r1 \<Longrightarrow> refines g (fst r1) r2 \<Longrightarrow> refines g e r2"
  by (simp add: refines_def)

lemma refines_ctl: "ctl e1 = ctl e \<Longrightarrow> refines g e1 r \<Longrightarrow> refines g e r"
  using flow_of_ctl [of e1 e] by (simp add: refines_def)

lemma refines_and_then:
  assumes "ctl (fst r) = ctl e" "\<And>e1. ctl e1 = ctl e \<Longrightarrow> refines g e (f e1)"
  shows "refines g e (and_then r f)"
proof (cases r)
  case (Pair e1 err)
  with assms(1) have c: "ctl e1 = ctl e" by simp
  show ?thesis
  proof (cases err)
    case None
    with Pair assms(2) [OF c] show ?thesis by (simp add: and_then_def)
  next
    case (Some x)
    with Pair c refines_same [of "(e1, err)" e g] show ?thesis by (simp add: and_then_def)
  qed
qed

lemma refines_seq:
  assumes "refines g e r" "\<And>e1. refines g e1 (f e1)"
  shows "refines g e (and_then r f)"
proof (cases r)
  case (Pair e1 err)
  show ?thesis
  proof (cases err)
    case None
    with Pair assms(1) assms(2) [of e1] show ?thesis
      by (simp add: and_then_def refines_def)
  next
    case (Some x)
    with Pair assms(1) show ?thesis by (simp add: and_then_def refines_def)
  qed
qed

lemma refines_with_successions:
  assumes "\<And>ss e1. ctl e1 = ctl e \<Longrightarrow> set ss \<subseteq> set (edges_of g n) \<Longrightarrow> refines g e (k ss e1)"
  shows "refines g e (with_successions eng g n k e)"
proof (cases "enabled_successions eng g n e")
  case (Pair e1 res)
  then have c: "ctl e1 = ctl e" using ctl_enabled [of eng g n e] by simp
  show ?thesis
  proof (cases res)
    case (Inl err)
    with Pair c show ?thesis by (simp add: with_successions_def refines_fail)
  next
    case (Inr ss)
    with Pair enabled_subset [of eng g n e e1 ss] have "set ss \<subseteq> set (edges_of g n)" by simp
    from assms [OF c this] Pair Inr show ?thesis by (simp add: with_successions_def)
  qed
qed

lemma refines_with_successions':
  assumes "ctl e0 = ctl e"
    "\<And>ss e1. ctl e1 = ctl e \<Longrightarrow> set ss \<subseteq> set (edges_of g n) \<Longrightarrow> refines g e (k ss e1)"
  shows "refines g e (with_successions eng g n k e0)"
  using assms(1) refines_with_successions [of e0 g n k eng] assms(2)
  by (metis flow_of_ctl refines_def)

lemma ctl_tokens: "ctl e1 = ctl e \<Longrightarrow> x_tokens e1 = x_tokens e \<and> x_merge_visited e1 = x_merge_visited e
    \<and> x_next_id e1 = x_next_id e \<and> x_state e1 = x_state e"
  by (simp add: ctl_def)

lemma refines_step: "tok_step g (flow_of e) (flow_of (fst r)) \<Longrightarrow> refines g e r"
  unfolding refines_def by blast

definition plain_node :: "'e anode \<Rightarrow> bool" where
  "plain_node nd \<longleftrightarrow> (\<forall>nm. nd \<noteq> ForkNode nm \<and> nd \<noteq> JoinNode nm \<and> nd \<noteq> MergeNode nm)"

lemma refines_move:
  assumes "ctl e1 = ctl e" "i < length (x_tokens e)" "n \<in> set (edges_of g (loc_of i e))"
    "plain_node (g_node g (loc_of i e))"
  shows "refines g e (ok (move_token i n e1))"
proof (rule refines_step)
  have "flow_of (move_token i n e1) = (flow_of e)\<lparr>fs_tokens := (fs_tokens (flow_of e))
      [i := (fs_tokens (flow_of e) ! i)\<lparr>ft_loc := n\<rparr>]\<rparr>"
    using ctl_tokens [OF assms(1)] by (simp add: flow_of_def move_token_def)
  moreover have "tok_step g (flow_of e) \<dots>"
    using assms(2-4) by (intro tok_step.move) (auto simp: flow_of_def fs_loc_def loc_of_def plain_node_def)
  ultimately show "tok_step g (flow_of e) (flow_of (fst (ok (move_token i n e1))))" by (simp add: ok_def)
qed

lemma flow_of_complete:
  "flow_of (complete_if_empty e) = fs_settle (x_tokens e) ((flow_of e)\<lparr>fs_tokens := ts\<rparr>)"
  by (simp add: flow_of_def complete_if_empty_def fs_settle_def)

lemma refines_retire:
  assumes "ctl e1 = ctl e" "i < length (x_tokens e)" "\<forall>nm. g_node g (loc_of i e) \<noteq> JoinNode nm"
  shows "refines g e (ok (retire_token i e1))"
proof (rule refines_step)
  have "flow_of (retire_token i e1) = fs_settle (delete_at i (fs_tokens (flow_of e))) (flow_of e)"
    using ctl_tokens [OF assms(1)]
    by (simp add: retire_token_def flow_of_def complete_if_empty_def fs_settle_def)
  moreover have "tok_step g (flow_of e) \<dots>"
    using assms(2,3) by (intro tok_step.retire) (auto simp: flow_of_def fs_loc_def loc_of_def)
  ultimately show "tok_step g (flow_of e) (flow_of (fst (ok (retire_token i e1))))" by (simp add: ok_def)
qed

lemma refines_wait:
  assumes "ctl e1 = ctl e" "i < length (x_tokens e)"
  shows "tok_steps g (flow_of e) (flow_of (set_wait i w e1))"
    "tok_steps g (flow_of e) (flow_of (park i aw e1))"
proof -
  have w: "tok_steps g (flow_of e) (flow_of (set_wait i w' e1))" for w'
  proof -
    have "flow_of (set_wait i w' e1) = (flow_of e)\<lparr>fs_tokens := (fs_tokens (flow_of e))
      [i := (fs_tokens (flow_of e) ! i)\<lparr>ft_wait := w'\<rparr>]\<rparr>"
      using ctl_tokens [OF assms(1)] by (simp add: flow_of_def set_wait_def)
    moreover have "tok_step g (flow_of e) \<dots>"
      using assms(2) by (intro tok_step.wait) (simp add: flow_of_def)
    ultimately show ?thesis by auto
  qed
  then show "tok_steps g (flow_of e) (flow_of (set_wait i w e1))" .
  from w show "tok_steps g (flow_of e) (flow_of (park i aw e1))"
    using flow_of_ctl [OF assms(1)] by (simp add: park_def)
qed

lemmas refines_intros = refines_ok refines_fail refines_move refines_retire
  refines_with_successions' refines_and_then

text \<open>Leaving a node: from any executor with the same control state.\<close>

lemma refines_leave:
  fixes e :: "('v, 'c) executor" and eng :: "('e, 's, 'v, 'c) engine"
  assumes "ctl e1 = ctl e" "i < length (x_tokens e)" "n = loc_of i e" "plain_node (g_node g n)"
  shows "refines g e (leave_node eng g fl amb i n e1)"
proof -
  have j: "\<forall>nm. g_node g (loc_of i e) \<noteq> JoinNode nm" using assms(3,4) by (simp add: plain_node_def)
  show ?thesis
    unfolding leave_node_def
  proof (rule refines_with_successions' [OF assms(1)])
    fix ss and e2 :: "('v, 'c) executor"
    assume e2: "ctl e2 = ctl e" and ss: "set ss \<subseteq> set (edges_of g n)"
    show "refines g e (if 1 < length ss then fail amb e2
      else and_then (if fl then apply_data_flows g n e2 else ok e2)
        (\<lambda>e. case ss of [] \<Rightarrow> ok (retire_token i e) | s # x \<Rightarrow> ok (move_token i s e)))"
    proof (cases "1 < length ss")
      case True
      with e2 show ?thesis by (simp add: refines_fail)
    next
      case False
      have "refines g e (and_then (if fl then apply_data_flows g n e2 else ok e2)
        (\<lambda>e. case ss of [] \<Rightarrow> ok (retire_token i e) | s # x \<Rightarrow> ok (move_token i s e)))"
      proof (rule refines_and_then)
        show "ctl (fst (if fl then apply_data_flows g n e2 else ok e2)) = ctl e"
          using e2 by (simp add: apply_data_flows_def ctl_simps ok_def)
        fix e3 :: "('v, 'c) executor"
        assume "ctl e3 = ctl e"
        then show "refines g e (case ss of [] \<Rightarrow> ok (retire_token i e3) | s # x \<Rightarrow> ok (move_token i s e3))"
          using ss assms(2-4) j by (auto split: list.splits intro!: refines_retire refines_move)
      qed
      with False show ?thesis by simp
    qed
  qed
qed

lemma refines_initial:
  fixes e :: "('v, 'c) executor"
  assumes "i < length (x_tokens e)" "plain_node (g_node g (loc_of i e))"
  shows "refines g e (step_initial_node eng g i e)"
proof -
  have j: "\<forall>nm. g_node g (loc_of i e) \<noteq> JoinNode nm" using assms(2) by (simp add: plain_node_def)
  have "refines g e (and_then (run_node_body eng g (loc_of i e) e) (with_successions eng g (loc_of i e) (\<lambda>ss e.
        (case ss of [] \<Rightarrow> ok (retire_token i e) | s # _ \<Rightarrow> ok (move_token i s e)))))"
    using assms j
    by (intro refines_and_then refines_with_successions')
      (auto simp: ctl_simps split: list.splits intro!: refines_retire refines_move)
  then show ?thesis by (simp add: step_initial_node_def Let_def refines_fail)
qed

lemma refines_fork:
  fixes e :: "('v, 'c) executor"
  assumes "i < length (x_tokens e)" "g_node g (loc_of i e) = ForkNode nm"
  shows "refines g e (step_fork_node eng g i e)"
proof -
  have spawn: "refines g e (ok (e1\<lparr>x_tokens := delete_at i (x_tokens e1) @ spawn_tokens (x_next_id e1) ss,
      x_next_id := x_next_id e1 + int (length ss)\<rparr>))"
    if "ctl e1 = ctl e" "ss \<noteq> []" "set ss \<subseteq> set (edges_of g (loc_of i e))" for e1 :: "('v, 'c) executor" and ss
  proof (rule refines_step)
    have "flow_of (e1\<lparr>x_tokens := delete_at i (x_tokens e1) @ spawn_tokens (x_next_id e1) ss,
        x_next_id := x_next_id e1 + int (length ss)\<rparr>) =
      (flow_of e)\<lparr>fs_tokens := delete_at i (fs_tokens (flow_of e)) @ spawn_tokens (fs_next (flow_of e)) ss,
        fs_next := fs_next (flow_of e) + int (length ss)\<rparr>"
      using ctl_tokens [OF that(1)] by (simp add: flow_of_def)
    moreover have "tok_step g (flow_of e) \<dots>"
      using assms that(2,3) by (intro tok_step.fork) (auto simp: flow_of_def fs_loc_def loc_of_def)
    ultimately show "tok_step g (flow_of e) (flow_of (fst (ok (e1\<lparr>x_tokens := delete_at i (x_tokens e1) @
        spawn_tokens (x_next_id e1) ss, x_next_id := x_next_id e1 + int (length ss)\<rparr>))))"
      by (simp add: ok_def)
  qed
  have "refines g e (and_then (run_node_body eng g (loc_of i e) e) (with_successions eng g (loc_of i e) (\<lambda>ss e.
        (if ss = [] then ok (retire_token i e)
         else ok (e\<lparr>x_tokens := delete_at i (x_tokens e) @ spawn_tokens (x_next_id e) ss,
                    x_next_id := x_next_id e + int (length ss)\<rparr>)))))"
    using assms spawn
    by (intro refines_and_then refines_with_successions') (auto simp: ctl_simps intro!: refines_retire)
  then show ?thesis by (simp add: step_fork_node_def Let_def refines_fail)
qed

lemma refines_join:
  fixes e :: "('v, 'c) executor"
  assumes "i < length (x_tokens e)" "g_node g (loc_of i e) = JoinNode nm"
  shows "refines g e (step_join_node eng g i e)"
proof (cases "tokens_at (loc_of i e) e < length (incoming_edges g (loc_of i e))")
  case True
  then show ?thesis by (simp add: step_join_node_def Let_def refines_ok)
next
  case False
  let ?n = "loc_of i e"
  have arrived: "length (incoming_edges g (fs_loc (flow_of e) i))
      \<le> length (filter (\<lambda>t. ft_loc t = fs_loc (flow_of e) i) (fs_tokens (flow_of e)))"
    using False by (simp add: tokens_at_def fs_loc_def flow_of_def loc_of_def)
  have pruned: "refines g e (ok (complete_if_empty (e1\<lparr>x_tokens := filter (\<lambda>t. ft_loc t \<noteq> ?n) (x_tokens e1)\<rparr>)))"
    if "ctl e1 = ctl e" for e1 :: "('v, 'c) executor"
  proof (rule refines_step)
    have "flow_of (complete_if_empty (e1\<lparr>x_tokens := filter (\<lambda>t. ft_loc t \<noteq> ?n) (x_tokens e1)\<rparr>)) =
      fs_settle (filter (\<lambda>t. ft_loc t \<noteq> fs_loc (flow_of e) i) (fs_tokens (flow_of e))) (flow_of e)"
      using ctl_tokens [OF that]
      by (simp add: flow_of_def complete_if_empty_def fs_settle_def fs_loc_def loc_of_def)
    moreover have "tok_step g (flow_of e) \<dots>"
      using assms arrived by (intro tok_step.join_pruned) (auto simp: flow_of_def fs_loc_def loc_of_def)
    ultimately show "tok_step g (flow_of e) (flow_of (fst (ok (complete_if_empty
        (e1\<lparr>x_tokens := filter (\<lambda>t. ft_loc t \<noteq> ?n) (x_tokens e1)\<rparr>)))))"
      by (simp add: ok_def)
  qed
  have fire: "refines g e (ok (e1\<lparr>x_tokens := filter (\<lambda>t. ft_loc t \<noteq> ?n) (x_tokens e1) @
      spawn_tokens (x_next_id e1) [s], x_next_id := x_next_id e1 + 1\<rparr>))"
    if "ctl e1 = ctl e" "edges_of g ?n = [s]" for e1 :: "('v, 'c) executor" and s
  proof (rule refines_step)
    have "flow_of (e1\<lparr>x_tokens := filter (\<lambda>t. ft_loc t \<noteq> ?n) (x_tokens e1) @
        spawn_tokens (x_next_id e1) [s], x_next_id := x_next_id e1 + 1\<rparr>) =
      (flow_of e)\<lparr>fs_tokens := filter (\<lambda>t. ft_loc t \<noteq> fs_loc (flow_of e) i) (fs_tokens (flow_of e)) @
        spawn_tokens (fs_next (flow_of e)) [s], fs_next := fs_next (flow_of e) + 1\<rparr>"
      using ctl_tokens [OF that(1)] by (simp add: flow_of_def fs_loc_def loc_of_def)
    moreover have "tok_step g (flow_of e) \<dots>"
      using assms arrived that(2) by (intro tok_step.join) (auto simp: flow_of_def fs_loc_def loc_of_def)
    ultimately show "tok_step g (flow_of e) (flow_of (fst (ok (e1\<lparr>x_tokens := filter (\<lambda>t. ft_loc t \<noteq> ?n)
        (x_tokens e1) @ spawn_tokens (x_next_id e1) [s], x_next_id := x_next_id e1 + 1\<rparr>))))"
      by (simp add: ok_def)
  qed
  have tail: "refines g e (with_successions eng g ?n (\<lambda>ss e2.
           (case ss of
              [] \<Rightarrow> ok (complete_if_empty (e2\<lparr>x_tokens := filter (\<lambda>t. ft_loc t \<noteq> ?n) (x_tokens e1)\<rparr>))
            | s # _ \<Rightarrow> ok (e2\<lparr>x_tokens := filter (\<lambda>t. ft_loc t \<noteq> ?n) (x_tokens e1) @
                 spawn_tokens (x_next_id e2) [s], x_next_id := x_next_id e2 + 1\<rparr>))) e1)"
    if e1: "ctl e1 = ctl e" and es: "edges_of g ?n \<noteq> []" "\<not> length (edges_of g ?n) > 1"
    for e1 :: "('v, 'c) executor"
  proof (rule refines_with_successions' [OF e1])
    fix ss and e2 :: "('v, 'c) executor"
    assume e2: "ctl e2 = ctl e" and ss: "set ss \<subseteq> set (edges_of g ?n)"
    from es obtain s where s: "edges_of g ?n = [s]" by (cases "edges_of g ?n") auto
    have t: "x_tokens e1 = x_tokens e2" using ctl_tokens [OF e1] ctl_tokens [OF e2] by simp
    show "refines g e (case ss of
              [] \<Rightarrow> ok (complete_if_empty (e2\<lparr>x_tokens := filter (\<lambda>t. ft_loc t \<noteq> ?n) (x_tokens e1)\<rparr>))
            | s # _ \<Rightarrow> ok (e2\<lparr>x_tokens := filter (\<lambda>t. ft_loc t \<noteq> ?n) (x_tokens e1) @
                 spawn_tokens (x_next_id e2) [s], x_next_id := x_next_id e2 + 1\<rparr>))"
      using pruned [OF e2] fire [OF e2 s] ss s t by (cases ss) auto
  qed
  have "refines g e (and_then (run_node_body eng g ?n e) (\<lambda>e.
        (let remaining = filter (\<lambda>t. ft_loc t \<noteq> ?n) (x_tokens e) in
         if edges_of g ?n = [] then fail (ErrInvalidActionFlow ''join node has no successors'') e
         else if length (edges_of g ?n) > 1
         then fail (ErrInvalidActionFlow ''join node has multiple successors'') e
         else with_successions eng g ?n (\<lambda>ss e.
           (case ss of
              [] \<Rightarrow> ok (complete_if_empty (e\<lparr>x_tokens := remaining\<rparr>))
            | s # _ \<Rightarrow> ok (e\<lparr>x_tokens := remaining @ spawn_tokens (x_next_id e) [s],
                             x_next_id := x_next_id e + 1\<rparr>))) e)))"
    by (rule refines_and_then) (auto simp: ctl_simps Let_def simp del: spawn_tokens.simps intro!: refines_fail tail)
  with False show ?thesis by (simp add: step_join_node_def Let_def del: spawn_tokens.simps)
qed

lemma refines_merge:
  fixes e :: "('v, 'c) executor"
  assumes "i < length (x_tokens e)" "g_node g (loc_of i e) = MergeNode nm"
  shows "refines g e (step_merge_node eng g i e)"
proof (cases "loc_of i e \<in> set (x_merge_visited e)")
  case True
  have "tok_step g (flow_of e) ((flow_of e)\<lparr>fs_tokens := delete_at i (fs_tokens (flow_of e))\<rparr>)"
    using assms True by (intro tok_step.merge_discard) (auto simp: flow_of_def fs_loc_def loc_of_def)
  then have "tok_step g (flow_of e) (flow_of (e\<lparr>x_tokens := delete_at i (x_tokens e)\<rparr>))"
    by (simp add: flow_of_def)
  with True show ?thesis by (auto simp: step_merge_node_def Let_def ok_def intro: refines_step)
next
  case False
  have first: "refines g e (ok (move_token i s (e1\<lparr>x_merge_visited := loc_of i e # x_merge_visited e1\<rparr>)))"
    if "ctl e1 = ctl e" "s \<in> set (edges_of g (loc_of i e))" for e1 :: "('v, 'c) executor" and s
  proof (rule refines_step)
    have "flow_of (move_token i s (e1\<lparr>x_merge_visited := loc_of i e # x_merge_visited e1\<rparr>)) =
      (flow_of e)\<lparr>fs_tokens := (fs_tokens (flow_of e))[i := (fs_tokens (flow_of e) ! i)\<lparr>ft_loc := s\<rparr>],
        fs_visited := fs_loc (flow_of e) i # fs_visited (flow_of e)\<rparr>"
      using ctl_tokens [OF that(1)] by (simp add: flow_of_def move_token_def fs_loc_def loc_of_def)
    moreover have "tok_step g (flow_of e) \<dots>"
      using assms False that(2) by (intro tok_step.merge_first) (auto simp: flow_of_def fs_loc_def loc_of_def)
    ultimately show "tok_step g (flow_of e) (flow_of (fst (ok (move_token i s
        (e1\<lparr>x_merge_visited := loc_of i e # x_merge_visited e1\<rparr>)))))"
      by (simp add: ok_def)
  qed
  have "refines g e (with_successions eng g (loc_of i e) (\<lambda>ss e'.
        (case ss of
           [] \<Rightarrow> ok (retire_token i e')
         | s # _ \<Rightarrow> and_then (run_node_body eng g (loc_of i e) e') (\<lambda>e'.
             ok (move_token i s (e'\<lparr>x_merge_visited := loc_of i e # x_merge_visited e'\<rparr>))))) e)"
  proof (rule refines_with_successions)
    fix ss and e1 :: "('v, 'c) executor"
    assume e1: "ctl e1 = ctl e" and ss: "set ss \<subseteq> set (edges_of g (loc_of i e))"
    show "refines g e (case ss of
           [] \<Rightarrow> ok (retire_token i e1)
         | s # _ \<Rightarrow> and_then (run_node_body eng g (loc_of i e) e1) (\<lambda>e'.
             ok (move_token i s (e'\<lparr>x_merge_visited := loc_of i e # x_merge_visited e'\<rparr>))))"
      using e1 ss assms
      by (auto split: list.splits simp: ctl_simps intro!: refines_retire refines_and_then first)
  qed
  with False show ?thesis by (simp add: step_merge_node_def Let_def refines_fail)
qed

lemma refines_decision:
  fixes e :: "('v, 'c) executor"
  assumes "i < length (x_tokens e)" "plain_node (g_node g (loc_of i e))"
  shows "refines g e (step_decision_node eng g i e)"
proof -
  let ?n = "loc_of i e"
  have dec: "decide eng g n ss u e1 = (e2, Inr (Some s)) \<Longrightarrow> s \<in> set ss \<or> u = Some s"
    for n ss u e1 e2 s
    by (induction eng g n ss u e1 rule: decide.induct)
      (auto split: option.splits prod.splits sum.splits bool.splits)
  have "refines g e (and_then (run_node_body eng g ?n e) (\<lambda>e.
        (case decide eng g ?n (edges_of g ?n) None e of
           (e1, Inl err) \<Rightarrow> fail err e1
         | (e1, Inr (Some s)) \<Rightarrow> ok (move_token i s e1)
         | (e1, Inr None) \<Rightarrow> fail (ErrNoEnabledSuccession (action_node_name (g_node g ?n))) e1)))"
  proof (rule refines_and_then)
    fix e1 :: "('v, 'c) executor"
    assume "ctl e1 = ctl e"
    moreover obtain e2 r where d: "decide eng g ?n (edges_of g ?n) None e1 = (e2, r)" by force
    ultimately have "ctl e2 = ctl e" using ctl_decide [of eng g ?n "edges_of g ?n" None e1] by simp
    with d dec [of ?n "edges_of g ?n" None e1 e2] assms
    show "refines g e (case decide eng g ?n (edges_of g ?n) None e1 of
           (e1, Inl err) \<Rightarrow> fail err e1
         | (e1, Inr (Some s)) \<Rightarrow> ok (move_token i s e1)
         | (e1, Inr None) \<Rightarrow> fail (ErrNoEnabledSuccession (action_node_name (g_node g ?n))) e1)"
      by (auto split: sum.splits option.splits intro!: refines_fail refines_move)
  qed (simp add: ctl_simps)
  then show ?thesis by (simp add: step_decision_node_def Let_def refines_fail)
qed

lemma refines_final:
  "i < length (x_tokens e) \<Longrightarrow> \<forall>nm. g_node g (loc_of i e) \<noteq> JoinNode nm \<Longrightarrow> refines g e (step_final_node i e)"
  by (simp add: step_final_node_def refines_retire)

lemma refines_action_execution:
  fixes e :: "('v, 'c) executor"
  assumes "i < length (x_tokens e)" "plain_node (g_node g (loc_of i e))"
  shows "refines g e (step_action_execution_node eng g i ex ref e)"
  unfolding step_action_execution_node_def Let_def
proof (rule refines_and_then)
  fix e1 :: "('v, 'c) executor"
  assume "ctl e1 = ctl e"
  then show "refines g e (leave_node eng g True (ErrAmbiguousSuccession (action_node_name (g_node g (loc_of i e)))) i
      (loc_of i e) e1)"
    using assms by (intro refines_leave) auto
qed (auto simp: ctl_simps fail_def ok_def split: option.splits prod.splits sum.splits)

lemma ctl_trigger_holds [ctl_simps]: "ctl (fst (trigger_holds eng tr d e)) = ctl e"
  by (auto simp: trigger_holds_def ctl_simps split: trigger.splits prod.splits)

text \<open>An accept only marks its token: as waiting, or as waiting no longer.\<close>

lemma refines_accept:
  fixes e :: "('v, 'c) executor"
  assumes i: "i < length (x_tokens e)" and r: "step_accept eng name ac i e = (e1, r)"
  shows "tok_steps g (flow_of e) (flow_of e1)" "map ft_loc (x_tokens e1) = map ft_loc (x_tokens e)"
proof -
  have keep: "map ft_loc (x_tokens (set_wait i w e')) = map ft_loc (x_tokens e)"
    "map ft_loc (x_tokens (park i aw e')) = map ft_loc (x_tokens e)"
    if "ctl e' = ctl e" for w aw and e' :: "('v, 'c) executor"
    using ctl_tokens [OF that] i by (auto simp: set_wait_def park_def map_update list_update_same_conv)
  have data: "flow_of (e'\<lparr>x_data := d\<rparr>) = flow_of e'" for d and e' :: "('v, 'c) executor"
    by (simp add: flow_of_def)
  have "tok_steps g (flow_of e) (flow_of e1) \<and> map ft_loc (x_tokens e1) = map ft_loc (x_tokens e)"
  proof (cases "ac_trigger ac")
    case None
    obtain om q where q: "take_message (message_matches name ac (x_self e)) (rc_messages (x_ctx e)) = (om, q)"
      by force
    show ?thesis
      using r None q refines_wait [OF refl i] keep [OF refl]
        refines_wait [OF ctl_update(1) i] keep [OF ctl_update(1)]
      by (auto simp: step_accept_def Let_def data split: option.splits if_splits)
  next
    case (Some tr)
    then obtain t d where tr: "ac_trigger ac = Some (t, d)" by (cases tr) auto
    obtain e2 q where q: "trigger_holds eng t d e = (e2, q)" by force
    then have c: "ctl e2 = ctl e" using ctl_trigger_holds [of eng t d e] by simp
    show ?thesis
      using r tr q refines_wait [OF c i] keep [OF c] flow_of_ctl [OF c] ctl_tokens [OF c]
      by (auto simp: step_accept_def split: sum.splits if_splits)
  qed
  then show "tok_steps g (flow_of e) (flow_of e1)" "map ft_loc (x_tokens e1) = map ft_loc (x_tokens e)"
    by auto
qed

lemma refines_nested:
  fixes e :: "('v, 'c) executor"
  assumes i: "i < length (x_tokens e)" and plain: "plain_node (g_node g (loc_of i e))"
  shows "refines g e (step_nested_action eng g i invo e)"
proof -
  let ?n = "loc_of i e" and ?name = "action_node_name (g_node g (loc_of i e))"
  obtain e1 r where r: "(case g_accepts g ?n of Some ac \<Rightarrow> step_accept eng ?name ac i e | None \<Rightarrow> (e, Inr True)) = (e1, r)"
    by force
  have flow: "tok_steps g (flow_of e) (flow_of e1)" and locs: "map ft_loc (x_tokens e1) = map ft_loc (x_tokens e)"
    using r refines_accept [OF i] by (auto split: option.splits)
  have len: "length (x_tokens e1) = length (x_tokens e)" using locs by (metis length_map)
  have n: "loc_of i e1 = ?n" using locs i len unfolding loc_of_def by (metis nth_map)
  have "refines g e1 (and_then (case invo of Some ref \<Rightarrow> invoke_into eng ref e1 | None \<Rightarrow> ok e1) (\<lambda>e2.
      and_then (execute_body eng g ?n e2) (leave_node eng g True (ErrAmbiguousSuccession ?name) i ?n)))"
  proof (rule refines_and_then)
    fix e2 :: "('v, 'c) executor"
    assume "ctl e2 = ctl e1"
    then show "refines g e1 (and_then (execute_body eng g ?n e2) (leave_node eng g True (ErrAmbiguousSuccession ?name) i ?n))"
      using i len n plain by (intro refines_and_then refines_leave) (simp_all add: ctl_simps)
  qed (auto simp: ctl_simps ok_def split: option.splits)
  with flow r show ?thesis
    by (auto simp: step_nested_action_def Let_def refines_def fail_def ok_def split: sum.splits bool.splits)
qed

lemma refines_statement:
  "i < length (x_tokens e) \<Longrightarrow> plain_node (g_node g (loc_of i e)) \<Longrightarrow> refines g e (step_statement_node eng g i kw e)"
  unfolding step_statement_node_def Let_def
  by (intro refines_and_then refines_leave) (simp_all add: ctl_simps)

lemma refines_token: "refines g e (step_token eng g i e)"
proof (cases "i < length (x_tokens e)")
  case True
  then show ?thesis
    by (cases "g_node g (loc_of i e)")
      (auto simp: step_token_def plain_node_def
        intro!: refines_initial refines_final refines_fork refines_join refines_merge refines_decision
          refines_action_execution refines_nested refines_statement refines_fail)
qed (simp add: step_token_def refines_fail)

lemma refines_indices: "refines g e (step_indices eng g k e)"
proof (induction eng g k e rule: step_indices.induct)
  case (2 eng g i e)
  show ?case
  proof (cases "i \<ge> length (x_tokens e)")
    case False
    moreover have "refines g e (and_then (step_token eng g i e) (step_indices eng g i))"
      using 2 False refines_token [of g e eng i]
      by (auto simp: refines_def and_then_def split: prod.splits option.splits intro: rtranclp_trans)
    ultimately show ?thesis by simp
  qed (use 2 in simp)
qed (simp add: refines_ok)

section \<open>The calls of a client play the game\<close>

text \<open>Everything \<open>step\<close> and the runs do outside the handlers leaves the game's state as it is.\<close>

lemma flow_of_begin_end:
  "flow_of (begin_run eng e) = flow_of e" "flow_of (end_run e) = flow_of e"
  by (simp_all add: flow_of_def begin_run_def end_run_def Let_def)

lemma flow_of_resume: "flow_of (resume e) = flow_of e"
  by (simp add: flow_of_def resume_def Let_def)

lemma flow_of_record: "flow_of (record_step e) = flow_of e"
  by (simp add: flow_of_def record_step_def split: option.splits)

lemma flow_of_finish:
  assumes "flow_inv (flow_of e)"
  shows "flow_of (fst (finish_step before e)) = flow_of e"
proof -
  have "x_tokens e \<noteq> [] \<Longrightarrow> x_state e \<noteq> StateCompleted"
    using assms by (auto simp: flow_inv_def flow_of_def)
  then show ?thesis
    by (auto simp: finish_step_def fail_def ok_def Let_def flow_of_record) (simp_all add: flow_of_def)
qed

lemma flow_of_breakpoint: "flow_of (snd (breakpoint_hit g e)) = flow_of e"
  by (simp add: breakpoint_hit_def Let_def flow_of_def split: option.splits prod.splits)

lemma state_breakpoint: "x_state (snd (breakpoint_hit g e)) = x_state e"
  by (simp add: breakpoint_hit_def Let_def split: option.splits prod.splits)

lemma refines_bracket:
  assumes "\<And>e1. flow_of e1 = flow_of e \<Longrightarrow> refines g e1 (body e1)"
  shows "refines g e (bracket_run eng body e)"
  using assms [OF flow_of_begin_end(1), of eng]
  by (cases "body (begin_run eng e)") (simp add: bracket_run_def refines_def flow_of_begin_end)

lemma refines_step_body:
  assumes "flow_inv (flow_of e)"
  shows "refines g e (step_body eng g e)"
proof -
  let ?e1 = "resume e"
  have idx: "refines g e (step_indices eng g (length (x_tokens ?e1)) ?e1)"
    using refines_indices [of g ?e1 eng] by (simp add: refines_def flow_of_resume)
  then have "flow_inv (flow_of (fst (step_indices eng g (length (x_tokens ?e1)) ?e1)))"
    using assms tok_steps_inv by (auto simp: refines_def)
  with idx have "refines g e (and_then (step_indices eng g (length (x_tokens ?e1)) ?e1)
      (finish_step (map ft_loc (x_tokens ?e1))))"
    by (auto simp: refines_def and_then_def flow_of_finish split: prod.splits option.splits)
  then show ?thesis by (simp add: step_body_def Let_def refines_ok refines_fail)
qed

lemma refines_step_call: "flow_inv (flow_of e) \<Longrightarrow> refines g e (step eng g e)"
  unfolding step_def by (rule refines_bracket) (simp add: refines_step_body)

lemma refines_run_loop: "flow_inv (flow_of e) \<Longrightarrow> refines g e (run_loop eng g m k e)"
proof (induction eng g m k e rule: run_loop.induct)
  case (1 eng g m k e)
  obtain name e1 where bp: "breakpoint_hit g e = (name, e1)" by force
  have e1: "flow_of e1 = flow_of e" "x_state e1 = x_state e"
    using flow_of_breakpoint [of g e] state_breakpoint [of g e] bp by simp_all
  obtain e2 err where st: "step eng g e1 = (e2, err)" by force
  have s: "tok_steps g (flow_of e) (flow_of e2)"
    using refines_step_call [of e1 g eng] e1 st 1(2) by (simp add: refines_def)
  show ?case
  proof (cases "x_state e \<noteq> StateRunning \<and> x_state e \<noteq> StateWaiting \<or> name \<noteq> [] \<or> k \<ge> m")
    case True
    then show ?thesis
      using bp e1 by (subst run_loop.simps)
        (auto simp: refines_def ok_def fail_def, auto simp: flow_of_def)
  next
    case False
    show ?thesis
    proof (cases "err = None \<and> x_state e2 \<noteq> StateWaiting")
      case True
      have "refines g e2 (run_loop eng g m (k + 1) e2)"
        by (rule 1(1) [OF _ bp [symmetric]]) (use False st True s 1(2) tok_steps_inv in auto)
      with s have "refines g e (run_loop eng g m (k + 1) e2)"
        by (auto simp: refines_def)
      then show ?thesis
        using False True bp st by (subst run_loop.simps) auto
    next
      case False': False
      then show ?thesis
        using False bp st s by (subst run_loop.simps) (auto simp: refines_def fail_def split: option.splits)
    qed
  qed
qed

lemma refines_run:
  fixes e :: "('v, 'c) executor"
  assumes inv: "flow_inv (flow_of e)"
  shows "refines g e (run_to_completion eng g e)"
  unfolding run_to_completion_def
proof (rule refines_bracket)
  fix e1 :: "('v, 'c) executor"
  assume e1: "flow_of e1 = flow_of e"
  define e2 where "e2 = (if x_state e1 = StateSuspended then e1\<lparr>x_paused_at := [], x_state := StateRunning\<rparr>
    else e1\<lparr>x_paused_at := []\<rparr>)"
  have "flow_of e2 = flow_of e1" by (simp add: flow_of_def e2_def)
  with inv e1 have "refines g e1 (run_loop eng g m 0 e2)" for m
    using refines_run_loop [of e2 g eng m 0] by (simp add: refines_def)
  then show "refines g e1 (let e1' = e1\<lparr>x_paused_at := []\<rparr>;
        e2 = (if x_state e1' = StateSuspended then e1'\<lparr>x_state := StateRunning\<rparr> else e1')
    in run_loop eng g (rc_max_action_steps (x_ctx e1)) 0 e2)"
    by (simp add: Let_def e2_def)
qed

section \<open>Reachable executors\<close>

inductive reachable :: "('e, 's, 'v, 'c) engine \<Rightarrow> ('e, 's) action_graph \<Rightarrow> ('v, 'c) executor \<Rightarrow> bool"
  for eng g where
  created: "reachable eng g (new_executor ctx self)"
| initialized: "reachable eng g e \<Longrightarrow> reachable eng g (fst (initialize eng g e))"
| stepped: "reachable eng g e \<Longrightarrow> reachable eng g (fst (step eng g e))"
| ran: "reachable eng g e \<Longrightarrow> reachable eng g (fst (run_to_completion eng g e))"
| quiesced: "reachable eng g e \<Longrightarrow> reachable eng g (fst (run_to_quiescence eng g e))"
| inputs: "reachable eng g e \<Longrightarrow> reachable eng g (set_inputs kvs e)"
| breakpoint: "reachable eng g e \<Longrightarrow> reachable eng g (set_breakpoint nm e)"
| cleared: "reachable eng g e \<Longrightarrow> reachable eng g (clear_breakpoints e)"
| posted: "reachable eng g e \<Longrightarrow> reachable eng g (e\<lparr>x_ctx := c\<rparr>)"

lemma flow_of_attributes: "flow_of (fst (initialize_attributes eng attrs e)) = flow_of e"
proof (induction eng attrs e rule: initialize_attributes.induct)
  case (2 eng name ex attrs e)
  then show ?case
    by (auto simp: fail_def Let_def flow_of_def split: prod.splits sum.splits)
qed (simp add: ok_def)

lemma flow_inv_initialize:
  fixes e :: "('v, 'c) executor"
  assumes "flow_inv (flow_of e)"
  shows "flow_inv (flow_of (fst (initialize eng g e)))"
proof -
  have "flow_inv (flow_of (fst (init_body eng g e1)))" if e1: "flow_inv (flow_of e1)" for e1 :: "('v, 'c) executor"
  proof -
    obtain e2 err where a: "initialize_attributes eng (g_attributes g) e1 = (e2, err)" by force
    have "flow_of e2 = flow_of e1" using flow_of_attributes [of eng "g_attributes g" e1] a by simp
    with e1 have inv: "flow_inv (flow_of e2)" by simp
    then have "flow_inv (flow_of (e2\<lparr>x_data := d, x_next_id := x_next_id e2 + 1,
        x_tokens := x_tokens e2 @ [\<lparr>ft_id = x_next_id e2, ft_loc = n, ft_wait = None\<rparr>], x_state := StateRunning\<rparr>))" for d n
      by (fastforce simp: flow_inv_def flow_of_def)
    with inv e1 a show ?thesis
      by (auto simp: init_body_def fail_def ok_def Let_def store_all_def split: option.splits)
  qed
  then show ?thesis
    using assms flow_of_begin_end(1) [of eng e]
    by (cases "init_body eng g (begin_run eng e)")
      (metis bracket_run_def case_prod_conv flow_of_begin_end(2) fst_conv initialize_def)
qed

lemma reachable_inv: "reachable eng g e \<Longrightarrow> flow_inv (flow_of e)"
proof (induction rule: reachable.induct)
  case (created ctx self)
  then show ?case by (simp add: flow_inv_def flow_of_def new_executor_def)
next
  case (initialized e)
  show ?case by (rule flow_inv_initialize) (rule initialized.IH)
next
  case (stepped e)
  then show ?case using refines_step_call [of e g eng] tok_steps_inv by (auto simp: refines_def)
next
  case (ran e)
  then show ?case using refines_run [of e g eng] tok_steps_inv by (auto simp: refines_def)
next
  case (quiesced e)
  have "fst (run_to_quiescence eng g e) = fst (run_to_completion eng g e)"
    by (auto simp: run_to_quiescence_def split: prod.splits option.splits)
  with quiesced show ?case using refines_run [of e g eng] tok_steps_inv by (auto simp: refines_def)
qed (simp_all add: flow_inv_def flow_of_def set_inputs_def set_breakpoint_def clear_breakpoints_def)

end
