(* ===== verification/Action_Runs.thy ===== *)
theory Action_Runs
  imports Action_Flow
begin

text \<open>
  How steps and runs of the action executor end: a handler keeps the run state or completes it
  and never counts a step itself; a step counts once; a run takes at most its budget of steps.
  Also the runs that hold no token: a graph without merges never reaches one, and a run that
  does reach one spends its whole budget.
\<close>

section \<open>What the handlers leave alone\<close>

definition steady :: "('v, 'c) executor \<Rightarrow> ('v, 'c) outcome \<Rightarrow> bool" where
  "steady e r \<longleftrightarrow> (x_state (fst r) = x_state e \<or> x_state (fst r) = StateCompleted)
     \<and> x_step_count (fst r) = x_step_count e \<and> x_breakpoints (fst r) = x_breakpoints e
     \<and> x_next_id e \<le> x_next_id (fst r)"

lemma steady_ctl: "ctl (fst r) = ctl e \<Longrightarrow> steady e r"
  by (simp add: steady_def ctl_def)

lemma steady_trans: "steady e r \<Longrightarrow> steady (fst r) r' \<Longrightarrow> steady e r'"
  by (auto simp: steady_def)

lemma steady_ok: "steady e (ok e)" and steady_fail: "steady e (fail err e)"
  by (simp_all add: steady_def ok_def fail_def)

lemma steady_retire: "steady e (ok (retire_token i e))"
  and steady_move: "steady e (ok (move_token i n e))"
  and steady_wait: "steady e (ok (set_wait i w e))" "steady e (ok (park i aw e))"
  and steady_complete: "steady e (ok (complete_if_empty (e\<lparr>x_tokens := ts\<rparr>)))"
  and steady_tokens: "steady e (ok (e\<lparr>x_tokens := ts\<rparr>))"
  and steady_visit: "steady e (ok (move_token i n (e\<lparr>x_merge_visited := v\<rparr>)))"
  and steady_spawn: "steady e (ok (e\<lparr>x_tokens := ts, x_next_id := x_next_id e + int k\<rparr>))"
  and steady_spawn1: "steady e (ok (e\<lparr>x_tokens := ts, x_next_id := x_next_id e + 1\<rparr>))"
  by (simp_all add: steady_def ok_def retire_token_def complete_if_empty_def move_token_def set_wait_def park_def)

lemma steady_and_then:
  assumes "steady e r" "\<And>e1. steady e1 (f e1)"
  shows "steady e (and_then r f)"
proof (cases r)
  case (Pair e1 err)
  with assms show ?thesis
    by (cases err) (auto simp: and_then_def intro: steady_trans)
qed

lemma steady_with_successions:
  assumes "\<And>ss e1. steady e1 (k ss e1)"
  shows "steady e (with_successions eng g n k e)"
proof (cases "enabled_successions eng g n e")
  case (Pair e1 res)
  then have c: "steady e (ok e1)" using steady_ctl [of "ok e1" e] ctl_enabled [of eng g n e] by (simp add: ok_def)
  show ?thesis
  proof (cases res)
    case (Inl err)
    with Pair c show ?thesis by (simp add: with_successions_def steady_def ok_def fail_def)
  next
    case (Inr ss)
    with Pair c assms [of e1 ss] show ?thesis by (auto simp: with_successions_def ok_def intro: steady_trans)
  qed
qed

lemma steady_body: "steady e (run_node_body eng g n e)" "steady e (execute_body eng g n e)"
    "steady e (invoke_into eng ref e)" "steady e (apply_data_flows g n e)"
  by (simp_all add: steady_ctl ctl_simps apply_data_flows_def)

lemmas steady_intros = steady_ok steady_fail steady_retire steady_move steady_wait steady_complete
  steady_tokens steady_visit steady_spawn steady_spawn1 steady_and_then steady_with_successions steady_body

lemma steady_leave: "steady e (leave_node eng g fl amb i n e)"
  unfolding leave_node_def
  by (intro steady_with_successions) (auto split: list.splits intro!: steady_intros)

lemma steady_decision: "steady e (step_decision_node eng g i e)"
proof -
  have "steady e1 (case decide eng g n ss None e1 of
           (e1, Inl err) \<Rightarrow> fail err e1
         | (e1, Inr (Some s)) \<Rightarrow> ok (move_token i s e1)
         | (e1, Inr None) \<Rightarrow> fail err0 e1)" for n ss err0 and e1 :: "('a, 'b) executor"
  proof -
    obtain e2 r where d: "decide eng g n ss None e1 = (e2, r)" by force
    then have "steady e1 (ok e2)" using steady_ctl [of "ok e2" e1] ctl_decide [of eng g n ss None e1] by (simp add: ok_def)
    with d show ?thesis
      by (auto split: sum.splits option.splits simp: steady_def ok_def fail_def move_token_def)
  qed
  then show ?thesis
    by (auto simp: step_decision_node_def Let_def intro!: steady_intros)
qed

lemma steady_execution: "steady e (step_action_execution_node eng g i ex ref e)"
proof -
  have "steady e (case ex of
           Some ex \<Rightarrow>
             (case eval_expr eng (x_ctx e) (x_data e) ex of (ctx, r) \<Rightarrow>
                (let e1 = e\<lparr>x_ctx := ctx\<rparr> in
                 case r of
                   Inl err \<Rightarrow> fail (ErrWrapped ''eval expression'' err) e1
                 | Inr v \<Rightarrow> ok (e1\<lparr>x_data := (x_data e1)(output_pin g n \<mapsto> v)\<rparr>)))
         | None \<Rightarrow> (case ref of Some ref \<Rightarrow> invoke_into eng ref e | None \<Rightarrow> ok e))" for n
    by (auto intro!: steady_body steady_ok simp: Let_def split: option.splits prod.splits sum.splits)
      (auto simp: steady_def ok_def fail_def)
  then show ?thesis
    by (auto simp: step_action_execution_node_def Let_def intro!: steady_and_then steady_leave)
qed

lemma steady_accept: "step_accept eng name ac i e = (e1, r) \<Longrightarrow> steady e (ok e1)"
proof (cases "ac_trigger ac")
  case (Some td)
  then obtain t d where td: "ac_trigger ac = Some (t, d)" by (cases td) auto
  obtain e2 q where q: "trigger_holds eng t d e = (e2, q)" by force
  then have "ctl e2 = ctl e" using ctl_trigger_holds [of eng t d e] by simp
  then have "steady e (ok e2)" by (simp add: steady_def ctl_def ok_def)
  then show "step_accept eng name ac i e = (e1, r) \<Longrightarrow> steady e (ok e1)"
    using td q by (auto simp: step_accept_def steady_def ok_def park_def set_wait_def split: sum.splits if_splits)
next
  case None
  obtain om q where q: "take_message (message_matches name ac (x_self e)) (rc_messages (x_ctx e)) = (om, q)"
    by force
  from None q show "step_accept eng name ac i e = (e1, r) \<Longrightarrow> steady e (ok e1)"
    by (auto simp: step_accept_def steady_def ok_def park_def set_wait_def Let_def split: option.splits if_splits)
qed

lemma steady_nested: "steady e (step_nested_action eng g i invo e)"
proof -
  let ?n = "loc_of i e" and ?name = "action_node_name (g_node g (loc_of i e))"
  obtain e1 r where r: "(case g_accepts g ?n of Some ac \<Rightarrow> step_accept eng ?name ac i e | None \<Rightarrow> (e, Inr True)) = (e1, r)"
    by force
  then have s: "steady e (ok e1)" using steady_accept by (fastforce simp: steady_ok split: option.splits)
  have "steady e1 (and_then (case invo of Some ref \<Rightarrow> invoke_into eng ref e1 | None \<Rightarrow> ok e1) (\<lambda>e2.
      and_then (execute_body eng g ?n e2) (leave_node eng g True (ErrAmbiguousSuccession ?name) i ?n)))"
    by (auto split: option.splits intro!: steady_intros steady_leave)
  with s r show ?thesis
    by (auto simp: step_nested_action_def Let_def ok_def steady_def fail_def split: sum.splits bool.splits)
qed

lemma steady_join: "steady e (step_join_node eng g i e)"
proof -
  have "steady e2 (case ss of
              [] \<Rightarrow> ok (complete_if_empty (e2\<lparr>x_tokens := ts\<rparr>))
            | s # _ \<Rightarrow> ok (e2\<lparr>x_tokens := ts @ spawn_tokens (x_next_id e2) [s], x_next_id := x_next_id e2 + 1\<rparr>))"
    for ss ts and e2 :: "('a, 'b) executor"
    by (cases ss) (auto intro: steady_complete steady_spawn1)
  then show ?thesis
    by (auto simp: step_join_node_def Let_def intro!: steady_and_then steady_ok steady_fail steady_body steady_with_successions)
qed

lemma steady_token: "steady e (step_token eng g i e)"
proof -
  have "steady e (step_initial_node eng g i e)" "steady e (step_final_node i e)" "steady e (step_fork_node eng g i e)"
    "steady e (step_merge_node eng g i e)" "steady e (step_statement_node eng g i kw e)" for kw
    unfolding step_initial_node_def step_final_node_def step_fork_node_def step_merge_node_def
      step_statement_node_def Let_def
    by (auto split: list.splits intro!: steady_intros steady_leave)
  then show ?thesis
    by (auto simp: step_token_def steady_fail steady_join steady_decision steady_execution steady_nested
      split: anode.splits)
qed

lemma steady_indices: "steady e (step_indices eng g k e)"
proof (induction eng g k e rule: step_indices.induct)
  case (2 eng g i e)
  show ?case
  proof (cases "i \<ge> length (x_tokens e)")
    case False
    have "steady e (and_then (step_token eng g i e) (step_indices eng g i))"
      using 2(2) False steady_token [of e eng g i]
      by (auto simp: and_then_def intro: steady_trans split: prod.splits option.splits)
    with False show ?thesis by simp
  qed (use 2 in simp)
qed (simp add: steady_ok)

section \<open>Steps and runs count\<close>

definition running :: "('v, 'c) executor \<Rightarrow> bool" where
  "running e \<longleftrightarrow> x_state e = StateRunning \<or> x_state e = StateWaiting"

lemma finish_step_cases:
  "finish_step before e = (e', err) \<Longrightarrow>
     (err = None \<longrightarrow> x_step_count e' = x_step_count e + 1 \<and> (x_state e' = x_state e \<or> x_state e' = StateWaiting))
     \<and> (err \<noteq> None \<longrightarrow> e' = e) \<and> x_tokens e' = x_tokens e \<and> x_breakpoints e' = x_breakpoints e"
  by (auto simp: finish_step_def Let_def ok_def fail_def record_step_def split: if_splits option.splits)

lemma step_of_body:
  "step eng g e = (e', err) \<Longrightarrow> \<exists>e1. step_body eng g (begin_run eng e) = (e1, err) \<and> e' = end_run e1"
  by (auto simp: step_def bracket_run_def split: prod.splits)

lemma step_counts:
  assumes "step eng g e = (e', err)" "running e"
  shows "x_breakpoints e' = x_breakpoints e"
    "err = None \<Longrightarrow> x_step_count e' = x_step_count e + 1 \<and> (running e' \<or> x_state e' = StateCompleted)"
    "err \<noteq> None \<Longrightarrow> x_step_count e' = x_step_count e"
proof -
  obtain e2 where b: "step_body eng g (begin_run eng e) = (e2, err)" and e': "e' = end_run e2"
    using step_of_body [OF assms(1)] by auto
  define e0 where "e0 = resume (begin_run eng e)"
  have e0: "x_state e0 = StateRunning" "x_step_count e0 = x_step_count e" "x_breakpoints e0 = x_breakpoints e"
    using assms(2) by (auto simp: e0_def resume_def begin_run_def Let_def running_def)
  obtain e1 er where i: "step_indices eng g (length (x_tokens e0)) e0 = (e1, er)" by force
  then have s: "steady e0 (e1, er)" using steady_indices [of e0 eng g "length (x_tokens e0)"] by simp
  have b': "and_then (e1, er) (finish_step (map ft_loc (x_tokens e0))) = (e2, err)"
    using b i assms(2) by (auto simp: step_body_def Let_def e0_def running_def begin_run_def ok_def fail_def split: if_splits)
  show "x_breakpoints e' = x_breakpoints e"
    "err = None \<Longrightarrow> x_step_count e' = x_step_count e + 1 \<and> (running e' \<or> x_state e' = StateCompleted)"
    "err \<noteq> None \<Longrightarrow> x_step_count e' = x_step_count e"
    using s e0 e' b' finish_step_cases [of "map ft_loc (x_tokens e0)" e1 e2 err]
    by (auto simp: and_then_def steady_def running_def end_run_def split: option.splits)
qed

lemma breakpoint_hit_keeps:
  "breakpoint_hit g e = (name, e1) \<Longrightarrow> x_state e1 = x_state e \<and> x_step_count e1 = x_step_count e
     \<and> x_tokens e1 = x_tokens e \<and> x_breakpoints e1 = x_breakpoints e"
  by (auto simp: breakpoint_hit_def Let_def split: if_splits option.splits prod.splits)

lemma breakpoint_name_set:
  "breakpoint_name_of g e n \<noteq> [] \<Longrightarrow> breakpoint_name_of g e n \<in> set (x_breakpoints e)"
proof (cases "find (\<lambda>nm. nm \<in> set (x_breakpoints e)) (action_node_names (g_node g n))")
  case (Some nm)
  then have "nm \<in> set (x_breakpoints e)" unfolding find_Some_iff by blast
  with Some show ?thesis by (simp add: breakpoint_name_of_def)
qed (simp add: breakpoint_name_of_def)

lemma first_breakpoint_set: "first_breakpoint g e ts = Some (nm, v) \<Longrightarrow> nm \<in> set (x_breakpoints e)"
  by (induction g e ts rule: first_breakpoint.induct) (auto simp: Let_def breakpoint_name_set split: if_splits)

lemma breakpoint_hit_name:
  "breakpoint_hit g e = (name, e1) \<Longrightarrow> name \<noteq> [] \<Longrightarrow> name \<in> set (x_breakpoints e)"
  by (auto simp: breakpoint_hit_def Let_def dest: first_breakpoint_set split: if_splits option.splits prod.splits)

lemma run_loop_ends:
  assumes "run_loop eng g m k e = (e', err)" "running e" "k \<le> m"
  shows "x_step_count e \<le> x_step_count e' \<and> x_step_count e' \<le> x_step_count e + (m - k)
    \<and> (err = None \<longrightarrow> x_state e' = StateCompleted
        \<or> x_state e' = StateSuspended \<and> x_paused_at e' \<in> set (x_breakpoints e))"
  using assms
proof (induction eng g m k e rule: run_loop.induct)
  case (1 eng g m k e)
  obtain name e1 where bp: "breakpoint_hit g e = (name, e1)" by force
  note keep = breakpoint_hit_keeps [OF bp]
  obtain e2 er where st: "step eng g e1 = (e2, er)" by force
  have r1: "running e1" using keep 1(3) by (simp add: running_def)
  note sc = step_counts [OF st r1]
  show ?case
  proof (cases "name \<noteq> [] \<or> k \<ge> m \<or> er \<noteq> None \<or> x_state e2 = StateWaiting")
    case True
    then show ?thesis
      using 1(2-4) bp keep st sc breakpoint_hit_name [OF bp]
      by (subst (asm) run_loop.simps)
        (auto simp: running_def ok_def fail_def split: if_splits option.splits)
  next
    case False
    then have rec: "run_loop eng g m (k + 1) e2 = (e', err)"
      using 1(2,3) bp st by (subst (asm) run_loop.simps) (auto simp: running_def)
    show ?thesis
    proof (cases "running e2")
      case True
      have "x_step_count e2 \<le> x_step_count e' \<and> x_step_count e' \<le> x_step_count e2 + (m - (k + 1))
          \<and> (err = None \<longrightarrow> x_state e' = StateCompleted
              \<or> x_state e' = StateSuspended \<and> x_paused_at e' \<in> set (x_breakpoints e2))"
        by (rule 1(1) [OF _ bp [symmetric] _ _ st [symmetric]])
          (use 1(3) False rec True in \<open>auto simp: running_def\<close>)
      then show ?thesis using sc keep False by auto
    next
      case not: False
      then have "e' = e2 \<and> err = None"
        using rec by (subst (asm) run_loop.simps) (auto simp: running_def ok_def)
      then show ?thesis using sc keep False not by auto
    qed
  qed
qed

section \<open>Runs without tokens\<close>

lemma breakpoint_without_tokens:
  assumes "x_tokens e = []" "x_state e = StateRunning"
  obtains e1 where "breakpoint_hit g e = ([], e1)" "x_tokens e1 = []" "x_state e1 = StateRunning"
    "x_step_count e1 = x_step_count e"
  using assms that [of "snd (breakpoint_hit g e)"] by (auto simp: breakpoint_hit_def Let_def)

lemma step_without_tokens:
  assumes "x_tokens e = []" "x_state e = StateRunning"
  shows "\<exists>e'. step eng g e = (e', None) \<and> x_tokens e' = [] \<and> x_state e' = StateRunning
    \<and> x_step_count e' = x_step_count e + 1"
  using assms
  by (simp add: step_def bracket_run_def step_body_def resume_def begin_run_def end_run_def Let_def ok_def
      and_then_def finish_step_def progress_made_def record_step_def split: option.splits)

lemma run_loop_without_tokens:
  assumes "x_tokens e = []" "x_state e = StateRunning" "k \<le> m"
  shows "\<exists>e'. run_loop eng g m k e = (e', Some (ErrActionStepLimitExceeded m))
    \<and> x_step_count e' = x_step_count e + (m - k) \<and> x_state e' = StateRunning \<and> x_tokens e' = []"
  using assms
proof (induction "nat (m - k)" arbitrary: k e)
  case 0
  then have "k = m" by simp
  obtain e1 where "breakpoint_hit g e = ([], e1)" "x_tokens e1 = []" "x_state e1 = StateRunning"
    "x_step_count e1 = x_step_count e"
    using breakpoint_without_tokens [OF 0(2,3)] by blast
  then show ?case using 0 \<open>k = m\<close> by (subst run_loop.simps) (simp add: fail_def)
next
  case (Suc n)
  have k: "n = nat (m - (k + 1))" "k + 1 \<le> m" using Suc(2) by auto
  obtain e1 where bp: "breakpoint_hit g e = ([], e1)" "x_tokens e1 = []" "x_state e1 = StateRunning"
    "x_step_count e1 = x_step_count e"
    using breakpoint_without_tokens [OF Suc(3,4)] by blast
  obtain e2 where st: "step eng g e1 = (e2, None)" "x_tokens e2 = []" "x_state e2 = StateRunning"
    "x_step_count e2 = x_step_count e1 + 1"
    using step_without_tokens [OF bp(2,3)] by blast
  obtain e' where "run_loop eng g m (k + 1) e2 = (e', Some (ErrActionStepLimitExceeded m))"
    "x_step_count e' = x_step_count e2 + (m - (k + 1))" "x_state e' = StateRunning" "x_tokens e' = []"
    using Suc(1) [of "k + 1" e2] st k by auto
  then show ?case using Suc(2,4) bp st by (subst run_loop.simps) auto
qed

section \<open>Graphs without merges\<close>

definition merge_free :: "('e, 's) action_graph \<Rightarrow> bool" where
  "merge_free g \<longleftrightarrow> (\<forall>n nm. g_node g n \<noteq> MergeNode nm)"

definition flow_live :: "flow_state \<Rightarrow> bool" where
  "flow_live s \<longleftrightarrow> (fs_tokens s = [] \<longrightarrow> fs_done s)"

lemma tok_step_live: "tok_step g s s' \<Longrightarrow> merge_free g \<Longrightarrow> flow_live s \<Longrightarrow> flow_live s'"
  by (induction rule: tok_step.induct)
    (auto simp: flow_live_def fs_settle_def merge_free_def neq_Nil_conv)

lemma tok_steps_live: "tok_steps g s s' \<Longrightarrow> merge_free g \<Longrightarrow> flow_live s \<Longrightarrow> flow_live s'"
  by (induction rule: rtranclp_induct) (auto intro: tok_step_live)

end
