(* ===== verification/Action_Properties.thy ===== *)
theory Action_Properties
  imports Action_Runs
begin

text \<open>
  The properties of the action executor: what every client call keeps, how forks, joins and
  decisions move tokens, how a run ends and in how many steps, and what becomes of a token
  that reaches a merge already passed. An example graph and engine serve the witnesses.
\<close>

section \<open>An example\<close>

text \<open>Expressions and values are booleans, bodies do nothing.\<close>

definition example_engine :: "(bool, unit, bool, unit) engine" where
  "example_engine = \<lparr>eval_expr = (\<lambda>ctx d ex. (ctx, Inr ex)), as_bool = Some,
     run_stmts = (\<lambda>n ss ctx d. (ctx, d, None)), invoke_action = (\<lambda>ref ctx d. (ctx, Inr [])),
     reset_runs = (\<lambda>c. c)\<rparr>"

text \<open>
  \<open>start\<close> then \<open>fork\<close>; one branch goes to the merge at once, the other through two actions; the
  merge goes to \<open>done\<close>.
\<close>

definition example_graph :: "(bool, unit) action_graph" where
  "example_graph = \<lparr>g_node = (\<lambda>n. if n = 0 then InitialNode ''start'' else if n = 1 then ForkNode ''f''
       else if n = 2 then MergeNode ''m'' else if n = 4 then FinalNode ''done''
       else if n = 7 then JoinNode ''j'' else if n = 6 then DecisionNode ''d''
       else ActionExecutionNode ''a'' None None),
     g_nodes = [0, 1, 2, 3, 4, 5, 6, 7], g_edges = [(0, [1]), (1, [2, 3]), (3, [5]), (5, [2]), (2, [4]),
       (6, [4, 7]), (7, [4])],
     g_guards = (\<lambda>n. if n = 6 then [(7, False)] else []), g_flows = (\<lambda>_. []), g_bodies = (\<lambda>_. []),
     g_accepts = (\<lambda>_. None), g_initial = Some 0, g_attributes = []\<rparr>"

definition example_context :: "(bool, unit) rt_context" where
  "example_context = \<lparr>rc_messages = [], rc_steps = 0, rc_elements = 0, rc_run_depth = 0,
     rc_max_action_steps = 9, rc_max_state_events = 9, rc_max_do_steps = 9, rc_rest = ()\<rparr>"

definition example_executor :: "(int \<times> nid) list \<Rightarrow> (bool, unit) executor" where
  "example_executor toks = (new_executor example_context 1)
     \<lparr>x_tokens := map (\<lambda>(k, n). \<lparr>ft_id = k, ft_loc = n, ft_wait = None\<rparr>) toks, x_state := StateRunning,
      x_next_id := 10\<rparr>"

lemmas example_defs = example_engine_def example_graph_def example_context_def example_executor_def
  new_executor_def edges_of_def incoming_edges_def guard_of_def

lemmas exec_defs = initialize_def init_body_def bracket_run_def begin_run_def end_run_def
  run_to_completion_def step_def step_body_def step_token_def loc_of_def ok_def fail_def and_then_def
  step_initial_node_def step_fork_node_def step_join_node_def step_merge_node_def step_final_node_def
  step_decision_node_def step_action_execution_node_def leave_node_def with_successions_def
  enabled_successions_def run_node_body_def guard_holds_def apply_data_flows_def retire_token_def
  complete_if_empty_def move_token_def delete_at_def finish_step_def record_step_def resume_def
  progress_made_def breakpoint_hit_def store_all_def tokens_at_def any_token_waiting_def

section \<open>What every call keeps\<close>

text \<open>
  C1. Whatever a client calls, in any order and whatever the evaluator, the statement engine
  and nested actions do: the tokens of an executor have distinct ids, all below the next id to
  hand out, and an executor that is completed holds no token.\<close>

theorem executor_invariant:
  assumes "reachable eng g e"
  shows "distinct (map ft_id (x_tokens e)) \<and> (\<forall>t \<in> set (x_tokens e). ft_id t < x_next_id e)
    \<and> (x_state e = StateCompleted \<longrightarrow> x_tokens e = [])"
  using reachable_inv [OF assms] by (simp add: flow_inv_def flow_of_def)

definition example_started :: "(bool, unit) executor" where
  "example_started = fst (step example_engine example_graph (fst (step example_engine example_graph
     (fst (initialize example_engine example_graph (new_executor example_context 1))))))"

lemma example_executor_reachable: "reachable example_engine example_graph example_started"
  unfolding example_started_def by (intro reachable.intros)

lemma example_started_eq: "example_started = (example_executor [(2, 2), (3, 3)])
    \<lparr>x_next_id := 4, x_step_count := 2, x_run_started := True\<rparr>"
  unfolding example_started_def by (simp add: example_defs exec_defs upto_rec1 cong: if_cong)

theorem executor_invariant_witness:
  "map ft_id (x_tokens example_started) = [2, 3] \<and> distinct (map ft_id (x_tokens example_started))
    \<and> list_all (\<lambda>t. ft_id t < x_next_id example_started) (x_tokens example_started)"
  using executor_invariant [OF example_executor_reachable] by (simp add: example_started_eq example_executor_def)



section \<open>Forks, joins, decisions\<close>

text \<open>
  C3. A fork replaces its token by one fresh token per enabled succession, in declaration order,
  numbered from the next id on; every other token stays as it is and in its place.\<close>

theorem fork_spawns:
  assumes "i < length (x_tokens e)" "g_node g (loc_of i e) = ForkNode nm" "edges_of g (loc_of i e) \<noteq> []"
    "run_node_body eng g (loc_of i e) e = (e1, None)"
    "enabled_successions eng g (loc_of i e) e1 = (e2, Inr ss)" "ss \<noteq> []"
  shows "\<exists>e' fresh. step_token eng g i e = (e', None) \<and> x_tokens e' = delete_at i (x_tokens e) @ fresh
    \<and> map ft_loc fresh = ss \<and> map ft_id fresh = [x_next_id e..x_next_id e + int (length ss) - 1]
    \<and> x_next_id e' = x_next_id e + int (length ss) \<and> x_state e' = x_state e"
proof -
  have c: "ctl e1 = ctl e" using ctl_run_node_body [of eng g "loc_of i e" e] assms(4) by simp
  have "ctl e2 = ctl e1" using ctl_enabled [of eng g "loc_of i e" e1] assms(5) by simp
  then have k: "x_tokens e2 = x_tokens e" "x_next_id e2 = x_next_id e" "x_state e2 = x_state e"
    using c ctl_tokens [of e2 e] by simp_all
  show ?thesis
    using assms k
    by (simp add: step_token_def step_fork_node_def Let_def and_then_def with_successions_def ok_def
        spawn_ids spawn_locs)
qed

theorem fork_spawns_witness:
  "\<exists>e'. step_token example_engine example_graph 0 (example_executor [(1, 1), (5, 3)]) = (e', None)
    \<and> map ft_id (x_tokens e') = [5, 10, 11] \<and> map ft_loc (x_tokens e') = [3, 2, 3]"
proof -
  let ?e = "example_executor [(1, 1), (5, 3)]"
  have "\<exists>e' fresh. step_token example_engine example_graph 0 ?e = (e', None)
      \<and> x_tokens e' = delete_at 0 (x_tokens ?e) @ fresh
      \<and> map ft_loc fresh = [2, 3] \<and> map ft_id fresh = [x_next_id ?e..x_next_id ?e + int (length [2::nat, 3]) - 1]
      \<and> x_next_id e' = x_next_id ?e + int (length [2::nat, 3]) \<and> x_state e' = x_state ?e"
    by (rule fork_spawns [where nm = "''f''"])
      (simp_all add: example_defs loc_of_def run_node_body_def ok_def enabled_successions_def)
  then show ?thesis by (auto simp: delete_at_def example_executor_def new_executor_def upto_rec1)
qed





section \<open>How a run ends\<close>

text \<open>
  C6. A run takes at most its budget of steps, and one that reports no error ended either with the
  action completed or suspended at a breakpoint that is set: never waiting, never half way.\<close>

theorem run_ends:
  assumes "run_to_completion eng g e = (e', err)" "0 \<le> rc_max_action_steps (x_ctx e)"
    "x_state e \<in> {StateRunning, StateWaiting, StateSuspended}"
  shows "x_step_count e \<le> x_step_count e' \<and> x_step_count e' \<le> x_step_count e + rc_max_action_steps (x_ctx e)
    \<and> (err = None \<longrightarrow> x_state e' = StateCompleted
        \<or> x_state e' = StateSuspended \<and> x_paused_at e' \<in> set (x_breakpoints e))"
proof -
  let ?e0 = "begin_run eng e"
  define e2 where "e2 = (if x_state ?e0 = StateSuspended then ?e0\<lparr>x_paused_at := [], x_state := StateRunning\<rparr>
    else ?e0\<lparr>x_paused_at := []\<rparr>)"
  obtain e1 where r: "run_loop eng g (rc_max_action_steps (x_ctx ?e0)) 0 e2 = (e1, err)" and e': "e' = end_run e1"
    using assms(1) by (auto simp: run_to_completion_def bracket_run_def Let_def e2_def split: prod.splits if_splits)
  have e2: "running e2" "x_step_count e2 = x_step_count e" "x_breakpoints e2 = x_breakpoints e"
    "rc_max_action_steps (x_ctx ?e0) = rc_max_action_steps (x_ctx e)"
    using assms(3) by (auto simp: e2_def running_def begin_run_def Let_def)
  then show ?thesis
    using run_loop_ends [OF r e2(1)] assms(2) e' by (simp add: end_run_def)
qed

theorem run_ends_witness:
  "x_state (fst (run_to_completion example_engine example_graph (example_executor [(1, 4)]))) = StateCompleted"
proof -
  let ?e = "example_executor [(1, 4)]"
  obtain e' err where r: "run_to_completion example_engine example_graph ?e = (e', err)" by force
  have "snd (run_to_completion example_engine example_graph ?e) = None" by code_simp
  with r have n: "err = None" by simp
  have "x_step_count ?e \<le> x_step_count e' \<and> x_step_count e' \<le> x_step_count ?e + rc_max_action_steps (x_ctx ?e)
    \<and> (err = None \<longrightarrow> x_state e' = StateCompleted
        \<or> x_state e' = StateSuspended \<and> x_paused_at e' \<in> set (x_breakpoints ?e))"
    by (rule run_ends [OF r]) (simp_all add: example_defs)
  with n r show ?thesis by (simp add: example_defs)
qed

lemma live_inv_done:
  "flow_live (flow_of e) \<Longrightarrow> flow_inv (flow_of e) \<Longrightarrow> x_state e = StateCompleted \<longleftrightarrow> x_tokens e = []"
  unfolding flow_live_def flow_inv_def flow_of_def flow_state.simps by blast

text \<open>
  C7. In a graph without merge nodes an executor that has tokens never runs out of them before it is
  completed: after any run, with or without an error, it is completed exactly when no token is left.\<close>

theorem merge_free_completes:
  assumes "reachable eng g e" "merge_free g" "x_tokens e \<noteq> []"
  shows "x_state (fst (run_to_completion eng g e)) = StateCompleted
    \<longleftrightarrow> x_tokens (fst (run_to_completion eng g e)) = []"
proof -
  have steps: "tok_steps g (flow_of e) (flow_of (fst (run_to_completion eng g e)))"
    using refines_run [OF reachable_inv [OF assms(1)], of g eng] by (simp add: refines_def)
  have "flow_live (flow_of e)" using assms(3) by (simp add: flow_live_def flow_of_def)
  then have "flow_live (flow_of (fst (run_to_completion eng g e)))"
    using tok_steps_live [OF steps assms(2)] by blast
  moreover have "flow_inv (flow_of (fst (run_to_completion eng g e)))"
    using tok_steps_inv [OF steps reachable_inv [OF assms(1)]] .
  ultimately show ?thesis by (rule live_inv_done)
qed

definition small_graph :: "(bool, unit) action_graph" where
  "small_graph = example_graph\<lparr>g_node := (\<lambda>n. if n = 0 then InitialNode ''start'' else FinalNode ''done''),
     g_edges := [(0, [4])]\<rparr>"

theorem merge_free_completes_witness:
  "x_tokens (fst (run_to_completion example_engine small_graph
      (fst (initialize example_engine small_graph (new_executor example_context 1))))) = []"
proof -
  let ?e = "fst (initialize example_engine small_graph (new_executor example_context 1))"
  have "x_state (fst (run_to_completion example_engine small_graph ?e)) = StateCompleted
    \<longleftrightarrow> x_tokens (fst (run_to_completion example_engine small_graph ?e)) = []"
  proof (rule merge_free_completes)
    show "reachable example_engine small_graph ?e" by (intro reachable.intros)
    show "merge_free small_graph" by (simp add: merge_free_def small_graph_def)
    show "x_tokens ?e \<noteq> []" by (simp add: exec_defs small_graph_def example_defs)
  qed
  moreover have "x_state (fst (run_to_completion example_engine small_graph ?e)) = StateCompleted"
    by code_simp
  ultimately show ?thesis by simp
qed

text \<open>
  C8. When the last token of a running action reaches a merge that has been passed already, it is
  discarded and the run then spends its whole budget of steps on no token at all: it ends with
  the step limit error, not completed.\<close>

theorem merge_discard_spins:
  assumes "x_tokens e = [t]" "g_node g (ft_loc t) = MergeNode nm" "ft_loc t \<in> set (x_merge_visited e)"
    "x_state e = StateRunning" "x_breakpoints e = []" "0 < rc_max_action_steps (x_ctx e)"
  shows "\<exists>e'. run_to_completion eng g e = (e', Some (ErrActionStepLimitExceeded (rc_max_action_steps (x_ctx e))))
    \<and> x_tokens e' = [] \<and> x_state e' = StateRunning
    \<and> x_step_count e' = x_step_count e + rc_max_action_steps (x_ctx e)"
proof -
  let ?m = "rc_max_action_steps (x_ctx e)" and ?e0 = "begin_run eng e"
  let ?e1 = "?e0\<lparr>x_paused_at := []\<rparr>"
  have e1: "x_tokens ?e1 = [t]" "x_merge_visited ?e1 = x_merge_visited e" "x_state ?e1 = StateRunning"
    "x_breakpoints ?e1 = []" "x_step_count ?e1 = x_step_count e" "rc_max_action_steps (x_ctx ?e0) = ?m"
    using assms by (simp_all add: begin_run_def Let_def)
  have bp: "breakpoint_hit g ?e1 = ([], ?e1)" using e1(4) by (simp add: breakpoint_hit_def)
  obtain e2 where st: "step eng g ?e1 = (e2, None)" "x_tokens e2 = []" "x_state e2 = StateRunning"
    "x_step_count e2 = x_step_count e + 1"
    using e1 assms(2,3)
    by (simp add: step_def bracket_run_def step_body_def resume_def begin_run_def end_run_def Let_def ok_def
        and_then_def step_token_def loc_of_def step_merge_node_def delete_at_def finish_step_def
        progress_made_def record_step_def split: option.splits)
  obtain e3 where "run_loop eng g ?m (0 + 1) e2 = (e3, Some (ErrActionStepLimitExceeded ?m))"
    "x_step_count e3 = x_step_count e2 + (?m - 1)" "x_state e3 = StateRunning" "x_tokens e3 = []"
    using run_loop_without_tokens [OF st(2,3), of "0 + 1" ?m eng g] assms(6) by auto
  then have "run_loop eng g ?m 0 ?e1 = (e3, Some (ErrActionStepLimitExceeded ?m))"
    using e1(3) bp st assms(6) by (subst run_loop.simps) auto
  then show ?thesis
    using e1 st(4) \<open>x_step_count e3 = _\<close> \<open>x_state e3 = _\<close> \<open>x_tokens e3 = _\<close>
    by (simp add: run_to_completion_def bracket_run_def Let_def end_run_def)
qed

text \<open>The example graph gets there: the short branch passes the merge and finishes first.\<close>

theorem merge_discard_spins_witness:
  "snd (run_to_completion example_engine example_graph
      ((example_executor [(3, 2)])\<lparr>x_merge_visited := [2]\<rparr>)) = Some (ErrActionStepLimitExceeded 9)"
proof -
  let ?e = "(example_executor [(3, 2)])\<lparr>x_merge_visited := [2]\<rparr>"
  have "\<exists>e'. run_to_completion example_engine example_graph ?e
      = (e', Some (ErrActionStepLimitExceeded (rc_max_action_steps (x_ctx ?e))))
    \<and> x_tokens e' = [] \<and> x_state e' = StateRunning
    \<and> x_step_count e' = x_step_count ?e + rc_max_action_steps (x_ctx ?e)"
    by (rule merge_discard_spins [where t = "\<lparr>ft_id = 3, ft_loc = 2, ft_wait = None\<rparr>" and nm = "''m''"])
      (simp_all add: example_defs)
  then show ?thesis by (auto simp: example_defs)
qed

end
