(* ===== verification/Heap.thy ===== *)
theory Heap
  imports Prelude "HOL-Library.Multiset"
begin

text \<open>
  The operations of Go's \<open>container/heap\<close> on a slice, with the order given by a key into a linear
  order: \<open>up\<close>, \<open>down\<close>, \<open>Init\<close>, \<open>Push\<close>, \<open>Pop\<close>, and the heap invariant they keep. Also the contract of
  a pool of prioritised items as a locale, with the order in which draining it serves them.
\<close>

section \<open>Indices\<close>

definition par :: "nat \<Rightarrow> nat" where
  "par k = (k - 1) div 2"

lemma par_children: "0 < k \<Longrightarrow> par k = i \<longleftrightarrow> k = 2 * i + 1 \<or> k = 2 * i + 2"
  unfolding par_def by presburger

lemma par_less: "0 < k \<Longrightarrow> par k < k"
  unfolding par_def by presburger

definition swap :: "'a list \<Rightarrow> nat \<Rightarrow> nat \<Rightarrow> 'a list" where
  "swap xs i j = xs[i := xs ! j, j := xs ! i]"

lemma length_swap [simp]: "length (swap xs i j) = length xs"
  by (simp add: swap_def)

lemma mset_swap_items: "i < length xs \<Longrightarrow> j < length xs \<Longrightarrow> mset (swap xs i j) = mset xs"
  by (simp add: swap_def mset_swap)

lemma nth_swap: "i < length xs \<Longrightarrow> j < length xs \<Longrightarrow>
    swap xs i j ! k = (if k = j then xs ! i else if k = i then xs ! j else xs ! k)"
  by (simp add: swap_def nth_list_update)

section \<open>The operations\<close>

function heap_up :: "('a \<Rightarrow> 'a \<Rightarrow> bool) \<Rightarrow> 'a list \<Rightarrow> nat \<Rightarrow> 'a list" where
  "heap_up lt xs j =
     (if par j = j \<or> \<not> lt (xs ! j) (xs ! par j) then xs else heap_up lt (swap xs (par j) j) (par j))"
  by pat_completeness auto
termination
  by (relation "measure (\<lambda>(lt, xs, j). j)") (auto simp: par_def)

declare heap_up.simps [simp del]

definition least_child :: "('a \<Rightarrow> 'a \<Rightarrow> bool) \<Rightarrow> 'a list \<Rightarrow> nat \<Rightarrow> nat \<Rightarrow> nat" where
  "least_child lt xs i n =
     (if 2 * i + 2 < n \<and> lt (xs ! (2 * i + 2)) (xs ! (2 * i + 1)) then 2 * i + 2 else 2 * i + 1)"

function heap_down :: "('a \<Rightarrow> 'a \<Rightarrow> bool) \<Rightarrow> 'a list \<Rightarrow> nat \<Rightarrow> nat \<Rightarrow> 'a list" where
  "heap_down lt xs i n =
     (if 2 * i + 1 \<ge> n \<or> \<not> lt (xs ! least_child lt xs i n) (xs ! i) then xs
      else heap_down lt (swap xs i (least_child lt xs i n)) (least_child lt xs i n) n)"
  by pat_completeness auto
termination
  by (relation "measure (\<lambda>(lt, xs, i, n). n - i)") (auto simp: least_child_def)

declare heap_down.simps [simp del]

text \<open>\<open>Init\<close>: \<open>down\<close> from the last parent to the root.\<close>

fun heap_init_from :: "('a \<Rightarrow> 'a \<Rightarrow> bool) \<Rightarrow> nat \<Rightarrow> 'a list \<Rightarrow> 'a list" where
  "heap_init_from lt 0 xs = xs"
| "heap_init_from lt (Suc i) xs = heap_init_from lt i (heap_down lt xs i (length xs))"

definition heap_init :: "('a \<Rightarrow> 'a \<Rightarrow> bool) \<Rightarrow> 'a list \<Rightarrow> 'a list" where
  "heap_init lt xs = heap_init_from lt (length xs div 2) xs"

definition heap_push :: "('a \<Rightarrow> 'a \<Rightarrow> bool) \<Rightarrow> 'a \<Rightarrow> 'a list \<Rightarrow> 'a list" where
  "heap_push lt x xs = heap_up lt (xs @ [x]) (length xs)"

definition heap_pop :: "('a \<Rightarrow> 'a \<Rightarrow> bool) \<Rightarrow> 'a list \<Rightarrow> 'a \<times> 'a list" where
  "heap_pop lt xs =
     (let n = length xs - 1; ys = heap_down lt (swap xs 0 n) 0 n in (last ys, butlast ys))"

section \<open>The items stay the same\<close>

lemma heap_up_mset: "j < length xs \<Longrightarrow> mset (heap_up lt xs j) = mset xs \<and> length (heap_up lt xs j) = length xs"
proof (induction lt xs j rule: heap_up.induct)
  case (1 lt xs j)
  show ?case
  proof (cases "par j = j \<or> \<not> lt (xs ! j) (xs ! par j)")
    case False
    then have "par j < j" using par_less [of j] by (cases j) (auto simp: par_def)
    then show ?thesis
      using 1 False by (subst (1 2) heap_up.simps) (simp add: mset_swap_items)
  qed (subst (1 2) heap_up.simps, simp)
qed

lemma least_child_bounds:
  "2 * i + 1 < n \<Longrightarrow> i < least_child lt xs i n \<and> least_child lt xs i n < n"
  by (simp add: least_child_def)

lemma heap_down_keeps:
  "n \<le> length xs \<Longrightarrow> mset (heap_down lt xs i n) = mset xs \<and> length (heap_down lt xs i n) = length xs
    \<and> (\<forall>k \<ge> n. heap_down lt xs i n ! k = xs ! k) \<and> (\<forall>k < i. heap_down lt xs i n ! k = xs ! k)"
proof (induction lt xs i n rule: heap_down.induct)
  case (1 lt xs i n)
  let ?j = "least_child lt xs i n"
  show ?case
  proof (cases "2 * i + 1 \<ge> n \<or> \<not> lt (xs ! ?j) (xs ! i)")
    case False
    then have j: "i < ?j" "?j < n" using least_child_bounds [of i n lt xs] by auto
    have eq: "heap_down lt xs i n = heap_down lt (swap xs i ?j) ?j n"
      using False by (subst heap_down.simps) simp
    have "mset (swap xs i ?j) = mset xs" using j 1(2) by (intro mset_swap_items) auto
    moreover have "\<forall>k. k \<ge> n \<or> k < i \<longrightarrow> swap xs i ?j ! k = xs ! k"
      using j 1(2) by (auto simp: nth_swap)
    ultimately show ?thesis using 1(1) [OF False] 1(2) j eq by simp
  qed (subst (1 2 3 4) heap_down.simps, simp)
qed

section \<open>The heap invariant\<close>

definition heap_from :: "('a \<Rightarrow> 'k::linorder) \<Rightarrow> nat \<Rightarrow> nat \<Rightarrow> 'a list \<Rightarrow> bool" where
  "heap_from key lo n xs \<longleftrightarrow>
     (\<forall>k. 0 < k \<and> k < n \<and> lo \<le> par k \<longrightarrow> key (xs ! par k) \<le> key (xs ! k))"

abbreviation is_heap :: "('a \<Rightarrow> 'k::linorder) \<Rightarrow> 'a list \<Rightarrow> bool" where
  "is_heap key xs \<equiv> heap_from key 0 (length xs) xs"

abbreviation by_key :: "('a \<Rightarrow> 'k::linorder) \<Rightarrow> 'a \<Rightarrow> 'a \<Rightarrow> bool" where
  "by_key key \<equiv> \<lambda>x y. key x < key y"

lemma heap_root_least:
  assumes "heap_from key 0 n xs" "k < n"
  shows "key (xs ! 0) \<le> key (xs ! k)"
  using assms(2)
proof (induction k rule: less_induct)
  case (less k)
  show ?case
  proof (cases "k = 0")
    case False
    then have "key (xs ! 0) \<le> key (xs ! par k)" using less par_less [of k] by simp
    also have "\<dots> \<le> key (xs ! k)" using assms(1) less(2) False by (simp add: heap_from_def)
    finally show ?thesis .
  qed simp
qed

text \<open>What holds while an item rises, or sinks: the order everywhere but at its place.\<close>

lemma heap_up_is_heap:
  assumes "j < length xs"
    "\<forall>k. 0 < k \<and> k < length xs \<and> k \<noteq> j \<longrightarrow> key (xs ! par k) \<le> key (xs ! k)"
    "\<forall>k. 0 < k \<and> k < length xs \<and> par k = j \<and> 0 < j \<longrightarrow> key (xs ! par j) \<le> key (xs ! k)"
  shows "is_heap key (heap_up (by_key key) xs j)"
  using assms
proof (induction "by_key key" xs j rule: heap_up.induct)
  case (1 xs j)
  show ?case
  proof (cases "par j = j \<or> \<not> key (xs ! j) < key (xs ! par j)")
    case True
    have root: "par k = k \<Longrightarrow> k = 0" for k by (cases "k = 0") (use par_less [of k] in auto)
    have "key (xs ! par k) \<le> key (xs ! k)" if "0 < k" "k < length xs" for k
      using True root [of j] 1(3) that by (cases "k = j") auto
    then have "is_heap key xs" by (simp add: heap_from_def)
    moreover have "heap_up (by_key key) xs j = xs"
      using True by (subst heap_up.simps) simp
    ultimately show ?thesis by simp
  next
    case False
    then have j: "0 < j" by (cases j) (auto simp: par_def)
    let ?i = "par j" and ?ys = "swap xs (par j) j"
    have ij: "?i < j" using par_less [OF j] .
    have nth: "?ys ! k = (if k = j then xs ! ?i else if k = ?i then xs ! j else xs ! k)" for k
      using ij 1(2) by (simp add: nth_swap)
    have lt: "key (xs ! j) < key (xs ! ?i)" using False by simp
    have below: "key (?ys ! par k) \<le> key (?ys ! k)" if k: "0 < k" "k < length xs" "k \<noteq> ?i" for k
    proof -
      have "par k < k" using par_less [OF k(1)] .
      consider "k = j" | "par k = j" | "par k = ?i" "k \<noteq> j" | "par k \<noteq> j" "par k \<noteq> ?i" "k \<noteq> j" by blast
      then show ?thesis
      proof cases
        case 1
        with lt ij show ?thesis by (simp add: nth)
      next
        case 2
        with \<open>par k < k\<close> k 1(4) j ij show ?thesis by (auto simp: nth)
      next
        case 3
        then have "key (xs ! ?i) \<le> key (xs ! k)" using 1(3) k by metis
        with 3 k(3) lt ij show ?thesis by (auto simp: nth)
      next
        case 4
        with 1(3) k show ?thesis by (simp add: nth)
      qed
    qed
    have above: "key (?ys ! par ?i) \<le> key (?ys ! k)" if k: "0 < k" "k < length xs" "par k = ?i" "0 < ?i" for k
    proof -
      have p: "par ?i < ?i" using par_less [OF k(4)] .
      have up: "key (xs ! par ?i) \<le> key (xs ! ?i)" using 1(3) k(4) ij 1(2) by auto
      show ?thesis
      proof (cases "k = j")
        case True
        with up p ij show ?thesis by (simp add: nth)
      next
        case False
        then have "key (xs ! ?i) \<le> key (xs ! k)" using 1(3) k by metis
        moreover have "k \<noteq> ?i" using par_less [OF k(1)] k(3) by simp
        ultimately show ?thesis using up p ij False by (simp add: nth)
      qed
    qed
    have "is_heap key (heap_up (by_key key) ?ys ?i)"
      by (rule 1(1)) (use False ij 1(2) below above in auto)
    moreover have "heap_up (by_key key) xs j = heap_up (by_key key) ?ys ?i"
      using False by (subst heap_up.simps) simp
    ultimately show ?thesis by simp
  qed
qed

lemma heap_down_from:
  assumes "n \<le> length xs" "lo \<le> i"
    "\<forall>k. 0 < k \<and> k < n \<and> lo \<le> par k \<and> par k \<noteq> i \<longrightarrow> key (xs ! par k) \<le> key (xs ! k)"
    "\<forall>k. 0 < k \<and> k < n \<and> par k = i \<and> 0 < i \<and> lo \<le> par i \<longrightarrow> key (xs ! par i) \<le> key (xs ! k)"
  shows "heap_from key lo n (heap_down (by_key key) xs i n)"
  using assms
proof (induction "by_key key" xs i n rule: heap_down.induct)
  case (1 xs i n)
  let ?j = "least_child (by_key key) xs i n"
  have kids: "key (xs ! ?j) \<le> key (xs ! k)" if "0 < k" "k < n" "par k = i" for k
    using that unfolding par_children [OF that(1)] by (auto simp: least_child_def)
  show ?case
  proof (cases "2 * i + 1 \<ge> n \<or> \<not> key (xs ! ?j) < key (xs ! i)")
    case True
    have "key (xs ! par k) \<le> key (xs ! k)" if k: "0 < k" "k < n" "lo \<le> par k" for k
    proof (cases "par k = i")
      case True': True
      then have "\<not> 2 * i + 1 \<ge> n" using k(2) par_children [OF k(1), of i] by auto
      with True kids [OF k(1,2) True'] True' show ?thesis by simp
    qed (use 1(4) k in simp)
    then have "heap_from key lo n xs" by (simp add: heap_from_def)
    with True show ?thesis by (subst heap_down.simps) simp
  next
    case False
    then have j: "i < ?j" "?j < n" using least_child_bounds [of i n "by_key key" xs] by auto
    have pj: "par ?j = i" using j by (simp add: par_children) (simp add: least_child_def)
    let ?ys = "swap xs i ?j"
    have nth: "?ys ! k = (if k = ?j then xs ! i else if k = i then xs ! ?j else xs ! k)" for k
      using j 1(2) by (simp add: nth_swap)
    have lt: "key (xs ! ?j) < key (xs ! i)" using False by simp
    have rest: "key (?ys ! par k) \<le> key (?ys ! k)"
      if k: "0 < k" "k < n" "lo \<le> par k" "par k \<noteq> ?j" for k
    proof -
      have "par k < k" using par_less [OF k(1)] .
      consider "k = ?j" | "k = i" | "par k = i" "k \<noteq> ?j" "k \<noteq> i" | "par k \<noteq> i" "k \<noteq> ?j" "k \<noteq> i" by blast
      then show ?thesis
      proof cases
        case 1
        with pj lt j show ?thesis by (simp add: nth)
      next
        case 2
        then have "key (xs ! par i) \<le> key (xs ! ?j)" using 1(5) k j pj by auto
        with 2 \<open>par k < k\<close> j show ?thesis by (simp add: nth)
      next
        case 3
        with kids [OF k(1,2)] j \<open>par k < k\<close> show ?thesis by (simp add: nth)
      next
        case 4
        with 1(4) k show ?thesis by (simp add: nth)
      qed
    qed
    have under: "key (?ys ! par ?j) \<le> key (?ys ! k)" if k: "0 < k" "k < n" "par k = ?j" for k
    proof -
      have "key (xs ! ?j) \<le> key (xs ! k)" using 1(3,4) k j pj by auto
      moreover have "?j < k" using par_less [OF k(1)] k(3) by simp
      ultimately show ?thesis using pj j by (simp add: nth)
    qed
    have "heap_from key lo n (heap_down (by_key key) ?ys ?j n)"
      by (rule 1(1)) (use False j 1(2,3) rest under in auto)
    with False show ?thesis by (subst heap_down.simps) simp
  qed
qed

lemma heap_push_is_heap:
  assumes "is_heap key xs"
  shows "is_heap key (heap_push (by_key key) x xs)"
  unfolding heap_push_def
proof (rule heap_up_is_heap)
  show "\<forall>k. 0 < k \<and> k < length (xs @ [x]) \<and> k \<noteq> length xs \<longrightarrow> key ((xs @ [x]) ! par k) \<le> key ((xs @ [x]) ! k)"
  proof (intro allI impI, elim conjE)
    fix k assume "0 < k" "k < length (xs @ [x])" "k \<noteq> length xs"
    moreover have "par k < k" using par_less [OF \<open>0 < k\<close>] .
    ultimately show "key ((xs @ [x]) ! par k) \<le> key ((xs @ [x]) ! k)"
      using assms by (simp add: heap_from_def nth_append)
  qed
  show "\<forall>k. 0 < k \<and> k < length (xs @ [x]) \<and> par k = length xs \<and> 0 < length xs \<longrightarrow>
      key ((xs @ [x]) ! par (length xs)) \<le> key ((xs @ [x]) ! k)"
  proof (intro allI impI, elim conjE)
    fix k assume "0 < k" "k < length (xs @ [x])" "par k = length xs"
    then show "key ((xs @ [x]) ! par (length xs)) \<le> key ((xs @ [x]) ! k)"
      using par_less [OF \<open>0 < k\<close>] by simp
  qed
qed simp

lemma heap_push_mset: "mset (heap_push lt x xs) = add_mset x (mset xs)"
  unfolding heap_push_def using heap_up_mset [of "length xs" "xs @ [x]" lt] by simp

lemma heap_pop_spec:
  assumes "is_heap key xs" "xs \<noteq> []" "heap_pop (by_key key) xs = (x, ys)"
  shows "x = xs ! 0" "mset xs = add_mset x (mset ys)" "is_heap key ys" "\<forall>y \<in> set xs. key x \<le> key y"
proof -
  define n where "n = length xs - 1"
  define zs where "zs = heap_down (by_key key) (swap xs 0 n) 0 n"
  have n: "n < length xs" "length xs = Suc n" using assms(2) by (auto simp: n_def)
  have keep: "mset zs = mset (swap xs 0 n)" "length zs = length xs" "zs ! n = swap xs 0 n ! n"
    using heap_down_keeps [of n "swap xs 0 n" "by_key key" 0] n by (auto simp: zs_def)
  have xy: "x = last zs" "ys = butlast zs"
    using assms(3) by (auto simp: heap_pop_def n_def zs_def Let_def)
  have "zs \<noteq> []" using keep(2) n by auto
  then have "last zs = zs ! n" using keep(2) n by (simp add: last_conv_nth)
  then show x: "x = xs ! 0" using xy keep(3) n by (simp add: nth_swap)
  have "mset zs = mset xs" unfolding keep(1) using n by (intro mset_swap_items) auto
  moreover have "mset zs = mset (butlast zs @ [last zs])" using \<open>zs \<noteq> []\<close> by simp
  ultimately have "mset xs = mset (butlast zs @ [last zs])" by (rule trans [OF sym])
  then show "mset xs = add_mset x (mset ys)" by (simp add: xy)
  have nth: "swap xs 0 n ! k = xs ! k" if "0 < k" "k < n" for k using that n by (simp add: nth_swap)
  have "heap_from key 0 n zs"
    unfolding zs_def
  proof (rule heap_down_from)
    show "\<forall>k. 0 < k \<and> k < n \<and> 0 \<le> par k \<and> par k \<noteq> 0 \<longrightarrow> key (swap xs 0 n ! par k) \<le> key (swap xs 0 n ! k)"
    proof (intro allI impI, elim conjE)
      fix k assume "0 < k" "k < n" "par k \<noteq> 0"
      moreover have "par k < k" using par_less [OF \<open>0 < k\<close>] .
      ultimately show "key (swap xs 0 n ! par k) \<le> key (swap xs 0 n ! k)"
        using assms(1) n nth by (simp add: heap_from_def)
    qed
  qed (use n in auto)
  moreover have "ys ! k = zs ! k" if "k < n" for k using that xy keep(2) n by (simp add: nth_butlast)
  moreover have "length ys = n" using xy keep(2) n by simp
  ultimately show "is_heap key ys"
    unfolding heap_from_def by (metis less_trans par_less)
  show "\<forall>y \<in> set xs. key x \<le> key y"
    using heap_root_least [OF assms(1)] x by (auto simp: in_set_conv_nth)
qed

lemma heap_init_from_heap:
  "heap_from key i (length xs) xs \<Longrightarrow> i \<le> length xs \<Longrightarrow>
    is_heap key (heap_init_from (by_key key) i xs) \<and> mset (heap_init_from (by_key key) i xs) = mset xs"
proof (induction i arbitrary: xs)
  case (Suc i)
  let ?ys = "heap_down (by_key key) xs i (length xs)"
  have keep: "mset ?ys = mset xs" "length ?ys = length xs"
    using heap_down_keeps [of "length xs" xs "by_key key" i] by auto
  have "heap_from key i (length xs) ?ys"
  proof (rule heap_down_from)
    show "\<forall>k. 0 < k \<and> k < length xs \<and> par k = i \<and> 0 < i \<and> i \<le> par i \<longrightarrow> key (xs ! par i) \<le> key (xs ! k)"
      using par_less [of i] by auto
  qed (use Suc(2) in \<open>auto simp: heap_from_def\<close>)
  then show ?case using Suc keep by simp
qed simp

lemma heap_init_spec: "is_heap key (heap_init (by_key key) xs)" "mset (heap_init (by_key key) xs) = mset xs"
proof -
  have "heap_from key (length xs div 2) (length xs) xs"
    by (auto simp: heap_from_def par_def)
  then show "is_heap key (heap_init (by_key key) xs)" "mset (heap_init (by_key key) xs) = mset xs"
    using heap_init_from_heap [of key "length xs div 2" xs] by (simp_all add: heap_init_def)
qed

section \<open>The contract of a pool of prioritised items\<close>

text \<open>Taking the items out one after the other.\<close>

primrec drain :: "('q \<Rightarrow> 'a \<times> 'q) \<Rightarrow> nat \<Rightarrow> 'q \<Rightarrow> 'a list" where
  "drain pop 0 q = []"
| "drain pop (Suc n) q = (case pop q of (x, q') \<Rightarrow> x # drain pop n q')"

locale priority_pool =
  fixes pop :: "'q \<Rightarrow> 'a \<times> 'q"
    and items :: "'q \<Rightarrow> 'a multiset"
    and good :: "'q \<Rightarrow> bool"
    and key :: "'a \<Rightarrow> 'k::linorder"
  assumes pop_least: "good q \<Longrightarrow> items q \<noteq> {#} \<Longrightarrow> pop q = (x, q') \<Longrightarrow>
      good q' \<and> items q = add_mset x (items q') \<and> (\<forall>y \<in># items q. key x \<le> key y)"
begin

lemma drained:
  "good q \<Longrightarrow> n = size (items q) \<Longrightarrow> mset (drain pop n q) = items q \<and> sorted (map key (drain pop n q))"
proof (induction n arbitrary: q)
  case (Suc n)
  obtain x q' where p: "pop q = (x, q')" by force
  have "items q \<noteq> {#}" using Suc(3) by auto
  from pop_least [OF Suc(2) this p] have q': "good q'" "items q = add_mset x (items q')"
    "\<forall>y \<in># items q. key x \<le> key y" by auto
  with Suc(3) have IH: "mset (drain pop n q') = items q'" "sorted (map key (drain pop n q'))"
    using Suc(1) [OF q'(1)] by auto
  have "\<forall>y \<in> set (drain pop n q'). key x \<le> key y"
    using q'(2,3) IH(1) by (metis insert_iff set_mset_add_mset_insert set_mset_mset)
  with p q' IH show ?case by simp
qed simp

end

end
