(* ===== verification/State_Graph.thy ===== *)
theory State_Graph
  imports Prelude "HOL-Library.AList"
begin

text \<open>
  The execution graph of a state machine, \<open>internal/core/lower/state_graph.go\<close>, and the
  questions the executor asks it that depend on nothing else: ancestors, lowest common ancestors,
  paths into regions (\<open>state_executor.go\<close>, \<open>state_region_transition.go\<close>). The code compares
  node pointers; here a state is its index in \<open>graph.States\<close> and a pseudostate its index in
  \<open>graph.Pseudostates\<close>, a region and a transition are identities. An expression \<open>'e\<close> stands for
  the syntax node with the scope its names resolve in, a statement \<open>'s\<close> for a lowered statement.
\<close>

type_synonym sid = nat
type_synonym rid = nat
type_synonym psid = nat
type_synonym tid = nat

section \<open>Vertices, triggers and transitions\<close>

datatype vertex = StateV sid | PseudoV psid | NoVertex

datatype pseudostate_kind =
    PseudostateChoice | PseudostateJunction | PseudostateFork | PseudostateJoin
  | PseudostateEntry | PseudostateExit | PseudostateShallowHistory | PseudostateDeepHistory

text \<open>
  Triggers: a time event with its duration and whether it names an instant; a change event with
  its condition; an accept with the name of its payload, its signal type and the event it
  subsets, each the simple name and empty when there is none; a call with operation and
  parameters.
\<close>

datatype 'e event_trigger =
    TimeTrigger 'e bool
  | ChangeTrigger 'e
  | AcceptTrigger string string string
  | CallTrigger string "string list"
  | UnknownTrigger string

record 's state_behavior =
  sb_name :: string
  sb_body :: "'s list"

record ('e, 's) transition =
  tr_id :: tid
  tr_name :: string
  tr_source :: vertex
  tr_target :: vertex
  tr_trigger :: "'e event_trigger option"
  tr_guard :: "'e option"
  tr_effect :: "'s state_behavior list"
  tr_via :: string

text \<open>
  \<open>ast.TransitionEdge\<close> as an event's payload: the last segments of its endpoints, and what it
  carries.
\<close>

record ('e, 's) transition_edge =
  te_source :: "string option"
  te_target :: "string option"
  te_trigger :: "'e event_trigger option"
  te_guard :: "'e option"
  te_effect :: "'s state_behavior list"

record 's state_behaviors =
  bh_entry :: "'s state_behavior list"
  bh_do :: "'s state_behavior list"
  bh_exit :: "'s state_behavior list"

record state_node =
  sn_name :: string
  sn_final :: bool

record pseudostate =
  ps_kind :: pseudostate_kind
  ps_name :: string

text \<open>
  The graph. A Go map whose keys are only looked up is a function to options; one whose emptiness
  is asked is an association list.
\<close>

record ('e, 's) state_graph =
  sg_machine :: string
  sg_nodes :: "state_node list"
  sg_pseudos :: "pseudostate list"
  sg_pseudo_owner :: "psid \<Rightarrow> sid option"
  sg_out :: "vertex \<Rightarrow> ('e, 's) transition list"
  sg_composite :: "sid \<Rightarrow> rid list option"
  sg_region_initials :: "(rid \<times> sid) list"
  sg_region_name :: "rid \<Rightarrow> string"
  sg_parent :: "sid \<Rightarrow> sid option"
  sg_region_owner :: "rid \<Rightarrow> sid option"
  sg_region_of :: "sid \<Rightarrow> rid option"
  sg_deferred :: "sid \<Rightarrow> 'e event_trigger list"
  sg_top :: "rid list"
  sg_initial :: "sid option"
  sg_behaviors :: "sid \<Rightarrow> 's state_behaviors"
  sg_attributes :: "(string \<times> 'e) list"

definition states_of :: "('e, 's) state_graph \<Rightarrow> sid list" where
  "states_of g = [0..<length (sg_nodes g)]"

definition state_name :: "('e, 's) state_graph \<Rightarrow> sid \<Rightarrow> string" where
  "state_name g s = sn_name (sg_nodes g ! s)"

definition is_final :: "('e, 's) state_graph \<Rightarrow> sid \<Rightarrow> bool" where
  "is_final g s \<longleftrightarrow> sn_final (sg_nodes g ! s)"

text \<open>\<open>CompositeStates[state]\<close> where a missing entry reads as no regions.\<close>

definition regions_of :: "('e, 's) state_graph \<Rightarrow> sid \<Rightarrow> rid list" where
  "regions_of g s = (case sg_composite g s of Some rs \<Rightarrow> rs | None \<Rightarrow> [])"

text \<open>\<open>getNodeName\<close>, \<open>orAny\<close>, \<open>transitionDescription\<close>, \<open>triggerName\<close> and \<open>triggerDescription\<close>.\<close>

definition node_name :: "('e, 's) state_graph \<Rightarrow> vertex \<Rightarrow> string" where
  "node_name g v = (case v of StateV s \<Rightarrow> state_name g s | PseudoV p \<Rightarrow> ps_name (sg_pseudos g ! p) | NoVertex \<Rightarrow> [])"

definition or_any :: "string \<Rightarrow> string" where
  "or_any s = (if s = [] then ''any'' else s)"

definition transition_description :: "('e, 's) state_graph \<Rightarrow> ('e, 's) transition \<Rightarrow> string" where
  "transition_description g tr =
     (if tr_name tr \<noteq> [] then ''transition '' @ tr_name tr
      else ''transition '' @ or_any (node_name g (tr_source tr)) @ '' -> '' @ or_any (node_name g (tr_target tr)))"

definition trigger_name :: "'e event_trigger option \<Rightarrow> string" where
  "trigger_name t = (case t of
     None \<Rightarrow> []
   | Some (AcceptTrigger _ signal _) \<Rightarrow> ''accept '' @ or_any signal
   | Some (CallTrigger op _) \<Rightarrow> ''call '' @ or_any op
   | Some (TimeTrigger _ _) \<Rightarrow> ''time''
   | Some (ChangeTrigger _) \<Rightarrow> ''change''
   | Some (UnknownTrigger ty) \<Rightarrow> ty)"

definition is_time_trigger :: "('e, 's) transition \<Rightarrow> bool" where
  "is_time_trigger tr = (case tr_trigger tr of Some (TimeTrigger _ _) \<Rightarrow> True | _ \<Rightarrow> False)"

definition is_change_trigger :: "('e, 's) transition \<Rightarrow> bool" where
  "is_change_trigger tr = (case tr_trigger tr of Some (ChangeTrigger _) \<Rightarrow> True | _ \<Rightarrow> False)"

section \<open>Ancestors\<close>

text \<open>
  The loop of \<open>getParentChain\<close>. \<open>collectStates\<close> appends a state to \<open>graph.States\<close> before the states
  declared in it, so a parent has a smaller index than its child, and the index of the state
  bounds the length of the walk.
\<close>

primrec climb_from :: "(sid \<Rightarrow> sid option) \<Rightarrow> nat \<Rightarrow> sid \<Rightarrow> sid list" where
  "climb_from par 0 s = [s]"
| "climb_from par (Suc n) s = s # (case par s of None \<Rightarrow> [] | Some p \<Rightarrow> climb_from par n p)"

definition parent_chain :: "('e, 's) state_graph \<Rightarrow> sid \<Rightarrow> sid list" where
  "parent_chain g s = climb_from (sg_parent g) s s"

definition root_to_leaf :: "('e, 's) state_graph \<Rightarrow> sid \<Rightarrow> sid list" where
  "root_to_leaf g s = rev (parent_chain g s)"

text \<open>\<open>for current := start; current != nil && current != stop; current = ParentState[current]\<close>.\<close>

definition climb :: "('e, 's) state_graph \<Rightarrow> sid option \<Rightarrow> sid option \<Rightarrow> sid list" where
  "climb g start stop = (case start of None \<Rightarrow> [] | Some s \<Rightarrow> takeWhile (\<lambda>x. Some x \<noteq> stop) (parent_chain g s))"

definition get_lca :: "('e, 's) state_graph \<Rightarrow> sid option \<Rightarrow> sid option \<Rightarrow> sid option" where
  "get_lca g a b = (case (a, b) of
     (Some x, Some y) \<Rightarrow> find (\<lambda>s. s \<in> set (parent_chain g x)) (parent_chain g y)
   | _ \<Rightarrow> None)"

definition nested_in :: "('e, 's) state_graph \<Rightarrow> sid \<Rightarrow> sid \<Rightarrow> bool" where
  "nested_in g s composite \<longleftrightarrow> composite \<in> set (tl (parent_chain g s))"

definition encloses :: "('e, 's) state_graph \<Rightarrow> sid \<Rightarrow> sid \<Rightarrow> bool" where
  "encloses g source target \<longleftrightarrow> source = target \<or> nested_in g target source"

definition is_below_or_equal :: "('e, 's) state_graph \<Rightarrow> sid \<Rightarrow> sid \<Rightarrow> bool" where
  "is_below_or_equal g s ancestor \<longleftrightarrow> ancestor \<in> set (parent_chain g s)"

definition descendant_chain :: "('e, 's) state_graph \<Rightarrow> sid option \<Rightarrow> sid \<Rightarrow> sid list" where
  "descendant_chain g ancestor leaf =
     (case ancestor of
        None \<Rightarrow> root_to_leaf g leaf
      | Some a \<Rightarrow> (if a \<in> set (parent_chain g leaf) then rev (takeWhile (\<lambda>s. s \<noteq> a) (parent_chain g leaf))
                   else [leaf]))"

section \<open>Regions\<close>

primrec first_some :: "('a \<Rightarrow> 'b option) \<Rightarrow> 'a list \<Rightarrow> 'b option" where
  "first_some f [] = None"
| "first_some f (a # as) = (case f a of Some b \<Rightarrow> Some b | None \<Rightarrow> first_some f as)"

definition region_contains :: "('e, 's) state_graph \<Rightarrow> rid \<Rightarrow> sid \<Rightarrow> bool" where
  "region_contains g r s \<longleftrightarrow> (\<exists>a \<in> set (parent_chain g s). sg_region_of g a = Some r)"

definition enclosing_region :: "('e, 's) state_graph \<Rightarrow> sid \<Rightarrow> rid option" where
  "enclosing_region g s = first_some (sg_region_of g) (parent_chain g s)"

definition siblings :: "('e, 's) state_graph \<Rightarrow> rid \<Rightarrow> rid list" where
  "siblings g r = (case sg_region_owner g r of Some owner \<Rightarrow> regions_of g owner | None \<Rightarrow> sg_top g)"

definition sibling_region_containing :: "('e, 's) state_graph \<Rightarrow> rid \<Rightarrow> sid \<Rightarrow> rid option" where
  "sibling_region_containing g r s = find (\<lambda>sib. sib \<noteq> r \<and> region_contains g sib s) (siblings g r)"

text \<open>The walk outwards over the region sets; one level per composite state, so states bound it.\<close>

primrec concurrent_regions_from :: "('e, 's) state_graph \<Rightarrow> nat \<Rightarrow> rid option \<Rightarrow> sid \<Rightarrow> (rid \<times> rid) option" where
  "concurrent_regions_from g 0 current target = None"
| "concurrent_regions_from g (Suc n) current target =
     (case current of
        None \<Rightarrow> None
      | Some r \<Rightarrow>
          (case sibling_region_containing g r target of
             Some sib \<Rightarrow> Some (r, sib)
           | None \<Rightarrow>
               (case sg_region_owner g r of
                  None \<Rightarrow> None
                | Some owner \<Rightarrow> concurrent_regions_from g n (enclosing_region g owner) target)))"

definition concurrent_regions_for :: "('e, 's) state_graph \<Rightarrow> rid \<Rightarrow> sid \<Rightarrow> (rid \<times> rid) option" where
  "concurrent_regions_for g r target = concurrent_regions_from g (Suc (length (sg_nodes g))) (Some r) target"

definition region_under :: "('e, 's) state_graph \<Rightarrow> sid \<Rightarrow> sid \<Rightarrow> rid option" where
  "region_under g s target =
     (case find (\<lambda>c. sg_parent g c = Some s) (parent_chain g target) of
        Some c \<Rightarrow> sg_region_of g c
      | None \<Rightarrow> None)"

text \<open>\<open>branchesTo\<close>: each region on the path with the deepest state of the path inside it.\<close>

fun branches_along :: "('e, 's) state_graph \<Rightarrow> rid option \<Rightarrow> sid list \<Rightarrow> (rid \<times> sid) list \<Rightarrow> (rid \<times> sid) list" where
  "branches_along g region [] br = br"
| "branches_along g region (s # ss) br =
     (let region' = (case sg_region_of g s of Some r \<Rightarrow> Some r | None \<Rightarrow> region)
      in branches_along g region' ss (case region' of Some r \<Rightarrow> AList.update r s br | None \<Rightarrow> br))"

definition branches_to :: "('e, 's) state_graph \<Rightarrow> sid option \<Rightarrow> sid \<Rightarrow> (rid \<times> sid) list" where
  "branches_to g from target = branches_along g None (descendant_chain g from target) []"

fun entry_plan_along :: "('e, 's) state_graph \<Rightarrow> sid \<Rightarrow> sid list \<Rightarrow> sid \<times> (rid \<times> sid) list" where
  "entry_plan_along g target (a # b # rest) =
     (if (case sg_region_of g b of Some r \<Rightarrow> sg_region_owner g r = Some a | None \<Rightarrow> False)
      then (a, branches_to g (Some a) target)
      else entry_plan_along g target (b # rest))"
| "entry_plan_along g target _ = (target, [])"

definition entry_plan :: "('e, 's) state_graph \<Rightarrow> sid option \<Rightarrow> sid \<Rightarrow> sid \<times> (rid \<times> sid) list" where
  "entry_plan g lca target = entry_plan_along g target (descendant_chain g lca target)"

text \<open>\<open>regionPath\<close>, \<open>lessPath\<close>: the order of concurrent states.\<close>

primrec index_in :: "'a \<Rightarrow> 'a list \<Rightarrow> nat option" where
  "index_in a [] = None"
| "index_in a (b # bs) = (if a = b then Some 0 else map_option Suc (index_in a bs))"

definition region_path :: "('e, 's) state_graph \<Rightarrow> sid \<Rightarrow> nat list" where
  "region_path g s = concat (map (\<lambda>a. case sg_region_of g a of
       None \<Rightarrow> []
     | Some r \<Rightarrow> (case index_in r (siblings g r) of Some i \<Rightarrow> [i] | None \<Rightarrow> [])) (rev (parent_chain g s)))"

fun less_path :: "nat list \<Rightarrow> nat list \<Rightarrow> bool" where
  "less_path [] b = (b \<noteq> [])"
| "less_path (x # a) [] = False"
| "less_path (x # a) (y # b) = (if x \<noteq> y then x < y else less_path a b)"

text \<open>\<open>transientPseudostate\<close> and \<open>isSynchronizationTarget\<close>.\<close>

definition transient_pseudostate :: "pseudostate_kind \<Rightarrow> bool" where
  "transient_pseudostate k \<longleftrightarrow>
     (case k of PseudostateChoice \<Rightarrow> True | PseudostateJunction \<Rightarrow> True | PseudostateEntry \<Rightarrow> True
      | PseudostateExit \<Rightarrow> True | _ \<Rightarrow> False)"

definition is_synchronization_target :: "('e, 's) state_graph \<Rightarrow> vertex \<Rightarrow> bool" where
  "is_synchronization_target g v \<longleftrightarrow>
     (case v of
        PseudoV p \<Rightarrow> (case ps_kind (sg_pseudos g ! p) of
            PseudostateFork \<Rightarrow> True | PseudostateJoin \<Rightarrow> True
          | PseudostateShallowHistory \<Rightarrow> True | PseudostateDeepHistory \<Rightarrow> True | _ \<Rightarrow> False)
      | _ \<Rightarrow> False)"

section \<open>Well-formed graphs\<close>

text \<open>
  What lowering establishes: a state is recorded after its parent, regions belong to the composite
  state that lists them, the states a region declares have its owner as their parent, and a
  region starts in a state it declares, and a transition is listed at its source, ends at a vertex of the
  graph and has an identity of its own.
\<close>

definition wf_graph :: "('e, 's) state_graph \<Rightarrow> bool" where
  "wf_graph g \<longleftrightarrow>
     (\<forall>s p. sg_parent g s = Some p \<longrightarrow> p < s \<and> s < length (sg_nodes g)) \<and>
     (\<forall>s r. sg_region_of g s = Some r \<longrightarrow> sg_region_owner g r = sg_parent g s) \<and>
     (\<forall>s r. r \<in> set (regions_of g s) \<longleftrightarrow> sg_region_owner g r = Some s) \<and>
     (\<forall>r. r \<in> set (sg_top g) \<longrightarrow> sg_region_owner g r = None) \<and>
     (\<forall>r s. map_of (sg_region_initials g) r = Some s \<longrightarrow> sg_region_of g s = Some r) \<and>
     (\<forall>v. \<forall>tr \<in> set (sg_out g v). tr_source tr = v
        \<and> (\<forall>q. tr_target tr = PseudoV q \<longrightarrow> q < length (sg_pseudos g))) \<and>
     (\<forall>v w. \<forall>t \<in> set (sg_out g v). \<forall>u \<in> set (sg_out g w). tr_id t = tr_id u \<longrightarrow> t = u)"

named_theorems wf_simps "consequences of a graph being well formed"

lemma wf_parent: "wf_graph g \<Longrightarrow> sg_parent g s = Some p \<Longrightarrow> p < s \<and> s < length (sg_nodes g)"
  by (auto simp: wf_graph_def)

lemma wf_region_owner: "wf_graph g \<Longrightarrow> sg_region_of g s = Some r \<Longrightarrow> sg_region_owner g r = sg_parent g s"
  by (simp add: wf_graph_def)

lemma wf_regions_of: "wf_graph g \<Longrightarrow> r \<in> set (regions_of g s) \<longleftrightarrow> sg_region_owner g r = Some s"
  by (simp add: wf_graph_def)

lemma wf_initial: "wf_graph g \<Longrightarrow> map_of (sg_region_initials g) r = Some s \<Longrightarrow> sg_region_of g s = Some r"
  by (simp add: wf_graph_def)

lemma wf_out_source: "wf_graph g \<Longrightarrow> tr \<in> set (sg_out g v) \<Longrightarrow> tr_source tr = v"
  by (simp add: wf_graph_def)

lemma wf_target: "wf_graph g \<Longrightarrow> tr \<in> set (sg_out g v) \<Longrightarrow> tr_target tr = PseudoV q \<Longrightarrow> q < length (sg_pseudos g)"
  by (simp add: wf_graph_def)

lemma wf_identity: "wf_graph g \<Longrightarrow> t \<in> set (sg_out g v) \<Longrightarrow> u \<in> set (sg_out g w) \<Longrightarrow> tr_id t = tr_id u \<Longrightarrow> t = u"
  unfolding wf_graph_def by blast

section \<open>Facts about ancestors\<close>

lemma climb_from_enough:
  assumes "\<And>s p. par s = Some p \<Longrightarrow> p < s" "s \<le> n"
  shows "climb_from par n s = climb_from par s s"
  using assms(2)
proof (induction n arbitrary: s rule: less_induct)
  case (less n)
  show ?case
  proof (cases n)
    case 0
    with less show ?thesis by simp
  next
    case (Suc k)
    show ?thesis
    proof (cases s)
      case 0
      then have "par s = None" using assms(1) by (cases "par s") auto
      with Suc 0 show ?thesis by simp
    next
      case (Suc j)
      have "climb_from par k p = climb_from par j p" if "par s = Some p" for p
      proof -
        have "p \<le> j" using assms(1) [OF that] Suc by simp
        moreover have "j \<le> k" using less.prems \<open>n = Suc k\<close> Suc by simp
        ultimately show ?thesis
          using less.IH [of k p] less.IH [of j p] less.prems \<open>n = Suc k\<close> Suc by simp
      qed
      then show ?thesis using \<open>n = Suc k\<close> Suc by (simp split: option.splits)
    qed
  qed
qed

lemma parent_chain_unfold:
  assumes "wf_graph g"
  shows "parent_chain g s = s # (case sg_parent g s of None \<Rightarrow> [] | Some p \<Rightarrow> parent_chain g p)"
proof (cases s)
  case 0
  then have "sg_parent g s = None" using wf_parent [OF assms, of s] by (cases "sg_parent g s") auto
  with 0 show ?thesis by (simp add: parent_chain_def)
next
  case (Suc k)
  have "climb_from (sg_parent g) k p = climb_from (sg_parent g) p p" if "sg_parent g s = Some p" for p
    using that wf_parent [OF assms that] Suc
    by (intro climb_from_enough) (auto dest: wf_parent [OF assms])
  with Suc show ?thesis by (simp add: parent_chain_def split: option.splits)
qed

lemma parent_chain_root: "wf_graph g \<Longrightarrow> sg_parent g s = None \<Longrightarrow> parent_chain g s = [s]"
  by (subst parent_chain_unfold) simp_all

lemma parent_chain_step: "wf_graph g \<Longrightarrow> sg_parent g s = Some p \<Longrightarrow> parent_chain g s = s # parent_chain g p"
  by (subst parent_chain_unfold) simp_all

lemma hd_parent_chain [simp]: "parent_chain g s \<noteq> []" "hd (parent_chain g s) = s"
  by (cases s; simp add: parent_chain_def)+

lemma self_in_parent_chain [simp]: "s \<in> set (parent_chain g s)"
  by (cases s) (simp_all add: parent_chain_def)

text \<open>Induction along the ancestors of a state.\<close>

lemma ancestor_induct:
  assumes "wf_graph g"
    and root: "\<And>s. sg_parent g s = None \<Longrightarrow> Q s"
    and child: "\<And>s p. sg_parent g s = Some p \<Longrightarrow> Q p \<Longrightarrow> Q s"
  shows "Q s"
proof (induction s rule: less_induct)
  case (less s)
  show ?case
    using root child less wf_parent [OF assms(1), of s] by (cases "sg_parent g s") auto
qed

lemma parent_chain_le:
  assumes "wf_graph g" "a \<in> set (parent_chain g s)"
  shows "a \<le> s"
  using assms(2)
proof (induction s rule: ancestor_induct [OF assms(1)])
  case (1 s)
  then show ?case by (simp add: parent_chain_root assms(1))
next
  case (2 s p)
  then show ?case using wf_parent [OF assms(1), of s p] by (auto simp: parent_chain_step assms(1))
qed

lemma parent_chain_split:
  assumes "wf_graph g" "a \<in> set (parent_chain g s)"
  shows "\<exists>below. parent_chain g s = below @ parent_chain g a \<and> a \<notin> set below"
  using assms(2)
proof (induction s rule: ancestor_induct [OF assms(1)])
  case (1 s)
  then have "a = s" by (simp add: parent_chain_root assms(1))
  then show ?case by (intro exI [of _ "[]"]) simp
next
  case (2 s p)
  show ?case
  proof (cases "a = s")
    case True
    then show ?thesis by (intro exI [of _ "[]"]) simp
  next
    case False
    with 2 obtain below where "parent_chain g p = below @ parent_chain g a" "a \<notin> set below"
      by (auto simp: parent_chain_step assms(1))
    with False 2(1) show ?thesis
      by (intro exI [of _ "s # below"]) (simp add: parent_chain_step assms(1))
  qed
qed

lemma ancestor_trans:
  assumes "wf_graph g" "a \<in> set (parent_chain g b)" "b \<in> set (parent_chain g s)"
  shows "a \<in> set (parent_chain g s)"
  using parent_chain_split [OF assms(1,3)] assms(2) by auto

lemma ancestor_linear:
  assumes "wf_graph g" "a \<in> set (parent_chain g s)" "b \<in> set (parent_chain g s)"
  shows "a \<in> set (parent_chain g b) \<or> b \<in> set (parent_chain g a)"
  using assms(2,3)
proof (induction s rule: ancestor_induct [OF assms(1)])
  case (1 s)
  then show ?case by (simp add: parent_chain_root assms(1))
next
  case (2 s p)
  then show ?case
    using ancestor_trans [OF assms(1)] by (auto simp: parent_chain_step assms(1))
qed

lemma ancestor_antisym:
  "wf_graph g \<Longrightarrow> a \<in> set (parent_chain g b) \<Longrightarrow> b \<in> set (parent_chain g a) \<Longrightarrow> a = b"
  by (meson le_antisym parent_chain_le)

lemma sorted_parent_chain:
  assumes "wf_graph g"
  shows "sorted_wrt (>) (parent_chain g s)"
proof (induction s rule: ancestor_induct [OF assms])
  case (1 s)
  then show ?case by (simp add: parent_chain_root assms)
next
  case (2 s p)
  have "a < s" if "a \<in> set (parent_chain g p)" for a
    using parent_chain_le [OF assms that] wf_parent [OF assms 2(1)] by simp
  with 2 show ?case by (simp add: parent_chain_step assms)
qed

lemma distinct_parent_chain: "wf_graph g \<Longrightarrow> distinct (parent_chain g s)"
  using sorted_parent_chain [of g s] by (auto simp: sorted_wrt_iff_nth_less distinct_conv_nth)
    (metis less_irrefl_nat linorder_neqE_nat)

lemma nested_in_iff: "wf_graph g \<Longrightarrow> nested_in g s c \<longleftrightarrow> c \<in> set (parent_chain g s) \<and> c \<noteq> s"
  using distinct_parent_chain [of g s] hd_parent_chain [of g s]
  by (cases "parent_chain g s") (auto simp: nested_in_def)

lemma encloses_iff: "wf_graph g \<Longrightarrow> encloses g a s \<longleftrightarrow> a \<in> set (parent_chain g s)"
  by (auto simp: encloses_def nested_in_iff)

lemma get_lca_None:
  "get_lca g (Some a) (Some b) = None \<longleftrightarrow> set (parent_chain g a) \<inter> set (parent_chain g b) = {}"
  by (auto simp: get_lca_def find_None_iff)

lemma get_lca_Some:
  assumes "wf_graph g"
  shows "get_lca g (Some a) (Some b) = Some c \<longleftrightarrow>
    c \<in> set (parent_chain g a) \<and> c \<in> set (parent_chain g b) \<and>
    (\<forall>d \<in> set (parent_chain g a) \<inter> set (parent_chain g b). d \<in> set (parent_chain g c))"
proof
  assume "get_lca g (Some a) (Some b) = Some c"
  then obtain i where i: "i < length (parent_chain g b)" "parent_chain g b ! i = c" "c \<in> set (parent_chain g a)"
      "\<forall>j < i. parent_chain g b ! j \<notin> set (parent_chain g a)"
    by (auto simp: get_lca_def find_Some_iff)
  then have cb: "c \<in> set (parent_chain g b)" by auto
  have "d \<in> set (parent_chain g c)" if d: "d \<in> set (parent_chain g a)" "d \<in> set (parent_chain g b)" for d
  proof -
    obtain j where j: "j < length (parent_chain g b)" "parent_chain g b ! j = d" using d(2) by (auto simp: in_set_conv_nth)
    with i(4) d(1) have "i \<le> j" by (metis not_less)
    with i j have "d \<le> c"
      using sorted_wrt_nth_less [OF sorted_parent_chain [OF assms], of i j b] by (cases "i = j") auto
    with ancestor_linear [OF assms d(2) cb] parent_chain_le [OF assms, of c d] show ?thesis by (auto dest: le_antisym)
  qed
  with i(3) cb show "c \<in> set (parent_chain g a) \<and> c \<in> set (parent_chain g b) \<and>
    (\<forall>d \<in> set (parent_chain g a) \<inter> set (parent_chain g b). d \<in> set (parent_chain g c))" by blast
next
  assume c: "c \<in> set (parent_chain g a) \<and> c \<in> set (parent_chain g b) \<and>
    (\<forall>d \<in> set (parent_chain g a) \<inter> set (parent_chain g b). d \<in> set (parent_chain g c))"
  then obtain d where d: "get_lca g (Some a) (Some b) = Some d"
    using get_lca_None [of g a b] by (cases "get_lca g (Some a) (Some b)") auto
  then have "d \<in> set (parent_chain g a)" "d \<in> set (parent_chain g b)"
    by (auto simp: get_lca_def find_Some_iff)
  with c have "d \<in> set (parent_chain g c)" by blast
  obtain i j where i: "i < length (parent_chain g b)" "parent_chain g b ! i = d"
      "\<forall>k < i. parent_chain g b ! k \<notin> set (parent_chain g a)"
    and j: "j < length (parent_chain g b)" "parent_chain g b ! j = c"
    using d c by (auto simp: get_lca_def find_Some_iff in_set_conv_nth)
  with c have "i \<le> j" by (metis not_less)
  then have "c \<le> d"
    using i j sorted_wrt_nth_less [OF sorted_parent_chain [OF assms], of i j b] by (cases "i = j") auto
  with parent_chain_le [OF assms \<open>d \<in> set (parent_chain g c)\<close>] have "c = d" by simp
  with d show "get_lca g (Some a) (Some b) = Some c" by simp
qed

lemma less_path_iff: "less_path a b \<longleftrightarrow> a < b"
proof (induction a b rule: less_path.induct)
  case (1 b)
  then show ?case by (cases b) simp_all
qed auto

section \<open>Facts about paths\<close>

lemma set_climb: "set (climb g start stop) \<subseteq> (case start of None \<Rightarrow> {} | Some s \<Rightarrow> set (parent_chain g s))"
  by (auto simp: climb_def dest: set_takeWhileD split: option.splits)

lemma descendant_chain_below:
  assumes "wf_graph g" "x \<in> set (descendant_chain g (Some a) s)" "a \<in> set (parent_chain g s)"
  shows "x \<in> set (parent_chain g s) \<and> a \<in> set (parent_chain g x) \<and> a < x"
proof -
  obtain below where b: "parent_chain g s = below @ parent_chain g a" "a \<notin> set below"
    using parent_chain_split [OF assms(1,3)] by blast
  moreover have "parent_chain g a = a # tl (parent_chain g a)"
    using hd_parent_chain [of g a] by (cases "parent_chain g a") auto
  ultimately have "takeWhile (\<lambda>s. s \<noteq> a) (parent_chain g s) = below"
    by (metis (mono_tags, lifting) takeWhile_tail takeWhile_eq_all_conv takeWhile_append2)
  with assms(2,3) have x: "x \<in> set below" by (simp add: descendant_chain_def)
  with b(1) have "x \<in> set (parent_chain g s)" by simp
  from ancestor_linear [OF assms(1) this assms(3)] have "a \<in> set (parent_chain g x)"
  proof
    assume "x \<in> set (parent_chain g a)"
    with x b(1) distinct_parent_chain [OF assms(1), of s] show ?thesis by auto
  qed
  moreover have "x \<noteq> a" using x b(2) by auto
  ultimately show ?thesis
    using \<open>x \<in> set (parent_chain g s)\<close> parent_chain_le [OF assms(1), of a x] by auto
qed

lemma descendant_chain_self: "a = s \<Longrightarrow> descendant_chain g (Some a) s = []"
  using hd_parent_chain [of g s] by (cases "parent_chain g s") (auto simp: descendant_chain_def)

lemma region_contains_self: "sg_region_of g s = Some r \<Longrightarrow> region_contains g r s"
  by (auto simp: region_contains_def)

lemma region_contains_below:
  "wf_graph g \<Longrightarrow> region_contains g r a \<Longrightarrow> a \<in> set (parent_chain g s) \<Longrightarrow> region_contains g r s"
  by (auto simp: region_contains_def intro: ancestor_trans)

lemma first_some_Some: "first_some f xs = Some b \<Longrightarrow> \<exists>a \<in> set xs. f a = Some b"
  by (induction xs) (auto split: option.splits)

lemma enclosing_region_contains: "enclosing_region g s = Some r \<Longrightarrow> region_contains g r s"
  by (auto simp: enclosing_region_def region_contains_def dest: first_some_Some)

end
