(* ===== verification/Event_Queue.thy ===== *)
theory Event_Queue
  imports Heap State_Graph Message_Bus
begin

text \<open>
  The event queue of a state machine, \<open>internal/core/runtime/executor_common.go\<close>: events, the
  dispatch order of \<open>eventHeap.Less\<close> as a linear order on keys, and the queue's operations over
  \<open>container/heap\<close>. Virtual times are a linear order with a zero: the code's \<open>float64\<close> times are
  finite and never NaN. The queue provides the contract \<open>priority_pool\<close>.
\<close>

section \<open>Events\<close>

datatype event_type = EventTime | EventChange | EventAccept | EventCall

definition event_type_string :: "event_type \<Rightarrow> string" where
  "event_type_string t = (case t of EventTime \<Rightarrow> ''TimeEvent'' | EventChange \<Rightarrow> ''ChangeEvent''
     | EventAccept \<Rightarrow> ''AcceptEvent'' | EventCall \<Rightarrow> ''CallEvent'')"

text \<open>
  What an event carries: a transition of the graph or of the syntax tree, a message, the
  invocation of an operation; the zero event carries nothing.
\<close>

record 'v call =
  cl_operation :: string
  cl_args :: "string \<Rightarrow> 'v option"

datatype ('e, 's, 'v) payload =
    NoPayload
  | LowerTransition "('e, 's) transition"
  | TransitionEdge "('e, 's) transition_edge"
  | MessagePayload "'v message"
  | CallPayload "'v call"

record ('t, 'e, 's, 'v) event =
  ev_id :: int
  ev_type :: event_type
  ev_time :: 't
  ev_payload :: "('e, 's, 'v) payload"

definition zero_event :: "('t::zero, 'e, 's, 'v) event" where
  "zero_event = \<lparr>ev_id = 0, ev_type = EventTime, ev_time = 0, ev_payload = NoPayload\<rparr>"

definition is_completion_event :: "('t, 'e, 's, 'v) event \<Rightarrow> bool" where
  "is_completion_event e \<longleftrightarrow> ev_type e = EventTime \<and>
     (case ev_payload e of LowerTransition tr \<Rightarrow> tr_trigger tr = None | TransitionEdge te \<Rightarrow> te_trigger te = None | _ \<Rightarrow> False)"

section \<open>The dispatch order\<close>

definition event_less :: "('t::linorder, 'e, 's, 'v) event \<Rightarrow> ('t, 'e, 's, 'v) event \<Rightarrow> bool" where
  "event_less a b =
     (if ev_time a \<noteq> ev_time b then ev_time a < ev_time b
      else if is_completion_event a \<noteq> is_completion_event b then is_completion_event a
      else ev_id a < ev_id b)"

datatype 't dispatch_key = DispatchKey (dk_time: 't) (dk_pool: bool) (dk_id: int)

instantiation dispatch_key :: (linorder) linorder
begin

definition less_eq_dispatch_key :: "'a dispatch_key \<Rightarrow> 'a dispatch_key \<Rightarrow> bool" where
  "less_eq_dispatch_key a b \<longleftrightarrow> dk_time a < dk_time b \<or> dk_time a = dk_time b \<and>
     (dk_pool a < dk_pool b \<or> dk_pool a = dk_pool b \<and> dk_id a \<le> dk_id b)"

definition less_dispatch_key :: "'a dispatch_key \<Rightarrow> 'a dispatch_key \<Rightarrow> bool" where
  "less_dispatch_key a b \<longleftrightarrow> dk_time a < dk_time b \<or> dk_time a = dk_time b \<and>
     (dk_pool a < dk_pool b \<or> dk_pool a = dk_pool b \<and> dk_id a < dk_id b)"

instance
  by standard (auto simp: less_eq_dispatch_key_def less_dispatch_key_def dispatch_key.expand)

end

definition dispatch_key :: "('t, 'e, 's, 'v) event \<Rightarrow> 't dispatch_key" where
  "dispatch_key e = DispatchKey (ev_time e) (\<not> is_completion_event e) (ev_id e)"

lemma event_less_key: "event_less a b \<longleftrightarrow> dispatch_key a < dispatch_key b"
  by (auto simp: event_less_def dispatch_key_def less_dispatch_key_def)

lemma event_less_by_key: "event_less = by_key dispatch_key"
  by (intro ext) (rule event_less_key)

section \<open>The queue\<close>

type_synonym ('t, 'e, 's, 'v) event_queue = "('t, 'e, 's, 'v) event list"

definition new_event_queue :: "('t::linorder, 'e, 's, 'v) event_queue" where
  "new_event_queue = heap_init event_less []"

definition push_event :: "('t::linorder, 'e, 's, 'v) event \<Rightarrow> ('t, 'e, 's, 'v) event_queue \<Rightarrow> ('t, 'e, 's, 'v) event_queue" where
  "push_event e q = heap_push event_less e q"

definition pop_event :: "('t::{linorder, zero}, 'e, 's, 'v) event_queue \<Rightarrow> ('t, 'e, 's, 'v) event \<times> ('t, 'e, 's, 'v) event_queue" where
  "pop_event q = (if q = [] then (zero_event, q) else heap_pop event_less q)"

definition peek_event :: "('t::zero, 'e, 's, 'v) event_queue \<Rightarrow> ('t, 'e, 's, 'v) event" where
  "peek_event q = (if q = [] then zero_event else q ! 0)"

definition queue_len :: "('t, 'e, 's, 'v) event_queue \<Rightarrow> nat" where
  "queue_len q = length q"

definition withdraw :: "(('t::linorder, 'e, 's, 'v) event \<Rightarrow> bool) \<Rightarrow> ('t, 'e, 's, 'v) event_queue \<Rightarrow> ('t, 'e, 's, 'v) event_queue" where
  "withdraw cancel q = heap_init event_less (filter (\<lambda>e. \<not> cancel e) q)"

text \<open>What a client can do to a queue.\<close>

inductive queue_reachable :: "('t::{linorder, zero}, 'e, 's, 'v) event_queue \<Rightarrow> bool" where
  new: "queue_reachable new_event_queue"
| pushed: "queue_reachable q \<Longrightarrow> queue_reachable (push_event e q)"
| popped: "queue_reachable q \<Longrightarrow> queue_reachable (snd (pop_event q))"
| withdrawn: "queue_reachable q \<Longrightarrow> queue_reachable (withdraw cancel q)"

lemma pop_event_spec:
  assumes "is_heap dispatch_key q" "q \<noteq> []" "pop_event q = (e, q')"
  shows "e = q ! 0" "mset q = add_mset e (mset q')" "is_heap dispatch_key q'"
    "\<forall>d \<in> set q. dispatch_key e \<le> dispatch_key d"
  using heap_pop_spec [OF assms(1,2), of e q'] assms(2,3) by (simp_all add: pop_event_def event_less_by_key)

lemma queue_reachable_heap: "queue_reachable q \<Longrightarrow> is_heap dispatch_key q"
proof (induction rule: queue_reachable.induct)
  case new
  then show ?case by (simp add: new_event_queue_def event_less_by_key heap_init_spec)
next
  case (pushed q e)
  then show ?case by (simp add: push_event_def event_less_by_key heap_push_is_heap)
next
  case (popped q)
  then show ?case
    using pop_event_spec(3) [of q "fst (pop_event q)" "snd (pop_event q)"]
    by (cases "q = []") (simp_all add: pop_event_def)
next
  case (withdrawn q cancel)
  then show ?case by (simp add: withdraw_def event_less_by_key heap_init_spec)
qed

interpretation events: priority_pool pop_event mset "is_heap dispatch_key" dispatch_key
proof (unfold_locales, goal_cases)
  case (1 q x q')
  have "q \<noteq> []" using 1(2) by auto
  from pop_event_spec [OF 1(1) this 1(3)] show ?case by (metis set_mset_mset)
qed

section \<open>What the operations do to the pending events\<close>

lemma mset_push: "mset (push_event e q) = add_mset e (mset q)"
  by (simp add: push_event_def heap_push_mset)

lemma mset_withdraw: "mset (withdraw cancel q) = filter_mset (\<lambda>e. \<not> cancel e) (mset q)"
  by (simp add: withdraw_def event_less_by_key heap_init_spec mset_filter)

lemma set_push [simp]: "set (push_event e q) = insert e (set q)"
  by (metis mset_push set_mset_add_mset_insert set_mset_mset)

lemma set_withdraw [simp]: "set (withdraw cancel q) = {e \<in> set q. \<not> cancel e}"
  by (metis mset_withdraw set_mset_filter set_mset_mset)

lemmas pop_spec = pop_event_spec [OF queue_reachable_heap _ prod.collapse [symmetric]]

lemma pop_is_peek: "queue_reachable q \<Longrightarrow> fst (pop_event q) = peek_event q"
  using pop_spec(1) [of q] by (cases "q = []") (simp_all add: peek_event_def pop_event_def)

lemma mset_pop: "queue_reachable q \<Longrightarrow> q \<noteq> [] \<Longrightarrow> mset q = add_mset (peek_event q) (mset (snd (pop_event q)))"
  using pop_spec(2) [of q] pop_is_peek [of q] by simp

lemma next_earliest: "queue_reachable q \<Longrightarrow> q \<noteq> [] \<Longrightarrow> \<forall>d \<in> set q. \<not> event_less d (peek_event q)"
  using pop_spec(4) [of q] pop_is_peek [of q] by (simp add: event_less_key not_less)

section \<open>Properties\<close>

text \<open>
  C30. Whatever a client pushed, popped and withdrew before, dispatching a queue until it is empty
  hands out every pending event exactly once and in order: by time; at one time completion
  events before the pool's; and otherwise in the order of their ids, which is their arrival.
\<close>

theorem event_queue_dispatch_order:
  fixes q :: "('t::{linorder, zero}, 'e, 's, 'v) event_queue"
  assumes "queue_reachable q"
  shows "mset (drain pop_event (queue_len q) q) = mset q
    \<and> sorted_wrt (\<lambda>a b. \<not> event_less b a) (drain pop_event (queue_len q) q)"
proof -
  have "mset (drain pop_event (queue_len q) q) = mset q \<and> sorted (map dispatch_key (drain pop_event (queue_len q) q))"
    by (rule events.drained [OF queue_reachable_heap [OF assms]]) (simp add: queue_len_def)
  then show ?thesis by (simp add: event_less_key not_less sorted_map)
qed

text \<open>A timed event that arrived first, then a signal and a completion at the same instant.\<close>

definition example_event :: "int \<Rightarrow> event_type \<Rightarrow> nat \<Rightarrow> (nat, unit, unit, unit) event" where
  "example_event k ty t = \<lparr>ev_id = k, ev_type = ty, ev_time = t,
     ev_payload = (if ty = EventTime then TransitionEdge \<lparr>te_source = None, te_target = None, te_trigger = None,
        te_guard = None, te_effect = []\<rparr> else NoPayload)\<rparr>"

definition example_queue :: "(nat, unit, unit, unit) event_queue" where
  "example_queue = push_event (example_event 4 EventTime 5) (push_event (example_event 3 EventAccept 5)
     (push_event (example_event 2 EventAccept 5) (push_event (example_event 1 EventCall 7) new_event_queue)))"

theorem event_queue_dispatch_order_witness:
  "map ev_id (drain pop_event (queue_len example_queue) example_queue) = [4, 2, 3, 1]
    \<and> sorted_wrt (\<lambda>a b. \<not> event_less b a) (drain pop_event (queue_len example_queue) example_queue)"
proof -
  have "queue_reachable example_queue" unfolding example_queue_def by (intro queue_reachable.intros)
  from event_queue_dispatch_order [OF this] have
    "sorted_wrt (\<lambda>a b. \<not> event_less b a) (drain pop_event (queue_len example_queue) example_queue)" ..
  moreover have "map ev_id (drain pop_event (queue_len example_queue) example_queue) = [4, 2, 3, 1]"
    by code_simp
  ultimately show ?thesis by simp
qed

text \<open>
  Each operation of the queue does what it says to the pending events, on every queue a client
  can have: a push adds one event, a pop takes the one \<open>Peek\<close> shows, than which none is due
  earlier, and a withdrawal removes exactly the events it is asked to drop.
\<close>

theorem event_queue_operations:
  fixes q :: "('t::{linorder, zero}, 'e, 's, 'v) event_queue"
  assumes "queue_reachable q"
  shows "mset (push_event e q) = add_mset e (mset q)
    \<and> mset (withdraw cancel q) = filter_mset (\<lambda>e. \<not> cancel e) (mset q)
    \<and> fst (pop_event q) = peek_event q
    \<and> (q \<noteq> [] \<longrightarrow> mset q = add_mset (peek_event q) (mset (snd (pop_event q)))
        \<and> (\<forall>d \<in> set q. \<not> event_less d (peek_event q)))"
  by (simp add: mset_push mset_withdraw pop_is_peek [OF assms] mset_pop [OF assms] next_earliest [OF assms])

theorem event_queue_operations_witness:
  "ev_id (peek_event example_queue) = 4
    \<and> mset example_queue = add_mset (peek_event example_queue) (mset (snd (pop_event example_queue)))"
proof -
  have "queue_reachable example_queue" unfolding example_queue_def by (intro queue_reachable.intros)
  from event_queue_operations [OF this] have
    "example_queue \<noteq> [] \<longrightarrow> mset example_queue = add_mset (peek_event example_queue) (mset (snd (pop_event example_queue)))"
    by blast
  moreover have "example_queue \<noteq> []" by code_simp
  moreover have "ev_id (peek_event example_queue) = 4" by code_simp
  ultimately show ?thesis by simp
qed

end
