(* ===== verification/Rdf_Ids.thy ===== *)
theory Rdf_Ids
  imports Utf8
begin

text \<open>
  Element ids, \<open>internal/core/rdf/ids.go\<close>: a qualified name as an id in \<open>[A-Za-z0-9_-]+\<close> and back.
  The two loops over byte indices are recursions over the bytes left.
\<close>

definition lower_hex :: string where
  "lower_hex = ''0123456789abcdef''"

definition id_byte :: "char \<Rightarrow> bool" where
  "id_byte c \<longleftrightarrow> (CHR ''A'' \<le> c \<and> c \<le> CHR ''Z'') \<or> (CHR ''a'' \<le> c \<and> c \<le> CHR ''z'')
     \<or> (CHR ''0'' \<le> c \<and> c \<le> CHR ''9'') \<or> c = CHR ''-''"

fun encode_element_id :: "string \<Rightarrow> string" where
  "encode_element_id [] = []"
| "encode_element_id (c # cs) =
     (if c = CHR '':'' \<and> cs \<noteq> [] \<and> hd cs = CHR '':'' then ''__'' @ encode_element_id (tl cs)
      else if id_byte c then c # encode_element_id cs
      else CHR ''_'' # lower_hex ! (byte_of c div 16) # lower_hex ! (byte_of c mod 16) # encode_element_id cs)"

text \<open>\<open>strings.IndexByte(lowerHex, c)\<close>, -1 when absent.\<close>

definition hex_index :: "char \<Rightarrow> int" where
  "hex_index c = (let i = length (takeWhile (\<lambda>d. d \<noteq> c) lower_hex) in if i < length lower_hex then int i else -1)"

fun decode_bytes :: "string \<Rightarrow> string option" where
  "decode_bytes [] = Some []"
| "decode_bytes (c # cs) =
     (if c \<noteq> CHR ''_'' then (if id_byte c then map_option ((#) c) (decode_bytes cs) else None)
      else if length cs \<ge> 2 \<and> hex_index (cs ! 0) \<ge> 0 \<and> hex_index (cs ! 1) \<ge> 0
      then map_option ((#) (char_of (nat (hex_index (cs ! 0) * 16 + hex_index (cs ! 1))))) (decode_bytes (drop 2 cs))
      else if cs \<noteq> [] \<and> hd cs = CHR ''_'' then map_option ((@) ''::'') (decode_bytes (tl cs))
      else None)"

definition decode_element_id :: "string \<Rightarrow> string \<times> bool" where
  "decode_element_id ident =
     (if ident = [] then ([], False)
      else (case decode_bytes ident of
          None \<Rightarrow> ([], False)
        | Some name \<Rightarrow> if valid_utf8 name then (name, True) else ([], False)))"

section \<open>The round trip\<close>

lemma hex_index_digit: "n < 16 \<Longrightarrow> hex_index (lower_hex ! n) = int n"
proof -
  have "\<forall>n \<in> set [0..<16]. hex_index (lower_hex ! n) = int n" by code_simp
  then show "n < 16 \<Longrightarrow> hex_index (lower_hex ! n) = int n" by simp
qed

lemma hex_index_underscore: "hex_index CHR ''_'' = -1"
  by code_simp

lemma byte_split: "char_of (nat (int (byte_of c div 16) * 16 + int (byte_of c mod 16))) = c"
proof -
  have "int (byte_of c div 16) * 16 + int (byte_of c mod 16) = int (byte_of c)"
    by (metis div_mult_mod_eq of_nat_add of_nat_mult of_nat_numeral)
  then show ?thesis by simp
qed

lemma id_byte_not: "\<not> id_byte CHR ''_''" "\<not> id_byte CHR '':''"
  by code_simp+

lemma decode_encode_bytes: "decode_bytes (encode_element_id s) = Some s"
proof (induction s rule: encode_element_id.induct)
  case (2 c cs)
  consider (sep) ds where "c = CHR '':''" "cs = CHR '':'' # ds"
    | (plain) "id_byte c" | (esc) "\<not> id_byte c" "\<not> (c = CHR '':'' \<and> cs \<noteq> [] \<and> hd cs = CHR '':'')"
    by (cases cs) auto
  then show ?case
  proof cases
    case sep
    then show ?thesis using 2(1) by (simp add: hex_index_underscore id_byte_not)
  next
    case plain
    then have "\<not> (c = CHR '':'' \<and> cs \<noteq> [] \<and> hd cs = CHR '':'')" "c \<noteq> CHR ''_''"
      using id_byte_not by auto
    moreover from this have "encode_element_id (c # cs) = c # encode_element_id cs"
      using plain by (simp only: encode_element_id.simps if_False if_True)
    ultimately show ?thesis using plain 2(2) by (simp del: encode_element_id.simps)
  next
    case esc
    have "byte_of c div 16 < 16" "byte_of c mod 16 < 16"
      using byte_of_less [of c] by (auto simp: less_mult_imp_div_less)
    then have "hex_index (lower_hex ! (byte_of c div 16)) = int (byte_of c div 16)"
      "hex_index (lower_hex ! (byte_of c mod 16)) = int (byte_of c mod 16)" by (auto intro: hex_index_digit)
    with esc 2(3) show ?thesis by (simp only: encode_element_id.simps if_False decode_bytes.simps) (simp add: byte_split)
  qed
qed simp

lemma encode_nonempty: "encode_element_id s = [] \<longleftrightarrow> s = []"
  by (cases s) auto

lemma encode_alphabet: "list_all (\<lambda>c. id_byte c \<or> c = CHR ''_'') (encode_element_id s)"
proof (induction s rule: encode_element_id.induct)
  case (2 c cs)
  have "\<forall>n \<in> set [0..<16]. id_byte (lower_hex ! n)" by code_simp
  then have "id_byte (lower_hex ! (byte_of c div 16))" "id_byte (lower_hex ! (byte_of c mod 16))"
    using byte_of_less [of c] by (auto simp: less_mult_imp_div_less)
  with 2 show ?case by auto
qed simp

definition id_name :: "string \<Rightarrow> bool" where
  "id_name s \<longleftrightarrow> s \<noteq> [] \<and> valid_utf8 s"

interpretation element_id: codec encode_element_id
  "\<lambda>s. if snd (decode_element_id s) then Some (fst (decode_element_id s)) else None" id_name
  by unfold_locales (simp add: id_name_def decode_element_id_def decode_encode_bytes encode_nonempty)

text \<open>
  Element ids are a faithful encoding: the id of any non-empty qualified name in valid UTF-8
  decodes to that name, so two names never share an id, and an id has only letters, digits, dashes
  and underscores.
\<close>

theorem element_id_roundtrip:
  assumes "name \<noteq> []" "valid_utf8 name"
  shows "decode_element_id (encode_element_id name) = (name, True)
    \<and> list_all (\<lambda>c. id_byte c \<or> c = CHR ''_'') (encode_element_id name)
    \<and> (\<forall>other. other \<noteq> [] \<and> valid_utf8 other \<and> encode_element_id other = encode_element_id name \<longrightarrow> other = name)"
  using assms encode_alphabet [of name] element_id.enc_inj [of _ name]
  by (auto simp: id_name_def decode_element_id_def decode_encode_bytes encode_nonempty)

theorem element_id_roundtrip_witness:
  "encode_element_id ''A::b_c'' = ''A__b_5fc'' \<and> decode_element_id (encode_element_id ''A::b_c'') = (''A::b_c'', True)"
proof -
  have "valid_utf8 ''A::b_c''" by code_simp
  with element_id_roundtrip [of "''A::b_c''"] have "decode_element_id (encode_element_id ''A::b_c'') = (''A::b_c'', True)"
    by simp
  moreover have "encode_element_id ''A::b_c'' = ''A__b_5fc''" by code_simp
  ultimately show ?thesis by simp
qed

end
