(* ===== verification/Rdf_Graph.thy ===== *)
theory Rdf_Graph
  imports Rdf_Ids
begin

text \<open>
  The RDF graph model, \<open>internal/core/rdf/term.go\<close> and \<open>vocab.go\<close>: terms, triples, the ordered
  set of triples with its duplicate check, and the per-subject index that lookups build and
  cache. A lookup returns the graph it leaves, with the index built. Quoting of literals is here
  as well. The Go maps of a graph are association lists: \<open>Prefixes\<close> by label, the index by
  subject.
\<close>

section \<open>Terms and vocabulary\<close>

datatype term_kind = TermIRI | TermLiteral

record rdf_term =
  t_kind :: term_kind
  t_value :: string
  t_datatype :: string
  t_lang :: string

definition rdf_ns :: string where "rdf_ns = ''http://www.w3.org/1999/02/22-rdf-syntax-ns#''"
definition xsd_ns :: string where "xsd_ns = ''http://www.w3.org/2001/XMLSchema#''"
definition sysml_ns :: string where "sysml_ns = ''https://www.omg.org/spec/SysML#''"
definition element_ns :: string where "element_ns = ''urn:sysmlv2:element:''"
definition open_sysml_ns :: string where "open_sysml_ns = ''urn:opensysml:sysml:''"
definition expression_ns :: string where "expression_ns = ''urn:opensysml:expr:''"
definition rdf_type :: string where "rdf_type = rdf_ns @ ''type''"

definition default_prefixes :: "(string \<times> string) list" where
  "default_prefixes = [(''rdf'', rdf_ns), (''xsd'', xsd_ns), (''sysml'', sysml_ns),
     (''elmt'', element_ns), (''sysx'', open_sysml_ns)]"

definition iri :: "string \<Rightarrow> rdf_term" where
  "iri v = \<lparr>t_kind = TermIRI, t_value = v, t_datatype = [], t_lang = []\<rparr>"

definition string_literal :: "string \<Rightarrow> rdf_term" where
  "string_literal v = \<lparr>t_kind = TermLiteral, t_value = v, t_datatype = [], t_lang = []\<rparr>"

definition typed_literal :: "string \<Rightarrow> string \<Rightarrow> rdf_term" where
  "typed_literal v dt = \<lparr>t_kind = TermLiteral, t_value = v, t_datatype = dt, t_lang = []\<rparr>"

definition bool_literal :: "bool \<Rightarrow> rdf_term" where
  "bool_literal b = typed_literal (if b then ''true'' else ''false'') (xsd_ns @ ''boolean'')"

definition is_iri :: "rdf_term \<Rightarrow> bool" where "is_iri t \<longleftrightarrow> t_kind t = TermIRI"
definition is_literal :: "rdf_term \<Rightarrow> bool" where "is_literal t \<longleftrightarrow> t_kind t = TermLiteral"

definition element_iri :: "string \<Rightarrow> rdf_term" where
  "element_iri name = iri (element_ns @ encode_element_id name)"

text \<open>\<open>LocalName\<close>: what follows the last \<open>#\<close> or \<open>/\<close>, else the last colon.\<close>

definition after_last :: "string \<Rightarrow> string \<Rightarrow> string option" where
  "after_last cuts s =
     (if list_ex (\<lambda>c. c \<in> set cuts) s then Some (rev (takeWhile (\<lambda>c. c \<notin> set cuts) (rev s))) else None)"

definition local_name :: "string \<Rightarrow> string" where
  "local_name s = (case after_last ''#/'' s of Some l \<Rightarrow> l
     | None \<Rightarrow> (case after_last '':'' s of Some l \<Rightarrow> l | None \<Rightarrow> s))"

definition expression_iri :: "rdf_term \<Rightarrow> string \<Rightarrow> rdf_term" where
  "expression_iri owner path = iri (expression_ns @ local_name (t_value owner) @ ''.'' @ path)"

section \<open>Quoting\<close>

definition escape_rune :: "bool \<Rightarrow> nat \<Rightarrow> string" where
  "escape_rune long r =
     (if r = 0x5C then [CHR 0x5C, CHR 0x5C]
      else if r = 0x22 then [CHR 0x5C, CHR 0x22]
      else if r = 0x0A \<and> \<not> long then [CHR 0x5C, CHR ''n'']
      else if r = 0x0D then [CHR 0x5C, CHR ''r'']
      else if r = 0x09 \<and> \<not> long then [CHR 0x5C, CHR ''t'']
      else encode_rune r)"

definition escape_short :: "string \<Rightarrow> string" where
  "escape_short v = concat (map (escape_rune False) (runes v))"

definition escape_long :: "string \<Rightarrow> string" where
  "escape_long v = concat (map (escape_rune True) (runes v))"

definition dquote :: char where "dquote = CHR 0x22"

definition quote_literal :: "string \<Rightarrow> string" where
  "quote_literal v =
     (if CHR 0x0A \<in> set v
      then [dquote, dquote, dquote] @ escape_long v @ [dquote, dquote, dquote]
      else [dquote] @ escape_short v @ [dquote])"

text \<open>\<open>Term.String\<close>.\<close>

definition term_string :: "rdf_term \<Rightarrow> string" where
  "term_string t =
     (if is_iri t then ''<'' @ t_value t @ ''>''
      else quote_literal (t_value t) @
        (if t_lang t \<noteq> [] then ''@'' @ t_lang t
         else if t_datatype t \<noteq> [] then ''^^<'' @ t_datatype t @ ''>'' else []))"

section \<open>Graphs\<close>

record triple =
  subj :: rdf_term
  pred :: rdf_term
  obj :: rdf_term

record subject_index =
  si_predicates :: "string list"
  si_objects :: "(string \<times> rdf_term list) list"

record graph =
  g_triples :: "triple list"
  g_seen :: "triple set"
  g_prefixes :: "(string \<times> string) list"
  g_index :: "(rdf_term \<times> subject_index) list option"

definition new_graph :: graph where
  "new_graph = \<lparr>g_triples = [], g_seen = {}, g_prefixes = default_prefixes, g_index = None\<rparr>"

definition add_triple :: "triple \<Rightarrow> graph \<Rightarrow> graph" where
  "add_triple t g =
     (if t \<in> g_seen g then g
      else g\<lparr>g_seen := insert t (g_seen g), g_triples := g_triples g @ [t], g_index := None\<rparr>)"

definition add_statement :: "rdf_term \<Rightarrow> rdf_term \<Rightarrow> rdf_term \<Rightarrow> graph \<Rightarrow> graph" where
  "add_statement s p ob = add_triple \<lparr>subj = s, pred = p, obj = ob\<rparr>"

text \<open>\<open>m[k] = v\<close> on a Go map kept as an association list.\<close>

fun map_put :: "'k \<Rightarrow> 'v \<Rightarrow> ('k \<times> 'v) list \<Rightarrow> ('k \<times> 'v) list" where
  "map_put k v [] = [(k, v)]"
| "map_put k v ((k', v') # kvs) = (if k' = k then (k, v) # kvs else (k', v') # map_put k v kvs)"

definition objects_of :: "string \<Rightarrow> subject_index \<Rightarrow> rdf_term list" where
  "objects_of p si = (case map_of (si_objects si) p of Some os \<Rightarrow> os | None \<Rightarrow> [])"

text \<open>One turn of the loop of \<open>subjects\<close>.\<close>

definition index_triple ::
  "triple \<Rightarrow> (rdf_term \<times> subject_index) list \<Rightarrow> (rdf_term \<times> subject_index) list" where
  "index_triple t idx =
     (let si = (case map_of idx (subj t) of Some si \<Rightarrow> si
                | None \<Rightarrow> \<lparr>si_predicates = [], si_objects = []\<rparr>);
          p = t_value (pred t);
          si1 = (if map_of (si_objects si) p = None then si\<lparr>si_predicates := si_predicates si @ [p]\<rparr> else si)
      in map_put (subj t) (si1\<lparr>si_objects := map_put p (objects_of p si1 @ [obj t]) (si_objects si1)\<rparr>) idx)"

definition build_index :: "triple list \<Rightarrow> (rdf_term \<times> subject_index) list" where
  "build_index ts = fold index_triple ts []"

definition subjects_index :: "graph \<Rightarrow> (rdf_term \<times> subject_index) list \<times> graph" where
  "subjects_index g =
     (case g_index g of Some idx \<Rightarrow> (idx, g)
      | None \<Rightarrow> (let idx = build_index (g_triples g) in (idx, g\<lparr>g_index := Some idx\<rparr>)))"

definition graph_len :: "graph \<Rightarrow> nat" where
  "graph_len g = length (g_triples g)"

fun distinct_subjects :: "triple list \<Rightarrow> string list \<Rightarrow> rdf_term list" where
  "distinct_subjects [] seen = []"
| "distinct_subjects (t # ts) seen =
     (if t_value (subj t) \<in> set seen then distinct_subjects ts seen
      else subj t # distinct_subjects ts (t_value (subj t) # seen))"

definition subjects :: "graph \<Rightarrow> rdf_term list" where
  "subjects g = distinct_subjects (g_triples g) []"

definition objects :: "rdf_term \<Rightarrow> string \<Rightarrow> graph \<Rightarrow> rdf_term list \<times> graph" where
  "objects s p g =
     (case subjects_index g of (idx, g') \<Rightarrow>
        ((case map_of idx s of None \<Rightarrow> [] | Some si \<Rightarrow> objects_of p si), g'))"

definition object :: "rdf_term \<Rightarrow> string \<Rightarrow> graph \<Rightarrow> rdf_term option \<times> graph" where
  "object s p g =
     (case subjects_index g of (idx, g') \<Rightarrow>
        ((case map_of idx s of None \<Rightarrow> None
          | Some si \<Rightarrow> (case objects_of p si of ob # _ \<Rightarrow> Some ob | [] \<Rightarrow> None)), g'))"

definition lexical :: "rdf_term \<Rightarrow> string \<Rightarrow> graph \<Rightarrow> string option \<times> graph" where
  "lexical s p g = (case object s p g of (ob, g') \<Rightarrow> (map_option t_value ob, g'))"

definition bool_value :: "rdf_term \<Rightarrow> string \<Rightarrow> graph \<Rightarrow> bool \<times> graph" where
  "bool_value s p g =
     (case lexical s p g of (v, g') \<Rightarrow>
        ((case v of None \<Rightarrow> False | Some v \<Rightarrow> v = ''true'' \<or> v = ''1''), g'))"

definition type_of :: "rdf_term \<Rightarrow> graph \<Rightarrow> string \<times> graph" where
  "type_of s g = (case object s rdf_type g of (ob, g') \<Rightarrow> ((case ob of None \<Rightarrow> [] | Some t \<Rightarrow> t_value t), g'))"

section \<open>The index agrees with a scan of the triples\<close>

text \<open>The reference reading of a graph: scan every triple.\<close>

definition scan :: "triple list \<Rightarrow> rdf_term \<Rightarrow> string \<Rightarrow> rdf_term list" where
  "scan ts s p = map obj (filter (\<lambda>t. subj t = s \<and> t_value (pred t) = p) ts)"

lemma map_of_map_put [simp]: "map_of (map_put k v kvs) = (map_of kvs)(k \<mapsto> v)"
  by (induction kvs) (auto simp: fun_eq_iff)

lemma map_put_keys: "fst ` set (map_put k v kvs) = insert k (fst ` set kvs)"
  by (simp flip: dom_map_of_conv_image_fst)

lemma distinct_map_put: "distinct (map fst kvs) \<Longrightarrow> distinct (map fst (map_put k v kvs))"
proof (induction kvs)
  case (Cons kv kvs)
  then show ?case by (cases kv) (auto simp: map_put_keys)
qed simp

definition remdups_first :: "'a list \<Rightarrow> 'a list" where
  "remdups_first xs = rev (remdups (rev xs))"

lemma remdups_first_snoc: "remdups_first (xs @ [x]) = (if x \<in> set xs then remdups_first xs else remdups_first xs @ [x])"
  by (simp add: remdups_first_def)

text \<open>The subject's predicates, in the order they first appear.\<close>

definition scan_predicates :: "triple list \<Rightarrow> rdf_term \<Rightarrow> string list" where
  "scan_predicates ts s = remdups_first (map (\<lambda>t. t_value (pred t)) (filter (\<lambda>t. subj t = s) ts))"

definition index_ok :: "triple list \<Rightarrow> (rdf_term \<times> subject_index) list \<Rightarrow> bool" where
  "index_ok ts idx \<longleftrightarrow>
     (\<forall>s. (case map_of idx s of
        None \<Rightarrow> filter (\<lambda>t. subj t = s) ts = []
      | Some si \<Rightarrow> filter (\<lambda>t. subj t = s) ts \<noteq> [] \<and> si_predicates si = scan_predicates ts s
          \<and> (\<forall>p. map_of (si_objects si) p = (if scan ts s p = [] then None else Some (scan ts s p)))))"

lemma scan_Nil_pred: "scan ts s p = [] \<longleftrightarrow> p \<notin> set (map (\<lambda>t. t_value (pred t)) (filter (\<lambda>t. subj t = s) ts))"
  by (auto simp: scan_def filter_empty_conv)

lemma scan_filter: "scan ts s p = map obj (filter (\<lambda>t. t_value (pred t) = p) (filter (\<lambda>t. subj t = s) ts))"
  unfolding scan_def filter_filter by (rule arg_cong [where f = "map obj"], rule filter_cong) auto

lemma scan_no_subject: "filter (\<lambda>t. subj t = s) ts = [] \<Longrightarrow> scan ts s p = []"
  by (simp add: scan_filter)

lemma index_triple_ok:
  assumes "index_ok ts idx"
  shows "index_ok (ts @ [t]) (index_triple t idx)"
  unfolding index_ok_def
proof
  fix s
  let ?p = "t_value (pred t)"
  define si where "si = (case map_of idx (subj t) of Some si \<Rightarrow> si | None \<Rightarrow> \<lparr>si_predicates = [], si_objects = []\<rparr>)"
  have si: "si_predicates si = scan_predicates ts (subj t)"
    "\<forall>p. map_of (si_objects si) p = (if scan ts (subj t) p = [] then None else Some (scan ts (subj t) p))"
  proof -
    have "case map_of idx (subj t) of None \<Rightarrow> filter (\<lambda>u. subj u = subj t) ts = []
      | Some si \<Rightarrow> filter (\<lambda>u. subj u = subj t) ts \<noteq> [] \<and> si_predicates si = scan_predicates ts (subj t)
          \<and> (\<forall>p. map_of (si_objects si) p = (if scan ts (subj t) p = [] then None else Some (scan ts (subj t) p)))"
      using assms unfolding index_ok_def by (rule spec)
    then show "si_predicates si = scan_predicates ts (subj t)"
      "\<forall>p. map_of (si_objects si) p = (if scan ts (subj t) p = [] then None else Some (scan ts (subj t) p))"
      by (auto simp: si_def scan_predicates_def remdups_first_def scan_no_subject split: option.splits)
  qed
  define si1 where "si1 = (if map_of (si_objects si) ?p = None then si\<lparr>si_predicates := si_predicates si @ [?p]\<rparr> else si)"
  define si2 where "si2 = si1\<lparr>si_objects := map_put ?p (objects_of ?p si1 @ [obj t]) (si_objects si1)\<rparr>"
  have idx: "index_triple t idx = map_put (subj t) si2 idx"
    unfolding index_triple_def Let_def si2_def si1_def si_def by (rule refl)
  have preds: "si_predicates si2 = scan_predicates (ts @ [t]) (subj t)"
    using si unfolding si2_def si1_def
    by (simp add: scan_predicates_def remdups_first_snoc scan_Nil_pred)
  have o1: "objects_of ?p si1 = scan ts (subj t) ?p" "si_objects si1 = si_objects si"
    using si(2) by (simp_all add: si1_def objects_of_def)
  have objs: "\<forall>p. map_of (si_objects si2) p = (if scan (ts @ [t]) (subj t) p = [] then None else Some (scan (ts @ [t]) (subj t) p))"
    using si(2) o1 by (auto simp: si2_def scan_def)
  show "case map_of (index_triple t idx) s of None \<Rightarrow> filter (\<lambda>u. subj u = s) (ts @ [t]) = []
      | Some si \<Rightarrow> filter (\<lambda>u. subj u = s) (ts @ [t]) \<noteq> [] \<and> si_predicates si = scan_predicates (ts @ [t]) s
          \<and> (\<forall>p. map_of (si_objects si) p = (if scan (ts @ [t]) s p = [] then None else Some (scan (ts @ [t]) s p)))"
  proof (cases "s = subj t")
    case True
    with preds objs show ?thesis by (simp add: idx)
  next
    case False
    then have "filter (\<lambda>u. subj u = s) (ts @ [t]) = filter (\<lambda>u. subj u = s) ts" "\<And>p. scan (ts @ [t]) s p = scan ts s p"
      "scan_predicates (ts @ [t]) s = scan_predicates ts s"
      by (auto simp: scan_def scan_predicates_def)
    moreover have "case map_of idx s of None \<Rightarrow> filter (\<lambda>u. subj u = s) ts = []
      | Some si \<Rightarrow> filter (\<lambda>u. subj u = s) ts \<noteq> [] \<and> si_predicates si = scan_predicates ts s
          \<and> (\<forall>p. map_of (si_objects si) p = (if scan ts s p = [] then None else Some (scan ts s p)))"
      using assms unfolding index_ok_def by (rule spec)
    ultimately show ?thesis using False [symmetric] False by (auto simp: idx split: option.splits)
  qed
qed

lemma build_index_ok: "index_ok ts (build_index ts)"
proof (induction ts rule: rev_induct)
  case Nil
  then show ?case by (simp add: index_ok_def build_index_def)
next
  case (snoc t ts)
  then show ?case using index_triple_ok by (simp add: build_index_def)
qed

section \<open>Well-formed graphs\<close>

definition graph_ok :: "graph \<Rightarrow> bool" where
  "graph_ok g \<longleftrightarrow> distinct (g_triples g) \<and> g_seen g = set (g_triples g)
     \<and> (case g_index g of None \<Rightarrow> True | Some idx \<Rightarrow> idx = build_index (g_triples g))"

inductive graph_reachable :: "graph \<Rightarrow> bool" where
  new: "graph_reachable new_graph"
| parsed: "graph_reachable \<lparr>g_triples = [], g_seen = {}, g_prefixes = ps, g_index = None\<rparr>"
| added: "graph_reachable g \<Longrightarrow> graph_reachable (add_triple t g)"
| looked_up: "graph_reachable g \<Longrightarrow> graph_reachable (snd (subjects_index g))"
| bound: "graph_reachable g \<Longrightarrow> graph_reachable (g\<lparr>g_prefixes := ps\<rparr>)"

lemma graph_reachable_ok: "graph_reachable g \<Longrightarrow> graph_ok g"
  by (induction rule: graph_reachable.induct)
    (auto simp: graph_ok_def new_graph_def add_triple_def subjects_index_def Let_def split: option.splits)

lemma subjects_index_ok: "graph_ok g \<Longrightarrow> index_ok (g_triples g) (fst (subjects_index g))"
  using build_index_ok by (auto simp: graph_ok_def subjects_index_def Let_def split: option.splits)

lemma objects_scan: "graph_ok g \<Longrightarrow> fst (objects s p g) = scan (g_triples g) s p"
proof -
  assume "graph_ok g"
  then have ok: "index_ok (g_triples g) (fst (subjects_index g))" by (rule subjects_index_ok)
  show ?thesis
  proof (cases "map_of (fst (subjects_index g)) s")
    case None
    then have "filter (\<lambda>t. subj t = s) (g_triples g) = []"
      using ok [unfolded index_ok_def, THEN spec, of s] by simp
    with None show ?thesis by (cases "subjects_index g") (simp add: objects_def scan_no_subject)
  next
    case (Some si)
    then have "map_of (si_objects si) p = (if scan (g_triples g) s p = [] then None else Some (scan (g_triples g) s p))"
      using ok [unfolded index_ok_def, THEN spec, of s] by (simp only: option.case)
    with Some show ?thesis by (cases "subjects_index g") (simp add: objects_def objects_of_def)
  qed
qed

text \<open>
  C38. A lookup through the cached index is a scan of all triples: on every graph a client can build,
  the objects of a subject and predicate are those of its statements, in insertion order, whether
  or not the index was built before; and \<open>Object\<close> is the first of them.
\<close>

theorem graph_lookup_scan:
  assumes "graph_reachable g"
  shows "fst (objects s p g) = map obj (filter (\<lambda>t. subj t = s \<and> t_value (pred t) = p) (g_triples g))
    \<and> fst (object s p g) = map_option obj (find (\<lambda>t. subj t = s \<and> t_value (pred t) = p) (g_triples g))
    \<and> g_triples (snd (objects s p g)) = g_triples g"
proof -
  have ok: "graph_ok g" using graph_reachable_ok [OF assms] .
  have "fst (object s p g) = (case fst (objects s p g) of [] \<Rightarrow> None | ob # _ \<Rightarrow> Some ob)"
    by (auto simp: object_def objects_def split: prod.splits option.splits list.splits)
  moreover have "(case scan ts s p of [] \<Rightarrow> None | ob # _ \<Rightarrow> Some ob)
      = map_option obj (find (\<lambda>t. subj t = s \<and> t_value (pred t) = p) ts)" for ts
    by (induction ts) (auto simp: scan_def)
  moreover have "g_triples (snd (objects s p g)) = g_triples g"
    by (auto simp: objects_def subjects_index_def Let_def split: option.splits)
  ultimately show ?thesis using objects_scan [OF ok, of s p] by (simp add: scan_def)
qed

definition example_rdf :: graph where
  "example_rdf = add_statement (element_iri ''A'') (iri rdf_type) (iri (sysml_ns @ ''PartUsage''))
     (snd (objects (element_iri ''A'') rdf_type
       (add_statement (element_iri ''A'') (iri rdf_type) (iri (sysml_ns @ ''Usage'')) new_graph)))"

lemma example_rdf_reachable: "graph_reachable example_rdf"
proof -
  have "snd (objects s p g) = snd (subjects_index g)" for s p g by (simp add: objects_def split: prod.splits)
  then show ?thesis
    unfolding example_rdf_def add_statement_def by (auto intro!: graph_reachable.intros)
qed

theorem graph_lookup_scan_witness:
  "map (local_name \<circ> t_value) (fst (objects (element_iri ''A'') rdf_type example_rdf)) = [''Usage'', ''PartUsage'']"
proof -
  have "fst (objects (element_iri ''A'') rdf_type example_rdf)
      = map obj (filter (\<lambda>t. subj t = element_iri ''A'' \<and> t_value (pred t) = rdf_type) (g_triples example_rdf))"
    using graph_lookup_scan [OF example_rdf_reachable] by blast
  then show ?thesis by (simp only:) code_simp
qed

text \<open>
  A graph is an ordered set: adding a statement it has changes nothing, adding another puts it at
  the end, and no statement is ever held twice.
\<close>

theorem graph_is_ordered_set:
  assumes "graph_reachable g"
  shows "distinct (g_triples g)
    \<and> g_triples (add_statement s p ob g) =
        (if \<lparr>subj = s, pred = p, obj = ob\<rparr> \<in> set (g_triples g) then g_triples g
         else g_triples g @ [\<lparr>subj = s, pred = p, obj = ob\<rparr>])
    \<and> add_statement s p ob (add_statement s p ob g) = add_statement s p ob g"
  using graph_reachable_ok [OF assms] by (auto simp: graph_ok_def add_statement_def add_triple_def)

theorem graph_is_ordered_set_witness:
  "distinct (g_triples example_rdf) \<and> graph_len example_rdf = 2"
proof -
  have "graph_len example_rdf = 2" by code_simp
  with graph_is_ordered_set [OF example_rdf_reachable] show ?thesis by blast
qed

end
