(* ===== verification/Turtle_Write.thy ===== *)
theory Turtle_Write
  imports Rdf_Graph "HOL-Library.Multiset"
begin

text \<open>
  The Turtle writer, \<open>internal/core/rdf/turtle_write.go\<close>: the prefix bindings sorted by label, then
  one block per subject in insertion order, with IRIs abbreviated by the most specific binding.
  The abbreviation goes over the prefix map in whatever order the map gives its entries, here the
  order of the association list; what it chooses does not depend on that order.
\<close>

section \<open>Terms\<close>

definition ascii_letter :: "char \<Rightarrow> bool" where
  "ascii_letter c \<longleftrightarrow> (CHR ''a'' \<le> c \<and> c \<le> CHR ''z'') \<or> (CHR ''A'' \<le> c \<and> c \<le> CHR ''Z'')"

definition ascii_digit :: "char \<Rightarrow> bool" where
  "ascii_digit c \<longleftrightarrow> CHR ''0'' \<le> c \<and> c \<le> CHR ''9''"

text \<open>
  \<open>isPrefixedLocalName\<close>: the runes it accepts are ASCII, so a byte outside ASCII, which begins
  another rune, is rejected.
\<close>

definition local_char_ok :: "nat \<Rightarrow> nat \<Rightarrow> char \<Rightarrow> bool" where
  "local_char_ok n i c =
     (if ascii_letter c then True
      else if ascii_digit c \<or> c = CHR ''_'' then \<not> (i = 0 \<and> c \<noteq> CHR ''_'')
      else if c = CHR '':'' \<or> c = CHR ''-'' \<or> c = CHR ''.'' then \<not> (i = 0 \<or> i = n - 1)
      else False)"

definition is_prefixed_local_name :: "string \<Rightarrow> bool" where
  "is_prefixed_local_name l \<longleftrightarrow>
     l \<noteq> [] \<and> list_all (\<lambda>(i, c). local_char_ok (length l) i c) (enumerate 0 l)"

text \<open>The loop of \<open>term\<close> over the bindings.\<close>

definition abbrev_step :: "string \<Rightarrow> string \<times> string \<Rightarrow> string \<times> string \<Rightarrow> string \<times> string" where
  "abbrev_step v binding best =
     (case binding of (label, ns) \<Rightarrow> case best of (best_label, best_ns) \<Rightarrow>
        if \<not> prefix ns v then best
        else if \<not> is_prefixed_local_name (drop (length ns) v) then best
        else if best_label = [] \<or> length ns > length best_ns
          \<or> (length ns = length best_ns \<and> label < best_label) then (label, ns)
        else best)"

definition abbreviate :: "(string \<times> string) list \<Rightarrow> string \<Rightarrow> string \<times> string" where
  "abbreviate ps v = fold (abbrev_step v) ps ([], [])"

definition write_iri :: "(string \<times> string) list \<Rightarrow> string \<Rightarrow> string" where
  "write_iri ps v =
     (case abbreviate ps v of (label, ns) \<Rightarrow>
        if label \<noteq> [] then label @ '':'' @ drop (length ns) v else ''<'' @ v @ ''>'')"

definition write_term :: "(string \<times> string) list \<Rightarrow> rdf_term \<Rightarrow> string" where
  "write_term ps t =
     (if is_literal t then quote_literal (t_value t) @
        (if t_lang t \<noteq> [] then ''@'' @ t_lang t
         else if t_datatype t \<noteq> [] then ''^^'' @ write_iri ps (t_datatype t) else [])
      else write_iri ps (t_value t))"

section \<open>Subjects and documents\<close>

definition write_predicate :: "(string \<times> string) list \<Rightarrow> subject_index \<Rightarrow> string \<Rightarrow> string \<Rightarrow> string" where
  "write_predicate ps si p sep =
     ''    '' @ (if p = rdf_type then ''a'' else write_term ps (iri p)) @ '' '' @
       join_with '', '' (map (write_term ps) (objects_of p si)) @ sep @ [CHR 0x0A]"

fun write_predicates :: "(string \<times> string) list \<Rightarrow> subject_index \<Rightarrow> string list \<Rightarrow> string" where
  "write_predicates ps si [] = []"
| "write_predicates ps si [p] = write_predicate ps si p '' .''"
| "write_predicates ps si (p # q # qs) = write_predicate ps si p '' ;'' @ write_predicates ps si (q # qs)"

definition type_first :: "string list \<Rightarrow> string list" where
  "type_first qs = sort_key (\<lambda>p. if p = rdf_type then 0 else (1::nat)) qs"

definition write_subject ::
  "(string \<times> string) list \<Rightarrow> (rdf_term \<times> subject_index) list \<Rightarrow> rdf_term \<Rightarrow> string" where
  "write_subject ps idx s =
     write_term ps s @ [CHR 0x0A] @
     (case map_of idx s of None \<Rightarrow> [] | Some si \<Rightarrow> write_predicates ps si (type_first (si_predicates si)))"

definition write_prefixes :: "(string \<times> string) list \<Rightarrow> string" where
  "write_prefixes ps =
     concat (map (\<lambda>l. ''@prefix '' @ l @ '': <'' @ the (map_of ps l) @ ''> .'' @ [CHR 0x0A]) (sort (map fst ps)))
       @ (if ps \<noteq> [] then [CHR 0x0A] else [])"

text \<open>The document, and the graph with the index the writer leaves built.\<close>

definition write_turtle :: "graph \<Rightarrow> string \<times> graph" where
  "write_turtle g =
     (case subjects_index g of (idx, g') \<Rightarrow>
        (write_prefixes (g_prefixes g) @
           join_with [CHR 0x0A] (map (write_subject (g_prefixes g) idx) (subjects g)),
         if subjects g = [] then g else g'))"

section \<open>The abbreviation\<close>

text \<open>Which bindings can abbreviate an IRI, and which of two the loop prefers.\<close>

definition abbrev_candidate :: "string \<Rightarrow> string \<times> string \<Rightarrow> bool" where
  "abbrev_candidate v b \<longleftrightarrow> prefix (snd b) v \<and> is_prefixed_local_name (drop (length (snd b)) v)"

definition abbrev_better :: "string \<times> string \<Rightarrow> string \<times> string \<Rightarrow> bool" where
  "abbrev_better b c \<longleftrightarrow> length (snd b) > length (snd c) \<or> (length (snd b) = length (snd c) \<and> fst b < fst c)"

lemma abbrev_fold_cases:
  assumes "\<forall>b \<in> set ps. fst b \<noteq> []" "fst best = [] \<or> abbrev_candidate v best"
  shows "let r = fold (abbrev_step v) ps best in
    (fst r = [] \<longrightarrow> r = best \<and> (\<forall>b \<in> set ps. \<not> abbrev_candidate v b)) \<and>
    (fst r \<noteq> [] \<longrightarrow> abbrev_candidate v r \<and> r \<in> insert best (set ps)
       \<and> (\<forall>b \<in> set ps. abbrev_candidate v b \<longrightarrow> \<not> abbrev_better b r)
       \<and> (fst best \<noteq> [] \<longrightarrow> \<not> abbrev_better best r))"
  using assms
proof (induction ps arbitrary: best)
  case Nil
  then show ?case by (auto simp: abbrev_better_def Let_def)
next
  case (Cons b ps)
  define best' where "best' = abbrev_step v b best"
  have b: "fst b \<noteq> []" using Cons(2) by simp
  have cases: "(best' = b \<and> abbrev_candidate v b \<and> (fst best = [] \<or> abbrev_better b best))
      \<or> (best' = best \<and> (\<not> abbrev_candidate v b \<or> (fst best \<noteq> [] \<and> \<not> abbrev_better b best)))"
    by (auto simp: best'_def abbrev_step_def abbrev_candidate_def abbrev_better_def split: prod.splits)
  have ok: "fst best' = [] \<or> abbrev_candidate v best'" using cases Cons(3) by auto
  define r where "r = fold (abbrev_step v) ps best'"
  have IH: "(fst r = [] \<longrightarrow> r = best' \<and> (\<forall>b \<in> set ps. \<not> abbrev_candidate v b)) \<and>
    (fst r \<noteq> [] \<longrightarrow> abbrev_candidate v r \<and> r \<in> insert best' (set ps)
       \<and> (\<forall>b \<in> set ps. abbrev_candidate v b \<longrightarrow> \<not> abbrev_better b r)
       \<and> (fst best' \<noteq> [] \<longrightarrow> \<not> abbrev_better best' r))"
    using Cons(1) [of best'] Cons(2) ok by (simp add: r_def Let_def)
  have trans: "abbrev_better x y \<Longrightarrow> \<not> abbrev_better z y \<Longrightarrow> \<not> abbrev_better z x" for x y z
    by (auto simp: abbrev_better_def)
  have trans': "\<not> abbrev_better x y \<Longrightarrow> \<not> abbrev_better y z \<Longrightarrow> \<not> abbrev_better x z" for x y z
    by (auto simp: abbrev_better_def)
  have "fold (abbrev_step v) (b # ps) best = r" by (simp add: r_def best'_def)
  moreover have "(fst r = [] \<longrightarrow> r = best \<and> (\<forall>c \<in> set (b # ps). \<not> abbrev_candidate v c))"
    using IH cases b by auto
  moreover have "(fst r \<noteq> [] \<longrightarrow> abbrev_candidate v r \<and> r \<in> insert best (set (b # ps))
       \<and> (\<forall>c \<in> set (b # ps). abbrev_candidate v c \<longrightarrow> \<not> abbrev_better c r)
       \<and> (fst best \<noteq> [] \<longrightarrow> \<not> abbrev_better best r))"
  proof (intro impI)
    assume r: "fst r \<noteq> []"
    with IH have i: "abbrev_candidate v r" "r \<in> insert best' (set ps)"
      "\<forall>b \<in> set ps. abbrev_candidate v b \<longrightarrow> \<not> abbrev_better b r" "fst best' \<noteq> [] \<longrightarrow> \<not> abbrev_better best' r"
      by auto
    have "abbrev_better x y \<Longrightarrow> \<not> abbrev_better y x" for x y by (auto simp: abbrev_better_def)
    with cases i b show "abbrev_candidate v r \<and> r \<in> insert best (set (b # ps))
       \<and> (\<forall>c \<in> set (b # ps). abbrev_candidate v c \<longrightarrow> \<not> abbrev_better c r)
       \<and> (fst best \<noteq> [] \<longrightarrow> \<not> abbrev_better best r)"
      using trans' [of best best' r] trans' [of b best' r] by fastforce
  qed
  ultimately show ?case by (simp add: Let_def)
qed

lemma abbreviate_cases:
  assumes "\<forall>b \<in> set ps. fst b \<noteq> []"
  shows "(fst (abbreviate ps v) = [] \<and> (\<forall>b \<in> set ps. \<not> abbrev_candidate v b))
    \<or> (fst (abbreviate ps v) \<noteq> [] \<and> abbreviate ps v \<in> set ps \<and> abbrev_candidate v (abbreviate ps v)
       \<and> (\<forall>b \<in> set ps. abbrev_candidate v b \<longrightarrow> \<not> abbrev_better b (abbreviate ps v)))"
  using abbrev_fold_cases [OF assms, of "([], [])" v] by (auto simp: abbreviate_def Let_def)

text \<open>With an empty label the two orders differ: the condition is needed.\<close>

lemma write_iri_order_empty_label:
  "write_iri [([], ''u:x:''), (''b'', ''u:'')] ''u:x:y'' = ''b:x:y''"
  "write_iri [(''b'', ''u:''), ([], ''u:x:'')] ''u:x:y'' = ''<u:x:y>''"
  by code_simp+

text \<open>
  Writing an IRI does not depend on the order in which the prefix map hands out its bindings: when
  no label is empty, any two listings of the same bindings give the same text. An empty label breaks
  this: two orders of one map with such a label write different texts.
\<close>

theorem write_iri_order_independent:
  assumes "\<forall>b \<in> set ps. fst b \<noteq> []" "distinct (map fst ps)" "mset qs = mset ps"
  shows "write_iri qs v = write_iri ps v
    \<and> write_iri [([], ''u:x:''), (''b'', ''u:'')] ''u:x:y'' \<noteq> write_iri [(''b'', ''u:''), ([], ''u:x:'')] ''u:x:y''"
proof -
  have set: "set qs = set ps" using assms(3) by (metis set_mset_mset)
  have ps: "\<forall>b \<in> set qs. fst b \<noteq> []" using assms(1) set by simp
  note a = abbreviate_cases [OF assms(1), of v] abbreviate_cases [OF ps, of v]
  have "abbreviate qs v = abbreviate ps v \<or> (fst (abbreviate qs v) = [] \<and> fst (abbreviate ps v) = [])"
  proof (cases "fst (abbreviate ps v) = []")
    case True
    with a set show ?thesis by auto
  next
    case False
    then have i: "abbreviate ps v \<in> set ps" "abbrev_candidate v (abbreviate ps v)"
      "\<forall>b \<in> set ps. abbrev_candidate v b \<longrightarrow> \<not> abbrev_better b (abbreviate ps v)" using a(1) by auto
    then have j: "abbreviate qs v \<in> set ps" "abbrev_candidate v (abbreviate qs v)"
      "\<forall>b \<in> set ps. abbrev_candidate v b \<longrightarrow> \<not> abbrev_better b (abbreviate qs v)" using a(2) set by auto
    have "\<not> abbrev_better (abbreviate qs v) (abbreviate ps v)" "\<not> abbrev_better (abbreviate ps v) (abbreviate qs v)"
      using i j by blast+
    then have "fst (abbreviate qs v) = fst (abbreviate ps v)"
      by (auto simp: abbrev_better_def)
    with i(1) j(1) assms(2) have "abbreviate qs v = abbreviate ps v"
      by (metis eq_key_imp_eq_value prod.collapse)
    then show ?thesis ..
  qed
  then have "write_iri qs v = write_iri ps v" by (auto simp: write_iri_def split: prod.splits)
  then show ?thesis by (simp add: write_iri_order_empty_label)
qed

theorem write_iri_order_independent_witness:
  "write_iri [(''b'', ''u:''), (''a'', ''u:x:'')] ''u:x:y'' = ''a:y''
    \<and> write_iri [(''a'', ''u:x:''), (''b'', ''u:'')] ''u:x:y'' = ''a:y''"
proof -
  have "write_iri [(''a'', ''u:x:''), (''b'', ''u:'')] ''u:x:y'' = write_iri [(''b'', ''u:''), (''a'', ''u:x:'')] ''u:x:y''"
    by (rule write_iri_order_independent [THEN conjunct1]) auto
  moreover have "write_iri [(''b'', ''u:''), (''a'', ''u:x:'')] ''u:x:y'' = ''a:y''" by code_simp
  ultimately show ?thesis by simp
qed

end
