(* ===== verification/Turtle_Parse.thy ===== *)
theory Turtle_Parse
  imports Rdf_Graph
begin

text \<open>
  The Turtle reader, \<open>internal/core/rdf/turtle_parse.go\<close>. A parser state holds the text left
  (\<open>src[pos:]\<close>), the line, the base and the prefixes; a reader returns its value with the next
  state, or the error. Every loop consumes text, which is what the termination proofs show.
\<close>

section \<open>The parser's state\<close>

datatype parse_msg = Msg string | MsgArg string string

datatype parse_error = ParseError (pe_line: nat) (pe_msg: parse_msg)

record parser =
  p_rest :: string
  p_line :: nat
  p_base :: string
  p_prefixes :: "(string \<times> string) list"

type_synonym 'a parsed = "(parse_error, 'a \<times> parser) res"

definition errf :: "parser \<Rightarrow> string \<Rightarrow> 'a parsed" where
  "errf p m = Inl (ParseError (p_line p) (Msg m))"

definition errf_arg :: "parser \<Rightarrow> string \<Rightarrow> string \<Rightarrow> 'a parsed" where
  "errf_arg p m a = Inl (ParseError (p_line p) (MsgArg m a))"

definition newlines :: "string \<Rightarrow> nat" where
  "newlines s = length (filter (\<lambda>c. c = CHR 0x0A) s)"

text \<open>Consuming the next \<open>n\<close> bytes; \<open>next\<close> is one.\<close>

definition eat :: "nat \<Rightarrow> parser \<Rightarrow> parser" where
  "eat n p = p\<lparr>p_rest := drop n (p_rest p), p_line := p_line p + newlines (take n (p_rest p))\<rparr>"

abbreviation p_next :: "parser \<Rightarrow> parser" where
  "p_next \<equiv> eat (Suc 0)"

definition at_char :: "char \<Rightarrow> parser \<Rightarrow> bool" where
  "at_char c p \<longleftrightarrow> p_rest p \<noteq> [] \<and> hd (p_rest p) = c"

definition read_while :: "(char \<Rightarrow> bool) \<Rightarrow> parser \<Rightarrow> string \<times> parser" where
  "read_while keep p = (let s = takeWhile keep (p_rest p) in (s, eat (length s) p))"

lemma eat_rest [simp]: "p_rest (eat n p) = drop n (p_rest p)" "p_base (eat n p) = p_base p"
    "p_prefixes (eat n p) = p_prefixes p"
  by (simp_all add: eat_def)

section \<open>Classes of bytes, read as runes of Latin-1\<close>

definition space_byte :: "char \<Rightarrow> bool" where
  "space_byte c \<longleftrightarrow> is_space_rune (byte_of c)"

definition digit_byte :: "char \<Rightarrow> bool" where
  "digit_byte c \<longleftrightarrow> CHR ''0'' \<le> c \<and> c \<le> CHR ''9''"

definition letter_byte :: "char \<Rightarrow> bool" where
  "letter_byte c \<longleftrightarrow> (CHR ''a'' \<le> c \<and> c \<le> CHR ''z'') \<or> (CHR ''A'' \<le> c \<and> c \<le> CHR ''Z'')
     \<or> byte_of c \<in> {0xAA, 0xB5, 0xBA} \<or> (0xC0 \<le> byte_of c \<and> byte_of c \<noteq> 0xD7 \<and> byte_of c \<noteq> 0xF7)"

definition lower :: "char \<Rightarrow> char" where
  "lower c = (if CHR ''A'' \<le> c \<and> c \<le> CHR ''Z'' then char_of (byte_of c + 32) else c)"

definition blank_byte :: "char \<Rightarrow> bool" where
  "blank_byte c \<longleftrightarrow> c = CHR '' '' \<or> c = CHR 0x09 \<or> c = CHR 0x0D \<or> c = CHR 0x0A"

section \<open>Skipping, keywords\<close>

function skip_ignorable :: "parser \<Rightarrow> parser" where
  "skip_ignorable p =
     (case p_rest p of
        [] \<Rightarrow> p
      | c # cs \<Rightarrow>
          if blank_byte c then skip_ignorable (p_next p)
          else if c = CHR ''#'' then skip_ignorable (eat (length (takeWhile (\<lambda>c. c \<noteq> CHR 0x0A) (p_rest p))) p)
          else p)"
  by pat_completeness auto
termination
  by (relation "measure (\<lambda>p. length (p_rest p))") auto

declare skip_ignorable.simps [simp del]

text \<open>The keyword is compared without case; one byte of white space must follow.\<close>

definition has_keyword :: "string \<Rightarrow> parser \<Rightarrow> bool" where
  "has_keyword word p \<longleftrightarrow> length word < length (p_rest p)
     \<and> map lower (take (length word) (p_rest p)) = map lower word
     \<and> blank_byte (p_rest p ! length word)"

section \<open>IRIs, directives\<close>

definition read_iri_ref :: "parser \<Rightarrow> string parsed" where
  "read_iri_ref p =
     (if \<not> at_char CHR ''<'' p then errf p ''expected '<' to start an IRI''
      else (case read_while (\<lambda>c. c \<noteq> CHR ''>'' \<and> c \<noteq> CHR 0x0A) (p_next p) of (body, p1) \<Rightarrow>
        if p_rest p1 = [] then errf p1 ''unterminated IRI''
        else if at_char CHR 0x0A p1 then errf (p_next p1) ''unterminated IRI''
        else Inr (if p_base p1 \<noteq> [] \<and> CHR '':'' \<notin> set body then p_base p1 @ body else body, p_next p1)))"

definition end_directive :: "bool \<Rightarrow> parser \<Rightarrow> unit parsed" where
  "end_directive terminated p =
     (if terminated then
        (if \<not> at_char CHR ''.'' p then errf p ''expected '.' to end directive'' else Inr ((), p_next p))
      else if at_char CHR ''.'' p then Inr ((), p_next p)
      else Inr ((), p))"

definition directive :: "parser \<Rightarrow> unit parsed" where
  "directive p =
     (let terminated = at_char CHR ''@'' p in
      case read_while letter_byte (if terminated then p_next p else p) of (word, p1) \<Rightarrow>
        if map lower word = ''prefix'' then
          (case read_while (\<lambda>c. c \<noteq> CHR '':'') (skip_ignorable p1) of (label, p2) \<Rightarrow>
             if \<not> at_char CHR '':'' p2 then errf p2 ''expected ':' after prefix label''
             else (case read_iri_ref (skip_ignorable (p_next p2)) of
                 Inl e \<Rightarrow> Inl e
               | Inr (ns, p3) \<Rightarrow>
                   end_directive terminated (skip_ignorable
                     (p3\<lparr>p_prefixes := map_put (trim_space label) ns (p_prefixes p3)\<rparr>))))
        else if map lower word = ''base'' then
          (case read_iri_ref (skip_ignorable p1) of
             Inl e \<Rightarrow> Inl e
           | Inr (b, p2) \<Rightarrow> end_directive terminated (skip_ignorable (p2\<lparr>p_base := b\<rparr>)))
        else errf_arg p1 ''unknown directive'' word)"

section \<open>Prefixed names\<close>

text \<open>Whether a period before \<open>s\<close> ends a statement.\<close>

fun at_statement_end :: "string \<Rightarrow> bool" where
  "at_statement_end [] = True"
| "at_statement_end (c # cs) =
     (if c = CHR '' '' \<or> c = CHR 0x09 \<or> c = CHR 0x0D then at_statement_end cs
      else c = CHR 0x0A \<or> c = CHR ''#'')"

fun local_part :: "string \<Rightarrow> string" where
  "local_part [] = []"
| "local_part (c # cs) =
     (if \<not> space_byte c \<and> c \<noteq> CHR '';'' \<and> c \<noteq> CHR '','' \<and> \<not> (c = CHR ''.'' \<and> at_statement_end cs)
      then c # local_part cs else [])"

definition trim_dot :: "string \<Rightarrow> string" where
  "trim_dot s = (if s \<noteq> [] \<and> last s = CHR ''.'' then butlast s else s)"

definition read_prefixed_name :: "parser \<Rightarrow> rdf_term parsed" where
  "read_prefixed_name p =
     (case read_while (\<lambda>c. c \<noteq> CHR '':'' \<and> \<not> space_byte c \<and> c \<noteq> CHR '';'' \<and> c \<noteq> CHR '','' \<and> c \<noteq> CHR ''.'') p of
        (label, p1) \<Rightarrow>
          if \<not> at_char CHR '':'' p1 then errf p1 ''unrecognized term''
          else
            (let p2 = p_next p1; l = local_part (p_rest p2); p3 = eat (length l) p2 in
             case map_of (p_prefixes p3) label of
               None \<Rightarrow> errf_arg p3 ''undefined prefix'' label
             | Some ns \<Rightarrow> Inr (iri (ns @ trim_dot l), p3)))"

section \<open>Literals\<close>

definition hex_digit :: "char \<Rightarrow> nat option" where
  "hex_digit c =
     (if CHR ''0'' \<le> c \<and> c \<le> CHR ''9'' then Some (byte_of c - 48)
      else if CHR ''a'' \<le> c \<and> c \<le> CHR ''f'' then Some (byte_of c - 87)
      else if CHR ''A'' \<le> c \<and> c \<le> CHR ''F'' then Some (byte_of c - 55)
      else None)"

text \<open>The hex digits of an escape: eight of them stay below 2^32, and a value above the last rune is
  written as the replacement rune, as the negative \<open>rune\<close> of the code is.\<close>

fun read_hex :: "nat \<Rightarrow> nat \<Rightarrow> parser \<Rightarrow> nat parsed" where
  "read_hex 0 v p = Inr (v, p)"
| "read_hex (Suc n) v p =
     (case hex_digit (hd (p_rest p)) of
        None \<Rightarrow> errf (p_next p) ''invalid unicode escape''
      | Some d \<Rightarrow> read_hex n (v * 16 + d) (p_next p))"

lemma read_hex_shrinks: "read_hex n v p = Inr (w, p') \<Longrightarrow> length (p_rest p') \<le> length (p_rest p)"
  by (induction n v p rule: read_hex.induct) (auto simp: errf_def split: option.splits)

definition backslash :: char where "backslash = CHR 0x5C"

text \<open>An escape after its backslash: the text it stands for.\<close>

definition read_escape :: "parser \<Rightarrow> string parsed" where
  "read_escape p =
     (case p_rest p of
        [] \<Rightarrow> errf p ''unterminated escape''
      | e # _ \<Rightarrow>
          (let p1 = p_next p in
           if e = CHR ''n'' then Inr ([CHR 0x0A], p1)
           else if e = CHR ''r'' then Inr ([CHR 0x0D], p1)
           else if e = CHR ''t'' then Inr ([CHR 0x09], p1)
           else if e = backslash \<or> e = dquote \<or> e = CHR 0x27 then Inr ([e], p1)
           else if e = CHR ''u'' \<or> e = CHR ''U'' then
             (let width = (if e = CHR ''U'' then 8 else 4) in
              if length (p_rest p1) < width then errf p1 ''truncated unicode escape''
              else (case read_hex width 0 p1 of Inl er \<Rightarrow> Inl er | Inr (v, p2) \<Rightarrow> Inr (encode_rune v, p2)))
           else errf_arg p1 ''unknown escape'' [e]))"

lemma read_escape_shrinks: "read_escape p = Inr (s, p') \<Longrightarrow> length (p_rest p') < length (p_rest p)"
  by (auto simp: read_escape_def Let_def errf_def errf_arg_def split: list.splits if_splits sum.splits
      dest!: read_hex_shrinks)

function lit_loop :: "char \<Rightarrow> bool \<Rightarrow> string \<Rightarrow> parser \<Rightarrow> string parsed" where
  "lit_loop q long acc p =
     (case p_rest p of
        [] \<Rightarrow> errf p ''unterminated string literal''
      | c # cs \<Rightarrow>
          if c = backslash then
            (case read_escape (p_next p) of Inl e \<Rightarrow> Inl e | Inr (s, p1) \<Rightarrow> lit_loop q long (acc @ s) p1)
          else if c = q \<and> \<not> long then Inr (acc, p_next p)
          else if c = q \<and> take 3 (p_rest p) = [q, q, q] then Inr (acc, eat 3 p)
          else if c = CHR 0x0A \<and> \<not> long then errf p ''newline in short string literal''
          else lit_loop q long (acc @ [c]) (p_next p))"
  by pat_completeness auto
termination
  by (relation "measure (\<lambda>(q, long, acc, p). length (p_rest p))") (auto dest: read_escape_shrinks)

declare lit_loop.simps [simp del]

lemma lit_loop_shrinks: "lit_loop q long acc p = Inr (s, p') \<Longrightarrow> length (p_rest p') < length (p_rest p)"
proof (induction q long acc p rule: lit_loop.induct)
  case (1 q long acc p)
  show ?case
  proof (cases "p_rest p")
    case (Cons c cs)
    show ?thesis
    proof (cases "c = backslash")
      case True
      then obtain e p1 where e: "read_escape (p_next p) = Inr (e, p1)" "lit_loop q long (acc @ e) p1 = Inr (s, p')"
        using 1(3) Cons unfolding lit_loop.simps [of q long acc p] by (auto split: sum.splits)
      have "length (p_rest p') < length (p_rest p1)" by (rule 1(1) [OF Cons True e(1) refl e(2)])
      then show ?thesis using read_escape_shrinks [OF e(1)] Cons by simp
    next
      case False
      with 1(2) 1(3) Cons show ?thesis
        unfolding lit_loop.simps [of q long acc p] by (auto simp: errf_def split: if_splits)
    qed
  qed (use 1(3) in \<open>simp add: lit_loop.simps errf_def\<close>)
qed

definition literal :: "string \<Rightarrow> string \<Rightarrow> string \<Rightarrow> rdf_term" where
  "literal v dt lang = \<lparr>t_kind = TermLiteral, t_value = v, t_datatype = dt, t_lang = lang\<rparr>"

definition lang_byte :: "char \<Rightarrow> bool" where
  "lang_byte c \<longleftrightarrow> letter_byte c \<or> digit_byte c \<or> c = CHR ''-''"

section \<open>Terms\<close>

definition lit_open :: "parser \<Rightarrow> bool" where
  "lit_open p \<longleftrightarrow> take 3 (p_rest p) = replicate 3 (hd (p_rest p))"

lemma skip_shrinks: "length (p_rest (skip_ignorable p)) \<le> length (p_rest p)"
proof (induction p rule: skip_ignorable.induct)
  case (1 p)
  show ?case
  proof (cases "p_rest p")
    case (Cons c cs)
    consider (blank) "blank_byte c" | (comment) "\<not> blank_byte c" "c = CHR ''#''"
      | (other) "\<not> blank_byte c" "c \<noteq> CHR ''#''" by blast
    then show ?thesis
    proof cases
      case blank
      with 1(1) [OF Cons blank] Cons show ?thesis by (subst skip_ignorable.simps) simp
    next
      case comment
      with 1(2) [OF Cons comment] Cons show ?thesis by (subst skip_ignorable.simps) simp
    next
      case other
      with Cons show ?thesis by (subst skip_ignorable.simps) simp
    qed
  qed (subst skip_ignorable.simps, simp)
qed

function read_term :: "parser \<Rightarrow> rdf_term parsed" and read_literal :: "parser \<Rightarrow> rdf_term parsed" where
  "read_term p0 =
     (let p = skip_ignorable p0 in
      case p_rest p of
        [] \<Rightarrow> errf p ''unexpected end of document''
      | c # _ \<Rightarrow>
          if c = CHR ''<'' then
            (case read_iri_ref p of Inl e \<Rightarrow> Inl e | Inr (v, p') \<Rightarrow> Inr (iri v, p'))
          else if c = dquote \<or> c = CHR 0x27 then read_literal p
          else if c = CHR ''['' \<or> c = CHR '']'' then errf p ''blank nodes are not supported''
          else if c = CHR ''('' \<or> c = CHR '')'' then errf p ''RDF collections are not supported''
          else if c = CHR ''_'' then errf p ''blank node labels are not supported''
          else read_prefixed_name p)"
| "read_literal p =
     (let long = lit_open p in
      case lit_loop (hd (p_rest p)) long [] (eat (if long then 3 else 1) p) of
        Inl e \<Rightarrow> Inl e
      | Inr (v, p1) \<Rightarrow>
          if at_char CHR ''@'' p1 then
            (case read_while lang_byte (p_next p1) of (lang, p2) \<Rightarrow> Inr (literal v [] lang, p2))
          else if take 2 (p_rest p1) = ''^^'' then
            (case read_term (eat 2 p1) of
               Inl e \<Rightarrow> Inl e
             | Inr (dt, p2) \<Rightarrow>
                 if \<not> is_iri dt then errf p2 ''datatype must be an IRI''
                 else Inr (literal v (t_value dt) [], p2))
          else Inr (literal v [] [], p1))"
  by pat_completeness auto
termination
proof (relation "measure (case_sum (\<lambda>p. 2 * length (p_rest p) + 1) (\<lambda>p. 2 * length (p_rest p)))", goal_cases)
  case (2 p0 p c cs)
  then show ?case using skip_shrinks [of p0] by simp
next
  case (3 p long r v p1)
  have "length (p_rest p1) < length (p_rest (eat (if long then 3 else 1) p))"
    using 3(2,3) by (intro lit_loop_shrinks [of "hd (p_rest p)" long "[]" _ v]) simp
  with 3(5) show ?case by simp
qed simp

declare read_term.simps [simp del] read_literal.simps [simp del]

lemma read_iri_ref_shrinks: "read_iri_ref p = Inr (v, p') \<Longrightarrow> length (p_rest p') < length (p_rest p)"
  by (auto simp: read_iri_ref_def read_while_def Let_def errf_def at_char_def neq_Nil_conv split: if_splits)

lemma read_prefixed_name_shrinks: "read_prefixed_name p = Inr (t, p') \<Longrightarrow> length (p_rest p') < length (p_rest p)"
proof -
  assume r: "read_prefixed_name p = Inr (t, p')"
  obtain label p1 where l: "read_while (\<lambda>c. c \<noteq> CHR '':'' \<and> \<not> space_byte c \<and> c \<noteq> CHR '';'' \<and> c \<noteq> CHR '','' \<and> c \<noteq> CHR ''.'') p
    = (label, p1)" by force
  with r have "p_rest p1 \<noteq> []" "\<exists>k. p' = eat k (p_next p1)"
    by (auto simp: read_prefixed_name_def Let_def errf_def errf_arg_def at_char_def split: if_splits option.splits)
  then have "length (p_rest p') < length (p_rest p1)" by (auto simp: neq_Nil_conv)
  moreover have "length (p_rest p1) \<le> length (p_rest p)" using l by (auto simp: read_while_def Let_def)
  ultimately show ?thesis by simp
qed

lemma read_term_shrinks:
  "read_term p = Inr (t, p') \<Longrightarrow> length (p_rest p') < length (p_rest p)"
  "read_literal q = Inr (t', q') \<Longrightarrow> length (p_rest q') < length (p_rest q)"
proof (induction p and q arbitrary: t p' and t' q' rule: read_term_read_literal.induct)
  case (1 p0)
  show ?case
  proof (cases "p_rest (skip_ignorable p0)")
    case (Cons c cs)
    have "length (p_rest p') < length (p_rest (skip_ignorable p0))"
      using 1 Cons unfolding read_term.simps [of p0]
      by (auto simp: Let_def errf_def split: if_splits sum.splits
          dest!: read_iri_ref_shrinks read_prefixed_name_shrinks)
    then show ?thesis using skip_shrinks [of p0] by simp
  qed (use 1(2) in \<open>simp add: read_term.simps Let_def errf_def\<close>)
next
  case (2 p)
  let ?long = "lit_open p"
  obtain v p1 where l: "lit_loop (hd (p_rest p)) ?long [] (eat (if ?long then 3 else 1) p) = Inr (v, p1)"
    using 2(2) unfolding read_literal.simps [of p] by (auto simp: Let_def split: sum.splits)
  then have "length (p_rest p1) < length (p_rest p)" by (auto dest!: lit_loop_shrinks)
  then show ?case
    using 2 l unfolding read_literal.simps [of p]
    by (auto simp: Let_def read_while_def errf_def split: if_splits sum.splits; fastforce)
qed

section \<open>Statements and documents\<close>

definition is_term_break :: "char \<Rightarrow> bool" where
  "is_term_break c \<longleftrightarrow> blank_byte c \<or> c = CHR ''#''"

definition read_predicate :: "parser \<Rightarrow> rdf_term parsed" where
  "read_predicate p =
     (if has_keyword ''a'' p \<and> (length (p_rest p) \<le> 1 \<or> is_term_break (p_rest p ! 1))
      then Inr (iri rdf_type, p_next p)
      else (case read_term p of
          Inl e \<Rightarrow> Inl e
        | Inr (t, p1) \<Rightarrow> if \<not> is_iri t then errf p1 ''predicate must be an IRI'' else Inr (t, p1)))"

lemma read_predicate_shrinks: "read_predicate p = Inr (t, p') \<Longrightarrow> length (p_rest p') < length (p_rest p)"
  by (auto simp: read_predicate_def has_keyword_def errf_def split: if_splits sum.splits dest: read_term_shrinks)

text \<open>The objects of one predicate, separated by commas.\<close>

function objects_loop :: "rdf_term \<Rightarrow> rdf_term \<Rightarrow> parser \<Rightarrow> graph \<Rightarrow> graph parsed" where
  "objects_loop s pr p g =
     (case read_term (skip_ignorable p) of
        Inl e \<Rightarrow> Inl e
      | Inr (ob, p1) \<Rightarrow>
          (let g1 = add_statement s pr ob g; p2 = skip_ignorable p1 in
           if at_char CHR '','' p2 then objects_loop s pr (p_next p2) g1 else Inr (g1, p2)))"
  by pat_completeness auto
termination
proof (relation "measure (\<lambda>(s, pr, p, g). length (p_rest p))", simp, goal_cases)
  case (1 s pr p g r ob p1 g1 p2)
  then have "length (p_rest p1) < length (p_rest p)"
    using read_term_shrinks(1) [of "skip_ignorable p" ob p1] skip_shrinks [of p] by auto
  with 1 skip_shrinks [of p1] show ?case by simp
qed

declare objects_loop.simps [simp del]

lemma objects_loop_shrinks: "objects_loop s pr p g = Inr (g', p') \<Longrightarrow> length (p_rest p') < length (p_rest p)"
proof (induction s pr p g rule: objects_loop.induct)
  case (1 s pr p g)
  obtain ob p1 where r: "read_term (skip_ignorable p) = Inr (ob, p1)"
    using 1(2) unfolding objects_loop.simps [of s pr p g] by (auto split: sum.splits)
  have p1: "length (p_rest (skip_ignorable p1)) < length (p_rest p)"
    using read_term_shrinks(1) [OF r] skip_shrinks [of p] skip_shrinks [of p1] by simp
  show ?case
  proof (cases "at_char CHR '','' (skip_ignorable p1)")
    case True
    have "length (p_rest p') < length (p_rest (p_next (skip_ignorable p1)))"
      by (rule 1(1) [OF r refl refl refl True])
        (use 1(2) r True in \<open>simp add: objects_loop.simps [of s pr p g] Let_def\<close>)
    with p1 show ?thesis by simp
  next
    case False
    with 1(2) r p1 show ?thesis by (auto simp: objects_loop.simps [of s pr p g] Let_def)
  qed
qed

text \<open>The predicates of one subject, separated by semicolons, up to the period.\<close>

function predicates_loop :: "rdf_term \<Rightarrow> parser \<Rightarrow> graph \<Rightarrow> graph parsed" where
  "predicates_loop s p g =
     (case read_predicate (skip_ignorable p) of
        Inl e \<Rightarrow> Inl e
      | Inr (pr, p1) \<Rightarrow>
          (case objects_loop s pr p1 g of
             Inl e \<Rightarrow> Inl e
           | Inr (g1, p2) \<Rightarrow>
               (let p3 = skip_ignorable p2 in
                if p_rest p3 = [] then errf p3 ''expected '.' to end statement''
                else if at_char CHR '';'' p3 then
                  (let p4 = skip_ignorable (p_next p3) in
                   if at_char CHR ''.'' p4 then Inr (g1, p_next p4) else predicates_loop s p4 g1)
                else if at_char CHR ''.'' p3 then Inr (g1, p_next p3)
                else errf_arg p3 ''expected ';' or '.', found'' [hd (p_rest p3)])))"
  by pat_completeness auto
termination
proof (relation "measure (\<lambda>(s, p, g). length (p_rest p))", simp, goal_cases)
  case (1 s p g r pr p1 r' g1 p2 p3 p4)
  have "length (p_rest p1) < length (p_rest (skip_ignorable p))"
    using 1(1,2) by (auto intro: read_predicate_shrinks)
  moreover have "length (p_rest p2) < length (p_rest p1)"
    using 1(3,4) by (auto intro: objects_loop_shrinks)
  ultimately show ?case
    using 1 skip_shrinks [of p] skip_shrinks [of p2] skip_shrinks [of "p_next p3"] by simp
qed

declare predicates_loop.simps [simp del]

lemma predicates_loop_shrinks: "predicates_loop s p g = Inr (g', p') \<Longrightarrow> length (p_rest p') < length (p_rest p)"
proof (induction s p g rule: predicates_loop.induct)
  case (1 s p g)
  obtain pr p1 where r: "read_predicate (skip_ignorable p) = Inr (pr, p1)"
    using 1(2) unfolding predicates_loop.simps [of s p g] by (auto split: sum.splits)
  then obtain g1 p2 where ol: "objects_loop s pr p1 g = Inr (g1, p2)"
    using 1(2) unfolding predicates_loop.simps [of s p g] by (auto split: sum.splits)
  let ?p3 = "skip_ignorable p2"
  let ?p4 = "skip_ignorable (p_next ?p3)"
  have p3: "length (p_rest ?p3) < length (p_rest p)"
    using read_predicate_shrinks [OF r] objects_loop_shrinks [OF ol] skip_shrinks [of p] skip_shrinks [of p2] by simp
  have p4: "length (p_rest ?p4) < length (p_rest p)" using p3 skip_shrinks [of "p_next ?p3"] by simp
  have eq: "predicates_loop s p g =
    (if p_rest ?p3 = [] then errf ?p3 ''expected '.' to end statement''
     else if at_char CHR '';'' ?p3 then (if at_char CHR ''.'' ?p4 then Inr (g1, p_next ?p4) else predicates_loop s ?p4 g1)
     else if at_char CHR ''.'' ?p3 then Inr (g1, p_next ?p3)
     else errf_arg ?p3 ''expected ';' or '.', found'' [hd (p_rest ?p3)])"
    using r ol by (simp add: predicates_loop.simps [of s p g] Let_def)
  show ?case
  proof (cases "p_rest ?p3 \<noteq> [] \<and> at_char CHR '';'' ?p3 \<and> \<not> at_char CHR ''.'' ?p4")
    case True
    have "length (p_rest p') < length (p_rest ?p4)"
      by (rule 1(1) [OF r refl ol refl refl]) (use True eq 1(2) in auto)
    with p4 show ?thesis by simp
  next
    case False
    have "p' = p_next ?p4 \<or> p' = p_next ?p3"
      using 1(2) eq False by (auto simp: errf_def errf_arg_def split: if_splits)
    with p3 p4 show ?thesis by auto
  qed
qed

definition statement :: "parser \<Rightarrow> graph \<Rightarrow> graph parsed" where
  "statement p g =
     (case read_term p of
        Inl e \<Rightarrow> Inl e
      | Inr (s, p1) \<Rightarrow> if \<not> is_iri s then errf p1 ''subject must be an IRI'' else predicates_loop s p1 g)"

lemma statement_shrinks: "statement p g = Inr (g', p') \<Longrightarrow> length (p_rest p') < length (p_rest p)"
  by (auto simp: statement_def errf_def split: sum.splits if_splits dest!: read_term_shrinks predicates_loop_shrinks)

lemma end_directive_shrinks: "end_directive b p = Inr (u, p') \<Longrightarrow> length (p_rest p') \<le> length (p_rest p)"
  by (auto simp: end_directive_def errf_def split: if_splits)

lemma directive_shrinks:
  assumes "directive p = Inr (u, p')"
  shows "length (p_rest p') < length (p_rest p)"
proof -
  obtain word p1 where w: "read_while letter_byte (if at_char CHR ''@'' p then p_next p else p) = (word, p1)" by force
  then have p1: "length (p_rest p1) \<le> length (p_rest p)" by (auto simp: read_while_def Let_def split: if_splits)
  show ?thesis
  proof (cases "map lower word = ''prefix''")
    case True
    obtain label p2 where l: "read_while (\<lambda>c. c \<noteq> CHR '':'') (skip_ignorable p1) = (label, p2)" by force
    then have p2: "length (p_rest p2) \<le> length (p_rest p)"
      using p1 skip_shrinks [of p1] by (auto simp: read_while_def Let_def)
    obtain ns p3 where i: "read_iri_ref (skip_ignorable (p_next p2)) = Inr (ns, p3)"
        and e: "end_directive (at_char CHR ''@'' p) (skip_ignorable (p3\<lparr>p_prefixes := map_put (trim_space label) ns (p_prefixes p3)\<rparr>)) = Inr (u, p')"
      using assms w l True by (auto simp: directive_def Let_def errf_def split: sum.splits if_splits)
    show ?thesis
      using read_iri_ref_shrinks [OF i] end_directive_shrinks [OF e] p2 skip_shrinks [of "p_next p2"]
        skip_shrinks [of "p3\<lparr>p_prefixes := map_put (trim_space label) ns (p_prefixes p3)\<rparr>"] by simp
  next
    case False
    then obtain b p2 where i: "read_iri_ref (skip_ignorable p1) = Inr (b, p2)"
        and e: "end_directive (at_char CHR ''@'' p) (skip_ignorable (p2\<lparr>p_base := b\<rparr>)) = Inr (u, p')"
      using assms w by (auto simp: directive_def Let_def errf_arg_def split: sum.splits if_splits)
    show ?thesis
      using read_iri_ref_shrinks [OF i] end_directive_shrinks [OF e] p1 skip_shrinks [of p1]
        skip_shrinks [of "p2\<lparr>p_base := b\<rparr>"] by simp
  qed
qed

function parse_loop :: "parser \<Rightarrow> graph \<Rightarrow> (parse_error, graph \<times> parser) res" where
  "parse_loop p0 g =
     (let p = skip_ignorable p0 in
      if p_rest p = [] then Inr (g, p)
      else if at_char CHR ''@'' p \<or> has_keyword ''PREFIX'' p \<or> has_keyword ''BASE'' p then
        (case directive p of Inl e \<Rightarrow> Inl e | Inr (u, p1) \<Rightarrow> parse_loop p1 g)
      else (case statement p g of Inl e \<Rightarrow> Inl e | Inr (g1, p1) \<Rightarrow> parse_loop p1 g1))"
  by pat_completeness auto
termination
proof (relation "measure (\<lambda>(p, g). length (p_rest p))", simp, goal_cases)
  case (1 p0 g p r u p1)
  then have "length (p_rest p1) < length (p_rest p)" by (auto intro: directive_shrinks)
  with 1 skip_shrinks [of p0] show ?case by simp
next
  case (2 p0 g p r g1 p1)
  then have "length (p_rest p1) < length (p_rest p)" by (auto intro: statement_shrinks)
  with 2 skip_shrinks [of p0] show ?case by simp
qed

declare parse_loop.simps [simp del]

definition empty_graph :: graph where
  "empty_graph = \<lparr>g_triples = [], g_seen = {}, g_prefixes = [], g_index = None\<rparr>"

definition new_parser :: "string \<Rightarrow> parser" where
  "new_parser src = \<lparr>p_rest = src, p_line = 1, p_base = [], p_prefixes = []\<rparr>"

definition parse_turtle :: "string \<Rightarrow> (parse_error, graph) res" where
  "parse_turtle src =
     (case parse_loop (new_parser src) empty_graph of
        Inl e \<Rightarrow> Inl e
      | Inr (g, p) \<Rightarrow> Inr (g\<lparr>g_prefixes := p_prefixes p\<rparr>))"

end
