(* ===== verification/Turtle_Roundtrip.thy ===== *)
theory Turtle_Roundtrip
  imports Turtle_Write Turtle_Parse
begin

text \<open>
  What the writer writes, the reader reads: the readers of the reader run over the pieces of a
  written document, up to the whole document. A reader that leaves the text \<open>r\<close> after its piece
  \<open>lands\<close> there with base and prefixes untouched.
\<close>

named_theorems char_facts "evaluated facts about single bytes"

section \<open>Landing after a piece of text\<close>

definition lands :: "parser \<Rightarrow> string \<Rightarrow> parser \<Rightarrow> bool" where
  "lands p r p' \<longleftrightarrow> p_rest p' = r \<and> p_base p' = p_base p \<and> p_prefixes p' = p_prefixes p"

lemma lands_eat: "p_rest p = s @ r \<Longrightarrow> n = length s \<Longrightarrow> lands p r (eat n p)"
  by (simp add: lands_def)

lemma lands_trans: "lands p r p' \<Longrightarrow> lands p' r' p'' \<Longrightarrow> lands p r' p''"
  by (simp add: lands_def)

definition solid :: "string \<Rightarrow> bool" where
  "solid s \<longleftrightarrow> s = [] \<or> \<not> blank_byte (hd s) \<and> hd s \<noteq> CHR ''#''"

definition stop :: "string \<Rightarrow> bool" where
  "stop r \<longleftrightarrow> r \<noteq> [] \<and> (hd r = CHR '' '' \<or> hd r = CHR '','' \<or> hd r = CHR 0x0A)"

lemma skip_solid: "solid (p_rest p) \<Longrightarrow> skip_ignorable p = p"
  by (subst skip_ignorable.simps) (auto simp: solid_def split: list.split)

lemma eat_eat: "eat n (eat m p) = eat (m + n) p"
  by (simp add: eat_def newlines_def take_add drop_drop add.commute flip: filter_append length_append)

lemma skip_blanks:
  "list_all blank_byte w \<Longrightarrow> p_rest p = w @ r \<Longrightarrow> solid r \<Longrightarrow> skip_ignorable p = eat (length w) p"
proof (induction w arbitrary: p)
  case Nil
  then show ?case using skip_solid [of p] by (simp add: eat_def newlines_def)
next
  case (Cons c w)
  then have "skip_ignorable p = skip_ignorable (p_next p)"
    by (subst skip_ignorable.simps) simp
  also have "\<dots> = eat (length w) (p_next p)" using Cons by (intro Cons(1)) auto
  finally show ?case by (simp add: eat_eat)
qed

lemma skip_lands:
  assumes "list_all blank_byte w" "p_rest p = w @ r" "solid r"
  shows "lands p r (skip_ignorable p)"
  unfolding skip_blanks [OF assms] by (rule lands_eat [OF assms(2) refl])

section \<open>IRIs\<close>

definition plain_iri :: "string \<Rightarrow> bool" where
  "plain_iri v \<longleftrightarrow> CHR ''>'' \<notin> set v \<and> CHR 0x0A \<notin> set v"

lemma takeWhile_all_append: "\<forall>c \<in> set s. P c \<Longrightarrow> r = [] \<or> \<not> P (hd r) \<Longrightarrow> takeWhile P (s @ r) = s"
  by (cases r) (simp_all add: takeWhile_tail takeWhile_append2)

lemma read_while_append:
  assumes "p_rest p = s @ r" "\<forall>c \<in> set s. keep c" "r = [] \<or> \<not> keep (hd r)"
  shows "read_while keep p = (s, eat (length s) p)"
  unfolding read_while_def assms(1) takeWhile_all_append [OF assms(2,3)] by (simp add: Let_def)

lemma read_iri_ref_plain:
  assumes "p_rest p = ''<'' @ v @ ''>'' @ r" "plain_iri v" "p_base p = []"
  shows "\<exists>p'. read_iri_ref p = Inr (v, p') \<and> lands p r p'"
proof -
  have w: "read_while (\<lambda>c. c \<noteq> CHR ''>'' \<and> c \<noteq> CHR 0x0A) (p_next p) = (v, eat (length v) (p_next p))"
    using assms by (intro read_while_append [where r = "''>'' @ r"]) (auto simp: plain_iri_def)
  have "lands p r (p_next (eat (length v) (p_next p)))" using assms(1) by (simp add: lands_def)
  moreover have "read_iri_ref p = Inr (v, p_next (eat (length v) (p_next p)))"
    using assms by (simp add: read_iri_ref_def at_char_def w)
  ultimately show ?thesis by blast
qed

text \<open>The labels and local names an abbreviation uses.\<close>

definition label_ok :: "string \<Rightarrow> bool" where
  "label_ok l \<longleftrightarrow> l \<noteq> [] \<and> ascii_letter (hd l)
     \<and> list_all (\<lambda>c. ascii_letter c \<or> ascii_digit c \<or> c = CHR ''_'' \<or> c = CHR ''-'') l"

definition prefixes_ok :: "(string \<times> string) list \<Rightarrow> bool" where
  "prefixes_ok ps \<longleftrightarrow> distinct (map fst ps) \<and> list_all (\<lambda>(l, ns). label_ok l \<and> plain_iri ns) ps"

definition name_char :: "char \<Rightarrow> bool" where
  "name_char c \<longleftrightarrow> ascii_letter c \<or> ascii_digit c \<or> c \<in> set ''_:-.''"

text \<open>What the bytes of a name are not.\<close>

lemmas byte_defs = ascii_letter_def ascii_digit_def name_char_def space_byte_def is_space_rune_def blank_byte_def
  less_eq_char_def

lemma name_char_facts [char_facts]:
  "name_char c \<Longrightarrow> \<not> space_byte c \<and> c \<noteq> CHR '';'' \<and> c \<noteq> CHR '','' \<and> c \<noteq> CHR ''#'' \<and> \<not> blank_byte c
     \<and> c \<noteq> CHR '' '' \<and> c \<noteq> CHR 0x09 \<and> c \<noteq> CHR 0x0D \<and> c \<noteq> CHR 0x0A"
  by (auto simp: byte_defs)

lemma ascii_letter_facts [char_facts]:
  "ascii_letter c \<Longrightarrow> name_char c \<and> c \<notin> set ''<[]()_@:.-'' \<and> c \<noteq> dquote \<and> c \<noteq> CHR 0x27
     \<and> byte_of c < 0x80 \<and> \<not> is_space_rune (byte_of c)"
  by (auto simp: byte_defs dquote_def)

lemma label_char_facts [char_facts]:
  "ascii_letter c \<or> ascii_digit c \<or> c = CHR ''_'' \<or> c = CHR ''-'' \<Longrightarrow>
     name_char c \<and> c \<noteq> CHR '':'' \<and> c \<noteq> CHR ''.'' \<and> byte_of c < 0x80 \<and> \<not> is_space_rune (byte_of c)"
  by (auto simp: byte_defs)

lemma local_char_name: "local_char_ok n i c \<Longrightarrow> name_char c"
  by (auto simp: local_char_ok_def name_char_def split: if_splits)

lemma local_char_last: "local_char_ok (Suc i) i c \<Longrightarrow> c \<noteq> CHR ''.''"
  by (auto simp: local_char_ok_def ascii_letter_def ascii_digit_def)

lemma stop_local_part: "stop r \<Longrightarrow> local_part r = []"
proof -
  have "space_byte CHR '' ''" "space_byte CHR 0x0A" by code_simp+
  then show "stop r \<Longrightarrow> local_part r = []" by (cases r) (auto simp: stop_def)
qed

lemma local_name_chars:
  assumes "is_prefixed_local_name l"
  shows "l \<noteq> []" "list_all name_char l" "last l \<noteq> CHR ''.''"
proof -
  show ne: "l \<noteq> []" using assms by (simp add: is_prefixed_local_name_def)
  have ok: "local_char_ok (length l) i (l ! i)" if "i < length l" for i
  proof -
    have "enumerate 0 l ! i = (i, l ! i)" using that by (simp add: nth_enumerate_eq)
    moreover have "enumerate 0 l ! i \<in> set (enumerate 0 l)" using that by simp
    ultimately show ?thesis
      using assms unfolding is_prefixed_local_name_def list_all_iff by force
  qed
  then show "list_all name_char l"
    by (auto simp: list_all_length dest: local_char_name)
  have "l ! (length l - 1) = last l" using ne by (simp add: last_conv_nth)
  with ok [of "length l - 1"] ne show "last l \<noteq> CHR ''.''"
    using local_char_last [of "length l - 1" "last l"] by simp
qed

lemma local_part_name:
  "list_all name_char l \<Longrightarrow> l \<noteq> [] \<Longrightarrow> last l \<noteq> CHR ''.'' \<Longrightarrow> stop r \<Longrightarrow> local_part (l @ r) = l"
proof (induction l)
  case (Cons c l)
  have c: "\<not> space_byte c" "c \<noteq> CHR '';''" "c \<noteq> CHR '',''" using name_char_facts [of c] Cons(2) by auto
  show ?case
  proof (cases "l = []")
    case True
    with c stop_local_part [OF Cons(5)] Cons(4) show ?thesis by simp
  next
    case False
    then obtain d ds where l: "l = d # ds" by (cases l) auto
    have "name_char d" using Cons(2) l by simp
    then have "\<not> at_statement_end (l @ r)" using name_char_facts [of d] l by simp
    with c False Cons show ?thesis by simp
  qed
qed simp

lemma read_prefixed_name_ok:
  assumes "p_rest p = label @ '':'' @ l @ r" "label_ok label" "is_prefixed_local_name l" "stop r"
    "map_of (p_prefixes p) label = Some ns"
  shows "\<exists>p'. read_prefixed_name p = Inr (iri (ns @ l), p') \<and> lands p r p'"
proof -
  have lab: "c \<noteq> CHR '':'' \<and> \<not> space_byte c \<and> c \<noteq> CHR '';'' \<and> c \<noteq> CHR '','' \<and> c \<noteq> CHR ''.''" if "c \<in> set label" for c
    using assms(2) that label_char_facts [of c] name_char_facts [of c] by (auto simp: label_ok_def list_all_iff)
  have w: "read_while (\<lambda>c. c \<noteq> CHR '':'' \<and> \<not> space_byte c \<and> c \<noteq> CHR '';'' \<and> c \<noteq> CHR '','' \<and> c \<noteq> CHR ''.'') p
      = (label, eat (length label) p)"
    using assms(1) lab by (intro read_while_append [where r = "'':'' @ l @ r"]) auto
  note chars = local_name_chars [OF assms(3)]
  have lp: "local_part (l @ r) = l" by (rule local_part_name [OF chars(2,1,3) assms(4)])
  have "trim_dot l = l" using chars(3) by (simp add: trim_dot_def)
  then have "read_prefixed_name p = Inr (iri (ns @ l), eat (length l) (p_next (eat (length label) p)))"
    using assms(1,5) by (simp add: read_prefixed_name_def w at_char_def lp Let_def)
  moreover have "lands p r (eat (length l) (p_next (eat (length label) p)))"
    using assms(1) by (simp add: lands_def)
  ultimately show ?thesis by blast
qed

definition ready :: "(string \<times> string) list \<Rightarrow> parser \<Rightarrow> bool" where
  "ready ps p \<longleftrightarrow> p_base p = [] \<and> map_of (p_prefixes p) = map_of ps"

lemma ready_lands: "ready ps p \<Longrightarrow> lands p r p' \<Longrightarrow> ready ps p'"
  by (simp add: ready_def lands_def)

text \<open>How a written IRI begins, and that it reads back.\<close>

lemma write_iri_cases:
  assumes "prefixes_ok ps"
  obtains "write_iri ps v = ''<'' @ v @ ''>''"
  | label ns l where "write_iri ps v = label @ '':'' @ l" "label_ok label" "is_prefixed_local_name l"
      "v = ns @ l" "map_of ps label = Some ns"
proof (cases "fst (abbreviate ps v) = []")
  case True
  then show ?thesis using that(1) by (cases "abbreviate ps v") (simp add: write_iri_def)
next
  case False
  have ne: "\<forall>b \<in> set ps. fst b \<noteq> []" using assms by (auto simp: prefixes_ok_def list_all_iff label_ok_def)
  obtain label ns where b: "abbreviate ps v = (label, ns)" by force
  with False abbreviate_cases [OF ne, of v] have m: "(label, ns) \<in> set ps" "abbrev_candidate v (label, ns)" by auto
  have "label_ok label" using assms m(1) by (auto simp: prefixes_ok_def list_all_iff)
  moreover have "map_of ps label = Some ns" using assms m(1) by (simp add: prefixes_ok_def)
  moreover have "v = ns @ drop (length ns) v" using m(2) by (auto simp: abbrev_candidate_def elim: prefixE)
  ultimately show ?thesis
    using that(2) [of label "drop (length ns) v" ns] False b m(2) by (simp add: write_iri_def abbrev_candidate_def)
qed

lemma read_term_iri:
  assumes "p_rest p = write_iri ps v @ r" "ready ps p" "prefixes_ok ps" "plain_iri v" "stop r"
  shows "\<exists>p'. read_term p = Inr (iri v, p') \<and> lands p r p'"
  using assms(3)
proof (cases rule: write_iri_cases [where v = v])
  case 1
  then have rest: "p_rest p = ''<'' @ v @ ''>'' @ r" using assms(1) by simp
  then have "skip_ignorable p = p" by (intro skip_solid) (simp add: solid_def blank_byte_def)
  moreover obtain p' where "read_iri_ref p = Inr (v, p')" "lands p r p'"
    using read_iri_ref_plain [OF rest assms(4)] assms(2) by (auto simp: ready_def)
  ultimately show ?thesis using rest by (simp add: read_term.simps Let_def)
next
  case (2 label ns l)
  then have rest: "p_rest p = label @ '':'' @ l @ r" using assms(1) by simp
  obtain c cs where label: "label = c # cs" "ascii_letter c" using 2(2) by (cases label) (auto simp: label_ok_def)
  then have c: "name_char c" "c \<notin> set ''<[]()_@:.-''" "c \<noteq> dquote" "c \<noteq> CHR 0x27"
    using ascii_letter_facts [of c] by blast+
  then have "skip_ignorable p = p"
    using rest label name_char_facts [of c] by (intro skip_solid) (simp add: solid_def)
  moreover obtain p' where "read_prefixed_name p = Inr (iri v, p')" "lands p r p'"
    using read_prefixed_name_ok [OF rest 2(2,3) assms(5), of ns] 2(4,5) assms(2) by (auto simp: ready_def)
  ultimately show ?thesis using rest label c by (simp add: read_term.simps Let_def)
qed

section \<open>Literals\<close>

lemma byte_of_char_of: "x < 256 \<Longrightarrow> byte_of (char_of x) = (x::nat)"
  by (simp add: take_bit_eq_mod)

lemma encode_rune_wide: "\<not> r < 0x80 \<Longrightarrow> c \<in> set (encode_rune r) \<Longrightarrow> 0x80 \<le> byte_of c"
proof -
  assume r: "\<not> r < 0x80" and c: "c \<in> set (encode_rune r)"
  have mod: "(0x80::nat) + k mod 64 < 256" for k by (rule less_le_trans [of _ "0x80 + 64"]) auto
  have div: "r < 0x800 \<Longrightarrow> 0xC0 + r div 64 < 256" "r < 0x10000 \<Longrightarrow> 0xE0 + r div 4096 < 256"
    "r \<le> 0x10FFFF \<Longrightarrow> 0xF0 + r div 262144 < 256"
    by (simp_all add: less_mult_imp_div_less div_le_mono [THEN le_less_trans])
  from r c show ?thesis
    by (auto simp: encode_rune_def byte_of_char_of mod div not_less split: if_splits)
qed

lemma encode_rune_ascii: "r < 0x80 \<Longrightarrow> encode_rune r = [char_of r]"
  by (simp add: encode_rune_def)

lemma encode_rune_byte:
  assumes "c \<in> set (encode_rune r)" "byte_of c < 0x80"
  shows "r = byte_of c"
proof (cases "r < 0x80")
  case True
  with assms(1) show ?thesis by (simp add: encode_rune_ascii byte_of_char_of)
qed (use encode_rune_wide assms in fastforce)

lemma lit_plain:
  "\<forall>c \<in> set bs. c \<noteq> backslash \<and> c \<noteq> q \<and> (c = CHR 0x0A \<longrightarrow> long) \<Longrightarrow> p_rest p = bs @ s \<Longrightarrow>
    \<exists>p'. lit_loop q long acc p = lit_loop q long (acc @ bs) p' \<and> lands p s p'"
proof (induction bs arbitrary: acc p)
  case Nil
  then show ?case by (auto simp: lands_def)
next
  case (Cons c bs)
  have "lit_loop q long acc p = lit_loop q long (acc @ [c]) (p_next p)"
    using Cons(2,3) by (subst lit_loop.simps) auto
  moreover obtain p' where "lit_loop q long (acc @ [c]) (p_next p) = lit_loop q long ((acc @ [c]) @ bs) p'"
      "lands (p_next p) s p'"
    using Cons(1) [of "p_next p" "acc @ [c]"] Cons(2,3) by auto
  moreover have "lands p (bs @ s) (p_next p)" using Cons(3) by (simp add: lands_def)
  ultimately show ?case by (auto intro: lands_trans)
qed

text \<open>An escape reads back as the byte it stands for.\<close>

lemma lit_escape:
  assumes "p_rest p = backslash # e # s" "(e, c) \<in> {(backslash, CHR 0x5C), (dquote, CHR 0x22), (CHR ''n'', CHR 0x0A),
      (CHR ''r'', CHR 0x0D), (CHR ''t'', CHR 0x09)}"
  shows "lit_loop q long acc p = lit_loop q long (acc @ [c]) (eat 2 p)"
proof -
  have "read_escape (p_next p) = Inr ([c], eat 2 p)"
    using assms by (auto simp: read_escape_def backslash_def dquote_def eat_eat Let_def numeral_2_eq_2)
  then show ?thesis using assms(1) by (subst lit_loop.simps) simp
qed

lemma escape_rune_cases:
  obtains (esc) e c where "escape_rune long r = [backslash, e]" "encode_rune r = [c]"
      "(e, c) \<in> {(backslash, CHR 0x5C), (dquote, CHR 0x22), (CHR ''n'', CHR 0x0A), (CHR ''r'', CHR 0x0D), (CHR ''t'', CHR 0x09)}"
  | (plain) "escape_rune long r = encode_rune r"
      "\<forall>c \<in> set (encode_rune r). c \<noteq> backslash \<and> c \<noteq> dquote \<and> (c = CHR 0x0A \<longrightarrow> long)"
proof (cases "r = 0x5C \<or> r = 0x22 \<or> (r = 0x0A \<and> \<not> long) \<or> r = 0x0D \<or> (r = 0x09 \<and> \<not> long)")
  case True
  have "char_of (0x5C::nat) = CHR 0x5C" "char_of (0x22::nat) = CHR 0x22" "char_of (0x0A::nat) = CHR 0x0A"
    "char_of (0x0D::nat) = CHR 0x0D" "char_of (0x09::nat) = CHR 0x09" by code_simp+
  with True that(1) show ?thesis
    by (auto simp: escape_rune_def encode_rune_ascii backslash_def dquote_def)
next
  case False
  have "byte_of backslash = 0x5C" "byte_of dquote = 0x22" "byte_of (CHR 0x0A) = 0x0A"
    by (simp_all add: backslash_def dquote_def)
  then have "c \<noteq> backslash \<and> c \<noteq> dquote \<and> (c = CHR 0x0A \<longrightarrow> long)" if "c \<in> set (encode_rune r)" for c
    using encode_rune_byte [OF that] False by auto
  moreover have "escape_rune long r = encode_rune r" using False by (auto simp: escape_rune_def)
  ultimately show ?thesis using that(2) by blast
qed

lemma lit_rune:
  assumes "p_rest p = escape_rune long r @ s"
  shows "\<exists>p'. lit_loop dquote long acc p = lit_loop dquote long (acc @ encode_rune r) p' \<and> lands p s p'"
proof (cases rule: escape_rune_cases [of long r])
  case (esc e c)
  then have "lit_loop dquote long acc p = lit_loop dquote long (acc @ [c]) (eat 2 p)"
    using assms by (intro lit_escape) auto
  moreover have "lands p s (eat 2 p)" using assms esc(1) by (simp add: lands_def)
  ultimately show ?thesis using esc(2) by auto
next
  case plain
  with assms show ?thesis by (intro lit_plain) auto
qed

lemma lit_text:
  "valid_utf8 v \<Longrightarrow> p_rest p = concat (map (escape_rune long) (runes v)) @ s \<Longrightarrow>
    \<exists>p'. lit_loop dquote long acc p = lit_loop dquote long (acc @ v) p' \<and> lands p s p'"
proof (induction v arbitrary: acc p rule: valid_utf8_induct)
  case Nil
  then show ?case by (auto simp: runes.simps lands_def)
next
  case (step v r n)
  have rv: "runes v = r # runes (drop n v)" using step(1,3) by (simp add: runes.simps [of v])
  then obtain p1 where p1: "lit_loop dquote long acc p = lit_loop dquote long (acc @ take n v) p1"
      "lands p (concat (map (escape_rune long) (runes (drop n v))) @ s) p1"
    using lit_rune [of p long r _ acc] step(4,9) by auto
  obtain p2 where p2: "lit_loop dquote long (acc @ take n v) p1 = lit_loop dquote long ((acc @ take n v) @ drop n v) p2"
      "lands p1 s p2"
    using step(8) [of p1 "acc @ take n v"] p1(2) by (auto simp: lands_def)
  then show ?case using p1 p2 lands_trans [OF p1(2) p2(2)] by auto
qed

lemma escape_head: "concat (map (escape_rune long) rs) = [] \<or> hd (concat (map (escape_rune long) rs)) \<noteq> dquote"
proof (cases rs)
  case (Cons r rs')
  show ?thesis
  proof (cases rule: escape_rune_cases [of long r])
    case (esc e c)
    then show ?thesis using Cons by (simp add: backslash_def dquote_def)
  next
    case plain
    have "encode_rune r \<noteq> []" by (simp add: encode_rune_def)
    then have "hd (encode_rune r) \<noteq> dquote" using plain(2) hd_in_set by blast
    with plain(1) Cons \<open>encode_rune r \<noteq> []\<close> show ?thesis by simp
  qed
qed simp

definition literal_tail :: "string \<Rightarrow> bool" where
  "literal_tail r \<longleftrightarrow> r \<noteq> [] \<and> (stop r \<or> hd r = CHR ''@'' \<or> hd r = CHR ''^'')"

text \<open>The quoted text of a literal, up to what follows it.\<close>

lemma lit_quoted:
  assumes "p_rest p = quote_literal v @ r" "valid_utf8 v" "literal_tail r"
  shows "hd (p_rest p) = dquote
    \<and> (\<exists>p'. lit_loop dquote (lit_open p) [] (eat (if lit_open p then 3 else 1) p) = Inr (v, p') \<and> lands p r p')"
proof (cases "CHR 0x0A \<in> set v")
  case True
  then have rest: "p_rest p = [dquote, dquote, dquote] @ escape_long v @ [dquote, dquote, dquote] @ r"
    using assms(1) by (simp add: quote_literal_def)
  then have o: "lit_open p" by (simp add: lit_open_def numeral_3_eq_3)
  have "p_rest (eat 3 p) = concat (map (escape_rune True) (runes v)) @ [dquote, dquote, dquote] @ r"
    using rest by (simp add: escape_long_def numeral_3_eq_3)
  from lit_text [OF assms(2) this, of "[]"] obtain p1 where p1:
      "lit_loop dquote True [] (eat 3 p) = lit_loop dquote True v p1" "lands (eat 3 p) ([dquote, dquote, dquote] @ r) p1"
    by auto
  have "lit_loop dquote True v p1 = Inr (v, eat 3 p1)"
    using p1(2) by (subst lit_loop.simps) (simp add: lands_def dquote_def backslash_def numeral_3_eq_3)
  moreover have "lands p r (eat 3 p1)" using p1(2) by (simp add: lands_def numeral_3_eq_3)
  ultimately show ?thesis using o rest p1(1) by auto
next
  case False
  then have rest: "p_rest p = [dquote] @ escape_short v @ [dquote] @ r"
    using assms(1) by (simp add: quote_literal_def)
  have "hd r \<noteq> dquote" using assms(3) by (auto simp: literal_tail_def stop_def dquote_def)
  then have o: "\<not> lit_open p"
    using rest assms(3) escape_head [of False "runes v"] unfolding escape_short_def [symmetric]
    by (cases "escape_short v"; cases r) (auto simp: lit_open_def literal_tail_def numeral_3_eq_3)
  have "p_rest (eat 1 p) = concat (map (escape_rune False) (runes v)) @ [dquote] @ r"
    using rest by (simp add: escape_short_def)
  from lit_text [OF assms(2) this, of "[]"] obtain p1 where p1:
      "lit_loop dquote False [] (eat 1 p) = lit_loop dquote False v p1" "lands (eat 1 p) ([dquote] @ r) p1"
    by auto
  have "lit_loop dquote False v p1 = Inr (v, p_next p1)"
    using p1(2) by (subst lit_loop.simps) (simp add: lands_def dquote_def backslash_def)
  moreover have "lands p r (p_next p1)" using p1(2) by (simp add: lands_def)
  ultimately show ?thesis using o rest p1(1) by auto
qed

section \<open>Terms\<close>

definition term_ok :: "rdf_term \<Rightarrow> bool" where
  "term_ok t \<longleftrightarrow>
     (if is_iri t then plain_iri (t_value t) \<and> t_datatype t = [] \<and> t_lang t = []
      else valid_utf8 (t_value t) \<and> plain_iri (t_datatype t)
        \<and> (t_lang t = [] \<or> t_datatype t = [] \<and> list_all lang_byte (t_lang t)))"

lemma read_literal_ok:
  assumes "p_rest p = write_term ps t @ r" "ready ps p" "prefixes_ok ps" "term_ok t" "is_literal t" "stop r"
  shows "\<exists>p'. read_literal p = Inr (t, p') \<and> lands p r p'"
proof -
  let ?tail = "(if t_lang t \<noteq> [] then ''@'' @ t_lang t
         else if t_datatype t \<noteq> [] then ''^^'' @ write_iri ps (t_datatype t) else []) @ r"
  have ok: "valid_utf8 (t_value t)" "plain_iri (t_datatype t)"
      "t_lang t = [] \<or> t_datatype t = [] \<and> list_all lang_byte (t_lang t)"
    using assms(4,5) by (auto simp: term_ok_def is_iri_def is_literal_def split: if_splits)
  have t: "t = literal (t_value t) (t_datatype t) (t_lang t)" using assms(5) by (simp add: literal_def is_literal_def)
  have r: "r \<noteq> []" "hd r \<noteq> CHR ''@''" "hd r \<noteq> CHR ''^''" "\<not> lang_byte (hd r)"
    using assms(6) by (auto simp: stop_def lang_byte_def letter_byte_def digit_byte_def less_eq_char_def)
  have "literal_tail ?tail" using assms(6) r(1) by (auto simp: literal_tail_def)
  moreover have "p_rest p = quote_literal (t_value t) @ ?tail" using assms(1,5) by (simp add: write_term_def)
  ultimately obtain p1 where p1: "hd (p_rest p) = dquote" "lands p ?tail p1"
      "lit_loop dquote (lit_open p) [] (eat (if lit_open p then 3 else 1) p) = Inr (t_value t, p1)"
    using lit_quoted [OF _ ok(1)] by blast
  have eq: "read_literal p =
          (if at_char CHR ''@'' p1 then
            (case read_while lang_byte (p_next p1) of (lang, p2) \<Rightarrow> Inr (literal (t_value t) [] lang, p2))
          else if take 2 (p_rest p1) = ''^^'' then
            (case read_term (eat 2 p1) of
               Inl e \<Rightarrow> Inl e
             | Inr (dt, p2) \<Rightarrow>
                 if \<not> is_iri dt then errf p2 ''datatype must be an IRI''
                 else Inr (literal (t_value t) (t_value dt) [], p2))
          else Inr (literal (t_value t) [] [], p1))"
    using p1(1,3) by (simp add: read_literal.simps [of p] Let_def)
  consider (lang) "t_lang t \<noteq> []" | (dt) "t_lang t = []" "t_datatype t \<noteq> []" | (plain) "t_lang t = []" "t_datatype t = []"
    by blast
  then show ?thesis
  proof cases
    case lang
    then have rest: "p_rest p1 = CHR ''@'' # t_lang t @ r" using p1(2) by (simp add: lands_def)
    have "read_while lang_byte (p_next p1) = (t_lang t, eat (length (t_lang t)) (p_next p1))"
      using rest r ok(3) lang by (intro read_while_append [where r = r]) (auto simp: list_all_iff)
    then have "read_literal p = Inr (t, eat (length (t_lang t)) (p_next p1))"
      using rest eq t ok(3) lang by (simp add: at_char_def)
    moreover have "lands p r (eat (length (t_lang t)) (p_next p1))" using rest p1(2) by (simp add: lands_def)
    ultimately show ?thesis by blast
  next
    case dt
    then have rest: "p_rest p1 = ''^^'' @ write_iri ps (t_datatype t) @ r" using p1(2) by (simp add: lands_def)
    have "ready ps (eat 2 p1)" using ready_lands [OF assms(2) p1(2)] by (simp add: ready_def)
    then obtain p2 where p2: "read_term (eat 2 p1) = Inr (iri (t_datatype t), p2)" "lands (eat 2 p1) r p2"
      using read_term_iri [of "eat 2 p1" ps "t_datatype t" r] rest assms(3,6) ok(2) by auto
    have "read_literal p = Inr (t, p2)"
      using rest eq t dt p2(1) by (simp add: at_char_def is_iri_def iri_def)
    moreover have "lands p r p2" using p1(2) p2(2) by (simp add: lands_def)
    ultimately show ?thesis by blast
  next
    case plain
    then have rest: "p_rest p1 = r" using p1(2) by (simp add: lands_def)
    have "take 2 r \<noteq> ''^^''" using r by (cases r) auto
    then have "read_literal p = Inr (t, p1)"
      using rest eq t plain r by (simp add: at_char_def)
    moreover have "lands p r p1" using p1(2) rest by (simp add: lands_def)
    ultimately show ?thesis by blast
  qed
qed

lemma read_term_ok:
  assumes "p_rest p = write_term ps t @ r" "ready ps p" "prefixes_ok ps" "term_ok t" "stop r"
  shows "\<exists>p'. read_term p = Inr (t, p') \<and> lands p r p'"
proof (cases "is_literal t")
  case True
  obtain p' where l: "read_literal p = Inr (t, p')" "lands p r p'"
    using read_literal_ok [OF assms(1-4) True assms(5)] by blast
  obtain cs where rest: "p_rest p = dquote # cs"
    using assms(1) True by (cases "CHR 0x0A \<in> set (t_value t)") (simp_all add: write_term_def quote_literal_def)
  then have "skip_ignorable p = p" by (intro skip_solid) (simp add: solid_def blank_byte_def dquote_def)
  then have "read_term p = read_literal p" using rest by (simp add: read_term.simps Let_def dquote_def)
  with l show ?thesis by simp
next
  case False
  then have "is_iri t" using term_kind.exhaust by (auto simp: is_iri_def is_literal_def)
  with assms(4) have "t = iri (t_value t)" "plain_iri (t_value t)"
    by (auto simp: term_ok_def iri_def is_iri_def)
  then show ?thesis
    using read_term_iri [of p ps "t_value t" r] assms False by (simp add: write_term_def)
qed

section \<open>How a written term begins\<close>

lemma label_head:
  assumes "label_ok label"
  obtains c cs where "label = c # cs" "ascii_letter c"
  using assms by (cases label) (auto simp: label_ok_def)

lemma write_iri_head:
  assumes "prefixes_ok ps"
  obtains c cs where "write_iri ps v = c # cs" "c = CHR ''<'' \<or> ascii_letter c"
  using assms
proof (cases rule: write_iri_cases [where v = v])
  case 1
  then show ?thesis using that by simp
next
  case (2 label ns l)
  then show ?thesis using that by (auto elim!: label_head)
qed

lemma write_term_head:
  assumes "prefixes_ok ps"
  obtains c cs where "write_term ps t = c # cs" "c = CHR ''<'' \<or> ascii_letter c \<or> c = dquote"
proof (cases "is_literal t")
  case True
  then show ?thesis using that by (cases "CHR 0x0A \<in> set (t_value t)") (simp_all add: write_term_def quote_literal_def)
next
  case False
  with assms show ?thesis using that by (auto simp: write_term_def elim: write_iri_head [where v = "t_value t"])
qed

lemma head_facts:
  assumes "c = CHR ''<'' \<or> ascii_letter c \<or> c = dquote"
  shows "\<not> blank_byte c" "c \<noteq> CHR ''#''" "c \<noteq> CHR ''@''" "c \<noteq> CHR ''.''"
proof -
  have "\<not> blank_byte c \<and> c \<noteq> CHR ''#'' \<and> c \<noteq> CHR ''@'' \<and> c \<noteq> CHR ''.''"
    using assms
  proof (elim disjE)
    assume "ascii_letter c"
    then show ?thesis using ascii_letter_facts [of c] name_char_facts [of c] by simp
  qed (simp_all add: blank_byte_def dquote_def)
  then show "\<not> blank_byte c" "c \<noteq> CHR ''#''" "c \<noteq> CHR ''@''" "c \<noteq> CHR ''.''" by auto
qed

lemma solid_write_term: "prefixes_ok ps \<Longrightarrow> solid (write_term ps t @ r)"
proof -
  assume "prefixes_ok ps"
  then obtain c cs where "write_term ps t = c # cs" "c = CHR ''<'' \<or> ascii_letter c \<or> c = dquote"
    by (rule write_term_head)
  then show "solid (write_term ps t @ r)" using head_facts [of c] by (simp add: solid_def)
qed

lemma lower_letter: "ascii_letter c \<Longrightarrow> 97 \<le> byte_of (lower c)"
  by (auto simp: lower_def ascii_letter_def less_eq_char_def byte_of_char_of)

lemma lower_not_letter: "ascii_letter c \<Longrightarrow> lower c \<noteq> lower CHR ''<''" "ascii_letter c \<Longrightarrow> lower c \<noteq> lower CHR '':''"
  using lower_letter [of c] by (auto simp: lower_def less_eq_char_def)

lemma keyword_not_term:
  assumes "prefixes_ok ps" "p_rest p = write_iri ps v @ r" "list_all ascii_letter word" "word \<noteq> []"
  shows "\<not> has_keyword word p"
  using assms(1)
proof (cases rule: write_iri_cases [where v = v])
  case 1
  have "map lower (take (length word) (p_rest p)) \<noteq> map lower word"
    using 1 assms(2-4) lower_not_letter(1) [of "hd word"] by (cases word) auto
  then show ?thesis by (simp add: has_keyword_def)
next
  case (2 label ns l)
  then have rest: "p_rest p = label @ '':'' @ l @ r" using assms(2) by simp
  show ?thesis
  proof (cases "length word \<le> length label")
    case True
    have "name_char (p_rest p ! length word) "
      using True rest 2(2) label_char_facts
      by (cases "length word = length label") (auto simp: label_ok_def nth_append list_all_length name_char_def)
    then show ?thesis using name_char_facts by (auto simp: has_keyword_def)
  next
    case False
    have "map lower (take (length word) (p_rest p)) ! length label = lower CHR '':''"
      using False rest by (simp add: nth_append)
    moreover have "map lower word ! length label \<noteq> lower CHR '':''"
    proof -
      have "ascii_letter (word ! length label)" using False assms(3) by (simp add: list_all_length)
      then show ?thesis using False lower_not_letter(2) by simp
    qed
    ultimately show ?thesis by (auto simp: has_keyword_def)
  qed
qed

section \<open>Objects, predicates, subjects\<close>

definition add_objects :: "rdf_term \<Rightarrow> rdf_term \<Rightarrow> rdf_term list \<Rightarrow> graph \<Rightarrow> graph" where
  "add_objects s pr obs g = fold (add_statement s pr) obs g"

lemma ready_skip: "ready ps p \<Longrightarrow> ready ps (skip_ignorable p)"
proof (induction p rule: skip_ignorable.induct)
  case (1 p)
  then show ?case
    by (subst skip_ignorable.simps) (auto simp: ready_def split: list.splits)
qed

lemma lands_skip:
  assumes "p_rest p = w @ r" "list_all blank_byte w" "solid r"
  shows "lands p r (skip_ignorable p)"
  by (rule skip_lands [OF assms(2,1,3)])

lemma objects_loop_ok:
  assumes "obs \<noteq> []" "list_all term_ok obs" "prefixes_ok ps" "ready ps p" "list_all blank_byte w"
    "p_rest p = w @ join_with '', '' (map (write_term ps) obs) @ CHR '' '' # x # r" "x = CHR '';'' \<or> x = CHR ''.''"
  shows "\<exists>p'. objects_loop s pr p g = Inr (add_objects s pr obs g, p') \<and> lands p (x # r) p'"
  using assms
proof (induction obs arbitrary: p g w)
  case (Cons ob obs)
  let ?more = "if obs = [] then CHR '' '' # x # r
    else '', '' @ join_with '', '' (map (write_term ps) obs) @ CHR '' '' # x # r"
  have rest: "p_rest p = w @ write_term ps ob @ ?more"
    using Cons(7) by (cases obs) simp_all
  have skipped: "lands p (write_term ps ob @ ?more) (skip_ignorable p)"
    by (rule lands_skip [OF rest Cons(6) solid_write_term [OF Cons(4)]])
  then have "ready ps (skip_ignorable p)" "p_rest (skip_ignorable p) = write_term ps ob @ ?more"
    using Cons(5) by (auto intro: ready_lands simp: lands_def)
  moreover have "stop ?more" by (simp add: stop_def)
  moreover have "term_ok ob" using Cons(3) by simp
  ultimately obtain p1 where p1: "read_term (skip_ignorable p) = Inr (ob, p1)" "lands (skip_ignorable p) ?more p1"
    using read_term_ok [OF _ _ Cons(4), of "skip_ignorable p" ob ?more] by blast
  have lp1: "lands p ?more p1" using lands_trans [OF skipped p1(2)] .
  let ?g1 = "add_statement s pr ob g" and ?p2 = "skip_ignorable p1"
  have eq: "objects_loop s pr p g =
      (if at_char CHR '','' ?p2 then objects_loop s pr (p_next ?p2) ?g1 else Inr (?g1, ?p2))"
    using p1(1) by (simp add: objects_loop.simps [of s pr p g] Let_def)
  show ?case
  proof (cases "obs = []")
    case True
    then have "lands p1 (x # r) ?p2"
      using lp1 Cons(8) by (intro lands_skip [where w = "'' ''"]) (auto simp: lands_def blank_byte_def solid_def)
    then have l: "lands p (x # r) ?p2" by (rule lands_trans [OF lp1])
    then have "\<not> at_char CHR '','' ?p2" using Cons(8) by (auto simp: at_char_def lands_def)
    with eq l True show ?thesis by (simp add: add_objects_def)
  next
    case False
    then have "?p2 = p1" using lp1 by (intro skip_solid) (simp add: lands_def solid_def blank_byte_def)
    then have at: "at_char CHR '','' ?p2" using lp1 False by (simp add: at_char_def lands_def)
    have "ready ps (p_next p1)" using ready_lands [OF Cons(5) lp1] by (simp add: ready_def)
    moreover have "p_rest (p_next p1) = '' '' @ join_with '', '' (map (write_term ps) obs) @ CHR '' '' # x # r"
      using lp1 False by (simp add: lands_def)
    ultimately obtain p' where p': "objects_loop s pr (p_next p1) ?g1 = Inr (add_objects s pr obs ?g1, p')"
        "lands (p_next p1) (x # r) p'"
      using Cons(1) [of "p_next p1" "'' ''" ?g1] False Cons(3,4,8) by (auto simp: blank_byte_def)
    have "lands p (x # r) p'" using p'(2) lp1 by (simp add: lands_def)
    with eq at p'(1) \<open>?p2 = p1\<close> show ?thesis by (simp add: add_objects_def)
  qed
qed simp

lemma read_predicate_ok:
  assumes "p_rest p = (if v = rdf_type then ''a'' else write_term ps (iri v)) @ CHR '' '' # r"
    "prefixes_ok ps" "ready ps p" "plain_iri v"
  shows "\<exists>p'. read_predicate p = Inr (iri v, p') \<and> lands p (CHR '' '' # r) p'"
proof (cases "v = rdf_type")
  case True
  then have "has_keyword ''a'' p" "is_term_break (p_rest p ! 1)"
    using assms(1) by (simp_all add: has_keyword_def is_term_break_def blank_byte_def)
  then have "read_predicate p = Inr (iri v, p_next p)" by (simp add: read_predicate_def True)
  moreover have "lands p (CHR '' '' # r) (p_next p)" using assms(1) True by (simp add: lands_def)
  ultimately show ?thesis by blast
next
  case False
  then have rest: "p_rest p = write_iri ps v @ CHR '' '' # r"
    using assms(1) by (simp add: write_term_def iri_def is_literal_def)
  have "\<not> has_keyword ''a'' p" using keyword_not_term [OF assms(2) rest] by (simp add: ascii_letter_def less_eq_char_def)
  moreover obtain p' where "read_term p = Inr (iri v, p')" "lands p (CHR '' '' # r) p'"
    using read_term_iri [OF rest assms(3,2,4)] by (auto simp: stop_def)
  ultimately show ?thesis by (auto simp: read_predicate_def is_iri_def iri_def)
qed

definition add_predicates :: "rdf_term \<Rightarrow> subject_index \<Rightarrow> string list \<Rightarrow> graph \<Rightarrow> graph" where
  "add_predicates s si qs g = fold (\<lambda>p. add_objects s (iri p) (objects_of p si)) qs g"

definition predicate_ok :: "subject_index \<Rightarrow> string \<Rightarrow> bool" where
  "predicate_ok si p \<longleftrightarrow> plain_iri p \<and> objects_of p si \<noteq> [] \<and> list_all term_ok (objects_of p si)"

lemma predicate_name_head:
  assumes "prefixes_ok ps"
  obtains c cs where "(if p = rdf_type then ''a'' else write_term ps (iri p)) = c # cs"
    "c = CHR ''<'' \<or> ascii_letter c \<or> c = dquote"
proof (cases "p = rdf_type")
  case True
  then show ?thesis using that [of "CHR ''a''" "[]"] by (simp add: ascii_letter_def less_eq_char_def)
next
  case False
  then show ?thesis using that write_term_head [OF assms, of "iri p"] by (metis (full_types))
qed

lemma predicates_loop_ok:
  assumes "qs \<noteq> []" "list_all (predicate_ok si) qs" "prefixes_ok ps" "ready ps p" "list_all blank_byte w"
    "p_rest p = w @ write_predicates ps si qs @ r"
  shows "\<exists>p'. predicates_loop s p g = Inr (add_predicates s si qs g, p') \<and> lands p (CHR 0x0A # r) p'"
  using assms
proof (induction qs arbitrary: p g w)
  case (Cons v qs)
  let ?name = "if v = rdf_type then ''a'' else write_term ps (iri v)"
  let ?objs = "join_with '', '' (map (write_term ps) (objects_of v si))"
  let ?x = "if qs = [] then CHR ''.'' else CHR '';''"
  let ?tail = "CHR 0x0A # write_predicates ps si qs @ r"
  have v: "plain_iri v" "objects_of v si \<noteq> []" "list_all term_ok (objects_of v si)"
    using Cons(3) by (auto simp: predicate_ok_def)
  have rest: "p_rest p = (w @ ''    '') @ ?name @ CHR '' '' # ?objs @ CHR '' '' # ?x # ?tail"
    using Cons(7) by (cases qs) (simp_all add: write_predicate_def)
  obtain c cs where name: "?name = c # cs" "c = CHR ''<'' \<or> ascii_letter c \<or> c = dquote"
    using predicate_name_head [OF Cons(4)] by blast
  have solid: "solid (?name @ CHR '' '' # ?objs @ CHR '' '' # ?x # ?tail)"
    using head_facts [OF name(2)] unfolding name(1) by (simp add: solid_def)
  have skipped: "lands p (?name @ CHR '' '' # ?objs @ CHR '' '' # ?x # ?tail) (skip_ignorable p)"
    by (rule lands_skip [OF rest _ solid]) (use Cons(6) in \<open>auto simp: blank_byte_def list_all_iff\<close>)
  obtain p1 where p1: "read_predicate (skip_ignorable p) = Inr (iri v, p1)"
      "lands (skip_ignorable p) (CHR '' '' # ?objs @ CHR '' '' # ?x # ?tail) p1"
    using read_predicate_ok [of "skip_ignorable p" v ps] skipped ready_lands [OF Cons(5) skipped] Cons(4) v(1)
    by (auto simp: lands_def)
  have lp1: "lands p (CHR '' '' # ?objs @ CHR '' '' # ?x # ?tail) p1" by (rule lands_trans [OF skipped p1(2)])
  have "?x = CHR '';'' \<or> ?x = CHR ''.''" by simp
  moreover have "p_rest p1 = '' '' @ ?objs @ CHR '' '' # ?x # ?tail" using lp1 by (simp add: lands_def)
  moreover have "ready ps p1" by (rule ready_lands [OF Cons(5) lp1])
  moreover have "list_all blank_byte '' ''" by (simp add: blank_byte_def)
  ultimately obtain p2 where p2: "objects_loop s (iri v) p1 g = Inr (add_objects s (iri v) (objects_of v si) g, p2)"
      "lands p1 (?x # ?tail) p2"
    using objects_loop_ok [OF v(2,3) Cons(4)] by blast
  have lp2: "lands p (?x # ?tail) p2" by (rule lands_trans [OF lp1 p2(2)])
  then have p3: "skip_ignorable p2 = p2" by (intro skip_solid) (simp add: lands_def solid_def blank_byte_def)
  let ?g1 = "add_objects s (iri v) (objects_of v si) g"
  have rest2: "p_rest p2 = ?x # ?tail" using lp2 by (simp add: lands_def)
  let ?p4 = "skip_ignorable (p_next p2)"
  have eq: "predicates_loop s p g =
      (if ?x = CHR '';'' then (if at_char CHR ''.'' ?p4 then Inr (?g1, p_next ?p4) else predicates_loop s ?p4 ?g1)
       else Inr (?g1, p_next p2))"
    using p1(1) p2(1) rest2 by (simp add: predicates_loop.simps [of s p g] p3 Let_def at_char_def)
  show ?case
  proof (cases "qs = []")
    case True
    with eq have "predicates_loop s p g = Inr (?g1, p_next p2)" by simp
    moreover have "lands p (CHR 0x0A # r) (p_next p2)" using lp2 True by (simp add: lands_def)
    ultimately show ?thesis using True by (simp add: add_predicates_def)
  next
    case False
    then obtain u us where qs: "qs = u # us" by (cases qs) auto
    obtain d ds where name': "(if u = rdf_type then ''a'' else write_term ps (iri u)) = d # ds"
        "d = CHR ''<'' \<or> ascii_letter d \<or> d = dquote"
      using predicate_name_head [OF Cons(4)] by blast
    have "\<exists>es. write_predicates ps si qs = ''    '' @ (if u = rdf_type then ''a'' else write_term ps (iri u)) @ es"
      unfolding qs by (cases us) (simp_all only: write_predicates.simps write_predicate_def append_assoc, blast+)
    then obtain es where rest4: "p_rest (p_next p2) = (CHR 0x0A # ''    '') @ d # es"
      using rest2 unfolding name'(1) by auto
    have l4: "lands (p_next p2) (d # es) ?p4"
      by (rule lands_skip [OF rest4]) (use head_facts [OF name'(2)] in \<open>auto simp: blank_byte_def solid_def\<close>)
    then have "\<not> at_char CHR ''.'' ?p4" using head_facts [OF name'(2)] by (simp add: lands_def at_char_def)
    then have eq4: "predicates_loop s p g = predicates_loop s ?p4 ?g1" using eq False by simp
    have "\<not> at_char CHR ''.'' ?p4" by fact
    have "predicates_loop s ?p4 ?g1 = predicates_loop s (p_next p2) ?g1"
    proof -
      have "skip_ignorable ?p4 = ?p4"
        using l4 head_facts [OF name'(2)] by (intro skip_solid) (simp add: lands_def solid_def)
      then show ?thesis by (simp add: predicates_loop.simps [of s ?p4] predicates_loop.simps [of s "p_next p2"])
    qed
    moreover have "ready ps (p_next p2)" using ready_lands [OF Cons(5) lp2] by (simp add: ready_def)
    moreover have "p_rest (p_next p2) = [CHR 0x0A] @ write_predicates ps si qs @ r" using rest2 by simp
    ultimately obtain p' where p': "predicates_loop s ?p4 ?g1 = Inr (add_predicates s si qs ?g1, p')"
        "lands (p_next p2) (CHR 0x0A # r) p'"
      using Cons(1) [of "p_next p2" "[CHR 0x0A]" ?g1] False Cons(3,4) by (auto simp: blank_byte_def)
    have "lands p (CHR 0x0A # r) p'" using p'(2) lp2 by (simp add: lands_def)
    with eq4 p'(1) show ?thesis by (simp add: add_predicates_def)
  qed
qed simp

section \<open>Subjects\<close>

definition index_at :: "(rdf_term \<times> subject_index) list \<Rightarrow> rdf_term \<Rightarrow> subject_index" where
  "index_at idx s = the (map_of idx s)"

definition add_subject :: "(rdf_term \<times> subject_index) list \<Rightarrow> rdf_term \<Rightarrow> graph \<Rightarrow> graph" where
  "add_subject idx s = add_predicates s (index_at idx s) (type_first (si_predicates (index_at idx s)))"

definition subject_ok :: "(rdf_term \<times> subject_index) list \<Rightarrow> rdf_term \<Rightarrow> bool" where
  "subject_ok idx s \<longleftrightarrow> is_iri s \<and> term_ok s \<and> map_of idx s \<noteq> None
     \<and> si_predicates (index_at idx s) \<noteq> [] \<and> list_all (predicate_ok (index_at idx s)) (si_predicates (index_at idx s))"

lemma set_type_first: "set (type_first qs) = set qs" "type_first qs = [] \<longleftrightarrow> qs = []"
  by (auto simp: type_first_def simp flip: length_0_conv)

lemma statement_ok:
  assumes "p_rest p = write_subject ps idx s @ r" "subject_ok idx s" "prefixes_ok ps" "ready ps p"
  shows "\<exists>p'. statement p g = Inr (add_subject idx s g, p') \<and> lands p (CHR 0x0A # r) p'"
proof -
  obtain si where si: "map_of idx s = Some si" "index_at idx s = si"
    using assms(2) by (auto simp: subject_ok_def index_at_def)
  let ?qs = "type_first (si_predicates si)"
  have s: "is_iri s" "term_ok s" "?qs \<noteq> []" "list_all (predicate_ok si) ?qs"
    using assms(2) si by (auto simp: subject_ok_def set_type_first list_all_iff)
  have "p_rest p = write_term ps s @ [CHR 0x0A] @ write_predicates ps si ?qs @ r"
    using assms(1) si by (simp add: write_subject_def)
  then obtain p1 where p1: "read_term p = Inr (s, p1)" "lands p ([CHR 0x0A] @ write_predicates ps si ?qs @ r) p1"
    using read_term_ok [of p ps s] assms(3,4) s(2) by (fastforce simp: stop_def)
  have "p_rest p1 = [CHR 0x0A] @ write_predicates ps si ?qs @ r" using p1(2) by (simp add: lands_def)
  moreover have "ready ps p1" by (rule ready_lands [OF assms(4) p1(2)])
  moreover have "list_all blank_byte [CHR 0x0A]" by (simp add: blank_byte_def)
  ultimately obtain p' where "predicates_loop s p1 g = Inr (add_predicates s si ?qs g, p')" "lands p1 (CHR 0x0A # r) p'"
    using predicates_loop_ok [OF s(3,4) assms(3)] by blast
  with p1 s(1) si(2) show ?thesis by (auto simp: statement_def add_subject_def intro: lands_trans)
qed

lemma subject_head:
  assumes "prefixes_ok ps" "subject_ok idx s" "p_rest p = write_subject ps idx s @ r"
  shows "solid (p_rest p)" "p_rest p \<noteq> []" "\<not> at_char CHR ''@'' p" "\<not> has_keyword ''PREFIX'' p" "\<not> has_keyword ''BASE'' p"
proof -
  obtain c cs where w: "write_term ps s = c # cs" "c = CHR ''<'' \<or> ascii_letter c \<or> c = dquote"
    using write_term_head [OF assms(1)] by blast
  then show "solid (p_rest p)" "p_rest p \<noteq> []" "\<not> at_char CHR ''@'' p"
    using head_facts [OF w(2)] assms(3) by (simp_all add: write_subject_def solid_def at_char_def)
  have "write_term ps s = write_iri ps (t_value s)"
    using assms(2) by (simp add: subject_ok_def write_term_def is_iri_def is_literal_def)
  then have rest: "\<exists>r'. p_rest p = write_iri ps (t_value s) @ r'" using assms(3) by (auto simp: write_subject_def)
  have "list_all ascii_letter ''PREFIX''" "list_all ascii_letter ''BASE''" by code_simp+
  then show "\<not> has_keyword ''PREFIX'' p" "\<not> has_keyword ''BASE'' p"
    using rest keyword_not_term [OF assms(1)] by blast+
qed

lemma subjects_loop_ok:
  assumes "list_all (subject_ok idx) ss" "prefixes_ok ps" "ready ps p" "list_all blank_byte w"
    "p_rest p = w @ join_with [CHR 0x0A] (map (write_subject ps idx) ss)"
  shows "\<exists>p'. parse_loop p g = Inr (fold (add_subject idx) ss g, p') \<and> p_prefixes p' = p_prefixes p"
  using assms
proof (induction ss arbitrary: p w g)
  case Nil
  then have "lands p [] (skip_ignorable p)" by (intro lands_skip) (auto simp: solid_def)
  then show ?case by (simp add: parse_loop.simps [of p g] Let_def lands_def)
next
  case (Cons s ss)
  let ?r = "if ss = [] then [] else CHR 0x0A # join_with [CHR 0x0A] (map (write_subject ps idx) ss)"
  let ?p1 = "skip_ignorable p"
  have s: "subject_ok idx s" using Cons(2) by simp
  have rest: "p_rest p = w @ write_subject ps idx s @ ?r" using Cons(6) by (cases ss) simp_all
  have "solid (write_subject ps idx s @ ?r)"
    using subject_head(1) [OF Cons(3) s, of "p\<lparr>p_rest := write_subject ps idx s @ ?r\<rparr>"] by simp
  then have l1: "lands p (write_subject ps idx s @ ?r) ?p1" by (rule lands_skip [OF rest Cons(5)])
  then have rest1: "p_rest ?p1 = write_subject ps idx s @ ?r" by (simp add: lands_def)
  note head = subject_head [OF Cons(3) s rest1]
  obtain p2 where p2: "statement ?p1 g = Inr (add_subject idx s g, p2)" "lands ?p1 (CHR 0x0A # ?r) p2"
    using statement_ok [OF rest1 s Cons(3) ready_lands [OF Cons(4) l1]] by blast
  have l2: "lands p (CHR 0x0A # ?r) p2" by (rule lands_trans [OF l1 p2(2)])
  have eq: "parse_loop p g = parse_loop p2 (add_subject idx s g)"
    using head p2(1) by (simp add: parse_loop.simps [of p g] Let_def)
  have "p_rest p2 = (CHR 0x0A # (if ss = [] then [] else [CHR 0x0A])) @ join_with [CHR 0x0A] (map (write_subject ps idx) ss)"
    using l2 by (simp add: lands_def)
  moreover have "list_all blank_byte (CHR 0x0A # (if ss = [] then [] else [CHR 0x0A]))" by (simp add: blank_byte_def)
  ultimately obtain p' where "parse_loop p2 (add_subject idx s g) = Inr (fold (add_subject idx) ss (add_subject idx s g), p')"
      "p_prefixes p' = p_prefixes p2"
    using Cons(1) [OF _ Cons(3) ready_lands [OF Cons(4) l2]] Cons(2) by fastforce
  with eq l2 show ?case by (simp add: lands_def)
qed

section \<open>Prefix directives\<close>

definition prefix_line :: "(string \<times> string) list \<Rightarrow> string \<Rightarrow> string" where
  "prefix_line ps l = ''@prefix '' @ l @ '': <'' @ the (map_of ps l) @ ''> .'' @ [CHR 0x0A]"

lemma trim_label: "label_ok l \<Longrightarrow> trim_space l = l"
proof (rule trim_space_plain)
  assume l: "label_ok l"
  have ch: "byte_of c < 0x80 \<and> \<not> is_space_rune (byte_of c)" if "c \<in> set l" for c
    using l that label_char_facts [of c] by (auto simp: label_ok_def list_all_iff)
  show "l \<noteq> [] \<Longrightarrow> byte_of (hd l) < 0x80 \<and> \<not> is_space_rune (byte_of (hd l))" by (rule ch) simp
  show "l \<noteq> [] \<Longrightarrow> byte_of (last l) < 0x80 \<and> \<not> is_space_rune (byte_of (last l))" by (rule ch) simp
qed

lemma directive_ok:
  assumes "p_rest p = prefix_line ps l @ r" "label_ok l" "map_of ps l = Some ns" "plain_iri ns" "p_base p = []"
  shows "\<exists>p'. directive p = Inr ((), p') \<and> p_rest p' = CHR 0x0A # r \<and> p_base p' = []
    \<and> p_prefixes p' = map_put l ns (p_prefixes p)"
proof -
  have rest: "p_rest p = CHR ''@'' # ''prefix'' @ CHR '' '' # l @ CHR '':'' # CHR '' '' # ''<'' @ ns @ ''>'' @ CHR '' '' # CHR ''.'' # CHR 0x0A # r"
    using assms(1,3) by (simp add: prefix_line_def)
  let ?p1 = "eat (length ''prefix'') (p_next p)"
  have w1: "read_while letter_byte (p_next p) = (''prefix'', ?p1)"
  proof -
    have "\<forall>c \<in> set ''prefix''. letter_byte c" "\<not> letter_byte CHR '' ''"
      by (simp_all add: letter_byte_def less_eq_char_def)
    then show ?thesis
      using rest read_while_append [of "p_next p" "''prefix''" "CHR '' '' # l @ CHR '':'' # CHR '' '' # ''<'' @ ns @ ''>'' @ CHR '' '' # CHR ''.'' # CHR 0x0A # r" letter_byte]
      by simp
  qed
  let ?r1 = "l @ CHR '':'' # CHR '' '' # ''<'' @ ns @ ''>'' @ CHR '' '' # CHR ''.'' # CHR 0x0A # r"
  obtain c cs where l: "l = c # cs" "ascii_letter c" using assms(2) by (rule label_head)
  have "p_rest ?p1 = '' '' @ ?r1" using rest by simp
  then have l1: "lands ?p1 ?r1 (skip_ignorable ?p1)"
    using l name_char_facts [of c] ascii_letter_facts [of c] by (intro lands_skip) (auto simp: blank_byte_def solid_def)
  let ?p2 = "eat (length l) (skip_ignorable ?p1)"
  have "CHR '':'' \<notin> set l" using assms(2) label_char_facts [of "CHR '':''"] by (auto simp: label_ok_def list_all_iff)
  then have w2: "read_while (\<lambda>c. c \<noteq> CHR '':'') (skip_ignorable ?p1) = (l, ?p2)"
    using l1 by (intro read_while_append [where r = "CHR '':'' # CHR '' '' # ''<'' @ ns @ ''>'' @ CHR '' '' # CHR ''.'' # CHR 0x0A # r"])
      (auto simp: lands_def)
  have rest2: "p_rest ?p2 = CHR '':'' # CHR '' '' # ''<'' @ ns @ ''>'' @ CHR '' '' # CHR ''.'' # CHR 0x0A # r"
    using l1 by (simp add: lands_def)
  let ?p3 = "skip_ignorable (p_next ?p2)"
  have l3: "lands (p_next ?p2) (''<'' @ ns @ ''>'' @ CHR '' '' # CHR ''.'' # CHR 0x0A # r) ?p3"
    using rest2 by (intro lands_skip [where w = "'' ''"]) (auto simp: blank_byte_def solid_def)
  then have rest3: "p_rest ?p3 = ''<'' @ ns @ ''>'' @ CHR '' '' # CHR ''.'' # CHR 0x0A # r" by (simp add: lands_def)
  have keep3: "p_base ?p3 = []" "p_prefixes ?p3 = p_prefixes p"
    using l1 l3 assms(5) by (simp_all add: lands_def)
  obtain p4 where p4: "read_iri_ref ?p3 = Inr (ns, p4)" "lands ?p3 (CHR '' '' # CHR ''.'' # CHR 0x0A # r) p4"
    using read_iri_ref_plain [OF rest3 assms(4) keep3(1)] by blast
  let ?p5 = "p4\<lparr>p_prefixes := map_put l ns (p_prefixes p4)\<rparr>"
  have l5: "lands ?p5 (CHR ''.'' # CHR 0x0A # r) (skip_ignorable ?p5)"
    using p4(2) by (intro lands_skip [where w = "'' ''"]) (auto simp: blank_byte_def solid_def lands_def)
  have "directive p = end_directive True (skip_ignorable ?p5)"
    using rest w1 w2 rest2 p4(1) trim_label [OF assms(2)] by (simp add: directive_def at_char_def lower_def)
  also have "\<dots> = Inr ((), p_next (skip_ignorable ?p5))"
    using l5 by (simp add: end_directive_def at_char_def lands_def)
  finally show ?thesis using l5 p4(2) keep3 by (simp add: lands_def)
qed

lemma prefix_lines_ok:
  assumes "list_all (\<lambda>l. label_ok l \<and> (\<exists>ns. map_of ps l = Some ns \<and> plain_iri ns)) ls"
    "p_base p = []" "list_all blank_byte w" "p_rest p = w @ concat (map (prefix_line ps) ls) @ r"
  shows "\<exists>p' w'. parse_loop p g = parse_loop p' g \<and> list_all blank_byte w' \<and> p_rest p' = w' @ r
    \<and> p_base p' = [] \<and> p_prefixes p' = fold (\<lambda>l. map_put l (the (map_of ps l))) ls (p_prefixes p)"
  using assms
proof (induction ls arbitrary: p w)
  case Nil
  then show ?case by auto
next
  case (Cons l ls)
  let ?r = "concat (map (prefix_line ps) ls) @ r" and ?p1 = "skip_ignorable p"
  obtain ns where l: "label_ok l" "map_of ps l = Some ns" "plain_iri ns" using Cons(2) by auto
  have rest: "p_rest p = w @ prefix_line ps l @ ?r" using Cons(5) by simp
  have l1: "lands p (prefix_line ps l @ ?r) ?p1"
    by (rule lands_skip [OF rest Cons(4)]) (simp add: prefix_line_def solid_def blank_byte_def)
  then have rest1: "p_rest ?p1 = prefix_line ps l @ ?r" by (simp add: lands_def)
  have "p_base ?p1 = []" using l1 Cons(3) by (simp add: lands_def)
  then obtain p2 where p2: "directive ?p1 = Inr ((), p2)" "p_rest p2 = CHR 0x0A # ?r" "p_base p2 = []"
      "p_prefixes p2 = map_put l ns (p_prefixes p)"
    using directive_ok [OF rest1 l] l1 by (auto simp: lands_def)
  have "at_char CHR ''@'' ?p1" "p_rest ?p1 \<noteq> []" using rest1 by (simp_all add: prefix_line_def at_char_def)
  then have eq: "parse_loop p g = parse_loop p2 g" using p2(1) by (simp add: parse_loop.simps [of p g] Let_def)
  have "p_rest p2 = [CHR 0x0A] @ concat (map (prefix_line ps) ls) @ r" using p2(2) by simp
  moreover have "list_all blank_byte [CHR 0x0A]" by (simp add: blank_byte_def)
  ultimately obtain p' w' where "parse_loop p2 g = parse_loop p' g" "list_all blank_byte w'" "p_rest p' = w' @ r"
      "p_base p' = []" "p_prefixes p' = fold (\<lambda>l. map_put l (the (map_of ps l))) ls (p_prefixes p2)"
    using Cons(1) [of p2 "[CHR 0x0A]"] Cons(2) p2(3) by auto
  with eq p2(4) l(2) show ?case by auto
qed

lemma map_of_fold_put:
  "map_of (fold (\<lambda>l. map_put l (f l)) ls acc) = (\<lambda>l. if l \<in> set ls then Some (f l) else map_of acc l)"
  by (induction ls arbitrary: acc) (auto simp: fun_eq_iff)

section \<open>The statements of a written graph\<close>

lemma add_statement_set:
  "graph_ok g \<Longrightarrow> graph_ok (add_statement s pr ob g) \<and>
    set (g_triples (add_statement s pr ob g)) = insert \<lparr>subj = s, pred = pr, obj = ob\<rparr> (set (g_triples g))"
  by (auto simp: graph_ok_def add_statement_def add_triple_def)

lemma add_objects_set:
  "graph_ok g \<Longrightarrow> graph_ok (add_objects s pr obs g) \<and>
    set (g_triples (add_objects s pr obs g)) = set (g_triples g) \<union> (\<lambda>ob. \<lparr>subj = s, pred = pr, obj = ob\<rparr>) ` set obs"
  unfolding add_objects_def using add_statement_set by (induction obs arbitrary: g) auto

lemma add_predicates_set:
  "graph_ok g \<Longrightarrow> graph_ok (add_predicates s si qs g) \<and>
    set (g_triples (add_predicates s si qs g)) = set (g_triples g) \<union>
      (\<Union>p \<in> set qs. (\<lambda>ob. \<lparr>subj = s, pred = iri p, obj = ob\<rparr>) ` set (objects_of p si))"
  unfolding add_predicates_def using add_objects_set by (induction qs arbitrary: g) auto

lemma add_subjects_set:
  "graph_ok g \<Longrightarrow> graph_ok (fold (add_subject idx) ss g) \<and>
    set (g_triples (fold (add_subject idx) ss g)) = set (g_triples g) \<union>
      (\<Union>s \<in> set ss. \<Union>p \<in> set (si_predicates (index_at idx s)).
        (\<lambda>ob. \<lparr>subj = s, pred = iri p, obj = ob\<rparr>) ` set (objects_of p (index_at idx s)))"
  using add_predicates_set by (induction ss arbitrary: g) (auto simp: add_subject_def set_type_first)

definition writable :: "graph \<Rightarrow> bool" where
  "writable g \<longleftrightarrow> prefixes_ok (g_prefixes g) \<and>
     list_all (\<lambda>t. is_iri (subj t) \<and> is_iri (pred t) \<and> term_ok (subj t) \<and> term_ok (pred t) \<and> term_ok (obj t)) (g_triples g)"

lemma iri_term: "is_iri t \<Longrightarrow> term_ok t \<Longrightarrow> t = iri (t_value t)"
  by (simp add: is_iri_def term_ok_def iri_def)

lemma distinct_subjects_set:
  "\<forall>t \<in> set ts. subj t = iri (t_value (subj t)) \<Longrightarrow>
    set (distinct_subjects ts seen) = {subj t |t. t \<in> set ts \<and> t_value (subj t) \<notin> set seen}"
proof (induction ts seen rule: distinct_subjects.induct)
  case (2 t ts seen)
  have "t_value (subj u) = t_value (subj t) \<longleftrightarrow> subj u = subj t" if "u \<in> set ts" for u
    using 2(3) that by (metis list.set_intros(1,2))
  with 2 show ?case by (auto; blast)
qed simp

lemma scan_set: "set (scan ts s p) = {obj t |t. t \<in> set ts \<and> subj t = s \<and> t_value (pred t) = p}"
  by (auto simp: scan_def)

lemma written_index:
  assumes "graph_ok g" "writable g" "s \<in> set (subjects g)" "idx = fst (subjects_index g)"
  shows "map_of idx s = Some (index_at idx s)" "is_iri s" "term_ok s"
    "set (si_predicates (index_at idx s)) = {t_value (pred t) |t. t \<in> set (g_triples g) \<and> subj t = s}"
    "si_predicates (index_at idx s) \<noteq> []"
    "\<And>p. set (objects_of p (index_at idx s)) = {obj t |t. t \<in> set (g_triples g) \<and> subj t = s \<and> t_value (pred t) = p}"
proof -
  have iris: "\<forall>t \<in> set (g_triples g). subj t = iri (t_value (subj t))"
    using assms(2) iri_term by (auto simp: writable_def list_all_iff)
  then obtain t where t: "t \<in> set (g_triples g)" "s = subj t"
    using assms(3) distinct_subjects_set [OF iris] by (auto simp: subjects_def)
  then show "is_iri s" "term_ok s" using assms(2) by (auto simp: writable_def list_all_iff)
  have ok: "index_ok (g_triples g) idx" using subjects_index_ok [OF assms(1)] assms(4) by simp
  have ne: "filter (\<lambda>t. subj t = s) (g_triples g) \<noteq> []" using t by (auto simp: filter_empty_conv)
  with ok [unfolded index_ok_def, THEN spec, of s]
  show m: "map_of idx s = Some (index_at idx s)" by (auto simp: index_at_def split: option.splits)
  have i: "si_predicates (index_at idx s) = scan_predicates (g_triples g) s"
    "\<forall>p. map_of (si_objects (index_at idx s)) p = (if scan (g_triples g) s p = [] then None else Some (scan (g_triples g) s p))"
    using ok [unfolded index_ok_def, THEN spec, of s] m by simp_all
  have "set (scan_predicates (g_triples g) s) = {t_value (pred t) |t. t \<in> set (g_triples g) \<and> subj t = s}"
    by (auto simp: scan_predicates_def remdups_first_def)
  with i t show "set (si_predicates (index_at idx s)) = {t_value (pred t) |t. t \<in> set (g_triples g) \<and> subj t = s}"
    "si_predicates (index_at idx s) \<noteq> []" by auto
  show "set (objects_of p (index_at idx s)) = {obj t |t. t \<in> set (g_triples g) \<and> subj t = s \<and> t_value (pred t) = p}" for p
    using i(2) scan_set [of "g_triples g" s p] by (auto simp: objects_of_def)
qed

lemma written_subject_ok:
  assumes "graph_ok g" "writable g" "idx = fst (subjects_index g)"
  shows "list_all (subject_ok idx) (subjects g)"
  unfolding list_all_iff
proof
  fix s assume s: "s \<in> set (subjects g)"
  note wi = written_index [OF assms(1,2) s assms(3)]
  have "predicate_ok (index_at idx s) p" if p: "p \<in> set (si_predicates (index_at idx s))" for p
  proof -
    obtain t where t: "t \<in> set (g_triples g)" "subj t = s" "t_value (pred t) = p" using p wi(4) by auto
    then have "plain_iri p" using assms(2) by (auto simp: writable_def list_all_iff term_ok_def)
    moreover have "obj t \<in> set (objects_of p (index_at idx s))" using t wi(6) by auto
    moreover have "list_all term_ok (objects_of p (index_at idx s))"
      using assms(2) wi(6) by (auto simp: writable_def list_all_iff)
    ultimately show ?thesis by (auto simp: predicate_ok_def)
  qed
  with wi show "subject_ok idx s" by (simp add: subject_ok_def list_all_iff)
qed

lemma written_statements:
  assumes "graph_ok g" "writable g" "idx = fst (subjects_index g)"
  shows "(\<Union>s \<in> set (subjects g). \<Union>p \<in> set (si_predicates (index_at idx s)).
        (\<lambda>ob. \<lparr>subj = s, pred = iri p, obj = ob\<rparr>) ` set (objects_of p (index_at idx s))) = set (g_triples g)"
    (is "?L = _")
proof (intro equalityI subsetI)
  have iris: "\<forall>t \<in> set (g_triples g). subj t = iri (t_value (subj t))" "\<forall>t \<in> set (g_triples g). pred t = iri (t_value (pred t))"
    using assms(2) iri_term by (auto simp: writable_def list_all_iff)
  {
    fix u assume "u \<in> ?L"
    then obtain s p ob where u: "u = \<lparr>subj = s, pred = iri p, obj = ob\<rparr>" "s \<in> set (subjects g)"
        "ob \<in> set (objects_of p (index_at idx s))" by auto
    then obtain t where "t \<in> set (g_triples g)" "subj t = s" "t_value (pred t) = p" "obj t = ob"
      using written_index(6) [OF assms(1,2) u(2) assms(3)] by auto
    with iris(2) u(1) show "u \<in> set (g_triples g)" by (metis triple.surjective unit.exhaust)
  next
    fix t assume t: "t \<in> set (g_triples g)"
    then have s: "subj t \<in> set (subjects g)" using distinct_subjects_set [OF iris(1)] by (auto simp: subjects_def)
    note wi = written_index [OF assms(1,2) s assms(3)]
    have "t_value (pred t) \<in> set (si_predicates (index_at idx (subj t)))" using t wi(4) by auto
    moreover have "obj t \<in> set (objects_of (t_value (pred t)) (index_at idx (subj t)))" using t wi(6) by auto
    moreover have "t = \<lparr>subj = subj t, pred = iri (t_value (pred t)), obj = obj t\<rparr>" using iris(2) t by simp
    ultimately show "t \<in> ?L" using s by blast
  }
qed

section \<open>The round trip\<close>

lemma write_prefixes_lines:
  "write_prefixes ps = concat (map (prefix_line ps) (sort (map fst ps))) @ (if ps \<noteq> [] then [CHR 0x0A] else [])"
  unfolding write_prefixes_def prefix_line_def [abs_def] by simp

lemma written_document_reads:
  assumes ok: "graph_ok g" and "writable g"
  shows "\<exists>g'. parse_turtle (fst (write_turtle g)) = Inr g'
    \<and> set (g_triples g') = set (g_triples g) \<and> distinct (g_triples g')
    \<and> map_of (g_prefixes g') = map_of (g_prefixes g)"
proof -
  let ?ps = "g_prefixes g" and ?idx = "fst (subjects_index g)"
  let ?labels = "sort (map fst ?ps)" and ?body = "join_with [CHR 0x0A] (map (write_subject (g_prefixes g) (fst (subjects_index g))) (subjects g))"
  have ps: "prefixes_ok ?ps" using assms(2) by (simp add: writable_def)
  have doc: "fst (write_turtle g) = concat (map (prefix_line ?ps) ?labels) @ ((if ?ps \<noteq> [] then [CHR 0x0A] else []) @ ?body)"
    by (simp add: write_turtle_def write_prefixes_lines split: prod.splits)
  have labels: "list_all (\<lambda>l. label_ok l \<and> (\<exists>ns. map_of ?ps l = Some ns \<and> plain_iri ns)) ?labels"
    using ps by (fastforce simp: list_all_iff prefixes_ok_def)
  obtain p1 w1 where p1: "parse_loop (new_parser (fst (write_turtle g))) empty_graph = parse_loop p1 empty_graph"
      "list_all blank_byte w1" "p_rest p1 = w1 @ ((if ?ps \<noteq> [] then [CHR 0x0A] else []) @ ?body)" "p_base p1 = []"
      "p_prefixes p1 = fold (\<lambda>l. map_put l (the (map_of ?ps l))) ?labels (p_prefixes (new_parser (fst (write_turtle g))))"
    using prefix_lines_ok [OF labels, of "new_parser (fst (write_turtle g))" "[]" _ empty_graph] doc
    by (auto simp: new_parser_def)
  have map: "map_of (p_prefixes p1) = map_of ?ps"
  proof
    fix l
    show "map_of (p_prefixes p1) l = map_of ?ps l"
      unfolding p1(5) map_of_fold_put
    proof (cases "map_of ?ps l")
      case None
      then show "(if l \<in> set ?labels then Some (the (map_of ?ps l)) else map_of (p_prefixes (new_parser (fst (write_turtle g)))) l)
          = map_of ?ps l" by (auto simp: new_parser_def map_of_eq_None_iff [symmetric])
    next
      case (Some ns)
      then have "l \<in> set ?labels" using map_of_SomeD by force
      with Some show "(if l \<in> set ?labels then Some (the (map_of ?ps l)) else map_of (p_prefixes (new_parser (fst (write_turtle g)))) l)
          = map_of ?ps l" by simp
    qed
  qed
  then have "ready ?ps p1" using p1(4) by (simp add: ready_def)
  moreover have "list_all blank_byte (w1 @ (if ?ps \<noteq> [] then [CHR 0x0A] else []))" using p1(2) by (simp add: blank_byte_def)
  moreover have "p_rest p1 = (w1 @ (if ?ps \<noteq> [] then [CHR 0x0A] else [])) @ ?body" using p1(3) by simp
  ultimately obtain p2 where p2: "parse_loop p1 empty_graph = Inr (fold (add_subject ?idx) (subjects g) empty_graph, p2)"
      "p_prefixes p2 = p_prefixes p1"
    using subjects_loop_ok [OF written_subject_ok [OF ok assms(2) refl] ps] by blast
  let ?g' = "(fold (add_subject ?idx) (subjects g) empty_graph)\<lparr>g_prefixes := p_prefixes p2\<rparr>"
  have "graph_ok empty_graph" by (simp add: graph_ok_def empty_graph_def)
  from add_subjects_set [OF this, of ?idx "subjects g"] written_statements [OF ok assms(2) refl]
  have "set (g_triples ?g') = set (g_triples g)" "distinct (g_triples ?g')"
    by (simp_all add: empty_graph_def graph_ok_def)
  moreover have "parse_turtle (fst (write_turtle g)) = Inr ?g'"
    using p1(1) p2(1) by (simp add: parse_turtle_def)
  moreover have "map_of (g_prefixes ?g') = map_of ?ps" using map p2(2) by simp
  ultimately show ?thesis by blast
qed

text \<open>
  C39. Writing a graph as Turtle and reading the document gives the graph back: for every graph a client
  can build whose terms Turtle can express (IRIs without line breaks or closing brackets, literals in
  valid UTF-8 with a datatype or a language tag, prefix labels that are words), the document reads
  without an error, into a graph with exactly the same statements, none twice, and the same prefixes.
\<close>

theorem turtle_roundtrip:
  assumes "graph_reachable g" "writable g"
  shows "\<exists>g'. parse_turtle (fst (write_turtle g)) = Inr g'
    \<and> set (g_triples g') = set (g_triples g) \<and> distinct (g_triples g')
    \<and> map_of (g_prefixes g') = map_of (g_prefixes g)"
  by (rule written_document_reads [OF graph_reachable_ok [OF assms(1)] assms(2)])

definition example_document :: graph where
  "example_document = add_statement (element_iri ''A'') (iri (sysml_ns @ ''name'')) (literal [CHR 0x22, CHR 0x0A, CHR ''x''] [] ''en'')
     (add_statement (element_iri ''A'') (iri (sysml_ns @ ''n'')) (literal ''7'' (xsd_ns @ ''integer'') [])
       (add_statement (element_iri ''A'') (iri rdf_type) (iri (sysml_ns @ ''PartUsage'')) new_graph))"

theorem turtle_roundtrip_witness:
  "\<exists>g'. parse_turtle (fst (write_turtle example_document)) = Inr g'
    \<and> set (g_triples g') = set (g_triples example_document) \<and> length (g_triples g') = 3"
proof -
  have "graph_reachable example_document"
    unfolding example_document_def add_statement_def by (intro graph_reachable.intros)
  moreover have "writable example_document" by code_simp
  ultimately obtain g' where g': "parse_turtle (fst (write_turtle example_document)) = Inr g'"
      "set (g_triples g') = set (g_triples example_document)" "distinct (g_triples g')"
    using turtle_roundtrip by blast
  have "distinct (g_triples example_document)" "length (g_triples example_document) = 3" by code_simp+
  with g' have "length (g_triples g') = 3" by (metis distinct_card)
  with g' show ?thesis by blast
qed

section \<open>What the reader builds\<close>

lemma parse_loop_graph_ok: "parse_loop p g = Inr (g', p') \<Longrightarrow> graph_ok g \<Longrightarrow> graph_ok g'"
proof (induction p g rule: parse_loop.induct)
  case (1 p0 g)
  let ?p = "skip_ignorable p0"
  have obj: "objects_loop s pr p g = Inr (g1, p1) \<Longrightarrow> graph_ok g \<Longrightarrow> graph_ok g1" for s pr p g g1 p1
  proof (induction s pr p g rule: objects_loop.induct)
    case (1 s pr p g)
    obtain ob p2 where r: "read_term (skip_ignorable p) = Inr (ob, p2)"
      using 1(2) unfolding objects_loop.simps [of s pr p g] by (auto split: sum.splits)
    have ok: "graph_ok (add_statement s pr ob g)" using add_statement_set 1(3) by blast
    show ?case
    proof (cases "at_char CHR '','' (skip_ignorable p2)")
      case True
      show ?thesis
        by (rule 1(1) [OF r refl refl refl True]) (use 1(2) r True ok in \<open>auto simp: objects_loop.simps [of s pr p g] Let_def\<close>)
    next
      case False
      with 1(2) r ok show ?thesis by (auto simp: objects_loop.simps [of s pr p g] Let_def)
    qed
  qed
  have preds: "predicates_loop s p g = Inr (g1, p1) \<Longrightarrow> graph_ok g \<Longrightarrow> graph_ok g1" for s p g g1 p1
  proof (induction s p g rule: predicates_loop.induct)
    case (1 s p g)
    obtain pr p1' where r: "read_predicate (skip_ignorable p) = Inr (pr, p1')"
      using 1(2) unfolding predicates_loop.simps [of s p g] by (auto split: sum.splits)
    then obtain g2 p2 where ol: "objects_loop s pr p1' g = Inr (g2, p2)"
      using 1(2) unfolding predicates_loop.simps [of s p g] by (auto split: sum.splits)
    have g2: "graph_ok g2" by (rule obj [OF ol 1(3)])
    let ?p3 = "skip_ignorable p2"
    let ?p4 = "skip_ignorable (p_next ?p3)"
    show ?case
    proof (cases "p_rest ?p3 \<noteq> [] \<and> at_char CHR '';'' ?p3 \<and> \<not> at_char CHR ''.'' ?p4")
      case True
      show ?thesis
        by (rule 1(1) [OF r refl ol refl refl])
          (use True g2 1(2) r ol in \<open>auto simp: predicates_loop.simps [of s p g] Let_def\<close>)
    next
      case False
      with 1(2) r ol g2 show ?thesis
        by (auto simp: predicates_loop.simps [of s p g] Let_def errf_def errf_arg_def split: if_splits)
    qed
  qed
  have stmt: "statement p g = Inr (g1, p1) \<Longrightarrow> graph_ok g \<Longrightarrow> graph_ok g1" for p g g1 p1
    using preds by (auto simp: statement_def errf_def split: sum.splits if_splits)
  consider (eof) "p_rest ?p = []"
    | (dir) "p_rest ?p \<noteq> []" "at_char CHR ''@'' ?p \<or> has_keyword ''PREFIX'' ?p \<or> has_keyword ''BASE'' ?p"
    | (st) "p_rest ?p \<noteq> []" "\<not> (at_char CHR ''@'' ?p \<or> has_keyword ''PREFIX'' ?p \<or> has_keyword ''BASE'' ?p)" by blast
  then show ?case
  proof cases
    case eof
    with 1(3,4) show ?thesis by (simp add: parse_loop.simps [of p0] Let_def)
  next
    case dir
    then obtain u p1 where d: "directive ?p = Inr (u, p1)" "parse_loop p1 g = Inr (g', p')"
      using 1(3) by (auto simp: parse_loop.simps [of p0] Let_def split: sum.splits)
    show ?thesis by (rule 1(1) [OF refl dir d(1) refl d(2) 1(4)])
  next
    case st
    then obtain g1 p1 where d: "statement ?p g = Inr (g1, p1)" "parse_loop p1 g1 = Inr (g', p')"
      using 1(3) by (auto simp: parse_loop.simps [of p0] Let_def split: sum.splits)
    show ?thesis by (rule 1(2) [OF refl st d(1) refl d(2) stmt [OF d(1) 1(4)]])
  qed
qed


lemma parsed_graph_ok: "parse_turtle src = Inr g \<Longrightarrow> graph_ok g"
proof -
  assume "parse_turtle src = Inr g"
  then obtain g0 p where g: "parse_loop (new_parser src) empty_graph = Inr (g0, p)" "g = g0\<lparr>g_prefixes := p_prefixes p\<rparr>"
    by (auto simp: parse_turtle_def split: sum.splits)
  have "graph_ok empty_graph" by (simp add: graph_ok_def empty_graph_def)
  then have "graph_ok g0" by (rule parse_loop_graph_ok [OF g(1)])
  then show "graph_ok g" unfolding g(2) graph_ok_def by (simp split: option.splits)
qed


definition example_source :: string where
  "example_source = ''<u:a> a <u:B>, <u:B> ; <u:p> <u:q> . # end''"


end
