(* ===== verification/State_Lowering.thy ===== *)
theory State_Lowering
  imports State_Graph
begin

text \<open>
  Lowering of a state machine declaration to its graph, \<open>internal/core/lower/state_graph.go\<close>: the
  pass over the body that collects vertices, regions and their initial states, the deferred
  triggers, the pass that builds transitions, and the choice of the state the machine starts in.
  The graph of every machine that lowers is well formed, which is what the executor's theorems ask.
  What name resolution says an endpoint denotes, the scope of a trigger's parameters and the
  lowering of one behavior are arguments, the record \<open>lowering_env\<close>.
\<close>

section \<open>The syntax tree\<close>

text \<open>
  A declaration's identity stands for its node pointer. A scope is the declaration that owns it
  with its child scopes. A qualified name \<open>'q\<close>, an expression \<open>'x\<close> and the action of a behavior \<open>'b\<close>
  are what resolution and evaluation take.
\<close>

type_synonym decl = nat

datatype scope = Scope (scope_node: decl) (scope_children: "scope list")

definition child_scope :: "scope \<Rightarrow> decl \<Rightarrow> scope" where
  "child_scope parent d = (case find (\<lambda>c. scope_node c = d) (scope_children parent) of Some c \<Rightarrow> c | None \<Rightarrow> parent)"

datatype relationship_kind = RelTyping | RelSubsets | RelRedefines | RelSpecializes | RelReferences | RelOther

datatype 'x raw_trigger =
    RawTime 'x bool
  | RawChange 'x
  | RawAccept string string string
  | RawCall string "string list"
  | RawPayload string "'x raw_trigger option" "(relationship_kind \<times> string option) list"
  | RawReference string
  | RawExpression 'x

record ('x, 'b) state_head =
  sh_decl :: decl
  sh_name :: string
  sh_initial :: bool
  sh_final :: bool
  sh_entry :: "'b list"
  sh_do :: "'b list"
  sh_exit :: "'b list"
  sh_defer :: "'x raw_trigger list"

record ('q, 'x, 'b) transition_decl =
  td_decl :: decl
  td_name :: string
  td_source :: "'q option"
  td_target :: "'q option"
  td_trigger :: "'x raw_trigger option"
  td_guard :: "'x option"
  td_effect :: "'b list"
  td_steps :: "'b list"
  td_via :: string

text \<open>
  The members of a body after \<open>unwrapMembership\<close>: a state node, a state usage, a bare \<open>state x;\<close>, a
  region, a pseudostate, the behaviors and deferred triggers of the state, a succession usage
  with the names at its ends, the marker \<open>initial ... then\<close>, a succession with whether it leaves the
  entry subaction, the two forms of a transition, an attribute default, and any other member.
\<close>

datatype ('q, 'x, 'b) body_member =
    StateM "('x, 'b) state_head" "('q, 'x, 'b) body_member list" "('q, 'x, 'b) region_decl list"
  | StateUsageM decl string "('q, 'x, 'b) body_member list"
  | SubstateM decl string
  | RegionM "('q, 'x, 'b) region_decl"
  | PseudoM decl pseudostate_kind string
  | EntryM "'b list"
  | DoM "'b list"
  | ExitM "'b list"
  | DeferM "'x raw_trigger list"
  | SuccessionUsageM "'q option list"
  | InitialM "'q option"
  | SuccessionM "'q option" "'q option" bool
  | EdgeM "'q option" "'q option" "'x raw_trigger option" "'x option" "'b list"
  | TransitionM "('q, 'x, 'b) transition_decl"
  | AttributeM string "'x"
  | OtherM
and ('q, 'x, 'b) region_decl = RegionD decl string "('q, 'x, 'b) body_member list"

record ('q, 'b, 's) lowering_env =
  le_endpoint :: "scope \<Rightarrow> 'q \<Rightarrow> decl option"
  le_trigger_scope :: "scope \<Rightarrow> decl \<Rightarrow> scope"
  le_behavior :: "scope \<Rightarrow> 'b \<Rightarrow> 's state_behavior"
  le_action :: "'b \<Rightarrow> decl"
  le_text :: "'q \<Rightarrow> string"
  le_kind :: "decl \<Rightarrow> string"

section \<open>Triggers\<close>

text \<open>\<open>relationshipTarget\<close>: the name the first relationship of one of the kinds targets.\<close>

fun relationship_target :: "(relationship_kind \<times> string option) list \<Rightarrow> relationship_kind list \<Rightarrow> string option" where
  "relationship_target [] kinds = None"
| "relationship_target ((k, name) # rels) kinds =
     (if k \<in> set kinds \<and> name \<noteq> None then name else relationship_target rels kinds)"

definition simple_name :: "string option \<Rightarrow> string" where
  "simple_name n = (case n of Some s \<Rightarrow> s | None \<Rightarrow> [])"

primrec classify_trigger :: "scope \<Rightarrow> 'x raw_trigger \<Rightarrow> ('x \<times> scope) event_trigger" where
  "classify_trigger sc (RawTime d absolute) = TimeTrigger (d, sc) absolute"
| "classify_trigger sc (RawChange c) = ChangeTrigger (c, sc)"
| "classify_trigger sc (RawAccept payload signal subsets) = AcceptTrigger payload signal subsets"
| "classify_trigger sc (RawCall op params) = CallTrigger op params"
| "classify_trigger sc (RawPayload name value rels) =
     (case map_option (classify_trigger sc) value of
        Some t \<Rightarrow> t
      | None \<Rightarrow> AcceptTrigger name (simple_name (relationship_target rels [RelTyping]))
          (simple_name (relationship_target rels [RelSubsets, RelRedefines, RelSpecializes, RelReferences])))"
| "classify_trigger sc (RawReference name) = AcceptTrigger [] name []"
| "classify_trigger sc (RawExpression ex) = ChangeTrigger (ex, sc)"

section \<open>The graph under construction\<close>

record ('x, 's) lowering = "('x \<times> scope, 's) state_graph" +
  lw_vertex :: "decl \<Rightarrow> vertex option"
  lw_scope :: "sid \<Rightarrow> scope"
  lw_flag :: "sid \<Rightarrow> bool"
  lw_designated :: "sid set"
  lw_defer :: "sid \<Rightarrow> 'x raw_trigger list"
  lw_regions :: "sid \<Rightarrow> rid list"
  lw_next_region :: nat
  lw_next_transition :: nat

definition new_state_graph :: "string \<Rightarrow> scope \<Rightarrow> ('x, 's) lowering" where
  "new_state_graph name sc =
     \<lparr>sg_machine = name, sg_nodes = [], sg_pseudos = [], sg_pseudo_owner = (\<lambda>_. None), sg_out = (\<lambda>_. []),
      sg_composite = (\<lambda>_. None), sg_region_initials = [], sg_region_name = (\<lambda>_. []), sg_parent = (\<lambda>_. None),
      sg_region_owner = (\<lambda>_. None), sg_region_of = (\<lambda>_. None), sg_deferred = (\<lambda>_. []), sg_top = [], sg_initial = None,
      sg_behaviors = (\<lambda>_. \<lparr>bh_entry = [], bh_do = [], bh_exit = []\<rparr>), sg_attributes = [],
      lw_vertex = (\<lambda>_. None), lw_scope = (\<lambda>_. sc), lw_flag = (\<lambda>_. False), lw_designated = {}, lw_defer = (\<lambda>_. []),
      lw_regions = (\<lambda>_. []), lw_next_region = 0, lw_next_transition = 0\<rparr>"

definition is_initial :: "('x, 's) lowering \<Rightarrow> sid \<Rightarrow> bool" where
  "is_initial g s \<longleftrightarrow> lw_flag g s \<or> s \<in> lw_designated g"

definition designate_initial :: "sid \<Rightarrow> ('x, 's) lowering \<Rightarrow> ('x, 's) lowering" where
  "designate_initial s g = g\<lparr>lw_designated := insert s (lw_designated g)\<rparr>"

section \<open>States built from usages\<close>

definition plain_head :: "decl \<Rightarrow> string \<Rightarrow> ('x, 'b) state_head" where
  "plain_head d name = \<lparr>sh_decl = d, sh_name = name, sh_initial = False, sh_final = False, sh_entry = [], sh_do = [],
     sh_exit = [], sh_defer = []\<rparr>"

definition usage_head :: "decl \<Rightarrow> string \<Rightarrow> ('q, 'x, 'b) body_member list \<Rightarrow> ('x, 'b) state_head" where
  "usage_head d name ms = (plain_head d name)
     \<lparr>sh_entry := concat (map (\<lambda>m. case m of EntryM bs \<Rightarrow> bs | _ \<Rightarrow> []) ms),
      sh_do := concat (map (\<lambda>m. case m of DoM bs \<Rightarrow> bs | _ \<Rightarrow> []) ms),
      sh_exit := concat (map (\<lambda>m. case m of ExitM bs \<Rightarrow> bs | _ \<Rightarrow> []) ms),
      sh_defer := concat (map (\<lambda>m. case m of DeferM ts \<Rightarrow> ts | _ \<Rightarrow> []) ms)\<rparr>"

definition usage_regions :: "('q, 'x, 'b) body_member list \<Rightarrow> ('q, 'x, 'b) region_decl list" where
  "usage_regions ms = concat (map (\<lambda>m. case m of RegionM r \<Rightarrow> [r] | _ \<Rightarrow> []) ms)"

text \<open>What a member of a state usage adds to the substates; \<open>stateNodeFromUsage\<close> recurses into usages.\<close>

fun substates_of :: "('q, 'x, 'b) body_member \<Rightarrow> ('q, 'x, 'b) body_member list" where
  "substates_of (StateM h ss rs) = [StateM h ss rs]"
| "substates_of (PseudoM d k name) = [PseudoM d k name]"
| "substates_of (SubstateM d name) = [StateM (plain_head d name) [] []]"
| "substates_of (StateUsageM d name ms) = [StateM (usage_head d name ms) (concat (map substates_of ms)) (usage_regions ms)]"
| "substates_of _ = []"

text \<open>The weight of the members a call has still to collect bounds the recursion.\<close>

fun weight :: "('q, 'x, 'b) body_member \<Rightarrow> nat" and region_weight :: "('q, 'x, 'b) region_decl \<Rightarrow> nat" where
  "weight (StateM h ss rs) = 2 + sum_list (map (\<lambda>m. weight m + 1) ss) + sum_list (map (\<lambda>r. region_weight r + 1) rs)"
| "weight (StateUsageM d name ms) = 2 + sum_list (map (\<lambda>m. weight m + 1) ms)"
| "weight (SubstateM d name) = 2"
| "weight (RegionM r) = region_weight r"
| "weight _ = 1"
| "region_weight (RegionD d name ms) = 1 + sum_list (map (\<lambda>m. weight m + 1) ms)"

abbreviation "weights ms \<equiv> sum_list (map (\<lambda>m. weight m + 1) ms)"
abbreviation "region_weights rs \<equiv> sum_list (map (\<lambda>r. region_weight r + 1) rs)"

lemma weight_substates: "weights (substates_of m) + (case m of RegionM r \<Rightarrow> region_weight r + 1 | _ \<Rightarrow> 0) \<le> weight m + 1"
proof (induction m rule: substates_of.induct)
  case (4 d name ms)
  have "weights (concat (map substates_of ms)) + region_weights (usage_regions ms) \<le> weights ms"
    if "\<And>m. m \<in> set ms \<Longrightarrow> weights (substates_of m) + (case m of RegionM r \<Rightarrow> region_weight r + 1 | _ \<Rightarrow> 0) \<le> weight m + 1" for ms
    using that
  proof (induction ms)
    case (Cons m ms)
    have "region_weights (usage_regions (m # ms)) = (case m of RegionM r \<Rightarrow> region_weight r + 1 | _ \<Rightarrow> 0) + region_weights (usage_regions ms)"
      by (simp add: usage_regions_def split: body_member.split)
    with Cons.prems [of m] Cons.IH Cons.prems show ?case by fastforce
  qed (simp add: usage_regions_def)
  from this [OF 4] show ?case by simp
qed simp_all

lemma weight_usage: "weights (concat (map substates_of ms)) + region_weights (usage_regions ms) \<le> weights ms"
proof (induction ms)
  case (Cons m ms)
  have "region_weights (usage_regions (m # ms)) = (case m of RegionM r \<Rightarrow> region_weight r + 1 | _ \<Rightarrow> 0) + region_weights (usage_regions ms)"
    by (simp add: usage_regions_def split: body_member.split)
  with Cons weight_substates [of m] show ?case by simp
qed (simp add: usage_regions_def)

section \<open>Collecting the vertices\<close>

definition add_state ::
  "('q, 'b, 's) lowering_env \<Rightarrow> ('x, 'b) state_head \<Rightarrow> sid option \<Rightarrow> scope \<Rightarrow> ('x, 's) lowering \<Rightarrow> ('x, 's) lowering" where
  "add_state env h parent sc g =
     (let s = length (sg_nodes g) in
      g\<lparr>sg_nodes := sg_nodes g @ [\<lparr>sn_name = sh_name h, sn_final = sh_final h\<rparr>],
        lw_vertex := (lw_vertex g)(sh_decl h \<mapsto> StateV s),
        lw_scope := (lw_scope g)(s := sc),
        sg_behaviors := (sg_behaviors g)(s := \<lparr>bh_entry = map (le_behavior env sc) (sh_entry h),
          bh_do = map (le_behavior env sc) (sh_do h), bh_exit = map (le_behavior env sc) (sh_exit h)\<rparr>),
        sg_parent := (sg_parent g)(s := parent),
        lw_flag := (lw_flag g)(s := sh_initial h),
        lw_defer := (lw_defer g)(s := sh_defer h)\<rparr>)"

definition add_pseudostate ::
  "decl \<Rightarrow> pseudostate_kind \<Rightarrow> string \<Rightarrow> sid option \<Rightarrow> ('x, 's) lowering \<Rightarrow> ('x, 's) lowering" where
  "add_pseudostate d k name owner g =
     (let p = length (sg_pseudos g) in
      g\<lparr>sg_pseudos := sg_pseudos g @ [\<lparr>ps_kind = k, ps_name = name\<rparr>],
        lw_vertex := (lw_vertex g)(d \<mapsto> PseudoV p),
        sg_pseudo_owner := (sg_pseudo_owner g)(p := owner)\<rparr>)"

text \<open>
  A region's identity is allotted where its states are collected; the region is noted with the
  state that lists it, or with the machine, for the pass that registers regions.
\<close>

definition open_region :: "string \<Rightarrow> sid option \<Rightarrow> ('x, 's) lowering \<Rightarrow> ('x, 's) lowering" where
  "open_region name owner g =
     (let r = lw_next_region g; g1 = g\<lparr>lw_next_region := Suc r, sg_region_name := (sg_region_name g)(r := name)\<rparr> in
      case owner of
        None \<Rightarrow> g1\<lparr>sg_top := sg_top g @ [r]\<rparr>
      | Some s \<Rightarrow> g1\<lparr>lw_regions := (lw_regions g)(s := lw_regions g s @ [r])\<rparr>)"

definition mark_region :: "rid \<Rightarrow> sid \<Rightarrow> ('x, 's) lowering \<Rightarrow> ('x, 's) lowering" where
  "mark_region r s g =
     (let g1 = g\<lparr>sg_region_of := (sg_region_of g)(s \<mapsto> r)\<rparr> in
      if is_initial g s \<and> map_of (sg_region_initials g) r = None
      then g1\<lparr>sg_region_initials := sg_region_initials g @ [(r, s)]\<rparr> else g1)"

definition state_of_member ::
  "('q, 'x, 'b) body_member
    \<Rightarrow> (('x, 'b) state_head \<times> ('q, 'x, 'b) body_member list \<times> ('q, 'x, 'b) region_decl list) option" where
  "state_of_member m =
     (case m of
        StateM h ss rs \<Rightarrow> Some (h, ss, rs)
      | SubstateM d name \<Rightarrow> Some (plain_head d name, [], [])
      | StateUsageM d name ms \<Rightarrow> Some (usage_head d name ms, concat (map substates_of ms), usage_regions ms)
      | _ \<Rightarrow> None)"

lemma state_of_member_weight:
  "state_of_member m = Some (h, ss, rs) \<Longrightarrow> weights ss + region_weights rs + 2 \<le> weight m"
  using weight_usage by (cases m) (auto simp: state_of_member_def)

function (sequential)
  collect_states ::
    "('q, 'b, 's) lowering_env \<Rightarrow> ('x, 'b) state_head \<Rightarrow> ('q, 'x, 'b) body_member list \<Rightarrow> ('q, 'x, 'b) region_decl list
      \<Rightarrow> sid option \<Rightarrow> scope \<Rightarrow> ('x, 's) lowering \<Rightarrow> (string, ('x, 's) lowering) res"
  and collect_substates ::
    "('q, 'b, 's) lowering_env \<Rightarrow> ('q, 'x, 'b) body_member list \<Rightarrow> sid \<Rightarrow> scope \<Rightarrow> ('x, 's) lowering
      \<Rightarrow> (string, ('x, 's) lowering) res"
  and collect_regions ::
    "('q, 'b, 's) lowering_env \<Rightarrow> ('q, 'x, 'b) region_decl list \<Rightarrow> sid option \<Rightarrow> scope \<Rightarrow> ('x, 's) lowering
      \<Rightarrow> (string, ('x, 's) lowering) res"
  and collect_region_states ::
    "('q, 'b, 's) lowering_env \<Rightarrow> ('q, 'x, 'b) body_member list \<Rightarrow> rid \<Rightarrow> sid option \<Rightarrow> scope \<Rightarrow> ('x, 's) lowering
      \<Rightarrow> (string, ('x, 's) lowering) res"
where
  "collect_states env h ss rs parent sc g =
     bind_res (collect_substates env ss (length (sg_nodes g)) sc (add_state env h parent sc g))
       (collect_regions env rs (Some (length (sg_nodes g))) sc)"
| "collect_substates env [] s sc g = Inr g"
| "collect_substates env (StateM h ss rs # ms) s sc g =
     bind_res (collect_states env h ss rs (Some s) (child_scope sc (sh_decl h)) g) (collect_substates env ms s sc)"
| "collect_substates env (PseudoM d k name # ms) s sc g =
     collect_substates env ms s sc (add_pseudostate d k name (Some s) g)"
| "collect_substates env (m # ms) s sc g = collect_substates env ms s sc g"
| "collect_regions env [] owner sc g = Inr g"
| "collect_regions env (RegionD d name ms # rs) owner sc g =
     bind_res (collect_region_states env ms (lw_next_region g) owner (child_scope sc d) (open_region name owner g))
       (collect_regions env rs owner sc)"
| "collect_region_states env [] r parent sc g = Inr g"
| "collect_region_states env (m # ms) r parent sc g =
     (case state_of_member m of
        Some (h, ss, rs) \<Rightarrow>
          bind_res (collect_states env h ss rs parent (child_scope sc (sh_decl h)) g)
            (\<lambda>g1. collect_region_states env ms r parent sc (mark_region r (length (sg_nodes g)) g1))
      | None \<Rightarrow>
          (case m of
             PseudoM d k name \<Rightarrow> collect_region_states env ms r parent sc (add_pseudostate d k name parent g)
           | DeferM _ \<Rightarrow> Inl ''defer must be declared inside a state, not in a region body''
           | _ \<Rightarrow> collect_region_states env ms r parent sc g))"
  by pat_completeness auto

termination
proof (relation "measure (\<lambda>x. case x of
    Inl (Inl (env, h, ss, rs, parent, sc, g)) \<Rightarrow> weights ss + region_weights rs + 1
  | Inl (Inr (env, ms, s, sc, g)) \<Rightarrow> weights ms
  | Inr (Inl (env, rs, owner, sc, g)) \<Rightarrow> region_weights rs
  | Inr (Inr (env, ms, r, parent, sc, g)) \<Rightarrow> weights ms)", goal_cases)
qed (auto dest: state_of_member_weight)

text \<open>\<open>collectVertices\<close> over the members of the machine's own body.\<close>

fun collect_vertices ::
  "('q, 'b, 's) lowering_env \<Rightarrow> ('q, 'x, 'b) body_member list \<Rightarrow> scope \<Rightarrow> ('x, 's) lowering
    \<Rightarrow> (string, ('x, 's) lowering) res" where
  "collect_vertices env [] sc g = Inr g"
| "collect_vertices env (m # ms) sc g =
     bind_res (case state_of_member m of
        Some (h, ss, rs) \<Rightarrow> collect_states env h ss rs None (child_scope sc (sh_decl h)) g
      | None \<Rightarrow>
          (case m of
             RegionM r \<Rightarrow> collect_regions env [r] None sc g
           | PseudoM d k name \<Rightarrow> Inr (add_pseudostate d k name None g)
           | DeferM _ \<Rightarrow> Inl ''defer must be declared inside a state, not in the state machine body''
           | _ \<Rightarrow> Inr g))
       (collect_vertices env ms sc)"

section \<open>Regions and deferred triggers\<close>

definition region_lacks_initial :: "('x, 's) lowering \<Rightarrow> rid \<Rightarrow> bool" where
  "region_lacks_initial g r \<longleftrightarrow> map_of (sg_region_initials g) r = None"

definition check_top_regions :: "('x, 's) lowering \<Rightarrow> (string, ('x, 's) lowering) res" where
  "check_top_regions g =
     (case find (region_lacks_initial g) (sg_top g) of
        Some r \<Rightarrow> Inl (''top-level region '' @ sg_region_name g r @ '' has no initial state'')
      | None \<Rightarrow> Inr g)"

definition register_state :: "sid \<Rightarrow> ('x, 's) lowering \<Rightarrow> (string, ('x, 's) lowering) res" where
  "register_state s g =
     (if lw_regions g s = [] then Inr g
      else case find (region_lacks_initial g) (lw_regions g s) of
        Some r \<Rightarrow> Inl (''region '' @ sg_region_name g r @ '' in state '' @ sn_name (sg_nodes g ! s) @ '' has no initial state'')
      | None \<Rightarrow> Inr (g\<lparr>sg_composite := (sg_composite g)(s \<mapsto> lw_regions g s),
          sg_region_owner := (\<lambda>r. if r \<in> set (lw_regions g s) then Some s else sg_region_owner g r)\<rparr>))"

definition collect_deferred :: "sid \<Rightarrow> ('x, 's) lowering \<Rightarrow> (string, ('x, 's) lowering) res" where
  "collect_deferred s g =
     (let ts = map (classify_trigger (lw_scope g s)) (lw_defer g s);
          who = ''state '' @ sn_name (sg_nodes g ! s);
          bad = (\<lambda>t. case t of AcceptTrigger _ signal _ \<Rightarrow> signal = [] | CallTrigger _ _ \<Rightarrow> False | _ \<Rightarrow> True)
      in case find bad ts of
        Some (AcceptTrigger _ _ _) \<Rightarrow> Inl (who @ '' defers a signal trigger that names no signal'')
      | Some _ \<Rightarrow> Inl (who @ '' defers a trigger: only signal and call triggers can be deferred'')
      | None \<Rightarrow> Inr (g\<lparr>sg_deferred := (sg_deferred g)(s := ts)\<rparr>))"

fun each_state :: "(sid \<Rightarrow> 'g \<Rightarrow> (string, 'g) res) \<Rightarrow> sid list \<Rightarrow> 'g \<Rightarrow> (string, 'g) res" where
  "each_state f [] g = Inr g"
| "each_state f (s # ss) g = bind_res (f s g) (each_state f ss)"

section \<open>Transitions\<close>

text \<open>
  The vertex an endpoint names: an error when the endpoint is missing or names an element that is
  no vertex, nothing when resolution finds no declaration.
\<close>

definition endpoint_vertex_or_error ::
  "('q, 'b, 's) lowering_env \<Rightarrow> scope \<Rightarrow> ('x, 's) lowering \<Rightarrow> 'q option \<Rightarrow> (string, vertex option) res" where
  "endpoint_vertex_or_error env sc g qn =
     (case qn of
        None \<Rightarrow> Inl ''transition endpoint names nothing''
      | Some q \<Rightarrow>
          (case le_endpoint env sc q of
             None \<Rightarrow> Inr None
           | Some d \<Rightarrow>
               (case lw_vertex g d of
                  None \<Rightarrow> Inl (''transition endpoint '' @ le_text env q @ '' names a '' @ le_kind env d @ '' that is not a vertex of this state machine'')
                | Some v \<Rightarrow> Inr (Some v))))"

definition endpoint_vertex ::
  "('q, 'b, 's) lowering_env \<Rightarrow> scope \<Rightarrow> ('x, 's) lowering \<Rightarrow> 'q option \<Rightarrow> vertex option" where
  "endpoint_vertex env sc g qn = (case endpoint_vertex_or_error env sc g qn of Inl _ \<Rightarrow> None | Inr v \<Rightarrow> v)"

definition endpoint_state ::
  "('q, 'b, 's) lowering_env \<Rightarrow> scope \<Rightarrow> ('x, 's) lowering \<Rightarrow> 'q option \<Rightarrow> sid option" where
  "endpoint_state env sc g qn = (case endpoint_vertex env sc g qn of Some (StateV s) \<Rightarrow> Some s | _ \<Rightarrow> None)"

definition add_transition ::
  "string \<Rightarrow> vertex \<Rightarrow> vertex \<Rightarrow> ('x \<times> scope) event_trigger option \<Rightarrow> ('x \<times> scope) option \<Rightarrow> 's state_behavior list
    \<Rightarrow> string \<Rightarrow> ('x, 's) lowering \<Rightarrow> ('x, 's) lowering" where
  "add_transition name source target trigger guard effect via g =
     g\<lparr>sg_out := (sg_out g)(source := sg_out g source @
          [\<lparr>tr_id = lw_next_transition g, tr_name = name, tr_source = source, tr_target = target,
            tr_trigger = trigger, tr_guard = guard, tr_effect = effect, tr_via = via\<rparr>]),
        lw_next_transition := Suc (lw_next_transition g)\<rparr>"

definition completion_transition :: "vertex option \<Rightarrow> vertex option \<Rightarrow> ('x, 's) lowering \<Rightarrow> ('x, 's) lowering" where
  "completion_transition source target g =
     (case (source, target) of
        (Some s, Some t) \<Rightarrow> add_transition [] s t None None [] [] g
      | _ \<Rightarrow> g)"

definition lower_transition_edge ::
  "('q, 'b, 's) lowering_env \<Rightarrow> scope \<Rightarrow> 'q option \<Rightarrow> 'q option \<Rightarrow> 'x raw_trigger option \<Rightarrow> 'x option \<Rightarrow> 'b list
    \<Rightarrow> ('x, 's) lowering \<Rightarrow> (string, ('x, 's) lowering) res" where
  "lower_transition_edge env sc source target trigger guard effect g =
     bind_res (endpoint_vertex_or_error env sc g source) (\<lambda>s. case s of
        None \<Rightarrow> Inl (''transition edge references undefined source state '' @ (case source of Some q \<Rightarrow> le_text env q | None \<Rightarrow> []))
      | Some sv \<Rightarrow> bind_res (endpoint_vertex_or_error env sc g target) (\<lambda>t. case t of
          None \<Rightarrow> Inl (''transition edge references undefined target state '' @ (case target of Some q \<Rightarrow> le_text env q | None \<Rightarrow> []))
        | Some tv \<Rightarrow> Inr (add_transition [] sv tv (map_option (classify_trigger sc) trigger)
            (map_option (\<lambda>x. (x, sc)) guard) (map (le_behavior env sc) effect) [] g)))"

text \<open>A transition's source: the vertex it names, or the containing state when it names none.\<close>

definition source_vertex ::
  "('q, 'b, 's) lowering_env \<Rightarrow> scope \<Rightarrow> decl option \<Rightarrow> 'q option \<Rightarrow> ('x, 's) lowering \<Rightarrow> (string, vertex option) res" where
  "source_vertex env sc containing source g =
     (if source = None
      then (case containing of
              None \<Rightarrow> Inl ''sourceless transition (accept...then) at top level has no containing state''
            | Some d \<Rightarrow>
                (case lw_vertex g d of
                   None \<Rightarrow> Inl ''sourceless transition is declared in a node that is not a state of the machine''
                 | Some v \<Rightarrow> Inr (Some v)))
      else endpoint_vertex_or_error env sc g source)"

definition lower_transition_member ::
  "('q, 'b, 's) lowering_env \<Rightarrow> scope \<Rightarrow> decl option \<Rightarrow> ('q, 'x, 'b) transition_decl \<Rightarrow> ('x, 's) lowering
    \<Rightarrow> (string, ('x, 's) lowering) res" where
  "lower_transition_member env sc containing td g =
     bind_res (source_vertex env sc containing (td_source td) g) (\<lambda>s. case s of
        None \<Rightarrow> Inr g
      | Some sv \<Rightarrow>
          (if td_target td = None
           then Inl (''transition '' @ (if td_name td = [] then ''<anonymous>'' else td_name td) @ '' names no target'')
           else bind_res (endpoint_vertex_or_error env sc g (td_target td)) (\<lambda>t. case t of
             None \<Rightarrow> Inr g
           | Some tv \<Rightarrow>
               (let body = le_trigger_scope env sc (td_decl td) in
                Inr (add_transition (td_name td) sv tv (map_option (classify_trigger sc) (td_trigger td))
                  (map_option (\<lambda>x. (x, body)) (td_guard td)) (map (le_behavior env body) (td_effect td @ td_steps td))
                  (td_via td) g)))))"

text \<open>The state a bare transition out of the body's entry action starts the machine in (\<open>startsAt\<close>).\<close>

definition starts_at ::
  "('q, 'b, 's) lowering_env \<Rightarrow> scope \<Rightarrow> decl set \<Rightarrow> 'q option \<Rightarrow> 'q option \<Rightarrow> ('x, 's) lowering \<Rightarrow> sid option" where
  "starts_at env sc entry_decls source target g =
     (case (source, target) of
        (Some q, Some _) \<Rightarrow>
          (case le_endpoint env sc q of
             Some d \<Rightarrow> (if d \<in> entry_decls then endpoint_state env sc g target else None)
           | None \<Rightarrow> None)
      | _ \<Rightarrow> None)"

definition entry_actions :: "('q, 'b, 's) lowering_env \<Rightarrow> ('q, 'x, 'b) body_member list \<Rightarrow> decl set" where
  "entry_actions env ms = le_action env ` set (concat (map (\<lambda>m. case m of EntryM bs \<Rightarrow> bs | _ \<Rightarrow> []) ms))"

text \<open>A succession between two members: the start of the machine, or a completion transition.\<close>

definition lower_succession ::
  "('q, 'b, 's) lowering_env \<Rightarrow> scope \<Rightarrow> decl set \<Rightarrow> bool \<Rightarrow> 'q option \<Rightarrow> 'q option \<Rightarrow> ('x, 's) lowering \<Rightarrow> ('x, 's) lowering"
where
  "lower_succession env sc entry_decls from_entry source target g =
     (let sv = endpoint_vertex env sc g source; tv = endpoint_vertex env sc g target in
      if sv = None \<and> from_entry \<and> endpoint_state env sc g target \<noteq> None then designate_initial (the (endpoint_state env sc g target)) g
      else (case (if sv = None then starts_at env sc entry_decls source target g else None) of
              Some t \<Rightarrow> designate_initial t g
            | None \<Rightarrow> completion_transition sv tv g))"

text \<open>
  \<open>collectTransitions\<close>. \<open>containing\<close> is the enclosing state's declaration with its entry actions,
  \<open>here\<close> the entry actions of the member list itself.
\<close>

fun collect_transitions ::
  "('q, 'b, 's) lowering_env \<Rightarrow> decl set \<Rightarrow> (decl \<times> decl set) option \<Rightarrow> scope \<Rightarrow> ('q, 'x, 'b) body_member list
    \<Rightarrow> ('x, 's) lowering \<Rightarrow> (string, ('x, 's) lowering) res" where
  "collect_transitions env here containing sc [] g = Inr g"
| "collect_transitions env here containing sc (m # ms) g =
     (let entry_decls = here \<union> (case containing of Some (_, ds) \<Rightarrow> ds | None \<Rightarrow> {}) in
      bind_res
        (case m of
           SuccessionUsageM ends \<Rightarrow>
             (case ends of
                [Some q, Some q'] \<Rightarrow> Inr (lower_succession env sc entry_decls False (Some q) (Some q') g)
              | _ \<Rightarrow> Inr g)
         | StateUsageM d name us \<Rightarrow>
             (if us = [] then Inr g
              else collect_transitions env (entry_actions env us) (Some (d, entry_actions env us)) (child_scope sc d) us g)
         | InitialM successor \<Rightarrow>
             (case (if successor = None then None else endpoint_state env sc g successor) of
                Some t \<Rightarrow> Inr (designate_initial t g)
              | None \<Rightarrow> Inr g)
         | SuccessionM source target from_entry \<Rightarrow> Inr (lower_succession env sc entry_decls from_entry source target g)
         | EdgeM source target trigger guard effect \<Rightarrow> lower_transition_edge env sc source target trigger guard effect g
         | TransitionM td \<Rightarrow>
             (case (if td_trigger td = None \<and> td_guard td = None \<and> td_effect td = []
                    then starts_at env sc entry_decls (td_source td) (td_target td) g else None) of
                Some t \<Rightarrow> Inr (designate_initial t g)
              | None \<Rightarrow> lower_transition_member env sc (map_option fst containing) td g)
         | StateM h ss rs \<Rightarrow>
             collect_transitions env (entry_actions env ss)
               (Some (sh_decl h, le_action env ` set (sh_entry h)))
               (case lw_vertex g (sh_decl h) of Some (StateV s) \<Rightarrow> lw_scope g s | _ \<Rightarrow> child_scope sc (sh_decl h)) ss g
         | RegionM r \<Rightarrow>
             (case r of RegionD d name us \<Rightarrow> collect_transitions env (entry_actions env us) None (child_scope sc d) us g)
         | _ \<Rightarrow> Inr g)
        (collect_transitions env here containing sc ms))"

section \<open>The state the machine starts in\<close>

definition state_depth :: "('x, 's) lowering \<Rightarrow> sid \<Rightarrow> int" where
  "state_depth g s = int (length (climb_from (sg_parent g) (length (sg_nodes g)) s)) - 1"

text \<open>The topmost state reached from a state over initial parents only.\<close>

primrec chain_root_from :: "('x, 's) lowering \<Rightarrow> nat \<Rightarrow> sid \<Rightarrow> sid" where
  "chain_root_from g 0 = (\<lambda>s. s)"
| "chain_root_from g (Suc n) = (\<lambda>s.
     (case sg_parent g s of
        Some p \<Rightarrow> (if is_initial g p then chain_root_from g n p else s)
      | None \<Rightarrow> s))"

definition chain_root :: "('x, 's) lowering \<Rightarrow> sid \<Rightarrow> sid" where
  "chain_root g s = chain_root_from g (length (sg_nodes g)) s"

text \<open>The loop over the states, with the selected state, the depth of its chain's root and its own.\<close>

definition prefer_initial ::
  "('x, 's) lowering \<Rightarrow> sid \<Rightarrow> sid option \<times> int \<times> int \<Rightarrow> sid option \<times> int \<times> int" where
  "prefer_initial g s best = (case best of (sel, root, leaf) \<Rightarrow>
     (if \<not> is_initial g s then best
      else let depth = state_depth g s; root_depth = state_depth g (chain_root g s) in
        if root_depth < root \<or> root_depth = root \<and> depth > leaf then (Some s, root_depth, depth) else best))"

definition select_initial :: "('x, 's) lowering \<Rightarrow> sid option" where
  "select_initial g = fst (fold (prefer_initial g) [0..<length (sg_nodes g)] (None, 999999, - 1))"

section \<open>The whole machine\<close>

definition lower_attributes :: "scope \<Rightarrow> ('q, 'x, 'b) body_member list \<Rightarrow> (string \<times> ('x \<times> scope)) list" where
  "lower_attributes sc ms =
     concat (map (\<lambda>m. case m of AttributeM name v \<Rightarrow> (if name = [] then [] else [(name, (v, sc))]) | _ \<Rightarrow> []) ms)"

definition to_state_graph ::
  "('q, 'b, 's) lowering_env \<Rightarrow> string \<Rightarrow> scope \<Rightarrow> ('q, 'x, 'b) body_member list
    \<Rightarrow> (string, ('x \<times> scope, 's) state_graph) res" where
  "to_state_graph env name sc ms =
     bind_res (collect_vertices env ms sc ((new_state_graph name sc)\<lparr>sg_attributes := lower_attributes sc ms\<rparr>)) (\<lambda>g1.
     bind_res (check_top_regions g1) (\<lambda>g2.
     bind_res (each_state register_state [0..<length (sg_nodes g2)] g2) (\<lambda>g3.
     bind_res (each_state collect_deferred [0..<length (sg_nodes g3)] g3) (\<lambda>g4.
     bind_res (collect_transitions env (entry_actions env ms) None sc ms g4) (\<lambda>g5.
     Inr (state_graph.truncate (if sg_top g5 = [] then g5\<lparr>sg_initial := select_initial g5\<rparr> else g5)))))))"

end
