(* ===== verification/State_Executor.thy ===== *)
theory State_Executor
  imports Event_Queue Runtime_Context
begin

text \<open>
  The executor of state machines, \<open>internal/core/runtime/state_executor.go\<close> with
  \<open>state_region_transition.go\<close>, \<open>state_change_trigger.go\<close>, \<open>state_time_trigger.go\<close> and
  \<open>state_statements.go\<close>: the machine's state as a record, one definition per method, each a
  \<open>prog\<close> over it. The expression evaluator, the conversion of a value to clock units, the addition
  of virtual times and the statement engine are arguments, the record \<open>machine_engine\<close>; each may
  change the context, the engine also the machine's data, and fail.
\<close>

section \<open>The state of a machine\<close>

text \<open>
  Errors: the two typed budget errors, an error named by its message, and one wrapped by a
  caller's \<open>fmt.Errorf("...: %w", err)\<close>.
\<close>

datatype machine_error =
    ErrDoStepLimitExceeded int
  | ErrStateEventLimitExceeded int
  | ErrNesting
  | ErrMachine string
  | ErrIn string machine_error

fun root_cause :: "machine_error \<Rightarrow> machine_error" where
  "root_cause (ErrIn _ e) = root_cause e"
| "root_cause e = e"

record history_record =
  hr_child :: "sid option"
  hr_regions :: "(rid \<times> sid) list"

text \<open>A running do behavior; its identity stands for the pointer the code compares.\<close>

record 's do_action =
  da_id :: nat
  da_state :: sid
  da_pending :: "'s state_behavior list"

datatype trace_record =
    TraceEntry string bool
  | TraceExit string bool
  | TraceTransition string string string
  | TraceDo string

record change_wait =
  cw_state :: string
  cw_trigger :: string
  cw_reason :: string

record ('t, 'e, 's, 'v, 'c) machine =
  sm_ctx :: "('v, 'c) rt_context"
  sm_self :: int
  sm_state :: execution_state
  sm_simple :: "sid option"
  sm_regions :: "(rid \<times> sid) list"
  sm_time :: 't
  sm_next :: int
  sm_queue :: "('t, 'e, 's, 'v) event_queue"
  sm_data :: "'v feats"
  sm_visits :: "string list"
  sm_stack :: "sid list"
  sm_history :: "sid \<Rightarrow> history_record option"
  sm_deferred :: "('t, 'e, 's, 'v) event list"
  sm_do :: "'s do_action list"
  sm_next_do :: nat
  sm_run_started :: bool
  sm_timers :: "tid set"
  sm_fired :: "tid set"
  sm_firing :: "tid option"
  sm_rearmed :: "tid set option"
  sm_waits :: "change_wait list"
  sm_trace :: "trace_record list option"

record ('t, 'e, 's, 'v, 'c) machine_engine =
  me_eval :: "('v, 'c) rt_context \<Rightarrow> 'v feats \<Rightarrow> 'e \<Rightarrow> ('v, 'c) rt_context \<times> (machine_error, 'v) res"
  me_bool :: "'v \<Rightarrow> bool option"
  me_duration :: "'v \<Rightarrow> (machine_error, 't) res"
  me_add :: "'t \<Rightarrow> 't \<Rightarrow> 't"
  me_run :: "'s state_behavior \<Rightarrow> ('v, 'c) rt_context \<Rightarrow> 'v feats
    \<Rightarrow> ('v, 'c) rt_context \<times> 'v feats \<times> machine_error option"
  me_reset :: "'c \<Rightarrow> 'c"
  me_name :: "'e \<Rightarrow> string"

type_synonym ('t, 'e, 's, 'v, 'c, 'a) mprog = "(('t, 'e, 's, 'v, 'c) machine, machine_error, 'a) prog"

definition new_machine :: "('v, 'c) rt_context \<Rightarrow> int \<Rightarrow> ('t::{linorder, zero}, 'e, 's, 'v, 'c) machine" where
  "new_machine ctx self =
     \<lparr>sm_ctx = ctx, sm_self = self, sm_state = StateReady, sm_simple = None, sm_regions = [], sm_time = 0,
      sm_next = 1, sm_queue = new_event_queue, sm_data = (\<lambda>_. None), sm_visits = [], sm_stack = [],
      sm_history = (\<lambda>_. None), sm_deferred = [], sm_do = [], sm_next_do = 0, sm_run_started = False,
      sm_timers = {}, sm_fired = {}, sm_firing = None, sm_rearmed = None, sm_waits = [], sm_trace = None\<rparr>"

section \<open>Evaluation\<close>

definition eval_step :: "('t, 'e, 's, 'v, 'c) machine_engine \<Rightarrow> 'e \<Rightarrow> ('t, 'e, 's, 'v, 'c, 'v) mprog" where
  "eval_step eng ex m =
     (case me_eval eng (sm_ctx m) (sm_data m) ex of (ctx, r) \<Rightarrow> (m\<lparr>sm_ctx := ctx\<rparr>, r))"

text \<open>\<open>NewEvalContextIn\<close> without the machine's data: an attribute default sees none of it.\<close>

definition eval_default :: "('t, 'e, 's, 'v, 'c) machine_engine \<Rightarrow> 'e \<Rightarrow> ('t, 'e, 's, 'v, 'c, 'v) mprog" where
  "eval_default eng ex m =
     (case me_eval eng (sm_ctx m) (\<lambda>_. None) ex of (ctx, r) \<Rightarrow> (m\<lparr>sm_ctx := ctx\<rparr>, r))"

definition initialize_machine_attributes ::
  "('t, 'e, 's, 'v, 'c) machine_engine \<Rightarrow> ('e, 's) state_graph \<Rightarrow> ('t, 'e, 's, 'v, 'c, unit) mprog" where
  "initialize_machine_attributes eng g =
     for_each (\<lambda>(name, ex).
       then_do (wrapped (ErrIn (''eval attribute default '' @ name)) (eval_default eng ex)) (\<lambda>v.
         update (\<lambda>m. m\<lparr>sm_data := (sm_data m)(name \<mapsto> v)\<rparr>))) (sg_attributes g)"

definition new_state_executor ::
  "('t::{linorder, zero}, 'e, 's, 'v, 'c) machine_engine \<Rightarrow> ('e, 's) state_graph \<Rightarrow> ('v, 'c) rt_context \<Rightarrow> int
    \<Rightarrow> ('t, 'e, 's, 'v, 'c) machine \<times> (machine_error, unit) res" where
  "new_state_executor eng g ctx self = initialize_machine_attributes eng g (new_machine ctx self)"

definition passes_guard ::
  "('t, 'e, 's, 'v, 'c) machine_engine \<Rightarrow> ('e, 's) state_graph \<Rightarrow> ('e, 's) transition
    \<Rightarrow> ('t, 'e, 's, 'v, 'c, bool) mprog" where
  "passes_guard eng g tr =
     (case tr_guard tr of
        None \<Rightarrow> give True
      | Some ex \<Rightarrow>
          then_do (wrapped (ErrIn (''eval guard of '' @ transition_description g tr)) (eval_step eng ex)) (\<lambda>v.
            case me_bool eng v of
              None \<Rightarrow> throw (ErrMachine (''guard of '' @ transition_description g tr @ '' must be boolean''))
            | Some b \<Rightarrow> give b))"

text \<open>\<open>executeBehavior\<close>, and the loop of \<open>runEffect\<close> over the behaviors of an effect.\<close>

definition execute_behavior ::
  "('t, 'e, 's, 'v, 'c) machine_engine \<Rightarrow> 's state_behavior \<Rightarrow> ('t, 'e, 's, 'v, 'c, unit) mprog" where
  "execute_behavior eng b =
     (if sb_body b = [] then give ()
      else (\<lambda>m. case me_run eng b (sm_ctx m) (sm_data m) of
              (ctx, d, err) \<Rightarrow> (m\<lparr>sm_ctx := ctx, sm_data := d\<rparr>, (case err of None \<Rightarrow> Inr () | Some x \<Rightarrow> Inl x))))"

definition run_effect ::
  "('t, 'e, 's, 'v, 'c) machine_engine \<Rightarrow> ('e, 's) transition \<Rightarrow> ('t, 'e, 's, 'v, 'c, unit) mprog" where
  "run_effect eng tr = for_each (\<lambda>b. wrapped (ErrIn ''transition effect'') (execute_behavior eng b)) (tr_effect tr)"

section \<open>The active configuration\<close>

definition active_in :: "('t, 'e, 's, 'v, 'c) machine \<Rightarrow> rid \<Rightarrow> sid option" where
  "active_in m r = map_of (sm_regions m) r"

definition set_region :: "rid \<Rightarrow> sid \<Rightarrow> ('t, 'e, 's, 'v, 'c) machine \<Rightarrow> ('t, 'e, 's, 'v, 'c) machine" where
  "set_region r s m = m\<lparr>sm_regions := AList.update r s (sm_regions m)\<rparr>"

definition clear_region :: "rid \<Rightarrow> ('t, 'e, 's, 'v, 'c) machine \<Rightarrow> ('t, 'e, 's, 'v, 'c) machine" where
  "clear_region r m = m\<lparr>sm_regions := AList.delete r (sm_regions m)\<rparr>"

definition set_current_state :: "sid option \<Rightarrow> ('t, 'e, 's, 'v, 'c) machine \<Rightarrow> ('t, 'e, 's, 'v, 'c) machine" where
  "set_current_state s m = m\<lparr>sm_simple := s, sm_regions := []\<rparr>"

definition is_active :: "('t, 'e, 's, 'v, 'c) machine \<Rightarrow> sid \<Rightarrow> bool" where
  "is_active m s \<longleftrightarrow> sm_simple m = Some s \<or> s \<in> snd ` set (sm_regions m)"

definition ordered_active_regions :: "('e, 's) state_graph \<Rightarrow> ('t, 'e, 's, 'v, 'c) machine \<Rightarrow> rid list" where
  "ordered_active_regions g m =
     filter (\<lambda>r. active_in m r \<noteq> None) (sg_top g @ concat (map (regions_of g) (states_of g)))"

definition ordered_region_states :: "('e, 's) state_graph \<Rightarrow> ('t, 'e, 's, 'v, 'c) machine \<Rightarrow> sid list" where
  "ordered_region_states g m = map (\<lambda>r. the (active_in m r)) (ordered_active_regions g m)"

definition active_states :: "('e, 's) state_graph \<Rightarrow> ('t, 'e, 's, 'v, 'c) machine \<Rightarrow> sid list" where
  "active_states g m =
     (if sm_regions m \<noteq> [] then ordered_region_states g m
      else (case sm_simple m of Some s \<Rightarrow> [s] | None \<Rightarrow> []))"

definition encloses_active_region :: "('e, 's) state_graph \<Rightarrow> ('t, 'e, 's, 'v, 'c) machine \<Rightarrow> sid \<Rightarrow> bool" where
  "encloses_active_region g m s \<longleftrightarrow> list_ex (\<lambda>r. active_in m r \<noteq> None) (regions_of g s)"

text \<open>\<open>sort.SliceStable\<close> by \<open>lessPath\<close>; \<open>less_path\<close> is the order \<open>sort_key\<close> uses (\<open>less_path_iff\<close>).\<close>

definition active_leaves :: "('e, 's) state_graph \<Rightarrow> ('t, 'e, 's, 'v, 'c) machine \<Rightarrow> sid list" where
  "active_leaves g m =
     sort_key (region_path g) (filter (\<lambda>s. \<not> encloses_active_region g m s) (active_states g m))"

definition active_region_of :: "('e, 's) state_graph \<Rightarrow> ('t, 'e, 's, 'v, 'c) machine \<Rightarrow> sid \<Rightarrow> rid option" where
  "active_region_of g m s =
     first_some (\<lambda>a. case sg_region_of g a of
        Some r \<Rightarrow> (if active_in m r \<noteq> None then Some r else None) | None \<Rightarrow> None) (parent_chain g s)"

definition in_active_configuration :: "('e, 's) state_graph \<Rightarrow> ('t, 'e, 's, 'v, 'c) machine \<Rightarrow> sid \<Rightarrow> bool" where
  "in_active_configuration g m s \<longleftrightarrow> list_ex (\<lambda>a. s \<in> set (parent_chain g a)) (active_states g m)"

definition active_composite_owner :: "('e, 's) state_graph \<Rightarrow> ('t, 'e, 's, 'v, 'c) machine \<Rightarrow> sid option" where
  "active_composite_owner g m =
     fold (\<lambda>s deepest.
        if encloses_active_region g m s
          \<and> (case deepest of None \<Rightarrow> True | Some d \<Rightarrow> length (parent_chain g d) < length (parent_chain g s))
        then Some s else deepest) (states_of g) None"

text \<open>\<open>activeLeavesBelow\<close>; regions nest, so states bound the recursion.\<close>

primrec active_leaves_from ::
  "('e, 's) state_graph \<Rightarrow> ('t, 'e, 's, 'v, 'c) machine \<Rightarrow> nat \<Rightarrow> sid \<Rightarrow> sid list" where
  "active_leaves_from g m 0 = (\<lambda>s. [s])"
| "active_leaves_from g m (Suc n) = (\<lambda>s.
     (case sg_composite g s of
        None \<Rightarrow> [s]
      | Some rs \<Rightarrow> concat (map (\<lambda>r. case active_in m r of
            None \<Rightarrow> []
          | Some a \<Rightarrow> (if a = s then [] else active_leaves_from g m n a)) rs)))"

definition active_leaves_below :: "('e, 's) state_graph \<Rightarrow> ('t, 'e, 's, 'v, 'c) machine \<Rightarrow> sid \<Rightarrow> sid list" where
  "active_leaves_below g m s = active_leaves_from g m (Suc (length (sg_nodes g))) s"

primrec innermost_region_from ::
  "('e, 's) state_graph \<Rightarrow> ('t, 'e, 's, 'v, 'c) machine \<Rightarrow> sid \<Rightarrow> nat \<Rightarrow> rid \<Rightarrow> rid" where
  "innermost_region_from g m target 0 = (\<lambda>r. r)"
| "innermost_region_from g m target (Suc n) = (\<lambda>r.
     (case active_in m r of
        None \<Rightarrow> r
      | Some a \<Rightarrow>
          (if a = target then r
           else (case region_under g a target of
                   None \<Rightarrow> r
                 | Some inner \<Rightarrow> innermost_region_from g m target n inner))))"

definition innermost_active_region ::
  "('e, 's) state_graph \<Rightarrow> ('t, 'e, 's, 'v, 'c) machine \<Rightarrow> rid \<Rightarrow> sid \<Rightarrow> rid" where
  "innermost_active_region g m r target = innermost_region_from g m target (Suc (length (sg_nodes g))) r"

section \<open>Scheduling\<close>

definition push_fresh ::
  "event_type \<Rightarrow> 't \<Rightarrow> ('e, 's, 'v) payload \<Rightarrow> ('t::linorder, 'e, 's, 'v, 'c) machine \<Rightarrow> ('t, 'e, 's, 'v, 'c) machine"
where
  "push_fresh ty ts pl m =
     m\<lparr>sm_queue := push_event \<lparr>ev_id = sm_next m, ev_type = ty, ev_time = ts, ev_payload = pl\<rparr> (sm_queue m),
       sm_next := sm_next m + 1\<rparr>"

definition has_running_do :: "('t, 'e, 's, 'v, 'c) machine \<Rightarrow> sid \<Rightarrow> bool" where
  "has_running_do m s \<longleftrightarrow> list_ex (\<lambda>a. da_state a = s) (sm_do m)"

definition schedule_completion_transitions ::
  "('t::linorder, 'e, 's, 'v, 'c) machine_engine \<Rightarrow> ('e, 's) state_graph \<Rightarrow> sid \<Rightarrow> ('t, 'e, 's, 'v, 'c, unit) mprog" where
  "schedule_completion_transitions eng g s =
     with_state (\<lambda>m. if has_running_do m s then give () else
       for_each (\<lambda>tr. if tr_trigger tr \<noteq> None then give () else
         then_do (wrapped (ErrIn ''eval completion guard'') (passes_guard eng g tr)) (\<lambda>satisfied.
           if \<not> satisfied then give ()
           else update (\<lambda>m. push_fresh EventTime (sm_time m) (LowerTransition tr) m)))
         (sg_out g (StateV s)))"

text \<open>The time a timer armed now expires at, and the timer's event queued and marked as running.\<close>

definition expiry :: "('t::linorder, 'e, 's, 'v, 'c) machine_engine \<Rightarrow> bool \<Rightarrow> 't \<Rightarrow> 't \<Rightarrow> 't" where
  "expiry eng absolute d now = (if absolute then max d now else me_add eng now d)"

definition arm_timer ::
  "('e, 's) transition \<Rightarrow> 't \<Rightarrow> ('t::linorder, 'e, 's, 'v, 'c) machine \<Rightarrow> ('t, 'e, 's, 'v, 'c) machine" where
  "arm_timer tr ts m =
     (push_fresh EventTime ts (LowerTransition tr) m)\<lparr>sm_timers := insert (tr_id tr) (sm_timers m)\<rparr>"

definition schedule_time_transitions ::
  "('t::linorder, 'e, 's, 'v, 'c) machine_engine \<Rightarrow> ('e, 's) state_graph \<Rightarrow> sid \<Rightarrow> ('t, 'e, 's, 'v, 'c, unit) mprog" where
  "schedule_time_transitions eng g s =
     for_each (\<lambda>tr. with_state (\<lambda>m.
       if tr_id tr \<in> sm_timers m then give () else
       (case tr_trigger tr of
          Some (TimeTrigger duration absolute) \<Rightarrow>
            then_do (wrapped (ErrIn ''eval time duration'') (eval_step eng duration)) (\<lambda>v.
              case me_duration eng v of
                Inl x \<Rightarrow> throw x
              | Inr d \<Rightarrow> update (\<lambda>m. arm_timer tr (expiry eng absolute d (sm_time m)) m))
        | _ \<Rightarrow> give ()))) (sg_out g (StateV s))"

definition schedule_transitions_for_state ::
  "('t::linorder, 'e, 's, 'v, 'c) machine_engine \<Rightarrow> ('e, 's) state_graph \<Rightarrow> sid \<Rightarrow> ('t, 'e, 's, 'v, 'c, unit) mprog" where
  "schedule_transitions_for_state eng g s =
     block [schedule_completion_transitions eng g s, schedule_time_transitions eng g s]"

definition schedule_from_leaf ::
  "('t::linorder, 'e, 's, 'v, 'c) machine_engine \<Rightarrow> ('e, 's) state_graph \<Rightarrow> sid \<Rightarrow> ('t, 'e, 's, 'v, 'c, unit) mprog" where
  "schedule_from_leaf eng g leaf =
     block [schedule_transitions_for_state eng g leaf,
            for_each (schedule_time_transitions eng g) (tl (parent_chain g leaf))]"

definition schedule_transition_events ::
  "('t::linorder, 'e, 's, 'v, 'c) machine_engine \<Rightarrow> ('e, 's) state_graph \<Rightarrow> ('t, 'e, 's, 'v, 'c, unit) mprog" where
  "schedule_transition_events eng g = with_state (\<lambda>m. for_each (schedule_from_leaf eng g) (active_leaves g m))"

definition schedule_from_entered ::
  "('t::linorder, 'e, 's, 'v, 'c) machine_engine \<Rightarrow> ('e, 's) state_graph \<Rightarrow> sid \<Rightarrow> ('t, 'e, 's, 'v, 'c, unit) mprog" where
  "schedule_from_entered eng g s =
     with_state (\<lambda>m. for_each (\<lambda>leaf. wrapped (ErrIn ''schedule transitions'') (schedule_from_leaf eng g leaf))
       (active_leaves_below g m s))"

section \<open>Do behaviors\<close>

text \<open>\<open>stopDoAction\<close>, and \<open>startDoAction\<close>, which allocates the record.\<close>

definition stop_do :: "sid \<Rightarrow> ('t, 'e, 's, 'v, 'c) machine \<Rightarrow> ('t, 'e, 's, 'v, 'c) machine" where
  "stop_do s m = m\<lparr>sm_do := filter (\<lambda>a. da_state a \<noteq> s) (sm_do m)\<rparr>"

definition start_do ::
  "('e, 's) state_graph \<Rightarrow> sid \<Rightarrow> ('t, 'e, 's, 'v, 'c) machine \<Rightarrow> ('t, 'e, 's, 'v, 'c) machine" where
  "start_do g s m =
     (if bh_do (sg_behaviors g s) = [] then m
      else let m1 = stop_do s m in
        m1\<lparr>sm_do := sm_do m1 @ [\<lparr>da_id = sm_next_do m1, da_state = s, da_pending = bh_do (sg_behaviors g s)\<rparr>],
           sm_next_do := Suc (sm_next_do m1)\<rparr>)"

section \<open>Records of what happens\<close>

definition record_trace :: "trace_record \<Rightarrow> ('t, 'e, 's, 'v, 'c) machine \<Rightarrow> ('t, 'e, 's, 'v, 'c) machine" where
  "record_trace r m = m\<lparr>sm_trace := map_option (\<lambda>l. l @ [r]) (sm_trace m)\<rparr>"

definition visit_state ::
  "('e, 's) state_graph \<Rightarrow> sid \<Rightarrow> ('t, 'e, 's, 'v, 'c) machine \<Rightarrow> ('t, 'e, 's, 'v, 'c) machine" where
  "visit_state g s m =
     record_trace (TraceEntry (state_name g s) (bh_entry (sg_behaviors g s) \<noteq> []))
       (m\<lparr>sm_visits := sm_visits m @ [state_name g s]\<rparr>)"

text \<open>The history of a composite state: \<open>recordHistory\<close> and the regions below it.\<close>

definition history_of :: "('t, 'e, 's, 'v, 'c) machine \<Rightarrow> sid \<Rightarrow> history_record" where
  "history_of m s = (case sm_history m s of Some h \<Rightarrow> h | None \<Rightarrow> \<lparr>hr_child = None, hr_regions = []\<rparr>)"

definition record_region_history ::
  "('e, 's) state_graph \<Rightarrow> rid \<Rightarrow> sid \<Rightarrow> ('t, 'e, 's, 'v, 'c) machine \<Rightarrow> ('t, 'e, 's, 'v, 'c) machine" where
  "record_region_history g r s m =
     (case sg_region_owner g r of
        None \<Rightarrow> m
      | Some owner \<Rightarrow>
          m\<lparr>sm_history := (sm_history m)(owner \<mapsto>
             (history_of m owner)\<lparr>hr_regions := AList.update r s (hr_regions (history_of m owner))\<rparr>)\<rparr>)"

definition forget_region_history ::
  "('e, 's) state_graph \<Rightarrow> rid \<Rightarrow> ('t, 'e, 's, 'v, 'c) machine \<Rightarrow> ('t, 'e, 's, 'v, 'c) machine" where
  "forget_region_history g r m =
     (case sg_region_owner g r of
        None \<Rightarrow> m
      | Some owner \<Rightarrow>
          (case sm_history m owner of
             None \<Rightarrow> m
           | Some h \<Rightarrow> m\<lparr>sm_history := (sm_history m)(owner \<mapsto> h\<lparr>hr_regions := AList.delete r (hr_regions h)\<rparr>)\<rparr>))"

definition record_child_history ::
  "('e, 's) state_graph \<Rightarrow> sid \<Rightarrow> ('t, 'e, 's, 'v, 'c) machine \<Rightarrow> ('t, 'e, 's, 'v, 'c) machine" where
  "record_child_history g s m =
     (case sg_parent g s of
        None \<Rightarrow> m
      | Some p \<Rightarrow> m\<lparr>sm_history := (sm_history m)(p \<mapsto> (history_of m p)\<lparr>hr_child := Some s\<rparr>)\<rparr>)"

section \<open>Entering a state\<close>

text \<open>A new activation's watches: every transition out of the state but the one being taken.\<close>

definition rearm_watches ::
  "('e, 's) state_graph \<Rightarrow> sid \<Rightarrow> ('t, 'e, 's, 'v, 'c) machine \<Rightarrow> ('t, 'e, 's, 'v, 'c) machine" where
  "rearm_watches g s m =
     (let ts = {t \<in> tr_id ` set (sg_out g (StateV s)). Some t \<noteq> sm_firing m}
      in m\<lparr>sm_fired := sm_fired m - ts, sm_rearmed := map_option (\<lambda>r. r \<union> ts) (sm_rearmed m)\<rparr>)"

text \<open>\<open>enterRegionsInto\<close>, given how a state is entered.\<close>

definition enter_regions_with ::
  "('e, 's) state_graph \<Rightarrow> (sid \<Rightarrow> ('t, 'e, 's, 'v, 'c, unit) mprog) \<Rightarrow> sid option \<Rightarrow> (rid \<times> sid) list \<Rightarrow> rid list
    \<Rightarrow> ('t, 'e, 's, 'v, 'c, unit) mprog" where
  "enter_regions_with g enter container branches rs =
     for_each (\<lambda>r.
       case (case map_of branches r of Some b \<Rightarrow> Some b | None \<Rightarrow> map_of (sg_region_initials g) r) of
         None \<Rightarrow> throw (ErrMachine (''region '' @ sg_region_name g r @ '' has no initial state''))
       | Some entry \<Rightarrow>
           block [update (set_region r entry),
                  wrapped (ErrIn (''enter starting state in region '' @ sg_region_name g r))
                    (for_each enter (descendant_chain g container entry))]) rs"

text \<open>
  \<open>enterStateInto\<close>. Its recursion descends the hierarchy, so the number of states bounds it; an
  exhausted bound is the error \<open>ErrNesting\<close>, which \<open>State_Invariants\<close> shows never occurs.
\<close>

primrec enter_at ::
  "('t, 'e, 's, 'v, 'c) machine_engine \<Rightarrow> ('e, 's) state_graph \<Rightarrow> (rid \<times> sid) list \<Rightarrow> nat
    \<Rightarrow> sid \<Rightarrow> ('t, 'e, 's, 'v, 'c, unit) mprog" where
  "enter_at eng g branches 0 = (\<lambda>s. throw ErrNesting)"
| "enter_at eng g branches (Suc n) = (\<lambda>s. block
     [update (rearm_watches g s),
      update (visit_state g s),
      for_each (\<lambda>b. wrapped (ErrIn ''entry action'') (execute_behavior eng b)) (bh_entry (sg_behaviors g s)),
      (case sg_composite g s of
         Some rs \<Rightarrow>
           block [update (\<lambda>m. m\<lparr>sm_simple := None\<rparr>),
                  enter_regions_with g (enter_at eng g branches n) (Some s) branches rs]
       | None \<Rightarrow> update (\<lambda>m. if sm_regions m = [] then m\<lparr>sm_simple := Some s\<rparr> else m)),
      update (start_do g s)])"

definition enter_state_into ::
  "('t, 'e, 's, 'v, 'c) machine_engine \<Rightarrow> ('e, 's) state_graph \<Rightarrow> (rid \<times> sid) list
    \<Rightarrow> sid \<Rightarrow> ('t, 'e, 's, 'v, 'c, unit) mprog" where
  "enter_state_into eng g branches s = enter_at eng g branches (Suc (length (sg_nodes g))) s"

definition enter_state ::
  "('t, 'e, 's, 'v, 'c) machine_engine \<Rightarrow> ('e, 's) state_graph \<Rightarrow> sid \<Rightarrow> ('t, 'e, 's, 'v, 'c, unit) mprog" where
  "enter_state eng g = enter_state_into eng g []"

definition enter_regions_into ::
  "('t, 'e, 's, 'v, 'c) machine_engine \<Rightarrow> ('e, 's) state_graph \<Rightarrow> sid option \<Rightarrow> (rid \<times> sid) list \<Rightarrow> rid list
    \<Rightarrow> ('t, 'e, 's, 'v, 'c, unit) mprog" where
  "enter_regions_into eng g container branches rs =
     enter_regions_with g (enter_state_into eng g branches) container branches rs"

section \<open>Leaving a state\<close>

definition carries_one_of :: "tid set \<Rightarrow> ('t, 'e, 's, 'v) event \<Rightarrow> bool" where
  "carries_one_of ts ev = (case ev_payload ev of LowerTransition tr \<Rightarrow> tr_id tr \<in> ts | _ \<Rightarrow> False)"

definition drop_timers ::
  "('e, 's) state_graph \<Rightarrow> sid \<Rightarrow> ('t::linorder, 'e, 's, 'v, 'c) machine \<Rightarrow> ('t, 'e, 's, 'v, 'c) machine" where
  "drop_timers g s m =
     (let out = sg_out g (StateV s);
          timed = tr_id ` set (filter is_time_trigger out);
          m1 = m\<lparr>sm_timers := sm_timers m - tr_id ` set out\<rparr>
      in if timed = {} then m1 else m1\<lparr>sm_queue := withdraw (carries_one_of timed) (sm_queue m1)\<rparr>)"

text \<open>The regions of the state that are active, with their states.\<close>

definition own_active ::
  "('e, 's) state_graph \<Rightarrow> sid \<Rightarrow> ('t, 'e, 's, 'v, 'c) machine \<Rightarrow> (rid \<times> sid) list" where
  "own_active g s m =
     concat (map (\<lambda>r. case active_in m r of Some a \<Rightarrow> [(r, a)] | None \<Rightarrow> []) (regions_of g s))"

definition record_left ::
  "('e, 's) state_graph \<Rightarrow> sid \<Rightarrow> ('t, 'e, 's, 'v, 'c) machine \<Rightarrow> ('t, 'e, 's, 'v, 'c) machine" where
  "record_left g s m =
     record_child_history g s (fold (\<lambda>(r, a). record_region_history g r a) (own_active g s m) m)"

text \<open>
  \<open>exitState\<close>. Its recursion descends into the regions of the state, so the number of states bounds
  it too.
\<close>

primrec exit_at ::
  "('t::linorder, 'e, 's, 'v, 'c) machine_engine \<Rightarrow> ('e, 's) state_graph \<Rightarrow> nat \<Rightarrow> sid \<Rightarrow> ('t, 'e, 's, 'v, 'c, unit) mprog"
where
  "exit_at eng g 0 = (\<lambda>s. throw ErrNesting)"
| "exit_at eng g (Suc n) = (\<lambda>s. block
     [update (drop_timers g s),
      with_state (\<lambda>m. block
        [update (record_left g s),
         for_each (\<lambda>(r, a). block
           [update (clear_region r),
            for_each (\<lambda>c. wrapped (ErrIn ''exit region state'') (exit_at eng g n c)) (climb g (Some a) (Some s))])
           (own_active g s m)]),
      update (stop_do s),
      update (record_trace (TraceExit (state_name g s) (bh_exit (sg_behaviors g s) \<noteq> []))),
      for_each (\<lambda>b. wrapped (ErrIn ''exit action'') (execute_behavior eng b)) (bh_exit (sg_behaviors g s)),
      update (\<lambda>m. m\<lparr>sm_simple := None\<rparr>)])"

definition exit_state ::
  "('t::linorder, 'e, 's, 'v, 'c) machine_engine \<Rightarrow> ('e, 's) state_graph \<Rightarrow> sid \<Rightarrow> ('t, 'e, 's, 'v, 'c, unit) mprog" where
  "exit_state eng g s = wrapped (ErrIn ''exit state'') (exit_at eng g (Suc (length (sg_nodes g))) s)"

definition exited_by_ancestor_region :: "('e, 's) state_graph \<Rightarrow> sid \<Rightarrow> sid list \<Rightarrow> bool" where
  "exited_by_ancestor_region g s leaving \<longleftrightarrow>
     (case sg_region_of g s of None \<Rightarrow> False
      | Some r \<Rightarrow> (case sg_region_owner g r of None \<Rightarrow> False | Some owner \<Rightarrow> owner \<in> set leaving))"

definition exit_states ::
  "('t::linorder, 'e, 's, 'v, 'c) machine_engine \<Rightarrow> ('e, 's) state_graph \<Rightarrow> sid list \<Rightarrow> ('t, 'e, 's, 'v, 'c, unit) mprog" where
  "exit_states eng g leaving =
     for_each (\<lambda>s. if exited_by_ancestor_region g s leaving then give () else exit_state eng g s) leaving"

section \<open>Pseudostates\<close>

definition pseudo_label :: "('e, 's) state_graph \<Rightarrow> psid \<Rightarrow> string" where
  "pseudo_label g p =
     (case ps_kind (sg_pseudos g ! p) of
        PseudostateChoice \<Rightarrow> ''choice'' | PseudostateJunction \<Rightarrow> ''junction'' | PseudostateFork \<Rightarrow> ''fork''
      | PseudostateJoin \<Rightarrow> ''join'' | PseudostateEntry \<Rightarrow> ''entry'' | PseudostateExit \<Rightarrow> ''exit''
      | PseudostateShallowHistory \<Rightarrow> ''shallow history'' | PseudostateDeepHistory \<Rightarrow> ''deep history'')
     @ '' '' @ ps_name (sg_pseudos g ! p)"

text \<open>\<open>pseudostateBranch\<close>: the first outgoing transition whose guard holds.\<close>

primrec first_passing ::
  "('t, 'e, 's, 'v, 'c) machine_engine \<Rightarrow> ('e, 's) state_graph \<Rightarrow> psid \<Rightarrow> ('e, 's) transition list
    \<Rightarrow> ('t, 'e, 's, 'v, 'c, ('e, 's) transition) mprog" where
  "first_passing eng g p [] = throw (ErrMachine (pseudo_label g p @ '': no guard evaluated to true''))"
| "first_passing eng g p (tr # trs) =
     then_do (wrapped (ErrIn (pseudo_label g p)) (passes_guard eng g tr)) (\<lambda>pass.
       if pass then give tr else first_passing eng g p trs)"

definition pseudostate_branch ::
  "('t, 'e, 's, 'v, 'c) machine_engine \<Rightarrow> ('e, 's) state_graph \<Rightarrow> psid \<Rightarrow> ('t, 'e, 's, 'v, 'c, ('e, 's) transition) mprog"
where
  "pseudostate_branch eng g p =
     (if sg_out g (PseudoV p) = [] then throw (ErrMachine (pseudo_label g p @ '' has no outgoing transitions''))
      else first_passing eng g p (sg_out g (PseudoV p)))"

text \<open>
  \<open>pseudostateTarget\<close>: the loop marks each pseudostate it passes and stops at one it has seen, so
  their number bounds it.
\<close>

primrec pseudostate_target_from ::
  "('t, 'e, 's, 'v, 'c) machine_engine \<Rightarrow> ('e, 's) state_graph \<Rightarrow> nat \<Rightarrow> psid list \<Rightarrow> psid
    \<Rightarrow> ('t, 'e, 's, 'v, 'c, sid) mprog" where
  "pseudostate_target_from eng g 0 = (\<lambda>visited p. throw ErrNesting)"
| "pseudostate_target_from eng g (Suc n) = (\<lambda>visited p.
     if p \<in> set visited
     then throw (ErrMachine (pseudo_label g p @ '': outgoing transitions form a cycle between pseudostates''))
     else then_do (pseudostate_branch eng g p) (\<lambda>branch.
       case tr_target branch of
         StateV s \<Rightarrow> give s
       | PseudoV q \<Rightarrow>
           (if \<not> transient_pseudostate (ps_kind (sg_pseudos g ! q))
            then throw (ErrMachine (pseudo_label g p @ '': a transition into '' @ pseudo_label g q @ '' is not supported''))
            else pseudostate_target_from eng g n (p # visited) q)
       | NoVertex \<Rightarrow> throw (ErrMachine (pseudo_label g p @ '': target must be a state or pseudostate''))))"

definition pseudostate_target ::
  "('t, 'e, 's, 'v, 'c) machine_engine \<Rightarrow> ('e, 's) state_graph \<Rightarrow> psid \<Rightarrow> ('t, 'e, 's, 'v, 'c, sid) mprog" where
  "pseudostate_target eng g p = pseudostate_target_from eng g (length (sg_pseudos g) + 2) [] p"

definition transition_target ::
  "('t, 'e, 's, 'v, 'c) machine_engine \<Rightarrow> ('e, 's) state_graph \<Rightarrow> ('e, 's) transition \<Rightarrow> ('t, 'e, 's, 'v, 'c, sid) mprog"
where
  "transition_target eng g tr =
     (case tr_target tr of
        StateV s \<Rightarrow> give s
      | PseudoV p \<Rightarrow> pseudostate_target eng g p
      | NoVertex \<Rightarrow> throw (ErrMachine ''transition target must be a state or pseudostate''))"

section \<open>Moving the active configuration\<close>

definition name_of :: "('e, 's) state_graph \<Rightarrow> sid option \<Rightarrow> string" where
  "name_of g s = (case s of Some s \<Rightarrow> state_name g s | None \<Rightarrow> [])"

text \<open>
  The boundary of an external transition: a transition out of a state that is or encloses its
  target leaves that state.
\<close>

definition boundary :: "('e, 's) state_graph \<Rightarrow> ('e, 's) transition \<Rightarrow> sid \<Rightarrow> sid option \<Rightarrow> sid option" where
  "boundary g tr target lca =
     (case tr_source tr of
        StateV source \<Rightarrow> (if encloses g source target then sg_parent g source else lca)
      | _ \<Rightarrow> lca)"

definition transition_to_into ::
  "('t::linorder, 'e, 's, 'v, 'c) machine_engine \<Rightarrow> ('e, 's) state_graph \<Rightarrow> ('e, 's) transition \<Rightarrow> sid
    \<Rightarrow> (rid \<times> sid) list \<Rightarrow> ('t, 'e, 's, 'v, 'c, unit) mprog" where
  "transition_to_into eng g tr target branches =
     with_state (\<lambda>m.
       let current = (case sm_simple m of Some s \<Rightarrow> Some s | None \<Rightarrow> active_composite_owner g m);
           lca = boundary g tr target (get_lca g current (Some target))
       in block
         [exit_states eng g (climb g current lca),
          run_effect eng tr,
          for_each (\<lambda>s. wrapped (ErrIn ''enter state'') (enter_state_into eng g branches s))
            (rev (climb g (Some target) lca)),
          update (\<lambda>m. if sg_composite g target = None then set_current_state (Some target) m else m),
          update (\<lambda>m. m\<lparr>sm_stack := root_to_leaf g target\<rparr>),
          wrapped (ErrIn ''schedule events'') (schedule_transition_events eng g),
          update (\<lambda>m. if is_final g target then m\<lparr>sm_state := StateCompleted\<rparr> else m),
          update (record_trace (TraceTransition (name_of g current) (state_name g target) (trigger_name (tr_trigger tr))))])"

definition transition_to ::
  "('t::linorder, 'e, 's, 'v, 'c) machine_engine \<Rightarrow> ('e, 's) state_graph \<Rightarrow> ('e, 's) transition \<Rightarrow> sid
    \<Rightarrow> ('t, 'e, 's, 'v, 'c, unit) mprog" where
  "transition_to eng g tr target = transition_to_into eng g tr target []"

text \<open>
  \<open>deepestRecorded\<close>: the state to enter and the branches collected on the way. History records
  name states below the one they belong to, so the number of states bounds the descent.
\<close>

primrec deepest_from ::
  "('e, 's) state_graph \<Rightarrow> ('t, 'e, 's, 'v, 'c) machine \<Rightarrow> nat \<Rightarrow> sid \<Rightarrow> (rid \<times> sid) list \<Rightarrow> sid \<times> (rid \<times> sid) list" where
  "deepest_from g m 0 = (\<lambda>s br. (s, br))"
| "deepest_from g m (Suc n) = (\<lambda>s br.
     (case sm_history m s of
        None \<Rightarrow> (s, br)
      | Some h \<Rightarrow>
          (if hr_regions h \<noteq> []
           then (s, fold (\<lambda>r br.
                  (case map_of (hr_regions h) r of
                     None \<Rightarrow> br
                   | Some a \<Rightarrow> (case deepest_from g m n a br of (t, br') \<Rightarrow> AList.update r t br')))
                  (regions_of g s) br)
           else (case hr_child h of
                   None \<Rightarrow> (s, br)
                 | Some c \<Rightarrow> deepest_from g m n c br))))"

definition deepest_recorded ::
  "('e, 's) state_graph \<Rightarrow> ('t, 'e, 's, 'v, 'c) machine \<Rightarrow> sid \<Rightarrow> (rid \<times> sid) list \<Rightarrow> sid \<times> (rid \<times> sid) list" where
  "deepest_recorded g m s br = deepest_from g m (Suc (length (sg_nodes g))) s br"

text \<open>The branches a history of a composite state with regions restores.\<close>

definition history_branches ::
  "('e, 's) state_graph \<Rightarrow> ('t, 'e, 's, 'v, 'c) machine \<Rightarrow> bool \<Rightarrow> sid \<Rightarrow> history_record \<Rightarrow> (rid \<times> sid) list" where
  "history_branches g m deep owner h =
     fold (\<lambda>r br.
       (case map_of (hr_regions h) r of
          None \<Rightarrow> br
        | Some a \<Rightarrow> (case (if deep then deepest_recorded g m a br else (a, br)) of (t, br') \<Rightarrow> AList.update r t br')))
       (regions_of g owner) []"

definition fire_history_transition ::
  "('t::linorder, 'e, 's, 'v, 'c) machine_engine \<Rightarrow> ('e, 's) state_graph \<Rightarrow> ('e, 's) transition \<Rightarrow> psid
    \<Rightarrow> ('t, 'e, 's, 'v, 'c, unit) mprog" where
  "fire_history_transition eng g tr hist =
     then_do (passes_guard eng g tr) (\<lambda>pass. if \<not> pass then give () else
       (case sg_pseudo_owner g hist of
          None \<Rightarrow> throw (ErrMachine (''history '' @ ps_name (sg_pseudos g ! hist) @ '' must be declared inside the composite state it restores''))
        | Some owner \<Rightarrow> with_state (\<lambda>m.
            case sm_history m owner of
              None \<Rightarrow>
                then_do (wrapped (ErrIn (''history '' @ ps_name (sg_pseudos g ! hist) @ '' has no default transition and ''
                    @ state_name g owner @ '' has no recorded configuration'')) (pseudostate_target eng g hist))
                  (\<lambda>target. transition_to eng g tr target)
            | Some h \<Rightarrow>
                (let deep = (ps_kind (sg_pseudos g ! hist) = PseudostateDeepHistory) in
                 if hr_regions h \<noteq> []
                 then transition_to_into eng g tr owner (history_branches g m deep owner h)
                 else (case hr_child h of
                         None \<Rightarrow> throw (ErrMachine (''history '' @ ps_name (sg_pseudos g ! hist) @ '': no substate of ''
                                   @ state_name g owner @ '' was recorded''))
                       | Some c \<Rightarrow>
                           (case (if deep then deepest_recorded g m c [] else (c, [])) of
                              (target, br) \<Rightarrow> transition_to_into eng g tr target br))))))"

section \<open>Fork and join\<close>

definition exit_toward ::
  "('t::linorder, 'e, 's, 'v, 'c) machine_engine \<Rightarrow> ('e, 's) state_graph \<Rightarrow> sid option \<Rightarrow> ('t, 'e, 's, 'v, 'c, unit) mprog"
where
  "exit_toward eng g stop = block
     [with_state (\<lambda>m. for_each (\<lambda>s. with_state (\<lambda>m. if \<not> is_active m s then give () else exit_state eng g s))
        (ordered_region_states g m)),
      update (\<lambda>m. m\<lparr>sm_regions := []\<rparr>),
      with_state (\<lambda>m. for_each (exit_state eng g) (climb g (sm_simple m) stop)),
      update (\<lambda>m. m\<lparr>sm_simple := None\<rparr>)]"

definition enter_hierarchy_into ::
  "('t, 'e, 's, 'v, 'c) machine_engine \<Rightarrow> ('e, 's) state_graph \<Rightarrow> sid \<Rightarrow> (rid \<times> sid) list
    \<Rightarrow> ('t, 'e, 's, 'v, 'c, unit) mprog" where
  "enter_hierarchy_into eng g s branches =
     for_each (\<lambda>a. with_state (\<lambda>m. if is_active m a then give () else
       wrapped (ErrIn (''enter state '' @ state_name g a))
         (if a = s then enter_state_into eng g branches a else enter_state eng g a))) (root_to_leaf g s)"

text \<open>The checks of \<open>fireForkTransition\<close> over the outgoing branches: one target per region.\<close>

fun fork_targets ::
  "('e, 's) state_graph \<Rightarrow> string \<Rightarrow> ('e, 's) transition list \<Rightarrow> (rid \<times> sid) list \<Rightarrow> sid option
    \<Rightarrow> (machine_error, (rid \<times> sid) list \<times> sid option) res" where
  "fork_targets g fork [] targets owner = Inr (targets, owner)"
| "fork_targets g fork (b # bs) targets owner =
     (if tr_guard b \<noteq> None then Inl (ErrMachine (''fork '' @ fork @ '': outgoing transitions cannot be guarded''))
      else (case tr_target b of
        StateV t \<Rightarrow>
          (case sg_region_of g t of
             None \<Rightarrow> Inl (ErrMachine (''fork '' @ fork @ '': branch target '' @ state_name g t @ '' is not in an orthogonal region''))
           | Some r \<Rightarrow>
               (case map_of targets r of
                  Some existing \<Rightarrow> Inl (ErrMachine (''fork '' @ fork @ '': branches '' @ state_name g existing @ '' and ''
                                     @ state_name g t @ '' are in the same region''))
                | None \<Rightarrow>
                    (case sg_region_owner g r of
                       None \<Rightarrow> fork_targets g fork bs (AList.update r t targets) owner
                     | Some ro \<Rightarrow>
                         (if owner \<noteq> None \<and> owner \<noteq> Some ro
                          then Inl (ErrMachine (''fork '' @ fork @ '': branches span more than one composite state''))
                          else fork_targets g fork bs (AList.update r t targets) (Some ro)))))
      | _ \<Rightarrow> Inl (ErrMachine (''fork '' @ fork @ '': branch target must be a state''))))"

definition fire_fork_transition ::
  "('t::linorder, 'e, 's, 'v, 'c) machine_engine \<Rightarrow> ('e, 's) state_graph \<Rightarrow> ('e, 's) transition \<Rightarrow> psid
    \<Rightarrow> ('t, 'e, 's, 'v, 'c, unit) mprog" where
  "fire_fork_transition eng g tr fork =
     (let name = ps_name (sg_pseudos g ! fork); branches = sg_out g (PseudoV fork) in
      then_do (passes_guard eng g tr) (\<lambda>pass. if \<not> pass then give () else
        if length branches < 2
        then throw (ErrMachine (''fork '' @ name @ '' needs at least two outgoing transitions''))
        else (case fork_targets g name branches [] None of
          Inl x \<Rightarrow> throw x
        | Inr (targets, owner) \<Rightarrow> block
            [exit_toward eng g owner,
             run_effect eng tr,
             (case owner of
                None \<Rightarrow> throw (ErrMachine (''fork '' @ name @ '': branch targets have no owning composite state''))
              | Some ow \<Rightarrow> enter_hierarchy_into eng g ow targets),
             wrapped (ErrIn ''schedule events'') (schedule_transition_events eng g),
             update (record_trace (TraceTransition (node_name g (tr_source tr)) name []))])))"

definition join_sources :: "('e, 's) state_graph \<Rightarrow> psid \<Rightarrow> (machine_error, sid list) res" where
  "join_sources g join =
     (let into = (\<lambda>v. filter (\<lambda>tr. tr_target tr = PseudoV join) (sg_out g v));
          sources = concat (map (\<lambda>s. map (\<lambda>_. s) (into (StateV s))) (states_of g));
          name = ps_name (sg_pseudos g ! join)
      in if list_ex (\<lambda>p. into (PseudoV p) \<noteq> []) [0..<length (sg_pseudos g)]
         then Inl (ErrMachine (''join '' @ name @ '': incoming source must be a state''))
         else if length sources < 2
         then Inl (ErrMachine (''join '' @ name @ '' needs at least two incoming transitions''))
         else Inr sources)"

definition join_owner :: "('e, 's) state_graph \<Rightarrow> sid list \<Rightarrow> sid option" where
  "join_owner g sources =
     fold (\<lambda>s owner. case sg_region_of g s of Some r \<Rightarrow> sg_region_owner g r | None \<Rightarrow> owner) sources None"

definition fire_join_transition ::
  "('t::linorder, 'e, 's, 'v, 'c) machine_engine \<Rightarrow> ('e, 's) state_graph \<Rightarrow> ('e, 's) transition \<Rightarrow> psid
    \<Rightarrow> ('t, 'e, 's, 'v, 'c, unit) mprog" where
  "fire_join_transition eng g tr join =
     then_do (passes_guard eng g tr) (\<lambda>pass. if \<not> pass then give () else
       (case join_sources g join of
          Inl x \<Rightarrow> throw x
        | Inr sources \<Rightarrow> with_state (\<lambda>m.
            if \<not> list_all (is_active m) sources then give ()
            else then_do (wrapped (ErrIn ''evaluate pseudostate'') (pseudostate_target eng g join)) (\<lambda>target. block
              [for_each (exit_state eng g) sources,
               update (set_current_state (join_owner g sources)),
               transition_to eng g tr target]))))"

section \<open>Firing a transition\<close>

definition fire_transition ::
  "('t::linorder, 'e, 's, 'v, 'c) machine_engine \<Rightarrow> ('e, 's) state_graph \<Rightarrow> ('e, 's) transition
    \<Rightarrow> ('t, 'e, 's, 'v, 'c, unit) mprog" where
  "fire_transition eng g tr =
     (let simple = (\<lambda>target. then_do (passes_guard eng g tr) (\<lambda>pass.
            if \<not> pass then give () else transition_to eng g tr target))
      in case tr_target tr of
        StateV target \<Rightarrow> simple target
      | PseudoV p \<Rightarrow>
          (case ps_kind (sg_pseudos g ! p) of
             PseudostateFork \<Rightarrow> fire_fork_transition eng g tr p
           | PseudostateJoin \<Rightarrow> fire_join_transition eng g tr p
           | PseudostateShallowHistory \<Rightarrow> fire_history_transition eng g tr p
           | PseudostateDeepHistory \<Rightarrow> fire_history_transition eng g tr p
           | _ \<Rightarrow> then_do (wrapped (ErrIn ''evaluate pseudostate'') (pseudostate_target eng g p)) simple)
      | NoVertex \<Rightarrow> throw (ErrMachine ''transition target must be StateNode or PseudostateNode''))"

definition exit_region_to ::
  "('t::linorder, 'e, 's, 'v, 'c) machine_engine \<Rightarrow> ('e, 's) state_graph \<Rightarrow> rid \<Rightarrow> sid option
    \<Rightarrow> ('t, 'e, 's, 'v, 'c, unit) mprog" where
  "exit_region_to eng g r stop =
     with_state (\<lambda>m. case active_in m r of
       None \<Rightarrow> give ()
     | Some active \<Rightarrow> block
         [update (clear_region r),
          update (\<lambda>m. if stop = None then forget_region_history g r m else m),
          for_each (exit_state eng g) (takeWhile (region_contains g r) (climb g (Some active) stop))])"

definition record_transition_trace ::
  "('e, 's) state_graph \<Rightarrow> ('e, 's) transition \<Rightarrow> sid option \<Rightarrow> sid \<Rightarrow> ('t, 'e, 's, 'v, 'c) machine
    \<Rightarrow> ('t, 'e, 's, 'v, 'c) machine" where
  "record_transition_trace g tr source target =
     record_trace (TraceTransition (name_of g source) (state_name g target) (trigger_name (tr_trigger tr)))"

definition move_between_regions ::
  "('t::linorder, 'e, 's, 'v, 'c) machine_engine \<Rightarrow> ('e, 's) state_graph \<Rightarrow> rid \<Rightarrow> rid \<Rightarrow> sid option
    \<Rightarrow> ('e, 's) transition \<Rightarrow> sid \<Rightarrow> ('t, 'e, 's, 'v, 'c, unit) mprog" where
  "move_between_regions eng g source_region target_region source tr target =
     with_state (\<lambda>m.
       let keep0 = boundary g tr target (get_lca g (active_in m target_region) (Some target));
           keep = (case keep0 of
                     Some k \<Rightarrow> (if region_contains g target_region k then Some k else sg_region_owner g target_region)
                   | None \<Rightarrow> sg_region_owner g target_region);
           (enter, branches) = entry_plan g keep target;
           leaf = (case map_of (branches_to g None target) target_region of Some b \<Rightarrow> b | None \<Rightarrow> target)
       in block
         [(if source_region = target_region then exit_region_to eng g source_region keep
           else block [exit_region_to eng g source_region None, exit_region_to eng g target_region keep]),
          run_effect eng tr,
          update (set_region target_region leaf),
          for_each (\<lambda>s. wrapped (ErrIn ''enter state'') (enter_state_into eng g branches s))
            (descendant_chain g keep enter),
          schedule_from_entered eng g leaf,
          update (record_transition_trace g tr source target)])"

definition enter_outside ::
  "('t::linorder, 'e, 's, 'v, 'c) machine_engine \<Rightarrow> ('e, 's) state_graph \<Rightarrow> ('e, 's) transition \<Rightarrow> sid option
    \<Rightarrow> sid option \<Rightarrow> sid \<Rightarrow> ('t, 'e, 's, 'v, 'c, unit) mprog" where
  "enter_outside eng g tr source lca target =
     (let (enter, branches) = entry_plan g lca target;
          on_path = branches_to g None target
      in block
        [for_each (\<lambda>s. wrapped (ErrIn ''enter state'') (enter_state_into eng g branches s)) (descendant_chain g lca enter),
         for_each (\<lambda>(r, leaf). update (set_region r leaf)) on_path,
         update (\<lambda>m. if on_path = [] \<and> sm_regions m = [] then m\<lparr>sm_simple := Some target\<rparr> else m),
         update (\<lambda>m. m\<lparr>sm_stack := root_to_leaf g target\<rparr>),
         schedule_from_entered eng g enter,
         update (\<lambda>m. if is_final g target then m\<lparr>sm_state := StateCompleted\<rparr> else m),
         update (record_transition_trace g tr source target)])"

definition leave_top_regions ::
  "('t::linorder, 'e, 's, 'v, 'c) machine_engine \<Rightarrow> ('e, 's) state_graph \<Rightarrow> ('e, 's) transition \<Rightarrow> sid option
    \<Rightarrow> sid \<Rightarrow> ('t, 'e, 's, 'v, 'c, unit) mprog" where
  "leave_top_regions eng g tr source target = block
     [for_each (\<lambda>r. with_state (\<lambda>m. case active_in m r of
         None \<Rightarrow> give ()
       | Some a \<Rightarrow> block [update (clear_region r), exit_states eng g (parent_chain g a)])) (sg_top g),
      update (set_current_state None),
      run_effect eng tr,
      enter_outside eng g tr source None target]"

text \<open>The region a state is active in, cleared before the state is exited from outside it.\<close>

definition clear_declaring ::
  "('e, 's) state_graph \<Rightarrow> sid \<Rightarrow> ('t, 'e, 's, 'v, 'c) machine \<Rightarrow> ('t, 'e, 's, 'v, 'c) machine" where
  "clear_declaring g s m =
     (case enclosing_region g s of
        None \<Rightarrow> m
      | Some r \<Rightarrow>
          (case active_in m r of
             Some a \<Rightarrow> (if is_below_or_equal g a s then clear_region r (record_region_history g r a m) else m)
           | None \<Rightarrow> m))"

definition leave_region ::
  "('t::linorder, 'e, 's, 'v, 'c) machine_engine \<Rightarrow> ('e, 's) state_graph \<Rightarrow> rid \<Rightarrow> ('e, 's) transition
    \<Rightarrow> sid \<Rightarrow> ('t, 'e, 's, 'v, 'c, unit) mprog" where
  "leave_region eng g r tr target =
     with_state (\<lambda>m.
       let source = active_in m r in
       (case sg_region_owner g r of
          None \<Rightarrow> leave_top_regions eng g tr source target
        | Some owner \<Rightarrow>
            (let lca = get_lca g (Some owner) (Some target) in
             block
               [for_each (\<lambda>s. block [update (clear_declaring g s), exit_state eng g s]) (climb g (Some owner) lca),
                run_effect eng tr,
                enter_outside eng g tr source lca target])))"

definition fire_transition_in_region ::
  "('t::linorder, 'e, 's, 'v, 'c) machine_engine \<Rightarrow> ('e, 's) state_graph \<Rightarrow> rid \<Rightarrow> ('e, 's) transition
    \<Rightarrow> ('t, 'e, 's, 'v, 'c, unit) mprog" where
  "fire_transition_in_region eng g r tr =
     (if is_synchronization_target g (tr_target tr) then fire_transition eng g tr
      else then_do (passes_guard eng g tr) (\<lambda>pass. if \<not> pass then give () else
        then_do (transition_target eng g tr) (\<lambda>target. with_state (\<lambda>m.
          let source = active_in m r in
          if region_contains g r target then move_between_regions eng g r r source tr target
          else (case concurrent_regions_for g r target of
                  Some (exit, sibling) \<Rightarrow>
                    move_between_regions eng g exit (innermost_active_region g m sibling target) source tr target
                | None \<Rightarrow> leave_region eng g r tr target)))))"

definition fire_from ::
  "('t::linorder, 'e, 's, 'v, 'c) machine_engine \<Rightarrow> ('e, 's) state_graph \<Rightarrow> sid \<Rightarrow> ('e, 's) transition
    \<Rightarrow> ('t, 'e, 's, 'v, 'c, unit) mprog" where
  "fire_from eng g source tr =
     with_state (\<lambda>m. case active_region_of g m source of
       Some r \<Rightarrow> fire_transition_in_region eng g r tr
     | None \<Rightarrow> fire_transition eng g tr)"

section \<open>Events and triggers\<close>

text \<open>\<open>triggerMatches\<close>; a change trigger of the graph always has a condition.\<close>

definition trigger_matches :: "'e event_trigger \<Rightarrow> ('t, 'e, 's, 'v) event \<Rightarrow> bool" where
  "trigger_matches trigger ev =
     (case ev_type ev of
        EventAccept \<Rightarrow>
          (case (trigger, ev_payload ev) of
             (AcceptTrigger _ signal subsets, MessagePayload msg) \<Rightarrow>
               (let expected = (if signal \<noteq> [] then signal else subsets)
                in expected \<noteq> [] \<and> carries_signal msg expected)
           | _ \<Rightarrow> False)
      | EventCall \<Rightarrow>
          (case (trigger, ev_payload ev) of
             (CallTrigger op params, CallPayload call) \<Rightarrow>
               (op = [] \<or> op = cl_operation call) \<and> list_all (\<lambda>p. cl_args call p \<noteq> None) params
           | _ \<Rightarrow> False)
      | EventChange \<Rightarrow> (case trigger of ChangeTrigger _ \<Rightarrow> True | _ \<Rightarrow> False)
      | EventTime \<Rightarrow> False)"

definition matches_event ::
  "('e, 's) state_graph \<Rightarrow> ('t, 'e, 's, 'v, 'c) machine \<Rightarrow> ('e, 's) transition \<Rightarrow> ('t, 'e, 's, 'v) event \<Rightarrow> bool" where
  "matches_event g m tr ev =
     (case tr_trigger tr of
        None \<Rightarrow> False
      | Some trigger \<Rightarrow>
          (if ev_type ev = EventTime
           then (case ev_payload ev of LowerTransition t \<Rightarrow> tr_id tr = tr_id t | _ \<Rightarrow> False)
           else trigger_matches trigger ev \<and>
             (tr_via tr = [] \<or>
               (case ev_payload ev of
                  MessagePayload msg \<Rightarrow> reaches msg (sg_machine g) (tr_via tr) (sm_self m)
                | _ \<Rightarrow> False))))"

text \<open>
  The names \<open>bindTriggerArguments\<close> and \<open>bindAcceptPayload\<close> bind, the values they take from the
  event, and the restoring of the machine's data. A binding that fails has its partial effect
  undone by its caller at once, so it is modelled as having none.
\<close>

definition bound_names :: "('e, 's) transition \<Rightarrow> string list" where
  "bound_names tr =
     (case tr_trigger tr of
        Some (AcceptTrigger payload _ _) \<Rightarrow> (if payload = [] then [] else [payload])
      | Some (CallTrigger _ params) \<Rightarrow> params
      | _ \<Rightarrow> [])"

definition call_arguments :: "string \<Rightarrow> string list \<Rightarrow> 'v call \<Rightarrow> (machine_error, (string \<times> 'v) list) res" where
  "call_arguments op params call =
     (if list_all (\<lambda>p. cl_args call p \<noteq> None) params
      then Inr (map (\<lambda>p. (p, the (cl_args call p))) params)
      else Inl (ErrMachine (''call trigger '' @ cl_operation call @ '': invocation carries no argument'')))"

definition trigger_arguments ::
  "('e, 's) transition \<Rightarrow> ('t, 'e, 's, 'v) event \<Rightarrow> (machine_error, (string \<times> 'v) list) res" where
  "trigger_arguments tr ev =
     (case tr_trigger tr of
        Some (AcceptTrigger payload _ _) \<Rightarrow>
          (if payload = [] then Inr []
           else (case ev_payload ev of
                   MessagePayload msg \<Rightarrow>
                     (case m_payload msg ''value'' of
                        Some v \<Rightarrow> Inr [(payload, v)]
                      | None \<Rightarrow> Inl (ErrMachine (''accept '' @ payload @ '': carries no single value to bind'')))
                 | _ \<Rightarrow> Inl (ErrMachine (''accept '' @ payload @ '': event carries no message''))))
      | Some (CallTrigger op params) \<Rightarrow>
          (if params = [] then Inr []
           else (case ev_payload ev of
                   CallPayload call \<Rightarrow> call_arguments op params call
                 | _ \<Rightarrow> Inl (ErrMachine (''call trigger '' @ op @ '': event carries no operation invocation''))))
      | _ \<Rightarrow> Inr [])"

definition bind_arguments ::
  "('e, 's) transition \<Rightarrow> ('t, 'e, 's, 'v) event \<Rightarrow> ('t, 'e, 's, 'v, 'c, unit) mprog" where
  "bind_arguments tr ev =
     (case trigger_arguments tr ev of
        Inl x \<Rightarrow> throw x
      | Inr kvs \<Rightarrow> update (\<lambda>m. m\<lparr>sm_data := fold (\<lambda>(k, v) d. d(k \<mapsto> v)) kvs (sm_data m)\<rparr>))"

definition restore_data ::
  "string list \<Rightarrow> 'v feats \<Rightarrow> ('t, 'e, 's, 'v, 'c) machine \<Rightarrow> ('t, 'e, 's, 'v, 'c) machine" where
  "restore_data names saved m = m\<lparr>sm_data := fold (\<lambda>n d. d(n := saved n)) names (sm_data m)\<rparr>"

section \<open>Selecting the transitions an event takes\<close>

primrec first_enabled ::
  "('t, 'e, 's, 'v, 'c) machine_engine \<Rightarrow> ('e, 's) state_graph \<Rightarrow> ('t, 'e, 's, 'v) event \<Rightarrow> ('e, 's) transition list
    \<Rightarrow> ('t, 'e, 's, 'v, 'c, ('e, 's) transition option) mprog" where
  "first_enabled eng g ev [] = give None"
| "first_enabled eng g ev (tr # trs) =
     with_state (\<lambda>m. if \<not> matches_event g m tr ev then first_enabled eng g ev trs
       else then_do (bind_arguments tr ev) (\<lambda>_.
         then_do (finally_do (passes_guard eng g tr) (restore_data (bound_names tr) (sm_data m))) (\<lambda>pass.
           if pass then give (Some tr) else first_enabled eng g ev trs)))"

definition enabled_transition ::
  "('t, 'e, 's, 'v, 'c) machine_engine \<Rightarrow> ('e, 's) state_graph \<Rightarrow> ('t, 'e, 's, 'v) event \<Rightarrow> sid
    \<Rightarrow> ('t, 'e, 's, 'v, 'c, ('e, 's) transition option) mprog" where
  "enabled_transition eng g ev s = first_enabled eng g ev (sg_out g (StateV s))"

record ('e, 's) dispatch_candidate =
  dc_leaf :: sid
  dc_source :: sid
  dc_trans :: "('e, 's) transition"

text \<open>
  \<open>selectCandidates\<close>: the walk outwards from one leaf, which ends at the first state that offers a
  transition, and the loop over the leaves, which adds a transition once.
\<close>

primrec offer_from ::
  "('e, 's) state_graph \<Rightarrow> (sid \<Rightarrow> ('t, 'e, 's, 'v, 'c, ('e, 's) transition option) mprog) \<Rightarrow> sid list
    \<Rightarrow> ('t, 'e, 's, 'v, 'c, (sid \<times> ('e, 's) transition) option) mprog" where
  "offer_from g enabled [] = give None"
| "offer_from g enabled (source # outer) =
     then_do (wrapped (ErrIn (''state '' @ state_name g source)) (enabled source)) (\<lambda>offer.
       case offer of Some tr \<Rightarrow> give (Some (source, tr)) | None \<Rightarrow> offer_from g enabled outer)"

definition add_candidate ::
  "sid \<Rightarrow> (sid \<times> ('e, 's) transition) option \<Rightarrow> ('e, 's) dispatch_candidate list \<Rightarrow> ('e, 's) dispatch_candidate list" where
  "add_candidate leaf offer cs =
     (case offer of
        None \<Rightarrow> cs
      | Some (source, tr) \<Rightarrow>
          (if tr_id tr \<in> (\<lambda>c. tr_id (dc_trans c)) ` set cs then cs
           else cs @ [\<lparr>dc_leaf = leaf, dc_source = source, dc_trans = tr\<rparr>]))"

definition select_candidates ::
  "('e, 's) state_graph \<Rightarrow> (sid \<Rightarrow> ('t, 'e, 's, 'v, 'c, ('e, 's) transition option) mprog)
    \<Rightarrow> ('t, 'e, 's, 'v, 'c, ('e, 's) dispatch_candidate list) mprog" where
  "select_candidates g enabled =
     with_state (\<lambda>m. fold_each (\<lambda>leaf cs.
       then_do (offer_from g enabled (parent_chain g leaf)) (\<lambda>offer. give (add_candidate leaf offer cs)))
       (active_leaves g m) [])"

definition select_transitions ::
  "('t, 'e, 's, 'v, 'c) machine_engine \<Rightarrow> ('e, 's) state_graph \<Rightarrow> ('t, 'e, 's, 'v) event
    \<Rightarrow> ('t, 'e, 's, 'v, 'c, ('e, 's) dispatch_candidate list) mprog" where
  "select_transitions eng g ev = select_candidates g (enabled_transition eng g ev)"

definition loses_to_nested ::
  "('e, 's) state_graph \<Rightarrow> ('e, 's) dispatch_candidate list \<Rightarrow> ('e, 's) dispatch_candidate \<Rightarrow> bool" where
  "loses_to_nested g cs c \<longleftrightarrow>
     list_ex (\<lambda>d. dc_source d \<noteq> dc_source c \<and> nested_in g (dc_source d) (dc_source c)) cs"

text \<open>The loop of \<open>broadcastEvent\<close> over the candidates; it stops when the machine completes.\<close>

primrec fire_candidates ::
  "('t::linorder, 'e, 's, 'v, 'c) machine_engine \<Rightarrow> ('e, 's) state_graph \<Rightarrow> ('t, 'e, 's, 'v) event
    \<Rightarrow> ('e, 's) dispatch_candidate list \<Rightarrow> ('e, 's) dispatch_candidate list \<Rightarrow> bool \<Rightarrow> ('t, 'e, 's, 'v, 'c, bool) mprog"
where
  "fire_candidates eng g ev all [] consumed = give consumed"
| "fire_candidates eng g ev all (c # cs) consumed =
     with_state (\<lambda>m. if loses_to_nested g all c \<or> \<not> is_active m (dc_leaf c)
       then fire_candidates eng g ev all cs consumed
       else then_do (wrapped (ErrIn (''state '' @ state_name g (dc_source c))) (bind_arguments (dc_trans c) ev)) (\<lambda>_.
         then_do (wrapped (ErrIn (''fire transition out of '' @ state_name g (dc_source c)))
             (fire_from eng g (dc_source c) (dc_trans c))) (\<lambda>_.
           with_state (\<lambda>m. if sm_state m = StateCompleted then give True
             else fire_candidates eng g ev all cs True))))"

definition broadcast_event ::
  "('t::linorder, 'e, 's, 'v, 'c) machine_engine \<Rightarrow> ('e, 's) state_graph \<Rightarrow> ('t, 'e, 's, 'v) event
    \<Rightarrow> ('t, 'e, 's, 'v, 'c, bool) mprog" where
  "broadcast_event eng g ev =
     then_do (select_transitions eng g ev) (\<lambda>cs. fire_candidates eng g ev cs cs False)"

section \<open>Deferral\<close>

definition defers_event ::
  "('e, 's) state_graph \<Rightarrow> ('t, 'e, 's, 'v, 'c) machine \<Rightarrow> ('t, 'e, 's, 'v) event \<Rightarrow> bool" where
  "defers_event g m ev \<longleftrightarrow>
     list_ex (\<lambda>s. list_ex (\<lambda>a. list_ex (\<lambda>t. trigger_matches t ev) (sg_deferred g a)) (parent_chain g s))
       (active_states g m)"

definition recall_deferred_events ::
  "('e, 's) state_graph \<Rightarrow> ('t::linorder, 'e, 's, 'v, 'c) machine \<Rightarrow> ('t, 'e, 's, 'v, 'c) machine" where
  "recall_deferred_events g m =
     (let recalled = filter (\<lambda>ev. \<not> defers_event g m ev) (sm_deferred m)
      in m\<lparr>sm_queue := fold (\<lambda>ev q. push_event (ev\<lparr>ev_time := sm_time m\<rparr>) q) recalled (sm_queue m),
           sm_deferred := filter (defers_event g m) (sm_deferred m)\<rparr>)"

section \<open>Dispatch\<close>

text \<open>The transition an \<open>ast.TransitionEdge\<close> payload stands for: the last states so named.\<close>

definition state_named :: "('e, 's) state_graph \<Rightarrow> string option \<Rightarrow> sid option" where
  "state_named g name =
     (case name of None \<Rightarrow> None | Some n \<Rightarrow> find (\<lambda>s. state_name g s = n) (rev (states_of g)))"

definition edge_transition :: "('e, 's) transition_edge \<Rightarrow> sid \<Rightarrow> sid \<Rightarrow> ('e, 's) transition" where
  "edge_transition te source target =
     \<lparr>tr_id = 0, tr_name = [], tr_source = StateV source, tr_target = StateV target, tr_trigger = te_trigger te,
      tr_guard = te_guard te, tr_effect = te_effect te, tr_via = []\<rparr>"

definition disarm :: "('e, 's) transition \<Rightarrow> ('t, 'e, 's, 'v, 'c) machine \<Rightarrow> ('t, 'e, 's, 'v, 'c) machine" where
  "disarm tr m = m\<lparr>sm_timers := sm_timers m - {tr_id tr}\<rparr>"

text \<open>
  A transition whose time has come: stale when its source has been left, otherwise taken from
  there; a transition of the syntax tree is looked up by names first.
\<close>

definition fire_timed ::
  "('t::linorder, 'e, 's, 'v, 'c) machine_engine \<Rightarrow> ('e, 's) state_graph \<Rightarrow> ('e, 's) transition
    \<Rightarrow> ('t, 'e, 's, 'v, 'c, unit) mprog" where
  "fire_timed eng g tr =
     (case tr_source tr of
        StateV source \<Rightarrow> with_state (\<lambda>m.
          if \<not> in_active_configuration g m source then give () else fire_from eng g source tr)
      | _ \<Rightarrow> fire_transition eng g tr)"

definition fire_edge ::
  "('t::linorder, 'e, 's, 'v, 'c) machine_engine \<Rightarrow> ('e, 's) state_graph \<Rightarrow> ('e, 's) transition_edge
    \<Rightarrow> ('t, 'e, 's, 'v, 'c, unit) mprog" where
  "fire_edge eng g te =
     (case (state_named g (te_source te), state_named g (te_target te)) of
        (Some source, Some target) \<Rightarrow> fire_transition eng g (edge_transition te source target)
      | _ \<Rightarrow> throw (ErrMachine ''could not find source/target states for transition''))"

definition dispatch_event ::
  "('t::linorder, 'e, 's, 'v, 'c) machine_engine \<Rightarrow> ('e, 's) state_graph \<Rightarrow> ('t, 'e, 's, 'v) event
    \<Rightarrow> ('t, 'e, 's, 'v, 'c, unit) mprog" where
  "dispatch_event eng g ev =
     (if ev_type ev = EventTime
      then (case ev_payload ev of
          LowerTransition tr \<Rightarrow> block [update (disarm tr), fire_timed eng g tr]
        | TransitionEdge te \<Rightarrow> fire_edge eng g te
        | _ \<Rightarrow> throw (ErrMachine ''invalid TimeEvent payload''))
      else then_do (broadcast_event eng g ev) (\<lambda>consumed. update (\<lambda>m.
        if \<not> consumed \<and> defers_event g m ev then m\<lparr>sm_deferred := sm_deferred m @ [ev]\<rparr> else m)))"

text \<open>The event popped, with the time it moves the machine to.\<close>

definition take_next ::
  "('t::{linorder, zero}, 'e, 's, 'v, 'c) machine \<Rightarrow> ('t, 'e, 's, 'v, 'c) machine" where
  "take_next m = (case pop_event (sm_queue m) of (ev, q) \<Rightarrow> m\<lparr>sm_queue := q, sm_time := ev_time ev\<rparr>)"

definition process_next_event ::
  "('t::{linorder, zero}, 'e, 's, 'v, 'c) machine_engine \<Rightarrow> ('e, 's) state_graph \<Rightarrow> ('t, 'e, 's, 'v, 'c, unit) mprog"
where
  "process_next_event eng g =
     with_state (\<lambda>m. if queue_len (sm_queue m) = 0 then throw (ErrMachine ''no events to process'')
       else block [update take_next,
                   dispatch_event eng g (peek_event (sm_queue m)),
                   update (recall_deferred_events g)])"

section \<open>Do rounds\<close>

text \<open>One action of one do behavior of the round, when it is still running; the count goes up.\<close>

definition do_pending :: "nat \<Rightarrow> ('t, 'e, 's, 'v, 'c) machine \<Rightarrow> 's state_behavior list" where
  "do_pending i m = (case find (\<lambda>a. da_id a = i) (sm_do m) of Some a \<Rightarrow> da_pending a | None \<Rightarrow> [])"

definition advance_do :: "nat \<Rightarrow> ('t, 'e, 's, 'v, 'c) machine \<Rightarrow> ('t, 'e, 's, 'v, 'c) machine" where
  "advance_do i m =
     m\<lparr>sm_do := map (\<lambda>a. if da_id a = i then a\<lparr>da_pending := tl (da_pending a)\<rparr> else a) (sm_do m)\<rparr>"

definition do_step ::
  "('t, 'e, 's, 'v, 'c) machine_engine \<Rightarrow> ('e, 's) state_graph \<Rightarrow> nat \<times> sid \<Rightarrow> int \<Rightarrow> ('t, 'e, 's, 'v, 'c, int) mprog" where
  "do_step eng g act k = (case act of (i, s) \<Rightarrow>
     with_state (\<lambda>m. case do_pending i m of
       [] \<Rightarrow> give k
     | b # _ \<Rightarrow>
         then_do (block [update (advance_do i), update (record_trace (TraceDo (state_name g s))),
                         wrapped (ErrIn (''do action in state '' @ state_name g s)) (execute_behavior eng b)])
           (\<lambda>_. give (k + 1))))"

definition drop_finished :: "('t, 'e, 's, 'v, 'c) machine \<Rightarrow> ('t, 'e, 's, 'v, 'c) machine" where
  "drop_finished m = m\<lparr>sm_do := filter (\<lambda>a. da_pending a \<noteq> []) (sm_do m)\<rparr>"

definition run_do_round ::
  "('t::linorder, 'e, 's, 'v, 'c) machine_engine \<Rightarrow> ('e, 's) state_graph \<Rightarrow> ('t, 'e, 's, 'v, 'c, int) mprog" where
  "run_do_round eng g =
     with_state (\<lambda>m. if sm_do m = [] then give 0 else
       then_do (fold_each (do_step eng g) (map (\<lambda>a. (da_id a, da_state a)) (sm_do m)) 0) (\<lambda>ran.
         with_state (\<lambda>m.
           let finished = map da_state (filter (\<lambda>a. da_pending a = []) (sm_do m)) in
           then_do (block
             [update drop_finished,
              for_each (\<lambda>s. wrapped (ErrIn (''schedule completion of state '' @ state_name g s))
                (schedule_completion_transitions eng g s)) finished]) (\<lambda>_. give ran))))"

section \<open>Change triggers\<close>

text \<open>
  One poll (\<open>changePoll\<close>): the transitions whose condition was evaluated, with its value, those
  whose guard held, those blocked, and the waits.
\<close>

record change_poll =
  cp_condition :: "(tid \<times> bool) list"
  cp_guard :: "tid set"
  cp_blocked :: "tid set"
  cp_waits :: "change_wait list"
  cp_waited :: "tid set"

definition new_poll :: change_poll where
  "new_poll = \<lparr>cp_condition = [], cp_guard = {}, cp_blocked = {}, cp_waits = [], cp_waited = {}\<rparr>"

definition join_words :: "string list \<Rightarrow> string" where
  "join_words ws = join_with '' '' (filter (\<lambda>w. w \<noteq> []) ws)"

definition trigger_description ::
  "('t, 'e, 's, 'v, 'c) machine_engine \<Rightarrow> 'e event_trigger option \<Rightarrow> string" where
  "trigger_description eng t = (case t of
     Some (TimeTrigger d absolute) \<Rightarrow> join_words [''accept'', (if absolute then ''at'' else ''after''), me_name eng d]
   | Some (ChangeTrigger c) \<Rightarrow> join_words [''accept'', ''when'', me_name eng c]
   | _ \<Rightarrow> trigger_name t)"

definition add_wait ::
  "('t, 'e, 's, 'v, 'c) machine_engine \<Rightarrow> ('e, 's) transition \<Rightarrow> string \<Rightarrow> string \<Rightarrow> change_poll \<Rightarrow> change_poll" where
  "add_wait eng tr s reason p =
     (if tr_id tr \<in> cp_waited p then p
      else p\<lparr>cp_waited := insert (tr_id tr) (cp_waited p),
             cp_waits := cp_waits p @ [\<lparr>cw_state = s, cw_trigger = trigger_description eng (tr_trigger tr), cw_reason = reason\<rparr>]\<rparr>)"

definition change_condition_holds ::
  "('t, 'e, 's, 'v, 'c) machine_engine \<Rightarrow> 'e \<Rightarrow> ('t, 'e, 's, 'v, 'c, bool) mprog" where
  "change_condition_holds eng cond =
     then_do (wrapped (ErrIn ''eval change condition'') (eval_step eng cond)) (\<lambda>v.
       case me_bool eng v of None \<Rightarrow> throw (ErrMachine ''change condition must be boolean'') | Some b \<Rightarrow> give b)"

definition observe_transition ::
  "('t, 'e, 's, 'v, 'c) machine_engine \<Rightarrow> ('e, 's) state_graph \<Rightarrow> sid \<Rightarrow> ('e, 's) transition \<Rightarrow> change_poll
    \<Rightarrow> ('t, 'e, 's, 'v, 'c, change_poll) mprog" where
  "observe_transition eng g source tr p =
     (case tr_trigger tr of
        Some (ChangeTrigger cond) \<Rightarrow>
          (if map_of (cp_condition p) (tr_id tr) \<noteq> None then give p
           else then_do (wrapped (ErrIn (''state '' @ state_name g source)) (change_condition_holds eng cond)) (\<lambda>holds.
             let p1 = p\<lparr>cp_condition := (tr_id tr, holds) # cp_condition p\<rparr> in
             if \<not> holds
             then then_do (update (\<lambda>m. m\<lparr>sm_fired := sm_fired m - {tr_id tr}\<rparr>))
                    (\<lambda>_. give (add_wait eng tr (state_name g source) ''condition is false'' p1))
             else with_state (\<lambda>m.
               if tr_id tr \<in> sm_fired m
               then give (add_wait eng tr (state_name g source) ''condition has not changed since it fired'' p1)
               else then_do (wrapped (ErrIn (''state '' @ state_name g source)) (wrapped (ErrIn ''eval change guard'') (passes_guard eng g tr)))
                 (\<lambda>satisfied.
                   if satisfied then give (p1\<lparr>cp_guard := insert (tr_id tr) (cp_guard p1)\<rparr>)
                   else give (add_wait eng tr (state_name g source) ''guard is false''
                     (p1\<lparr>cp_blocked := insert (tr_id tr) (cp_blocked p1)\<rparr>))))))
      | _ \<Rightarrow> give p)"

definition observe_change_conditions ::
  "('t, 'e, 's, 'v, 'c) machine_engine \<Rightarrow> ('e, 's) state_graph \<Rightarrow> ('t, 'e, 's, 'v, 'c, change_poll) mprog" where
  "observe_change_conditions eng g =
     with_state (\<lambda>m. fold_each (\<lambda>leaf. fold_each (\<lambda>source. fold_each (observe_transition eng g source)
         (sg_out g (StateV source))) (parent_chain g leaf)) (active_leaves g m) new_poll)"

definition risen :: "change_poll \<Rightarrow> ('t, 'e, 's, 'v, 'c) machine \<Rightarrow> ('e, 's) transition \<Rightarrow> bool" where
  "risen p m tr \<longleftrightarrow> is_change_trigger tr \<and> map_of (cp_condition p) (tr_id tr) = Some True
     \<and> tr_id tr \<notin> sm_fired m \<and> tr_id tr \<in> cp_guard p"

definition risen_change_transition ::
  "('e, 's) state_graph \<Rightarrow> change_poll \<Rightarrow> sid \<Rightarrow> ('t, 'e, 's, 'v, 'c, ('e, 's) transition option) mprog" where
  "risen_change_transition g p s = with_state (\<lambda>m. give (find (risen p m) (sg_out g (StateV s))))"

text \<open>
  The loop of \<open>pollChangeEvents\<close> over the candidates, which returns the poll and whether a
  transition fired; the latch is set before the transition is taken.
\<close>

primrec fire_risen ::
  "('t::linorder, 'e, 's, 'v, 'c) machine_engine \<Rightarrow> ('e, 's) state_graph \<Rightarrow> ('e, 's) dispatch_candidate list
    \<Rightarrow> ('e, 's) dispatch_candidate list \<Rightarrow> change_poll \<Rightarrow> bool \<Rightarrow> ('t, 'e, 's, 'v, 'c, change_poll \<times> bool) mprog" where
  "fire_risen eng g all [] p fired = give (p, fired)"
| "fire_risen eng g all (c # cs) p fired =
     with_state (\<lambda>m. if loses_to_nested g all c \<or> \<not> is_active m (dc_leaf c)
       then fire_risen eng g all cs p fired
       else then_do (wrapped (ErrIn ''eval change guard'') (passes_guard eng g (dc_trans c))) (\<lambda>pass.
         if \<not> pass
         then fire_risen eng g all cs (add_wait eng (dc_trans c) (state_name g (dc_source c)) ''guard is false''
                (p\<lparr>cp_blocked := insert (tr_id (dc_trans c)) (cp_blocked p)\<rparr>)) fired
         else then_do (block
             [update (\<lambda>m. m\<lparr>sm_fired := insert (tr_id (dc_trans c)) (sm_fired m), sm_firing := Some (tr_id (dc_trans c))\<rparr>),
              wrapped (ErrIn (''fire transition out of '' @ state_name g (dc_source c)))
                (finally_do (fire_from eng g (dc_source c) (dc_trans c)) (\<lambda>m. m\<lparr>sm_firing := None\<rparr>))])
           (\<lambda>_. with_state (\<lambda>m. if sm_state m = StateCompleted then give (p, True)
              else fire_risen eng g all cs p True))))"

definition consume_rise :: "change_poll \<Rightarrow> ('t, 'e, 's, 'v, 'c) machine \<Rightarrow> ('t, 'e, 's, 'v, 'c) machine" where
  "consume_rise p m =
     m\<lparr>sm_fired := sm_fired m \<union> {t \<in> set (map fst (filter snd (cp_condition p))).
        t \<in> cp_guard p \<and> t \<notin> cp_blocked p \<and> (case sm_rearmed m of Some r \<Rightarrow> t \<notin> r | None \<Rightarrow> True)}\<rparr>"

text \<open>An error of the selection still records the waits, as the code does before returning it.\<close>

definition select_risen ::
  "('e, 's) state_graph \<Rightarrow> change_poll \<Rightarrow> ('t, 'e, 's, 'v, 'c, ('e, 's) dispatch_candidate list) mprog" where
  "select_risen g p m =
     (case select_candidates g (risen_change_transition g p) m of
        (m1, Inl x) \<Rightarrow> (m1\<lparr>sm_waits := cp_waits p\<rparr>, Inl x)
      | (m1, Inr cs) \<Rightarrow> (m1, Inr cs))"

definition poll_change_events ::
  "('t::linorder, 'e, 's, 'v, 'c) machine_engine \<Rightarrow> ('e, 's) state_graph \<Rightarrow> ('t, 'e, 's, 'v, 'c, bool) mprog" where
  "poll_change_events eng g =
     finally_do (then_do (update (\<lambda>m. m\<lparr>sm_rearmed := Some {}\<rparr>)) (\<lambda>_.
       then_do (observe_change_conditions eng g) (\<lambda>p.
         if cp_condition p = [] then then_do (update (\<lambda>m. m\<lparr>sm_waits := []\<rparr>)) (\<lambda>_. give False)
         else then_do (select_risen g p) (\<lambda>cs.
           then_do (fire_risen eng g cs cs p False) (\<lambda>(p1, fired).
             then_do (block
               [update (\<lambda>m. if fired then recall_deferred_events g m else m),
                update (consume_rise p1),
                update (\<lambda>m. m\<lparr>sm_waits := cp_waits p1\<rparr>)]) (\<lambda>_. give fired))))))
       (\<lambda>m. m\<lparr>sm_rearmed := None\<rparr>)"

definition watches_change_condition :: "('e, 's) state_graph \<Rightarrow> ('t, 'e, 's, 'v, 'c) machine \<Rightarrow> bool" where
  "watches_change_condition g m \<longleftrightarrow>
     list_ex (\<lambda>leaf. list_ex (\<lambda>s. list_ex is_change_trigger (sg_out g (StateV s))) (parent_chain g leaf)) (active_leaves g m)"

section \<open>Signals and calls\<close>

definition enqueue_signal :: "'v message \<Rightarrow> ('t::linorder, 'e, 's, 'v, 'c) machine \<Rightarrow> ('t, 'e, 's, 'v, 'c) machine" where
  "enqueue_signal msg m = push_fresh EventAccept (sm_time m) (MessagePayload msg) m"

definition send_signal ::
  "string \<Rightarrow> (string \<Rightarrow> 'v option) \<Rightarrow> ('t::linorder, 'e, 's, 'v, 'c) machine \<Rightarrow> ('t, 'e, 's, 'v, 'c) machine" where
  "send_signal signal args =
     enqueue_signal \<lparr>m_signal = signal, m_target = [], m_port = [], m_object = 0, m_delivery = DeliverAnyone, m_payload = args\<rparr>"

definition invoke_operation ::
  "string \<Rightarrow> (string \<Rightarrow> 'v option) \<Rightarrow> ('t::linorder, 'e, 's, 'v, 'c) machine \<Rightarrow> ('t, 'e, 's, 'v, 'c) machine" where
  "invoke_operation op args m = push_fresh EventCall (sm_time m) (CallPayload \<lparr>cl_operation = op, cl_args = args\<rparr>) m"

definition accepts_signal_from ::
  "('e, 's) state_graph \<Rightarrow> ('t, 'e, 's, 'v, 'c) machine \<Rightarrow> sid \<Rightarrow> 'v message \<Rightarrow> bool" where
  "accepts_signal_from g m s msg \<longleftrightarrow>
     list_ex (\<lambda>tr. case tr_trigger tr of
       Some (AcceptTrigger _ signal subsets) \<Rightarrow>
         reaches msg (sg_machine g) (tr_via tr) (sm_self m) \<and>
         (let sig = (if signal = [] then subsets else signal) in sig \<noteq> [] \<and> carries_signal msg sig)
     | _ \<Rightarrow> False) (sg_out g (StateV s))"

definition accepts_signal :: "('e, 's) state_graph \<Rightarrow> ('t, 'e, 's, 'v, 'c) machine \<Rightarrow> 'v message \<Rightarrow> bool" where
  "accepts_signal g m msg \<longleftrightarrow>
     list_ex (\<lambda>s. list_ex (\<lambda>a. accepts_signal_from g m a msg) (parent_chain g s)) (active_states g m)"

definition acceptable_message :: "('e, 's) state_graph \<Rightarrow> ('t, 'e, 's, 'v, 'c) machine \<Rightarrow> 'v message \<Rightarrow> bool" where
  "acceptable_message g m msg \<longleftrightarrow>
     (if m_port msg \<noteq> [] then accepts_signal g m msg
      else reaches msg (sg_machine g) [] (sm_self m) \<and> accepts_signal g m msg)"

text \<open>\<open>deliverPendingSignal\<close>: the machine after it, and whether it found a message.\<close>

definition deliver_pending_signal ::
  "('e, 's) state_graph \<Rightarrow> ('t::linorder, 'e, 's, 'v, 'c) machine \<Rightarrow> ('t, 'e, 's, 'v, 'c) machine \<times> bool" where
  "deliver_pending_signal g m =
     (case take_message (acceptable_message g m) (rc_messages (sm_ctx m)) of
        (None, q) \<Rightarrow> (m\<lparr>sm_ctx := (sm_ctx m)\<lparr>rc_messages := q\<rparr>\<rparr>, False)
      | (Some msg, q) \<Rightarrow> (enqueue_signal msg (m\<lparr>sm_ctx := (sm_ctx m)\<lparr>rc_messages := q\<rparr>\<rparr>), True))"

definition has_pending_signal_sm :: "('e, 's) state_graph \<Rightarrow> ('t, 'e, 's, 'v, 'c) machine \<Rightarrow> bool" where
  "has_pending_signal_sm g m \<longleftrightarrow> list_ex (acceptable_message g m) (rc_messages (sm_ctx m))"

section \<open>Initialization\<close>

definition bracket_machine ::
  "('t, 'e, 's, 'v, 'c) machine_engine \<Rightarrow> ('t, 'e, 's, 'v, 'c, 'a) mprog \<Rightarrow> ('t, 'e, 's, 'v, 'c, 'a) mprog" where
  "bracket_machine eng p =
     then_do (update (\<lambda>m. m\<lparr>sm_ctx := begin_executor_run (me_reset eng) (sm_run_started m) (sm_ctx m), sm_run_started := True\<rparr>))
       (\<lambda>_. finally_do p (\<lambda>m. m\<lparr>sm_ctx := end_executor_run (sm_ctx m)\<rparr>))"

definition initialize_machine ::
  "('t::linorder, 'e, 's, 'v, 'c) machine_engine \<Rightarrow> ('e, 's) state_graph \<Rightarrow> ('t, 'e, 's, 'v, 'c, unit) mprog" where
  "initialize_machine eng g = bracket_machine eng
     (case sg_initial g of
        Some s \<Rightarrow> block
          [update (set_current_state (Some s)),
           update (\<lambda>m. m\<lparr>sm_state := StateRunning, sm_stack := root_to_leaf g s\<rparr>),
           for_each (\<lambda>a. wrapped (ErrIn (''enter state '' @ state_name g a)) (enter_state eng g a)) (root_to_leaf g s),
           wrapped (ErrIn ''schedule events'') (schedule_transition_events eng g)]
      | None \<Rightarrow>
          (if sg_region_initials g = []
           then throw (ErrMachine (''no initial state found in state machine '' @ sg_machine g))
           else block
             [update (\<lambda>m. m\<lparr>sm_state := StateRunning\<rparr>),
              update (set_current_state None),
              enter_regions_into eng g None [] (sg_top g),
              wrapped (ErrIn ''schedule events'') (schedule_transition_events eng g)]))"

section \<open>Running\<close>

definition has_due_event :: "bool \<Rightarrow> ('t::{linorder, zero}, 'e, 's, 'v, 'c) machine \<Rightarrow> bool" where
  "has_due_event at_current_time m \<longleftrightarrow>
     queue_len (sm_queue m) \<noteq> 0 \<and> (\<not> at_current_time \<or> ev_time (peek_event (sm_queue m)) \<le> sm_time m)"

text \<open>
  The test \<open>!e.hasDueEvent(...) && !e.deliverPendingSignal()\<close>: a message is taken off the bus only
  when no event is due.
\<close>

definition nothing_due ::
  "('e, 's) state_graph \<Rightarrow> bool \<Rightarrow> ('t::{linorder, zero}, 'e, 's, 'v, 'c, bool) mprog" where
  "nothing_due g at_current_time m =
     (if has_due_event at_current_time m then (m, Inr False)
      else (case deliver_pending_signal g m of (m1, delivered) \<Rightarrow> (m1, Inr (\<not> delivered))))"

text \<open>
  The loop of \<open>run\<close>, with the two counters. Each turn counts an event or a do action, or ends
  the loop, so the budgets bound it: \<open>run_machine\<close> gives it one turn for each and one more.
\<close>

primrec run_from ::
  "('t::{linorder, zero}, 'e, 's, 'v, 'c) machine_engine \<Rightarrow> ('e, 's) state_graph \<Rightarrow> bool \<Rightarrow> int \<Rightarrow> int \<Rightarrow> nat
    \<Rightarrow> int \<Rightarrow> int \<Rightarrow> ('t, 'e, 's, 'v, 'c, unit) mprog" where
  "run_from eng g at_current_time max_events max_do 0 = (\<lambda>events do_steps. throw ErrNesting)"
| "run_from eng g at_current_time max_events max_do (Suc n) = (\<lambda>events do_steps. with_state (\<lambda>m.
     if sm_state m \<noteq> StateRunning then give () else
     then_do (run_do_round eng g) (\<lambda>executed.
       let do_steps' = do_steps + executed in
       if do_steps' \<ge> max_do then throw (ErrDoStepLimitExceeded max_do) else
       then_do (wrapped (ErrIn ''poll change conditions'') (poll_change_events eng g)) (\<lambda>fired.
         if fired
         then (if events \<ge> max_events then throw (ErrStateEventLimitExceeded max_events)
               else run_from eng g at_current_time max_events max_do n (events + 1) do_steps')
         else then_do (nothing_due g at_current_time) (\<lambda>nothing.
           if nothing
           then (if executed > 0 then run_from eng g at_current_time max_events max_do n events do_steps'
                 else update (\<lambda>m. m\<lparr>sm_state := StateSuspended\<rparr>))
           else if events \<ge> max_events then throw (ErrStateEventLimitExceeded max_events)
           else then_do (wrapped (ErrIn ''process event'') (process_next_event eng g)) (\<lambda>_.
             run_from eng g at_current_time max_events max_do n (events + 1) do_steps'))))))"

definition run_machine ::
  "('t::{linorder, zero}, 'e, 's, 'v, 'c) machine_engine \<Rightarrow> ('e, 's) state_graph \<Rightarrow> bool \<Rightarrow> ('t, 'e, 's, 'v, 'c, unit) mprog"
where
  "run_machine eng g at_current_time = bracket_machine eng (block
     [update (\<lambda>m. if sm_state m = StateSuspended then m\<lparr>sm_state := StateRunning\<rparr> else m),
      with_state (\<lambda>m.
        let max_events = rc_max_state_events (sm_ctx m); max_do = rc_max_do_steps (sm_ctx m)
        in run_from eng g at_current_time max_events max_do (nat max_events + nat max_do + 2) 0 0)])"

definition machine_run_to_completion ::
  "('t::{linorder, zero}, 'e, 's, 'v, 'c) machine_engine \<Rightarrow> ('e, 's) state_graph \<Rightarrow> ('t, 'e, 's, 'v, 'c, unit) mprog" where
  "machine_run_to_completion eng g = run_machine eng g False"

definition machine_run_to_quiescence ::
  "('t::{linorder, zero}, 'e, 's, 'v, 'c) machine_engine \<Rightarrow> ('e, 's) state_graph \<Rightarrow> ('t, 'e, 's, 'v, 'c, unit) mprog" where
  "machine_run_to_quiescence eng g = run_machine eng g True"

text \<open>\<open>ProcessNextEvent\<close>, \<open>RunDoRound\<close> and \<open>PollChangeEvents\<close>, for a driver that steps the machine.\<close>

definition step_machine ::
  "('t::{linorder, zero}, 'e, 's, 'v, 'c) machine_engine \<Rightarrow> ('e, 's) state_graph \<Rightarrow> ('t, 'e, 's, 'v, 'c, unit) mprog" where
  "step_machine eng g = bracket_machine eng
     (then_do (run_do_round eng g) (\<lambda>executed.
       then_do (wrapped (ErrIn ''poll change conditions'') (poll_change_events eng g)) (\<lambda>fired.
         if fired then give ()
         else then_do (nothing_due g False) (\<lambda>nothing.
           if nothing \<and> executed > 0 then give () else process_next_event eng g))))"

definition do_round_machine ::
  "('t::linorder, 'e, 's, 'v, 'c) machine_engine \<Rightarrow> ('e, 's) state_graph \<Rightarrow> ('t, 'e, 's, 'v, 'c, int) mprog" where
  "do_round_machine eng g = bracket_machine eng (run_do_round eng g)"

definition poll_machine ::
  "('t::linorder, 'e, 's, 'v, 'c) machine_engine \<Rightarrow> ('e, 's) state_graph \<Rightarrow> ('t, 'e, 's, 'v, 'c, bool) mprog" where
  "poll_machine eng g = bracket_machine eng (poll_change_events eng g)"

definition resume_machine :: "('t, 'e, 's, 'v, 'c) machine \<Rightarrow> ('t, 'e, 's, 'v, 'c) machine \<times> bool" where
  "resume_machine m =
     (if sm_state m \<noteq> StateSuspended then (m, False) else (m\<lparr>sm_state := StateRunning\<rparr>, True))"

definition suspend_machine :: "('t, 'e, 's, 'v, 'c) machine \<Rightarrow> ('t, 'e, 's, 'v, 'c) machine \<times> bool" where
  "suspend_machine m =
     (if sm_state m \<noteq> StateRunning then (m, False) else (m\<lparr>sm_state := StateSuspended\<rparr>, True))"

section \<open>What is left to do\<close>

definition has_pending_do_work :: "('t, 'e, 's, 'v, 'c) machine \<Rightarrow> bool" where
  "has_pending_do_work m \<longleftrightarrow> list_ex (\<lambda>a. da_pending a \<noteq> []) (sm_do m)"

definition has_pending_work :: "('e, 's) state_graph \<Rightarrow> ('t, 'e, 's, 'v, 'c) machine \<Rightarrow> bool" where
  "has_pending_work g m \<longleftrightarrow> queue_len (sm_queue m) > 0 \<or> sm_do m \<noteq> [] \<or> has_pending_signal_sm g m"

definition can_still_progress :: "('e, 's) state_graph \<Rightarrow> ('t, 'e, 's, 'v, 'c) machine \<Rightarrow> bool" where
  "can_still_progress g m \<longleftrightarrow>
     (if sm_state m \<noteq> StateSuspended then has_pending_work g m
      else queue_len (sm_queue m) > 0 \<or> has_pending_signal_sm g m \<or> has_pending_do_work m)"

definition wait_string :: "change_wait \<Rightarrow> string" where
  "wait_string w = cw_state w @ '': '' @ cw_trigger w @ '' ('' @ cw_reason w @ '')''"

text \<open>\<open>SuspendReason\<close>: the reason and, as the code appends it, the number of deferred events.\<close>

definition suspend_reason :: "('e, 's) state_graph \<Rightarrow> ('t, 'e, 's, 'v, 'c) machine \<Rightarrow> (string \<times> nat) option" where
  "suspend_reason g m =
     (if sm_state m = StateCompleted \<or> can_still_progress g m then None
      else Some (if sm_waits m \<noteq> []
                 then ''waiting on change condition: '' @ join_with ''; '' (map wait_string (sm_waits m))
                 else ''quiesced: nothing left can fire (no queued event, signal in flight, running do behavior or watched change condition)'',
                 length (sm_deferred m)))"

definition current_state :: "('t, 'e, 's, 'v, 'c) machine \<Rightarrow> sid option" where
  "current_state m = sm_simple m"

end
