(* ===== verification/State_Invariants.thy ===== *)
theory State_Invariants
  imports State_Executor
begin

text \<open>
  What every method of the state machine executor preserves. The locale \<open>config_invariant\<close> asks of
  an invariant only that the elementary changes of the machine's state preserve it - marking a
  region active, recording history, queuing the event of a fresh id, dropping the timers of a
  state - and shows once that every method that moves the configuration is made of those;
  \<open>machine_invariant\<close> adds taking, deferring and recalling events and shows it of the run.
\<close>

section \<open>The part of the state invariants speak of\<close>

definition core :: "('t, 'e, 's, 'v, 'c) machine \<Rightarrow>
    (rid \<times> sid) list \<times> (sid \<Rightarrow> history_record option) \<times> ('t, 'e, 's, 'v) event_queue \<times> int \<times> 't \<times> tid set
      \<times> ('t, 'e, 's, 'v) event list" where
  "core m = (sm_regions m, sm_history m, sm_queue m, sm_next m, sm_time m, sm_timers m, sm_deferred m)"

lemma core_ignores [simp]:
  "core (m\<lparr>sm_ctx := ctx\<rparr>) = core m"
  "core (m\<lparr>sm_data := d\<rparr>) = core m"
  "core (m\<lparr>sm_simple := a\<rparr>) = core m"
  "core (m\<lparr>sm_state := st\<rparr>) = core m"
  "core (m\<lparr>sm_stack := ss\<rparr>) = core m"
  "core (m\<lparr>sm_visits := vs\<rparr>) = core m"
  "core (m\<lparr>sm_do := ds\<rparr>) = core m"
  "core (m\<lparr>sm_next_do := n\<rparr>) = core m"
  "core (m\<lparr>sm_fired := fs\<rparr>) = core m"
  "core (m\<lparr>sm_firing := fi\<rparr>) = core m"
  "core (m\<lparr>sm_rearmed := ra\<rparr>) = core m"
  "core (m\<lparr>sm_waits := ws\<rparr>) = core m"
  "core (m\<lparr>sm_run_started := b\<rparr>) = core m"
  "core (m\<lparr>sm_trace := tc\<rparr>) = core m"
  by (simp_all add: core_def)

lemma core_bookkeeping [simp]:
  "core (record_trace r m) = core m"
  "core (visit_state g s m) = core m"
  "core (rearm_watches g s m) = core m"
  "core (stop_do s m) = core m"
  "core (start_do g s m) = core m"
  "core (record_transition_trace g tr source target m) = core m"
  "core (restore_data names saved m) = core m"
  "core (advance_do i m) = core m"
  "core (drop_finished m) = core m"
  "core (consume_rise p m) = core m"
  by (simp_all add: record_trace_def visit_state_def rearm_watches_def stop_do_def start_do_def
      record_transition_trace_def restore_data_def advance_do_def drop_finished_def consume_rise_def Let_def)

definition branches_ok :: "(rid \<Rightarrow> sid \<Rightarrow> bool) \<Rightarrow> (rid \<times> sid) list \<Rightarrow> bool" where
  "branches_ok okr br \<longleftrightarrow> (\<forall>(r, s) \<in> set br. okr r s)"

lemma branches_ok_Nil [simp]: "branches_ok okr []"
  by (simp add: branches_ok_def)

lemma branches_ok_lookup: "branches_ok okr br \<Longrightarrow> map_of br r = Some s \<Longrightarrow> okr r s"
  by (auto simp: branches_ok_def dest: map_of_SomeD)

lemma branches_ok_update: "branches_ok okr br \<Longrightarrow> okr r s \<Longrightarrow> branches_ok okr (AList.update r s br)"
  unfolding branches_ok_def by (induction br) auto

lemma branches_ok_delete: "branches_ok okr br \<Longrightarrow> branches_ok okr (AList.delete r br)"
  by (induction br) (auto simp: branches_ok_def)

lemma branches_ok_mono: "branches_ok okr br \<Longrightarrow> (\<And>r s. okr r s \<Longrightarrow> okr' r s) \<Longrightarrow> branches_ok okr' br"
  by (auto simp: branches_ok_def)

text \<open>The targets of a fork are states of the regions they are assigned to.\<close>

lemma fork_targets_ok:
  assumes "fork_targets g fork bs targets owner = Inr (targets', owner')" "branches_ok okr targets"
    "\<And>r s. sg_region_of g s = Some r \<Longrightarrow> okr r s"
  shows "branches_ok okr targets'"
  using assms
  by (induction g fork bs targets owner rule: fork_targets.induct)
    (auto simp: branches_ok_update split: if_splits vertex.splits option.splits)

lemma fork_targets_error: "fork_targets g fork bs targets owner = Inl x \<Longrightarrow> \<exists>w. x = ErrMachine w"
  by (induction g fork bs targets owner rule: fork_targets.induct)
    (auto split: if_splits vertex.splits option.splits)

lemma join_sources_error: "join_sources g join = Inl x \<Longrightarrow> \<exists>w. x = ErrMachine w"
  by (auto simp: join_sources_def Let_def split: if_splits)

section \<open>Paths into regions\<close>

definition downward :: "('e, 's) state_graph \<Rightarrow> sid list \<Rightarrow> bool" where
  "downward g = sorted_wrt (\<lambda>a b. a \<in> set (parent_chain g b))"

lemma downward_parent_chain:
  assumes "wf_graph g"
  shows "downward g (rev (parent_chain g s))"
proof (induction s rule: ancestor_induct [OF assms])
  case (1 s)
  then show ?case by (simp add: parent_chain_root assms downward_def)
next
  case (2 s p)
  then show ?case
    by (auto simp: parent_chain_step assms downward_def sorted_wrt_append)
qed

lemma downward_take: "downward g xs \<Longrightarrow> downward g (rev (takeWhile P (rev xs)))"
  unfolding downward_def
  by (metis rev_append rev_rev_ident sorted_wrt_append takeWhile_dropWhile_id)

lemma downward_descendant_chain: "wf_graph g \<Longrightarrow> downward g (descendant_chain g a s)"
  using downward_parent_chain [of g s] downward_take [of g "rev (parent_chain g s)"]
  by (auto simp: descendant_chain_def root_to_leaf_def downward_def split: option.splits)

lemma branches_along_ok:
  assumes "wf_graph g" "downward g xs" "branches_ok (region_contains g) br"
    "\<forall>r. region = Some r \<longrightarrow> (\<forall>x \<in> set xs. region_contains g r x)"
  shows "branches_ok (region_contains g) (branches_along g region xs br)"
  using assms
proof (induction g region xs br rule: branches_along.induct)
  case (2 g region s ss br)
  define region' where "region' = (case sg_region_of g s of Some r \<Rightarrow> Some r | None \<Rightarrow> region)"
  have below: "x \<in> set ss \<Longrightarrow> s \<in> set (parent_chain g x)" for x
    using 2(3) by (simp add: downward_def)
  have 1: "region_contains g r x" if "region' = Some r" "x \<in> set (s # ss)" for r x
  proof (cases "sg_region_of g s")
    case None
    with that 2(5) show ?thesis by (auto simp: region'_def)
  next
    case (Some q)
    with that(1) have "region_contains g r s" by (simp add: region'_def region_contains_self)
    with that(2) below region_contains_below [OF 2(2)] show ?thesis by auto
  qed
  from 2(4) 1 have "branches_ok (region_contains g) (case region' of Some r \<Rightarrow> AList.update r s br | None \<Rightarrow> br)"
    by (auto split: option.splits intro: branches_ok_update)
  with 2(1) [OF region'_def] 2(2,3) 1 show ?case
    by (simp add: region'_def [symmetric] Let_def downward_def)
qed simp

lemma branches_to_ok: "wf_graph g \<Longrightarrow> branches_ok (region_contains g) (branches_to g from target)"
  unfolding branches_to_def by (rule branches_along_ok) (auto intro: downward_descendant_chain)

lemma entry_plan_along_branches:
  "entry_plan_along g target xs = (enter, br) \<Longrightarrow> br = [] \<or> (\<exists>a. br = branches_to g (Some a) target)"
  by (induction g target xs rule: entry_plan_along.induct) (auto split: if_splits)

lemma entry_plan_ok: "wf_graph g \<Longrightarrow> entry_plan g lca target = (enter, br) \<Longrightarrow> branches_ok (region_contains g) br"
  using entry_plan_along_branches [of g target _ enter br] branches_to_ok by (force simp: entry_plan_def)

lemma region_under_contains: "region_under g a target = Some r \<Longrightarrow> region_contains g r target"
  by (auto simp: region_under_def region_contains_def find_Some_iff split: option.splits)

lemma innermost_region_contains:
  "region_contains g r target \<Longrightarrow> region_contains g (innermost_region_from g m target n r) target"
  by (induction n arbitrary: r) (auto split: option.splits intro: region_under_contains)

lemma concurrent_regions_contains:
  "concurrent_regions_from g n r target = Some (a, b) \<Longrightarrow> region_contains g b target"
  by (induction n arbitrary: r)
    (auto split: option.splits simp: sibling_region_containing_def find_Some_iff)

lemma climb_below:
  assumes "wf_graph g" "s \<in> set (parent_chain g a)" "c \<in> set (climb g (Some a) (Some s))"
  shows "s < c" "c \<le> a"
proof -
  have "c \<in> set (descendant_chain g (Some s) a)"
    using assms(2,3) by (simp add: climb_def descendant_chain_def)
  from descendant_chain_below [OF assms(1) this assms(2)] parent_chain_le [OF assms(1)]
  show "s < c" "c \<le> a" by auto
qed

text \<open>The states of a region lie below the state that owns it, and belong to the graph.\<close>

lemma region_contains_owner:
  assumes "wf_graph g" "region_contains g r a" "sg_region_owner g r = Some s"
  shows "s \<in> set (parent_chain g a)" "s < a" "a < length (sg_nodes g)"
proof -
  obtain b where b: "b \<in> set (parent_chain g a)" "sg_region_of g b = Some r"
    using assms(2) by (auto simp: region_contains_def)
  with assms(1,3) have p: "sg_parent g b = Some s" using wf_region_owner by fastforce
  then have "s \<in> set (parent_chain g b)" by (simp add: parent_chain_step assms(1))
  with b show *: "s \<in> set (parent_chain g a)" using ancestor_trans [OF assms(1)] by blast
  have "s < b" using wf_parent [OF assms(1) p] by simp
  with parent_chain_le [OF assms(1) b(1)] show "s < a" by simp
  then have "sg_parent g a \<noteq> None" using * parent_chain_root [OF assms(1), of a] by (cases "sg_parent g a") simp_all
  with wf_parent [OF assms(1), of a] show "a < length (sg_nodes g)" by auto
qed

lemma eval_step_context: "\<exists>ctx r. eval_step eng ex m = (m\<lparr>sm_ctx := ctx\<rparr>, r)"
  by (cases "me_eval eng (sm_ctx m) (sm_data m) ex") (auto simp: eval_step_def)

section \<open>Invariants of the configuration\<close>

text \<open>
  \<open>okr r s\<close> is what the invariant says of a state \<open>s\<close> a region \<open>r\<close> may have active or recorded; it
  holds at least where the region contains the state. An error \<open>bad\<close> is one that is shown never to
  occur: \<open>ErrNesting\<close>, the exhausted bound of a recursion, when the invariant keeps active states
  inside their regions, or none at all.
\<close>

locale config_invariant =
  fixes g :: "('e, 's) state_graph"
    and eng :: "('t::{linorder, zero}, 'e, 's, 'v, 'c) machine_engine"
    and P :: "('t, 'e, 's, 'v, 'c) machine \<Rightarrow> bool"
    and okr :: "rid \<Rightarrow> sid \<Rightarrow> bool"
    and bad :: "machine_error \<Rightarrow> bool"
  assumes wf: "wf_graph g"
    and contained: "region_contains g r s \<Longrightarrow> okr r s"
    and same_core: "core m' = core m \<Longrightarrow> P m \<Longrightarrow> P m'"
    and set_region: "okr r s \<Longrightarrow> P m \<Longrightarrow> P (set_region r s m)"
    and clear_region: "P m \<Longrightarrow> P (clear_region r m)"
    and no_regions: "P m \<Longrightarrow> P (m\<lparr>sm_regions := []\<rparr>)"
    and active_ok: "P m \<Longrightarrow> active_in m r = Some s \<Longrightarrow> okr r s"
    and record_region: "P m \<Longrightarrow> okr r s \<Longrightarrow> P (record_region_history g r s m)"
    and forget_region: "P m \<Longrightarrow> P (forget_region_history g r m)"
    and record_child: "P m \<Longrightarrow> P (record_child_history g s m)"
    and history_ok: "P m \<Longrightarrow> sm_history m s = Some h \<Longrightarrow> branches_ok okr (hr_regions h)"
    and history_child: "P m \<Longrightarrow> sm_history m s = Some h \<Longrightarrow> hr_child h = Some c \<Longrightarrow> okr r s \<Longrightarrow> okr r c"
    and completion: "P m \<Longrightarrow> tr_trigger tr = None \<Longrightarrow> tr \<in> set (sg_out g (StateV s))
      \<Longrightarrow> P (push_fresh EventTime (sm_time m) (LowerTransition tr) m)"
    and timer: "P m \<Longrightarrow> tr_trigger tr = Some (TimeTrigger ex absolute) \<Longrightarrow> tr \<in> set (sg_out g (StateV s))
      \<Longrightarrow> tr_id tr \<notin> sm_timers m \<Longrightarrow> me_duration eng v = Inr d
      \<Longrightarrow> P (arm_timer tr (expiry eng absolute d (sm_time m)) m)"
    and drop_timers: "P m \<Longrightarrow> P (drop_timers g s m)"
    and bad_wrapped: "bad (ErrIn w x) \<Longrightarrow> bad x"
    and bad_message: "\<not> bad (ErrMachine w)"
    and bad_eval: "me_eval eng ctx fs ex = (ctx', Inl x) \<Longrightarrow> \<not> bad x"
    and bad_duration: "me_duration eng v = Inl x \<Longrightarrow> \<not> bad x"
    and bad_run: "me_run eng b ctx fs = (ctx', fs', Some x) \<Longrightarrow> \<not> bad x"
    and bad_nesting: "bad ErrNesting \<Longrightarrow> okr r s \<Longrightarrow> region_contains g r s"
begin

abbreviation safe :: "('t, 'e, 's, 'v, 'c, 'a) mprog \<Rightarrow> bool" where
  "safe \<equiv> maintains P bad"

lemma safe_core: "(\<And>m. core (f m) = core m) \<Longrightarrow> safe (update f)"
  by (rule maintains_update) (metis same_core)

lemma safe_wrapped: "safe p \<Longrightarrow> safe (wrapped (ErrIn w) p)"
  by (rule maintains_wrapped) (auto dest: bad_wrapped)

lemma safe_message: "safe (throw (ErrMachine w))"
  by (rule maintains_throw) (rule bad_message)

lemmas safe_intros = keeps_intros safe_wrapped safe_message

lemma safe_eval: "safe (eval_step eng ex)"
proof (rule maintainsI)
  fix m m' r
  assume "P m" "eval_step eng ex m = (m', r)"
  moreover obtain ctx r0 where "me_eval eng (sm_ctx m) (sm_data m) ex = (ctx, r0)" by force
  ultimately show "P m' \<and> (\<forall>x. r = Inl x \<longrightarrow> \<not> bad x)"
    using same_core [of "m\<lparr>sm_ctx := ctx\<rparr>" m] by (auto simp: eval_step_def dest: bad_eval)
qed

lemma safe_guard: "safe (passes_guard eng g tr)"
  unfolding passes_guard_def by (intro safe_intros safe_eval)

lemma safe_behavior: "safe (execute_behavior eng b)"
proof (rule maintainsI)
  fix m m' r
  assume "P m" "execute_behavior eng b m = (m', r)"
  moreover obtain ctx d err where "me_run eng b (sm_ctx m) (sm_data m) = (ctx, d, err)" by (metis prod_cases3)
  ultimately show "P m' \<and> (\<forall>x. r = Inl x \<longrightarrow> \<not> bad x)"
    using same_core [of "m\<lparr>sm_ctx := ctx, sm_data := d\<rparr>" m]
    by (auto simp: execute_behavior_def split: if_splits option.splits dest: bad_run)
qed

lemma safe_effect: "safe (run_effect eng tr)"
  unfolding run_effect_def by (intro safe_intros safe_behavior)

lemma safe_completion: "safe (schedule_completion_transitions eng g s)"
  unfolding schedule_completion_transitions_def
  by (intro safe_intros safe_guard maintains_update) (auto intro: completion)

text \<open>Evaluating the duration leaves the timers that are running as they are.\<close>

lemma safe_arm:
  assumes "tr_trigger tr = Some (TimeTrigger ex absolute)" "tr \<in> set (sg_out g (StateV s))"
  shows "safe (with_state (\<lambda>m. if tr_id tr \<in> sm_timers m then give () else
    then_do (wrapped (ErrIn w) (eval_step eng ex)) (\<lambda>v.
      case me_duration eng v of
        Inl x \<Rightarrow> throw x
      | Inr d \<Rightarrow> update (\<lambda>m. arm_timer tr (expiry eng absolute d (sm_time m)) m))))"
proof (rule maintainsI)
  fix m m' r
  assume P: "P m" and e: "with_state (\<lambda>m. if tr_id tr \<in> sm_timers m then give () else
    then_do (wrapped (ErrIn w) (eval_step eng ex)) (\<lambda>v.
      case me_duration eng v of
        Inl x \<Rightarrow> throw x
      | Inr d \<Rightarrow> update (\<lambda>m. arm_timer tr (expiry eng absolute d (sm_time m)) m))) m = (m', r)"
  obtain ctx r0 where ev: "eval_step eng ex m = (m\<lparr>sm_ctx := ctx\<rparr>, r0)"
    using eval_step_context [of eng ex m] by blast
  have P1: "P (m\<lparr>sm_ctx := ctx\<rparr>)" by (rule same_core [OF _ P]) simp
  show "P m' \<and> (\<forall>x. r = Inl x \<longrightarrow> \<not> bad x)"
  proof (cases "tr_id tr \<in> sm_timers m")
    case True
    with e P show ?thesis by auto
  next
    case False
    show ?thesis
    proof (cases r0)
      case (Inl x)
      with ev have "wrapped (ErrIn w) (eval_step eng ex) m = (m\<lparr>sm_ctx := ctx\<rparr>, Inl (ErrIn w x))" by simp
      with e False P1 maintains_error [OF safe_eval P] ev Inl show ?thesis by (auto dest: bad_wrapped)
    next
      case (Inr v)
      with ev have "wrapped (ErrIn w) (eval_step eng ex) m = (m\<lparr>sm_ctx := ctx\<rparr>, Inr v)" by simp
      with e False P1 timer [OF P1 assms] show ?thesis
        by (auto split: sum.splits dest: bad_duration)
    qed
  qed
qed

lemma safe_time: "safe (schedule_time_transitions eng g s)"
  unfolding schedule_time_transitions_def
proof (rule maintains_for_each)
  fix tr
  assume tr: "tr \<in> set (sg_out g (StateV s))"
  show "safe (with_state (\<lambda>m. if tr_id tr \<in> sm_timers m then give () else
       (case tr_trigger tr of
          Some (TimeTrigger duration absolute) \<Rightarrow>
            then_do (wrapped (ErrIn ''eval time duration'') (eval_step eng duration)) (\<lambda>v.
              case me_duration eng v of
                Inl x \<Rightarrow> throw x
              | Inr d \<Rightarrow> update (\<lambda>m. arm_timer tr (expiry eng absolute d (sm_time m)) m))
        | _ \<Rightarrow> give ())))"
  proof (cases "\<exists>ex absolute. tr_trigger tr = Some (TimeTrigger ex absolute)")
    case True
    then obtain ex absolute where t: "tr_trigger tr = Some (TimeTrigger ex absolute)" by blast
    show ?thesis using safe_arm [OF t tr, of "''eval time duration''"] by (simp only: t option.case event_trigger.case)
  next
    case False
    then show ?thesis
      by (intro safe_intros; cases "tr_trigger tr") (auto intro!: keeps_intros split: event_trigger.splits)
  qed
qed

lemma safe_leaf: "safe (schedule_from_leaf eng g leaf)"
  unfolding schedule_from_leaf_def schedule_transitions_for_state_def
  by (simp add: safe_intros safe_completion safe_time)

lemma safe_schedule: "safe (schedule_transition_events eng g)"
  unfolding schedule_transition_events_def by (intro safe_intros safe_leaf)

lemma safe_entered: "safe (schedule_from_entered eng g s)"
  unfolding schedule_from_entered_def by (intro safe_intros safe_leaf)

text \<open>Entering: a region is marked with a state it may have, and the states below are entered.\<close>

lemma safe_set_region: "okr r s \<Longrightarrow> safe (update (set_region r s))"
  by (rule maintains_update) (rule set_region)

lemma entry_ok:
  assumes "branches_ok okr br"
    "(case map_of br r of Some b \<Rightarrow> Some b | None \<Rightarrow> map_of (sg_region_initials g) r) = Some entry"
  shows "okr r entry"
proof (cases "map_of br r")
  case None
  with assms(2) wf_initial [OF wf] show ?thesis by (auto intro: contained region_contains_self)
next
  case (Some b)
  with assms branches_ok_lookup [OF assms(1)] show ?thesis by simp
qed

lemma safe_enter_regions:
  assumes "branches_ok okr br"
    and "\<And>r entry d. r \<in> set rs \<Longrightarrow> okr r entry \<Longrightarrow> d \<in> set (descendant_chain g container entry) \<Longrightarrow> safe (enter d)"
  shows "safe (enter_regions_with g enter container br rs)"
  unfolding enter_regions_with_def
proof (rule maintains_for_each)
  fix r
  assume r: "r \<in> set rs"
  let ?entry = "case map_of br r of Some b \<Rightarrow> Some b | None \<Rightarrow> map_of (sg_region_initials g) r"
  show "safe (case ?entry of
         None \<Rightarrow> throw (ErrMachine (''region '' @ sg_region_name g r @ '' has no initial state''))
       | Some entry \<Rightarrow>
           block [update (set_region r entry),
                  wrapped (ErrIn (''enter starting state in region '' @ sg_region_name g r))
                    (for_each enter (descendant_chain g container entry))])"
  proof (cases ?entry)
    case None
    then show ?thesis by (simp only: option.case safe_message)
  next
    case (Some entry)
    have ok: "okr r entry" by (rule entry_ok [OF assms(1) Some])
    have "safe (for_each enter (descendant_chain g container entry))"
      by (intro maintains_for_each assms(2) [OF r ok])
    then show ?thesis
      unfolding Some option.case by (intro maintains_block) (simp add: safe_wrapped safe_set_region ok)
  qed
qed

lemma region_descends:
  assumes "r \<in> set (regions_of g s)" "region_contains g r a"
  shows "s \<in> set (parent_chain g a)" "s < a" "a < length (sg_nodes g)"
  using region_contains_owner [OF wf assms(2)] assms(1) wf_regions_of [OF wf, of r s] by auto

lemma safe_enter_at:
  assumes "branches_ok okr br" "bad ErrNesting \<Longrightarrow> length (sg_nodes g) - s < n"
  shows "safe (enter_at eng g br n s)"
  using assms(2)
proof (induction n arbitrary: s)
  case 0
  then have "\<not> bad ErrNesting" by auto
  then show ?case unfolding enter_at.simps by (rule maintains_throw)
next
  case (Suc n)
  have regions: "safe (enter_regions_with g (enter_at eng g br n) (Some s) br rs)" if "sg_composite g s = Some rs" for rs
  proof (rule safe_enter_regions [OF assms(1)])
    fix r entry d
    assume r: "r \<in> set rs" and ok: "okr r entry" and d: "d \<in> set (descendant_chain g (Some s) entry)"
    show "safe (enter_at eng g br n d)"
    proof (rule Suc.IH)
      assume b: "bad ErrNesting"
      have "r \<in> set (regions_of g s)" using that r by (simp add: regions_of_def)
      from region_descends [OF this bad_nesting [OF b ok]]
        descendant_chain_below [OF wf d] parent_chain_le [OF wf, of d entry]
      have "s < d" "d < length (sg_nodes g)" by auto
      with Suc.prems [OF b] show "length (sg_nodes g) - d < n" by simp
    qed
  qed
  show ?case
    by (simp only: enter_at.simps, intro safe_intros)
      (auto intro!: safe_core safe_intros safe_behavior regions simp del: block.simps split: option.splits)
qed

lemma safe_enter: "branches_ok okr br \<Longrightarrow> safe (enter_state_into eng g br s)"
  unfolding enter_state_into_def by (rule safe_enter_at) auto

lemma safe_enter_state: "safe (enter_state eng g s)"
  unfolding enter_state_def by (rule safe_enter) simp

lemma safe_enter_regions_into: "branches_ok okr br \<Longrightarrow> safe (enter_regions_into eng g container br rs)"
  unfolding enter_regions_into_def by (intro safe_enter_regions safe_enter)

text \<open>Leaving: what is recorded was active, and only regions of states left are cleared.\<close>

lemma own_active_mem: "(r, a) \<in> set (own_active g s m) \<Longrightarrow> r \<in> set (regions_of g s) \<and> active_in m r = Some a"
  by (auto simp: own_active_def split: option.splits)

lemma record_all:
  "P m \<Longrightarrow> (\<And>r a. (r, a) \<in> set ras \<Longrightarrow> okr r a) \<Longrightarrow> P (fold (\<lambda>(r, a). record_region_history g r a) ras m)"
proof (induction ras arbitrary: m)
  case (Cons ra ras)
  obtain r a where "ra = (r, a)" by force
  with Cons.IH [of "record_region_history g r a m"] Cons.prems record_region show ?case by simp
qed simp

lemma record_left_ok: "P m \<Longrightarrow> P (record_left g s m)"
  unfolding record_left_def by (intro record_child record_all) (auto dest: own_active_mem active_ok)

lemma safe_leaving:
  "safe (update (drop_timers g s))" "safe (update (record_left g s))"
  by (rule maintains_update, erule drop_timers, rule maintains_update, erule record_left_ok)

lemma safe_exit_at:
  assumes "bad ErrNesting \<Longrightarrow> length (sg_nodes g) - s < n"
  shows "safe (exit_at eng g n s)"
  using assms
proof (induction n arbitrary: s)
  case 0
  then have "\<not> bad ErrNesting" by auto
  then show ?case unfolding exit_at.simps by (rule maintains_throw)
next
  case (Suc n)
  have below: "safe (exit_at eng g n c)"
    if m: "P m" and ra: "(r, a) \<in> set (own_active g s m)" and c: "c \<in> set (climb g (Some a) (Some s))" for m r a c
  proof (rule Suc.IH)
    assume b: "bad ErrNesting"
    have r: "r \<in> set (regions_of g s)" "okr r a" using own_active_mem [OF ra] active_ok [OF m] by auto
    note d = region_descends [OF r(1) bad_nesting [OF b r(2)]]
    from climb_below [OF wf d(1) c] d have "s < c" "c < length (sg_nodes g)" by auto
    with Suc.prems [OF b] show "length (sg_nodes g) - c < n" by simp
  qed
  have regions: "safe (for_each (\<lambda>(r, a). block
      [update (clear_region r),
       for_each (\<lambda>c. wrapped (ErrIn ''exit region state'') (exit_at eng g n c)) (climb g (Some a) (Some s))])
      (own_active g s m))" if "P m" for m
  proof (rule maintains_for_each)
    fix ra
    assume ra: "ra \<in> set (own_active g s m)"
    obtain r a where "ra = (r, a)" by force
    with ra below [OF that, of r a] show "safe (case ra of (r, a) \<Rightarrow> block
      [update (clear_region r),
       for_each (\<lambda>c. wrapped (ErrIn ''exit region state'') (exit_at eng g n c)) (climb g (Some a) (Some s))])"
      by (simp only: prod.case, intro maintains_block)
        (auto intro!: safe_intros maintains_update clear_region)
  qed
  show ?case
    by (simp only: exit_at.simps, intro maintains_block)
      (auto intro!: safe_leaving safe_core safe_intros safe_behavior regions simp del: block.simps)
qed

lemma safe_exit: "safe (exit_state eng g s)"
  unfolding exit_state_def by (intro safe_wrapped safe_exit_at) simp

lemma safe_exit_states: "safe (exit_states eng g leaving)"
  unfolding exit_states_def by (intro safe_intros safe_exit)

section \<open>Transitions\<close>

text \<open>
  The walk over transient pseudostates: every pseudostate of the graph is passed at most once.
\<close>

lemma safe_first_passing: "safe (first_passing eng g p trs)"
  by (induction trs) (simp_all only: first_passing.simps, auto intro!: safe_intros safe_guard simp del: prog_simps)

lemma safe_branch: "safe (pseudostate_branch eng g p)"
  unfolding pseudostate_branch_def by (intro safe_intros safe_first_passing)

lemma first_passing_mem: "first_passing eng g p trs m = (m', Inr tr) \<Longrightarrow> tr \<in> set trs"
  by (induction trs arbitrary: m) (auto simp: then_do_Inr split: if_splits)

lemma branch_target:
  assumes "pseudostate_branch eng g p m = (m', Inr tr)" "tr_target tr = PseudoV q"
  shows "q < length (sg_pseudos g)"
proof -
  have "tr \<in> set (sg_out g (PseudoV p))"
    using assms(1) first_passing_mem by (auto simp: pseudostate_branch_def split: if_splits)
  with assms(2) wf_target [OF wf] show ?thesis by blast
qed

lemma safe_pseudo_from:
  assumes "distinct visited" "set visited \<subseteq> insert p0 {..<length (sg_pseudos g)}" "p \<in> insert p0 {..<length (sg_pseudos g)}"
    "length (sg_pseudos g) + 2 \<le> n + length visited"
  shows "safe (pseudostate_target_from eng g n visited p)"
  using assms
proof (induction n arbitrary: visited p)
  case 0
  have "length visited = card (set visited)" using 0(1) by (simp add: distinct_card)
  also have "\<dots> \<le> card (insert p0 {..<length (sg_pseudos g)})" by (rule card_mono [OF _ 0(2)]) simp
  also have "\<dots> \<le> Suc (length (sg_pseudos g))" by (simp add: card_insert_if)
  finally show ?case using 0(4) by simp
next
  case (Suc n)
  show ?case
  proof (cases "p \<in> set visited")
    case True
    then show ?thesis by (simp only: pseudostate_target_from.simps if_True safe_message)
  next
    case False
    show ?thesis
    proof (rule maintainsI)
      fix m m' r
      assume P: "P m" and e: "pseudostate_target_from eng g (Suc n) visited p m = (m', r)"
      obtain m1 r1 where b: "pseudostate_branch eng g p m = (m1, r1)" by force
      have P1: "P m1" by (rule maintains_at [OF safe_branch P b])
      show "P m' \<and> (\<forall>x. r = Inl x \<longrightarrow> \<not> bad x)"
      proof (cases r1)
        case (Inl x)
        with e b False P1 maintains_error [OF safe_branch P, of p] show ?thesis by auto
      next
        case (Inr tr)
        have next_step: "safe (pseudostate_target_from eng g n (p # visited) q)" if "tr_target tr = PseudoV q" for q
          using branch_target [OF b [unfolded Inr] that] Suc.prems False by (intro Suc.IH) auto
        have "safe (case tr_target tr of
            StateV s \<Rightarrow> give s
          | PseudoV q \<Rightarrow>
              (if \<not> transient_pseudostate (ps_kind (sg_pseudos g ! q))
               then throw (ErrMachine (pseudo_label g p @ '': a transition into '' @ pseudo_label g q @ '' is not supported''))
               else pseudostate_target_from eng g n (p # visited) q)
          | NoVertex \<Rightarrow> throw (ErrMachine (pseudo_label g p @ '': target must be a state or pseudostate'')))"
          using next_step by (cases "tr_target tr") (simp_all only: vertex.case, auto intro!: safe_intros)
        from maintains_at [OF this P1] maintains_error [OF this P1] e b False Inr show ?thesis by auto
      qed
    qed
  qed
qed

lemma safe_pseudostate_target: "safe (pseudostate_target eng g p)"
  unfolding pseudostate_target_def by (rule safe_pseudo_from [where p0 = p]) auto

lemma safe_transition_target: "safe (transition_target eng g tr)"
  unfolding transition_target_def
  by (cases "tr_target tr") (simp_all only: vertex.case, auto intro!: safe_intros safe_pseudostate_target)

lemma safe_final: "safe (update (\<lambda>m. if b then m\<lparr>sm_state := st\<rparr> else m))"
  by (rule safe_core) simp

lemma safe_records:
  "safe (update (\<lambda>m. m\<lparr>sm_stack := ss\<rparr>))"
  "safe (update (\<lambda>m. if b then m\<lparr>sm_simple := a\<rparr> else m))"
  "safe (update (\<lambda>m. if b \<and> sm_regions m = [] then m\<lparr>sm_simple := a\<rparr> else m))"
  "safe (update (record_transition_trace g tr source target))"
  by (rule safe_core; simp)+

lemma safe_set_current: "safe (update (set_current_state s))"
  by (rule maintains_update)
    (metis core_ignores(3) no_regions same_core set_current_state_def)

lemma set_current_ok: "P m \<Longrightarrow> P (set_current_state s m)"
  using maintains_fst [OF safe_set_current] by simp

lemma safe_maybe_current: "safe (update (\<lambda>m. if b then set_current_state s m else m))"
  by (rule maintains_update) (simp add: set_current_ok)

lemma safe_transition_to_into: "branches_ok okr br \<Longrightarrow> safe (transition_to_into eng g tr target br)"
  unfolding transition_to_into_def Let_def
  by (intro keeps_intros)
    (auto intro!: safe_intros safe_exit_states safe_effect safe_enter safe_schedule safe_maybe_current safe_final safe_core
      simp del: block.simps)

lemma safe_transition_to: "safe (transition_to eng g tr target)"
  unfolding transition_to_def by (rule safe_transition_to_into) simp

text \<open>History: the branches restored are among the recorded ones.\<close>

lemma deepest_ok:
  assumes "P m" "branches_ok okr br" "deepest_from g m n s br = (t, br')"
  shows "branches_ok okr br'" "okr r s \<Longrightarrow> okr r t"
proof -
  have "branches_ok okr br' \<and> (\<forall>r. okr r s \<longrightarrow> okr r t)"
    using assms(2,3)
  proof (induction n arbitrary: s br t br')
    case (Suc n)
    show ?case
    proof (cases "sm_history m s")
      case None
      with Suc.prems show ?thesis by auto
    next
      case (Some h)
      show ?thesis
      proof (cases "hr_regions h = []")
        case False
        let ?f = "\<lambda>r br. case map_of (hr_regions h) r of
            None \<Rightarrow> br | Some a \<Rightarrow> (case deepest_from g m n a br of (t, br') \<Rightarrow> AList.update r t br')"
        have step: "branches_ok okr (?f r b)" if b: "branches_ok okr b" for r b
        proof (cases "map_of (hr_regions h) r")
          case None
          with that show ?thesis by simp
        next
          case (Some a)
          obtain t1 b1 where d: "deepest_from g m n a b = (t1, b1)" by force
          have "okr r a" using branches_ok_lookup [OF history_ok [OF assms(1) \<open>sm_history m s = Some h\<close>] Some] .
          with Suc.IH [OF b d] Some d show ?thesis by (simp add: branches_ok_update)
        qed
        have "branches_ok okr (fold ?f rs b)" if "branches_ok okr b" for rs b
          using that by (induction rs arbitrary: b) (simp_all add: step)
        with Suc.prems Some False show ?thesis by auto
      next
        case True
        show ?thesis
        proof (cases "hr_child h")
          case None
          with Suc.prems Some True show ?thesis by auto
        next
          case (Some c)
          with Suc.prems \<open>sm_history m s = Some h\<close> True have "deepest_from g m n c br = (t, br')" by simp
          from Suc.IH [OF Suc.prems(1) this] history_child [OF assms(1) \<open>sm_history m s = Some h\<close> Some]
          show ?thesis by blast
        qed
      qed
    qed
  qed auto
  then show "branches_ok okr br'" "okr r s \<Longrightarrow> okr r t" by auto
qed

lemma history_branches_ok:
  assumes "P m" "sm_history m owner = Some h"
  shows "branches_ok okr (history_branches g m deep owner h)"
proof -
  let ?f = "\<lambda>r br. case map_of (hr_regions h) r of
      None \<Rightarrow> br
    | Some a \<Rightarrow> (case (if deep then deepest_recorded g m a br else (a, br)) of (t, br') \<Rightarrow> AList.update r t br')"
  have step: "branches_ok okr (?f r b)" if b: "branches_ok okr b" for r b
  proof (cases "map_of (hr_regions h) r")
    case None
    with that show ?thesis by simp
  next
    case (Some a)
    obtain t1 b1 where d: "deepest_recorded g m a b = (t1, b1)" by force
    have "okr r a" using branches_ok_lookup [OF history_ok [OF assms] Some] .
    with deepest_ok [OF assms(1) b d [unfolded deepest_recorded_def]] Some d b show ?thesis
      by (simp add: branches_ok_update)
  qed
  have "branches_ok okr (fold ?f rs b)" if "branches_ok okr b" for rs b
    using that by (induction rs arbitrary: b) (simp_all add: step)
  then show ?thesis by (simp add: history_branches_def)
qed

lemma safe_default_history:
  "safe (then_do (wrapped (ErrIn w) (pseudostate_target eng g hist)) (\<lambda>target. transition_to eng g tr target))"
  by (intro safe_intros safe_pseudostate_target safe_transition_to)

lemma safe_recorded_history:
  assumes "P m" "sm_history m owner = Some h"
  shows "safe (if hr_regions h \<noteq> [] then transition_to_into eng g tr owner (history_branches g m deep owner h)
    else (case hr_child h of
            None \<Rightarrow> throw (ErrMachine w)
          | Some c \<Rightarrow> (case (if deep then deepest_recorded g m c [] else (c, [])) of
                        (target, br) \<Rightarrow> transition_to_into eng g tr target br)))"
proof (intro maintains_if safe_transition_to_into history_branches_ok [OF assms] maintains_case_option safe_message
    maintains_case_prod)
  fix c target br
  assume "(if deep then deepest_recorded g m c [] else (c, [])) = (target, br)"
  then show "branches_ok okr br"
    using deepest_ok(1) [OF assms(1) branches_ok_Nil]
    by (auto simp: deepest_recorded_def simp del: deepest_from.simps split: if_splits)
qed

lemma safe_history: "safe (fire_history_transition eng g tr hist)"
  unfolding fire_history_transition_def Let_def
  by (intro keeps_intros safe_guard safe_message safe_default_history safe_recorded_history)

text \<open>Fork and join.\<close>

lemma safe_no_regions: "safe (update (\<lambda>m. m\<lparr>sm_regions := []\<rparr>))"
  by (rule maintains_update) (rule no_regions)

lemma safe_exit_toward: "safe (exit_toward eng g stop)"
  unfolding exit_toward_def
  by (intro keeps_intros) (auto intro!: safe_intros safe_exit safe_no_regions safe_core)

lemma safe_enter_hierarchy: "branches_ok okr br \<Longrightarrow> safe (enter_hierarchy_into eng g s br)"
  unfolding enter_hierarchy_into_def by (intro safe_intros safe_enter safe_enter_state)

lemma safe_fork: "safe (fire_fork_transition eng g tr fork)"
proof -
  have "branches_ok okr targets" if "fork_targets g w bs [] None = Inr (targets, owner)" for w bs targets owner
    by (rule fork_targets_ok [OF that]) (auto intro: contained region_contains_self)
  then show ?thesis
    unfolding fire_fork_transition_def Let_def
    by (intro safe_intros safe_guard)
      (auto intro!: safe_intros safe_exit_toward safe_effect safe_enter_hierarchy safe_schedule safe_core maintains_throw
        dest: fork_targets_error simp: bad_message simp del: block.simps)
qed

lemma safe_join: "safe (fire_join_transition eng g tr join)"
  unfolding fire_join_transition_def Let_def
  by (intro safe_intros safe_guard safe_pseudostate_target)
    (auto intro!: safe_intros safe_exit safe_set_current safe_transition_to maintains_throw dest: join_sources_error
      simp: bad_message simp del: block.simps)

lemma safe_fire_simple:
  "safe (then_do (passes_guard eng g tr) (\<lambda>pass. if \<not> pass then give () else transition_to eng g tr target))"
  by (intro safe_intros safe_guard safe_transition_to)

lemma safe_fire: "safe (fire_transition eng g tr)"
proof -
  have "safe (case ps_kind (sg_pseudos g ! p) of
             PseudostateFork \<Rightarrow> fire_fork_transition eng g tr p
           | PseudostateJoin \<Rightarrow> fire_join_transition eng g tr p
           | PseudostateShallowHistory \<Rightarrow> fire_history_transition eng g tr p
           | PseudostateDeepHistory \<Rightarrow> fire_history_transition eng g tr p
           | _ \<Rightarrow> then_do (wrapped (ErrIn ''evaluate pseudostate'') (pseudostate_target eng g p)) (\<lambda>target.
               then_do (passes_guard eng g tr) (\<lambda>pass. if \<not> pass then give () else transition_to eng g tr target)))" for p
    by (cases "ps_kind (sg_pseudos g ! p)")
      (simp_all only: pseudostate_kind.case, auto intro!: safe_fork safe_join safe_history safe_intros
        safe_pseudostate_target safe_fire_simple)
  then show ?thesis
    unfolding fire_transition_def Let_def
    by (cases "tr_target tr") (simp_all only: vertex.case safe_fire_simple safe_message)
qed

section \<open>Moves between regions\<close>

lemma safe_clear_region: "safe (update (clear_region r))"
  by (rule maintains_update) (rule clear_region)

lemma safe_forget: "safe (update (\<lambda>m. if b then forget_region_history g r m else m))"
  by (rule maintains_update) (simp add: forget_region)

lemma safe_exit_region_to: "safe (exit_region_to eng g r stop)"
  unfolding exit_region_to_def
  by (intro safe_intros) (auto intro!: safe_intros safe_exit safe_clear_region safe_forget)

lemma safe_move:
  assumes "region_contains g target_region target"
  shows "safe (move_between_regions eng g source_region target_region source tr target)"
proof -
  let ?leaf = "case map_of (branches_to g None target) target_region of Some b \<Rightarrow> b | None \<Rightarrow> target"
  have "okr target_region ?leaf"
    using assms branches_to_ok [OF wf, of None target]
    by (auto intro: contained branches_ok_lookup split: option.splits)
  moreover have "branches_ok okr br" if "entry_plan g keep target = (enter, br)" for keep enter br
    using entry_plan_ok [OF wf that] contained by (rule branches_ok_mono)
  ultimately show ?thesis
    unfolding move_between_regions_def Let_def
    by (intro keeps_intros)
      (auto intro!: safe_intros safe_exit_region_to safe_effect safe_set_region safe_enter safe_entered safe_records
        simp del: block.simps)
qed

lemma safe_enter_outside: "safe (enter_outside eng g tr source lca target)"
proof -
  have "branches_ok okr br" if "entry_plan g lca target = (enter, br)" for enter br
    using entry_plan_ok [OF wf that] contained by (rule branches_ok_mono)
  moreover have "okr r leaf" if "(r, leaf) \<in> set (branches_to g None target)" for r leaf
    using branches_to_ok [OF wf, of None target] that contained by (auto simp: branches_ok_def)
  ultimately show ?thesis
    unfolding enter_outside_def Let_def
    by (intro keeps_intros)
      (auto intro!: safe_intros safe_effect safe_set_region safe_enter safe_entered safe_final safe_records
        simp del: block.simps)
qed

lemma safe_leave_top: "safe (leave_top_regions eng g tr source target)"
  unfolding leave_top_regions_def
  by (intro keeps_intros)
    (auto intro!: safe_intros safe_clear_region safe_exit_states safe_set_current safe_effect safe_enter_outside
      simp del: block.simps)

lemma clear_declaring_ok: "P m \<Longrightarrow> P (clear_declaring g s m)"
  using active_ok [of m]
  by (auto simp: clear_declaring_def intro: clear_region record_region split: option.splits)

lemma safe_clear_declaring: "safe (update (clear_declaring g s))"
  by (rule maintains_update) (rule clear_declaring_ok)

lemma safe_leave: "safe (leave_region eng g r tr target)"
  unfolding leave_region_def Let_def
  by (intro safe_intros safe_leave_top)
    (auto intro!: safe_intros safe_clear_declaring safe_exit safe_effect safe_enter_outside simp del: block.simps)

lemma safe_fire_in_region: "safe (fire_transition_in_region eng g r tr)"
  unfolding fire_transition_in_region_def Let_def
  by (intro safe_intros safe_fire safe_guard safe_transition_target safe_leave)
    (auto intro!: safe_move innermost_region_contains dest!: concurrent_regions_contains
      simp: innermost_active_region_def concurrent_regions_for_def simp del: concurrent_regions_from.simps innermost_region_from.simps)

lemma safe_fire_from: "safe (fire_from eng g source tr)"
  unfolding fire_from_def by (intro safe_intros safe_fire_in_region safe_fire)

section \<open>Selecting and firing\<close>

lemma trigger_arguments_error: "trigger_arguments tr ev = Inl x \<Longrightarrow> \<not> bad x"
  by (auto simp: trigger_arguments_def call_arguments_def bad_message split: option.splits event_trigger.splits
      if_splits payload.splits)

lemma safe_bind: "safe (bind_arguments tr ev)"
  unfolding bind_arguments_def
  by (intro safe_intros) (auto intro!: safe_core maintains_throw dest: trigger_arguments_error)

lemma safe_first_enabled: "safe (first_enabled eng g ev trs)"
  by (induction trs)
    (simp_all only: first_enabled.simps,
      auto intro!: safe_intros safe_bind safe_guard maintains_finally_do simp del: prog_simps intro: same_core)

lemma safe_offer: "(\<And>s. safe (enabled s)) \<Longrightarrow> safe (offer_from g enabled chain)"
  by (induction chain) (simp_all only: offer_from.simps, auto intro!: safe_intros simp del: prog_simps)

lemma safe_select: "(\<And>s. safe (enabled s)) \<Longrightarrow> safe (select_candidates g enabled)"
  unfolding select_candidates_def by (intro safe_intros safe_offer)

lemma safe_fire_candidates: "safe (fire_candidates eng g ev all cs consumed)"
  by (induction cs arbitrary: consumed)
    (simp_all only: fire_candidates.simps,
      auto intro!: safe_intros safe_bind safe_fire_from simp del: prog_simps)

lemma safe_broadcast: "safe (broadcast_event eng g ev)"
  unfolding broadcast_event_def select_transitions_def enabled_transition_def
  by (intro safe_intros safe_select safe_first_enabled safe_fire_candidates)

lemma safe_fire_timed: "safe (fire_timed eng g tr)"
  unfolding fire_timed_def
  by (cases "tr_source tr") (simp_all only: vertex.case, auto intro!: safe_intros safe_fire_from safe_fire simp del: prog_simps)

lemma safe_fire_edge: "safe (fire_edge eng g te)"
  unfolding fire_edge_def by (auto intro: safe_fire safe_message split: option.splits simp del: prog_simps)

section \<open>Do rounds and change polls\<close>

lemma safe_do_step: "safe (do_step eng g act k)"
  unfolding do_step_def
  by (intro safe_intros)
    (auto intro!: safe_intros safe_behavior safe_core simp del: block.simps prog_simps split: list.splits prod.splits)

lemma safe_do_round: "safe (run_do_round eng g)"
  unfolding run_do_round_def Let_def
  by (intro safe_intros safe_do_step)
    (auto intro!: safe_intros safe_completion safe_core simp del: block.simps prog_simps)

lemma safe_observe: "safe (observe_transition eng g source tr p)"
proof (cases "\<exists>c. tr_trigger tr = Some (ChangeTrigger c)")
  case True
  then obtain c where c: "tr_trigger tr = Some (ChangeTrigger c)" by blast
  have "safe (change_condition_holds eng c)"
    unfolding change_condition_holds_def by (intro safe_intros safe_eval)
  then show ?thesis
    unfolding observe_transition_def c option.case event_trigger.case Let_def
    by (intro safe_intros safe_guard safe_core) simp_all
next
  case False
  then show ?thesis
    by (cases "tr_trigger tr") (auto simp: observe_transition_def intro!: keeps_intros simp del: prog_simps split: event_trigger.splits)
qed

lemma safe_observe_all: "safe (observe_change_conditions eng g)"
  unfolding observe_change_conditions_def by (intro safe_intros safe_observe)

lemma safe_select_risen: "safe (select_risen g p)"
proof (rule maintainsI)
  fix m m' r
  assume P: "P m" and e: "select_risen g p m = (m', r)"
  have s: "safe (select_candidates g (risen_change_transition g p))"
    unfolding risen_change_transition_def by (intro safe_select safe_intros)
  obtain m1 r1 where 1: "select_candidates g (risen_change_transition g p) m = (m1, r1)" by force
  with maintains_at [OF s P] maintains_error [OF s P] e same_core [of "m1\<lparr>sm_waits := cp_waits p\<rparr>" m1]
  show "P m' \<and> (\<forall>x. r = Inl x \<longrightarrow> \<not> bad x)"
    by (auto simp: select_risen_def split: sum.splits)
qed

lemma safe_fire_risen: "safe (fire_risen eng g all cs p fired)"
proof (induction cs arbitrary: p fired)
  case Nil
  then show ?case by (simp only: fire_risen.simps maintains_give)
next
  case (Cons c cs)
  show ?case
    by (simp only: fire_risen.simps)
      (intro safe_intros safe_guard Cons.IH; auto intro!: safe_intros Cons.IH safe_core safe_fire_from maintains_finally_do
        intro: same_core simp del: block.simps prog_simps)
qed

end

section \<open>Invariants of a run\<close>

text \<open>An event off the queue that is being dispatched is one the machine may still defer.\<close>

definition hold_event ::
  "('t, 'e, 's, 'v) event \<Rightarrow> ('t, 'e, 's, 'v, 'c) machine \<Rightarrow> ('t, 'e, 's, 'v, 'c) machine" where
  "hold_event ev m = m\<lparr>sm_deferred := sm_deferred m @ [ev]\<rparr>"

lemma core_hold: "core m' = core m \<Longrightarrow> core (hold_event ev m') = core (hold_event ev m)"
  by (simp add: core_def hold_event_def)

lemma hold_commutes:
  "hold_event ev (set_region r s m) = set_region r s (hold_event ev m)"
  "hold_event ev (clear_region r m) = clear_region r (hold_event ev m)"
  "hold_event ev (m\<lparr>sm_regions := rs\<rparr>) = (hold_event ev m)\<lparr>sm_regions := rs\<rparr>"
  "hold_event ev (record_region_history g r s m) = record_region_history g r s (hold_event ev m)"
  "hold_event ev (forget_region_history g r m) = forget_region_history g r (hold_event ev m)"
  "hold_event ev (record_child_history g s m) = record_child_history g s (hold_event ev m)"
  "hold_event ev (push_fresh ty ts pl m) = push_fresh ty ts pl (hold_event ev m)"
  "hold_event ev (arm_timer tr ts m) = arm_timer tr ts (hold_event ev m)"
  "hold_event ev (drop_timers g s m) = drop_timers g s (hold_event ev m)"
  by (auto simp: hold_event_def set_region_def clear_region_def record_region_history_def
      forget_region_history_def record_child_history_def history_of_def push_fresh_def arm_timer_def drop_timers_def
      Let_def split: option.splits)

lemma hold_keeps [simp]:
  "active_in (hold_event ev m) r = active_in m r" "sm_history (hold_event ev m) = sm_history m"
  "sm_time (hold_event ev m) = sm_time m" "sm_timers (hold_event ev m) = sm_timers m"
  by (simp_all add: hold_event_def active_in_def)

locale machine_invariant = config_invariant +
  assumes take_timer: "P m \<Longrightarrow> sm_queue m \<noteq> [] \<Longrightarrow> ev_type (peek_event (sm_queue m)) = EventTime
      \<Longrightarrow> ev_payload (peek_event (sm_queue m)) = LowerTransition tr \<Longrightarrow> P (disarm tr (take_next m))"
    and take_edge: "P m \<Longrightarrow> sm_queue m \<noteq> [] \<Longrightarrow> ev_type (peek_event (sm_queue m)) = EventTime
      \<Longrightarrow> (\<And>tr. ev_payload (peek_event (sm_queue m)) \<noteq> LowerTransition tr) \<Longrightarrow> P (take_next m)"
    and take_pool: "P m \<Longrightarrow> sm_queue m \<noteq> [] \<Longrightarrow> ev_type (peek_event (sm_queue m)) \<noteq> EventTime
      \<Longrightarrow> P (hold_event (peek_event (sm_queue m)) (take_next m))"
    and release: "P (hold_event ev m) \<Longrightarrow> P m"
    and recall: "P m \<Longrightarrow> P (recall_deferred_events g m)"
    and arrive: "P m \<Longrightarrow> ty = EventAccept \<and> (\<exists>msg. pl = MessagePayload msg) \<or> ty = EventCall \<and> (\<exists>call. pl = CallPayload call)
      \<Longrightarrow> P (push_fresh ty (sm_time m) pl m)"
    and bad_limits: "\<not> bad (ErrDoStepLimitExceeded k)" "\<not> bad (ErrStateEventLimitExceeded k)"

sublocale machine_invariant \<subseteq> held: config_invariant g eng "\<lambda>m. P (hold_event ev m)" okr bad for ev
  by unfold_locales
    (auto simp: hold_commutes wf contained bad_message
      intro: same_core [OF core_hold] set_region clear_region no_regions record_region forget_region record_child
        drop_timers completion [where m = "hold_event _ _", simplified] timer [where m = "hold_event _ _", simplified]
      dest: active_ok [where m = "hold_event _ _", simplified] history_ok [where m = "hold_event _ _", simplified]
        history_child [where m = "hold_event _ _", simplified]
        bad_wrapped bad_eval bad_duration bad_run bad_nesting)

text \<open>A do round counts the actions it ran.\<close>

lemma fold_do_step_mono: "fold_each (do_step eng g) acts k m = (m', Inr k') \<Longrightarrow> k \<le> k'"
proof (induction acts arbitrary: k m)
  case (Cons act acts)
  obtain i s where act: "act = (i, s)" by force
  from Cons.prems obtain m1 k1 where 1: "do_step eng g act k m = (m1, Inr k1)" "fold_each (do_step eng g) acts k1 m1 = (m', Inr k')"
    by (auto simp: then_do_Inr)
  have "k \<le> k1"
    using 1(1) act by (auto simp: do_step_def then_do_Inr split: list.splits)
  with Cons.IH [OF 1(2)] show ?case by simp
qed simp

lemma do_round_nonneg: "run_do_round eng g m = (m', Inr k) \<Longrightarrow> 0 \<le> k"
  using fold_do_step_mono [where k = 0]
  by (auto simp: run_do_round_def then_do_Inr Let_def split: if_splits simp del: block.simps)

context machine_invariant
begin

lemma take_next_pool: "P m \<Longrightarrow> sm_queue m \<noteq> [] \<Longrightarrow> ev_type (peek_event (sm_queue m)) \<noteq> EventTime \<Longrightarrow> P (take_next m)"
  by (rule release) (rule take_pool)

lemma safe_recall: "safe (update (recall_deferred_events g))"
  by (rule maintains_update) (rule recall)

lemma safe_dispatch:
  assumes "P m" "sm_queue m \<noteq> []" "ev = peek_event (sm_queue m)"
    and d: "dispatch_event eng g ev (take_next m) = (m', r)"
  shows "P m' \<and> (\<forall>x. r = Inl x \<longrightarrow> \<not> bad x)"
proof (cases "ev_type ev = EventTime")
  case timed: True
  show ?thesis
  proof (cases "\<exists>tr. ev_payload ev = LowerTransition tr")
    case True
    then obtain tr where tr: "ev_payload ev = LowerTransition tr" by blast
    have "block [fire_timed eng g tr] (disarm tr (take_next m)) = (m', r)"
      using d timed tr by (simp only: dispatch_event_def simp_thms if_True payload.case block_update)
    moreover have s: "safe (block [fire_timed eng g tr])"
      by (rule maintains_block) (simp only: list.pred_inject safe_fire_timed simp_thms)
    moreover have P1: "P (disarm tr (take_next m))"
      by (rule take_timer [OF assms(1,2)]) (use timed tr assms(3) in simp_all)
    ultimately show ?thesis using maintains_at [OF s P1] maintains_error [OF s P1] by blast
  next
    case False
    then have P1: "P (take_next m)" using take_edge assms timed by blast
    have "safe (dispatch_event eng g ev)"
      using timed False safe_fire_edge
      by (cases "ev_payload ev") (simp_all add: dispatch_event_def safe_message del: prog_simps)
    from maintains_at [OF this P1 d] maintains_error [OF this P1] d show ?thesis by blast
  qed
next
  case False
  have P1: "P (hold_event ev (take_next m))" using take_pool assms False by blast
  obtain m1 r1 where b: "broadcast_event eng g ev (take_next m) = (m1, r1)" by force
  have m1: "P (hold_event ev m1)" by (rule maintains_at [OF held.safe_broadcast P1 b])
  show ?thesis
  proof (cases r1)
    case (Inl x)
    with b d False have "m' = m1" "r = Inl x" by (auto simp: dispatch_event_def)
    with m1 release maintains_error [OF held.safe_broadcast P1] b Inl show ?thesis by blast
  next
    case (Inr consumed)
    with b d False have "m' = (if \<not> consumed \<and> defers_event g m1 ev then hold_event ev m1 else m1)" "r = Inr ()"
      by (auto simp: dispatch_event_def hold_event_def)
    with m1 release show ?thesis by auto
  qed
qed

lemma safe_process_next: "safe (process_next_event eng g)"
proof (rule maintainsI)
  fix m m' r
  assume P: "P m" and e: "process_next_event eng g m = (m', r)"
  show "P m' \<and> (\<forall>x. r = Inl x \<longrightarrow> \<not> bad x)"
  proof (cases "sm_queue m = []")
    case True
    with e P bad_message show ?thesis by (auto simp: process_next_event_def queue_len_def)
  next
    case False
    obtain m1 r1 where d: "dispatch_event eng g (peek_event (sm_queue m)) (take_next m) = (m1, r1)" by force
    from safe_dispatch [OF P False refl d] have *: "P m1 \<and> (\<forall>x. r1 = Inl x \<longrightarrow> \<not> bad x)" .
    have "block [dispatch_event eng g (peek_event (sm_queue m)), update (recall_deferred_events g)] (take_next m) = (m', r)"
      using e False by (simp only: process_next_event_def queue_len_def prog_simps length_0_conv if_False block_update)
    with d * recall show ?thesis by (cases r1) auto
  qed
qed

lemma safe_poll: "safe (poll_change_events eng g)"
proof -
  have end_poll: "safe (then_do (block
               [update (\<lambda>m. if fired then recall_deferred_events g m else m),
                update (consume_rise p1),
                update (\<lambda>m. m\<lparr>sm_waits := ws\<rparr>)]) (\<lambda>_. give fired))" for fired p1 ws
  proof -
    have "safe (update (\<lambda>m. if fired then recall_deferred_events g m else m))"
      by (rule maintains_update) (simp add: recall)
    then show ?thesis by (auto intro!: safe_intros safe_core simp del: block.simps prog_simps)
  qed
  show ?thesis
    unfolding poll_change_events_def
    by (rule maintains_finally_do)
      (auto intro!: safe_intros safe_core safe_observe_all safe_select_risen safe_fire_risen end_poll
        intro: same_core simp del: block.simps prog_simps)
qed

lemma safe_nothing_due: "safe (nothing_due g b)"
proof (rule maintainsI)
  fix m m' r
  assume P: "P m" and e: "nothing_due g b m = (m', r)"
  show "P m' \<and> (\<forall>x. r = Inl x \<longrightarrow> \<not> bad x)"
  proof (cases "has_due_event b m")
    case True
    with P e show ?thesis by (auto simp: nothing_due_def)
  next
    case False
    obtain msg q where t: "take_message (acceptable_message g m) (rc_messages (sm_ctx m)) = (msg, q)" by force
    let ?m1 = "m\<lparr>sm_ctx := (sm_ctx m)\<lparr>rc_messages := q\<rparr>\<rparr>"
    have P1: "P ?m1" by (rule same_core [OF _ P]) simp
    have "P (push_fresh EventAccept (sm_time ?m1) (MessagePayload mg) ?m1)" for mg
      by (rule arrive [OF P1]) simp
    with P1 e False t show ?thesis
      by (cases msg) (auto simp: nothing_due_def deliver_pending_signal_def enqueue_signal_def)
  qed
qed

text \<open>
  The run: its bound counts down with every event taken and every do action performed, so it is
  never exhausted.
\<close>

lemma safe_run_from:
  assumes "bad ErrNesting \<Longrightarrow> nat (max_events - events) + nat (max_do - do_steps) < n"
  shows "safe (run_from eng g b max_events max_do n events do_steps)"
  using assms
proof (induction n arbitrary: events do_steps)
  case 0
  then have "\<not> bad ErrNesting" by auto
  then show ?case unfolding run_from.simps by (rule maintains_throw)
next
  case (Suc n)
  let ?run = "run_from eng g b max_events max_do n"
  have turn: "safe (then_do (wrapped (ErrIn ''poll change conditions'') (poll_change_events eng g)) (\<lambda>fired.
      if fired then (if events \<ge> max_events then throw (ErrStateEventLimitExceeded max_events) else ?run (events + 1) d)
      else then_do (nothing_due g b) (\<lambda>nothing.
        if nothing then (if executed > 0 then ?run events d else update (\<lambda>m. m\<lparr>sm_state := StateSuspended\<rparr>))
        else if events \<ge> max_events then throw (ErrStateEventLimitExceeded max_events)
        else then_do (wrapped (ErrIn ''process event'') (process_next_event eng g)) (\<lambda>_. ?run (events + 1) d))))"
    if d: "d = do_steps + executed" "0 \<le> executed" "d < max_do" for d executed
  proof -
    have event: "safe (?run (events + 1) d)" if "\<not> events \<ge> max_events"
      using Suc.prems d that by (intro Suc.IH) fastforce
    have do_action: "safe (?run events d)" if "executed > 0"
      using Suc.prems d that by (intro Suc.IH) fastforce
    show ?thesis
      by (intro safe_intros safe_poll safe_nothing_due safe_process_next event do_action safe_core maintains_throw bad_limits)
        simp_all
  qed
  show ?case
  proof (rule maintainsI)
    fix m m' r
    assume P: "P m" and e: "run_from eng g b max_events max_do (Suc n) events do_steps m = (m', r)"
    show "P m' \<and> (\<forall>x. r = Inl x \<longrightarrow> \<not> bad x)"
    proof (cases "sm_state m = StateRunning")
      case False
      with P e show ?thesis by auto
    next
      case True
      obtain m1 r1 where 1: "run_do_round eng g m = (m1, r1)" by force
      have P1: "P m1" by (rule maintains_at [OF safe_do_round P 1])
      show ?thesis
      proof (cases r1)
        case (Inl x)
        with True 1 P1 e maintains_error [OF safe_do_round P] show ?thesis by auto
      next
        case (Inr executed)
        show ?thesis
        proof (cases "do_steps + executed \<ge> max_do")
          case True
          with \<open>sm_state m = StateRunning\<close> 1 Inr P1 e bad_limits show ?thesis by (auto simp: Let_def)
        next
          case False
          have "0 \<le> executed" using do_round_nonneg 1 Inr by blast
          with False have s: "safe (then_do (wrapped (ErrIn ''poll change conditions'') (poll_change_events eng g)) (\<lambda>fired.
      if fired then (if events \<ge> max_events then throw (ErrStateEventLimitExceeded max_events)
        else ?run (events + 1) (do_steps + executed))
      else then_do (nothing_due g b) (\<lambda>nothing.
        if nothing then (if executed > 0 then ?run events (do_steps + executed)
          else update (\<lambda>m. m\<lparr>sm_state := StateSuspended\<rparr>))
        else if events \<ge> max_events then throw (ErrStateEventLimitExceeded max_events)
        else then_do (wrapped (ErrIn ''process event'') (process_next_event eng g))
          (\<lambda>_. ?run (events + 1) (do_steps + executed)))))" (is "safe ?rest")
            using turn by simp
          have "?rest m1 = (m', r)"
            using e \<open>sm_state m = StateRunning\<close> 1 False
            by (simp add: Inr Let_def del: block.simps)
          with maintains_at [OF s P1] maintains_error [OF s P1] show ?thesis by blast
        qed
      qed
    qed
  qed
qed

lemma safe_bracket: "safe p \<Longrightarrow> safe (bracket_machine eng p)"
  unfolding bracket_machine_def
  by (intro keeps_intros maintains_finally_do safe_core) (auto intro: same_core)

lemma safe_run: "safe (run_machine eng g b)"
  unfolding run_machine_def Let_def
  by (rule safe_bracket) (auto intro!: safe_intros safe_core safe_run_from simp del: block.simps prog_simps run_from.simps)

lemma safe_step: "safe (step_machine eng g)"
  unfolding step_machine_def
  by (intro safe_bracket safe_intros safe_do_round safe_poll safe_nothing_due safe_process_next)

lemma safe_initialize: "safe (initialize_machine eng g)"
  unfolding initialize_machine_def
  by (intro safe_bracket safe_intros)
    (auto intro!: safe_intros safe_set_current safe_enter_state safe_enter_regions_into safe_schedule safe_core
      simp del: block.simps prog_simps)

lemma send_ok: "P m \<Longrightarrow> P (send_signal signal args m)"
  by (simp add: send_signal_def enqueue_signal_def arrive)

lemma invoke_ok: "P m \<Longrightarrow> P (invoke_operation op args m)"
  by (simp add: invoke_operation_def arrive)

lemma resume_ok: "P m \<Longrightarrow> P (fst (resume_machine m))" "P m \<Longrightarrow> P (fst (suspend_machine m))"
  using same_core [of "m\<lparr>sm_state := StateRunning\<rparr>" m] same_core [of "m\<lparr>sm_state := StateSuspended\<rparr>" m]
  by (simp_all add: resume_machine_def suspend_machine_def)

end

section \<open>Machines a client can have\<close>

text \<open>
  What a driver can do with a machine: create and initialize it, run it, step it, send it signals
  and calls, suspend and resume it. Every one of these may fail; the machine goes on from there.
\<close>

inductive machine_reachable ::
  "('t::{linorder, zero}, 'e, 's, 'v, 'c) machine_engine \<Rightarrow> ('e, 's) state_graph
    \<Rightarrow> ('t, 'e, 's, 'v, 'c) machine \<Rightarrow> bool" for eng g where
  created: "new_state_executor eng g ctx self = (m, r) \<Longrightarrow> machine_reachable eng g m"
| traced: "machine_reachable eng g m \<Longrightarrow> machine_reachable eng g (m\<lparr>sm_trace := tc\<rparr>)"
| initialized: "machine_reachable eng g m \<Longrightarrow> initialize_machine eng g m = (m', r) \<Longrightarrow> machine_reachable eng g m'"
| executed: "machine_reachable eng g m \<Longrightarrow> run_machine eng g b m = (m', r) \<Longrightarrow> machine_reachable eng g m'"
| stepped: "machine_reachable eng g m \<Longrightarrow> step_machine eng g m = (m', r) \<Longrightarrow> machine_reachable eng g m'"
| done_round: "machine_reachable eng g m \<Longrightarrow> do_round_machine eng g m = (m', r2) \<Longrightarrow> machine_reachable eng g m'"
| polled: "machine_reachable eng g m \<Longrightarrow> poll_machine eng g m = (m', r3) \<Longrightarrow> machine_reachable eng g m'"
| signalled: "machine_reachable eng g m \<Longrightarrow> machine_reachable eng g (send_signal signal args m)"
| invoked: "machine_reachable eng g m \<Longrightarrow> machine_reachable eng g (invoke_operation op args m)"
| resumed: "machine_reachable eng g m \<Longrightarrow> machine_reachable eng g (fst (resume_machine m))"
| suspended: "machine_reachable eng g m \<Longrightarrow> machine_reachable eng g (fst (suspend_machine m))"

context machine_invariant
begin

lemma safe_attributes: "keeps P (initialize_machine_attributes eng g)"
proof -
  have "keeps P (eval_default eng ex)" for ex
  proof (rule maintainsI)
    fix m m' r
    assume P: "P m" and e: "eval_default eng ex m = (m', r)"
    obtain ctx r0 where "me_eval eng (sm_ctx m) (\<lambda>_. None) ex = (ctx, r0)" by force
    with e same_core [of "m\<lparr>sm_ctx := ctx\<rparr>" m] P show "P m' \<and> (\<forall>x. r = Inl x \<longrightarrow> \<not> False)"
      by (auto simp: eval_default_def)
  qed
  then show ?thesis
    unfolding initialize_machine_attributes_def
    by (auto intro!: keeps_intros maintains_wrapped maintains_update intro: same_core simp del: prog_simps)
qed

lemma reachable_invariant:
  assumes "machine_reachable eng g m" "\<And>ctx self. P (new_machine ctx self)"
  shows "P m"
  using assms(1)
proof (induction rule: machine_reachable.induct)
  case (created ctx self m r)
  then show ?case using maintains_at [OF safe_attributes assms(2)] by (auto simp: new_state_executor_def)
next
  case (traced m tc)
  then show ?case using same_core [of "m\<lparr>sm_trace := tc\<rparr>" m] by simp
next
  case (initialized m m' r)
  then show ?case using maintains_at [OF safe_initialize] by blast
next
  case (executed m b m' r)
  then show ?case using maintains_at [OF safe_run] by blast
next
  case (stepped m m' r)
  then show ?case using maintains_at [OF safe_step] by blast
next
  case (done_round m m' r)
  then show ?case using maintains_at [OF safe_bracket [OF safe_do_round]] by (auto simp: do_round_machine_def)
next
  case (polled m m' r)
  then show ?case using maintains_at [OF safe_bracket [OF safe_poll]] by (auto simp: poll_machine_def)
next
  case (signalled m signal args)
  then show ?case by (simp add: send_ok)
next
  case (invoked m op args)
  then show ?case by (simp add: invoke_ok)
next
  case (resumed m)
  then show ?case by (simp add: resume_ok)
next
  case (suspended m)
  then show ?case by (simp add: resume_ok)
qed

end

end
