(* ===== verification/State_Machine.thy ===== *)
theory State_Machine
  imports State_Invariants
begin

text \<open>
  The invariants of the state machine executor, each shown to be one the locale
  \<open>machine_invariant\<close> covers: active and recorded states lie in their regions (and no recursion
  exhausts its bound), event identities are unique and fresh, a running timer has exactly one
  event in the queue, and no event is due in the past.
\<close>

locale sound_machine =
  fixes g :: "('e, 's) state_graph"
    and eng :: "('t::{linorder, zero}, 'e, 's, 'v, 'c) machine_engine"
  assumes sound: "wf_graph g"

section \<open>States stay inside their regions\<close>

definition inside_regions :: "('e, 's) state_graph \<Rightarrow> ('t, 'e, 's, 'v, 'c) machine \<Rightarrow> bool" where
  "inside_regions g m \<longleftrightarrow>
     branches_ok (region_contains g) (sm_regions m) \<and>
     (\<forall>s h. sm_history m s = Some h \<longrightarrow>
        branches_ok (region_contains g) (hr_regions h) \<and> (\<forall>c. hr_child h = Some c \<longrightarrow> sg_parent g c = Some s))"

text \<open>The engine never reports the model's own error.\<close>

definition engine_plain :: "('t, 'e, 's, 'v, 'c) machine_engine \<Rightarrow> bool" where
  "engine_plain eng \<longleftrightarrow>
     (\<forall>ctx fs ex ctx' x. me_eval eng ctx fs ex = (ctx', Inl x) \<longrightarrow> root_cause x \<noteq> ErrNesting) \<and>
     (\<forall>v x. me_duration eng v = Inl x \<longrightarrow> root_cause x \<noteq> ErrNesting) \<and>
     (\<forall>b ctx fs ctx' fs' x. me_run eng b ctx fs = (ctx', fs', Some x) \<longrightarrow> root_cause x \<noteq> ErrNesting)"

definition exhausted :: "('t, 'e, 's, 'v, 'c) machine_engine \<Rightarrow> machine_error \<Rightarrow> bool" where
  "exhausted eng x \<longleftrightarrow> engine_plain eng \<and> root_cause x = ErrNesting"

lemma inside_regions_core: "core m' = core m \<Longrightarrow> inside_regions g m \<Longrightarrow> inside_regions g m'"
  by (simp add: inside_regions_def core_def)

lemma inside_regions_queue [simp]:
  "inside_regions g (push_fresh ty ts pl m) = inside_regions g m"
  "inside_regions g (arm_timer tr ts m) = inside_regions g m"
  "inside_regions g (drop_timers g s m) = inside_regions g m"
  "inside_regions g (disarm tr m) = inside_regions g m"
  "inside_regions g (take_next m) = inside_regions g m"
  "inside_regions g (hold_event ev m) = inside_regions g m"
  "inside_regions g (recall_deferred_events g m) = inside_regions g m"
  by (auto simp: inside_regions_def push_fresh_def arm_timer_def drop_timers_def disarm_def take_next_def hold_event_def
      recall_deferred_events_def Let_def split: prod.splits)

lemma inside_regions_history:
  assumes "inside_regions g m" "branches_ok (region_contains g) (hr_regions h)"
    "\<And>c. hr_child h = Some c \<Longrightarrow> sg_parent g c = Some s"
  shows "inside_regions g (m\<lparr>sm_history := (sm_history m)(s \<mapsto> h)\<rparr>)"
  using assms by (auto simp: inside_regions_def)

lemma history_of_inside:
  assumes "inside_regions g m"
  shows "branches_ok (region_contains g) (hr_regions (history_of m s))"
    "hr_child (history_of m s) = Some c \<Longrightarrow> sg_parent g c = Some s"
  using assms by (auto simp: inside_regions_def history_of_def split: option.splits)

sublocale sound_machine \<subseteq> inside: machine_invariant g eng "inside_regions g" "region_contains g" "exhausted eng"
proof (unfold_locales, goal_cases)
  case 1 show ?case by (rule sound)
next
  case (2 r s) then show ?case .
next
  case (3 m' m) then show ?case by (rule inside_regions_core)
next
  case (4 r s m) then show ?case by (simp add: inside_regions_def set_region_def branches_ok_update)
next
  case (5 m r) then show ?case by (simp add: inside_regions_def clear_region_def branches_ok_delete)
next
  case (6 m) then show ?case by (simp add: inside_regions_def)
next
  case (7 m r s) then show ?case by (auto simp: inside_regions_def active_in_def dest: branches_ok_lookup)
next
  case (8 m r s)
  then show ?case
    using history_of_inside [OF 8(1)]
    by (auto simp: record_region_history_def intro!: inside_regions_history branches_ok_update split: option.splits)
next
  case (9 m r)
  then show ?case
    by (auto simp: forget_region_history_def inside_regions_def intro!: branches_ok_delete split: option.splits)
next
  case (10 m s)
  then show ?case
    using history_of_inside [OF 10(1)]
    by (auto simp: record_child_history_def intro!: inside_regions_history split: option.splits)
next
  case (11 m s h) then show ?case by (simp add: inside_regions_def)
next
  case (12 m s h c r)
  then have "sg_parent g c = Some s" by (simp add: inside_regions_def)
  with 12(4) region_contains_below [OF sound] show ?case by (metis parent_chain_step self_in_parent_chain list.set_intros(2) sound)
qed (auto simp: exhausted_def engine_plain_def region_contains_def dest!: spec)

section \<open>Event identities are unique and fresh\<close>

definition pending_ids :: "('t, 'e, 's, 'v) event_queue \<Rightarrow> ('t, 'e, 's, 'v) event list \<Rightarrow> int multiset" where
  "pending_ids q d = image_mset ev_id (mset q + mset d)"

definition ids_fresh :: "('t::{linorder, zero}, 'e, 's, 'v, 'c) machine \<Rightarrow> bool" where
  "ids_fresh m \<longleftrightarrow> queue_reachable (sm_queue m) \<and>
     distinct (map ev_id (sm_queue m @ sm_deferred m)) \<and>
     (\<forall>ev \<in> set (sm_queue m @ sm_deferred m). ev_id ev < sm_next m)"

lemma distinct_count: "distinct xs \<longleftrightarrow> (\<forall>a. count (mset xs) a \<le> 1)"
proof (induction xs)
  case (Cons x xs)
  have "x \<notin> set xs \<longleftrightarrow> count (mset xs) x = 0" by (simp add: count_eq_zero_iff)
  with Cons show ?case by (auto simp: le_Suc_eq)
qed simp

lemma ids_fresh_iff:
  "ids_fresh m \<longleftrightarrow> queue_reachable (sm_queue m) \<and> (\<forall>i. count (pending_ids (sm_queue m) (sm_deferred m)) i \<le> 1)
    \<and> (\<forall>i \<in># pending_ids (sm_queue m) (sm_deferred m). i < sm_next m)"
  by (auto simp: ids_fresh_def distinct_count pending_ids_def)

lemma ids_fresh_sub:
  assumes "ids_fresh m" "queue_reachable (sm_queue m')" "sm_next m' = sm_next m"
    "pending_ids (sm_queue m') (sm_deferred m') \<subseteq># pending_ids (sm_queue m) (sm_deferred m)"
  shows "ids_fresh m'"
  unfolding ids_fresh_iff
proof (intro conjI allI ballI)
  show "queue_reachable (sm_queue m')" by fact
next
  fix i
  have "count (pending_ids (sm_queue m') (sm_deferred m')) i \<le> count (pending_ids (sm_queue m) (sm_deferred m)) i"
    using assms(4) by (simp add: subseteq_mset_def)
  also have "\<dots> \<le> 1" using assms(1) by (simp add: ids_fresh_iff)
  finally show "count (pending_ids (sm_queue m') (sm_deferred m')) i \<le> 1" .
next
  fix i
  assume "i \<in># pending_ids (sm_queue m') (sm_deferred m')"
  then have "i \<in># pending_ids (sm_queue m) (sm_deferred m)" using assms(4) by (metis mset_subset_eqD)
  with assms(1,3) show "i < sm_next m'" by (simp add: ids_fresh_iff)
qed

lemma ids_fresh_push: "ids_fresh m \<Longrightarrow> ids_fresh (push_fresh ty ts pl m)"
proof -
  assume f: "ids_fresh m"
  then have "sm_next m \<notin># pending_ids (sm_queue m) (sm_deferred m)" by (auto simp: ids_fresh_iff)
  then have "count (pending_ids (sm_queue m) (sm_deferred m)) (sm_next m) = 0" by (simp add: not_in_iff)
  with f show ?thesis
    by (auto simp: ids_fresh_iff push_fresh_def pending_ids_def mset_push less_imp_le intro: queue_reachable.pushed)
qed

lemma reachable_after_recall:
  "queue_reachable q \<Longrightarrow> queue_reachable (fold (\<lambda>ev q. push_event (ev\<lparr>ev_time := t\<rparr>) q) evs q)"
  by (induction evs arbitrary: q) (simp_all add: queue_reachable.pushed)

lemma mset_after_recall:
  "mset (fold (\<lambda>ev q. push_event (ev\<lparr>ev_time := t\<rparr>) q) evs q) = mset q + mset (map (\<lambda>ev. ev\<lparr>ev_time := t\<rparr>) evs)"
  by (induction evs arbitrary: q) (simp_all add: mset_push)

lemma set_after_recall:
  "set (fold (\<lambda>ev q. push_event (ev\<lparr>ev_time := t\<rparr>) q) evs q) = set q \<union> (\<lambda>ev. ev\<lparr>ev_time := t\<rparr>) ` set evs"
  by (induction evs arbitrary: q) auto

lemma pending_ids_recall:
  "pending_ids (sm_queue (recall_deferred_events g m)) (sm_deferred (recall_deferred_events g m))
    = pending_ids (sm_queue m) (sm_deferred m)"
proof -
  let ?D = "defers_event g m"
  have "image_mset ev_id (mset (sm_deferred m)) = image_mset ev_id {#ev \<in># mset (sm_deferred m). \<not> ?D ev#}
      + image_mset ev_id (filter_mset ?D (mset (sm_deferred m)))"
    using arg_cong [OF multiset_partition [of "mset (sm_deferred m)" ?D], of "image_mset ev_id"]
    by (simp only: image_mset_union add.commute)
  then show ?thesis
    by (simp add: pending_ids_def recall_deferred_events_def mset_after_recall image_mset.compositionality comp_def)
qed

lemma ids_fresh_core: "core m' = core m \<Longrightarrow> ids_fresh m \<Longrightarrow> ids_fresh m'"
  by (simp add: ids_fresh_def core_def)

lemma ids_fresh_config [simp]:
  "ids_fresh (set_region r s m) = ids_fresh m"
  "ids_fresh (clear_region r m) = ids_fresh m"
  "ids_fresh (m\<lparr>sm_regions := rs\<rparr>) = ids_fresh m"
  "ids_fresh (record_region_history g r s m) = ids_fresh m"
  "ids_fresh (forget_region_history g r m) = ids_fresh m"
  "ids_fresh (record_child_history g s m) = ids_fresh m"
  "ids_fresh (disarm tr m) = ids_fresh m"
  by (auto simp: ids_fresh_def set_region_def clear_region_def record_region_history_def forget_region_history_def
      record_child_history_def disarm_def split: option.splits)

text \<open>An event taken off the queue, held or not.\<close>

lemma take_next_queue:
  assumes "queue_reachable (sm_queue m)" "sm_queue m \<noteq> []"
  shows "queue_reachable (sm_queue (take_next m))"
    "mset (sm_queue m) = add_mset (peek_event (sm_queue m)) (mset (sm_queue (take_next m)))"
    "sm_time (take_next m) = ev_time (peek_event (sm_queue m))"
    "sm_deferred (take_next m) = sm_deferred m" "sm_next (take_next m) = sm_next m"
    "sm_timers (take_next m) = sm_timers m"
  using queue_reachable.popped [OF assms(1)] mset_pop [OF assms] pop_is_peek [OF assms(1)]
  by (cases "pop_event (sm_queue m)"; simp add: take_next_def)+

lemma ids_fresh_take:
  assumes "ids_fresh m" "sm_queue m \<noteq> []"
  shows "ids_fresh (take_next m)" "ids_fresh (hold_event (peek_event (sm_queue m)) (take_next m))"
proof -
  have q: "queue_reachable (sm_queue m)" using assms(1) by (simp add: ids_fresh_def)
  note t = take_next_queue [OF q assms(2)]
  show "ids_fresh (take_next m)"
    by (rule ids_fresh_sub [OF assms(1)]) (simp_all add: t pending_ids_def)
  show "ids_fresh (hold_event (peek_event (sm_queue m)) (take_next m))"
    by (rule ids_fresh_sub [OF assms(1)]) (simp_all add: t pending_ids_def hold_event_def)
qed

lemma ids_fresh_drop:
  assumes "ids_fresh m"
  shows "ids_fresh (drop_timers g s m)"
  using assms by (intro ids_fresh_sub [OF assms])
    (auto simp: drop_timers_def Let_def ids_fresh_def pending_ids_def mset_withdraw
      intro!: queue_reachable.withdrawn image_mset_subseteq_mono)

sublocale sound_machine \<subseteq> ids: machine_invariant g eng ids_fresh "\<lambda>_ _. True" "\<lambda>_. False"
proof (unfold_locales, goal_cases)
  case 1 show ?case by (rule sound)
next
  case (3 m' m) then show ?case by (rule ids_fresh_core)
next
  case (14 m tr ex absolute s v d)
  then have "ids_fresh (push_fresh EventTime (expiry eng absolute d (sm_time m)) (LowerTransition tr) m)"
    by (simp add: ids_fresh_push)
  then show ?case by (simp add: arm_timer_def ids_fresh_def)
next
  case (22 m tr) then show ?case by (simp add: ids_fresh_take)
next
  case (23 m) then show ?case by (simp add: ids_fresh_take)
next
  case (24 m) then show ?case by (simp add: ids_fresh_take)
next
  case (25 ev m)
  have q: "queue_reachable (sm_queue m)" using 25 by (simp add: ids_fresh_def hold_event_def)
  show ?case by (rule ids_fresh_sub [OF 25]) (simp_all add: q hold_event_def pending_ids_def)
next
  case (26 m)
  have q: "queue_reachable (sm_queue m)" using 26 by (simp add: ids_fresh_def)
  show ?case
  proof (rule ids_fresh_sub [OF 26])
    show "queue_reachable (sm_queue (recall_deferred_events g m))"
      unfolding recall_deferred_events_def Let_def using reachable_after_recall [OF q] by simp
    show "sm_next (recall_deferred_events g m) = sm_next m" by (simp add: recall_deferred_events_def Let_def)
  qed (simp add: pending_ids_recall)
qed (auto simp: branches_ok_def ids_fresh_push intro: ids_fresh_drop)

section \<open>A running timer has exactly one event\<close>

definition timer_events :: "('e, 's) transition \<Rightarrow> ('t, 'e, 's, 'v) event_queue \<Rightarrow> nat" where
  "timer_events tr q = size (filter_mset (carries_one_of {tr_id tr}) (mset q))"

definition timers_exact :: "('e, 's) state_graph \<Rightarrow> ('t::{linorder, zero}, 'e, 's, 'v, 'c) machine \<Rightarrow> bool" where
  "timers_exact g m \<longleftrightarrow> queue_reachable (sm_queue m) \<and>
     (\<forall>ev \<in> set (sm_queue m). \<forall>tr. ev_payload ev = LowerTransition tr \<longrightarrow>
        ev_type ev = EventTime \<and> tr \<in> set (sg_out g (tr_source tr))) \<and>
     (\<forall>ev \<in> set (sm_deferred m). \<forall>tr. ev_payload ev \<noteq> LowerTransition tr) \<and>
     (\<forall>s. \<forall>tr \<in> set (sg_out g (StateV s)). is_time_trigger tr \<longrightarrow>
        timer_events tr (sm_queue m) = (if tr_id tr \<in> sm_timers m then 1 else 0))"

lemma timers_exact_core: "core m' = core m \<Longrightarrow> timers_exact g m \<Longrightarrow> timers_exact g m'"
  by (simp add: timers_exact_def core_def)

lemma timers_exact_config [simp]:
  "timers_exact g (set_region r s m) = timers_exact g m"
  "timers_exact g (clear_region r m) = timers_exact g m"
  "timers_exact g (m\<lparr>sm_regions := rs\<rparr>) = timers_exact g m"
  "timers_exact g (record_region_history g r s m) = timers_exact g m"
  "timers_exact g (forget_region_history g r m) = timers_exact g m"
  "timers_exact g (record_child_history g s m) = timers_exact g m"
  by (auto simp: timers_exact_def set_region_def clear_region_def record_region_history_def forget_region_history_def
      record_child_history_def split: option.splits)

text \<open>Pushing an event that carries no transition, or a completion transition, starts no timer.\<close>

lemma timer_events_push:
  "timer_events tr (push_event ev q) = timer_events tr q + (if carries_one_of {tr_id tr} ev then 1 else 0)"
  by (simp add: timer_events_def mset_push)

lemma timers_exact_push:
  assumes "wf_graph g" "timers_exact g m"
    "\<And>tr. pl = LowerTransition tr \<Longrightarrow> ty = EventTime \<and> tr \<in> set (sg_out g (tr_source tr)) \<and> \<not> is_time_trigger tr"
  shows "timers_exact g (push_fresh ty ts pl m)"
proof -
  have "\<not> carries_one_of {tr_id tr} \<lparr>ev_id = sm_next m, ev_type = ty, ev_time = ts, ev_payload = pl\<rparr>"
    if "tr \<in> set (sg_out g (StateV s))" "is_time_trigger tr" for s tr
    using assms(3) that wf_identity [OF assms(1) _ that(1)]
    by (auto simp: carries_one_of_def split: payload.splits)
  with assms(2,3) show ?thesis
    by (auto simp: timers_exact_def push_fresh_def timer_events_push intro: queue_reachable.pushed)
qed

lemma timers_exact_arm:
  assumes "wf_graph g" "timers_exact g m" "is_time_trigger tr" "tr \<in> set (sg_out g (StateV s))" "tr_id tr \<notin> sm_timers m"
  shows "timers_exact g (arm_timer tr ts m)"
proof -
  let ?ev = "\<lparr>ev_id = sm_next m, ev_type = EventTime, ev_time = ts, ev_payload = LowerTransition tr\<rparr>"
  have src: "tr \<in> set (sg_out g (tr_source tr))" using wf_out_source [OF assms(1,4)] assms(4) by simp
  have "timer_events u (push_event ?ev (sm_queue m)) = (if tr_id u \<in> insert (tr_id tr) (sm_timers m) then 1 else 0)"
    if "u \<in> set (sg_out g (StateV s'))" "is_time_trigger u" for u s'
    using assms(2,5) that by (auto simp: timers_exact_def timer_events_push carries_one_of_def)
  with assms(2) src show ?thesis
    by (auto simp: timers_exact_def arm_timer_def push_fresh_def intro: queue_reachable.pushed)
qed

lemma timers_exact_drop:
  assumes "wf_graph g" "timers_exact g m"
  shows "timers_exact g (drop_timers g s m)"
proof -
  let ?out = "sg_out g (StateV s)"
  let ?timed = "tr_id ` set (filter is_time_trigger ?out)"
  let ?q = "withdraw (carries_one_of ?timed) (sm_queue m)"
  have count: "timer_events u ?q = (if tr_id u \<in> sm_timers m - tr_id ` set ?out then 1 else 0)"
    if u: "u \<in> set (sg_out g (StateV s'))" "is_time_trigger u" for u s'
  proof (cases "tr_id u \<in> tr_id ` set ?out")
    case True
    then obtain t where "t \<in> set ?out" "tr_id u = tr_id t" by auto
    with wf_identity [OF assms(1) u(1)] u have "u \<in> set (filter is_time_trigger ?out)" by auto
    then have "tr_id u \<in> ?timed" by blast
    then have none: "filter_mset (carries_one_of {tr_id u}) (filter_mset (\<lambda>e. \<not> carries_one_of ?timed e) M) = {#}" for M
      by (auto simp: filter_filter_mset carries_one_of_def filter_mset_eq_conv split: payload.splits)
    from True show ?thesis unfolding timer_events_def mset_withdraw none by simp
  next
    case False
    then have "x \<in> set ?out \<Longrightarrow> tr_id x \<noteq> tr_id u" for x by (metis imageI)
    then have all: "filter_mset (carries_one_of {tr_id u}) (filter_mset (\<lambda>e. \<not> carries_one_of ?timed e) M)
        = filter_mset (carries_one_of {tr_id u}) M" for M
      by (auto simp: filter_filter_mset carries_one_of_def intro!: filter_mset_cong split: payload.splits)
    have "timer_events u ?q = timer_events u (sm_queue m)" unfolding timer_events_def mset_withdraw all ..
    with False u assms(2) show ?thesis by (auto simp: timers_exact_def)
  qed
  show ?thesis
  proof (cases "?timed = {}")
    case False
    then show ?thesis
      using assms(2) count by (auto simp: timers_exact_def drop_timers_def Let_def intro: queue_reachable.withdrawn)
  next
    case True
    have "tr_id u \<notin> tr_id ` set ?out" if "u \<in> set (sg_out g (StateV s'))" "is_time_trigger u" for u s'
      using wf_identity [OF assms(1) that(1)] that True by (auto simp: filter_empty_conv)
    with True assms(2) show ?thesis by (auto simp: timers_exact_def drop_timers_def Let_def)
  qed
qed

lemma timer_events_take:
  assumes "queue_reachable (sm_queue m)" "sm_queue m \<noteq> []"
  shows "timer_events tr (sm_queue m) =
    timer_events tr (sm_queue (take_next m)) + (if carries_one_of {tr_id tr} (peek_event (sm_queue m)) then 1 else 0)"
  using take_next_queue(2) [OF assms] by (simp add: timer_events_def)

lemma timers_exact_take:
  assumes "wf_graph g" "timers_exact g m" "sm_queue m \<noteq> []"
  shows "ev_payload (peek_event (sm_queue m)) = LowerTransition tr \<Longrightarrow> timers_exact g (disarm tr (take_next m))"
    and "(\<And>tr. ev_payload (peek_event (sm_queue m)) \<noteq> LowerTransition tr) \<Longrightarrow>
      timers_exact g (take_next m) \<and> timers_exact g (hold_event (peek_event (sm_queue m)) (take_next m))"
proof -
  let ?ev = "peek_event (sm_queue m)"
  have q: "queue_reachable (sm_queue m)" using assms(2) by (simp add: timers_exact_def)
  note t = take_next_queue [OF q assms(3)] and te = timer_events_take [OF q assms(3)]
  have sub: "set (sm_queue (take_next m)) \<subseteq> set (sm_queue m)"
    using t(2) by (metis set_mset_add_mset_insert set_mset_mset subset_insertI)
  have in_q: "?ev \<in> set (sm_queue m)" using t(2) by (metis set_mset_add_mset_insert set_mset_mset insertI1)
  have rest: "queue_reachable (sm_queue (take_next m))"
    "\<forall>ev \<in> set (sm_queue (take_next m)). \<forall>tr. ev_payload ev = LowerTransition tr \<longrightarrow>
        ev_type ev = EventTime \<and> tr \<in> set (sg_out g (tr_source tr))"
    "\<forall>ev \<in> set (sm_deferred m). \<forall>tr. ev_payload ev \<noteq> LowerTransition tr"
    using t(1) sub assms(2) by (auto simp: timers_exact_def)
  show "timers_exact g (disarm tr (take_next m))" if p: "ev_payload ?ev = LowerTransition tr"
  proof -
    have "tr \<in> set (sg_out g (tr_source tr))" using in_q assms(2) p by (auto simp: timers_exact_def)
    then have "timer_events u (sm_queue (take_next m)) = (if tr_id u \<in> sm_timers m - {tr_id tr} then 1 else 0)"
      if "u \<in> set (sg_out g (StateV s))" "is_time_trigger u" for u s
      using te [of u] that assms(2) p
      by (auto simp: timers_exact_def carries_one_of_def split: if_splits)
    with rest t show ?thesis by (auto simp: timers_exact_def disarm_def)
  qed
  show "timers_exact g (take_next m) \<and> timers_exact g (hold_event ?ev (take_next m))"
    if p: "\<And>tr. ev_payload ?ev \<noteq> LowerTransition tr"
  proof -
    have "timer_events u (sm_queue (take_next m)) = timer_events u (sm_queue m)" for u
      using te [of u] p by (auto simp: carries_one_of_def split: payload.splits if_splits)
    with rest t p assms(2) show ?thesis by (auto simp: timers_exact_def hold_event_def)
  qed
qed

lemma timers_exact_recall:
  assumes "timers_exact g m"
  shows "timers_exact g (recall_deferred_events g m)"
proof -
  have "timers_exact g (m\<lparr>sm_queue := fold (\<lambda>ev q. push_event (ev\<lparr>ev_time := now\<rparr>) q) evs (sm_queue m)\<rparr>)"
    if "timers_exact g m" "set evs \<subseteq> set (sm_deferred m)" for evs m now
    using that
  proof (induction evs arbitrary: m)
    case (Cons ev evs)
    have "timers_exact g (m\<lparr>sm_queue := push_event (ev\<lparr>ev_time := now\<rparr>) (sm_queue m)\<rparr>)"
      using Cons.prems by (auto simp: timers_exact_def timer_events_push carries_one_of_def
          intro: queue_reachable.pushed split: payload.splits)
    from Cons.IH [OF this] Cons.prems(2) show ?case by simp
  qed simp
  from this [OF assms, of "filter (\<lambda>ev. \<not> defers_event g m ev) (sm_deferred m)" "sm_time m"] assms show ?thesis
    by (auto simp: timers_exact_def recall_deferred_events_def Let_def)
qed

sublocale sound_machine \<subseteq> timers: machine_invariant g eng "timers_exact g" "\<lambda>_ _. True" "\<lambda>_. False"
proof (unfold_locales, goal_cases)
  case 1 show ?case by (rule sound)
next
  case (3 m' m) then show ?case by (rule timers_exact_core)
next
  case (13 m tr s)
  with wf_out_source [OF sound 13(3)] show ?case
    by (intro timers_exact_push [OF sound]) (auto simp: is_time_trigger_def)
next
  case (14 m tr ex absolute s v d)
  then show ?case by (intro timers_exact_arm [OF sound]) (auto simp: is_time_trigger_def)
next
  case (15 m s) then show ?case by (simp add: timers_exact_drop sound)
next
  case (22 m tr) then show ?case by (simp add: timers_exact_take sound)
next
  case (23 m) then show ?case using timers_exact_take(2) [OF sound 23(1,2)] by blast
next
  case (24 m)
  have "peek_event (sm_queue m) \<in> set (sm_queue m)"
    using 24 mset_pop [of "sm_queue m"] by (metis set_mset_add_mset_insert set_mset_mset insertI1 timers_exact_def)
  with 24 have "\<And>tr. ev_payload (peek_event (sm_queue m)) \<noteq> LowerTransition tr" by (auto simp: timers_exact_def)
  with timers_exact_take(2) [OF sound 24(1,2)] show ?case by blast
next
  case (25 ev m) then show ?case by (auto simp: timers_exact_def hold_event_def)
next
  case (26 m) then show ?case by (rule timers_exact_recall)
next
  case (27 m ty pl) then show ?case by (intro timers_exact_push [OF sound]) auto
qed (auto simp: branches_ok_def)

section \<open>No event is due in the past\<close>

text \<open>Waiting for a duration never ends before it began: durations are not negative.\<close>

definition never_rewinds :: "('t::linorder, 'e, 's, 'v, 'c) machine_engine \<Rightarrow> bool" where
  "never_rewinds eng \<longleftrightarrow> (\<forall>v d t. me_duration eng v = Inr d \<longrightarrow> t \<le> me_add eng t d)"

definition no_past ::
  "('t, 'e, 's, 'v, 'c) machine_engine \<Rightarrow> 't \<Rightarrow> ('t::{linorder, zero}, 'e, 's, 'v, 'c) machine \<Rightarrow> bool" where
  "no_past eng t0 m \<longleftrightarrow> never_rewinds eng \<and> queue_reachable (sm_queue m) \<and> t0 \<le> sm_time m
     \<and> (\<forall>ev \<in> set (sm_queue m). sm_time m \<le> ev_time ev)"

lemma no_past_core: "core m' = core m \<Longrightarrow> no_past eng t0 m \<Longrightarrow> no_past eng t0 m'"
  by (simp add: no_past_def core_def)

lemma no_past_config [simp]:
  "no_past eng t0 (set_region r s m) = no_past eng t0 m"
  "no_past eng t0 (clear_region r m) = no_past eng t0 m"
  "no_past eng t0 (m\<lparr>sm_regions := rs\<rparr>) = no_past eng t0 m"
  "no_past eng t0 (record_region_history g r s m) = no_past eng t0 m"
  "no_past eng t0 (forget_region_history g r m) = no_past eng t0 m"
  "no_past eng t0 (record_child_history g s m) = no_past eng t0 m"
  "no_past eng t0 (hold_event ev m) = no_past eng t0 m"
  "no_past eng t0 (disarm tr m) = no_past eng t0 m"
  by (auto simp: no_past_def set_region_def clear_region_def record_region_history_def forget_region_history_def
      record_child_history_def hold_event_def disarm_def split: option.splits)

lemma no_past_push: "no_past eng t0 m \<Longrightarrow> sm_time m \<le> ts \<Longrightarrow> no_past eng t0 (push_fresh ty ts pl m)"
  by (auto simp: no_past_def push_fresh_def intro: queue_reachable.pushed)

lemma no_past_take:
  assumes "no_past eng t0 m" "sm_queue m \<noteq> []"
  shows "no_past eng t0 (take_next m)"
proof -
  have q: "queue_reachable (sm_queue m)" using assms(1) by (simp add: no_past_def)
  note t = take_next_queue [OF q assms(2)]
  have "set (sm_queue m) = insert (peek_event (sm_queue m)) (set (sm_queue (take_next m)))"
    using t(2) by (metis set_mset_add_mset_insert set_mset_mset)
  moreover have "ev_time (peek_event (sm_queue m)) \<le> ev_time ev" if "ev \<in> set (sm_queue m)" for ev
    using next_earliest [OF q assms(2)] that by (auto simp: event_less_def split: if_splits)
  ultimately show ?thesis
    using assms(1) t(1,3) by (auto simp: no_past_def intro: order_trans)
qed

lemma no_past_recall: "no_past eng t0 m \<Longrightarrow> no_past eng t0 (recall_deferred_events g m)"
  by (auto simp: no_past_def recall_deferred_events_def Let_def reachable_after_recall set_after_recall)

lemma no_past_drop: "no_past eng t0 m \<Longrightarrow> no_past eng t0 (drop_timers g s m)"
  by (auto simp: no_past_def drop_timers_def Let_def intro: queue_reachable.withdrawn)

sublocale sound_machine \<subseteq> time: machine_invariant g eng "no_past eng t0" "\<lambda>_ _. True" "\<lambda>_. False" for t0
proof (unfold_locales, goal_cases)
  case 1 show ?case by (rule sound)
next
  case (3 m' m) then show ?case by (rule no_past_core)
next
  case (14 m tr ex absolute s v d)
  then have "sm_time m \<le> expiry eng absolute d (sm_time m)" by (simp add: expiry_def no_past_def never_rewinds_def)
  with 14 have "no_past eng t0 (push_fresh EventTime (expiry eng absolute d (sm_time m)) (LowerTransition tr) m)"
    by (intro no_past_push)
  then show ?case by (simp add: arm_timer_def no_past_def)
qed (auto simp: branches_ok_def no_past_push no_past_take no_past_drop no_past_recall)

section \<open>Only taking an event moves the clock\<close>

lemma clock_of_parts [simp]:
  "sm_time (record_region_history g r s m) = sm_time m"
  "sm_time (forget_region_history g r m) = sm_time m"
  "sm_time (record_child_history g s m) = sm_time m"
  "sm_time (set_region r s m) = sm_time m"
  "sm_time (clear_region r m) = sm_time m"
  "sm_time (push_fresh ty ts pl m) = sm_time m"
  "sm_time (arm_timer tr ts m) = sm_time m"
  "sm_time (drop_timers g s m) = sm_time m"
  "sm_time (disarm tr m) = sm_time m"
  "sm_time (hold_event ev m) = sm_time m"
  "sm_time (recall_deferred_events g m) = sm_time m"
  by (auto simp: record_region_history_def forget_region_history_def record_child_history_def set_region_def
      clear_region_def push_fresh_def arm_timer_def drop_timers_def disarm_def hold_event_def recall_deferred_events_def
      Let_def split: option.splits)

sublocale sound_machine \<subseteq> clock: config_invariant g eng "\<lambda>m. sm_time m = t" "\<lambda>_ _. True" "\<lambda>_. False" for t
  by unfold_locales (auto simp: sound core_def branches_ok_def)

context sound_machine
begin

lemma dispatch_keeps_clock: "keeps (\<lambda>m. sm_time m = t) (dispatch_event eng g ev)"
proof (cases "ev_type ev = EventTime")
  case False
  then show ?thesis
    unfolding dispatch_event_def
    by (auto intro!: clock.safe_intros clock.safe_broadcast maintains_update simp del: prog_simps)
next
  case timed: True
  show ?thesis
  proof (cases "ev_payload ev")
    case (LowerTransition tr)
    have "keeps (\<lambda>m. sm_time m = t) (block [update (disarm tr), fire_timed eng g tr])"
      by (rule maintains_block) (simp only: list.pred_inject clock.safe_fire_timed simp_thms, rule maintains_update, simp)
    with timed LowerTransition show ?thesis by (simp only: dispatch_event_def simp_thms if_True payload.case)
  next
    case (TransitionEdge te)
    with timed clock.safe_fire_edge show ?thesis by (simp only: dispatch_event_def simp_thms if_True payload.case)
  qed (use timed in \<open>simp_all add: dispatch_event_def clock.safe_message del: prog_simps\<close>)
qed

lemma process_next_clock:
  assumes "sm_queue m \<noteq> []" "process_next_event eng g m = (m', r)"
  shows "sm_time m' = sm_time (take_next m)"
proof -
  have step: "block [dispatch_event eng g (peek_event (sm_queue m)), update (recall_deferred_events g)] (take_next m) = (m', r)"
    using assms by (simp only: process_next_event_def queue_len_def prog_simps length_0_conv if_False block_update)
  have k: "keeps (\<lambda>m'. sm_time m' = sm_time (take_next m))
      (block [dispatch_event eng g (peek_event (sm_queue m)), update (recall_deferred_events g)])"
    by (intro maintains_block)
      (simp only: list.pred_inject dispatch_keeps_clock simp_thms, rule maintains_update, simp)
  show ?thesis by (rule maintains_at [OF k refl step])
qed

lemma empty_queue: "sm_queue (new_machine ctx self) = []" "queue_reachable []"
  using queue_reachable.new by (simp_all add: new_machine_def new_event_queue_def heap_init_def)

lemma reachable_ids: "machine_reachable eng g m \<Longrightarrow> ids_fresh m"
  by (erule ids.reachable_invariant) (simp add: ids_fresh_def empty_queue, simp add: new_machine_def)

lemma reachable_inside: "machine_reachable eng g m \<Longrightarrow> inside_regions g m"
  by (erule inside.reachable_invariant) (simp add: inside_regions_def new_machine_def)

lemma reachable_timers: "machine_reachable eng g m \<Longrightarrow> timers_exact g m"
  by (erule timers.reachable_invariant)
    (simp add: timers_exact_def empty_queue timer_events_def, simp add: new_machine_def)

lemma reachable_no_past: "never_rewinds eng \<Longrightarrow> machine_reachable eng g m \<Longrightarrow> no_past eng 0 m"
  by (erule time.reachable_invariant) (simp add: no_past_def empty_queue, simp add: new_machine_def)

lemma reachable_next_no_past:
  assumes "never_rewinds eng" "machine_reachable eng g m" "process_next_event eng g m = (m', r)"
  shows "sm_time m \<le> sm_time m'"
proof -
  have "no_past eng (sm_time m) m" using reachable_no_past [OF assms(1,2)] by (simp add: no_past_def)
  from maintains_at [OF time.safe_process_next this assms(3)] show ?thesis by (simp add: no_past_def)
qed

lemma run_not_exhausted:
  assumes "machine_reachable eng g m" "engine_plain eng"
  shows "run_machine eng g b m = (m', Inl x) \<Longrightarrow> root_cause x \<noteq> ErrNesting"
    and "step_machine eng g m = (m', Inl x) \<Longrightarrow> root_cause x \<noteq> ErrNesting"
    and "initialize_machine eng g m = (m', Inl x) \<Longrightarrow> root_cause x \<noteq> ErrNesting"
  using maintains_error [OF inside.safe_run reachable_inside [OF assms(1)]]
    maintains_error [OF inside.safe_step reachable_inside [OF assms(1)]]
    maintains_error [OF inside.safe_initialize reachable_inside [OF assms(1)]] assms(2)
  by (fastforce simp: exhausted_def)+

end

end
