(* ===== verification/State_Lowered.thy ===== *)
theory State_Lowered
  imports State_Lowering State_Machine
begin

text \<open>
  Every graph lowering builds is well formed: what the pass over the vertices keeps of the graph
  under construction, what registering regions and building transitions add, and the
  interpretation of the executor's locale on lowered machines.
\<close>

section \<open>The graph while vertices are collected\<close>

fun vertex_within :: "nat \<Rightarrow> nat \<Rightarrow> vertex \<Rightarrow> bool" where
  "vertex_within n p (StateV s) \<longleftrightarrow> s < n"
| "vertex_within n p (PseudoV q) \<longleftrightarrow> q < p"
| "vertex_within n p NoVertex \<longleftrightarrow> False"

lemma vertex_within_Suc: "vertex_within n p v \<Longrightarrow> vertex_within (Suc n) p v" "vertex_within n p v \<Longrightarrow> vertex_within n (Suc p) v"
  by (cases v; simp)+

definition vertices_ok :: "('x, 's) lowering \<Rightarrow> bool" where
  "vertices_ok g \<longleftrightarrow> (\<forall>d v. lw_vertex g d = Some v \<longrightarrow> vertex_within (length (sg_nodes g)) (length (sg_pseudos g)) v)"

definition regions_ok :: "('x, 's) lowering \<Rightarrow> bool" where
  "regions_ok g \<longleftrightarrow>
     (\<forall>r s. r \<in> set (lw_regions g s) \<longrightarrow> s < length (sg_nodes g) \<and> r < lw_next_region g \<and> r \<notin> set (sg_top g)) \<and>
     (\<forall>r \<in> set (sg_top g). r < lw_next_region g) \<and>
     (\<forall>r s s'. r \<in> set (lw_regions g s) \<longrightarrow> r \<in> set (lw_regions g s') \<longrightarrow> s = s')"

fun owned_in :: "(sid \<Rightarrow> rid list) \<Rightarrow> rid list \<Rightarrow> rid \<Rightarrow> sid option \<Rightarrow> bool" where
  "owned_in regions tops r (Some p) \<longleftrightarrow> r \<in> set (regions p)"
| "owned_in regions tops r None \<longleftrightarrow> r \<in> set tops"

abbreviation owned_by :: "('x, 's) lowering \<Rightarrow> rid \<Rightarrow> sid option \<Rightarrow> bool" where
  "owned_by g \<equiv> owned_in (lw_regions g) (sg_top g)"

definition states_ok :: "('x, 's) lowering \<Rightarrow> bool" where
  "states_ok g \<longleftrightarrow>
     (\<forall>s p. sg_parent g s = Some p \<longrightarrow> p < s \<and> s < length (sg_nodes g)) \<and>
     (\<forall>s r. sg_region_of g s = Some r \<longrightarrow> s < length (sg_nodes g) \<and> owned_by g r (sg_parent g s)) \<and>
     (\<forall>(r, s) \<in> set (sg_region_initials g). sg_region_of g s = Some r)"

definition untouched :: "('x, 's) lowering \<Rightarrow> bool" where
  "untouched g \<longleftrightarrow> sg_composite g = (\<lambda>_. None) \<and> sg_region_owner g = (\<lambda>_. None) \<and> sg_out g = (\<lambda>_. [])"

definition collecting :: "('x, 's) lowering \<Rightarrow> bool" where
  "collecting g \<longleftrightarrow> vertices_ok g \<and> regions_ok g \<and> states_ok g \<and> untouched g"

text \<open>What one graph under construction keeps of an earlier one.\<close>

definition extends :: "('x, 's) lowering \<Rightarrow> ('x, 's) lowering \<Rightarrow> bool" where
  "extends a b \<longleftrightarrow> length (sg_nodes a) \<le> length (sg_nodes b) \<and>
     (\<forall>s < length (sg_nodes a). sg_parent b s = sg_parent a s \<and> sg_region_of b s = sg_region_of a s) \<and>
     (\<forall>s. set (lw_regions a s) \<subseteq> set (lw_regions b s)) \<and> set (sg_top a) \<subseteq> set (sg_top b)"

lemma extends_refl [simp]: "extends a a"
  by (simp add: extends_def)

lemma extends_trans [trans]: "extends a b \<Longrightarrow> extends b c \<Longrightarrow> extends a c"
  unfolding extends_def by (fastforce simp: subset_iff)

lemma extends_length: "extends a b \<Longrightarrow> s < length (sg_nodes a) \<Longrightarrow> s < length (sg_nodes b)"
  by (simp add: extends_def)

lemma extends_owned: "extends a b \<Longrightarrow> owned_by a r owner \<Longrightarrow> owned_by b r owner"
  by (cases owner) (auto simp: extends_def)

lemma collecting_new: "collecting ((new_state_graph name sc)\<lparr>sg_attributes := atts\<rparr>)"
  by (simp add: collecting_def vertices_ok_def regions_ok_def states_ok_def untouched_def new_state_graph_def)

definition within :: "('x, 's) lowering \<Rightarrow> sid option \<Rightarrow> bool" where
  "within g owner \<longleftrightarrow> (case owner of None \<Rightarrow> True | Some p \<Rightarrow> p < length (sg_nodes g))"

lemma within_simps [simp]: "within g None" "within g (Some p) \<longleftrightarrow> p < length (sg_nodes g)"
  by (simp_all add: within_def)

lemma extends_within: "extends a b \<Longrightarrow> within a owner \<Longrightarrow> within b owner"
  by (cases owner) (auto simp: extends_def)

lemma unused_state:
  assumes "collecting g"
  shows "sg_parent g (length (sg_nodes g)) = None" "sg_region_of g (length (sg_nodes g)) = None"
    "lw_regions g (length (sg_nodes g)) = []"
proof -
  show "sg_parent g (length (sg_nodes g)) = None"
    using assms by (cases "sg_parent g (length (sg_nodes g))") (auto simp: collecting_def states_ok_def)
  show "sg_region_of g (length (sg_nodes g)) = None"
    using assms by (cases "sg_region_of g (length (sg_nodes g))") (auto simp: collecting_def states_ok_def)
  show "lw_regions g (length (sg_nodes g)) = []"
  proof -
    have "r \<notin> set (lw_regions g (length (sg_nodes g)))" for r
      using assms by (auto simp: collecting_def regions_ok_def)
    then show ?thesis by (metis list.set_intros(1) neq_Nil_conv)
  qed
qed

lemma add_state_ok:
  assumes "collecting g" "within g parent"
  shows "collecting (add_state env h parent sc g)" "extends g (add_state env h parent sc g)"
    "length (sg_nodes (add_state env h parent sc g)) = Suc (length (sg_nodes g))"
    "sg_parent (add_state env h parent sc g) (length (sg_nodes g)) = parent"
    "sg_region_of (add_state env h parent sc g) (length (sg_nodes g)) = None"
proof -
  let ?g = "add_state env h parent sc g"
  note fresh = unused_state [OF assms(1)]
  have "vertices_ok ?g"
    using assms(1) unfolding collecting_def vertices_ok_def add_state_def Let_def
    by (auto intro: vertex_within_Suc split: if_splits)
  moreover have "regions_ok ?g"
    using assms(1) unfolding collecting_def regions_ok_def add_state_def Let_def by (auto simp: less_Suc_eq)
  moreover have "states_ok ?g"
  proof -
    have ok: "states_ok g" using assms(1) by (simp add: collecting_def)
    then have used: "s < length (sg_nodes g)" if "sg_region_of g s = Some r" for s r using that by (auto simp: states_ok_def)
    have "owned_by ?g r (sg_parent ?g s)" "s < length (sg_nodes ?g)" if "sg_region_of ?g s = Some r" for r s
    proof -
      from that have r: "sg_region_of g s = Some r" by (simp add: add_state_def Let_def)
      with used have s: "s < length (sg_nodes g)" by blast
      then have "sg_parent ?g s = sg_parent g s" by (simp add: add_state_def Let_def)
      moreover have "owned_by ?g r (sg_parent g s) = owned_by g r (sg_parent g s)"
        by (simp add: add_state_def Let_def)
      ultimately show "owned_by ?g r (sg_parent ?g s)" using r ok by (simp add: states_ok_def)
      show "s < length (sg_nodes ?g)" using s by (simp add: add_state_def Let_def)
    qed
    with ok assms(2) show ?thesis by (auto simp: states_ok_def add_state_def Let_def less_Suc_eq split: if_splits)
  qed
  moreover have "untouched ?g" using assms(1) by (simp add: collecting_def untouched_def add_state_def Let_def)
  ultimately show "collecting ?g" by (simp add: collecting_def)
  show "extends g ?g" "length (sg_nodes ?g) = Suc (length (sg_nodes g))" "sg_parent ?g (length (sg_nodes g)) = parent"
    "sg_region_of ?g (length (sg_nodes g)) = None"
    using fresh by (simp_all add: extends_def add_state_def Let_def)
qed

lemma add_pseudostate_ok:
  assumes "collecting g"
  shows "collecting (add_pseudostate d k name owner g)" "extends g (add_pseudostate d k name owner g)"
proof -
  let ?g = "add_pseudostate d k name owner g"
  have same: "sg_parent ?g = sg_parent g" "sg_region_of ?g = sg_region_of g" "sg_region_initials ?g = sg_region_initials g"
      "sg_nodes ?g = sg_nodes g" "lw_regions ?g = lw_regions g" "sg_top ?g = sg_top g" "lw_next_region ?g = lw_next_region g"
      "sg_composite ?g = sg_composite g" "sg_region_owner ?g = sg_region_owner g" "sg_out ?g = sg_out g"
    by (simp_all add: add_pseudostate_def Let_def)
  have "states_ok ?g" "regions_ok ?g" "untouched ?g"
    using assms by (simp_all add: collecting_def states_ok_def regions_ok_def untouched_def same)
  moreover have "vertices_ok ?g"
    using assms unfolding collecting_def vertices_ok_def add_pseudostate_def Let_def
    by (auto intro: vertex_within_Suc split: if_splits)
  ultimately show "collecting ?g" by (simp add: collecting_def)
  show "extends g ?g" by (simp add: extends_def same)
qed

lemma open_region_ok:
  assumes "collecting g" "within g owner"
  shows "collecting (open_region name owner g)" "extends g (open_region name owner g)"
    "owned_by (open_region name owner g) (lw_next_region g) owner"
    "length (sg_nodes (open_region name owner g)) = length (sg_nodes g)"
proof -
  let ?g = "open_region name owner g"
  have bound: "r < lw_next_region g" if "r \<in> set (lw_regions g s) \<or> r \<in> set (sg_top g)" for r s
    using assms(1) that by (auto simp: collecting_def regions_ok_def)
  show ext: "extends g ?g" "owned_by ?g (lw_next_region g) owner" "length (sg_nodes ?g) = length (sg_nodes g)"
    by (auto simp: extends_def open_region_def Let_def split: option.splits)
  have same: "sg_parent ?g = sg_parent g" "sg_region_of ?g = sg_region_of g" "sg_region_initials ?g = sg_region_initials g"
      "sg_nodes ?g = sg_nodes g" "sg_pseudos ?g = sg_pseudos g" "lw_vertex ?g = lw_vertex g" "sg_composite ?g = sg_composite g"
      "sg_region_owner ?g = sg_region_owner g" "sg_out ?g = sg_out g"
    by (simp_all add: open_region_def Let_def split: option.splits)
  have "vertices_ok ?g" "untouched ?g"
    using assms(1) by (simp_all add: collecting_def vertices_ok_def untouched_def same)
  moreover have "regions_ok ?g"
  proof (cases owner)
    case None
    with assms(1) bound show ?thesis
      by (auto simp: collecting_def regions_ok_def open_region_def Let_def less_Suc_eq)
  next
    case (Some p)
    with assms bound show ?thesis
      by (auto simp: collecting_def regions_ok_def open_region_def Let_def less_Suc_eq split: if_splits)
  qed
  moreover have "states_ok ?g"
    using assms(1) extends_owned [OF ext(1)] by (auto simp: collecting_def states_ok_def same)
  ultimately show "collecting ?g" by (simp add: collecting_def)
qed

lemma mark_region_ok:
  assumes "collecting g" "s < length (sg_nodes g)" "sg_region_of g s = None" "owned_by g r (sg_parent g s)"
  shows "collecting (mark_region r s g)"
    "length (sg_nodes a) \<le> s \<Longrightarrow> extends a g \<Longrightarrow> extends a (mark_region r s g)"
proof -
  let ?g = "mark_region r s g"
  have parts: "sg_parent ?g = sg_parent g" "sg_nodes ?g = sg_nodes g" "lw_regions ?g = lw_regions g" "sg_top ?g = sg_top g"
    "lw_next_region ?g = lw_next_region g" "lw_vertex ?g = lw_vertex g" "sg_pseudos ?g = sg_pseudos g" "sg_out ?g = sg_out g"
    "sg_composite ?g = sg_composite g" "sg_region_owner ?g = sg_region_owner g" "sg_region_of ?g = (sg_region_of g)(s \<mapsto> r)"
    "set (sg_region_initials ?g) \<subseteq> insert (r, s) (set (sg_region_initials g))"
    by (auto simp: mark_region_def Let_def)
  then have same_owner: "owned_by ?g = owned_by g" by simp
  have "states_ok ?g"
    unfolding states_ok_def
  proof (intro conjI allI impI)
    fix t p
    assume "sg_parent ?g t = Some p"
    with assms(1) parts show "p < t" "t < length (sg_nodes ?g)" by (auto simp: collecting_def states_ok_def)
  next
    fix t q
    assume "sg_region_of ?g t = Some q"
    with assms parts same_owner show "t < length (sg_nodes ?g)" "owned_by ?g q (sg_parent ?g t)"
      by (auto simp: collecting_def states_ok_def split: if_splits)
  next
    show "\<forall>(q, t) \<in> set (sg_region_initials ?g). sg_region_of ?g t = Some q"
    proof clarify
      fix q t
      assume "(q, t) \<in> set (sg_region_initials ?g)"
      with parts(12) have "(q, t) = (r, s) \<or> (q, t) \<in> set (sg_region_initials g)" by blast
      then show "sg_region_of ?g t = Some q"
        using assms(1,3) parts(11) by (auto simp: collecting_def states_ok_def)
    qed
  qed
  moreover have "vertices_ok ?g" using assms(1) unfolding collecting_def vertices_ok_def parts by simp
  ultimately show "collecting ?g"
    using assms(1) parts by (simp add: collecting_def regions_ok_def untouched_def)
  show "length (sg_nodes a) \<le> s \<Longrightarrow> extends a g \<Longrightarrow> extends a ?g"
    using parts by (auto simp: extends_def)
qed

section \<open>The passes over the body\<close>

lemma collect_ok:
  fixes env :: "('q, 'b, 's) lowering_env" and g :: "('x, 's) lowering"
  shows
  "collect_states env h ss rs parent sc g = Inr g' \<Longrightarrow> collecting g \<Longrightarrow> within g parent
    \<Longrightarrow> collecting g' \<and> extends (add_state env h parent sc g) g'"
  "collect_substates env ms s sc g = Inr g' \<Longrightarrow> collecting g \<Longrightarrow> s < length (sg_nodes g) \<Longrightarrow> collecting g' \<and> extends g g'"
  "collect_regions env rs owner sc g = Inr g' \<Longrightarrow> collecting g \<Longrightarrow> within g owner
    \<Longrightarrow> collecting g' \<and> extends g g'"
  "collect_region_states env ms r owner sc g = Inr g' \<Longrightarrow> collecting g \<Longrightarrow> within g owner
    \<Longrightarrow> owned_by g r owner \<Longrightarrow> collecting g' \<and> extends g g'"
proof (induction env h ss rs parent sc g and env ms s sc g and env rs owner sc g and env ms r owner sc g
    arbitrary: g' and g' and g' and g' rule: collect_states_collect_substates_collect_regions_collect_region_states.induct)
  case (1 env h ss rs parent sc g)
  let ?a = "add_state env h parent sc g" and ?s = "length (sg_nodes g)"
  note added = add_state_ok [OF 1(4,5), of env h sc]
  from 1(3) obtain g1 where 2: "collect_substates env ss ?s sc ?a = Inr g1" "collect_regions env rs (Some ?s) sc g1 = Inr g'"
    by (auto simp: bind_res_Inr)
  with 1(1) [OF 2(1) added(1)] added(3) have 3: "collecting g1" "extends ?a g1" by simp_all
  then have "?s < length (sg_nodes g1)" using extends_length [OF 3(2), of ?s] added(3) by simp
  with 1(2) [OF 2(2) 3(1)] 3(2) show ?case by (auto intro: extends_trans)
next
  case (3 env h ss rs ms s sc g)
  let ?a = "add_state env h (Some s) (child_scope sc (sh_decl h)) g"
  note added = add_state_ok [OF 3(4), of "Some s" env h "child_scope sc (sh_decl h)"]
  from 3(3) obtain g1 where 2: "collect_states env h ss rs (Some s) (child_scope sc (sh_decl h)) g = Inr g1"
    "collect_substates env ms s sc g1 = Inr g'" by (auto simp: bind_res_Inr)
  with 3(1) [OF 2(1) 3(4)] 3(5) have 4: "collecting g1" "extends ?a g1" by simp_all
  with added(2) 3(5) have "extends g g1" by (auto intro: extends_trans)
  with 3(2) [OF 2(2) 4(1)] 3(5) show ?case by (auto intro: extends_trans extends_within extends_length)
next
  case (4 env d k name ms s sc g)
  note added = add_pseudostate_ok [OF 4(3), of d k name "Some s"]
  with 4(1) [OF _ added(1)] 4(2,4) show ?case by (auto intro: extends_trans extends_within extends_length)
next
  case (7 env d name ms rs owner sc g)
  note opened = open_region_ok [OF 7(4,5), of name]
  from 7(3) obtain g1 where 2: "collect_region_states env ms (lw_next_region g) owner (child_scope sc d) (open_region name owner g) = Inr g1"
    "collect_regions env rs owner sc g1 = Inr g'" by (auto simp: bind_res_Inr)
  with 7(1) [OF 2(1) opened(1)] opened(3) extends_within [OF opened(2) 7(5)] have 3: "collecting g1" "extends (open_region name owner g) g1" by simp_all
  have g1: "extends g g1" by (rule extends_trans [OF opened(2) 3(2)])
  with 7(2) [OF 2(2) 3(1)] 7(5) show ?case by (auto intro: extends_trans extends_within extends_length)
next
  case (9 env m ms r parent sc g)
  note run = 9(18) and ok = 9(19-21)
  show ?case
  proof (cases "state_of_member m")
    case None
    show ?thesis
    proof (cases "\<exists>d k name. m = PseudoM d k name")
      case True
      then obtain d k name where m: "m = PseudoM d k name" by blast
      note added = add_pseudostate_ok [OF ok(1), of d k name parent]
      have "collect_region_states env ms r parent sc (add_pseudostate d k name parent g) = Inr g'"
        using run None by (simp add: m)
      from 9(5) [OF None m this added(1) extends_within [OF added(2) ok(2)] extends_owned [OF added(2) ok(3)]] added(2)
      show ?thesis by (auto intro: extends_trans)
    next
      case False
      from run None False have rest: "collect_region_states env ms r parent sc g = Inr g'" by (cases m) auto
      have defers: "m \<noteq> DeferM ts" for ts using run None by auto
      show ?thesis
        by (rule body_member.exhaust [of m]) (erule 9(1-4,6-15) [OF None _ rest ok] | erule notE [OF defers] | (insert False, blast))+
    qed
  next
    case (Some x)
    obtain h ss rs where x: "x = (h, ss, rs)" by (cases x)
    let ?s = "length (sg_nodes g)" and ?a = "add_state env h parent (child_scope sc (sh_decl h)) g"
    from run Some x obtain g1 where 1: "collect_states env h ss rs parent (child_scope sc (sh_decl h)) g = Inr g1"
      and 2: "collect_region_states env ms r parent sc (mark_region r ?s g1) = Inr g'"
      by (auto simp: bind_res_Inr)
    note added = add_state_ok [OF ok(1,2), of env h "child_scope sc (sh_decl h)"]
    from 9(16) [OF Some x [symmetric] refl 1 ok(1,2)] have 3: "collecting g1" "extends ?a g1" by simp_all
    have "extends g g1" by (rule extends_trans [OF added(2) 3(2)])
    moreover have "?s < length (sg_nodes g1)" using extends_length [OF 3(2), of ?s] added(3) by simp
    moreover have "sg_parent g1 ?s = parent" "sg_region_of g1 ?s = None"
      using 3(2) added(3-5) by (simp_all add: extends_def)
    ultimately have 4: "collecting (mark_region r ?s g1)" "extends g (mark_region r ?s g1)"
      using mark_region_ok [OF 3(1), of ?s r] extends_owned [of g g1 r parent] ok(3) by simp_all
    from 9(17) [OF Some x [symmetric] refl 2 4(1) extends_within [OF 4(2) ok(2)] extends_owned [OF 4(2) ok(3)]] 4(2)
    show ?thesis by (auto intro: extends_trans)
  qed
qed simp_all

lemma collect_vertices_ok: "collect_vertices env ms sc g = Inr g' \<Longrightarrow> collecting g \<Longrightarrow> collecting g'"
proof (induction env ms sc g rule: collect_vertices.induct)
  case (2 env m ms sc g)
  from 2(2) obtain g1 where 1: "(case state_of_member m of
        Some (h, ss, rs) \<Rightarrow> collect_states env h ss rs None (child_scope sc (sh_decl h)) g
      | None \<Rightarrow> (case m of
             RegionM r \<Rightarrow> collect_regions env [r] None sc g
           | PseudoM d k name \<Rightarrow> Inr (add_pseudostate d k name None g)
           | DeferM _ \<Rightarrow> Inl ''defer must be declared inside a state, not in the state machine body''
           | _ \<Rightarrow> Inr g)) = Inr g1" (is "?step = _") and rest: "collect_vertices env ms sc g1 = Inr g'"
    by (auto simp: bind_res_Inr)
  have "collecting g1"
  proof (cases "state_of_member m")
    case None
    with 1 2(3) collect_ok(3) [of env _ None sc g g1] show ?thesis
      by (cases m) (auto simp del: collect_regions.simps intro: add_pseudostate_ok(1))
  next
    case (Some x)
    with 1 2(3) collect_ok(1) [of env _ _ _ None _ g g1] show ?thesis by (cases x) auto
  qed
  with 2(1) rest show ?case by blast
qed simp

lemma each_state_invariant:
  assumes "each_state f [i..<n] g = Inr g'" "i \<le> n" "Q i g"
    "\<And>k g g'. k < n \<Longrightarrow> Q k g \<Longrightarrow> f k g = Inr g' \<Longrightarrow> Q (Suc k) g'"
  shows "Q n g'"
  using assms(1-3)
proof (induction "n - i" arbitrary: i g)
  case (Suc d)
  then have "i < n" by simp
  then have "[i..<n] = i # [Suc i..<n]" by (simp add: upt_conv_Cons)
  with Suc.prems(1) obtain g1 where 1: "f i g = Inr g1" "each_state f [Suc i..<n] g1 = Inr g'" by (auto simp: bind_res_Inr)
  with Suc.hyps(1) [of "Suc i" g1] Suc.hyps(2) Suc.prems assms(4) [OF \<open>i < n\<close>] \<open>i < n\<close> show ?case by simp
qed simp

text \<open>The regions of the first \<open>k\<close> states are registered.\<close>

definition registered :: "nat \<Rightarrow> ('x, 's) lowering \<Rightarrow> bool" where
  "registered k g \<longleftrightarrow> vertices_ok g \<and> regions_ok g \<and> states_ok g \<and> sg_out g = (\<lambda>_. []) \<and>
     (\<forall>s. sg_composite g s = (if s < k \<and> lw_regions g s \<noteq> [] then Some (lw_regions g s) else None)) \<and>
     (\<forall>r s. sg_region_owner g r = Some s \<longleftrightarrow> s < k \<and> r \<in> set (lw_regions g s))"

lemma registered_none: "collecting g \<Longrightarrow> registered 0 g"
  by (simp add: collecting_def registered_def untouched_def)

lemma register_state_ok:
  assumes "registered k g" "register_state k g = Inr g'"
  shows "registered (Suc k) g' \<and> sg_nodes g' = sg_nodes g"
proof (cases "lw_regions g k = []")
  case True
  with assms show ?thesis by (auto simp: registered_def register_state_def less_Suc_eq)
next
  case False
  with assms(2) have g': "g' = g\<lparr>sg_composite := (sg_composite g)(k \<mapsto> lw_regions g k),
      sg_region_owner := (\<lambda>r. if r \<in> set (lw_regions g k) then Some k else sg_region_owner g r)\<rparr>"
    by (auto simp: register_state_def split: option.splits)
  have single: "s = s'" if "r \<in> set (lw_regions g s)" "r \<in> set (lw_regions g s')" for r s s'
    using assms(1) that by (auto simp: registered_def regions_ok_def)
  have "states_ok g'" "regions_ok g'"
    using assms(1) by (auto simp: registered_def states_ok_def regions_ok_def g')
  moreover have "vertices_ok g'" using assms(1) unfolding registered_def vertices_ok_def g' by simp
  ultimately show ?thesis
    using assms(1) False single by (auto simp: registered_def less_Suc_eq g')
qed

lemma deferred_ok: "registered n g \<Longrightarrow> collect_deferred k g = Inr g' \<Longrightarrow> registered n g' \<and> sg_nodes g' = sg_nodes g"
proof -
  assume "collect_deferred k g = Inr g'"
  then obtain ts where g': "g' = g\<lparr>sg_deferred := ts\<rparr>"
    by (auto simp: collect_deferred_def Let_def split: option.splits event_trigger.splits)
  assume "registered n g"
  then have "vertices_ok g'" "regions_ok g'" "states_ok g'"
    by (simp_all add: registered_def vertices_ok_def regions_ok_def states_ok_def g')
  with \<open>registered n g\<close> show "registered n g' \<and> sg_nodes g' = sg_nodes g" by (simp add: registered_def g')
qed

section \<open>Transitions\<close>

definition transitions_ok :: "('x, 's) lowering \<Rightarrow> bool" where
  "transitions_ok g \<longleftrightarrow> vertices_ok g \<and>
     (\<forall>v. \<forall>tr \<in> set (sg_out g v). tr_source tr = v \<and> tr_id tr < lw_next_transition g
        \<and> (\<forall>q. tr_target tr = PseudoV q \<longrightarrow> q < length (sg_pseudos g))) \<and>
     (\<forall>v w. \<forall>t \<in> set (sg_out g v). \<forall>u \<in> set (sg_out g w). tr_id t = tr_id u \<longrightarrow> t = u)"

text \<open>What the pass over the transitions leaves as it is.\<close>

definition frame where
  "frame g = (sg_nodes g, sg_parent g, sg_region_of g, sg_region_initials g, sg_composite g, sg_region_owner g, sg_top g)"

definition linking where
  "linking f g \<longleftrightarrow> transitions_ok g \<and> frame g = f"

lemma linking_designate: "linking f g \<Longrightarrow> linking f (designate_initial s g)"
  by (simp add: linking_def transitions_ok_def vertices_ok_def frame_def designate_initial_def)

lemma endpoint_ok:
  assumes "linking f g" "endpoint_vertex_or_error env sc g qn = Inr (Some (PseudoV q))"
  shows "q < length (sg_pseudos g)"
  using assms
  by (auto simp: linking_def transitions_ok_def vertices_ok_def endpoint_vertex_or_error_def split: option.splits)
    (metis vertex_within.simps(2))

lemma endpoint_vertex_ok: "linking f g \<Longrightarrow> endpoint_vertex env sc g qn = Some (PseudoV q) \<Longrightarrow> q < length (sg_pseudos g)"
  using endpoint_ok [of f g env sc qn q] by (auto simp: endpoint_vertex_def split: sum.splits)

lemma linking_add:
  assumes "linking f g" "\<And>q. target = PseudoV q \<Longrightarrow> q < length (sg_pseudos g)"
  shows "linking f (add_transition name source target trigger guard effect via g)"
proof -
  let ?tr = "\<lparr>tr_id = lw_next_transition g, tr_name = name, tr_source = source, tr_target = target,
            tr_trigger = trigger, tr_guard = guard, tr_effect = effect, tr_via = via\<rparr>"
  let ?g = "add_transition name source target trigger guard effect via g"
  have out: "sg_out ?g = (sg_out g)(source := sg_out g source @ [?tr])" by (simp add: add_transition_def)
  have old: "tr_source t = v" "tr_id t < lw_next_transition g" "\<And>q. tr_target t = PseudoV q \<Longrightarrow> q < length (sg_pseudos g)"
    if "t \<in> set (sg_out g v)" for t v
    using assms(1) that by (auto simp: linking_def transitions_ok_def)
  have single: "t = u" if "t \<in> set (sg_out g v)" "u \<in> set (sg_out g w)" "tr_id t = tr_id u" for t u v w
    using assms(1) that unfolding linking_def transitions_ok_def by blast
  have mem: "t \<in> set (sg_out ?g v) \<longleftrightarrow> t \<in> set (sg_out g v) \<or> v = source \<and> t = ?tr" for t v
    by (auto simp: out)
  have parts: "lw_next_transition ?g = Suc (lw_next_transition g)" "sg_pseudos ?g = sg_pseudos g" "frame ?g = frame g"
    by (simp_all add: add_transition_def frame_def)
  have "vertices_ok ?g"
    using assms(1) unfolding linking_def transitions_ok_def vertices_ok_def add_transition_def by simp
  moreover have "tr_source t = v \<and> tr_id t < lw_next_transition ?g \<and> (\<forall>q. tr_target t = PseudoV q \<longrightarrow> q < length (sg_pseudos ?g))"
    if "t \<in> set (sg_out ?g v)" for t v
    using that old [of t v] assms(2) unfolding mem parts by auto
  moreover have "t = u" if "t \<in> set (sg_out ?g v)" "u \<in> set (sg_out ?g w)" "tr_id t = tr_id u" for t u v w
    using that single [of t v u w] old(2) [of t v] old(2) [of u w] unfolding mem by auto
  ultimately have "transitions_ok ?g" unfolding transitions_ok_def by blast
  with assms(1) parts show ?thesis by (simp add: linking_def)
qed

lemma linking_completion:
  "linking f g \<Longrightarrow> linking f (completion_transition (endpoint_vertex env sc g s) (endpoint_vertex env sc g t) g)"
  by (auto simp: completion_transition_def split: option.splits intro: linking_add endpoint_vertex_ok)

lemma completion_none [simp]: "completion_transition None t g = g"
  by (simp add: completion_transition_def)

lemma linking_succession: "linking f g \<Longrightarrow> linking f (lower_succession env sc ds entry s t g)"
  by (auto simp: lower_succession_def Let_def split: option.splits intro: linking_designate linking_completion)

lemma linking_edge: "lower_transition_edge env sc s t trigger guard effect g = Inr g' \<Longrightarrow> linking f g \<Longrightarrow> linking f g'"
  by (auto simp: lower_transition_edge_def bind_res_Inr split: option.splits intro!: linking_add endpoint_ok)

lemma linking_member: "lower_transition_member env sc containing td g = Inr g' \<Longrightarrow> linking f g \<Longrightarrow> linking f g'"
  by (auto simp: lower_transition_member_def bind_res_Inr Let_def split: option.splits if_splits intro!: linking_add endpoint_ok)

lemma linking_transitions: "collect_transitions env here containing sc ms g = Inr g' \<Longrightarrow> linking f g \<Longrightarrow> linking f g'"
proof (induction env here containing sc ms g arbitrary: g' rule: collect_transitions.induct)
  case (2 env here containing sc m ms g)
  note run = 2(5) and ok = 2(6)
  have "\<exists>g1. linking f g1 \<and> collect_transitions env here containing sc ms g1 = Inr g'"
  proof (cases m)
    case (StateM h ss rs)
    with run 2(1) [OF refl StateM _ ok] show ?thesis by (auto simp: Let_def bind_res_Inr)
  next
    case (StateUsageM d name us)
    with run 2(2) [OF refl StateUsageM _ _ ok] ok show ?thesis by (auto simp: Let_def bind_res_Inr split: if_splits)
  next
    case (RegionM r)
    with run 2(3) [OF refl RegionM _ _ ok] show ?thesis by (cases r) (auto simp: Let_def bind_res_Inr)
  next
    case (SuccessionUsageM ends)
    let ?after = "case ends of [Some q, Some q'] \<Rightarrow> lower_succession env sc (here \<union> (case containing of Some (_, ds) \<Rightarrow> ds | None \<Rightarrow> {}))
        False (Some q) (Some q') g | _ \<Rightarrow> g"
    have "linking f ?after" using ok by (auto split: list.split option.split intro: linking_succession)
    moreover have "collect_transitions env here containing sc ms ?after = Inr g'"
      using run by (auto simp: SuccessionUsageM Let_def split: list.splits option.splits)
    ultimately show ?thesis by blast
  next
    case (InitialM successor)
    with run ok show ?thesis
      by (auto simp: Let_def split: if_splits option.splits intro: linking_designate)
  next
    case (SuccessionM source target entry)
    with run ok show ?thesis by (auto simp: Let_def intro: linking_succession)
  next
    case (EdgeM source target trigger guard effect)
    with run ok show ?thesis by (auto simp: Let_def bind_res_Inr intro: linking_edge)
  next
    case (TransitionM td)
    with run ok show ?thesis
      by (auto simp: Let_def bind_res_Inr split: if_splits option.splits intro: linking_member linking_designate)
  qed (use run ok in \<open>auto simp: Let_def\<close>)
  with 2(4) [OF refl] show ?case by blast
qed simp

section \<open>Lowered graphs are well formed\<close>

lemma lowered_wf:
  assumes "to_state_graph env name sc ms = Inr g"
  shows "wf_graph g"
proof -
  let ?g0 = "(new_state_graph name sc)\<lparr>sg_attributes := lower_attributes sc ms\<rparr>"
  from assms obtain g1 g2 g3 g4 g5 where
    1: "collect_vertices env ms sc ?g0 = Inr g1" and 2: "check_top_regions g1 = Inr g2"
    and 3: "each_state register_state [0..<length (sg_nodes g2)] g2 = Inr g3"
    and 4: "each_state collect_deferred [0..<length (sg_nodes g3)] g3 = Inr g4"
    and 5: "collect_transitions env (entry_actions env ms) None sc ms g4 = Inr g5"
    and g: "g = state_graph.truncate (if sg_top g5 = [] then g5\<lparr>sg_initial := select_initial g5\<rparr> else g5)"
    by (auto simp: to_state_graph_def bind_res_Inr)
  have "collecting g1" by (rule collect_vertices_ok [OF 1 collecting_new])
  moreover from 2 have "g2 = g1" by (auto simp: check_top_regions_def split: option.splits)
  ultimately have "registered 0 g2" using registered_none by simp
  let ?n = "length (sg_nodes g2)"
  have r3: "registered ?n g3 \<and> sg_nodes g3 = sg_nodes g2"
    by (rule each_state_invariant [OF 3, where Q = "\<lambda>k h. registered k h \<and> sg_nodes h = sg_nodes g2"])
      (use \<open>registered 0 g2\<close> register_state_ok in \<open>auto dest: register_state_ok\<close>)
  have r4: "registered ?n g4 \<and> sg_nodes g4 = sg_nodes g2"
    by (rule each_state_invariant [OF 4, where Q = "\<lambda>k h. registered ?n h \<and> sg_nodes h = sg_nodes g2"])
      (use r3 in \<open>auto dest: deferred_ok\<close>)
  then have "linking (frame g4) g4"
    by (simp add: linking_def transitions_ok_def registered_def)
  from linking_transitions [OF 5 this] have tr: "transitions_ok g5" and frame: "frame g5 = frame g4"
    by (simp_all add: linking_def)
  let ?t = "state_graph.truncate g5"
  have parts: "sg_nodes g = sg_nodes g5" "sg_parent g = sg_parent g5" "sg_region_of g = sg_region_of g5"
    "sg_region_initials g = sg_region_initials g5" "sg_composite g = sg_composite g5" "sg_region_owner g = sg_region_owner g5"
    "sg_top g = sg_top g5" "sg_out g = sg_out g5" "sg_pseudos g = sg_pseudos g5"
    by (auto simp: g state_graph.truncate_def)
  have same: "sg_nodes g5 = sg_nodes g4" "sg_parent g5 = sg_parent g4" "sg_region_of g5 = sg_region_of g4"
    "sg_region_initials g5 = sg_region_initials g4" "sg_composite g5 = sg_composite g4"
    "sg_region_owner g5 = sg_region_owner g4" "sg_top g5 = sg_top g4"
    using frame by (simp_all add: frame_def)
  have states: "states_ok g4" and regions: "regions_ok g4"
    and comp: "sg_composite g4 s = (if s < ?n \<and> lw_regions g4 s \<noteq> [] then Some (lw_regions g4 s) else None)"
    and own: "sg_region_owner g4 r = Some s \<longleftrightarrow> s < ?n \<and> r \<in> set (lw_regions g4 s)" for r s
    using r4 by (simp_all add: registered_def)
  have inside: "r \<in> set (lw_regions g4 s) \<Longrightarrow> s < ?n" for r s using regions r4 by (auto simp: regions_ok_def)
  show ?thesis
    unfolding wf_graph_def
  proof (intro conjI allI impI)
    fix s p
    assume "sg_parent g s = Some p"
    with states show "p < s" "s < length (sg_nodes g)" by (auto simp: parts same states_ok_def)
  next
    fix s r
    assume "sg_region_of g s = Some r"
    then have "owned_by g4 r (sg_parent g4 s)" using states by (simp add: parts same states_ok_def)
    then show "sg_region_owner g r = sg_parent g s"
    proof (cases "sg_parent g4 s")
      case None
      with \<open>owned_by g4 r (sg_parent g4 s)\<close> regions have "\<forall>p. r \<notin> set (lw_regions g4 p)" by (auto simp: regions_ok_def)
      with own None show ?thesis by (auto simp: parts same intro: ccontr)
    next
      case (Some p)
      with \<open>owned_by g4 r (sg_parent g4 s)\<close> own [of r p] inside show ?thesis by (simp add: parts same)
    qed
  next
    fix s r
    show "r \<in> set (regions_of g s) \<longleftrightarrow> sg_region_owner g r = Some s"
      using own [of r s] comp [of s] inside [of r s] by (simp add: regions_of_def parts same)
  next
    fix r
    assume "r \<in> set (sg_top g)"
    with regions have "\<forall>p. r \<notin> set (lw_regions g4 p)" by (auto simp: parts same regions_ok_def)
    with own show "sg_region_owner g r = None" by (auto simp: parts same intro: ccontr)
  next
    fix r s
    assume "map_of (sg_region_initials g) r = Some s"
    then have "(r, s) \<in> set (sg_region_initials g)" by (rule map_of_SomeD)
    with states show "sg_region_of g s = Some r" by (auto simp: parts same states_ok_def)
  next
    show "\<forall>tr \<in> set (sg_out g v). tr_source tr = v \<and> (\<forall>q. tr_target tr = PseudoV q \<longrightarrow> q < length (sg_pseudos g))" for v
      using tr by (auto simp: parts transitions_ok_def)
  next
    show "\<forall>t \<in> set (sg_out g v). \<forall>u \<in> set (sg_out g w). tr_id t = tr_id u \<longrightarrow> t = u" for v w
      using tr by (auto simp: parts transitions_ok_def)
  qed
qed

text \<open>
  The executor's locale on lowered machines: the graph of the body when it lowers, and the graph of
  an empty body when it does not.
\<close>

definition lowered_graph ::
  "('q, 'b, 's) lowering_env \<Rightarrow> string \<Rightarrow> scope \<Rightarrow> ('q, 'x, 'b) body_member list \<Rightarrow> ('x \<times> scope, 's) state_graph" where
  "lowered_graph env name sc ms =
     (case to_state_graph env name sc ms of
        Inr g \<Rightarrow> g
      | Inl _ \<Rightarrow> state_graph.truncate ((new_state_graph name sc) :: ('x, 's) lowering))"

lemma lowered_graph_wf: "wf_graph (lowered_graph env name sc ms)"
proof (cases "to_state_graph env name sc ms")
  case (Inl e)
  then show ?thesis
    by (simp add: lowered_graph_def wf_graph_def regions_of_def new_state_graph_def state_graph.truncate_def)
next
  case (Inr g)
  with lowered_wf [OF Inr] show ?thesis by (simp add: lowered_graph_def)
qed

interpretation lowered: sound_machine "lowered_graph env name sc ms" eng
  for env :: "('q, 'b, 's) lowering_env" and name sc and ms :: "('q, 'x, 'b) body_member list"
    and eng :: "('t::{linorder, zero}, 'x \<times> scope, 's, 'v, 'c) machine_engine"
  by unfold_locales (rule lowered_graph_wf)

section \<open>The start of a machine\<close>

text \<open>
  What the loop over the states keeps: the best state so far among the ones visited, by the depth
  of its chain's root, then by its own depth, then by its position.
\<close>

definition start_key :: "('x, 's) lowering \<Rightarrow> sid \<Rightarrow> int \<times> int" where
  "start_key g s = (state_depth g (chain_root g s), - state_depth g s)"

definition better_start :: "int \<times> int \<Rightarrow> int \<times> int \<Rightarrow> bool" where
  "better_start a b \<longleftrightarrow> fst a < fst b \<or> fst a = fst b \<and> snd a < snd b"

definition best_among :: "('x, 's) lowering \<Rightarrow> sid list \<Rightarrow> sid option \<times> int \<times> int \<Rightarrow> bool" where
  "best_among g ss best \<longleftrightarrow> (case best of
     (None, root, leaf) \<Rightarrow> (\<forall>t \<in> set ss. \<not> is_initial g t) \<and> root = 999999 \<and> leaf = - 1
   | (Some s, root, leaf) \<Rightarrow> s \<in> set ss \<and> is_initial g s \<and> start_key g s = (root, - leaf)
       \<and> (\<forall>t \<in> set ss. is_initial g t \<longrightarrow> better_start (start_key g s) (start_key g t) \<or> start_key g s = start_key g t \<and> s \<le> t))"

lemma climb_from_length: "length (climb_from up n s) \<le> Suc n"
  by (induction n arbitrary: s) (auto split: option.splits)

lemma state_depth_bounds: "0 \<le> state_depth g s" "state_depth g s \<le> int (length (sg_nodes g))"
proof -
  have "climb_from (sg_parent g) (length (sg_nodes g)) s \<noteq> []"
    by (cases "length (sg_nodes g)") simp_all
  then show "0 \<le> state_depth g s" by (cases "climb_from (sg_parent g) (length (sg_nodes g)) s") (simp_all add: state_depth_def)
  show "state_depth g s \<le> int (length (sg_nodes g))"
    using climb_from_length [of "sg_parent g" "length (sg_nodes g)" s] by (simp add: state_depth_def)
qed

lemma best_among_step:
  assumes "length (sg_nodes g) < 999999" "best_among g ss best" "\<forall>t \<in> set ss. t < s"
  shows "best_among g (ss @ [s]) (prefer_initial g s best)"
proof -
  obtain sel root leaf where fields: "best = (sel, root, leaf)" by (metis prod.exhaust)
  have "state_depth g (chain_root g s) < 999999" "0 \<le> state_depth g s"
    using assms(1) state_depth_bounds [of g "chain_root g s"] state_depth_bounds [of g s] by linarith+
  then show ?thesis
    using assms(2,3) unfolding best_among_def fields
    by (cases sel) (auto simp: prefer_initial_def Let_def start_key_def better_start_def ball_Un less_imp_le)
qed

lemma best_among_all:
  assumes "length (sg_nodes g) < 999999"
  shows "best_among g [0..<n] (fold (prefer_initial g) [0..<n] (None, 999999, - 1))"
proof (induction n)
  case (Suc n)
  from best_among_step [OF assms this, of n] show ?case by simp
qed (simp add: best_among_def)

end
