(* ===== verification/State_Example.thy ===== *)
theory State_Example
  imports State_Machine
begin

text \<open>
  A machine the witnesses run: \<open>Idle\<close> goes to the composite state \<open>Active\<close>, whose two regions start
  in \<open>A1\<close> and \<open>B1\<close> and are joined from \<open>A2\<close> and \<open>B2\<close> to the final state \<open>Done\<close>; \<open>pause\<close> leaves
  \<open>Active\<close>, \<open>resume\<close> restores it through a deep history; \<open>A1\<close> goes on to \<open>A2\<close> by itself after 5
  time units. Expressions, values and times are integers; the evaluator returns the expression.
\<close>

definition example_state :: "string \<Rightarrow> bool \<Rightarrow> state_node" where
  "example_state nm final = \<lparr>sn_name = nm, sn_final = final\<rparr>"

definition example_transition ::
  "tid \<Rightarrow> vertex \<Rightarrow> vertex \<Rightarrow> int event_trigger option \<Rightarrow> (int, nat) transition" where
  "example_transition k src tgt trig =
     \<lparr>tr_id = k, tr_name = [], tr_source = src, tr_target = tgt, tr_trigger = trig, tr_guard = None,
      tr_effect = [], tr_via = []\<rparr>"

definition on_signal :: "string \<Rightarrow> int event_trigger option" where
  "on_signal s = Some (AcceptTrigger [] s [])"

definition example_out :: "vertex \<Rightarrow> (int, nat) transition list" where
  "example_out v =
     (if v = StateV 0 then [example_transition 1 v (StateV 1) (on_signal ''go''),
                            example_transition 2 v (PseudoV 1) (on_signal ''resume'')]
      else if v = StateV 1 then [example_transition 3 v (StateV 0) (on_signal ''pause'')]
      else if v = StateV 2 then [example_transition 4 v (StateV 3) (on_signal ''a''),
                                 example_transition 5 v (StateV 3) (Some (TimeTrigger 5 False))]
      else if v = StateV 3 then [example_transition 6 v (PseudoV 0) None]
      else if v = StateV 4 then [example_transition 7 v (StateV 5) (on_signal ''b'')]
      else if v = StateV 5 then [example_transition 8 v (PseudoV 0) None]
      else if v = PseudoV 0 then [example_transition 9 v (StateV 6) None]
      else if v = PseudoV 1 then [example_transition 10 v (StateV 1) None]
      else [])"

definition example_machine_graph :: "(int, nat) state_graph" where
  "example_machine_graph =
     \<lparr>sg_machine = ''M'',
      sg_nodes = [example_state ''Idle'' False, example_state ''Active'' False, example_state ''A1'' False,
                  example_state ''A2'' False, example_state ''B1'' False, example_state ''B2'' False,
                  example_state ''Done'' True],
      sg_pseudos = [\<lparr>ps_kind = PseudostateJoin, ps_name = ''j''\<rparr>, \<lparr>ps_kind = PseudostateDeepHistory, ps_name = ''h''\<rparr>],
      sg_pseudo_owner = (\<lambda>p. if p = 1 then Some 1 else None),
      sg_out = example_out,
      sg_composite = (\<lambda>s. if s = 1 then Some [10, 11] else None),
      sg_region_initials = [(10, 2), (11, 4)],
      sg_region_name = (\<lambda>r. if r = 10 then ''left'' else ''right''),
      sg_parent = (\<lambda>s. if s = 2 \<or> s = 3 \<or> s = 4 \<or> s = 5 then Some 1 else None),
      sg_region_owner = (\<lambda>r. if r = 10 \<or> r = 11 then Some 1 else None),
      sg_region_of = (\<lambda>s. if s = 2 \<or> s = 3 then Some 10 else if s = 4 \<or> s = 5 then Some 11 else None),
      sg_deferred = (\<lambda>s. if s = 0 then [AcceptTrigger [] ''b'' []] else []),
      sg_top = [],
      sg_initial = Some 0,
      sg_behaviors = (\<lambda>s. \<lparr>bh_entry = [], bh_do = [], bh_exit = []\<rparr>),
      sg_attributes = []\<rparr>"

definition example_machine_engine :: "(int, int, nat, int, unit) machine_engine" where
  "example_machine_engine =
     \<lparr>me_eval = (\<lambda>ctx d ex. (ctx, Inr ex)), me_bool = (\<lambda>v. Some (v \<noteq> 0)),
      me_duration = (\<lambda>v. if v < 0 then Inl (ErrMachine ''negative'') else Inr v), me_add = (+),
      me_run = (\<lambda>b ctx d. (ctx, d, None)), me_reset = id, me_name = (\<lambda>_. [])\<rparr>"

definition example_context :: "(int, unit) rt_context" where
  "example_context =
     \<lparr>rc_messages = [], rc_steps = 0, rc_elements = 0, rc_run_depth = 0, rc_max_action_steps = 9,
      rc_max_state_events = 30, rc_max_do_steps = 9, rc_rest = ()\<rparr>"

lemma example_graph_wf: "wf_graph example_machine_graph"
proof -
  have source: "tr_source tr = v" "tr_target tr = PseudoV q \<Longrightarrow> q < 2" if "tr \<in> set (example_out v)" for tr v q
    using that by (auto simp: example_out_def example_transition_def split: if_splits)
  have ids: "t = u" if "t \<in> set (example_out v)" "u \<in> set (example_out w)" "tr_id t = tr_id u" for t u v w
    using that by (auto simp: example_out_def example_transition_def split: if_splits)
  show ?thesis
    unfolding wf_graph_def regions_of_def
    using source ids by (auto simp: example_machine_graph_def numeral_2_eq_2 split: if_splits)
qed

text \<open>The machine after it was created, initialized, and sent some signals one run at a time.\<close>

definition fresh_example :: "(int, int, nat, int, unit) machine" where
  "fresh_example = fst (initialize_machine example_machine_engine example_machine_graph
     (fst (new_state_executor example_machine_engine example_machine_graph example_context 0)))"

definition after_signal :: "(int, int, nat, int, unit) machine \<Rightarrow> string \<Rightarrow> (int, int, nat, int, unit) machine" where
  "after_signal m s = fst (run_machine example_machine_engine example_machine_graph True (send_signal s (\<lambda>_. None) m))"

lemma example_reachable:
  "machine_reachable example_machine_engine example_machine_graph fresh_example"
  "machine_reachable example_machine_engine example_machine_graph m \<Longrightarrow>
    machine_reachable example_machine_engine example_machine_graph (after_signal m s)"
  unfolding fresh_example_def after_signal_def
  by (metis machine_reachable.created machine_reachable.initialized prod.collapse)
    (metis machine_reachable.executed machine_reachable.signalled prod.collapse)

interpretation example: sound_machine example_machine_graph example_machine_engine
  by unfold_locales (rule example_graph_wf)

text \<open>
  A machine without regions: \<open>Outer\<close> holds \<open>Left\<close> with \<open>Inner\<close> in it, and \<open>Right\<close> with \<open>Leaf\<close> in it;
  \<open>Inner\<close> and \<open>Leaf\<close> have do behaviors.
\<close>

definition nested_graph :: "(int, nat) state_graph" where
  "nested_graph = example_machine_graph
     \<lparr>sg_nodes := [example_state ''Outer'' False, example_state ''Left'' False, example_state ''Inner'' False,
        example_state ''Right'' False, example_state ''Leaf'' False],
      sg_pseudos := [], sg_pseudo_owner := (\<lambda>_. None),
      sg_out := (\<lambda>v. if v = StateV 1 then [example_transition 1 v (StateV 4) (on_signal ''go'')] else []),
      sg_composite := (\<lambda>_. None), sg_region_initials := [], sg_region_owner := (\<lambda>_. None), sg_region_of := (\<lambda>_. None),
      sg_parent := (\<lambda>s. if s = 1 \<or> s = 3 then Some 0 else if s = 2 then Some 1 else if s = 4 then Some 3 else None),
      sg_deferred := (\<lambda>_. []), sg_initial := Some 2,
      sg_behaviors := (\<lambda>s. if s = 2 \<or> s = 4 then \<lparr>bh_entry = [], bh_do = [\<lparr>sb_name = ''work'', sb_body = [0]\<rparr>], bh_exit = []\<rparr>
        else \<lparr>bh_entry = [], bh_do = [], bh_exit = []\<rparr>)\<rparr>"

definition nested_machine :: "(int, int, nat, int, unit) machine" where
  "nested_machine = (fst (initialize_machine example_machine_engine nested_graph (new_machine example_context 0)))
     \<lparr>sm_trace := Some []\<rparr>"

lemma nested_graph_wf: "wf_graph nested_graph"
  by (auto simp: wf_graph_def nested_graph_def example_machine_graph_def example_transition_def regions_of_def split: if_splits)

definition signal_event :: "int \<Rightarrow> string \<Rightarrow> (int, int, nat, int) event" where
  "signal_event k s = \<lparr>ev_id = k, ev_type = EventAccept, ev_time = 0, ev_payload = MessagePayload
     \<lparr>m_signal = s, m_target = [], m_port = [], m_object = 0, m_delivery = DeliverAnyone, m_payload = \<lambda>_. None\<rparr>\<rparr>"

end
