(* ===== verification/Lowering_Properties.thy ===== *)
theory Lowering_Properties
  imports State_Lowered State_Example
begin

text \<open>
  The properties of lowering a state machine: the graph is well formed and the executor's
  invariants hold of it, and the state the machine starts in is the one the code means to choose.
\<close>

text \<open>
  C12. Lowering a state machine body either reports an error or builds a well-formed graph: parents
  point to earlier states, region ownership agrees with the regions the states list, initial states
  lie in their region, every transition leaves its source and enters a vertex of the graph, and
  transitions are told apart by their identity. So, whatever the body, in every machine a client
  can make of the graph the active states lie inside their regions.\<close>

theorem lowering_wf:
  assumes "to_state_graph env name sc ms = Inr g"
  shows "wf_graph g \<and> (machine_reachable eng g m \<longrightarrow> (\<forall>(r, s) \<in> set (sm_regions m). region_contains g r s))"
  using lowered.reachable_inside [of eng env name sc ms m] lowered_graph_wf [of env name sc ms] assms
  by (auto simp: lowered_graph_def inside_regions_def branches_ok_def)

text \<open>
  A body: the state \<open>a\<close> holds the initial state \<open>b\<close> in a region, a signal takes \<open>b\<close> to the
  final state \<open>c\<close>. Names resolve to the declaration they number.
\<close>

definition sample_env :: "(nat, nat, nat) lowering_env" where
  "sample_env =
     \<lparr>le_endpoint = (\<lambda>sc q. Some q), le_trigger_scope = (\<lambda>sc d. sc), le_behavior = (\<lambda>sc b. \<lparr>sb_name = [], sb_body = [b]\<rparr>),
      le_action = id, le_text = (\<lambda>q. ''q''), le_kind = (\<lambda>d. ''other'')\<rparr>"

definition sample_head :: "decl \<Rightarrow> string \<Rightarrow> bool \<Rightarrow> bool \<Rightarrow> (int, nat) state_head" where
  "sample_head d name ini fin = (plain_head d name)\<lparr>sh_initial := ini, sh_final := fin\<rparr>"

definition sample_body :: "(nat, int, nat) body_member list" where
  "sample_body =
     [StateM (sample_head 1 ''a'' True False) []
        [RegionD 2 ''r'' [StateM (sample_head 3 ''b'' True False) [] []]],
      StateM (sample_head 4 ''c'' False True) [] [],
      EdgeM (Some 3) (Some 4) (Some (RawReference ''go'')) None []]"

definition sample_scope :: scope where
  "sample_scope = Scope 0 []"

definition sample_graph :: "(int \<times> scope, nat) state_graph" where
  "sample_graph = lowered_graph sample_env ''m'' sample_scope sample_body"

definition sample_engine :: "(int, int \<times> scope, nat, int, unit) machine_engine" where
  "sample_engine =
     \<lparr>me_eval = (\<lambda>ctx d ex. (ctx, Inr (fst ex))), me_bool = (\<lambda>v. Some (v \<noteq> 0)), me_duration = Inr, me_add = (+),
      me_run = (\<lambda>b ctx d. (ctx, d, None)), me_reset = id, me_name = (\<lambda>_. [])\<rparr>"

definition sample_machine :: "(int, int \<times> scope, nat, int, unit) machine" where
  "sample_machine = fst (initialize_machine sample_engine sample_graph
     (fst (new_state_executor sample_engine sample_graph example_context 0)))"

lemma sample_lowers: "to_state_graph sample_env ''m'' sample_scope sample_body = Inr sample_graph"
proof -
  have "(case to_state_graph sample_env ''m'' sample_scope sample_body of Inr _ \<Rightarrow> True | Inl _ \<Rightarrow> False)" by code_simp
  then show ?thesis by (simp add: sample_graph_def lowered_graph_def split: sum.splits)
qed

theorem lowering_wf_witness:
  "wf_graph sample_graph \<and> sm_regions sample_machine = [(0, 1)]
    \<and> list_all (\<lambda>(r, s). region_contains sample_graph r s) (sm_regions sample_machine)"
proof (intro conjI)
  have "machine_reachable sample_engine sample_graph sample_machine"
    unfolding sample_machine_def by (metis machine_reachable.created machine_reachable.initialized prod.collapse)
  with lowering_wf [OF sample_lowers, of sample_engine sample_machine]
  show "wf_graph sample_graph" "list_all (\<lambda>(r, s). region_contains sample_graph r s) (sm_regions sample_machine)"
    by (simp_all add: list_all_iff)
  show "sm_regions sample_machine = [(0, 1)]" by code_simp
qed

text \<open>
  The machine starts in the state whose chain of initial states begins nearest the top, among
  those in the innermost one, and among those in the first declared; it starts in none only when no
  state is initial. The loop's starting bound of 999999 asks that the machine have fewer states.\<close>

theorem initial_selection:
  assumes "length (sg_nodes g) < 999999"
  shows "case select_initial g of
      None \<Rightarrow> list_all (\<lambda>t. \<not> is_initial g t) [0..<length (sg_nodes g)]
    | Some s \<Rightarrow> s < length (sg_nodes g) \<and> is_initial g s
        \<and> (\<forall>t < length (sg_nodes g). is_initial g t \<longrightarrow>
             (let key = \<lambda>u. (state_depth g (chain_root g u), - state_depth g u) in
              fst (key s) < fst (key t) \<or> fst (key s) = fst (key t) \<and> snd (key s) < snd (key t) \<or> key s = key t \<and> s \<le> t))"
proof -
  obtain sel root leaf where fold: "fold (prefer_initial g) [0..<length (sg_nodes g)] (None, 999999, - 1) = (sel, root, leaf)"
    by (metis prod.exhaust)
  from best_among_all [OF assms, of "length (sg_nodes g)"] show ?thesis
    unfolding fold by (cases sel)
      (auto simp: select_initial_def fold best_among_def start_key_def better_start_def list_all_iff Let_def)
qed

definition sample_lowering :: "(int, nat) lowering" where
  "sample_lowering = (case collect_vertices sample_env sample_body sample_scope (new_state_graph ''m'' sample_scope) of Inr g \<Rightarrow> g)"

theorem initial_selection_witness:
  "select_initial sample_lowering = Some 1 \<and> is_initial sample_lowering 0
    \<and> state_depth sample_lowering (chain_root sample_lowering 1) = state_depth sample_lowering (chain_root sample_lowering 0)
    \<and> state_depth sample_lowering 0 < state_depth sample_lowering 1"
proof -
  have n: "length (sg_nodes sample_lowering) = 3" by code_simp
  have sel: "select_initial sample_lowering = Some 1" by code_simp
  have "is_initial sample_lowering 0" by code_simp
  moreover have "chain_root sample_lowering 1 = 0" "chain_root sample_lowering 0 = 0" "is_initial sample_lowering 1"
    "state_depth sample_lowering 0 = 0" "state_depth sample_lowering 1 = 1" by code_simp+
  ultimately show ?thesis using initial_selection [of sample_lowering] n sel by (auto simp: Let_def)
qed

end
