(* ===== verification/State_Moves.thy ===== *)
theory State_Moves
  imports State_Machine
begin

text \<open>
  The observable effect of the executor's steps where behaviors and guards are opaque: what a
  transition of a machine without orthogonal regions leaves and enters, in which order, and what
  the selection of transitions computes when evaluating a guard changes nothing.
\<close>

section \<open>Leaving and entering states outside regions\<close>

text \<open>The states left and entered: all but the ancestors both ends share.\<close>

definition kept_states :: "('e, 's) state_graph \<Rightarrow> sid \<Rightarrow> sid \<Rightarrow> sid \<Rightarrow> sid set" where
  "kept_states g source current target =
     {a \<in> set (parent_chain g current) \<inter> set (parent_chain g target).
        encloses g source target \<longrightarrow> source \<notin> set (parent_chain g a)}"

definition ancestors_of :: "('e, 's) state_graph \<Rightarrow> sid option \<Rightarrow> sid set" where
  "ancestors_of g b = (case b of None \<Rightarrow> {} | Some a \<Rightarrow> set (parent_chain g a))"

lemma climb_filter:
  assumes "wf_graph g" "case stop of None \<Rightarrow> True | Some a \<Rightarrow> a \<in> set (parent_chain g s)"
  shows "climb g (Some s) stop = filter (\<lambda>x. x \<notin> ancestors_of g stop) (parent_chain g s)"
proof (cases stop)
  case None
  then show ?thesis by (simp add: climb_def ancestors_of_def)
next
  case (Some a)
  obtain below where b: "parent_chain g s = below @ parent_chain g a" "a \<notin> set below"
    using parent_chain_split [OF assms(1), of a s] assms(2) Some by auto
  have "set below \<inter> set (parent_chain g a) = {}" using distinct_parent_chain [OF assms(1), of s] b(1) by simp
  then have "filter (\<lambda>x. x \<notin> set (parent_chain g a)) (parent_chain g s) = below"
    using b(1) by (auto simp: filter_empty_conv intro!: filter_True)
  moreover have "takeWhile (\<lambda>x. Some x \<noteq> Some a) (parent_chain g s) = below"
  proof -
    obtain rest where "parent_chain g a = a # rest" using hd_parent_chain [of g a] by (cases "parent_chain g a") auto
    with b show ?thesis by (simp add: takeWhile_tail) (metis (mono_tags, lifting) takeWhile_append2 append.right_neutral takeWhile.simps(2))
  qed
  ultimately show ?thesis using Some by (simp add: climb_def ancestors_of_def)
qed

lemma boundary_keeps:
  assumes "wf_graph g" "tr_source tr = StateV source" "source \<in> set (parent_chain g current)"
  shows "ancestors_of g (boundary g tr target (get_lca g (Some current) (Some target))) = kept_states g source current target"
    (is "?A = ?K")
    and "case boundary g tr target (get_lca g (Some current) (Some target)) of None \<Rightarrow> True
      | Some a \<Rightarrow> a \<in> set (parent_chain g current) \<and> a \<in> set (parent_chain g target)"
proof -
  let ?b = "boundary g tr target (get_lca g (Some current) (Some target))"
  have both: "?A = ?K \<and> (case ?b of None \<Rightarrow> True
      | Some a \<Rightarrow> a \<in> set (parent_chain g current) \<and> a \<in> set (parent_chain g target))"
  proof (cases "encloses g source target")
    case False
    then have b: "?b = get_lca g (Some current) (Some target)" using assms(2) by (simp add: boundary_def)
    show ?thesis
    proof (cases "get_lca g (Some current) (Some target)")
      case None
      then have none: "?b = None" using b by simp
      from None False get_lca_None [of g current target] show ?thesis
        unfolding none by (simp add: ancestors_of_def kept_states_def)
    next
      case (Some a)
      then have bs: "?b = Some a" using b by simp
      from Some get_lca_Some [OF assms(1)] have a: "a \<in> set (parent_chain g current)" "a \<in> set (parent_chain g target)"
          "\<forall>d \<in> set (parent_chain g current) \<inter> set (parent_chain g target). d \<in> set (parent_chain g a)"
        by blast+
      then have "ancestors_of g (Some a) = ?K"
        using False ancestor_trans [OF assms(1)] by (auto simp: ancestors_of_def kept_states_def)
      with a show ?thesis unfolding bs by simp
    qed
  next
    case True
    then have st: "source \<in> set (parent_chain g target)" by (simp add: encloses_iff assms(1))
    have b: "?b = sg_parent g source" using True assms(2) by (simp add: boundary_def)
    have up: "a \<in> set (parent_chain g source)"
      if "a \<in> set (parent_chain g current)" "source \<notin> set (parent_chain g a)" for a
      using ancestor_linear [OF assms(1,3) that(1)] that(2) by blast
    show ?thesis
    proof (cases "sg_parent g source")
      case None
      then have "parent_chain g source = [source]" by (rule parent_chain_root [OF assms(1)])
      with True up have k: "?K = {}" by (fastforce simp: kept_states_def)
      have "?b = None" using None b by simp
      then show ?thesis unfolding k by (simp add: ancestors_of_def)
    next
      case (Some p)
      then have c: "parent_chain g source = source # parent_chain g p" by (rule parent_chain_step [OF assms(1)])
      then have p: "p \<in> set (parent_chain g source)" by simp
      have below: "source \<notin> set (parent_chain g a)" if "a \<in> set (parent_chain g p)" for a
        using ancestor_trans [OF assms(1) _ that] parent_chain_le [OF assms(1), of source p] wf_parent [OF assms(1) Some] that
        by (meson leD)
      have bs: "?b = Some p" using Some b by simp
      have "set (parent_chain g p) = ?K"
      proof
        show "set (parent_chain g p) \<subseteq> ?K"
          using below ancestor_trans [OF assms(1) _ assms(3)] ancestor_trans [OF assms(1) _ st]
            ancestor_trans [OF assms(1) _ p] by (auto simp: kept_states_def)
        show "?K \<subseteq> set (parent_chain g p)"
          using True up c by (fastforce simp: kept_states_def)
      qed
      with p assms(3) st ancestor_trans [OF assms(1) p] show ?thesis unfolding bs by (simp add: ancestors_of_def)
    qed
  qed
  then show "?A = ?K" "case ?b of None \<Rightarrow> True
      | Some a \<Rightarrow> a \<in> set (parent_chain g current) \<and> a \<in> set (parent_chain g target)" by auto
qed

section \<open>What a method does to the configuration\<close>

text \<open>
  The configuration and its records. \<open>tracks f p\<close>: when the method \<open>p\<close> returns without an error it
  has changed them by \<open>f\<close>, whatever the evaluator and the behaviors did in between.
\<close>

record observed =
  ob_simple :: "sid option"
  ob_regions :: "(rid \<times> sid) list"
  ob_trace :: "trace_record list option"
  ob_visits :: "string list"
  ob_do :: "sid list"

definition observe :: "('t, 'e, 's, 'v, 'c) machine \<Rightarrow> observed" where
  "observe m = \<lparr>ob_simple = sm_simple m, ob_regions = sm_regions m, ob_trace = sm_trace m, ob_visits = sm_visits m,
     ob_do = map da_state (sm_do m)\<rparr>"

lemma observe_ignores [simp]:
  "observe (m\<lparr>sm_ctx := ctx\<rparr>) = observe m"
  "observe (m\<lparr>sm_data := d\<rparr>) = observe m"
  "observe (m\<lparr>sm_queue := q\<rparr>) = observe m"
  "observe (m\<lparr>sm_next := n\<rparr>) = observe m"
  "observe (m\<lparr>sm_timers := ts\<rparr>) = observe m"
  "observe (m\<lparr>sm_history := h\<rparr>) = observe m"
  "observe (m\<lparr>sm_fired := fs\<rparr>) = observe m"
  "observe (m\<lparr>sm_rearmed := ra\<rparr>) = observe m"
  "observe (m\<lparr>sm_state := st\<rparr>) = observe m"
  "observe (m\<lparr>sm_stack := ss\<rparr>) = observe m"
  "observe (rearm_watches g s m) = observe m"
  by (simp_all add: observe_def rearm_watches_def Let_def)

lemma observe_queue [simp]:
  "observe (push_fresh ty ts' pl m) = observe m"
  "observe (arm_timer tr ts' m) = observe m"
  "observe (drop_timers g s m) = observe m"
  by (simp_all add: observe_def push_fresh_def arm_timer_def drop_timers_def Let_def)

definition tracks :: "(observed \<Rightarrow> observed) \<Rightarrow> ('t, 'e, 's, 'v, 'c, 'a) mprog \<Rightarrow> bool" where
  "tracks f p \<longleftrightarrow> (\<forall>m m' a. p m = (m', Inr a) \<longrightarrow> observe m' = f (observe m))"

named_theorems tracks_intros "the effect of the statements of a method on the configuration"

lemma tracksD: "tracks f p \<Longrightarrow> p m = (m', Inr a) \<Longrightarrow> observe m' = f (observe m)"
  by (simp add: tracks_def)

lemma tracks_give [tracks_intros]: "tracks id (give a)"
  by (simp add: tracks_def)

lemma tracks_throw [tracks_intros]: "tracks f (throw x)"
  by (simp add: tracks_def)

lemma tracks_update: "(\<And>m. observe (h m) = f (observe m)) \<Longrightarrow> tracks f (update h)"
  by (simp add: tracks_def)

lemma tracks_with_state [tracks_intros]: "(\<And>m. tracks f (k m)) \<Longrightarrow> tracks f (with_state k)"
  by (simp add: tracks_def)

lemma tracks_then_do: "tracks f p \<Longrightarrow> (\<And>a. tracks h (q a)) \<Longrightarrow> tracks (h \<circ> f) (then_do p q)"
  by (fastforce simp: tracks_def then_do_Inr)

lemma tracks_then_same [tracks_intros]: "tracks id p \<Longrightarrow> (\<And>a. tracks f (q a)) \<Longrightarrow> tracks f (then_do p q)"
  using tracks_then_do [of id p f q] by simp

lemma tracks_wrapped [tracks_intros]: "tracks f p \<Longrightarrow> tracks f (wrapped w p)"
  by (simp add: tracks_def)

lemma tracks_for_each: "(\<And>a. a \<in> set as \<Longrightarrow> tracks (f a) (p a)) \<Longrightarrow> tracks (fold f as) (for_each p as)"
proof (induction as)
  case Nil
  then show ?case by (simp add: tracks_def)
next
  case (Cons a as)
  then have "tracks (fold f as \<circ> f a) (then_do (p a) (\<lambda>_. for_each p as))"
    by (intro tracks_then_do) simp_all
  then show ?case by (simp add: comp_def)
qed

lemma fold_id: "fold (\<lambda>_. id) as = id"
  by (induction as) auto

lemma tracks_each_same [tracks_intros]: "(\<And>a. a \<in> set as \<Longrightarrow> tracks id (p a)) \<Longrightarrow> tracks id (for_each p as)"
  using tracks_for_each [of as "\<lambda>_. id" p] by (simp add: fold_id)

lemma tracks_block: "list_all2 tracks fs ps \<Longrightarrow> tracks (fold (\<lambda>f. f) fs) (block ps)"
proof (induction fs ps rule: list_all2_induct)
  case Nil
  then show ?case by (simp add: tracks_def)
next
  case (Cons f fs p ps)
  then have "tracks (fold (\<lambda>f. f) fs \<circ> f) (then_do p (\<lambda>_. block ps))" by (intro tracks_then_do) simp_all
  then show ?case by (simp add: comp_def)
qed

lemma tracks_block_same [tracks_intros]: "list_all (tracks id) ps \<Longrightarrow> tracks id (block ps)"
  by (induction ps) (auto intro: tracks_intros)

lemma tracks_option [tracks_intros]:
  "tracks f p \<Longrightarrow> (\<And>a. tracks f (h a)) \<Longrightarrow> tracks f (case x of None \<Rightarrow> p | Some a \<Rightarrow> h a)"
  by (cases x) auto

lemma tracks_if [tracks_intros]: "tracks f p \<Longrightarrow> tracks f q \<Longrightarrow> tracks f (if b then p else q)"
  by simp

section \<open>Evaluation, behaviors and scheduling leave it\<close>

lemma tracks_eval [tracks_intros]: "tracks id (eval_step eng ex)"
  by (auto simp: tracks_def eval_step_def split: prod.splits)

lemma tracks_behavior [tracks_intros]: "tracks id (execute_behavior eng b)"
  by (auto simp: tracks_def execute_behavior_def split: prod.splits option.splits if_splits)

lemma tracks_effect [tracks_intros]: "tracks id (run_effect eng tr)"
  unfolding run_effect_def by (intro tracks_intros)

lemma tracks_guard [tracks_intros]: "tracks id (passes_guard eng g tr)"
  unfolding passes_guard_def by (intro tracks_intros)

lemma tracks_same_update: "(\<And>m. observe (h m) = observe m) \<Longrightarrow> tracks id (update h)"
  by (simp add: tracks_def)

lemma tracks_completion [tracks_intros]: "tracks id (schedule_completion_transitions eng g s)"
  unfolding schedule_completion_transitions_def by (intro tracks_intros tracks_same_update) simp

lemma tracks_sum [tracks_intros]:
  "(\<And>a. tracks f (p a)) \<Longrightarrow> (\<And>b. tracks f (h b)) \<Longrightarrow> tracks f (case x of Inl a \<Rightarrow> p a | Inr b \<Rightarrow> h b)"
  by (cases x) auto

lemma tracks_time [tracks_intros]: "tracks id (schedule_time_transitions eng g s)"
proof -
  have "tracks id (case t of Some (TimeTrigger duration absolute) \<Rightarrow>
      then_do (wrapped w (eval_step eng duration)) (\<lambda>v. case me_duration eng v of Inl x \<Rightarrow> throw x
        | Inr d \<Rightarrow> update (\<lambda>m. arm_timer tr (expiry eng absolute d (sm_time m)) m)) | _ \<Rightarrow> give ())" for t w tr
    by (auto split: option.splits event_trigger.splits intro!: tracks_intros tracks_same_update)
  then show ?thesis unfolding schedule_time_transitions_def
    by (intro tracks_each_same tracks_with_state tracks_if tracks_give)
qed

lemma tracks_leaf [tracks_intros]: "tracks id (schedule_from_leaf eng g leaf)"
  unfolding schedule_from_leaf_def schedule_transitions_for_state_def
  by (simp add: tracks_intros del: block.simps)

lemma tracks_schedule [tracks_intros]: "tracks id (schedule_transition_events eng g)"
  unfolding schedule_transition_events_def by (intro tracks_intros)

section \<open>Entering and leaving outside regions\<close>

definition region_free :: "('e, 's) state_graph \<Rightarrow> bool" where
  "region_free g \<longleftrightarrow> (\<forall>s. sg_composite g s = None \<and> sg_region_of g s = None)"

definition entered :: "('e, 's) state_graph \<Rightarrow> sid \<Rightarrow> observed \<Rightarrow> observed" where
  "entered g s o1 = o1\<lparr>ob_simple := (if ob_regions o1 = [] then Some s else ob_simple o1),
     ob_trace := map_option (\<lambda>l. l @ [TraceEntry (state_name g s) (bh_entry (sg_behaviors g s) \<noteq> [])]) (ob_trace o1),
     ob_visits := ob_visits o1 @ [state_name g s],
     ob_do := (if bh_do (sg_behaviors g s) = [] then ob_do o1 else filter (\<lambda>a. a \<noteq> s) (ob_do o1) @ [s])\<rparr>"

definition left_behind :: "('e, 's) state_graph \<Rightarrow> sid \<Rightarrow> observed \<Rightarrow> observed" where
  "left_behind g s o1 = o1\<lparr>ob_simple := None,
     ob_trace := map_option (\<lambda>l. l @ [TraceExit (state_name g s) (bh_exit (sg_behaviors g s) \<noteq> [])]) (ob_trace o1),
     ob_do := filter (\<lambda>a. a \<noteq> s) (ob_do o1)\<rparr>"

lemma observe_steps:
  "observe (visit_state g s m) = (let o1 = observe m in o1\<lparr>
     ob_trace := map_option (\<lambda>l. l @ [TraceEntry (state_name g s) (bh_entry (sg_behaviors g s) \<noteq> [])]) (ob_trace o1),
     ob_visits := ob_visits o1 @ [state_name g s]\<rparr>)"
  "observe (record_trace r m) = (let o1 = observe m in o1\<lparr>ob_trace := map_option (\<lambda>l. l @ [r]) (ob_trace o1)\<rparr>)"
  "observe (m\<lparr>sm_simple := a\<rparr>) = (observe m)\<lparr>ob_simple := a\<rparr>"
  "observe (if sm_regions m = [] then m\<lparr>sm_simple := a\<rparr> else m) =
     (let o1 = observe m in if ob_regions o1 = [] then o1\<lparr>ob_simple := a\<rparr> else o1)"
  "observe (stop_do s m) = (let o1 = observe m in o1\<lparr>ob_do := filter (\<lambda>a. a \<noteq> s) (ob_do o1)\<rparr>)"
  "observe (start_do g s m) = (let o1 = observe m in o1\<lparr>ob_do := (if bh_do (sg_behaviors g s) = [] then ob_do o1
     else filter (\<lambda>a. a \<noteq> s) (ob_do o1) @ [s])\<rparr>)"
  by (auto simp: observe_def visit_state_def record_trace_def stop_do_def start_do_def Let_def filter_map comp_def)

lemma tracks_enter:
  assumes "region_free g"
  shows "tracks (entered g s) (enter_state_into eng g br s)"
proof -
  let ?visit = "\<lambda>o1. o1\<lparr>ob_trace := map_option (\<lambda>l. l @ [TraceEntry (state_name g s) (bh_entry (sg_behaviors g s) \<noteq> [])]) (ob_trace o1),
     ob_visits := ob_visits o1 @ [state_name g s]\<rparr>"
  let ?simple = "\<lambda>o1. if ob_regions o1 = [] then o1\<lparr>ob_simple := Some s\<rparr> else o1"
  let ?do = "\<lambda>o1. o1\<lparr>ob_do := (if bh_do (sg_behaviors g s) = [] then ob_do o1 else filter (\<lambda>a. a \<noteq> s) (ob_do o1) @ [s])\<rparr>"
  have none: "sg_composite g s = None" using assms by (simp add: region_free_def)
  have "list_all2 tracks [id, ?visit, id, ?simple, ?do]
    [update (rearm_watches g s), update (visit_state g s),
      for_each (\<lambda>b. wrapped (ErrIn ''entry action'') (execute_behavior eng b)) (bh_entry (sg_behaviors g s)),
      update (\<lambda>m. if sm_regions m = [] then m\<lparr>sm_simple := Some s\<rparr> else m), update (start_do g s)]"
    (is "list_all2 tracks _ ?ps")
    by (intro list_all2_Cons [THEN iffD2, OF conjI] list_all2_Nil [THEN iffD2] TrueI tracks_intros tracks_update)
      (simp_all add: observe_steps Let_def)
  from tracks_block [OF this] have "tracks (fold (\<lambda>f. f) [id, ?visit, id, ?simple, ?do]) (block ?ps)" .
  moreover have "fold (\<lambda>f. f) [id, ?visit, id, ?simple, ?do] = entered g s" by (auto simp: fun_eq_iff entered_def)
  ultimately show ?thesis by (simp only: enter_state_into_def enter_at.simps none option.case)
qed

lemma own_active_free: "region_free g \<Longrightarrow> own_active g s m = []"
  by (simp add: own_active_def regions_of_def region_free_def)

lemma observe_record_left: "region_free g \<Longrightarrow> observe (record_left g s m) = observe m"
  by (simp add: record_left_def own_active_free record_child_history_def split: option.splits)

lemma tracks_exit:
  assumes "region_free g"
  shows "tracks (left_behind g s) (exit_state eng g s)"
proof -
  let ?do = "\<lambda>o1. o1\<lparr>ob_do := filter (\<lambda>a. a \<noteq> s) (ob_do o1)\<rparr>"
  let ?trace = "\<lambda>o1. o1\<lparr>ob_trace := map_option (\<lambda>l. l @ [TraceExit (state_name g s) (bh_exit (sg_behaviors g s) \<noteq> [])]) (ob_trace o1)\<rparr>"
  let ?simple = "\<lambda>o1. o1\<lparr>ob_simple := None\<rparr>"
  have regions: "tracks id (with_state (\<lambda>m. block [update (record_left g s),
      for_each (\<lambda>(r, a). block [update (clear_region r),
        for_each (\<lambda>c. wrapped (ErrIn ''exit region state'') (exit_at eng g (length (sg_nodes g)) c)) (climb g (Some a) (Some s))])
        (own_active g s m)]))" (is "tracks id ?regions")
    unfolding own_active_free [OF assms] by (auto simp: tracks_def observe_record_left [OF assms])
  have "list_all2 tracks [id, id, ?do, ?trace, id, ?simple] [update (drop_timers g s), ?regions, update (stop_do s),
      update (record_trace (TraceExit (state_name g s) (bh_exit (sg_behaviors g s) \<noteq> []))),
      for_each (\<lambda>b. wrapped (ErrIn ''exit action'') (execute_behavior eng b)) (bh_exit (sg_behaviors g s)),
      update (\<lambda>m. m\<lparr>sm_simple := None\<rparr>)]" (is "list_all2 tracks _ ?ps")
    by (intro list_all2_Cons [THEN iffD2, OF conjI] list_all2_Nil [THEN iffD2] TrueI regions tracks_each_same
        tracks_wrapped tracks_behavior tracks_update)
      (simp_all add: observe_steps Let_def)
  from tracks_block [OF this] have "tracks (fold (\<lambda>f. f) [id, id, ?do, ?trace, id, ?simple]) (block ?ps)" .
  moreover have "fold (\<lambda>f. f) [id, id, ?do, ?trace, id, ?simple] = left_behind g s" by (auto simp: fun_eq_iff left_behind_def)
  ultimately show ?thesis unfolding exit_state_def by (simp only: exit_at.simps tracks_wrapped)
qed

section \<open>Leaving and entering along paths\<close>

lemma fold_left_behind:
  "fold (left_behind g) ss o1 = o1\<lparr>ob_simple := (if ss = [] then ob_simple o1 else None),
     ob_trace := map_option (\<lambda>l. l @ map (\<lambda>s. TraceExit (state_name g s) (bh_exit (sg_behaviors g s) \<noteq> [])) ss) (ob_trace o1),
     ob_do := filter (\<lambda>a. a \<notin> set ss) (ob_do o1)\<rparr>"
  by (induction ss arbitrary: o1)
    (auto simp: left_behind_def option.map_comp comp_def option.map_ident intro!: filter_cong)

lemma fold_entered:
  assumes "distinct ss"
  shows "fold (entered g) ss o1 = o1\<lparr>ob_simple := (if ss = [] \<or> ob_regions o1 \<noteq> [] then ob_simple o1 else Some (last ss)),
     ob_trace := map_option (\<lambda>l. l @ map (\<lambda>s. TraceEntry (state_name g s) (bh_entry (sg_behaviors g s) \<noteq> [])) ss) (ob_trace o1),
     ob_visits := ob_visits o1 @ map (state_name g) ss,
     ob_do := filter (\<lambda>a. a \<notin> {s \<in> set ss. bh_do (sg_behaviors g s) \<noteq> []}) (ob_do o1)
       @ filter (\<lambda>s. bh_do (sg_behaviors g s) \<noteq> []) ss\<rparr>"
  using assms
  by (induction ss arbitrary: o1)
    (auto simp: entered_def option.map_comp comp_def option.map_ident intro!: observed.equality filter_cong)

definition moved :: "('e, 's) state_graph \<Rightarrow> ('e, 's) transition \<Rightarrow> sid list \<Rightarrow> sid list \<Rightarrow> sid \<Rightarrow> sid \<Rightarrow> observed \<Rightarrow> observed" where
  "moved g tr left new current target o1 =
     \<lparr>ob_simple = Some target, ob_regions = [],
      ob_trace = map_option (\<lambda>l. l @ map (\<lambda>s. TraceExit (state_name g s) (bh_exit (sg_behaviors g s) \<noteq> [])) left
        @ map (\<lambda>s. TraceEntry (state_name g s) (bh_entry (sg_behaviors g s) \<noteq> [])) new
        @ [TraceTransition (state_name g current) (state_name g target) (trigger_name (tr_trigger tr))]) (ob_trace o1),
      ob_visits = ob_visits o1 @ map (state_name g) new,
      ob_do = filter (\<lambda>a. a \<notin> set left \<and> \<not> (a \<in> set new \<and> bh_do (sg_behaviors g a) \<noteq> [])) (ob_do o1)
        @ filter (\<lambda>s. bh_do (sg_behaviors g s) \<noteq> []) new\<rparr>"

lemma tracks_exit_states:
  assumes "region_free g"
  shows "tracks (fold (left_behind g) ss) (exit_states eng g ss)"
proof -
  have "\<not> exited_by_ancestor_region g s ss" for s
    using assms by (simp add: exited_by_ancestor_region_def region_free_def)
  then show ?thesis unfolding exit_states_def by (auto intro!: tracks_for_each tracks_exit [OF assms])
qed

lemma distinct_climb: "wf_graph g \<Longrightarrow> distinct (climb g (Some s) stop)"
  by (auto simp: climb_def distinct_parent_chain intro: distinct_takeWhile)

lemma observe_current: "observe (set_current_state s m) = (observe m)\<lparr>ob_simple := s, ob_regions := []\<rparr>"
  by (simp add: observe_def set_current_state_def)

lemma transition_moves:
  assumes "region_free g" "wf_graph g" "sm_simple m = Some current"
    and stop: "stop = boundary g tr target (get_lca g (Some current) (Some target))"
    and run: "transition_to eng g tr target m = (m', Inr ())"
  shows "observe m' = moved g tr (climb g (Some current) stop) (rev (climb g (Some target) stop)) current target (observe m)"
proof -
  let ?left = "climb g (Some current) stop" and ?new = "rev (climb g (Some target) stop)"
  define at_target :: "observed \<Rightarrow> observed" where "at_target = (\<lambda>o1. o1\<lparr>ob_simple := Some target, ob_regions := []\<rparr>)"
  define traced :: "observed \<Rightarrow> observed" where "traced = (\<lambda>o1. o1\<lparr>ob_trace := map_option (\<lambda>l. l @ [TraceTransition (state_name g current)
    (state_name g target) (trigger_name (tr_trigger tr))]) (ob_trace o1)\<rparr>)"
  have none: "sg_composite g target = None" using assms(1) by (simp add: region_free_def)
  let ?ps = "[exit_states eng g ?left, run_effect eng tr,
      for_each (\<lambda>s. wrapped (ErrIn ''enter state'') (enter_state_into eng g [] s)) ?new,
      update (set_current_state (Some target)), update (\<lambda>m. m\<lparr>sm_stack := root_to_leaf g target\<rparr>),
      wrapped (ErrIn ''schedule events'') (schedule_transition_events eng g),
      update (\<lambda>m. if is_final g target then m\<lparr>sm_state := StateCompleted\<rparr> else m),
      update (record_trace (TraceTransition (state_name g current) (state_name g target) (trigger_name (tr_trigger tr))))]"
  have "list_all2 tracks [fold (left_behind g) ?left, id, fold (entered g) ?new, at_target, id, id, id, traced] ?ps"
    by (intro list_all2_Cons [THEN iffD2, OF conjI] list_all2_Nil [THEN iffD2] TrueI tracks_exit_states tracks_effect
        tracks_for_each tracks_wrapped tracks_enter tracks_schedule tracks_update assms(1))
      (simp_all add: observe_steps observe_current at_target_def traced_def Let_def)
  note tracked = tracks_block [OF this]
  have "transition_to eng g tr target m = block ?ps m"
    unfolding transition_to_def transition_to_into_def
    by (simp add: assms(3) stop none name_of_def Let_def del: block.simps)
  with run have "block ?ps m = (m', Inr ())" by (rule back_subst [where P = "\<lambda>p. p = (m', Inr ())"])
  note moves = tracksD [OF tracked, OF this]
  then have "observe m' = traced (at_target (fold (entered g) ?new (fold (left_behind g) ?left (observe m))))"
    by (simp only: fold.simps comp_def id_apply)
  also have "\<dots> = moved g tr ?left ?new current target (observe m)"
    using distinct_climb [OF assms(2), of target stop]
    by (simp add: fold_left_behind fold_entered moved_def at_target_def traced_def option.map_comp comp_def conj_commute)
  finally show ?thesis .
qed

end
