(* ===== verification/State_Events.thy ===== *)
theory State_Events
  imports State_Machine
begin

text \<open>
  The executor's steps as functions of the machine, where that is what the code promises: the
  transitions an event selects when evaluating a guard changes nothing, one round of do behaviors,
  and what recalling deferred events does to the queue.
\<close>

section \<open>Selection\<close>

definition quiet :: "('t, 'e, 's, 'v, 'c) machine_engine \<Rightarrow> bool" where
  "quiet eng \<longleftrightarrow> (\<forall>ctx d ex. fst (me_eval eng ctx d ex) = ctx)"

definition guard_true :: "('t, 'e, 's, 'v, 'c) machine_engine \<Rightarrow> ('v, 'c) rt_context \<Rightarrow> 'v feats \<Rightarrow> ('e, 's) transition \<Rightarrow> bool" where
  "guard_true eng ctx d tr = (case tr_guard tr of None \<Rightarrow> True
     | Some ex \<Rightarrow> (case snd (me_eval eng ctx d ex) of Inr v \<Rightarrow> me_bool eng v = Some True | Inl _ \<Rightarrow> False))"

text \<open>A transition is enabled by an event that matches it and whose arguments make its guard true.\<close>

definition enabled_by ::
  "('t, 'e, 's, 'v, 'c) machine_engine \<Rightarrow> ('e, 's) state_graph \<Rightarrow> ('t, 'e, 's, 'v, 'c) machine \<Rightarrow> ('t, 'e, 's, 'v) event
    \<Rightarrow> ('e, 's) transition \<Rightarrow> bool" where
  "enabled_by eng g m ev tr \<longleftrightarrow> matches_event g m tr ev \<and>
     (case trigger_arguments tr ev of
        Inl _ \<Rightarrow> False
      | Inr kvs \<Rightarrow> guard_true eng (sm_ctx m) (fold (\<lambda>(k, v) d. d(k \<mapsto> v)) kvs (sm_data m)) tr)"

text \<open>What one leaf offers: the innermost state around it with an enabled transition, and its first one.\<close>

definition offered ::
  "('t, 'e, 's, 'v, 'c) machine_engine \<Rightarrow> ('e, 's) state_graph \<Rightarrow> ('t, 'e, 's, 'v, 'c) machine \<Rightarrow> ('t, 'e, 's, 'v) event
    \<Rightarrow> sid \<Rightarrow> (sid \<times> ('e, 's) transition) option" where
  "offered eng g m ev leaf =
     first_some (\<lambda>s. map_option (Pair s) (find (enabled_by eng g m ev) (sg_out g (StateV s)))) (parent_chain g leaf)"

lemma guard_quiet:
  assumes "quiet eng" "passes_guard eng g tr m = (m', r)"
  shows "m' = m \<and> (\<forall>b. r = Inr b \<longrightarrow> b = guard_true eng (sm_ctx m) (sm_data m) tr)"
proof (cases "tr_guard tr")
  case None
  with assms(2) show ?thesis by (auto simp: passes_guard_def guard_true_def)
next
  case (Some ex)
  obtain v where v: "me_eval eng (sm_ctx m) (sm_data m) ex = (sm_ctx m, v)"
    using assms(1) by (metis prod.collapse quiet_def)
  then have e: "eval_step eng ex m = (m, v)" by (simp add: eval_step_def)
  from Some v assms(2) show ?thesis
    by (cases v) (auto simp: passes_guard_def guard_true_def e split: option.splits)
qed

lemma arguments_bound:
  assumes "trigger_arguments tr ev = Inr kvs"
  shows "fst ` set kvs \<subseteq> set (bound_names tr)"
  using assms
  by (auto simp: trigger_arguments_def bound_names_def call_arguments_def
      split: option.splits event_trigger.splits if_splits payload.splits)

lemma fold_upd_outside: "n \<notin> fst ` set kvs \<Longrightarrow> fold (\<lambda>(k, v) d. d(k \<mapsto> v)) kvs d n = d n"
  by (induction kvs arbitrary: d) auto

lemma fold_restore: "fold (\<lambda>n d. d(n := saved n)) ns d = (\<lambda>k. if k \<in> set ns then saved k else d k)"
  by (induction ns arbitrary: d) (auto simp: fun_eq_iff)

lemma restored:
  assumes "trigger_arguments tr ev = Inr kvs"
  shows "restore_data (bound_names tr) (sm_data m)
    (m\<lparr>sm_data := fold (\<lambda>(k, v) d. d(k \<mapsto> v)) kvs (sm_data m)\<rparr>) = m"
proof -
  have "fold (\<lambda>(k, v) d. d(k \<mapsto> v)) kvs (sm_data m) k = sm_data m k" if "k \<notin> set (bound_names tr)" for k
    using arguments_bound [OF assms] that by (intro fold_upd_outside) blast
  then show ?thesis by (simp add: restore_data_def fold_restore fun_eq_iff)
qed

lemma first_enabled_quiet:
  assumes "quiet eng" "first_enabled eng g ev trs m = (m', Inr offer)"
  shows "m' = m \<and> offer = find (enabled_by eng g m ev) trs"
  using assms(2)
proof (induction trs arbitrary: offer)
  case (Cons tr trs)
  show ?case
  proof (cases "matches_event g m tr ev")
    case False
    with Cons show ?thesis by (simp add: enabled_by_def)
  next
    case True
    show ?thesis
    proof (cases "trigger_arguments tr ev")
      case (Inl x)
      with Cons.prems True show ?thesis by (simp add: bind_arguments_def then_do_def)
    next
      case (Inr kvs)
      let ?m = "m\<lparr>sm_data := fold (\<lambda>(k, v) d. d(k \<mapsto> v)) kvs (sm_data m)\<rparr>"
      obtain m1 r where g: "passes_guard eng g tr ?m = (m1, r)" by force
      note q = guard_quiet [OF assms(1) g]
      have f: "finally_do (passes_guard eng g tr) (restore_data (bound_names tr) (sm_data m)) ?m = (m, r)"
        using g q restored [OF Inr] by simp
      have b: "bind_arguments tr ev m = (?m, Inr ())" by (simp add: bind_arguments_def Inr)
      have "r = Inr (enabled_by eng g m ev tr)"
        using Cons.prems True q by (cases r) (auto simp: b f then_do_def enabled_by_def Inr)
      with Cons True b f show ?thesis by (auto simp: then_do_def split: if_splits)
    qed
  qed
qed simp

lemma offer_quiet:
  assumes "quiet eng" "offer_from g (enabled_transition eng g ev) chain m = (m', Inr offer)"
  shows "m' = m \<and> offer = first_some (\<lambda>s. map_option (Pair s) (find (enabled_by eng g m ev) (sg_out g (StateV s)))) chain"
  using assms(2)
proof (induction chain)
  case (Cons s chain)
  then obtain m1 o1 where o1: "enabled_transition eng g ev s m = (m1, Inr o1)"
    and rest: "(case o1 of Some tr \<Rightarrow> give (Some (s, tr)) | None \<Rightarrow> offer_from g (enabled_transition eng g ev) chain) m1 = (m', Inr offer)"
    by (auto simp: then_do_Inr)
  from first_enabled_quiet [OF assms(1) o1 [unfolded enabled_transition_def]] rest Cons.IH show ?case
    by (auto split: option.splits)
qed simp

lemma fold_each_quiet:
  assumes "fold_each f as b m = (m', Inr c)" "\<And>a b m' c. f a b m = (m', Inr c) \<Longrightarrow> m' = m \<and> c = h a b"
  shows "m' = m \<and> c = fold h as b"
  using assms(1)
proof (induction as arbitrary: b)
  case (Cons a as)
  then obtain m1 b1 where "f a b m = (m1, Inr b1)" "fold_each f as b1 m1 = (m', Inr c)" by (auto simp: then_do_Inr)
  with assms(2) [of a b m1 b1] Cons.IH [of b1] show ?case by simp
qed simp

lemma select_quiet:
  assumes "quiet eng" "select_transitions eng g ev m = (m', Inr cs)"
  shows "m' = m \<and> cs = fold (\<lambda>leaf. add_candidate leaf (offered eng g m ev leaf)) (active_leaves g m) []"
proof -
  have "fold_each (\<lambda>leaf cs. then_do (offer_from g (enabled_transition eng g ev) (parent_chain g leaf))
      (\<lambda>offer. give (add_candidate leaf offer cs))) (active_leaves g m) [] m = (m', Inr cs)"
    using assms(2) by (simp add: select_transitions_def select_candidates_def)
  then show ?thesis
    by (rule fold_each_quiet) (auto simp: then_do_Inr offered_def dest: offer_quiet [OF assms(1)])
qed

lemma first_some_innermost:
  "first_some (\<lambda>s. map_option (Pair s) (h s)) xs = Some (s, tr) \<Longrightarrow>
    s \<in> set xs \<and> h s = Some tr \<and> (\<forall>y \<in> set (takeWhile (\<lambda>y. y \<noteq> s) xs). h y = None)"
proof (induction xs)
  case (Cons x xs)
  then show ?case by (cases "h x") auto
qed simp

lemma first_some_None: "first_some f xs = None \<longleftrightarrow> (\<forall>x \<in> set xs. f x = None)"
  by (induction xs) (auto split: option.splits)

text \<open>The loop over the leaves: distinct transitions, each offered by its leaf, none offered left out.\<close>

lemma candidates_step:
  assumes "distinct (map (\<lambda>c. tr_id (dc_trans c)) cs)"
  shows "distinct (map (\<lambda>c. tr_id (dc_trans c)) (fold (\<lambda>leaf. add_candidate leaf (f leaf)) leaves cs))"
  using assms by (induction leaves arbitrary: cs) (auto simp: add_candidate_def split: option.splits)

lemma candidates_grow: "set cs \<subseteq> set (fold (\<lambda>leaf. add_candidate leaf (f leaf)) leaves cs)"
proof (induction leaves arbitrary: cs)
  case (Cons l leaves)
  have "set cs \<subseteq> set (add_candidate l (f l) cs)" by (auto simp: add_candidate_def split: option.splits)
  with Cons [of "add_candidate l (f l) cs"] show ?case by auto
qed simp

lemma candidates_offered:
  "c \<in> set (fold (\<lambda>leaf. add_candidate leaf (f leaf)) leaves cs) \<Longrightarrow>
    c \<in> set cs \<or> dc_leaf c \<in> set leaves \<and> f (dc_leaf c) = Some (dc_source c, dc_trans c)"
proof (induction leaves arbitrary: cs)
  case (Cons l leaves)
  then have "c \<in> set (add_candidate l (f l) cs) \<or> dc_leaf c \<in> set leaves \<and> f (dc_leaf c) = Some (dc_source c, dc_trans c)"
    by simp
  then show ?case by (auto simp: add_candidate_def split: option.splits if_splits)
qed simp

lemma candidates_complete:
  assumes "leaf \<in> set leaves" "f leaf = Some (s, tr)"
  shows "tr_id tr \<in> (\<lambda>c. tr_id (dc_trans c)) ` set (fold (\<lambda>leaf. add_candidate leaf (f leaf)) leaves cs)"
  using assms(1)
proof (induction leaves arbitrary: cs)
  case (Cons l leaves)
  show ?case
  proof (cases "l = leaf")
    case True
    then have "tr_id tr \<in> (\<lambda>c. tr_id (dc_trans c)) ` set (add_candidate l (f l) cs)"
      using assms(2) by (auto simp: add_candidate_def)
    with candidates_grow [of "add_candidate l (f l) cs" f leaves] show ?thesis by auto
  next
    case False
    with Cons show ?thesis by simp
  qed
qed simp

section \<open>One round of do behaviors\<close>

definition do_named :: "('e, 's) state_graph \<Rightarrow> 's do_action list \<Rightarrow> trace_record list" where
  "do_named g acts = map (\<lambda>a. TraceDo (state_name g (da_state a))) (filter (\<lambda>a. da_pending a \<noteq> []) acts)"

text \<open>Only starting a do behavior makes an identity, and it makes a new one.\<close>

definition do_ids :: "('t, 'e, 's, 'v, 'c) machine \<Rightarrow> bool" where
  "do_ids m \<longleftrightarrow> distinct (map da_id (sm_do m)) \<and> (\<forall>a \<in> set (sm_do m). da_id a < sm_next_do m)"

lemma do_ids_kept:
  "do_ids (new_machine ctx self)"
  "do_ids m \<Longrightarrow> do_ids (stop_do s m)"
  "do_ids m \<Longrightarrow> do_ids (start_do g s m)"
  "do_ids m \<Longrightarrow> do_ids (advance_do i m)"
  "do_ids m \<Longrightarrow> do_ids (drop_finished m)"
  by (auto simp: do_ids_def new_machine_def stop_do_def start_do_def advance_do_def drop_finished_def Let_def
      distinct_map_filter comp_def if_distrib [of da_id] cong: if_cong)

lemma behavior_frame:
  "execute_behavior eng b m = (m', r) \<Longrightarrow> m'\<lparr>sm_ctx := sm_ctx m, sm_data := sm_data m\<rparr> = m"
  by (auto simp: execute_behavior_def split: if_splits prod.splits)

lemma behavior_do:
  assumes "execute_behavior eng b m = (m', r)"
  shows "sm_do m' = sm_do m" "sm_trace m' = sm_trace m" "sm_simple m' = sm_simple m" "sm_regions m' = sm_regions m"
  using assms by (auto simp: execute_behavior_def split: if_splits prod.splits)

lemma do_step_effect:
  assumes "do_step eng g (da_id a, da_state a) k m = (m', Inr k')" "distinct (map da_id (sm_do m))" "a0 \<in> set (sm_do m)"
    "da_id a0 = da_id a" "da_pending a0 = da_pending a"
  shows "sm_do m' = map (\<lambda>b. if da_id b = da_id a then b\<lparr>da_pending := tl (da_pending b)\<rparr> else b) (sm_do m)
    \<and> k' = k + (if da_pending a = [] then 0 else 1)
    \<and> sm_trace m' = map_option (\<lambda>l. l @ do_named g [a]) (sm_trace m)
    \<and> sm_simple m' = sm_simple m \<and> sm_regions m' = sm_regions m"
proof -
  have f: "find (\<lambda>b. da_id b = da_id a) (sm_do m) = Some a0"
    using assms(2-4)
  proof (induction "sm_do m" arbitrary: m)
    case (Cons b bs)
    from Cons.hyps(2) Cons.prems show ?case
      using Cons.hyps(1) [of "m\<lparr>sm_do := bs\<rparr>"] by (cases "sm_do m") (auto simp: rev_image_eqI)
  qed simp
  show ?thesis
  proof (cases "da_pending a")
    case Nil
    then have "map (\<lambda>b. if da_id b = da_id a then b\<lparr>da_pending := tl (da_pending b)\<rparr> else b) (sm_do m) = sm_do m"
    proof (intro map_idI)
      fix x
      assume x: "x \<in> set (sm_do m)"
      show "(if da_id x = da_id a then x\<lparr>da_pending := tl (da_pending x)\<rparr> else x) = x"
      proof (cases "da_id x = da_id a")
        case True
        with assms(2-4) x have "x = a0" by (metis distinct_map inj_onD)
        with Nil assms(5) show ?thesis by (cases x) simp
      qed simp
    qed
    with Nil assms(1) f assms(5) show ?thesis
      by (auto simp: do_step_def do_pending_def do_named_def option.map_ident)
  next
    case (Cons b bs)
    with assms(1) f assms(5) obtain m1 where m1:
      "execute_behavior eng b (record_trace (TraceDo (state_name g (da_state a))) (advance_do (da_id a) m)) = (m1, Inr ())"
      "m' = m1" "k' = k + 1"
      by (auto simp: do_step_def do_pending_def then_do_Inr)
    with behavior_do [OF m1(1)] Cons show ?thesis
      by (simp add: record_trace_def advance_do_def do_named_def)
  qed
qed

lemma do_round_fold:
  assumes "fold_each (do_step eng g) (map (\<lambda>a. (da_id a, da_state a)) acts) k m = (m', Inr k')"
    "sm_do m = before @ acts" "distinct (map da_id (sm_do m))"
  shows "sm_do m' = before @ map (\<lambda>a. a\<lparr>da_pending := tl (da_pending a)\<rparr>) acts
    \<and> k' = k + int (length (filter (\<lambda>a. da_pending a \<noteq> []) acts))
    \<and> sm_trace m' = map_option (\<lambda>l. l @ do_named g acts) (sm_trace m)
    \<and> sm_simple m' = sm_simple m \<and> sm_regions m' = sm_regions m"
  using assms
proof (induction acts arbitrary: k m before)
  case Nil
  then show ?case by (simp add: do_named_def option.map_ident)
next
  case (Cons a acts)
  let ?advance = "\<lambda>a. a\<lparr>da_pending := tl (da_pending a)\<rparr>"
  from Cons.prems(1) obtain m1 k1 where 1: "do_step eng g (da_id a, da_state a) k m = (m1, Inr k1)"
    and rest: "fold_each (do_step eng g) (map (\<lambda>a. (da_id a, da_state a)) acts) k1 m1 = (m', Inr k')"
    by (auto simp: then_do_Inr)
  note step = do_step_effect [OF 1 Cons.prems(3), of a]
  have others: "map (\<lambda>b. if da_id b = da_id a then ?advance b else b) xs = xs" if "da_id a \<notin> da_id ` set xs" for xs
    using that by (intro map_idI) (metis imageI)
  have fresh: "da_id a \<notin> da_id ` set before" "da_id a \<notin> da_id ` set acts" using Cons.prems(2,3) by auto
  have do1: "sm_do m1 = (before @ [?advance a]) @ acts"
    using step Cons.prems(2) others [OF fresh(1)] others [OF fresh(2)] by simp
  have "distinct (map da_id (sm_do m1))" using Cons.prems(2,3) by (simp add: do1)
  from Cons.IH [OF rest do1 this] step Cons.prems(2) show ?case
    by (auto simp: do_named_def option.map_comp comp_def)
qed

lemma do_round_advances:
  assumes "do_ids m" "run_do_round eng g m = (m', Inr k)"
  shows "k = int (length (filter (\<lambda>a. da_pending a \<noteq> []) (sm_do m)))
    \<and> sm_do m' = filter (\<lambda>a. da_pending a \<noteq> []) (map (\<lambda>a. a\<lparr>da_pending := tl (da_pending a)\<rparr>) (sm_do m))
    \<and> sm_trace m' = map_option (\<lambda>l. l @ do_named g (sm_do m)) (sm_trace m)
    \<and> sm_simple m' = sm_simple m \<and> sm_regions m' = sm_regions m"
proof (cases "sm_do m = []")
  case True
  with assms(2) show ?thesis by (auto simp: run_do_round_def do_named_def option.map_ident)
next
  case False
  with assms(2) obtain m1 m2 where
    1: "fold_each (do_step eng g) (map (\<lambda>a. (da_id a, da_state a)) (sm_do m)) 0 m = (m1, Inr k)"
    and 2: "block [update drop_finished, for_each (\<lambda>s. wrapped (ErrIn (''schedule completion of state '' @ state_name g s))
        (schedule_completion_transitions eng g s)) (map da_state (filter (\<lambda>a. da_pending a = []) (sm_do m1)))] m1 = (m', Inr ())"
    by (auto simp: run_do_round_def then_do_Inr Let_def)
  note ran = do_round_fold [OF 1, of "[]"]
  have frame: "keeps (\<lambda>m. sm_do m = ds \<and> sm_trace m = tc \<and> sm_simple m = ss \<and> sm_regions m = rs)
      (schedule_completion_transitions eng g s)" for ds tc ss rs s
    unfolding schedule_completion_transitions_def passes_guard_def eval_step_def
    by (intro keeps_intros maintains_wrapped) (auto simp: maintains_def push_fresh_def split: prod.splits option.splits)
  from 2 have each: "for_each (\<lambda>s. wrapped (ErrIn (''schedule completion of state '' @ state_name g s))
      (schedule_completion_transitions eng g s)) (map da_state (filter (\<lambda>a. da_pending a = []) (sm_do m1))) (drop_finished m1) = (m', Inr ())"
    by (simp add: then_do_Inr)
  have "sm_do m' = sm_do (drop_finished m1) \<and> sm_trace m' = sm_trace (drop_finished m1)
      \<and> sm_simple m' = sm_simple (drop_finished m1) \<and> sm_regions m' = sm_regions (drop_finished m1)"
    by (rule maintains_at [OF maintains_for_each [OF maintains_wrapped [OF frame]] _ each]) simp_all
  with ran assms(1) show ?thesis by (simp add: drop_finished_def do_ids_def)
qed

section \<open>Events no transition takes\<close>

lemma unhandled:
  assumes "quiet eng" "ev_type ev \<noteq> EventTime" "\<forall>leaf \<in> set (active_leaves g m). offered eng g m ev leaf = None"
    "dispatch_event eng g ev m = (m', Inr ())"
  shows "m' = (if defers_event g m ev then m\<lparr>sm_deferred := sm_deferred m @ [ev]\<rparr> else m)"
proof -
  from assms(2,4) obtain m1 consumed where b: "broadcast_event eng g ev m = (m1, Inr consumed)"
    and last: "m' = (if \<not> consumed \<and> defers_event g m1 ev then m1\<lparr>sm_deferred := sm_deferred m1 @ [ev]\<rparr> else m1)"
    by (auto simp: dispatch_event_def then_do_Inr)
  from b obtain m2 cs where sel: "select_transitions eng g ev m = (m2, Inr cs)"
    and fired: "fire_candidates eng g ev cs cs False m2 = (m1, Inr consumed)"
    by (auto simp: broadcast_event_def then_do_Inr)
  have "fold (\<lambda>leaf. add_candidate leaf (offered eng g m ev leaf)) (active_leaves g m) [] = []"
  proof -
    have "fold (\<lambda>leaf. add_candidate leaf (offered eng g m ev leaf)) ls [] = []" if "\<forall>l \<in> set ls. offered eng g m ev l = None" for ls
      using that by (induction ls) (auto simp: add_candidate_def)
    with assms(3) show ?thesis by blast
  qed
  with select_quiet [OF assms(1) sel] have "m2 = m" "cs = []" by simp_all
  with fired last show ?thesis by auto
qed

lemma recalled_before:
  assumes "\<not> is_completion_event q" "t \<le> ev_time q" "ev_id ev < ev_id q" 
  shows "event_less (ev\<lparr>ev_time := t\<rparr>) q"
  using assms by (auto simp: event_less_def is_completion_event_def)

end
