(* ===== verification/State_Properties.thy ===== *)
theory State_Properties
  imports State_Example State_Moves State_Events
begin

text \<open>
  The properties of the state machine executor: the invariants of every machine a client can have,
  the clock, the end of runs, lowest common ancestors, the order in which a transition leaves and
  enters states, the selection of the transitions an event takes, deferral, and the states a join
  leaves behind.
\<close>

lemma sound_machineI: "wf_graph g \<Longrightarrow> sound_machine g"
  by (rule sound_machine.intro)

section \<open>Invariants\<close>

text \<open>
  C9. In every machine a client can have, whatever the evaluator and the behaviors do, the pending
  events - queued or deferred - have pairwise distinct identities, all below the next one to be
  given out, and every active state lies inside the region it is active in.\<close>

theorem machine_configuration:
  assumes "wf_graph g" "machine_reachable eng g m"
  shows "distinct (map ev_id (sm_queue m @ sm_deferred m))
    \<and> (\<forall>ev \<in> set (sm_queue m @ sm_deferred m). ev_id ev < sm_next m)
    \<and> (\<forall>(r, s) \<in> set (sm_regions m). region_contains g r s)"
  using sound_machine.reachable_ids [OF sound_machineI [OF assms(1)] assms(2)]
    sound_machine.reachable_inside [OF sound_machineI [OF assms(1)] assms(2)]
  by (simp add: ids_fresh_def inside_regions_def branches_ok_def)

theorem machine_configuration_witness:
  "sm_regions (after_signal fresh_example ''go'') = [(10, 2), (11, 4)]
    \<and> list_all (\<lambda>(r, s). region_contains example_machine_graph r s) (sm_regions (after_signal fresh_example ''go''))"
proof
  show "sm_regions (after_signal fresh_example ''go'') = [(10, 2), (11, 4)]" by code_simp
  show "list_all (\<lambda>(r, s). region_contains example_machine_graph r s) (sm_regions (after_signal fresh_example ''go''))"
    using machine_configuration [OF example_graph_wf example_reachable(2) [OF example_reachable(1)], of "''go''"]
    by (simp add: list_all_iff)
qed

text \<open>
  C10. The timers and the queue agree in every machine a client can have: a time-triggered
  transition has exactly one event in the queue while its timer runs and none otherwise, so leaving
  a state leaves no stale event behind and staying in it never starts a second timer.\<close>

theorem one_event_per_timer:
  assumes "wf_graph g" "machine_reachable eng g m" "tr \<in> set (sg_out g (StateV s))" "is_time_trigger tr"
  shows "length (filter (\<lambda>ev. case ev_payload ev of LowerTransition u \<Rightarrow> tr_id u = tr_id tr | _ \<Rightarrow> False) (sm_queue m))
    = (if tr_id tr \<in> sm_timers m then 1 else 0)"
proof -
  have carries: "carries_one_of {tr_id tr}
      = (\<lambda>ev. case ev_payload ev of LowerTransition u \<Rightarrow> tr_id u = tr_id tr | _ \<Rightarrow> False)"
    by (auto simp: carries_one_of_def fun_eq_iff split: payload.splits)
  have "timer_events tr (sm_queue m) = (if tr_id tr \<in> sm_timers m then 1 else 0)"
    using sound_machine.reachable_timers [OF sound_machineI [OF assms(1)] assms(2)] assms(3,4)
    by (auto simp: timers_exact_def)
  then show ?thesis unfolding timer_events_def carries by (simp flip: mset_filter)
qed

theorem one_event_per_timer_witness:
  "length (filter (\<lambda>ev. case ev_payload ev of LowerTransition u \<Rightarrow> tr_id u = 5 | _ \<Rightarrow> False)
      (sm_queue (after_signal fresh_example ''go''))) = 1
    \<and> length (filter (\<lambda>ev. case ev_payload ev of LowerTransition u \<Rightarrow> tr_id u = 5 | _ \<Rightarrow> False)
      (sm_queue (after_signal (after_signal fresh_example ''go'') ''pause''))) = 0"
proof -
  let ?tr = "example_transition 5 (StateV 2) (StateV 3) (Some (TimeTrigger 5 False))"
  have tr: "?tr \<in> set (sg_out example_machine_graph (StateV 2))" "is_time_trigger ?tr" "tr_id ?tr = 5"
    by (simp_all add: example_machine_graph_def example_out_def example_transition_def is_time_trigger_def)
  have "tr_id ?tr \<in> sm_timers (after_signal fresh_example ''go'')"
    "tr_id ?tr \<notin> sm_timers (after_signal (after_signal fresh_example ''go'') ''pause'')" by code_simp+
  with one_event_per_timer [OF example_graph_wf example_reachable(2) [OF example_reachable(1)] tr(1,2), of "''go''"]
    one_event_per_timer [OF example_graph_wf example_reachable(2) [OF example_reachable(2) [OF example_reachable(1)]]
      tr(1,2), of "''go''" "''pause''"]
  show ?thesis unfolding tr(3) by simp
qed

section \<open>The clock\<close>

text \<open>
  C11. Virtual time never runs backwards when durations are not negative: dispatching an event from
  any machine a client can have leaves the clock at or after where it was. With a negative
  duration it does run backwards, which \<open>scheduleTimeTransitions\<close> does not prevent: a timer armed in
  a machine with nothing queued is dispatched at a time before the one it was armed at.\<close>

theorem clock_monotone:
  assumes "wf_graph g" "machine_reachable eng g m" "process_next_event eng g m = (m', r)"
  shows "(never_rewinds eng \<longrightarrow> sm_time m \<le> sm_time m')
    \<and> (\<forall>tr m1 d. m = arm_timer tr (expiry eng False d (sm_time m1)) m1 \<and> sm_queue m1 = [] \<and> me_add eng (sm_time m1) d < sm_time m1
        \<longrightarrow> sm_time m' < sm_time m1)"
proof (intro conjI impI allI)
  assume "never_rewinds eng"
  then show "sm_time m \<le> sm_time m'"
    by (rule sound_machine.reachable_next_no_past [OF sound_machineI [OF assms(1)] _ assms(2,3)])
next
  fix tr m1 d
  assume a: "m = arm_timer tr (expiry eng False d (sm_time m1)) m1 \<and> sm_queue m1 = [] \<and> me_add eng (sm_time m1) d < sm_time m1"
  then have q: "mset (sm_queue m) = {#\<lparr>ev_id = sm_next m1, ev_type = EventTime, ev_time = me_add eng (sm_time m1) d,
      ev_payload = LowerTransition tr\<rparr>#}"
    by (simp add: arm_timer_def push_fresh_def mset_push expiry_def)
  then have ne: "sm_queue m \<noteq> []" by auto
  have "queue_reachable (sm_queue m)"
    using sound_machine.reachable_ids [OF sound_machineI [OF assms(1)] assms(2)] by (simp add: ids_fresh_def)
  from mset_pop [OF this ne] take_next_queue(3) [OF this ne] q
  have "sm_time (take_next m) = me_add eng (sm_time m1) d" by (auto simp: single_eq_add_mset)
  with sound_machine.process_next_clock [OF sound_machineI [OF assms(1)] ne assms(3)] a
  show "sm_time m' < sm_time m1" by simp
qed

theorem clock_monotone_witness:
  "sm_time (after_signal fresh_example ''go'')
    \<le> sm_time (fst (process_next_event example_machine_engine example_machine_graph (after_signal fresh_example ''go'')))
    \<and> sm_time (fst (process_next_event example_machine_engine example_machine_graph (after_signal fresh_example ''go''))) = 5"
proof
  have "never_rewinds example_machine_engine"
    by (auto simp: never_rewinds_def example_machine_engine_def split: if_splits)
  with clock_monotone [OF example_graph_wf example_reachable(2) [OF example_reachable(1)] prod.collapse [symmetric]]
  show "sm_time (after_signal fresh_example ''go'')
    \<le> sm_time (fst (process_next_event example_machine_engine example_machine_graph (after_signal fresh_example ''go'')))"
    by blast
  show "sm_time (fst (process_next_event example_machine_engine example_machine_graph (after_signal fresh_example ''go''))) = 5"
    by code_simp
qed

section \<open>Runs end\<close>

lemma run_from_ends: "run_from eng g b max_events max_do n events do_steps m = (m', Inr ()) \<Longrightarrow> sm_state m' \<noteq> StateRunning"
proof (induction n arbitrary: events do_steps m)
  case (Suc n)
  then show ?case
    by (auto simp: then_do_Inr Let_def split: if_splits)
qed simp

text \<open>
  C13. A run of a machine a client can have ends. Its loop and the recursions that enter and exit
  nested states never exhaust their bounds, so an error is one of the evaluator, of a behavior, of
  the model or of a budget; and a run without one has left the running state.\<close>

theorem run_terminates:
  assumes "wf_graph g" "machine_reachable eng g m" "engine_plain eng" "run_machine eng g b m = (m', r)"
  shows "(\<forall>x. r = Inl x \<longrightarrow> root_cause x \<noteq> ErrNesting) \<and> (r = Inr () \<longrightarrow> sm_state m' \<noteq> StateRunning)"
proof (intro conjI allI impI)
  fix x
  assume "r = Inl x"
  with assms(4) show "root_cause x \<noteq> ErrNesting"
    using sound_machine.run_not_exhausted(1) [OF sound_machineI [OF assms(1)] assms(2,3)] by blast
next
  assume "r = Inr ()"
  with assms(4) show "sm_state m' \<noteq> StateRunning"
    by (auto simp: run_machine_def bracket_machine_def finally_do_def Let_def then_do_Inr split: prod.splits
        simp del: run_from.simps dest: run_from_ends)
qed

theorem run_terminates_witness:
  "snd (run_machine example_machine_engine example_machine_graph False (after_signal fresh_example ''go'')) = Inr ()
    \<and> sm_state (fst (run_machine example_machine_engine example_machine_graph False (after_signal fresh_example ''go''))) \<noteq> StateRunning"
proof
  have plain: "engine_plain example_machine_engine"
    by (auto simp: engine_plain_def example_machine_engine_def split: if_splits)
  show r: "snd (run_machine example_machine_engine example_machine_graph False (after_signal fresh_example ''go'')) = Inr ()"
    by code_simp
  with run_terminates [OF example_graph_wf example_reachable(2) [OF example_reachable(1)] plain prod.collapse [symmetric]]
  show "sm_state (fst (run_machine example_machine_engine example_machine_graph False (after_signal fresh_example ''go''))) \<noteq> StateRunning"
    by blast
qed

section \<open>Ancestors and moves\<close>

text \<open>
  The lowest common ancestor of two states is the one state that encloses or is both and that
  every other state enclosing or being both encloses; there is none exactly when the two share no
  ancestor. It is the same state from either side.\<close>

theorem lca_lowest:
  assumes "wf_graph g"
  shows "(get_lca g (Some a) (Some b) = Some c \<longleftrightarrow>
      {d. d \<in> set (parent_chain g a) \<and> d \<in> set (parent_chain g b)} = set (parent_chain g c))
    \<and> (get_lca g (Some a) (Some b) = None \<longleftrightarrow> set (parent_chain g a) \<inter> set (parent_chain g b) = {})
    \<and> get_lca g (Some a) (Some b) = get_lca g (Some b) (Some a)"
proof -
  have lowest: "get_lca g (Some a) (Some b) = Some c \<longleftrightarrow> set (parent_chain g a) \<inter> set (parent_chain g b) = set (parent_chain g c)"
    for a b c
  proof
    assume "get_lca g (Some a) (Some b) = Some c"
    with get_lca_Some [OF assms] ancestor_trans [OF assms] show "set (parent_chain g a) \<inter> set (parent_chain g b) = set (parent_chain g c)"
      by blast
  next
    assume eq: "set (parent_chain g a) \<inter> set (parent_chain g b) = set (parent_chain g c)"
    then have "c \<in> set (parent_chain g a) \<inter> set (parent_chain g b)" by simp
    with eq show "get_lca g (Some a) (Some b) = Some c" unfolding get_lca_Some [OF assms] by blast
  qed
  then have "get_lca g (Some a) (Some b) = get_lca g (Some b) (Some a)"
    by (metis (no_types, lifting) Int_commute option.exhaust)
  with lowest [of a b c] get_lca_None [of g a b] show ?thesis by (simp add: Int_def)
qed

theorem lca_lowest_witness:
  "get_lca nested_graph (Some 2) (Some 4) = Some 0 \<and> get_lca nested_graph (Some 4) (Some 2) = Some 0
    \<and> set (parent_chain nested_graph 0) = {0}"
proof (intro conjI)
  show l: "get_lca nested_graph (Some 2) (Some 4) = Some 0" by code_simp
  with lca_lowest [OF nested_graph_wf, of 2 4 0] show "get_lca nested_graph (Some 4) (Some 2) = Some 0" by metis
  show "set (parent_chain nested_graph 0) = {0}" by code_simp
qed

text \<open>
  C14. What a transition of a machine without regions leaves and enters, when it succeeds, whatever
  guards, behaviors and effects do: it exits, innermost first, the active states except the
  ancestors that source and target keep - the ones both ends share, less the source itself
  when it encloses the target - and enters, outermost first, the target and its enclosing states
  except those kept; each state once, the do behaviors of the states left stopped and those
  entered started, and the target is the active state.\<close>

theorem transition_exits_enters:
  assumes "wf_graph g" "region_free g" "tr_source tr = StateV source" "source \<in> set (parent_chain g current)"
    "sm_simple m = Some current" "transition_to eng g tr target m = (m', Inr ())"
    and left: "left = filter (\<lambda>s. s \<notin> kept_states g source current target) (parent_chain g current)"
    and new: "new = filter (\<lambda>s. s \<notin> kept_states g source current target) (root_to_leaf g target)"
  shows "sm_simple m' = Some target \<and> sm_regions m' = []
    \<and> sm_trace m' = map_option (\<lambda>l. l
        @ map (\<lambda>s. TraceExit (state_name g s) (bh_exit (sg_behaviors g s) \<noteq> [])) left
        @ map (\<lambda>s. TraceEntry (state_name g s) (bh_entry (sg_behaviors g s) \<noteq> [])) new
        @ [TraceTransition (state_name g current) (state_name g target) (trigger_name (tr_trigger tr))]) (sm_trace m)
    \<and> sm_visits m' = sm_visits m @ map (state_name g) new
    \<and> map da_state (sm_do m') = filter (\<lambda>a. a \<notin> set left \<and> \<not> (a \<in> set new \<and> bh_do (sg_behaviors g a) \<noteq> [])) (map da_state (sm_do m))
        @ filter (\<lambda>s. bh_do (sg_behaviors g s) \<noteq> []) new"
proof -
  let ?b = "boundary g tr target (get_lca g (Some current) (Some target))"
  have kept: "ancestors_of g ?b = kept_states g source current target"
    by (rule boundary_keeps(1) [OF assms(1,3,4)])
  have "climb g (Some current) ?b = left"
    unfolding left kept [symmetric]
    using boundary_keeps(2) [OF assms(1,3,4), of target] by (intro climb_filter [OF assms(1)]) (auto split: option.splits)
  moreover have "rev (climb g (Some target) ?b) = new"
    unfolding new kept [symmetric] root_to_leaf_def rev_filter [symmetric]
    using boundary_keeps(2) [OF assms(1,3,4), of target] by (subst climb_filter [OF assms(1)]) (auto split: option.splits)
  ultimately have "observe m' = moved g tr left new current target (observe m)"
    using transition_moves [OF assms(2,1,5) refl assms(6)] by simp
  then show ?thesis by (simp add: observe_def moved_def)
qed

theorem transition_exits_enters_witness:
  "(let m' = fst (transition_to example_machine_engine nested_graph (example_transition 1 (StateV 1) (StateV 4) (on_signal ''go'')) 4
        nested_machine)
    in sm_simple m' = Some 4 \<and> sm_trace m' = Some [TraceExit ''Inner'' False, TraceExit ''Left'' False,
        TraceEntry ''Right'' False, TraceEntry ''Leaf'' False, TraceTransition ''Inner'' ''Leaf'' ''accept go'']
      \<and> map da_state (sm_do nested_machine) = [2] \<and> map da_state (sm_do m') = [4])"
proof -
  let ?tr = "example_transition 1 (StateV 1) (StateV 4) (on_signal ''go'')"
  let ?m = "fst (transition_to example_machine_engine nested_graph ?tr 4 nested_machine)"
  have free: "region_free nested_graph" by (simp add: region_free_def nested_graph_def example_machine_graph_def)
  have src: "tr_source ?tr = StateV 1" by (simp add: example_transition_def)
  have start: "1 \<in> set (parent_chain nested_graph 2)" "sm_simple nested_machine = Some 2" "sm_trace nested_machine = Some []"
    "map da_state (sm_do nested_machine) = [2]" by code_simp+
  have ok: "snd (transition_to example_machine_engine nested_graph ?tr 4 nested_machine) = Inr ()" by code_simp
  then have run: "transition_to example_machine_engine nested_graph ?tr 4 nested_machine = (?m, Inr ())" by (simp add: prod_eq_iff)
  have kept: "kept_states nested_graph 1 2 4 = {0}" by code_simp
  note moved = transition_exits_enters [OF nested_graph_wf free src start(1,2) run refl refl, unfolded kept]
  have left: "filter (\<lambda>s. s \<notin> {0}) (parent_chain nested_graph 2) = [2, 1]" by code_simp
  have new: "filter (\<lambda>s. s \<notin> {0}) (root_to_leaf nested_graph 4) = [3, 4]" by code_simp
  show ?thesis
    using moved unfolding left new start(3,4) Let_def
    by (simp add: state_name_def nested_graph_def example_machine_graph_def example_state_def example_transition_def on_signal_def
        trigger_name_def or_any_def)
qed

section \<open>Dispatching an event\<close>


lemma example_quiet: "quiet example_machine_engine"
  by (simp add: quiet_def example_machine_engine_def)




text \<open>
  C17. Recalling deferred events neither loses nor copies one: an event still deferred stays, in
  its order, and every other one is queued for now with its identity and payload, ahead of the
  events of the pool that arrived after it and are not due before.\<close>

theorem recall_conserves:
  fixes m :: "('t::{linorder, zero}, 'e, 's, 'v, 'c) machine"
  shows "sm_deferred (recall_deferred_events g m) = filter (defers_event g m) (sm_deferred m)
    \<and> mset (sm_queue (recall_deferred_events g m))
      = mset (sm_queue m) + {#ev\<lparr>ev_time := sm_time m\<rparr>. ev \<in># mset (filter (\<lambda>ev. \<not> defers_event g m ev) (sm_deferred m))#}
    \<and> (\<forall>ev \<in> set (sm_deferred m). \<forall>q \<in> set (sm_queue m).
        \<not> is_completion_event q \<and> sm_time m \<le> ev_time q \<and> ev_id ev < ev_id q \<longrightarrow> event_less (ev\<lparr>ev_time := sm_time m\<rparr>) q)"
  by (auto simp: recall_deferred_events_def mset_after_recall intro: recalled_before)

theorem recall_conserves_witness:
  "let m = (after_signal fresh_example ''go'')\<lparr>sm_deferred := [signal_event 1 ''b''], sm_queue := [signal_event 2 ''x'']\<rparr>
   in map ev_id (sm_queue m) = [2] \<and> map ev_id (sm_deferred (recall_deferred_events example_machine_graph m)) = []
     \<and> map ev_id (sm_queue (recall_deferred_events example_machine_graph m)) = [1, 2]
     \<and> event_less ((signal_event 1 ''b'')\<lparr>ev_time := sm_time m\<rparr>) (signal_event 2 ''x'')"
proof -
  let ?m = "(after_signal fresh_example ''go'')\<lparr>sm_deferred := [signal_event 1 ''b''], sm_queue := [signal_event 2 ''x'']\<rparr>"
  have "sm_time (after_signal fresh_example ''go'') = 0" by code_simp
  then have "event_less ((signal_event 1 ''b'')\<lparr>ev_time := sm_time ?m\<rparr>) (signal_event 2 ''x'')"
    using recall_conserves [of example_machine_graph ?m, THEN conjunct2, THEN conjunct2]
    by (simp add: signal_event_def is_completion_event_def)
  moreover have "map ev_id (sm_deferred (recall_deferred_events example_machine_graph ?m)) = []"
    "map ev_id (sm_queue (recall_deferred_events example_machine_graph ?m)) = [1, 2]" by code_simp+
  ultimately show ?thesis by (simp add: Let_def signal_event_def)
qed

section \<open>Do behaviors\<close>

text \<open>
  A round of do behaviors, when it succeeds, runs exactly one action of each running do
  behavior with actions left, in the order the states were entered; it drops the behaviors that
  are finished, leaves the active configuration alone and counts the actions it ran.\<close>

theorem do_round_interleaves:
  assumes "do_ids m" "run_do_round eng g m = (m', Inr k)"
  shows "k = int (length (filter (\<lambda>a. da_pending a \<noteq> []) (sm_do m)))
    \<and> sm_do m' = filter (\<lambda>a. da_pending a \<noteq> []) (map (\<lambda>a. a\<lparr>da_pending := tl (da_pending a)\<rparr>) (sm_do m))
    \<and> sm_trace m' = map_option (\<lambda>l. l @ map (\<lambda>a. TraceDo (state_name g (da_state a))) (filter (\<lambda>a. da_pending a \<noteq> []) (sm_do m))) (sm_trace m)
    \<and> sm_simple m' = sm_simple m \<and> sm_regions m' = sm_regions m"
  using do_round_advances [OF assms] by (simp add: do_named_def)

theorem do_round_interleaves_witness:
  "snd (run_do_round example_machine_engine nested_graph nested_machine) = Inr 1
    \<and> sm_do (fst (run_do_round example_machine_engine nested_graph nested_machine)) = []"
proof -
  have ids: "do_ids nested_machine" by code_simp
  show r: ?thesis
  proof
    show k: "snd (run_do_round example_machine_engine nested_graph nested_machine) = Inr 1" by code_simp
    then have "run_do_round example_machine_engine nested_graph nested_machine
        = (fst (run_do_round example_machine_engine nested_graph nested_machine), Inr 1)" by (simp add: prod_eq_iff)
    from do_round_interleaves [OF ids this]
    have "sm_do (fst (run_do_round example_machine_engine nested_graph nested_machine))
        = filter (\<lambda>a. da_pending a \<noteq> []) (map (\<lambda>a. a\<lparr>da_pending := tl (da_pending a)\<rparr>) (sm_do nested_machine))" by blast
    also have "\<dots> = []" by code_simp
    finally show "sm_do (fst (run_do_round example_machine_engine nested_graph nested_machine)) = []" .
  qed
qed

end
