(* ===== verification/Float64.thy ===== *)
theory Float64
  imports Prelude Complex_Main "HOL-Library.Word" "HOL-Library.Signed_Division"
begin

text \<open>
  The machine numbers of the Go language the evaluators compute with. An \<open>int64\<close> is a 64-bit word
  read with \<open>sint\<close>, whose arithmetic wraps. A \<open>float64\<close> is a value of the IEEE 754 double format: a
  finite one is the rational number it denotes (the two zeros are one, the code never divides by
  one), and every operation rounds the exact result to the nearest double, ties to even.
\<close>

section \<open>Integers\<close>

type_synonym int64 = "64 word"

definition max_int64 :: int where "max_int64 = 9223372036854775807"
definition min_int64 :: int where "min_int64 = - 9223372036854775808"

definition in_int64 :: "int \<Rightarrow> bool" where
  "in_int64 n \<longleftrightarrow> min_int64 \<le> n \<and> n \<le> max_int64"

lemma sint_in_int64 [simp]: "in_int64 (sint (a :: int64))"
  using sint_greater_eq [of a] sint_less [of a]
  by (simp add: in_int64_def min_int64_def max_int64_def)

lemma sint_of_int64: "in_int64 n \<Longrightarrow> sint (word_of_int n :: int64) = n"
  by (simp add: in_int64_def min_int64_def max_int64_def sint_sbintrunc' signed_take_bit_int_eq_self)

text \<open>Go's \<open>/\<close> and \<open>%\<close> on \<open>int64\<close> truncate towards zero.\<close>

definition quo_int64 :: "int64 \<Rightarrow> int64 \<Rightarrow> int64" where
  "quo_int64 a b = word_of_int (sint a sdiv sint b)"

definition rem_int64 :: "int64 \<Rightarrow> int64 \<Rightarrow> int64" where
  "rem_int64 a b = word_of_int (sint a smod sint b)"

section \<open>Rounding\<close>

datatype float64 = NotANumber | Infinite bool | Finite rat

text \<open>The number of binary digits of a positive integer, and the binary logarithm of a rational.\<close>

function bit_size :: "int \<Rightarrow> int" where
  "bit_size n = (if n \<le> 0 then 0 else 1 + bit_size (n div 2))"
  by pat_completeness auto
termination by (relation "measure nat") auto

declare bit_size.simps [simp del]

definition pow2 :: "int \<Rightarrow> rat" where
  "pow2 e = (if 0 \<le> e then 2 ^ nat e else 1 / 2 ^ nat (- e))"

definition log2_floor :: "rat \<Rightarrow> int" where
  "log2_floor q = (case quotient_of q of (n, d) \<Rightarrow>
     let e = bit_size n - bit_size d in if d * 2 ^ nat e \<le> n * 2 ^ nat (- e) then e else e - 1)"

definition round_half_even :: "rat \<Rightarrow> int" where
  "round_half_even q =
     (let f = \<lfloor>q\<rfloor>; r = q - of_int f in
      if r < 1 / 2 then f else if 1 / 2 < r then f + 1 else if even f then f else f + 1)"

definition float_limit :: rat where "float_limit = (2 ^ 32) ^ 32"

definition round64 :: "rat \<Rightarrow> float64" where
  "round64 q =
     (if q = 0 then Finite 0
      else let a = \<bar>q\<bar>; u = pow2 (max (log2_floor a - 52) (- 1074)); r = of_int (round_half_even (a / u)) * u in
        if float_limit \<le> r then Infinite (q < 0) else Finite (if q < 0 then - r else r))"

section \<open>Operations\<close>

fun float_neg :: "float64 \<Rightarrow> float64" where
  "float_neg NotANumber = NotANumber"
| "float_neg (Infinite s) = Infinite (\<not> s)"
| "float_neg (Finite q) = Finite (- q)"

fun float_add :: "float64 \<Rightarrow> float64 \<Rightarrow> float64" where
  "float_add (Finite a) (Finite b) = round64 (a + b)"
| "float_add (Infinite s) (Infinite t) = (if s = t then Infinite s else NotANumber)"
| "float_add (Infinite s) (Finite b) = Infinite s"
| "float_add (Finite a) (Infinite t) = Infinite t"
| "float_add x y = NotANumber"

definition float_sub :: "float64 \<Rightarrow> float64 \<Rightarrow> float64" where
  "float_sub x y = float_add x (float_neg y)"

fun float_mul :: "float64 \<Rightarrow> float64 \<Rightarrow> float64" where
  "float_mul (Finite a) (Finite b) = round64 (a * b)"
| "float_mul (Infinite s) (Infinite t) = Infinite (s \<noteq> t)"
| "float_mul (Infinite s) (Finite b) = (if b = 0 then NotANumber else Infinite (s \<noteq> (b < 0)))"
| "float_mul (Finite a) (Infinite t) = (if a = 0 then NotANumber else Infinite ((a < 0) \<noteq> t))"
| "float_mul x y = NotANumber"

text \<open>Division by a divisor that is not zero; the callers test it.\<close>

fun float_div :: "float64 \<Rightarrow> float64 \<Rightarrow> float64" where
  "float_div (Finite a) (Finite b) = (if b = 0 then NotANumber else round64 (a / b))"
| "float_div (Infinite s) (Finite b) = Infinite (s \<noteq> (b < 0))"
| "float_div (Finite a) (Infinite t) = Finite 0"
| "float_div x y = NotANumber"

definition truncate_rat :: "rat \<Rightarrow> int" where
  "truncate_rat q = (if q < 0 then - \<lfloor>- q\<rfloor> else \<lfloor>q\<rfloor>)"

text \<open>\<open>math.Mod\<close>, whose result is exact, and \<open>math.Trunc\<close>.\<close>

fun float_mod :: "float64 \<Rightarrow> float64 \<Rightarrow> float64" where
  "float_mod (Finite a) (Finite b) = (if b = 0 then NotANumber else Finite (a - b * of_int (truncate_rat (a / b))))"
| "float_mod (Finite a) (Infinite t) = Finite a"
| "float_mod x y = NotANumber"

fun float_trunc :: "float64 \<Rightarrow> float64" where
  "float_trunc (Finite a) = Finite (of_int (truncate_rat a))"
| "float_trunc x = x"

text \<open>Comparisons: a NaN is unordered and unequal to everything, itself included.\<close>

fun float_eq :: "float64 \<Rightarrow> float64 \<Rightarrow> bool" where
  "float_eq (Finite a) (Finite b) \<longleftrightarrow> a = b"
| "float_eq (Infinite s) (Infinite t) \<longleftrightarrow> s = t"
| "float_eq x y \<longleftrightarrow> False"

fun float_less :: "float64 \<Rightarrow> float64 \<Rightarrow> bool" where
  "float_less (Finite a) (Finite b) \<longleftrightarrow> a < b"
| "float_less (Infinite s) (Infinite t) \<longleftrightarrow> s \<and> \<not> t"
| "float_less (Infinite s) (Finite b) \<longleftrightarrow> s"
| "float_less (Finite a) (Infinite t) \<longleftrightarrow> \<not> t"
| "float_less x y \<longleftrightarrow> False"

definition float_le :: "float64 \<Rightarrow> float64 \<Rightarrow> bool" where
  "float_le x y \<longleftrightarrow> float_less x y \<or> float_eq x y"

definition is_zero :: "float64 \<Rightarrow> bool" where
  "is_zero x \<longleftrightarrow> x = Finite 0"

definition is_finite :: "float64 \<Rightarrow> bool" where
  "is_finite x = (case x of Finite _ \<Rightarrow> True | _ \<Rightarrow> False)"

definition float_of_int64 :: "int64 \<Rightarrow> float64" where
  "float_of_int64 a = round64 (of_int (sint a))"

section \<open>Integers below \<open>2\<^sup>5\<^sup>3\<close> convert exactly\<close>

lemma bit_size_le: "n < 2 ^ k \<Longrightarrow> bit_size n \<le> int k"
proof (induction k arbitrary: n)
  case 0
  then show ?case by (simp add: bit_size.simps)
next
  case (Suc k)
  from Suc.prems have "n div 2 < 2 ^ k" by simp
  with Suc.IH [of "n div 2"] show ?case by (subst bit_size.simps) simp
qed

lemma bit_size_pos: "0 < n \<Longrightarrow> 1 \<le> bit_size n"
proof -
  have "0 \<le> bit_size m" for m by (induction m rule: bit_size.induct) (subst bit_size.simps, simp)
  then show "0 < n \<Longrightarrow> 1 \<le> bit_size n" by (subst bit_size.simps) simp
qed

lemma round_half_even_int [simp]: "round_half_even (of_int n) = n"
  by (simp add: round_half_even_def)

lemma pow2_simps: "0 \<le> e \<Longrightarrow> pow2 e = 2 ^ nat e" "e < 0 \<Longrightarrow> pow2 e = 1 / 2 ^ nat (- e)"
  by (simp_all add: pow2_def)

lemma log2_floor_le:
  assumes "0 < n" "n < 2 ^ Suc k"
  shows "log2_floor (of_int n) \<le> int k" "- 1 \<le> log2_floor (of_int n)"
proof -
  have "quotient_of (of_int n) = (n, 1)" by simp
  moreover have "bit_size 1 = 1" by (simp add: bit_size.simps)
  moreover have "bit_size n \<le> int (Suc k)" using assms(2) by (rule bit_size_le)
  moreover have "1 \<le> bit_size n" using assms(1) by (rule bit_size_pos)
  ultimately show "log2_floor (of_int n) \<le> int k" "- 1 \<le> log2_floor (of_int n)"
    by (auto simp: log2_floor_def Let_def)
qed

lemma round64_exact:
  assumes "\<bar>n\<bar> < 2 ^ 53"
  shows "round64 (of_int n) = Finite (of_int n)"
proof (cases "n = 0")
  case False
  define m where "m = \<bar>n\<bar>"
  define e where "e = log2_floor (of_int m) - 52"
  have m: "0 < m" "m < 2 ^ Suc 52" using assms False by (auto simp: m_def)
  have e: "e \<le> 0" "- 1074 \<le> e" using log2_floor_le [OF m] by (auto simp: e_def)
  have u: "(of_int m :: rat) / pow2 e = of_int (m * 2 ^ nat (- e))" "pow2 e * 2 ^ nat (- e) = 1"
    using e(1) by (cases "e = 0"; simp add: pow2_def)+
  have r: "of_int (round_half_even (of_int m / pow2 e)) * pow2 e = of_int m"
    unfolding u(1) round_half_even_int using u(2) by (simp add: mult.assoc mult.commute [of "2 ^ _"])
  have "(of_int m :: rat) < of_int (2 ^ 53)" using m(2) by (subst of_int_less_iff) simp
  also have "(of_int (2 ^ 53) :: rat) < 2 ^ 1024"
    using power_strict_increasing [of 53 1024 "2 :: rat"] by simp
  also have "(2 :: rat) ^ 1024 = float_limit" by (simp add: float_limit_def flip: power_mult)
  finally have limit: "\<not> float_limit \<le> (of_int m :: rat)" by simp
  have abs: "\<bar>of_int n\<bar> = (of_int m :: rat)" by (simp add: m_def)
  have top: "max (log2_floor (of_int m) - 52) (- 1074) = e" using e by (simp add: e_def)
  have "round64 (of_int n) = Finite (if (of_int n :: rat) < 0 then - of_int m else of_int m)"
    using False limit r by (simp only: round64_def Let_def abs top) simp
  then show ?thesis by (simp add: m_def)
qed (simp add: round64_def)

text \<open>Conversion does not separate integers from there on.\<close>

lemma round64_inexact: "round64 (of_int (2 ^ 53 + 1)) = round64 (of_int (2 ^ 53))"
  by code_simp

section \<open>Numbers in text\<close>

text \<open>
  \<open>strconv.ParseInt(s, 10, 64)\<close> and \<open>strconv.ParseFloat(s, 64)\<close> with whether they succeed. Out of
  range, both return the nearest value with the error. The decimal forms are read, the ones the
  lexer has tokens for.
\<close>

definition decimal_digit :: "char \<Rightarrow> bool" where
  "decimal_digit c \<longleftrightarrow> of_char c \<in> {48..57 :: int}"

definition digits_value :: "string \<Rightarrow> int" where
  "digits_value s = fold (\<lambda>c n. 10 * n + (of_char c - 48)) s 0"

definition sign_of :: "string \<Rightarrow> bool \<times> string" where
  "sign_of s = (case s of
     CHR ''+'' # r \<Rightarrow> (False, r)
   | CHR ''-'' # r \<Rightarrow> (True, r)
   | _ \<Rightarrow> (False, s))"

definition parse_int64 :: "string \<Rightarrow> int64 \<times> bool" where
  "parse_int64 s = (case sign_of s of (neg, ds) \<Rightarrow>
     if ds = [] \<or> \<not> list_all decimal_digit ds then (0, False)
     else let n = digits_value ds in
       if neg then (if - n < min_int64 then (word_of_int min_int64, False) else (word_of_int (- n), True))
       else if max_int64 < n then (word_of_int max_int64, False) else (word_of_int n, True))"

definition pow10 :: "int \<Rightarrow> rat" where
  "pow10 e = (if 0 \<le> e then 10 ^ nat e else 1 / 10 ^ nat (- e))"

definition exponent_value :: "string \<Rightarrow> int" where
  "exponent_value s = fold (\<lambda>c e. if e < 10000 then 10 * e + (of_char c - 48) else e) s 0"

definition parse_exponent :: "string \<Rightarrow> int option" where
  "parse_exponent s =
     (if s = [] then Some 0
      else if hd s \<noteq> CHR ''e'' \<and> hd s \<noteq> CHR ''E'' then None
      else case sign_of (tl s) of (neg, ds) \<Rightarrow>
        if ds = [] \<or> \<not> list_all decimal_digit ds then None
        else Some (if neg then - exponent_value ds else exponent_value ds))"

definition parse_float64 :: "string \<Rightarrow> float64 \<times> bool" where
  "parse_float64 s = (case sign_of s of (neg, r) \<Rightarrow>
     let whole = takeWhile decimal_digit r; r1 = dropWhile decimal_digit r;
         part = (if r1 \<noteq> [] \<and> hd r1 = CHR ''.'' then takeWhile decimal_digit (tl r1) else []);
         r2 = (if r1 \<noteq> [] \<and> hd r1 = CHR ''.'' then dropWhile decimal_digit (tl r1) else r1) in
     if whole = [] \<and> part = [] then (Finite 0, False)
     else case parse_exponent r2 of
       None \<Rightarrow> (Finite 0, False)
     | Some e \<Rightarrow>
         let q = of_int (digits_value (whole @ part)) * pow10 (e - int (length part));
             x = round64 (if neg then - q else q)
         in (x, is_finite x))"

end
