(* ===== verification/Const_Eval.thy ===== *)
theory Const_Eval
  imports Float64
begin

text \<open>
  The constant folder, \<open>internal/core/semantics/eval.go\<close>, and multiplicity ranges,
  \<open>internal/core/semantics/multiplicity.go\<close>. Integers are 64-bit words; exponentiation is the one
  operation that detects overflow, and it is proved to detect it exactly. The value of \<open>math.Pow\<close>,
  which the Go library computes to no specified precision, is the argument \<open>mpow\<close>.
\<close>

unbundle bit_operations_syntax

section \<open>Expressions\<close>

text \<open>\<open>ast.OperatorKind\<close>, and the nodes of \<open>ast/expr.go\<close>; the rest of them is \<open>OtherE\<close>.\<close>

datatype operator =
    OpConditional | OpNullCoalesce | OpImplies | OpOr | OpConditionalOr | OpXor | OpAnd | OpConditionalAnd
  | OpEq | OpNeq | OpEqEqEq | OpNeqEqEq | OpHasType | OpIsType | OpAt | OpMetaAt | OpAs | OpMeta
  | OpLt | OpGt | OpLe | OpGe | OpRange | OpAdd | OpSub | OpMul | OpDiv | OpMod | OpPow
  | OpNeg | OpPos | OpBitNot | OpNot | OpAll | OpIndex

datatype 'n expr =
    LiteralInteger string
  | LiteralReal string
  | LiteralBool bool
  | LiteralString string
  | LiteralInfinity
  | NullExpr
  | NameExpr "string list"
  | OperatorExpr operator "'n expr list"
  | SequenceExpr "'n expr list"
  | OtherE 'n

datatype const = ConstInt int64 | ConstReal float64 | ConstBool bool | ConstInfinity

fun is_numeric :: "const \<Rightarrow> bool" where
  "is_numeric (ConstInt _) = True"
| "is_numeric (ConstReal _) = True"
| "is_numeric _ = False"

fun as_real :: "const \<Rightarrow> float64" where
  "as_real (ConstInt a) = float_of_int64 a"
| "as_real (ConstReal x) = x"
| "as_real _ = Finite 0"

section \<open>Exponentiation\<close>

definition mul_int :: "int64 \<Rightarrow> int64 \<Rightarrow> int64 option" where
  "mul_int a b =
     (if a = 0 \<or> b = 0 then Some 0
      else if a = word_of_int min_int64 \<and> b = - 1 \<or> b = word_of_int min_int64 \<and> a = - 1 then None
      else let res = a * b in if quo_int64 res b \<noteq> a then None else Some res)"

lemma half_int64: "sint (signed_drop_bit 1 (n :: int64)) = sint n div 2"
  by (simp add: sint_signed_drop_bit_eq drop_bit_Suc)

function int_pow_loop :: "int64 \<Rightarrow> int64 \<Rightarrow> int64 \<Rightarrow> int64 option" where
  "int_pow_loop res a n =
     (if sint n \<le> 0 then Some res
      else case (if n AND 1 = 1 then mul_int res a else Some res) of
        None \<Rightarrow> None
      | Some res' \<Rightarrow>
          (if signed_drop_bit 1 n = 0 then Some res'
           else case mul_int a a of None \<Rightarrow> None | Some a' \<Rightarrow> int_pow_loop res' a' (signed_drop_bit 1 n)))"
  by pat_completeness auto
termination by (relation "measure (\<lambda>(res, a, n). nat (sint n))") (auto simp: half_int64 [simplified])

declare int_pow_loop.simps [simp del]

definition int_pow :: "int64 \<Rightarrow> int64 \<Rightarrow> int64 option" where
  "int_pow a n = int_pow_loop 1 a n"

datatype eval_error =
    ErrArithmeticDomain | ErrArithmeticOverflow | ErrDivisionByZero | ErrTypeMismatch | ErrOperandType
  | ErrUnsupportedOperator | ErrCalcArity | ErrStepLimitExceeded | ErrElementLimitExceeded
  | ErrReturnOutsideCalc | ErrCalcSideEffect | ErrCalcExternalAssignment | ErrConflictingOutput
  | ErrIndexOutOfRange | ErrBodyArity | ErrNoResultExpression | ErrUnsupportedBodyDeclaration | ErrMultiplicityViolation
  | ErrUnknownParameter | ErrUnresolvedReference | ErrReceiverWithNamedArgs | ErrUnevaluableLibraryFunction
  | ErrFuel | ErrOther string

definition real_pow :: "(float64 \<Rightarrow> float64 \<Rightarrow> float64) \<Rightarrow> float64 \<Rightarrow> float64 \<Rightarrow> (eval_error, const) res" where
  "real_pow mpow base ex =
     (if is_zero base \<and> float_less ex (Finite 0) then Inl ErrArithmeticDomain
      else if float_less base (Finite 0) \<and> \<not> float_eq ex (float_trunc ex) then Inl ErrArithmeticDomain
      else let x = mpow base ex in if is_finite x then Inr (ConstReal x) else Inl ErrArithmeticOverflow)"

definition pow_const :: "(float64 \<Rightarrow> float64 \<Rightarrow> float64) \<Rightarrow> const \<Rightarrow> const \<Rightarrow> (eval_error, const) res" where
  "pow_const mpow l r =
     (if \<not> is_numeric l \<or> \<not> is_numeric r then Inl ErrArithmeticDomain
      else case (l, r) of
        (ConstInt a, ConstInt n) \<Rightarrow>
          (if 0 \<le> sint n
           then (case int_pow a n of Some v \<Rightarrow> Inr (ConstInt v) | None \<Rightarrow> Inl ErrArithmeticOverflow)
           else real_pow mpow (as_real l) (as_real r))
      | _ \<Rightarrow> real_pow mpow (as_real l) (as_real r))"

section \<open>Operators on constants\<close>

definition eval_unary :: "operator \<Rightarrow> const \<Rightarrow> const option" where
  "eval_unary op v =
     (case op of
        OpNeg \<Rightarrow> (case v of ConstInt a \<Rightarrow> Some (ConstInt (- a)) | ConstReal x \<Rightarrow> Some (ConstReal (float_neg x)) | _ \<Rightarrow> None)
      | OpPos \<Rightarrow> (if is_numeric v then Some v else None)
      | OpNot \<Rightarrow> (case v of ConstBool b \<Rightarrow> Some (ConstBool (\<not> b)) | _ \<Rightarrow> None)
      | _ \<Rightarrow> None)"

definition bool_ops :: "operator set" where
  "bool_ops = {OpAnd, OpConditionalAnd, OpOr, OpConditionalOr, OpXor, OpImplies}"

definition eval_bool_op :: "operator \<Rightarrow> bool \<Rightarrow> bool \<Rightarrow> const" where
  "eval_bool_op op a b = ConstBool
     (if op \<in> {OpAnd, OpConditionalAnd} then a \<and> b
      else if op \<in> {OpOr, OpConditionalOr} then a \<or> b
      else if op = OpXor then a \<noteq> b
      else if op = OpImplies then a \<longrightarrow> b
      else False)"

definition eval_equality :: "operator \<Rightarrow> const \<Rightarrow> const \<Rightarrow> const option" where
  "eval_equality op l r =
     map_option (\<lambda>eq. ConstBool (if op = OpNeq then \<not> eq else eq))
       (case (l, r) of
          (ConstBool a, ConstBool b) \<Rightarrow> Some (a = b)
        | _ \<Rightarrow> if is_numeric l \<and> is_numeric r then Some (float_eq (as_real l) (as_real r)) else None)"

definition compare_floats :: "operator \<Rightarrow> float64 \<Rightarrow> float64 \<Rightarrow> bool" where
  "compare_floats op x y =
     (if op = OpLt then float_less x y
      else if op = OpGt then float_less y x
      else if op = OpLe then float_le x y
      else if op = OpGe then float_le y x
      else False)"

definition eval_comparison :: "operator \<Rightarrow> const \<Rightarrow> const \<Rightarrow> const option" where
  "eval_comparison op l r =
     (if is_numeric l \<and> is_numeric r then Some (ConstBool (compare_floats op (as_real l) (as_real r))) else None)"

definition eval_int_arith :: "operator \<Rightarrow> int64 \<Rightarrow> int64 \<Rightarrow> const option" where
  "eval_int_arith op a b =
     (if op = OpAdd then Some (ConstInt (a + b))
      else if op = OpSub then Some (ConstInt (a - b))
      else if op = OpMul then Some (ConstInt (a * b))
      else if op = OpMod then (if b = 0 then None else Some (ConstInt (rem_int64 a b)))
      else None)"

definition eval_real_arith :: "operator \<Rightarrow> float64 \<Rightarrow> float64 \<Rightarrow> const option" where
  "eval_real_arith op x y =
     (if op = OpAdd then Some (ConstReal (float_add x y))
      else if op = OpSub then Some (ConstReal (float_sub x y))
      else if op = OpMul then Some (ConstReal (float_mul x y))
      else if op = OpDiv then (if is_zero y then None else Some (ConstReal (float_div x y)))
      else None)"

definition eval_arithmetic :: "(float64 \<Rightarrow> float64 \<Rightarrow> float64) \<Rightarrow> operator \<Rightarrow> const \<Rightarrow> const \<Rightarrow> const option" where
  "eval_arithmetic mpow op l r =
     (if \<not> is_numeric l \<or> \<not> is_numeric r then None
      else if op = OpPow then (case pow_const mpow l r of Inr v \<Rightarrow> Some v | Inl _ \<Rightarrow> None)
      else case (l, r, op) of
        (ConstInt a, ConstInt b, OpDiv) \<Rightarrow> eval_real_arith op (as_real l) (as_real r)
      | (ConstInt a, ConstInt b, _) \<Rightarrow> eval_int_arith op a b
      | _ \<Rightarrow> eval_real_arith op (as_real l) (as_real r))"

definition eval_binary :: "(float64 \<Rightarrow> float64 \<Rightarrow> float64) \<Rightarrow> operator \<Rightarrow> const \<Rightarrow> const \<Rightarrow> const option" where
  "eval_binary mpow op l r =
     (if op \<in> bool_ops then
        (case (l, r) of (ConstBool a, ConstBool b) \<Rightarrow> Some (eval_bool_op op a b) | _ \<Rightarrow> None)
      else if op \<in> {OpEq, OpNeq} then eval_equality op l r
      else if op \<in> {OpLt, OpGt, OpLe, OpGe} then eval_comparison op l r
      else if op \<in> {OpAdd, OpSub, OpMul, OpDiv, OpMod, OpPow} then eval_arithmetic mpow op l r
      else None)"

text \<open>\<open>evalConst\<close>: nothing for anything outside the constant subset.\<close>

fun eval_const :: "(float64 \<Rightarrow> float64 \<Rightarrow> float64) \<Rightarrow> 'n expr \<Rightarrow> const option" where
  "eval_const mpow (LiteralInteger s) = (case parse_int64 s of (n, ok) \<Rightarrow> if ok then Some (ConstInt n) else None)"
| "eval_const mpow (LiteralReal s) = (case parse_float64 s of (x, ok) \<Rightarrow> if ok then Some (ConstReal x) else None)"
| "eval_const mpow (LiteralBool b) = Some (ConstBool b)"
| "eval_const mpow LiteralInfinity = Some ConstInfinity"
| "eval_const mpow (OperatorExpr op [a]) =
     (if op \<in> {OpNeg, OpPos, OpNot} then (case eval_const mpow a of Some v \<Rightarrow> eval_unary op v | None \<Rightarrow> None) else None)"
| "eval_const mpow (OperatorExpr op [a, b]) =
     (if op \<in> {OpNeg, OpPos, OpNot, OpConditional} then None
      else case eval_const mpow a of
        None \<Rightarrow> None
      | Some l \<Rightarrow> (case eval_const mpow b of None \<Rightarrow> None | Some r \<Rightarrow> eval_binary mpow op l r))"
| "eval_const mpow (OperatorExpr op [c, a, b]) =
     (if op \<noteq> OpConditional then None
      else case eval_const mpow c of
        Some (ConstBool t) \<Rightarrow> (if t then eval_const mpow a else eval_const mpow b)
      | _ \<Rightarrow> None)"
| "eval_const mpow _ = None"

section \<open>Multiplicities\<close>

record bound =
  bd_value :: int64
  bd_infinite :: bool
  bd_known :: bool

record mult_range =
  mr_lower :: bound
  mr_upper :: bound

record 'n multiplicity =
  mu_range :: bool
  mu_lower :: "'n expr option"
  mu_upper :: "'n expr option"

definition unknown_bound :: bound where
  "unknown_bound = \<lparr>bd_value = 0, bd_infinite = False, bd_known = False\<rparr>"

definition bound_of :: "(float64 \<Rightarrow> float64 \<Rightarrow> float64) \<Rightarrow> 'n expr option \<Rightarrow> bound" where
  "bound_of mpow n =
     (case n of
        None \<Rightarrow> unknown_bound
      | Some e \<Rightarrow>
          (case eval_const mpow e of
             Some (ConstInt v) \<Rightarrow> \<lparr>bd_value = v, bd_infinite = False, bd_known = True\<rparr>
           | Some ConstInfinity \<Rightarrow> \<lparr>bd_value = 0, bd_infinite = True, bd_known = True\<rparr>
           | _ \<Rightarrow> unknown_bound))"

definition multiplicity_range :: "(float64 \<Rightarrow> float64 \<Rightarrow> float64) \<Rightarrow> 'n multiplicity option \<Rightarrow> mult_range option" where
  "multiplicity_range mpow m =
     map_option (\<lambda>mult.
        if mu_range mult then \<lparr>mr_lower = bound_of mpow (mu_lower mult), mr_upper = bound_of mpow (mu_upper mult)\<rparr>
        else let b = bound_of mpow (mu_lower mult) in
          if bd_infinite b then \<lparr>mr_lower = \<lparr>bd_value = 0, bd_infinite = False, bd_known = True\<rparr>, mr_upper = b\<rparr>
          else \<lparr>mr_lower = b, mr_upper = b\<rparr>) m"

definition assumed_range :: mult_range where
  "assumed_range =
     (let one = \<lparr>bd_value = 1, bd_infinite = False, bd_known = True\<rparr> in \<lparr>mr_lower = one, mr_upper = one\<rparr>)"

definition effective_multiplicity :: "(float64 \<Rightarrow> float64 \<Rightarrow> float64) \<Rightarrow> 'n multiplicity option \<Rightarrow> mult_range" where
  "effective_multiplicity mpow m = (case multiplicity_range mpow m of Some r \<Rightarrow> r | None \<Rightarrow> assumed_range)"

datatype violation = NoViolation | AboveUpper int64 int64 | BelowLower int64 int64

definition count_violation :: "mult_range \<Rightarrow> int64 \<Rightarrow> violation" where
  "count_violation r n =
     (let u = mr_upper r; l = mr_lower r in
      if bd_known u \<and> \<not> bd_infinite u \<and> sint (bd_value u) < sint n then AboveUpper n (bd_value u)
      else if bd_known l \<and> \<not> bd_infinite l \<and> sint n < sint (bd_value l) then BelowLower n (bd_value l)
      else NoViolation)"

definition lower_le_upper :: "mult_range \<Rightarrow> bool option" where
  "lower_le_upper r =
     (let l = mr_lower r; u = mr_upper r in
      if \<not> bd_known l \<or> \<not> bd_known u then None
      else if bd_infinite u then Some True
      else if bd_infinite l then Some False
      else Some (sint (bd_value l) \<le> sint (bd_value u)))"

section \<open>Exponentiation detects overflow exactly\<close>

lemma word_of_int_sint_mult: "word_of_int (sint a * sint b) = (a * b :: int64)"
  by simp

lemma sint_mult_in_int64: "in_int64 (sint a * sint b) \<Longrightarrow> sint (a * b :: int64) = sint a * sint b"
  using sint_of_int64 [of "sint a * sint b"] by simp

lemma sint_mult_cong: "\<exists>k. sint (a * b :: int64) = sint a * sint b + k * 2 ^ 64"
proof -
  have "(word_of_int (sint (a * b)) :: int64) = word_of_int (sint a * sint b)" by simp
  then have "sint (a * b) mod 2 ^ 64 = (sint a * sint b) mod 2 ^ 64"
    by (simp only: word_of_int_eq_iff take_bit_eq_mod) simp
  then have "(2 :: int) ^ 64 dvd sint (a * b) - sint a * sint b" by (rule mod_eq_dvd_iff [THEN iffD1])
  then obtain k where "sint (a * b) - sint a * sint b = 2 ^ 64 * k" by (rule dvdE)
  then show ?thesis by (intro exI [of _ k]) simp
qed

lemma sdiv_mult_cancel: "(b :: int) \<noteq> 0 \<Longrightarrow> (a * b) sdiv b = a"
  using sdiv_mult_smod_eq [of "a * b" b] by (simp add: smod_int_alt_def abs_mult)

lemma sdiv_in_int64:
  assumes "in_int64 r" "b \<noteq> 0" "\<not> (r = min_int64 \<and> b = - 1)"
  shows "in_int64 (r sdiv b)"
proof -
  have "\<bar>r sdiv b\<bar> = \<bar>r\<bar> div \<bar>b\<bar>"
    using assms(2) by (cases "r = 0") (simp_all add: signed_divide_int_def abs_mult pos_imp_zdiv_nonneg_iff)
  moreover have "\<bar>r\<bar> div \<bar>b\<bar> \<le> 2 ^ 62" if "2 \<le> \<bar>b\<bar>"
  proof -
    have "\<bar>r\<bar> div \<bar>b\<bar> \<le> \<bar>r\<bar> div 2" using that by (intro zdiv_mono2) auto
    also have "\<dots> \<le> 2 ^ 62" using assms(1) by (auto simp: in_int64_def min_int64_def max_int64_def)
    finally show ?thesis .
  qed
  moreover have "b = 1 \<or> b = - 1 \<or> 2 \<le> \<bar>b\<bar>" using assms(2) by auto
  ultimately show ?thesis
    using assms by (auto simp: in_int64_def min_int64_def max_int64_def)
qed

lemma sint_inject: "sint a = sint b \<longleftrightarrow> (a :: int64) = b"
  by (metis signed_word_eqI)

lemma sint_0_iff: "sint (a :: int64) = 0 \<longleftrightarrow> a = 0"
  using sint_inject [of a 0] by simp

lemma small_multiple: "m = k * 2 ^ 64 \<Longrightarrow> \<bar>m\<bar> < c \<Longrightarrow> c \<le> 2 ^ 63 \<Longrightarrow> m = (0 :: int)"
  by (cases "k = 0") (auto simp: abs_mult dest: zdvd_imp_le)

lemma mul_int_exact: "mul_int a b = (if in_int64 (sint a * sint b) then Some (a * b) else None)"
proof (cases "a = 0 \<or> b = 0")
  case True
  then show ?thesis by (auto simp: mul_int_def in_int64_def min_int64_def max_int64_def)
next
  case False
  then have nz: "sint a \<noteq> 0" "sint b \<noteq> 0" by (simp_all add: sint_0_iff)
  let ?p = "sint a * sint b"
  have least: "c = word_of_int min_int64 \<longleftrightarrow> sint c = min_int64" "c = - 1 \<longleftrightarrow> sint c = - 1" for c :: int64
    using sint_inject [of c "word_of_int min_int64"] sint_inject [of c "- 1"] sint_of_int64 [of min_int64]
    by (simp_all add: in_int64_def min_int64_def max_int64_def)
  show ?thesis
  proof (cases "in_int64 ?p")
    case True
    then have s: "sint (a * b) = ?p" by (rule sint_mult_in_int64)
    have "quo_int64 (a * b) b = a"
      unfolding quo_int64_def s using nz by (simp add: sdiv_mult_cancel)
    moreover have "\<not> (a = word_of_int min_int64 \<and> b = - 1 \<or> b = word_of_int min_int64 \<and> a = - 1)"
      using True unfolding least by (auto simp: in_int64_def min_int64_def max_int64_def)
    ultimately show ?thesis using False True by (simp add: mul_int_def Let_def)
  next
    case out: False
    let ?r = "sint (a * b)"
    have "quo_int64 (a * b) b \<noteq> a"
      if guard: "\<not> (a = word_of_int min_int64 \<and> b = - 1 \<or> b = word_of_int min_int64 \<and> a = - 1)"
    proof
      assume q: "quo_int64 (a * b) b = a"
      show False
      proof (cases "in_int64 (?r sdiv sint b)")
        case True
        with q have "?r sdiv sint b = sint a" by (metis quo_int64_def sint_of_int64)
        then have "?r = ?p + ?r smod sint b" by (metis sdiv_mult_smod_eq)
        moreover obtain k where "?r = ?p + k * 2 ^ 64" using sint_mult_cong by blast
        moreover have "\<bar>?r smod sint b\<bar> < \<bar>sint b\<bar>" using nz(2) by (simp add: smod_int_alt_def abs_mult abs_sgn_eq)
        moreover have "\<bar>sint b\<bar> \<le> 2 ^ 63" using sint_in_int64 [of b] by (auto simp: in_int64_def min_int64_def max_int64_def)
        ultimately have "?r smod sint b = 0" using small_multiple [of "?r smod sint b" k "\<bar>sint b\<bar>"] by simp
        with \<open>?r = ?p + ?r smod sint b\<close> sint_in_int64 [of "a * b"] out show False by simp
      next
        case False
        have "?r = min_int64 \<and> sint b = - 1"
          using False sdiv_in_int64 [OF sint_in_int64 nz(2)] by blast
        with q have "a = word_of_int (min_int64 sdiv - 1)" by (simp add: quo_int64_def)
        then have "a = word_of_int min_int64" by (simp add: min_int64_def)
        with guard least \<open>?r = min_int64 \<and> sint b = - 1\<close> show False by simp
      qed
    qed
    with False out show ?thesis by (auto simp: mul_int_def Let_def)
  qed
qed

lemma mul_int_Some: "mul_int a b = Some c \<longleftrightarrow> in_int64 (sint a * sint b) \<and> sint c = sint a * sint b"
  using sint_mult_in_int64 [of a b] by (auto simp: mul_int_exact simp flip: sint_inject)

lemma mul_int_None: "mul_int a b = None \<longleftrightarrow> \<not> in_int64 (sint a * sint b)"
  by (simp add: mul_int_exact)

text \<open>A square outside the range is too large for any multiple of its powers to be inside.\<close>

lemma square_out: "\<not> in_int64 (x * x) \<Longrightarrow> 2 ^ 63 < x * x"
proof -
  have "x * x \<noteq> 2 ^ 63"
  proof (cases "\<bar>x\<bar> \<le> 3037000499")
    case True
    then have "\<bar>x\<bar> * \<bar>x\<bar> \<le> 3037000499 * 3037000499" by (intro mult_mono) auto
    then show ?thesis by (simp flip: abs_mult)
  next
    case False
    then have "3037000500 * 3037000500 \<le> \<bar>x\<bar> * \<bar>x\<bar>" by (intro mult_mono) auto
    then show ?thesis by (simp flip: abs_mult)
  qed
  moreover have "0 \<le> x * x" by simp
  ultimately show "\<not> in_int64 (x * x) \<Longrightarrow> 2 ^ 63 < x * x"
    by (auto simp: in_int64_def min_int64_def max_int64_def)
qed

lemma power_out:
  assumes "\<not> in_int64 (x * x)" "0 < k" "r \<noteq> 0"
  shows "\<not> in_int64 (r * (x * x) ^ k)"
proof -
  have big: "2 ^ 63 < x * x" using assms(1) by (rule square_out)
  then have "x * x \<le> (x * x) ^ k" using assms(2) by (intro self_le_power) auto
  moreover have "1 \<le> \<bar>r\<bar>" using assms(3) by simp
  ultimately have "2 ^ 63 < \<bar>r\<bar> * (x * x) ^ k"
    using big mult_mono [of 1 "\<bar>r\<bar>" "x * x" "(x * x) ^ k"] by simp
  then have "2 ^ 63 < \<bar>r * (x * x) ^ k\<bar>" by (simp add: abs_mult power_abs)
  then show ?thesis by (auto simp: in_int64_def min_int64_def max_int64_def)
qed

lemma factor_out: "\<not> in_int64 m \<Longrightarrow> 1 \<le> y \<Longrightarrow> \<not> in_int64 (m * y)"
proof -
  assume m: "\<not> in_int64 m" and y: "1 \<le> y"
  show "\<not> in_int64 (m * y)"
  proof (cases "0 \<le> m")
    case True
    with y have "m \<le> m * y" using mult_left_mono [of 1 y m] by simp
    moreover have "max_int64 < m" using True m by (auto simp: in_int64_def min_int64_def)
    ultimately show ?thesis unfolding in_int64_def by linarith
  next
    case False
    with y have "m * y \<le> m" using mult_left_mono_neg [of 1 y m] by simp
    moreover have "m < min_int64" using False m by (auto simp: in_int64_def max_int64_def)
    ultimately show ?thesis unfolding in_int64_def by linarith
  qed
qed

lemma odd_word: "n AND 1 = (1 :: int64) \<longleftrightarrow> odd (sint n)"
proof -
  have "n AND 1 = of_bool (odd n)" by (simp add: and_one_eq mod_2_eq_odd)
  moreover have "odd n \<longleftrightarrow> odd (sint n)" by (simp add: bit_sint_iff flip: bit_0)
  ultimately show ?thesis by simp
qed

lemma power_halves: "0 < n \<Longrightarrow> x ^ nat n = (if odd n then x else 1) * (x * x) ^ nat (n div 2)" for x :: int
proof -
  assume "0 < n"
  then have "nat n = 2 * nat (n div 2) + (if odd n then 1 else 0)" by (auto elim!: oddE evenE simp: nat_add_distrib nat_mult_distrib)
  then show ?thesis by (simp add: power_add power_mult power2_eq_square)
qed

lemma int_pow_loop_exact:
  assumes "0 \<le> sint n" "sint res \<noteq> 0 \<or> sint a = 0"
  shows "int_pow_loop res a n = (let p = sint res * sint a ^ nat (sint n) in if in_int64 p then Some (word_of_int p) else None)"
  using assms
proof (induction res a n rule: int_pow_loop.induct)
  case (1 res a n)
  show ?case
  proof (cases "sint n \<le> 0")
    case True
    with 1(2) show ?thesis by (subst int_pow_loop.simps) simp
  next
    case False
    let ?h = "signed_drop_bit 1 n"
    let ?p = "sint res * sint a ^ nat (sint n)"
    define m where "m = (if odd (sint n) then sint res * sint a else sint res)"
    have half: "sint ?h = sint n div 2" by (rule half_int64)
    have p: "?p = m * (sint a * sint a) ^ nat (sint ?h)"
      using False power_halves [of "sint n" "sint a", folded half] by (simp add: mult.assoc m_def)
    have first: "(if n AND 1 = 1 then mul_int res a else Some res) = (if in_int64 m then Some (word_of_int m) else None)"
      by (simp add: odd_word mul_int_exact m_def)
    have zero: "m \<noteq> 0 \<or> sint a = 0" using 1(3) by (auto simp: m_def)
    have h_ge: "0 \<le> sint ?h" using False half by simp
    show ?thesis
    proof (cases "in_int64 m")
      case in_m: True
      then have sm: "sint (word_of_int m :: int64) = m" by (rule sint_of_int64)
      show ?thesis
      proof (cases "?h = 0")
        case True
        then have "nat (sint ?h) = 0" by simp
        with p have "?p = m" by simp
        with True in_m False first show ?thesis by (subst int_pow_loop.simps) (simp add: Let_def)
      next
        case h: False
        then have h0: "0 < nat (sint ?h)" using False half sint_0_iff [of ?h] by linarith
        show ?thesis
        proof (cases "mul_int a a")
          case None
          then have out: "\<not> in_int64 (sint a * sint a)" by (simp add: mul_int_None)
          then have "m \<noteq> 0" using zero by (auto simp: in_int64_def min_int64_def max_int64_def)
          from power_out [OF out h0 this] None in_m h False first p show ?thesis
            by (subst int_pow_loop.simps) (simp add: Let_def)
        next
          case (Some a')
          then have a': "sint a' = sint a * sint a" by (simp add: mul_int_Some)
          have "int_pow_loop (word_of_int m) a' ?h
              = (let q = m * (sint a * sint a) ^ nat (sint ?h) in if in_int64 q then Some (word_of_int q) else None)"
            using 1(1) [of "word_of_int m" a'] Some first in_m h False zero h_ge by (simp add: sm a')
          with Some in_m h False first show ?thesis by (subst int_pow_loop.simps) (simp add: p)
        qed
      qed
    next
      case out_m: False
      then have "sint a \<noteq> 0" using sint_in_int64 [of res] by (auto simp: m_def in_int64_def min_int64_def max_int64_def split: if_splits)
      then have "0 < sint a * sint a" by (simp add: not_square_less_zero order_less_le)
      then have "0 < (sint a * sint a) ^ nat (sint ?h)" by (rule zero_less_power)
      then have "\<not> in_int64 ?p" unfolding p by (intro factor_out [OF out_m]) simp
      with out_m False first show ?thesis by (subst int_pow_loop.simps) (simp add: Let_def)
    qed
  qed
qed

end
