(* ===== verification/Eval.thy ===== *)
theory Eval
  imports Const_Eval Runtime_Context
begin

text \<open>
  The expression evaluator, \<open>internal/core/runtime/eval.go\<close> with the operators of \<open>range.go\<close>,
  \<open>collections.go\<close> and \<open>library_functions.go\<close> it applies: literals, local names, operators and
  sequences, on a context that counts steps and collection elements against its budgets. An
  operator whose operands are constants is answered by the constant folder, any other one is
  computed from its operands. Names that no frame binds, the other nodes of the syntax tree,
  quantities and variants are the record \<open>eval_env\<close>. The trace recorder is off.
\<close>

section \<open>Values\<close>

text \<open>\<open>runtime.Value\<close>: an \<open>'o\<close> is a symbol or a quantity, an \<open>'n\<close> a node whose evaluation is delayed.\<close>

datatype ('n, 'o) rvalue =
    VConst const
  | VNull
  | VString string
  | VInstance int
  | VSequence "('n, 'o) rvalue list"
  | VSet "('n, 'o) rvalue list"
  | VExpr 'n
  | VQuantity 'o
  | VVariant 'o
  | VEnumLiteral 'o

type_synonym ('n, 'o) frame = "string \<Rightarrow> ('n, 'o) rvalue option"

text \<open>The part of the context the evaluator owns: its budgets, and the rest, \<open>'c\<close>.\<close>

record 'c eval_rest =
  er_max_steps :: int
  er_max_elements :: int
  er_outer :: 'c

type_synonym ('n, 'o, 'c) eval_ctx = "(('n, 'o) rvalue, 'c eval_rest) rt_context"
type_synonym ('n, 'o, 'c, 'a) eprog = "(('n, 'o, 'c) eval_ctx, eval_error, 'a) prog"

record ('n, 'o, 'c) eval_env =
  ee_pow :: "float64 \<Rightarrow> float64 \<Rightarrow> float64"
  ee_body_local :: "('n, 'o) frame list \<Rightarrow> string \<Rightarrow> ('n, 'o, 'c, ('n, 'o) rvalue) eprog option"
  ee_outer_name :: "('n, 'o) frame list \<Rightarrow> string list \<Rightarrow> ('n, 'o, 'c, ('n, 'o) rvalue) eprog"
  ee_node :: "('n, 'o) frame list \<Rightarrow> 'n \<Rightarrow> ('n, 'o, 'c, ('n, 'o) rvalue) eprog"
  ee_quantities :: "operator \<Rightarrow> ('n, 'o) rvalue \<Rightarrow> ('n, 'o) rvalue \<Rightarrow> (eval_error, ('n, 'o) rvalue) res"
  ee_quantity_equal :: "'o \<Rightarrow> 'o \<Rightarrow> bool"
  ee_negate_quantity :: "'o \<Rightarrow> 'o"
  ee_variant_value :: "('n, 'o) rvalue \<Rightarrow> ('n, 'o, 'c, ('n, 'o) rvalue) eprog"
  ee_classify :: "('n, 'o) frame list \<Rightarrow> operator \<Rightarrow> 'n expr list \<Rightarrow> ('n, 'o, 'c, ('n, 'o) rvalue) eprog"

definition bool_value :: "bool \<Rightarrow> ('n, 'o) rvalue" where
  "bool_value b = VConst (ConstBool b)"

text \<open>\<open>Lookup\<close>: the innermost frame, the last one pushed, that binds the name.\<close>

definition frame_lookup :: "('n, 'o) frame list \<Rightarrow> string \<Rightarrow> ('n, 'o) rvalue option" where
  "frame_lookup fr n = (case find (\<lambda>f. f n \<noteq> None) (rev fr) of Some f \<Rightarrow> f n | None \<Rightarrow> None)"

fun elements_of :: "('n, 'o) rvalue \<Rightarrow> ('n, 'o) rvalue list" where
  "elements_of (VSequence vs) = vs"
| "elements_of (VSet vs) = vs"
| "elements_of VNull = []"
| "elements_of v = [v]"

section \<open>Budgets\<close>

definition increment_step :: "('n, 'o, 'c, unit) eprog" where
  "increment_step ctx =
     (let ctx1 = ctx\<lparr>rc_steps := rc_steps ctx + 1\<rparr> in
      (ctx1, if er_max_steps (rc_rest ctx1) < rc_steps ctx1 then Inl ErrStepLimitExceeded else Inr ()))"

definition charge_elements :: "int \<Rightarrow> ('n, 'o, 'c, unit) eprog" where
  "charge_elements n ctx =
     (let ctx1 = ctx\<lparr>rc_elements := rc_elements ctx + n\<rparr> in
      (ctx1, if er_max_elements (rc_rest ctx1) < rc_elements ctx1 then Inl ErrElementLimitExceeded else Inr ()))"

definition new_sequence :: "('n, 'o) rvalue list \<Rightarrow> ('n, 'o, 'c, ('n, 'o) rvalue) eprog" where
  "new_sequence vs = then_do (charge_elements (int (length vs))) (\<lambda>_. give (VSequence vs))"

section \<open>Equality\<close>

function (sequential)
  value_equal :: "('n, 'o, 'c) eval_env \<Rightarrow> ('n, 'o) rvalue \<Rightarrow> ('n, 'o) rvalue \<Rightarrow> bool"
  and sequence_equal :: "('n, 'o, 'c) eval_env \<Rightarrow> ('n, 'o) rvalue list \<Rightarrow> ('n, 'o) rvalue list \<Rightarrow> bool"
  and set_equal :: "('n, 'o, 'c) eval_env \<Rightarrow> ('n, 'o) rvalue list \<Rightarrow> ('n, 'o) rvalue list \<Rightarrow> bool"
  and take_equal :: "('n, 'o, 'c) eval_env \<Rightarrow> ('n, 'o) rvalue \<Rightarrow> ('n, 'o) rvalue list \<Rightarrow> ('n, 'o) rvalue list option"
where
  "value_equal env v w \<longleftrightarrow>
     (case v of
        VConst a \<Rightarrow> (case w of VConst b \<Rightarrow> eval_binary (ee_pow env) OpEq a b = Some (ConstBool True) | _ \<Rightarrow> False)
      | VString s \<Rightarrow> w = VString s
      | VNull \<Rightarrow> w = VNull
      | VInstance i \<Rightarrow> w = VInstance i
      | VSequence xs \<Rightarrow> (case w of VSequence ys \<Rightarrow> sequence_equal env xs ys | _ \<Rightarrow> False)
      | VSet xs \<Rightarrow> (case w of VSet ys \<Rightarrow> length xs = length ys \<and> set_equal env xs ys | _ \<Rightarrow> False)
      | VVariant s \<Rightarrow> w = VVariant s
      | VEnumLiteral s \<Rightarrow> w = VEnumLiteral s
      | VQuantity p \<Rightarrow> (case w of VQuantity q \<Rightarrow> ee_quantity_equal env p q | _ \<Rightarrow> False)
      | VExpr _ \<Rightarrow> False)"
| "sequence_equal env [] [] \<longleftrightarrow> True"
| "sequence_equal env (x # xs) (y # ys) \<longleftrightarrow> value_equal env x y \<and> sequence_equal env xs ys"
| "sequence_equal env _ _ \<longleftrightarrow> False"
| "set_equal env [] ys \<longleftrightarrow> True"
| "set_equal env (x # xs) ys \<longleftrightarrow> (case take_equal env x ys of None \<Rightarrow> False | Some ys' \<Rightarrow> set_equal env xs ys')"
| "take_equal env x [] = None"
| "take_equal env x (y # ys) = (if value_equal env x y then Some ys else map_option ((#) y) (take_equal env x ys))"
  by pat_completeness auto

termination
  by (relation "inv_image (less_than <*lex*> less_than) (\<lambda>a. case a of
      Inl (Inl (env, x, y)) \<Rightarrow> (size x, 0)
    | Inl (Inr (env, xs, ys)) \<Rightarrow> (size_list size xs, 0)
    | Inr (Inl (env, xs, ys)) \<Rightarrow> (size_list size xs, 0)
    | Inr (Inr (env, x, ys)) \<Rightarrow> (size x, Suc (length ys)))") auto

text \<open>\<open>valueIdentical\<close>: equal, and of the same kind down to the kind of a constant.\<close>

datatype value_kind =
    KindConst | KindNull | KindString | KindInstance | KindSequence | KindSet | KindExpr | KindQuantity | KindVariant
  | KindEnumLiteral

fun value_kind_of :: "('n, 'o) rvalue \<Rightarrow> value_kind" where
  "value_kind_of (VConst _) = KindConst"
| "value_kind_of VNull = KindNull"
| "value_kind_of (VString _) = KindString"
| "value_kind_of (VInstance _) = KindInstance"
| "value_kind_of (VSequence _) = KindSequence"
| "value_kind_of (VSet _) = KindSet"
| "value_kind_of (VExpr _) = KindExpr"
| "value_kind_of (VQuantity _) = KindQuantity"
| "value_kind_of (VVariant _) = KindVariant"
| "value_kind_of (VEnumLiteral _) = KindEnumLiteral"

fun same_const_kind :: "const \<Rightarrow> const \<Rightarrow> bool" where
  "same_const_kind (ConstInt _) c = (case c of ConstInt _ \<Rightarrow> True | _ \<Rightarrow> False)"
| "same_const_kind (ConstReal _) c = (case c of ConstReal _ \<Rightarrow> True | _ \<Rightarrow> False)"
| "same_const_kind (ConstBool _) c = (case c of ConstBool _ \<Rightarrow> True | _ \<Rightarrow> False)"
| "same_const_kind ConstInfinity c = (c = ConstInfinity)"

definition value_identical :: "('n, 'o, 'c) eval_env \<Rightarrow> ('n, 'o) rvalue \<Rightarrow> ('n, 'o) rvalue \<Rightarrow> bool" where
  "value_identical env v w \<longleftrightarrow>
     value_kind_of v = value_kind_of w
     \<and> (case v of VConst a \<Rightarrow> (case w of VConst b \<Rightarrow> same_const_kind a b | _ \<Rightarrow> True) | _ \<Rightarrow> True)
     \<and> value_equal env v w"

section \<open>Operators on values\<close>

definition bool_operand :: "('n, 'o) rvalue \<Rightarrow> (eval_error, bool) res" where
  "bool_operand v = (case v of VConst (ConstBool b) \<Rightarrow> Inr b | _ \<Rightarrow> Inl ErrTypeMismatch)"

fun int_arith :: "operator \<Rightarrow> int64 \<Rightarrow> int64 \<Rightarrow> (eval_error, int64) res" where
  "int_arith OpAdd a b = Inr (a + b)"
| "int_arith OpSub a b = Inr (a - b)"
| "int_arith OpMul a b = Inr (a * b)"
| "int_arith OpDiv a b = (if b = 0 then Inl ErrDivisionByZero else Inr (quo_int64 a b))"
| "int_arith OpMod a b = (if b = 0 then Inl ErrDivisionByZero else Inr (rem_int64 a b))"
| "int_arith op a b = Inr 0"

fun real_arith :: "operator \<Rightarrow> float64 \<Rightarrow> float64 \<Rightarrow> (eval_error, float64) res" where
  "real_arith OpAdd x y = Inr (float_add x y)"
| "real_arith OpSub x y = Inr (float_sub x y)"
| "real_arith OpMul x y = Inr (float_mul x y)"
| "real_arith OpDiv x y = (if is_zero y then Inl ErrDivisionByZero else Inr (float_div x y))"
| "real_arith OpMod x y = (if is_zero y then Inl ErrDivisionByZero else Inr (float_mod x y))"
| "real_arith op x y = Inr (Finite 0)"

definition map_res :: "('a \<Rightarrow> 'b) \<Rightarrow> ('x, 'a) res \<Rightarrow> ('x, 'b) res" where
  "map_res f r = bind_res r (\<lambda>a. Inr (f a))"

lemma map_res_simps [simp]: "map_res f (Inl x) = Inl x" "map_res f (Inr a) = Inr (f a)"
  by (simp_all add: map_res_def)

text \<open>
  \<open>toReal\<close> reads the real field of any constant that is no integer: a Boolean and the infinity
  count as 0 in real arithmetic and comparisons.
\<close>

definition arith_consts :: "(float64 \<Rightarrow> float64 \<Rightarrow> float64) \<Rightarrow> operator \<Rightarrow> const \<Rightarrow> const \<Rightarrow> (eval_error, const) res" where
  "arith_consts mpow op l r =
     (if op = OpPow then pow_const mpow l r
      else case l of
        ConstInt a \<Rightarrow>
          (case r of
             ConstInt b \<Rightarrow> map_res ConstInt (int_arith op a b)
           | _ \<Rightarrow> map_res ConstReal (real_arith op (as_real l) (as_real r)))
      | _ \<Rightarrow> map_res ConstReal (real_arith op (as_real l) (as_real r)))"

text \<open>\<open>quantityOperands\<close>: an operation on a quantity and a quantity or a number is one on quantities.\<close>

definition as_quantity :: "('n, 'o) rvalue \<Rightarrow> bool" where
  "as_quantity v = (case v of VQuantity _ \<Rightarrow> True | VConst c \<Rightarrow> is_numeric c | _ \<Rightarrow> False)"

definition quantity_operands ::
  "('n, 'o, 'c) eval_env \<Rightarrow> operator \<Rightarrow> ('n, 'o) rvalue \<Rightarrow> ('n, 'o) rvalue \<Rightarrow> (eval_error, ('n, 'o) rvalue) res option" where
  "quantity_operands env op l r =
     (if (value_kind_of l = KindQuantity \<or> value_kind_of r = KindQuantity) \<and> as_quantity l \<and> as_quantity r
      then Some (ee_quantities env op l r) else None)"

definition arith_values ::
  "('n, 'o, 'c) eval_env \<Rightarrow> operator \<Rightarrow> ('n, 'o) rvalue \<Rightarrow> ('n, 'o) rvalue \<Rightarrow> (eval_error, ('n, 'o) rvalue) res" where
  "arith_values env op l r =
     (case (if op = OpAdd then (case l of VString s \<Rightarrow> (case r of VString t \<Rightarrow> Some (s @ t) | _ \<Rightarrow> None) | _ \<Rightarrow> None) else None) of
        Some st \<Rightarrow> Inr (VString st)
      | None \<Rightarrow>
          (case quantity_operands env op l r of
             Some res \<Rightarrow> res
           | None \<Rightarrow>
               (case l of
                  VConst a \<Rightarrow> (case r of VConst b \<Rightarrow> map_res VConst (arith_consts (ee_pow env) op a b) | _ \<Rightarrow> Inl ErrOperandType)
                | _ \<Rightarrow> Inl ErrOperandType)))"

definition result_of :: "(eval_error, 'a) res \<Rightarrow> ('n, 'o, 'c, 'a) eprog" where
  "result_of r = (case r of Inl x \<Rightarrow> throw x | Inr a \<Rightarrow> give a)"

definition is_variant :: "('n, 'o) rvalue \<Rightarrow> bool" where
  "is_variant v = (case v of VVariant _ \<Rightarrow> True | _ \<Rightarrow> False)"

definition equality_values ::
  "('n, 'o, 'c) eval_env \<Rightarrow> operator \<Rightarrow> ('n, 'o) rvalue \<Rightarrow> ('n, 'o) rvalue \<Rightarrow> ('n, 'o, 'c, ('n, 'o) rvalue) eprog" where
  "equality_values env op l r =
     (let compare = (\<lambda>l r. case quantity_operands env op l r of
            Some res \<Rightarrow> result_of res
          | None \<Rightarrow> give (bool_value (if op = OpNeq then \<not> value_equal env l r else value_equal env l r)))
      in if is_variant l \<noteq> is_variant r
         then then_do (ee_variant_value env l) (\<lambda>l'. then_do (ee_variant_value env r) (compare l'))
         else compare l r)"

text \<open>Bytes order strings, \<open>compareStrings\<close>.\<close>

fun string_less :: "string \<Rightarrow> string \<Rightarrow> bool" where
  "string_less s [] = False"
| "string_less [] (c # t) = True"
| "string_less (b # s) (c # t) =
     ((of_char b :: int) < of_char c \<or> b = c \<and> string_less s t)"

definition compare_strings :: "operator \<Rightarrow> string \<Rightarrow> string \<Rightarrow> bool" where
  "compare_strings op s t =
     (if op = OpLt then string_less s t
      else if op = OpLe then s = t \<or> string_less s t
      else if op = OpGt then string_less t s
      else s = t \<or> string_less t s)"

definition compare_ints :: "operator \<Rightarrow> int64 \<Rightarrow> int64 \<Rightarrow> bool" where
  "compare_ints op a b =
     (if op = OpLt then sint a < sint b
      else if op = OpLe then sint a \<le> sint b
      else if op = OpGt then sint b < sint a
      else sint b \<le> sint a)"

definition compare_consts :: "operator \<Rightarrow> const \<Rightarrow> const \<Rightarrow> bool" where
  "compare_consts op l r =
     (case l of
        ConstInt a \<Rightarrow> (case r of ConstInt b \<Rightarrow> compare_ints op a b | _ \<Rightarrow> compare_floats op (as_real l) (as_real r))
      | _ \<Rightarrow> compare_floats op (as_real l) (as_real r))"

definition compare_values ::
  "('n, 'o, 'c) eval_env \<Rightarrow> operator \<Rightarrow> ('n, 'o) rvalue \<Rightarrow> ('n, 'o) rvalue \<Rightarrow> (eval_error, ('n, 'o) rvalue) res" where
  "compare_values env op l r =
     (case quantity_operands env op l r of
        Some res \<Rightarrow> res
      | None \<Rightarrow>
          (case l of
             VString s \<Rightarrow> (case r of VString t \<Rightarrow> Inr (bool_value (compare_strings op s t)) | _ \<Rightarrow> Inl ErrOperandType)
           | VConst a \<Rightarrow>
               (case r of
                  VConst b \<Rightarrow> Inr (bool_value (compare_consts op a b))
                | VString _ \<Rightarrow> Inl ErrOperandType
                | _ \<Rightarrow> Inl (ErrOther ''comparison operands must be constants''))
           | _ \<Rightarrow> (case r of VString _ \<Rightarrow> Inl ErrOperandType | _ \<Rightarrow> Inl (ErrOther ''comparison operands must be constants''))))"

text \<open>What a logical operator answers from its left operand alone.\<close>

definition decided_by_left :: "operator \<Rightarrow> bool \<Rightarrow> bool option" where
  "decided_by_left op l =
     (if op \<in> {OpAnd, OpConditionalAnd} then (if l then None else Some False)
      else if op \<in> {OpOr, OpConditionalOr} then (if l then Some True else None)
      else if op = OpImplies then (if l then None else Some True)
      else None)"

definition logical_value :: "operator \<Rightarrow> bool \<Rightarrow> bool \<Rightarrow> bool" where
  "logical_value op l r =
     (if op \<in> {OpAnd, OpConditionalAnd} then l \<and> r
      else if op \<in> {OpOr, OpConditionalOr} then l \<or> r
      else if op = OpXor then l \<noteq> r
      else l \<longrightarrow> r)"

definition unary_value ::
  "('n, 'o, 'c) eval_env \<Rightarrow> operator \<Rightarrow> ('n, 'o) rvalue \<Rightarrow> (eval_error, ('n, 'o) rvalue) res" where
  "unary_value env op v =
     (if op = OpNot then
        (case v of VConst (ConstBool b) \<Rightarrow> Inr (bool_value (\<not> b)) | _ \<Rightarrow> Inl (ErrOther ''logical not requires bool operand''))
      else case v of
        VQuantity q \<Rightarrow> Inr (if op = OpPos then v else VQuantity (ee_negate_quantity env q))
      | VConst c \<Rightarrow>
          (case eval_unary op c of
             Some c' \<Rightarrow> Inr (VConst c')
           | None \<Rightarrow> Inl (ErrOther ''unary operator is not defined''))
      | _ \<Rightarrow> Inl (ErrOther ''unary operator requires numeric operand''))"

section \<open>Ranges\<close>

definition range_bound :: "('n, 'o) rvalue \<Rightarrow> (eval_error, int64) res" where
  "range_bound v = (case v of VConst (ConstInt a) \<Rightarrow> Inr a | _ \<Rightarrow> Inl ErrTypeMismatch)"

text \<open>The elements of a range, each of which costs a step and an element.\<close>

definition range_sequence ::
  "('n, 'o) rvalue \<Rightarrow> ('n, 'o) rvalue \<Rightarrow> ('n, 'o, 'c, ('n, 'o) rvalue) eprog" where
  "range_sequence lo hi =
     then_do (result_of (range_bound lo)) (\<lambda>a. then_do (result_of (range_bound hi)) (\<lambda>b.
       if sint b < sint a then new_sequence []
       else then_do (for_each (\<lambda>_. then_do increment_step (\<lambda>_. charge_elements 1)) [sint a..sint b])
         (\<lambda>_. give (VSequence (map (\<lambda>i. VConst (ConstInt (word_of_int i))) [sint a..sint b])))))"

section \<open>Evaluation\<close>

datatype operator_class =
    ClassConditional | ClassCoalesce | ClassArithmetic | ClassEquality | ClassIdentity | ClassComparison
  | ClassLogical | ClassUnary | ClassRange | ClassClassification | ClassUnsupported

definition class_of :: "operator \<Rightarrow> operator_class" where
  "class_of op =
     (if op = OpConditional then ClassConditional
      else if op = OpNullCoalesce then ClassCoalesce
      else if op \<in> {OpAdd, OpSub, OpMul, OpDiv, OpMod, OpPow} then ClassArithmetic
      else if op \<in> {OpEq, OpNeq} then ClassEquality
      else if op \<in> {OpEqEqEq, OpNeqEqEq} then ClassIdentity
      else if op \<in> {OpLt, OpLe, OpGt, OpGe} then ClassComparison
      else if op \<in> bool_ops then ClassLogical
      else if op \<in> {OpNeg, OpPos, OpNot} then ClassUnary
      else if op = OpRange then ClassRange
      else if op \<in> {OpAt, OpMetaAt, OpHasType, OpIsType} then ClassClassification
      else ClassUnsupported)"

definition eval_name ::
  "('n, 'o, 'c) eval_env \<Rightarrow> ('n, 'o) frame list \<Rightarrow> string list \<Rightarrow> ('n, 'o, 'c, ('n, 'o) rvalue) eprog" where
  "eval_name env fr ns =
     (case ns of
        [] \<Rightarrow> throw (ErrOther ''empty feature reference'')
      | [n] \<Rightarrow>
          (case ee_body_local env fr n of
             Some p \<Rightarrow> p
           | None \<Rightarrow> (case frame_lookup fr n of Some v \<Rightarrow> give v | None \<Rightarrow> ee_outer_name env fr ns))
      | _ \<Rightarrow> ee_outer_name env fr ns)"

definition strip_quotes :: "string \<Rightarrow> string" where
  "strip_quotes s =
     (if 2 \<le> length s \<and> hd s = CHR 0x22 \<and> last s = CHR 0x22 then butlast (tl s) else s)"

fun eval :: "('n, 'o, 'c) eval_env \<Rightarrow> ('n, 'o) frame list \<Rightarrow> 'n expr \<Rightarrow> ('n, 'o, 'c, ('n, 'o) rvalue) eprog"
  and eval_elements ::
    "('n, 'o, 'c) eval_env \<Rightarrow> ('n, 'o) frame list \<Rightarrow> 'n expr list \<Rightarrow> ('n, 'o, 'c, ('n, 'o) rvalue list) eprog"
where
  "eval env fr (LiteralInteger s) = then_do increment_step (\<lambda>_. give (VConst (ConstInt (fst (parse_int64 s)))))"
| "eval env fr (LiteralReal s) = then_do increment_step (\<lambda>_. give (VConst (ConstReal (fst (parse_float64 s)))))"
| "eval env fr (LiteralBool b) = then_do increment_step (\<lambda>_. give (bool_value b))"
| "eval env fr (LiteralString s) = then_do increment_step (\<lambda>_. give (VString (strip_quotes s)))"
| "eval env fr LiteralInfinity = then_do increment_step (\<lambda>_. throw (ErrOther ''unsupported node type''))"
| "eval env fr NullExpr = then_do increment_step (\<lambda>_. give VNull)"
| "eval env fr (NameExpr ns) = then_do increment_step (\<lambda>_. eval_name env fr ns)"
| "eval env fr (OtherE n) = then_do increment_step (\<lambda>_. ee_node env fr n)"
| "eval env fr (SequenceExpr es) = then_do increment_step (\<lambda>_. then_do (eval_elements env fr es) new_sequence)"
| "eval env fr (OperatorExpr op es) = then_do increment_step (\<lambda>_.
     case eval_const (ee_pow env) (OperatorExpr op es) of
       Some c \<Rightarrow> give (VConst c)
     | None \<Rightarrow>
         (case class_of op of
            ClassConditional \<Rightarrow>
              (case es of
                 [c, a, b] \<Rightarrow>
                   then_do (eval env fr c) (\<lambda>v. then_do (result_of (bool_operand v))
                     (\<lambda>held. if held then eval env fr a else eval env fr b))
               | _ \<Rightarrow> throw (ErrOther ''conditional requires 3 operands''))
          | ClassCoalesce \<Rightarrow>
              (case es of
                 [a, b] \<Rightarrow> then_do (eval env fr a) (\<lambda>l. if l = VNull then eval env fr b else give l)
               | _ \<Rightarrow> throw (ErrOther ''?? requires 2 operands''))
          | ClassArithmetic \<Rightarrow>
              (case es of
                 a # b # _ \<Rightarrow> then_do (eval env fr a) (\<lambda>l. then_do (eval env fr b) (\<lambda>r. result_of (arith_values env op l r)))
               | _ \<Rightarrow> throw (ErrOther ''arithmetic operator requires 2 operands''))
          | ClassEquality \<Rightarrow>
              (case es of
                 [a, b] \<Rightarrow> then_do (eval env fr a) (\<lambda>l. then_do (eval env fr b) (equality_values env op l))
               | _ \<Rightarrow> throw (ErrOther ''equality requires 2 operands''))
          | ClassIdentity \<Rightarrow>
              (case es of
                 [a, b] \<Rightarrow> then_do (eval env fr a) (\<lambda>l. then_do (eval env fr b) (\<lambda>r.
                   give (bool_value (if op = OpNeqEqEq then \<not> value_identical env l r else value_identical env l r))))
               | _ \<Rightarrow> throw (ErrOther ''identity requires 2 operands''))
          | ClassComparison \<Rightarrow>
              (case es of
                 [a, b] \<Rightarrow> then_do (eval env fr a) (\<lambda>l. then_do (eval env fr b) (\<lambda>r. result_of (compare_values env op l r)))
               | _ \<Rightarrow> throw (ErrOther ''comparison requires 2 operands''))
          | ClassLogical \<Rightarrow>
              (case es of
                 [a, b] \<Rightarrow>
                   then_do (eval env fr a) (\<lambda>v. then_do (result_of (bool_operand v)) (\<lambda>l.
                     case decided_by_left op l of
                       Some d \<Rightarrow> give (bool_value d)
                     | None \<Rightarrow>
                         then_do (eval env fr b) (\<lambda>w. then_do (result_of (bool_operand w))
                           (\<lambda>r. give (bool_value (logical_value op l r))))))
               | _ \<Rightarrow> throw (ErrOther ''logical operator requires 2 operands''))
          | ClassUnary \<Rightarrow>
              (case es of
                 [a] \<Rightarrow> then_do (eval env fr a) (\<lambda>v. result_of (unary_value env op v))
               | _ \<Rightarrow> throw (ErrOther ''unary operator requires 1 operand''))
          | ClassRange \<Rightarrow>
              (case es of
                 [a, b] \<Rightarrow> then_do (eval env fr a) (\<lambda>l. then_do (eval env fr b) (range_sequence l))
               | _ \<Rightarrow> throw ErrCalcArity)
          | ClassClassification \<Rightarrow> ee_classify env fr op es
          | ClassUnsupported \<Rightarrow> throw ErrUnsupportedOperator))"
| "eval_elements env fr [] = give []"
| "eval_elements env fr (e # es) =
     then_do (eval env fr e) (\<lambda>v. then_do (eval_elements env fr es) (\<lambda>vs. give (elements_of v @ vs)))"

end
