(* ===== verification/Eval_Properties.thy ===== *)
theory Eval_Properties
  imports Eval
begin

text \<open>
  The two evaluators against each other: where the constant folder answers, naming the literals of
  the expression and evaluating it answers the same, except for the quotient of integers and the
  comparison of large ones; and exponentiation, which both share, is exact.
\<close>

section \<open>Naming the literals of an expression\<close>

fun named :: "('n expr \<Rightarrow> string) \<Rightarrow> 'n expr \<Rightarrow> 'n expr" where
  "named nm (LiteralInteger s) = NameExpr [nm (LiteralInteger s)]"
| "named nm (LiteralReal s) = NameExpr [nm (LiteralReal s)]"
| "named nm (LiteralBool b) = NameExpr [nm (LiteralBool b)]"
| "named nm (OperatorExpr op es) = OperatorExpr op (map (named nm) es)"
| "named nm e = e"

fun node_count :: "'n expr \<Rightarrow> int" where
  "node_count (OperatorExpr op es) = 1 + sum_list (map node_count es)"
| "node_count e = 1"

text \<open>
  The expressions the two agree on: no infinity, no quotient of two integers, and integers are
  compared only below \<open>2\<^sup>5\<^sup>3\<close>, where a double holds them exactly.
\<close>

definition exact_double :: "int64 \<Rightarrow> bool" where
  "exact_double a \<longleftrightarrow> \<bar>sint a\<bar> < 2 ^ 53"

definition same_answer :: "operator \<Rightarrow> const option \<Rightarrow> const option \<Rightarrow> bool" where
  "same_answer op l r =
     (case l of
        Some (ConstInt a) \<Rightarrow>
          (case r of
             Some (ConstInt b) \<Rightarrow>
               op \<noteq> OpDiv \<and> (op \<in> {OpLt, OpLe, OpGt, OpGe} \<longrightarrow> exact_double a \<and> exact_double b)
           | _ \<Rightarrow> True)
      | _ \<Rightarrow> True)"

fun agreeable :: "(float64 \<Rightarrow> float64 \<Rightarrow> float64) \<Rightarrow> 'n expr \<Rightarrow> bool" where
  "agreeable mpow LiteralInfinity = False"
| "agreeable mpow (OperatorExpr op es) \<longleftrightarrow>
     list_all (agreeable mpow) es
     \<and> (case es of [a, b] \<Rightarrow> same_answer op (eval_const mpow a) (eval_const mpow b) | _ \<Rightarrow> True)"
| "agreeable mpow e = True"

fun literal_expr :: "'n expr \<Rightarrow> bool" where
  "literal_expr (LiteralInteger _) = True"
| "literal_expr (LiteralReal _) = True"
| "literal_expr (LiteralBool _) = True"
| "literal_expr _ = False"

definition names_bound ::
  "('n, 'o, 'c) eval_env \<Rightarrow> ('n, 'o) frame list \<Rightarrow> ('n expr \<Rightarrow> string) \<Rightarrow> bool" where
  "names_bound env fr nm \<longleftrightarrow>
     (\<forall>n. ee_body_local env fr n = None)
     \<and> (\<forall>e c. literal_expr e \<longrightarrow> eval_const (ee_pow env) e = Some c \<longrightarrow> frame_lookup fr (nm e) = Some (VConst c))"

lemma named_no_const: "eval_const mpow e = Some c \<Longrightarrow> agreeable mpow e \<Longrightarrow> eval_const mpow (named nm e) = None"
proof (induction mpow e arbitrary: c rule: eval_const.induct)
  case (5 mpow op a)
  then show ?case by (auto split: if_splits option.splits)
next
  case (6 mpow op a b)
  then show ?case by (auto split: if_splits option.splits)
next
  case (7 mpow op a b d)
  then show ?case by (auto split: if_splits option.splits const.splits)
qed auto

text \<open>Evaluation that only spends steps.\<close>

definition spends :: "('n, 'o, 'c, 'a) eprog \<Rightarrow> ('n, 'o, 'c) eval_ctx \<Rightarrow> int \<Rightarrow> 'a \<Rightarrow> bool" where
  "spends p ctx n a \<longleftrightarrow> (\<exists>k. 0 \<le> k \<and> k \<le> n \<and> p ctx = (ctx\<lparr>rc_steps := rc_steps ctx + k\<rparr>, Inr a))"

abbreviation room :: "('n, 'o, 'c) eval_ctx \<Rightarrow> int \<Rightarrow> bool" where
  "room ctx n \<equiv> rc_steps ctx + n \<le> er_max_steps (rc_rest ctx)"

lemma spends_give [simp]: "0 \<le> n \<Longrightarrow> spends (give a) ctx n a"
  unfolding spends_def by (intro exI [of _ 0]) simp

lemma spends_done [simp]: "0 \<le> n \<Longrightarrow> spends (\<lambda>m. (m, Inr a)) ctx n a"
  unfolding spends_def by (intro exI [of _ 0]) simp

lemma spends_mono: "spends p ctx n a \<Longrightarrow> n \<le> m \<Longrightarrow> spends p ctx m a"
  unfolding spends_def by (meson order_trans)

lemma spends_then:
  assumes "spends p ctx n a" "room ctx (n + m)" "\<And>ctx'. room ctx' m \<Longrightarrow> spends (f a) ctx' m b"
  shows "spends (then_do p f) ctx (n + m) b"
proof -
  from assms(1) obtain k where k: "0 \<le> k" "k \<le> n" "p ctx = (ctx\<lparr>rc_steps := rc_steps ctx + k\<rparr>, Inr a)"
    by (auto simp: spends_def)
  with assms(2) assms(3) [of "ctx\<lparr>rc_steps := rc_steps ctx + k\<rparr>"] obtain l where
    "0 \<le> l" "l \<le> m" "f a (ctx\<lparr>rc_steps := rc_steps ctx + k\<rparr>) = (ctx\<lparr>rc_steps := rc_steps ctx + k + l\<rparr>, Inr b)"
    by (auto simp: spends_def)
  with k show ?thesis unfolding spends_def by (intro exI [of _ "k + l"]) (auto simp: add.assoc)
qed

lemma spends_step: "room ctx (1 + n) \<Longrightarrow> 0 \<le> n \<Longrightarrow> (\<And>ctx'. room ctx' n \<Longrightarrow> spends (f ()) ctx' n a)
    \<Longrightarrow> spends (then_do increment_step f) ctx (1 + n) a"
  by (rule spends_then) (auto simp: spends_def increment_step_def Let_def intro!: exI [of _ 1])

lemma result_of_simps [simp]: "result_of (Inr a) = give a" "result_of (Inl x) = throw x"
  by (simp_all add: result_of_def)

lemma node_count_pos: "1 \<le> node_count e"
proof (induction e)
  case (OperatorExpr op es)
  then have "0 \<le> sum_list (map node_count es)" by (intro sum_list_nonneg) force
  then show ?case by simp
qed simp_all

section \<open>Operators on constants agree\<close>

lemma quantity_consts [simp]: "quantity_operands env op (VConst a) (VConst b) = None"
  by (simp add: quantity_operands_def)

lemma exact_double_floats: "exact_double a \<Longrightarrow> float_of_int64 a = Finite (of_int (sint a))"
  unfolding exact_double_def float_of_int64_def by (rule round64_exact)

lemma exact_double_compare:
  assumes "exact_double a" "exact_double b"
  shows "float_less (float_of_int64 a) (float_of_int64 b) \<longleftrightarrow> sint a < sint b"
    and "float_eq (float_of_int64 a) (float_of_int64 b) \<longleftrightarrow> sint a = sint b"
  by (simp_all only: exact_double_floats [OF assms(1)] exact_double_floats [OF assms(2)]
      float_less.simps float_eq.simps of_int_less_iff of_int_eq_iff)

lemma arith_agrees:
  assumes "eval_arithmetic (ee_pow env) op l r = Some c" "same_answer op (Some l) (Some r)"
    "op \<in> {OpAdd, OpSub, OpMul, OpDiv, OpMod, OpPow}"
  shows "arith_values env op (VConst l) (VConst r) = Inr (VConst c)"
  using assms
  by (cases l; cases r)
    (auto simp: arith_values_def arith_consts_def eval_arithmetic_def eval_int_arith_def eval_real_arith_def same_answer_def
      split: if_splits sum.splits)

lemma equality_agrees:
  assumes "eval_equality op l r = Some c" "op \<in> {OpEq, OpNeq}"
  shows "equality_values env op (VConst l) (VConst r) = give (VConst c)"
proof -
  from assms(1) obtain b where b: "eval_equality OpEq l r = Some (ConstBool b)"
    "c = ConstBool (if op = OpNeq then \<not> b else b)"
    by (auto simp: eval_equality_def)
  then have "value_equal env (VConst l) (VConst r) = b"
    by (subst value_equal.simps) (simp add: eval_binary_def bool_ops_def)
  with b(2) show ?thesis by (simp add: equality_values_def is_variant_def bool_value_def)
qed

lemma comparison_agrees:
  assumes "eval_comparison op l r = Some c" "same_answer op (Some l) (Some r)" "op \<in> {OpLt, OpGt, OpLe, OpGe}"
  shows "compare_values env op (VConst l) (VConst r) = Inr (VConst c)"
proof -
  have "compare_consts op l r = compare_floats op (as_real l) (as_real r)"
    using assms(2,3) by (cases l; cases r)
      (auto simp: compare_consts_def compare_ints_def compare_floats_def same_answer_def exact_double_compare float_le_def)
  with assms(1) show ?thesis
    by (auto simp: eval_comparison_def compare_values_def bool_value_def split: if_splits)
qed

lemma binary_class:
  assumes "eval_binary mpow op l r = Some c"
  obtains (logic) a b where "class_of op = ClassLogical" "l = ConstBool a" "r = ConstBool b" "op \<in> bool_ops" "c = ConstBool (logical_value op a b)"
  | (equality) "class_of op = ClassEquality" "op \<in> {OpEq, OpNeq}" "eval_equality op l r = Some c"
  | (comparison) "class_of op = ClassComparison" "op \<in> {OpLt, OpGt, OpLe, OpGe}" "eval_comparison op l r = Some c"
  | (arithmetic) "class_of op = ClassArithmetic" "op \<in> {OpAdd, OpSub, OpMul, OpDiv, OpMod, OpPow}" "eval_arithmetic mpow op l r = Some c"
  using assms
  by (cases op) (auto simp: eval_binary_def class_of_def bool_ops_def eval_bool_op_def logical_value_def split: const.splits)

lemma decided_agrees: "decided_by_left op a = Some d \<Longrightarrow> op \<in> bool_ops \<Longrightarrow> logical_value op a b = d"
  by (auto simp: decided_by_left_def logical_value_def bool_ops_def split: if_splits)

section \<open>The evaluator agrees with the folder\<close>

lemma named_eval:
  assumes "eval_const mpow e = Some c" "mpow = ee_pow env" "agreeable mpow e" "names_bound env fr nm" "room ctx (node_count e)"
  shows "spends (eval env fr (named nm e)) ctx (node_count e) (VConst c)"
  using assms
proof (induction mpow e arbitrary: c ctx rule: eval_const.induct)
  case (5 mpow op a)
  then obtain v where v: "op \<in> {OpNeg, OpPos, OpNot}" "eval_const mpow a = Some v" "eval_unary op v = Some c" "agreeable mpow a"
    by (auto split: if_splits option.splits)
  have out: "eval_const (ee_pow env) (OperatorExpr op [named nm a]) = None"
    using named_no_const [OF 5(2) 5(4), of nm] 5(3) by simp
  have cls: "class_of op = ClassUnary" using v(1) by (auto simp: class_of_def bool_ops_def)
  have un: "unary_value env op (VConst v) = Inr (VConst c)"
    using v(1,3) by (auto simp: unary_value_def eval_unary_def bool_value_def split: const.splits)
  have "spends (then_do (eval env fr (named nm a)) (\<lambda>v. result_of (unary_value env op v))) ctx' (node_count a + 0) (VConst c)"
    if "room ctx' (node_count a)" for ctx'
    using that by (intro spends_then [OF 5(1) [OF v(1,2) 5(3) v(4) 5(5)]]) (auto simp: un)
  moreover have "room ctx (1 + node_count a)" using 5(6) by simp
  ultimately have "spends (eval env fr (OperatorExpr op [named nm a])) ctx (1 + node_count a) (VConst c)"
    using node_count_pos [of a] unfolding eval.simps out option.case cls operator_class.case list.case
    by (intro spends_step) auto
  then show ?case by simp
next
  case (6 mpow op a b)
  then obtain l r where v: "op \<notin> {OpNeg, OpPos, OpNot, OpConditional}" "eval_const mpow a = Some l" "eval_const mpow b = Some r"
    "eval_binary mpow op l r = Some c" "agreeable mpow a" "agreeable mpow b" "same_answer op (Some l) (Some r)"
    by (auto split: if_splits option.splits)
  have out: "eval_const (ee_pow env) (OperatorExpr op [named nm a, named nm b]) = None"
    using named_no_const [OF 6(3) 6(5), of nm] 6(4) by simp
  note runs = 6(1) [OF v(1,2) 6(4) v(5) 6(6)] 6(2) [OF v(1,2,3) 6(4) v(6) 6(6)]
  have both: "spends (then_do (eval env fr (named nm a)) (\<lambda>x. then_do (eval env fr (named nm b)) (k x))) ctx'
      (node_count a + node_count b) (VConst c)"
    if "k (VConst l) (VConst r) = give (VConst c)" "room ctx' (node_count a + node_count b)" for k ctx'
    using that node_count_pos [of b] by (intro spends_then [OF runs(1)] spends_then [OF runs(2), of _ 0, simplified]) auto
  note size = 6(7) node_count_pos [of a] node_count_pos [of b]
  from v(4) have "spends (eval env fr (OperatorExpr op [named nm a, named nm b])) ctx (1 + (node_count a + node_count b)) (VConst c)"
  proof (cases rule: binary_class)
    case (logic x y)
    have "spends (then_do (eval env fr (named nm a)) (\<lambda>v. then_do (result_of (bool_operand v)) (\<lambda>l.
        case decided_by_left op l of Some d \<Rightarrow> give (bool_value d)
        | None \<Rightarrow> then_do (eval env fr (named nm b)) (\<lambda>w. then_do (result_of (bool_operand w))
            (\<lambda>r. give (bool_value (logical_value op l r))))))) ctx' (node_count a + (node_count b + 0)) (VConst c)"
      if "room ctx' (node_count a + node_count b)" for ctx'
      using that node_count_pos [of b] decided_agrees [of op x _ y] logic
      by (intro spends_then [OF runs(1)])
        (auto simp: bool_operand_def bool_value_def split: option.split intro!: spends_then [OF runs(2), of _ 0, simplified])
    with 6(7) logic(1) node_count_pos [of a] node_count_pos [of b] show ?thesis
      unfolding eval.simps out option.case logic(1) operator_class.case list.case by (intro spends_step) auto
  next
    case equality
    note k = both [of "equality_values env op", OF equality_agrees [OF equality(3,2)]]
    show ?thesis
      unfolding eval.simps out option.case equality(1) operator_class.case list.case
      by (intro spends_step k) (use size in auto)
  next
    case comparison
    have "compare_values env op (VConst l) (VConst r) = Inr (VConst c)" by (rule comparison_agrees [OF comparison(3) v(7) comparison(2)])
    note k = both [of "\<lambda>x y. result_of (compare_values env op x y)", unfolded this result_of_simps, OF refl]
    show ?thesis
      unfolding eval.simps out option.case comparison(1) operator_class.case list.case
      by (intro spends_step k) (use size in auto)
  next
    case arithmetic
    have "arith_values env op (VConst l) (VConst r) = Inr (VConst c)"
      by (rule arith_agrees) (use arithmetic v(7) 6(4) in auto)
    note k = both [of "\<lambda>x y. result_of (arith_values env op x y)", unfolded this result_of_simps, OF refl]
    show ?thesis
      unfolding eval.simps out option.case arithmetic(1) operator_class.case list.case
      by (intro spends_step k) (use size in auto)
  qed
  then show ?case by simp
next
  case (7 mpow op a b d)
  then obtain t where v: "\<not> op \<noteq> OpConditional" "eval_const mpow a = Some (ConstBool t)"
    "eval_const mpow (if t then b else d) = Some c" "agreeable mpow a" "agreeable mpow b" "agreeable mpow d"
    by (auto split: if_splits option.splits const.splits)
  have out: "eval_const (ee_pow env) (OperatorExpr op [named nm a, named nm b, named nm d]) = None"
    using named_no_const [OF 7(4) 7(6), of nm] 7(5) by simp
  have branch: "spends (eval env fr (if t then named nm b else named nm d)) ctx' (node_count b + node_count d) (VConst c)"
    if "room ctx' (node_count b + node_count d)" for ctx'
  proof (cases t)
    case True
    with v 7(2) [OF v(1,2) refl _ _ 7(5) v(5) 7(7)] that node_count_pos [of d]
    have "spends (eval env fr (named nm b)) ctx' (node_count b) (VConst c)" by simp
    from spends_mono [OF this, of "node_count b + node_count d"] True node_count_pos [of d] show ?thesis by simp
  next
    case False
    with v 7(3) [OF v(1,2) refl _ _ 7(5) v(6) 7(7)] that node_count_pos [of b]
    have "spends (eval env fr (named nm d)) ctx' (node_count d) (VConst c)" by simp
    from spends_mono [OF this, of "node_count b + node_count d"] False node_count_pos [of b] show ?thesis by simp
  qed
  have cls: "class_of op = ClassConditional" using v(1) by (simp add: class_of_def)
  have "spends (then_do (eval env fr (named nm a)) (\<lambda>v. then_do (result_of (bool_operand v))
      (\<lambda>held. if held then eval env fr (named nm b) else eval env fr (named nm d)))) ctx' (node_count a + (node_count b + node_count d)) (VConst c)"
    if "room ctx' (node_count a + (node_count b + node_count d))" for ctx'
    using that branch node_count_pos [of b] node_count_pos [of d]
    by (intro spends_then [OF 7(1) [OF v(1,2) 7(5) v(4) 7(7)]]) (auto simp: bool_operand_def split: if_splits)
  with 7(8) node_count_pos [of a] node_count_pos [of b] node_count_pos [of d]
  have "spends (eval env fr (OperatorExpr op [named nm a, named nm b, named nm d])) ctx (1 + (node_count a + (node_count b + node_count d))) (VConst c)"
    unfolding eval.simps out option.case cls operator_class.case list.case by (intro spends_step) auto
  then show ?case by (simp add: add.assoc)
qed (auto simp: names_bound_def eval_name_def intro!: spends_step [of _ 0, simplified] split: if_splits)

section \<open>Properties\<close>


text \<open>An environment without quantities, variants or outer names, and the frame that binds every literal.\<close>

definition plain_env :: "(unit, unit, unit) eval_env" where
  "plain_env =
     \<lparr>ee_pow = (\<lambda>x y. NotANumber), ee_body_local = (\<lambda>fr n. None), ee_outer_name = (\<lambda>fr ns. throw ErrUnsupportedOperator),
      ee_node = (\<lambda>fr n. throw ErrUnsupportedOperator), ee_quantities = (\<lambda>op l r. Inl ErrOperandType),
      ee_quantity_equal = (\<lambda>p q. False), ee_negate_quantity = (\<lambda>q. q), ee_variant_value = give,
      ee_classify = (\<lambda>fr op es. throw ErrUnsupportedOperator)\<rparr>"

definition plain_context :: "int \<Rightarrow> (unit, unit, unit) eval_ctx" where
  "plain_context n =
     \<lparr>rc_messages = [], rc_steps = 0, rc_elements = 0, rc_run_depth = 0, rc_max_action_steps = 9,
      rc_max_state_events = 9, rc_max_do_steps = 9, rc_rest = \<lparr>er_max_steps = n, er_max_elements = 9, er_outer = ()\<rparr>\<rparr>"

fun literal_name :: "unit expr \<Rightarrow> string" where
  "literal_name (LiteralInteger s) = CHR ''i'' # s"
| "literal_name (LiteralReal s) = CHR ''r'' # s"
| "literal_name (LiteralBool b) = (if b then ''t'' else ''f'')"
| "literal_name _ = []"

definition literal_frame :: "(unit, unit) frame" where
  "literal_frame n =
     map_option VConst (case n of
        [] \<Rightarrow> None
      | c # s \<Rightarrow>
          (if c = CHR ''i'' then eval_const (ee_pow plain_env) (LiteralInteger s :: unit expr)
           else if c = CHR ''r'' then eval_const (ee_pow plain_env) (LiteralReal s :: unit expr)
           else if n = ''t'' then Some (ConstBool True)
           else if n = ''f'' then Some (ConstBool False)
           else None))"

lemma literal_names_bound: "names_bound plain_env [literal_frame] literal_name"
proof -
  have "frame_lookup [literal_frame] (literal_name e) = Some (VConst c)"
    if "literal_expr e" "eval_const (ee_pow plain_env) e = Some c" for e c
    using that by (cases e) (auto simp: frame_lookup_def literal_frame_def split: if_splits)
  then show ?thesis by (simp add: names_bound_def plain_env_def)
qed

text \<open>\<open>if 2.5 < 3 ? 7 % 4 * 10 else 1\<close>.\<close>

definition sample_expr :: "unit expr" where
  "sample_expr = OperatorExpr OpConditional
     [OperatorExpr OpLt [LiteralReal ''2.5'', LiteralInteger ''3''],
      OperatorExpr OpMul [OperatorExpr OpMod [LiteralInteger ''7'', LiteralInteger ''4''], LiteralInteger ''10''],
      LiteralInteger ''1'']"


text \<open>
  C32. On two names bound to integers the evaluator divides with truncation, where the folder gives
  the real quotient of the same literals; it orders them as integers, but finds them equal when the
  doubles nearest to them are, so an integer can be both greater than and equal to another.\<close>

theorem integer_operators:
  assumes "\<And>n. ee_body_local env fr n = None" "frame_lookup fr x = Some (VConst (ConstInt a))"
    "frame_lookup fr y = Some (VConst (ConstInt b))" "\<not> is_zero (float_of_int64 b)"
    "rc_steps ctx + 3 \<le> er_max_steps (rc_rest ctx)" "parse_int64 s = (a, True)" "parse_int64 t = (b, True)"
  shows "snd (eval env fr (OperatorExpr OpDiv [NameExpr [x], NameExpr [y]]) ctx) = Inr (VConst (ConstInt (quo_int64 a b)))
    \<and> snd (eval env fr (OperatorExpr OpDiv [LiteralInteger s, LiteralInteger t]) ctx)
        = Inr (VConst (ConstReal (float_div (float_of_int64 a) (float_of_int64 b))))
    \<and> snd (eval env fr (OperatorExpr OpGt [NameExpr [x], NameExpr [y]]) ctx) = Inr (bool_value (sint b < sint a))
    \<and> snd (eval env fr (OperatorExpr OpEq [NameExpr [x], NameExpr [y]]) ctx)
        = Inr (bool_value (float_eq (float_of_int64 a) (float_of_int64 b)))"
proof -
  have names: "snd (eval env fr (OperatorExpr op [NameExpr [x], NameExpr [y]]) ctx) = Inr v"
    if "\<And>ctx'. (case class_of op of
          ClassArithmetic \<Rightarrow> result_of (arith_values env op (VConst (ConstInt a)) (VConst (ConstInt b)))
        | ClassComparison \<Rightarrow> result_of (compare_values env op (VConst (ConstInt a)) (VConst (ConstInt b)))
        | _ \<Rightarrow> equality_values env op (VConst (ConstInt a)) (VConst (ConstInt b))) ctx' = (ctx', Inr v)"
      "class_of op \<in> {ClassArithmetic, ClassComparison, ClassEquality}" "op \<notin> {OpNeg, OpPos, OpNot, OpConditional}" for op v
    using that(2,3) that(1) assms(1,2,3,5)
    by (auto simp: then_do_def increment_step_def Let_def eval_name_def)
  have nonzero: "b \<noteq> 0" using assms(4) by (auto simp: float_of_int64_def round64_def is_zero_def)
  have "eval_const (ee_pow env) (OperatorExpr OpDiv [LiteralInteger s, LiteralInteger t :: 'a expr])
      = Some (ConstReal (float_div (float_of_int64 a) (float_of_int64 b)))"
    using assms(4,6,7) by (simp add: eval_binary_def bool_ops_def eval_arithmetic_def eval_real_arith_def)
  then have "snd (eval env fr (OperatorExpr OpDiv [LiteralInteger s, LiteralInteger t]) ctx)
      = Inr (VConst (ConstReal (float_div (float_of_int64 a) (float_of_int64 b))))"
    using assms(5) by (simp add: then_do_def increment_step_def Let_def)
  moreover have "arith_values env OpDiv (VConst (ConstInt a)) (VConst (ConstInt b)) = Inr (VConst (ConstInt (quo_int64 a b)))"
    using nonzero by (simp add: arith_values_def arith_consts_def)
  moreover have "compare_values env OpGt (VConst (ConstInt a)) (VConst (ConstInt b)) = Inr (bool_value (sint b < sint a))"
    by (simp add: compare_values_def compare_consts_def compare_ints_def)
  moreover have "equality_values env OpEq (VConst (ConstInt a)) (VConst (ConstInt b))
      = give (bool_value (float_eq (float_of_int64 a) (float_of_int64 b)))"
    unfolding bool_value_def by (rule equality_agrees) (simp_all add: eval_equality_def)
  ultimately show ?thesis
    by (intro conjI names) (simp_all add: class_of_def)
qed

text \<open>The names \<open>x\<close> and \<open>y\<close> bound to two integers.\<close>

definition two_names :: "int64 \<Rightarrow> int64 \<Rightarrow> (unit, unit) frame" where
  "two_names a b n = (if n = ''x'' then Some (VConst (ConstInt a)) else if n = ''y'' then Some (VConst (ConstInt b)) else None)"

lemma two_names_lookup:
  "frame_lookup [two_names a b] ''x'' = Some (VConst (ConstInt a))"
  "frame_lookup [two_names a b] ''y'' = Some (VConst (ConstInt b))"
  by (simp_all add: frame_lookup_def two_names_def)

theorem integer_operators_witness:
  "snd (eval plain_env [two_names 7 2] (OperatorExpr OpDiv [NameExpr [''x''], NameExpr [''y'']]) (plain_context 9)) = Inr (VConst (ConstInt 3))
    \<and> snd (eval plain_env [two_names 7 2] (OperatorExpr OpDiv [LiteralInteger ''7'', LiteralInteger ''2'']) (plain_context 9))
        = Inr (VConst (ConstReal (Finite (7 / 2))))
    \<and> snd (eval plain_env [two_names 9007199254740993 9007199254740992] (OperatorExpr OpGt [NameExpr [''x''], NameExpr [''y'']]) (plain_context 9))
        = Inr (bool_value True)
    \<and> snd (eval plain_env [two_names 9007199254740993 9007199254740992] (OperatorExpr OpEq [NameExpr [''x''], NameExpr [''y'']]) (plain_context 9))
        = Inr (bool_value True)"
proof -
  have env: "ee_body_local plain_env fr n = None" for fr n by (simp add: plain_env_def)
  have room: "rc_steps (plain_context 9) + 3 \<le> er_max_steps (rc_rest (plain_context 9))" by (simp add: plain_context_def)
  have small: "\<not> is_zero (float_of_int64 2)" "parse_int64 ''7'' = (7, True)" "parse_int64 ''2'' = (2, True)"
    "quo_int64 7 2 = 3" "float_div (float_of_int64 7) (float_of_int64 2) = Finite (7 / 2)" by code_simp+
  have large: "\<not> is_zero (float_of_int64 9007199254740992)"
    "parse_int64 ''9007199254740993'' = (9007199254740993, True)" "parse_int64 ''9007199254740992'' = (9007199254740992, True)"
    "sint (9007199254740992 :: int64) < sint (9007199254740993 :: int64)"
    "float_eq (float_of_int64 9007199254740993) (float_of_int64 9007199254740992)" by code_simp+
  from integer_operators [OF env two_names_lookup small(1) room small(2,3)]
    integer_operators [OF env two_names_lookup large(1) room large(2,3)] small(4,5) large(4,5)
  show ?thesis by simp
qed

text \<open>
  Exponentiation of 64-bit integers is exact: repeated squaring answers the power when it is in
  the range of the type, and an overflow otherwise, whichever multiplication overflows first.\<close>

theorem int_pow_exact:
  assumes "0 \<le> sint n"
  shows "int_pow a n = (if in_int64 (sint a ^ nat (sint n)) then Some (word_of_int (sint a ^ nat (sint n))) else None)"
  using int_pow_loop_exact [OF assms, of 1 a] by (simp add: int_pow_def Let_def)

theorem int_pow_exact_witness:
  "int_pow (- 2) 63 = Some (word_of_int min_int64) \<and> int_pow 2 63 = None \<and> int_pow (- 3) 3 = Some (- 27)"
  using int_pow_exact [of 63 "- 2"] int_pow_exact [of 63 2] int_pow_exact [of 3 "- 3"]
  by (simp add: in_int64_def min_int64_def max_int64_def)

end
