(* ===== verification/Statements.thy ===== *)
theory Statements
  imports Eval
begin

text \<open>
  The statement engine, \<open>internal/core/runtime/statements.go\<close>, and its three hosts,
  \<open>calc_statements.go\<close>, \<open>action_statements.go\<close> and \<open>state_statements.go\<close>: the bodies of calculations,
  action nodes and state behaviors. A body reads and writes the data of its behavior and one frame
  per block entered. Each iteration of a loop and each node of a block's flow spends a step of the
  context's budget; the recursion has the number of steps left as fuel, and the error \<open>ErrFuel\<close>
  that stands for running out of it is shown never to be returned.
\<close>

section \<open>Lowered statements\<close>

datatype loop_kind = LoopWhile | LoopUntil | LoopFor
datatype effect_kind = EffectPerform | EffectAccept | EffectTerminate

text \<open>
  \<open>lower.Statement\<close>. A scope \<open>'sc\<close> is where the statement's names resolve. A block is a statement
  list, or the nodes of a flow of its own: per node its statements and its successors.
\<close>

datatype ('n, 'sc) stmt =
    SendS 'n 'sc
  | AssignS string "'n expr" 'sc
  | DeclareS string "'n expr option" 'sc
  | DeclareUsageS 'n 'sc
  | ReturnS "'n expr option" 'sc
  | IfS "'n expr option" "('n, 'sc) body" "('n, 'sc) body option" 'sc
  | LoopS loop_kind "'n expr option" "'n expr option" string "'n expr option" "('n, 'sc) body" 'sc
  | BlockS "('n, 'sc) body"
  | EffectS effect_kind 'n 'sc
  | UnsupportedS string
and ('n, 'sc) body = Body "('n, 'sc) stmt list" 'sc | FlowBody "(('n, 'sc) stmt list \<times> nat list) list" "nat option" 'sc

primrec body_scope :: "('n, 'sc) body \<Rightarrow> 'sc" where
  "body_scope (Body ss sc) = sc"
| "body_scope (FlowBody nodes initial sc) = sc"

section \<open>The engine's state\<close>

record ('n, 'o, 'c) stmt_state =
  es_ctx :: "('n, 'o, 'c) eval_ctx"
  es_data :: "('n, 'o) frame"
  es_frames :: "('n, 'o) frame list"
  es_activation :: int
  es_result :: "('n, 'o) rvalue"

type_synonym ('n, 'o, 'c, 'a) sprog = "(('n, 'o, 'c) stmt_state, eval_error, 'a) prog"

text \<open>\<open>stmtHost\<close>, with the part of the context that counts activations.\<close>

record ('n, 'o, 'c, 'sc) stmt_host =
  h_env :: "'sc \<Rightarrow> int \<Rightarrow> ('n, 'o, 'c) eval_env"
  h_send :: "'n \<Rightarrow> 'sc \<Rightarrow> ('n, 'o, 'c, unit) sprog"
  h_assign_outer :: "string \<Rightarrow> ('n, 'o) rvalue \<Rightarrow> ('n, 'o, 'c, unit) sprog"
  h_declared_output :: "string \<Rightarrow> bool"
  h_accept_return :: "('n, 'o) rvalue \<Rightarrow> ('n, 'o, 'c, unit) sprog"
  h_effect :: "effect_kind \<Rightarrow> 'n \<Rightarrow> 'sc \<Rightarrow> ('n, 'o, 'c, unit) sprog"
  h_declare_usage :: "'n \<Rightarrow> int \<Rightarrow> ('n, 'o, 'c) eval_ctx \<Rightarrow> ('n, 'o, 'c) eval_ctx \<times> (eval_error, unit) res"
  h_new_activation :: "'c \<Rightarrow> 'c \<times> int"
  h_end_activation :: "int \<Rightarrow> 'c \<Rightarrow> 'c"
  h_set_order :: "('n, 'o) rvalue list \<Rightarrow> ('n, 'o) rvalue list"

section \<open>Frames\<close>

definition empty_frame :: "('n, 'o) frame" where
  "empty_frame = (\<lambda>_. None)"

definition enter_frame :: "('n, 'o, 'c) stmt_state \<Rightarrow> ('n, 'o, 'c) stmt_state" where
  "enter_frame st = st\<lparr>es_frames := es_frames st @ [empty_frame]\<rparr>"

definition leave_frame :: "('n, 'o, 'c) stmt_state \<Rightarrow> ('n, 'o, 'c) stmt_state" where
  "leave_frame st = st\<lparr>es_frames := butlast (es_frames st)\<rparr>"

definition clear_frame :: "('n, 'o, 'c) stmt_state \<Rightarrow> ('n, 'o, 'c) stmt_state" where
  "clear_frame st = st\<lparr>es_frames := butlast (es_frames st) @ [empty_frame]\<rparr>"

definition declare_name :: "string \<Rightarrow> ('n, 'o) rvalue \<Rightarrow> ('n, 'o, 'c) stmt_state \<Rightarrow> ('n, 'o, 'c) stmt_state" where
  "declare_name n v st =
     (if es_frames st = [] then st\<lparr>es_data := (es_data st)(n \<mapsto> v)\<rparr>
      else st\<lparr>es_frames := butlast (es_frames st) @ [(last (es_frames st))(n \<mapsto> v)]\<rparr>)"

text \<open>\<open>assignLocal\<close> over the frames innermost first.\<close>

primrec assign_frames :: "string \<Rightarrow> ('n, 'o) rvalue \<Rightarrow> ('n, 'o) frame list \<Rightarrow> ('n, 'o) frame list option" where
  "assign_frames n v [] = None"
| "assign_frames n v (f # fs) = (if f n \<noteq> None then Some (f(n \<mapsto> v) # fs) else map_option ((#) f) (assign_frames n v fs))"

definition assign_local :: "string \<Rightarrow> ('n, 'o) rvalue \<Rightarrow> ('n, 'o, 'c) stmt_state \<Rightarrow> ('n, 'o, 'c) stmt_state option" where
  "assign_local n v st =
     map_option (\<lambda>fs. st\<lparr>es_frames := rev fs\<rparr>) (assign_frames n v (rev (es_frames st)))"

definition assign_name :: "string \<Rightarrow> ('n, 'o) rvalue \<Rightarrow> ('n, 'o, 'c) stmt_state \<Rightarrow> ('n, 'o, 'c) stmt_state option" where
  "assign_name n v st =
     (case assign_local n v st of
        Some st' \<Rightarrow> Some st'
      | None \<Rightarrow> if es_data st n \<noteq> None then Some (st\<lparr>es_data := (es_data st)(n \<mapsto> v)\<rparr>) else None)"

definition env_values :: "('n, 'o, 'c) stmt_state \<Rightarrow> ('n, 'o) frame" where
  "env_values st = fold (\<lambda>f m. m ++ f) (es_frames st) (es_data st)"

section \<open>Running in the context\<close>

definition in_ctx ::
  "(('n, 'o, 'c) eval_ctx \<Rightarrow> ('n, 'o, 'c) eval_ctx \<times> (eval_error, 'a) res) \<Rightarrow> ('n, 'o, 'c, 'a) sprog" where
  "in_ctx p st = (case p (es_ctx st) of (ctx, r) \<Rightarrow> (st\<lparr>es_ctx := ctx\<rparr>, r))"

definition eval_in ::
  "('n, 'o, 'c, 'sc) stmt_host \<Rightarrow> 'sc \<Rightarrow> 'n expr \<Rightarrow> ('n, 'o, 'c, ('n, 'o) rvalue) sprog" where
  "eval_in h sc e = with_state (\<lambda>st. in_ctx (eval (h_env h sc (es_activation st)) (es_data st # es_frames st) e))"

definition in_activation :: "('n, 'o, 'c, 'sc) stmt_host \<Rightarrow> ('n, 'o, 'c, 'a) sprog \<Rightarrow> ('n, 'o, 'c, 'a) sprog" where
  "in_activation h p = with_state (\<lambda>st0.
     let rest = rc_rest (es_ctx st0); entered = h_new_activation h (er_outer rest) in
     then_do (update (\<lambda>st. st\<lparr>es_ctx := (es_ctx st)\<lparr>rc_rest := rest\<lparr>er_outer := fst entered\<rparr>\<rparr>, es_activation := snd entered\<rparr>))
       (\<lambda>_. finally_do p (\<lambda>st.
          st\<lparr>es_ctx := (es_ctx st)\<lparr>rc_rest := (rc_rest (es_ctx st))\<lparr>er_outer := h_end_activation h (snd entered) (er_outer (rc_rest (es_ctx st)))\<rparr>\<rparr>,
             es_activation := es_activation st0\<rparr>)))"

definition in_frame :: "('n, 'o, 'c, 'a) sprog \<Rightarrow> ('n, 'o, 'c, 'a) sprog" where
  "in_frame p = then_do (update enter_frame) (\<lambda>_. finally_do p leave_frame)"

text \<open>The elements a statement materialized are released when it ends.\<close>

definition element_scope :: "('n, 'o, 'c, 'a) sprog \<Rightarrow> ('n, 'o, 'c, 'a) sprog" where
  "element_scope p = with_state (\<lambda>st0.
     finally_do p (\<lambda>st. st\<lparr>es_ctx := (es_ctx st)\<lparr>rc_elements := rc_elements (es_ctx st0)\<rparr>\<rparr>))"

definition truth_of :: "('n, 'o) rvalue \<Rightarrow> ('n, 'o, 'c, bool) sprog" where
  "truth_of v = (case v of VConst (ConstBool b) \<Rightarrow> give b | _ \<Rightarrow> throw (ErrOther ''condition must evaluate to a Boolean''))"

definition condition ::
  "('n, 'o, 'c, 'sc) stmt_host \<Rightarrow> 'sc \<Rightarrow> 'n expr option \<Rightarrow> ('n, 'o, 'c, bool) sprog" where
  "condition h sc e =
     (case e of
        None \<Rightarrow> throw (ErrOther ''condition is missing'')
      | Some x \<Rightarrow> then_do (eval_in h sc x) truth_of)"

definition optional_value ::
  "('n, 'o, 'c, 'sc) stmt_host \<Rightarrow> 'sc \<Rightarrow> 'n expr option \<Rightarrow> ('n, 'o, 'c, ('n, 'o) rvalue) sprog" where
  "optional_value h sc e = (case e of None \<Rightarrow> give VNull | Some x \<Rightarrow> eval_in h sc x)"

definition for_elements :: "('n, 'o, 'c, 'sc) stmt_host \<Rightarrow> ('n, 'o) rvalue \<Rightarrow> (eval_error, ('n, 'o) rvalue list) res" where
  "for_elements h v =
     (case v of
        VSequence vs \<Rightarrow> Inr vs
      | VSet vs \<Rightarrow> Inr (h_set_order h vs)
      | VNull \<Rightarrow> Inr []
      | _ \<Rightarrow> Inl ErrTypeMismatch)"

definition assign_value ::
  "('n, 'o, 'c, 'sc) stmt_host \<Rightarrow> string \<Rightarrow> ('n, 'o) rvalue \<Rightarrow> ('n, 'o, 'c, unit) sprog" where
  "assign_value h n v = with_state (\<lambda>st.
     case assign_local n v st of
       Some st' \<Rightarrow> update (\<lambda>_. st')
     | None \<Rightarrow>
         (case (if h_declared_output h n then None else assign_name n v st) of
            Some st' \<Rightarrow> update (\<lambda>_. st')
          | None \<Rightarrow> h_assign_outer h n v))"

section \<open>The engine\<close>

datatype stmt_flow = FlowNext | FlowReturn

text \<open>How the size of a statement bounds what it runs before it spends a step.\<close>

fun stmt_weight :: "('n, 'sc) stmt \<Rightarrow> nat" and body_weight :: "('n, 'sc) body \<Rightarrow> nat" where
  "stmt_weight (IfS c t e sc) = 2 + body_weight t + (case e of None \<Rightarrow> 0 | Some b \<Rightarrow> body_weight b)"
| "stmt_weight (LoopS k c u x cl b sc) = 4 + body_weight b"
| "stmt_weight (BlockS b) = 2 + body_weight b"
| "stmt_weight s = 1"
| "body_weight (Body ss sc) = 1 + sum_list (map (\<lambda>s. stmt_weight s + 1) ss)"
| "body_weight (FlowBody nodes initial sc) = 1"

function (sequential)
  run_stmts :: "('n, 'o, 'c, 'sc) stmt_host \<Rightarrow> nat \<Rightarrow> ('n, 'sc) stmt list \<Rightarrow> ('n, 'o, 'c, stmt_flow) sprog"
  and statement :: "('n, 'o, 'c, 'sc) stmt_host \<Rightarrow> nat \<Rightarrow> ('n, 'sc) stmt \<Rightarrow> ('n, 'o, 'c, stmt_flow) sprog"
  and run_block :: "('n, 'o, 'c, 'sc) stmt_host \<Rightarrow> nat \<Rightarrow> ('n, 'sc) body \<Rightarrow> ('n, 'o, 'c, stmt_flow) sprog"
  and block_flow ::
    "('n, 'o, 'c, 'sc) stmt_host \<Rightarrow> nat \<Rightarrow> (('n, 'sc) stmt list \<times> nat list) list \<Rightarrow> nat \<Rightarrow> ('n, 'o, 'c, stmt_flow) sprog"
  and while_loop ::
    "('n, 'o, 'c, 'sc) stmt_host \<Rightarrow> nat \<Rightarrow> loop_kind \<Rightarrow> 'n expr option \<Rightarrow> 'n expr option \<Rightarrow> ('n, 'sc) body
      \<Rightarrow> ('n, 'o, 'c, stmt_flow) sprog"
  and for_loop ::
    "('n, 'o, 'c, 'sc) stmt_host \<Rightarrow> nat \<Rightarrow> string \<Rightarrow> ('n, 'sc) body \<Rightarrow> ('n, 'o) rvalue list \<Rightarrow> ('n, 'o, 'c, stmt_flow) sprog"
where
  "run_stmts h n [] = give FlowNext"
| "run_stmts h n (s # ss) = then_do (statement h n s) (\<lambda>f. if f = FlowReturn then give f else run_stmts h n ss)"
| "statement h n s = element_scope
     (case s of
        SendS m sc \<Rightarrow> then_do (h_send h m sc) (\<lambda>_. give FlowNext)
      | AssignS x e sc \<Rightarrow>
          (if x = [] then throw (ErrOther ''unsupported assignment target'')
           else then_do (eval_in h sc e) (\<lambda>v. then_do (assign_value h x v) (\<lambda>_. give FlowNext)))
      | DeclareS x e sc \<Rightarrow> then_do (optional_value h sc e) (\<lambda>v. then_do (update (declare_name x v)) (\<lambda>_. give FlowNext))
      | DeclareUsageS m sc \<Rightarrow>
          then_do (with_state (\<lambda>st. in_ctx (h_declare_usage h m (es_activation st)))) (\<lambda>_. give FlowNext)
      | ReturnS e sc \<Rightarrow> then_do (optional_value h sc e) (\<lambda>v. then_do (h_accept_return h v) (\<lambda>_. give FlowReturn))
      | IfS c t e sc \<Rightarrow>
          then_do (condition h sc c) (\<lambda>holds.
            if holds then in_frame (in_activation h (run_block h n t))
            else case e of Some b \<Rightarrow> in_frame (in_activation h (run_block h n b)) | None \<Rightarrow> give FlowNext)
      | LoopS k c u x cl b sc \<Rightarrow>
          (if k = LoopFor then
             (if x = [] then throw (ErrOther ''for loop declares no iteration variable'')
              else then_do (case cl of None \<Rightarrow> throw (ErrOther ''unsupported node type'') | Some e \<Rightarrow> eval_in h sc e)
                (\<lambda>v. then_do (case for_elements h v of Inl y \<Rightarrow> throw y | Inr vs \<Rightarrow> give vs)
                  (\<lambda>vs. in_frame (for_loop h n x b vs))))
           else in_frame (while_loop h n k c u b))
      | BlockS b \<Rightarrow> in_frame (in_activation h (run_block h n b))
      | EffectS k m sc \<Rightarrow> then_do (h_effect h k m sc) (\<lambda>_. give FlowNext)
      | UnsupportedS what \<Rightarrow> throw (ErrOther (what @ '' in a body is not executable'')))"
| "run_block h n (Body ss sc) = run_stmts h n ss"
| "run_block h n (FlowBody nodes initial sc) =
     (case initial of None \<Rightarrow> give FlowNext | Some i \<Rightarrow> block_flow h n nodes i)"
| "block_flow h 0 nodes i = then_do (in_ctx increment_step) (\<lambda>_. throw ErrFuel)"
| "block_flow h (Suc n) nodes i =
     then_do (in_ctx increment_step) (\<lambda>_.
       if length nodes \<le> i then give FlowNext
       else then_do (run_stmts h n (fst (nodes ! i))) (\<lambda>f.
         if f = FlowReturn then give f
         else case snd (nodes ! i) of [] \<Rightarrow> give FlowNext | j # _ \<Rightarrow> block_flow h n nodes j))"
| "while_loop h 0 k c u b = then_do (in_ctx increment_step) (\<lambda>_. throw ErrFuel)"
| "while_loop h (Suc n) k c u b =
     then_do (in_ctx increment_step) (\<lambda>_.
     then_do (in_activation h
       (then_do (if k = LoopWhile then condition h (body_scope b) c else give True) (\<lambda>holds.
          if \<not> holds then give (FlowNext, True)
          else then_do (update clear_frame) (\<lambda>_. then_do (run_block h n b) (\<lambda>f.
            if f = FlowReturn then give (f, True)
            else case (if k = LoopUntil then c else u) of
              None \<Rightarrow> give (FlowNext, False)
            | Some e \<Rightarrow> then_do (condition h (body_scope b) (Some e)) (\<lambda>stop. give (FlowNext, stop))))))) (\<lambda>res.
     if snd res \<or> fst res = FlowReturn then give (fst res) else while_loop h n k c u b))"
| "for_loop h n x b [] = give FlowNext"
| "for_loop h n x b (v # vs) =
     then_do (in_ctx increment_step) (\<lambda>_.
     then_do (in_activation h
       (then_do (update clear_frame) (\<lambda>_. then_do (update (declare_name x v)) (\<lambda>_. run_block h n b)))) (\<lambda>f.
     if f = FlowReturn then give f else for_loop h n x b vs))"
  by pat_completeness auto

termination
  by (relation "inv_image (less_than <*lex*> less_than <*lex*> less_than) (\<lambda>a. case a of
      Inl (Inl (h, n, ss)) \<Rightarrow> (n, sum_list (map (\<lambda>s. stmt_weight s + 1) ss), 0)
    | Inl (Inr (Inl (h, n, s))) \<Rightarrow> (n, stmt_weight s, 0)
    | Inl (Inr (Inr (h, n, b))) \<Rightarrow> (n, body_weight b, 0)
    | Inr (Inl (h, n, nodes, i)) \<Rightarrow> (n, 0, 0)
    | Inr (Inr (Inl (h, n, k, c, u, b))) \<Rightarrow> (n, body_weight b + 2, 0)
    | Inr (Inr (Inr (h, n, x, b, vs))) \<Rightarrow> (n, body_weight b + 1, length vs))") auto

section \<open>Hosts\<close>

definition set_data :: "string \<Rightarrow> ('n, 'o) rvalue \<Rightarrow> ('n, 'o, 'c) stmt_state \<Rightarrow> ('n, 'o, 'c) stmt_state" where
  "set_data n v st = st\<lparr>es_data := (es_data st)(n \<mapsto> v)\<rparr>"

text \<open>What is common to the hosts: evaluation, activations and the rendering order of a set.\<close>

record ('n, 'o, 'c, 'sc) host_base =
  hb_env :: "'sc \<Rightarrow> int \<Rightarrow> ('n, 'o, 'c) eval_env"
  hb_declare_usage :: "'n \<Rightarrow> int \<Rightarrow> ('n, 'o, 'c) eval_ctx \<Rightarrow> ('n, 'o, 'c) eval_ctx \<times> (eval_error, unit) res"
  hb_new_activation :: "'c \<Rightarrow> 'c \<times> int"
  hb_end_activation :: "int \<Rightarrow> 'c \<Rightarrow> 'c"
  hb_set_order :: "('n, 'o) rvalue list \<Rightarrow> ('n, 'o) rvalue list"

text \<open>
  A calculation owns its outputs, with whether each is \<open>inout\<close> and whether its declaration gives it a
  value, and its result; it rejects every outside effect.
\<close>

definition calc_declared_output :: "(string \<times> bool \<times> bool) list \<Rightarrow> string \<Rightarrow> bool" where
  "calc_declared_output outs n =
     (n \<noteq> [] \<and> (case map_of outs n of Some (is_inout, _) \<Rightarrow> \<not> is_inout | None \<Rightarrow> False))"

definition calc_assign_outer :: "(string \<times> bool \<times> bool) list \<Rightarrow> string \<Rightarrow> ('n, 'o) rvalue \<Rightarrow> ('n, 'o, 'c, unit) sprog" where
  "calc_assign_outer outs n v =
     (if \<not> calc_declared_output outs n then throw ErrCalcExternalAssignment
      else case map_of outs n of
        Some (_, True) \<Rightarrow> throw ErrConflictingOutput
      | _ \<Rightarrow> update (set_data n v))"

definition calc_host :: "('n, 'o, 'c, 'sc) host_base \<Rightarrow> (string \<times> bool \<times> bool) list \<Rightarrow> ('n, 'o, 'c, 'sc) stmt_host" where
  "calc_host hb outs =
     \<lparr>h_env = hb_env hb,
      h_send = (\<lambda>m sc. throw ErrCalcSideEffect),
      h_assign_outer = calc_assign_outer outs,
      h_declared_output = calc_declared_output outs,
      h_accept_return = (\<lambda>v. update (\<lambda>st. st\<lparr>es_result := v\<rparr>)),
      h_effect = (\<lambda>k m sc. throw ErrCalcSideEffect),
      h_declare_usage = hb_declare_usage hb, h_new_activation = hb_new_activation hb,
      h_end_activation = hb_end_activation hb, h_set_order = hb_set_order hb\<rparr>"

text \<open>
  What the bodies of actions and state behaviors reach outside: posting the message of a send,
  writing a feature of the performer (with whether it has it), performing an action.
\<close>

record ('n, 'o, 'c, 'sc) outside =
  os_send :: "('n, 'o) frame list \<Rightarrow> 'n \<Rightarrow> 'sc \<Rightarrow> ('n, 'o, 'c) eval_ctx \<Rightarrow> ('n, 'o, 'c) eval_ctx \<times> (eval_error, unit) res"
  os_write_feature :: "string \<Rightarrow> ('n, 'o) rvalue \<Rightarrow> ('n, 'o, 'c) eval_ctx \<Rightarrow> ('n, 'o, 'c) eval_ctx \<times> (eval_error, bool) res"
  os_perform :: "'n \<Rightarrow> 'sc \<Rightarrow> ('n, 'o) frame \<Rightarrow> ('n, 'o, 'c) eval_ctx
    \<Rightarrow> ('n, 'o, 'c) eval_ctx \<times> (eval_error, (string \<times> ('n, 'o) rvalue) list) res"
  os_parameter :: "string \<Rightarrow> bool"

definition outside_send :: "('n, 'o, 'c, 'sc) outside \<Rightarrow> 'n \<Rightarrow> 'sc \<Rightarrow> ('n, 'o, 'c, unit) sprog" where
  "outside_send os m sc = with_state (\<lambda>st. in_ctx (os_send os (es_data st # es_frames st) m sc))"

definition feature_or_data :: "('n, 'o, 'c, 'sc) outside \<Rightarrow> string \<Rightarrow> ('n, 'o) rvalue \<Rightarrow> ('n, 'o, 'c, unit) sprog" where
  "feature_or_data os n v =
     then_do (in_ctx (os_write_feature os n v)) (\<lambda>written. if written then give () else update (set_data n v))"

definition assign_output :: "string \<times> ('n, 'o) rvalue \<Rightarrow> ('n, 'o, 'c) stmt_state \<Rightarrow> ('n, 'o, 'c) stmt_state" where
  "assign_output nv st = (case assign_name (fst nv) (snd nv) st of Some st' \<Rightarrow> st' | None \<Rightarrow> set_data (fst nv) (snd nv) st)"

definition action_host :: "('n, 'o, 'c, 'sc) host_base \<Rightarrow> ('n, 'o, 'c, 'sc) outside \<Rightarrow> ('n, 'o, 'c, 'sc) stmt_host" where
  "action_host hb os =
     \<lparr>h_env = hb_env hb,
      h_send = outside_send os,
      h_assign_outer = (\<lambda>n v. if os_parameter os n then update (set_data n v) else feature_or_data os n v),
      h_declared_output = (\<lambda>_. False),
      h_accept_return = (\<lambda>v. throw ErrReturnOutsideCalc),
      h_effect = (\<lambda>k m sc.
        if k \<noteq> EffectPerform then throw (ErrOther ''effect in a body is not executable'')
        else then_do (with_state (\<lambda>st. in_ctx (os_perform os m sc (env_values st))))
          (\<lambda>outs. for_each (\<lambda>nv. update (assign_output nv)) outs)),
      h_declare_usage = hb_declare_usage hb, h_new_activation = hb_new_activation hb,
      h_end_activation = hb_end_activation hb, h_set_order = hb_set_order hb\<rparr>"

text \<open>A state behavior performs an action on the machine's data alone, whatever blocks are entered.\<close>

definition state_host :: "('n, 'o, 'c, 'sc) host_base \<Rightarrow> ('n, 'o, 'c, 'sc) outside \<Rightarrow> ('n, 'o, 'c, 'sc) stmt_host" where
  "state_host hb os =
     \<lparr>h_env = hb_env hb,
      h_send = outside_send os,
      h_assign_outer = feature_or_data os,
      h_declared_output = (\<lambda>_. False),
      h_accept_return = (\<lambda>v. throw ErrReturnOutsideCalc),
      h_effect = (\<lambda>k m sc.
        if k \<noteq> EffectPerform then throw (ErrOther ''effect in a body is not executable'')
        else then_do (with_state (\<lambda>st. in_ctx (os_perform os m sc (es_data st))))
          (\<lambda>outs. for_each (\<lambda>nv. update (set_data (fst nv) (snd nv))) outs)),
      h_declare_usage = hb_declare_usage hb, h_new_activation = hb_new_activation hb,
      h_end_activation = hb_end_activation hb, h_set_order = hb_set_order hb\<rparr>"

section \<open>Running a body\<close>

text \<open>The steps left in the budget are the fuel a body needs.\<close>

definition stmt_fuel :: "('n, 'o, 'c) eval_ctx \<Rightarrow> nat" where
  "stmt_fuel ctx = nat (er_max_steps (rc_rest ctx) - rc_steps ctx + 1)"

definition new_engine ::
  "('n, 'o, 'c, 'sc) stmt_host \<Rightarrow> ('n, 'o, 'c) eval_ctx \<Rightarrow> ('n, 'o) frame \<Rightarrow> ('n, 'o, 'c) stmt_state" where
  "new_engine h ctx data =
     (let entered = h_new_activation h (er_outer (rc_rest ctx)) in
      \<lparr>es_ctx = ctx\<lparr>rc_rest := (rc_rest ctx)\<lparr>er_outer := fst entered\<rparr>\<rparr>, es_data = data, es_frames = [],
       es_activation = snd entered, es_result = VNull\<rparr>)"

definition finish_engine :: "('n, 'o, 'c, 'sc) stmt_host \<Rightarrow> ('n, 'o, 'c) stmt_state \<Rightarrow> ('n, 'o, 'c) stmt_state" where
  "finish_engine h st =
     st\<lparr>es_ctx := (es_ctx st)\<lparr>rc_rest := (rc_rest (es_ctx st))\<lparr>er_outer :=
       h_end_activation h (es_activation st) (er_outer (rc_rest (es_ctx st)))\<rparr>\<rparr>\<rparr>"

text \<open>\<open>executeBody\<close> of an action node, \<open>executeBehavior\<close> of a state and \<open>runCalcSteps\<close>.\<close>

definition execute_statements ::
  "('n, 'o, 'c, 'sc) stmt_host \<Rightarrow> ('n, 'sc) stmt list \<Rightarrow> ('n, 'o, 'c) eval_ctx \<Rightarrow> ('n, 'o) frame
    \<Rightarrow> ('n, 'o, 'c) eval_ctx \<times> ('n, 'o) frame \<times> eval_error option" where
  "execute_statements h ss ctx data =
     (case finally_do (run_stmts h (stmt_fuel ctx) ss) (finish_engine h) (new_engine h ctx data) of
        (st, r) \<Rightarrow> (es_ctx st, es_data st, case r of Inl x \<Rightarrow> Some x | Inr _ \<Rightarrow> None))"

definition execute_state_behavior ::
  "('n, 'o, 'c, 'sc) host_base \<Rightarrow> ('n, 'o, 'c, 'sc) outside \<Rightarrow> ('n, 'sc) stmt list \<Rightarrow> ('n, 'o, 'c) eval_ctx \<Rightarrow> ('n, 'o) frame
    \<Rightarrow> ('n, 'o, 'c) eval_ctx \<times> ('n, 'o) frame \<times> eval_error option" where
  "execute_state_behavior hb os ss ctx data =
     (if ss = [] then (ctx, data, None) else execute_statements (state_host hb os) ss ctx data)"

definition run_calc_steps ::
  "('n, 'o, 'c, 'sc) host_base \<Rightarrow> (string \<times> bool \<times> bool) list \<Rightarrow> ('n, 'sc) stmt list \<Rightarrow> ('n, 'o, 'c) eval_ctx \<Rightarrow> ('n, 'o) frame
    \<Rightarrow> ('n, 'o, 'c) stmt_state \<times> (eval_error, ('n, 'o) rvalue \<times> bool) res" where
  "run_calc_steps hb outs ss ctx bindings =
     (let h = calc_host hb outs in
      then_do (run_stmts h (stmt_fuel ctx) ss)
        (\<lambda>f. with_state (\<lambda>st. give (es_result st, f = FlowReturn))) (new_engine h ctx bindings))"

end
