(* ===== verification/Statement_Properties.thy ===== *)
theory Statement_Properties
  imports Statements Eval_Properties
begin

text \<open>
  What running statements keeps: the frames of the enclosing blocks declare the same names after a
  block as before it, whatever it does and however it ends, and the data of the behavior only
  gains what its host lets it write.
\<close>

section \<open>Scopes\<close>

text \<open>
  The state between statements: the names each frame declares, the activation, and a property of
  the data; \<open>inside\<close> leaves the names of the innermost frame open.
\<close>

definition scoped :: "(('n, 'o) frame \<Rightarrow> bool) \<Rightarrow> string set list \<Rightarrow> int \<Rightarrow> ('n, 'o, 'c) stmt_state \<Rightarrow> bool" where
  "scoped Q ds a st \<longleftrightarrow> map dom (es_frames st) = ds \<and> es_activation st = a \<and> Q (es_data st)"

definition inside :: "(('n, 'o) frame \<Rightarrow> bool) \<Rightarrow> string set list \<Rightarrow> int \<Rightarrow> ('n, 'o, 'c) stmt_state \<Rightarrow> bool" where
  "inside Q ds a st \<longleftrightarrow> map dom (butlast (es_frames st)) = ds \<and> es_frames st \<noteq> [] \<and> es_activation st = a \<and> Q (es_data st)"

definition keeps_scope :: "(('n, 'o) frame \<Rightarrow> bool) \<Rightarrow> ('n, 'o, 'c, 'a) sprog \<Rightarrow> bool" where
  "keeps_scope Q p \<longleftrightarrow> (\<forall>ds a. keeps (scoped Q ds a) p)"

definition keeps_outer :: "(('n, 'o) frame \<Rightarrow> bool) \<Rightarrow> ('n, 'o, 'c, 'a) sprog \<Rightarrow> bool" where
  "keeps_outer Q p \<longleftrightarrow> (\<forall>ds a. keeps (inside Q ds a) p)"

lemma scope_outer: "keeps_scope Q p \<Longrightarrow> keeps_outer Q p"
proof -
  assume p: "keeps_scope Q p"
  have "inside Q ds a (fst (p st))" if "inside Q ds a st" for ds a st
  proof -
    from that have "scoped Q (map dom (es_frames st)) a st" by (simp add: inside_def scoped_def)
    with p have "scoped Q (map dom (es_frames st)) a (fst (p st))" by (simp add: keeps_scope_def maintains_def)
    with that show ?thesis by (auto simp: inside_def scoped_def map_butlast)
  qed
  then show ?thesis by (simp add: keeps_outer_def maintains_def)
qed

lemma keeps_scope_intros:
  "keeps_scope Q (give b)" "keeps_scope Q (throw x)"
  "keeps_scope Q p \<Longrightarrow> (\<And>b. keeps_scope Q (f b)) \<Longrightarrow> keeps_scope Q (then_do p f)"
  "(\<And>st. keeps_scope Q (k st)) \<Longrightarrow> keeps_scope Q (with_state k)"
  "(\<And>b. b \<in> set bs \<Longrightarrow> keeps_scope Q (g b)) \<Longrightarrow> keeps_scope Q (for_each g bs)"
  by (auto simp: keeps_scope_def intro: keeps_intros maintains_throw)

lemma keeps_scope_in_ctx: "keeps_scope Q (in_ctx q)"
  by (auto simp: keeps_scope_def in_ctx_def scoped_def maintains_def split: prod.splits)

lemma keeps_scope_update:
  "(\<And>st. Q (es_data st) \<Longrightarrow> map dom (es_frames (f st)) = map dom (es_frames st) \<and> es_activation (f st) = es_activation st
      \<and> Q (es_data (f st))) \<Longrightarrow> keeps_scope Q (update f)"
  by (auto simp: keeps_scope_def scoped_def intro!: maintains_update)

lemma keeps_outer_intros:
  "keeps_outer Q (give b)" "keeps_outer Q (throw x)"
  "keeps_outer Q p \<Longrightarrow> (\<And>b. keeps_outer Q (f b)) \<Longrightarrow> keeps_outer Q (then_do p f)"
  "(\<And>st. keeps_outer Q (k st)) \<Longrightarrow> keeps_outer Q (with_state k)"
  by (auto simp: keeps_outer_def intro: keeps_intros maintains_throw)

lemma keeps_outer_done: "keeps_outer Q (\<lambda>m. (m, Inr b))" "keeps_outer Q (\<lambda>m. (m, Inl y))"
  by (simp_all add: keeps_outer_def maintains_def)

lemma keeps_scope_truth: "keeps_scope Q (truth_of v)"
  by (auto simp: truth_of_def intro: keeps_scope_intros split: rvalue.split const.split)

lemma keeps_scope_eval: "keeps_scope Q (eval_in h sc e)"
  by (simp add: eval_in_def keeps_scope_intros(4) keeps_scope_in_ctx)

lemma keeps_scope_condition: "keeps_scope Q (condition h sc c)"
  by (simp add: condition_def keeps_scope_intros(2,3) keeps_scope_eval keeps_scope_truth split: option.split)

lemma keeps_scope_optional: "keeps_scope Q (optional_value h sc c)"
  by (simp add: optional_value_def keeps_scope_intros(1) keeps_scope_eval split: option.split)

text \<open>Assigning a declared name changes no frame's names.\<close>

lemma assign_frames_dom: "assign_frames n v fs = Some fs' \<Longrightarrow> map dom fs' = map dom fs"
  by (induction fs arbitrary: fs') (auto split: if_splits)

lemma assign_local_scope:
  "assign_local n v st = Some st' \<Longrightarrow> map dom (es_frames st') = map dom (es_frames st) \<and> es_activation st' = es_activation st
    \<and> es_data st' = es_data st"
  by (auto simp: assign_local_def dest!: assign_frames_dom simp flip: rev_map)

lemma keeps_outer_declare: "keeps_outer Q (update (declare_name n v))" "keeps_outer Q (update clear_frame)"
  by (auto simp: keeps_outer_def inside_def declare_name_def clear_frame_def intro!: maintains_update)

lemma keeps_outer_elements: "keeps_outer Q p \<Longrightarrow> keeps_outer Q (element_scope p)" "keeps_scope Q p \<Longrightarrow> keeps_scope Q (element_scope p)"
  by (auto simp: keeps_outer_def keeps_scope_def element_scope_def inside_def scoped_def
      intro!: keeps_intros maintains_finally_do)

lemma keeps_outer_activation: "keeps_outer Q p \<Longrightarrow> keeps_outer Q (in_activation h p)"
proof -
  assume p: "keeps_outer Q p"
  have "inside Q ds a (fst (in_activation h p st))" if st: "inside Q ds a st" for ds a st
  proof -
    let ?e = "h_new_activation h (er_outer (rc_rest (es_ctx st)))"
    let ?st1 = "st\<lparr>es_ctx := (es_ctx st)\<lparr>rc_rest := (rc_rest (es_ctx st))\<lparr>er_outer := fst ?e\<rparr>\<rparr>, es_activation := snd ?e\<rparr>"
    obtain st' r where run: "p ?st1 = (st', r)" by force
    from st have "inside Q ds (snd ?e) ?st1" by (simp add: inside_def)
    with p have "inside Q ds (snd ?e) (fst (p ?st1))" by (simp add: keeps_outer_def maintains_def)
    with run st show ?thesis by (simp add: in_activation_def Let_def then_do_update finally_do_def run inside_def)
  qed
  then show ?thesis by (simp add: keeps_outer_def maintains_def)
qed

lemma in_frame_scope: "keeps_outer Q p \<Longrightarrow> keeps_scope Q (in_frame p)"
proof -
  assume p: "keeps_outer Q p"
  have "scoped Q ds a (fst (in_frame p st))" if "scoped Q ds a st" for ds a st
  proof -
    from that have "inside Q ds a (enter_frame st)" by (simp add: scoped_def inside_def enter_frame_def)
    moreover obtain st' r where run: "p (enter_frame st) = (st', r)" by force
    ultimately have "inside Q ds a st'" using p unfolding keeps_outer_def maintains_def by (metis fst_conv)
    then show ?thesis
      by (simp add: in_frame_def then_do_update finally_do_def run inside_def scoped_def leave_frame_def)
  qed
  then show ?thesis by (simp add: keeps_scope_def maintains_def)
qed

text \<open>Statements that open blocks: whatever is declared in them is discarded with their frame.\<close>

fun opens_block :: "('n, 'sc) stmt \<Rightarrow> bool" where
  "opens_block (IfS c t e sc) = True"
| "opens_block (LoopS k c u x cl b sc) = True"
| "opens_block (BlockS b) = True"
| "opens_block s = False"

text \<open>The contract of a host: its operations declare no name and write data only as \<open>Q\<close> allows.\<close>

locale statement_host =
  fixes h :: "('n, 'o, 'c, 'sc) stmt_host" and Q :: "('n, 'o) frame \<Rightarrow> bool"
  assumes host_send: "keeps_scope Q (h_send h m sc)"
    and host_assign: "keeps_scope Q (h_assign_outer h n v)"
    and host_return: "keeps_scope Q (h_accept_return h v)"
    and host_effect: "keeps_scope Q (h_effect h k m sc)"
    and host_rewrite: "Q d \<Longrightarrow> d n \<noteq> None \<Longrightarrow> Q (d(n \<mapsto> v))"
begin

lemma assign_name_scope:
  "assign_name n v st = Some st' \<Longrightarrow> Q (es_data st) \<Longrightarrow> map dom (es_frames st') = map dom (es_frames st)
    \<and> es_activation st' = es_activation st \<and> Q (es_data st')"
  using assign_local_scope [of n v st] host_rewrite [of "es_data st" n v]
  by (auto simp: assign_name_def split: option.splits if_splits)

lemma assign_value_scope: "keeps_scope Q (assign_value h n v)"
proof -
  have "scoped Q ds a (fst (assign_value h n v st))" if "scoped Q ds a st" for ds a st
    using that assign_local_scope [of n v st] assign_name_scope [of n v st] host_assign [of n v]
    by (auto simp: assign_value_def scoped_def keeps_scope_def maintains_def split: option.splits if_splits)
  then show ?thesis by (simp add: keeps_scope_def maintains_def)
qed

lemmas scope_ops = keeps_scope_eval keeps_scope_condition keeps_scope_optional assign_value_scope host_send host_return host_effect keeps_scope_in_ctx keeps_scope_intros

lemma engine_scope_same:
  "k = h \<Longrightarrow> keeps_outer Q (run_stmts k n ss)"
  "k = h \<Longrightarrow> keeps_outer Q (statement k n s) \<and> (opens_block s \<longrightarrow> keeps_scope Q (statement k n s))"
  "k = h \<Longrightarrow> keeps_outer Q (run_block k n b)"
  "k = h \<Longrightarrow> keeps_outer Q (block_flow k n nodes i)"
  "k = h \<Longrightarrow> keeps_outer Q (while_loop k n kd c u b)"
  "k = h \<Longrightarrow> keeps_outer Q (for_loop k n x b vs)"
proof (induction k n ss and k n s and k n b and k n nodes i and k n kd c u b and k n x b vs
    rule: run_stmts_statement_run_block_block_flow_while_loop_for_loop.induct)
  case (1 k n)
  then show ?case by (simp add: keeps_outer_done)
next
  case (2 k n s ss)
  then show ?case by (auto simp: run_stmts.simps intro!: keeps_outer_intros)
next
  case (3 k n s)
  show ?case
  proof (cases "\<exists>x e sc. s = DeclareS x e sc")
    case True
    then obtain x e sc where s: "s = DeclareS x e sc" by blast
    have "keeps_outer Q (statement k n s)"
      unfolding s statement.simps stmt.case
      by (intro keeps_outer_elements(1) keeps_outer_intros scope_outer [OF keeps_scope_optional] keeps_outer_declare)
    then show ?thesis by (simp add: s)
  next
    case False
    then have "keeps_scope Q (statement k n s)"
      using 3 by (cases s) (auto intro!: keeps_outer_elements(2) in_frame_scope keeps_outer_activation scope_ops split: option.split sum.split)
    then show ?thesis using scope_outer by blast
  qed
next
  case (4 k n ss sc)
  then show ?case by simp
next
  case (5 k n nodes initial sc)
  then show ?case by (simp add: keeps_outer_intros split: option.split)
next
  case (6 k nodes i)
  then show ?case by (simp add: keeps_outer_intros scope_outer [OF keeps_scope_in_ctx])
next
  case (7 k n nodes i)
  then show ?case
    by (auto intro!: keeps_outer_intros scope_outer [OF keeps_scope_in_ctx] split: list.split)
next
  case (8 k kd c u b)
  then show ?case by (simp add: keeps_outer_intros scope_outer [OF keeps_scope_in_ctx])
next
  case (9 k n kd c u b)
  then show ?case
    by (auto simp del: prog_simps then_do_simps intro!: keeps_outer_intros scope_outer [OF keeps_scope_in_ctx] scope_outer [OF keeps_scope_condition]
        keeps_outer_activation keeps_outer_declare split: option.split)
next
  case (10 k n x b)
  then show ?case by (simp add: keeps_outer_done)
next
  case (11 k n x b v vs)
  then show ?case
    by (auto simp del: prog_simps then_do_simps
        intro!: keeps_outer_intros scope_outer [OF keeps_scope_in_ctx] keeps_outer_activation keeps_outer_declare)
qed

lemmas engine_scope = engine_scope_same [OF refl]

lemma block_scope: "opens_block s \<Longrightarrow> scoped Q ds a st \<Longrightarrow> scoped Q ds a (fst (statement h n s st))"
  using engine_scope(2) [of n s] by (simp add: keeps_scope_def maintains_def)

end

section \<open>The hosts keep the contract\<close>

definition only_outputs :: "(string \<times> bool \<times> bool) list \<Rightarrow> string set \<Rightarrow> ('n, 'o) frame \<Rightarrow> bool" where
  "only_outputs outs X d \<longleftrightarrow> dom d \<subseteq> X \<union> {n. calc_declared_output outs n}"

lemma calc_assign_scope: "keeps_scope (only_outputs outs X) (calc_assign_outer outs n v)"
proof (cases "calc_declared_output outs n")
  case True
  have "keeps_scope (only_outputs outs X) (update (set_data n v))"
    by (rule keeps_scope_update) (use True in \<open>auto simp: set_data_def only_outputs_def\<close>)
  with True show ?thesis
    by (auto simp: calc_assign_outer_def keeps_scope_intros(2) split: option.split bool.split)
qed (simp add: calc_assign_outer_def keeps_scope_intros(2))

lemma calc_return_scope: "keeps_scope Q (update (\<lambda>st. st\<lparr>es_result := v\<rparr>))"
  by (rule keeps_scope_update) simp

interpretation calc: statement_host "calc_host hb outs" "only_outputs outs X" for hb outs X
proof (unfold_locales, goal_cases)
  case (2 n v)
  show ?case by (simp only: calc_host_def stmt_host.simps calc_assign_scope)
next
  case (3 v)
  show ?case by (simp only: calc_host_def stmt_host.simps calc_return_scope)
next
  case (5 d n v)
  then show ?case by (auto simp: only_outputs_def)
qed (simp_all only: calc_host_def stmt_host.simps keeps_scope_intros(2))

lemma set_data_scope: "keeps_scope (\<lambda>_. True) (update (set_data n v))"
  by (rule keeps_scope_update) (simp add: set_data_def)

lemma feature_or_data_scope: "keeps_scope (\<lambda>_. True) (feature_or_data os n v)"
  unfolding feature_or_data_def by (intro keeps_scope_intros(3) keeps_scope_in_ctx) (simp add: set_data_scope keeps_scope_intros(1))

lemma assign_output_scope: "keeps_scope (\<lambda>_. True) (update (assign_output nv))"
proof (rule keeps_scope_update, goal_cases)
  case (1 st)
  show ?case
    by (auto simp: assign_output_def assign_name_def set_data_def dest: assign_local_scope split: option.split)
qed

lemma outside_send_scope: "keeps_scope Q (outside_send os m sc)"
  unfolding outside_send_def by (intro keeps_scope_intros(4) keeps_scope_in_ctx)

lemma perform_scope:
  "(\<And>nv. keeps_scope Q (update (f nv))) \<Longrightarrow>
     keeps_scope Q (then_do (with_state (\<lambda>st. in_ctx (g st))) (\<lambda>outs. for_each (\<lambda>nv. update (f nv)) outs))"
  by (intro keeps_scope_intros(3-5) keeps_scope_in_ctx) simp

interpretation action_body: statement_host "action_host hb os" "\<lambda>_. True" for hb os
proof (unfold_locales, goal_cases)
  case (2 n v)
  show ?case by (simp add: action_host_def feature_or_data_scope set_data_scope)
next
  case (4 k m sc)
  show ?case
    by (simp add: action_host_def keeps_scope_intros(2) perform_scope assign_output_scope del: prog_simps then_do_simps)
qed (simp_all only: action_host_def stmt_host.simps keeps_scope_intros(2) outside_send_scope)

interpretation state_body: statement_host "state_host hb os" "\<lambda>_. True" for hb os
proof (unfold_locales, goal_cases)
  case (2 n v)
  show ?case by (simp add: state_host_def feature_or_data_scope)
next
  case (4 k m sc)
  show ?case
    by (simp add: state_host_def keeps_scope_intros(2) perform_scope set_data_scope del: prog_simps then_do_simps)
qed (simp_all only: state_host_def stmt_host.simps keeps_scope_intros(2) outside_send_scope)

text \<open>
  C33. A statement that opens a block - a conditional, a loop or an action body - leaves every
  enclosing frame with the names it had, and the enclosing activation, however it ends: no name a
  block declares leaks out of it, also when it returns or fails. In a calculation the data gains no
  name but those of the outputs the calculation declares.\<close>

theorem block_scoping:
  assumes "opens_block s" "h \<in> {calc_host hb outs, action_host hb os, state_host hb os}" "statement h n s st = (st', r)"
  shows "map dom (es_frames st') = map dom (es_frames st) \<and> es_activation st' = es_activation st
    \<and> (h = calc_host hb outs \<longrightarrow> dom (es_data st') \<subseteq> dom (es_data st) \<union> {x. calc_declared_output outs x})"
proof -
  let ?ds = "map dom (es_frames st)" and ?a = "es_activation st"
  have any: "scoped (\<lambda>_. True) ?ds ?a st" by (simp add: scoped_def)
  have own: "scoped (only_outputs outs (dom (es_data st))) ?ds ?a st" by (auto simp: scoped_def only_outputs_def)
  have calc: "h = calc_host hb outs \<Longrightarrow> scoped (only_outputs outs (dom (es_data st))) ?ds ?a st'"
    using calc.block_scope [OF assms(1) own, of hb n] assms(3) by simp
  moreover have "h \<noteq> calc_host hb outs \<Longrightarrow> scoped (\<lambda>_. True) ?ds ?a st'"
    using action_body.block_scope [OF assms(1) any, of hb os n] state_body.block_scope [OF assms(1) any, of hb os n] assms(2,3)
    by auto
  ultimately show ?thesis by (auto simp: scoped_def only_outputs_def)
qed

text \<open>A loop that declares \<open>t\<close> in its body, in a calculation with the output \<open>y\<close>.\<close>

definition plain_base :: "(unit, unit, unit, unit) host_base" where
  "plain_base =
     \<lparr>hb_env = (\<lambda>sc a. plain_env), hb_declare_usage = (\<lambda>n a. give ()), hb_new_activation = (\<lambda>c. (c, 1)),
      hb_end_activation = (\<lambda>a c. c), hb_set_order = (\<lambda>vs. vs)\<rparr>"

definition counting_loop :: "(unit, unit) stmt" where
  "counting_loop =
     LoopS LoopFor None None ''i'' (Some (SequenceExpr [LiteralInteger ''4'', LiteralInteger ''6'']))
       (Body [DeclareS ''t'' (Some (NameExpr [''i''])) (), AssignS ''y'' (NameExpr [''t'']) ()] ()) ()"

definition plain_state :: "int \<Rightarrow> (unit, unit, unit) stmt_state" where
  "plain_state n =
     \<lparr>es_ctx = plain_context n, es_data = (\<lambda>_. None), es_frames = [[''z'' \<mapsto> VNull]], es_activation = 7, es_result = VNull\<rparr>"

theorem block_scoping_witness:
  "snd (statement (calc_host plain_base [(''y'', False, False)]) 9 counting_loop (plain_state 20)) = Inr FlowNext
    \<and> es_data (fst (statement (calc_host plain_base [(''y'', False, False)]) 9 counting_loop (plain_state 20))) ''y'' = Some (VConst (ConstInt 6))
    \<and> map dom (es_frames (fst (statement (calc_host plain_base [(''y'', False, False)]) 9 counting_loop (plain_state 20)))) = [{''z''}]
    \<and> es_activation (fst (statement (calc_host plain_base [(''y'', False, False)]) 9 counting_loop (plain_state 20))) = 7"
proof -
  let ?h = "calc_host plain_base [(''y'', False, False)]"
  let ?run = "statement ?h 9 counting_loop (plain_state 20)"
  have val: "snd ?run = Inr FlowNext \<and> es_data (fst ?run) ''y'' = Some (VConst (ConstInt 6))" by code_simp
  have opens: "opens_block counting_loop" by (simp add: counting_loop_def)
  have "?h \<in> {calc_host plain_base [(''y'', False, False)], action_host plain_base undefined, state_host plain_base undefined}" by simp
  from block_scoping [OF opens this, of 9 "plain_state 20" "fst ?run" "snd ?run"] val show ?thesis
    by (simp add: plain_state_def)
qed

end
