(* ===== verification/Statement_Budget.thy ===== *)
theory Statement_Budget
  imports Statement_Properties
begin

text \<open>
  The step budget of the context bounds every body: the evaluator and the engine only spend steps,
  each iteration and each node of a flow spends one, and so the steps left are enough fuel. The code
  has no fuel: a body that would not end is stopped by the budget's error.
\<close>

section \<open>The step budget is enough fuel\<close>

text \<open>
  \<open>steady p\<close>: \<open>p\<close> spends steps, never gives any back, and leaves the budget alone; and it does not run
  out of fuel. \<open>ends n p\<close>: with at most \<open>n\<close> steps left, \<open>p\<close> does not run out of fuel either.
\<close>

definition steps_left :: "('n, 'o, 'c) eval_ctx \<Rightarrow> int" where
  "steps_left ctx = er_max_steps (rc_rest ctx) - rc_steps ctx"

definition steady :: "('n, 'o, 'c, 'a) eprog \<Rightarrow> bool" where
  "steady p \<longleftrightarrow> (\<forall>n. maintains (\<lambda>ctx. steps_left ctx < n) (\<lambda>x. x = ErrFuel) p)"

definition ends :: "int \<Rightarrow> ('n, 'o, 'c, 'a) sprog \<Rightarrow> bool" where
  "ends n p \<longleftrightarrow> maintains (\<lambda>st. steps_left (es_ctx st) < n) (\<lambda>x. x = ErrFuel) p"

lemma steady_intros:
  "steady (give b)" "x \<noteq> ErrFuel \<Longrightarrow> steady (throw x)"
  "steady p \<Longrightarrow> (\<And>b. steady (f b)) \<Longrightarrow> steady (then_do p f)"
  "(\<And>b. steady (g b)) \<Longrightarrow> steady (for_each g bs)"
  by (auto simp: steady_def intro: keeps_intros maintains_throw)

lemma steady_if: "steady p \<Longrightarrow> steady q \<Longrightarrow> steady (if b then p else q)"
  by simp

lemma steady_step: "steady increment_step"
  by (auto simp: steady_def increment_step_def maintains_def Let_def steps_left_def)

lemma steady_charge: "steady (charge_elements n)"
  by (auto simp: steady_def charge_elements_def maintains_def Let_def steps_left_def)

lemma steady_new_sequence: "steady (new_sequence vs)"
  unfolding new_sequence_def by (intro steady_intros(1,3) steady_charge)

lemma steady_result_of: "r \<noteq> Inl ErrFuel \<Longrightarrow> steady (result_of r)"
  by (auto simp: result_of_def intro: steady_intros split: sum.split)

lemma ends_intros:
  "ends n (give b)" "x \<noteq> ErrFuel \<Longrightarrow> ends n (throw x)"
  "ends n p \<Longrightarrow> (\<And>b. ends n (f b)) \<Longrightarrow> ends n (then_do p f)"
  "(\<And>st. ends n (k st)) \<Longrightarrow> ends n (with_state k)"
  "(\<And>b. ends n (g b)) \<Longrightarrow> ends n (for_each g bs)"
  by (auto simp: ends_def intro: keeps_intros maintains_throw)

lemma ends_done: "ends n (\<lambda>m. (m, Inr b))" "x \<noteq> ErrFuel \<Longrightarrow> ends n (\<lambda>m. (m, Inl x))"
  by (simp_all add: ends_def maintains_def)

lemma ends_update: "(\<And>st. es_ctx (f st) = es_ctx st) \<Longrightarrow> ends n (update f)"
  by (simp add: ends_def maintains_update)

lemma ends_in_ctx: "steady p \<Longrightarrow> ends n (in_ctx p)"
  by (force simp: steady_def ends_def maintains_def in_ctx_def split: prod.split)

lemma ends_finally: "ends n p \<Longrightarrow> (\<And>st. steps_left (es_ctx (f st)) = steps_left (es_ctx st)) \<Longrightarrow> ends n (finally_do p f)"
  unfolding ends_def by (intro maintains_finally_do) simp_all

text \<open>A step either exceeds the budget or leaves less of it.\<close>

lemma ends_step:
  assumes "0 < n \<Longrightarrow> ends (n - 1) (k ())" "0 \<le> n"
  shows "ends n (then_do (in_ctx increment_step) k)"
proof -
  have "steps_left (es_ctx st') < n \<and> r \<noteq> Inl ErrFuel"
    if st: "steps_left (es_ctx st) < n" and run: "then_do (in_ctx increment_step) k st = (st', r)" for st st' r
  proof -
    let ?ctx = "es_ctx st"
    let ?ctx1 = "?ctx\<lparr>rc_steps := rc_steps ?ctx + 1\<rparr>"
    have left: "steps_left ?ctx1 = steps_left ?ctx - 1" by (simp add: steps_left_def)
    show ?thesis
    proof (cases "steps_left ?ctx1 < 0")
      case True
      then have "in_ctx increment_step st = (st\<lparr>es_ctx := ?ctx1\<rparr>, Inl ErrStepLimitExceeded)"
        by (simp add: in_ctx_def increment_step_def Let_def steps_left_def)
      with run st left show ?thesis by auto
    next
      case False
      then have "in_ctx increment_step st = (st\<lparr>es_ctx := ?ctx1\<rparr>, Inr ())"
        by (simp add: in_ctx_def increment_step_def Let_def steps_left_def)
      with run have "k () (st\<lparr>es_ctx := ?ctx1\<rparr>) = (st', r)" by simp
      moreover have "maintains (\<lambda>st. steps_left (es_ctx st) < n - 1) (\<lambda>x. x = ErrFuel) (k ())"
        using assms(1) False st left by (simp add: ends_def)
      ultimately show ?thesis
        using maintains_at [of _ _ "k ()" "st\<lparr>es_ctx := ?ctx1\<rparr>" st' r] maintains_error [of _ _ "k ()" "st\<lparr>es_ctx := ?ctx1\<rparr>" st'] st left
        by fastforce
    qed
  qed
  then show ?thesis unfolding ends_def maintains_def by (metis prod.collapse)
qed


section \<open>Evaluation\<close>

text \<open>What the evaluator relies on of the rest of the runtime.\<close>

definition env_steady :: "('n, 'o, 'c) eval_env \<Rightarrow> bool" where
  "env_steady env \<longleftrightarrow>
     (\<forall>fr n p. ee_body_local env fr n = Some p \<longrightarrow> steady p) \<and> (\<forall>fr ns. steady (ee_outer_name env fr ns))
     \<and> (\<forall>fr n. steady (ee_node env fr n)) \<and> (\<forall>op l r. ee_quantities env op l r \<noteq> Inl ErrFuel)
     \<and> (\<forall>v. steady (ee_variant_value env v)) \<and> (\<forall>fr op es. steady (ee_classify env fr op es))"

lemma steady_eval_name: "env_steady env \<Longrightarrow> steady (eval_name env fr ns)"
  by (auto simp: eval_name_def env_steady_def intro: steady_intros split: list.split option.split)

lemma int_arith_no_fuel: "int_arith op a b \<noteq> Inl ErrFuel"
  by (cases op) simp_all

lemma real_arith_no_fuel: "real_arith op a b \<noteq> Inl ErrFuel"
  by (cases op) simp_all

lemma map_res_Inl: "map_res f r = Inl x \<longleftrightarrow> r = Inl x"
  by (cases r) simp_all

lemma pow_const_no_fuel: "pow_const mpow a b \<noteq> Inl ErrFuel"
  by (auto simp: pow_const_def real_pow_def Let_def split: const.splits if_splits option.splits)

lemma quantity_no_fuel: "env_steady env \<Longrightarrow> quantity_operands env op l r \<noteq> Some (Inl ErrFuel)"
  by (simp add: quantity_operands_def env_steady_def)

lemma arith_values_no_fuel: "env_steady env \<Longrightarrow> arith_values env op l r \<noteq> Inl ErrFuel"
  using quantity_no_fuel [of env op l r]
  by (auto simp: arith_values_def arith_consts_def map_res_Inl pow_const_no_fuel int_arith_no_fuel real_arith_no_fuel
      split: option.splits rvalue.splits const.splits if_splits)

lemma compare_values_no_fuel: "env_steady env \<Longrightarrow> compare_values env op l r \<noteq> Inl ErrFuel"
  using quantity_no_fuel [of env op l r]
  by (auto simp: compare_values_def split: option.splits rvalue.splits)

lemma unary_value_no_fuel: "unary_value env op v \<noteq> Inl ErrFuel"
  by (auto simp: unary_value_def split: option.splits rvalue.splits const.splits)

lemma bool_operand_no_fuel: "bool_operand v \<noteq> Inl ErrFuel" "range_bound v \<noteq> Inl ErrFuel"
  by (auto simp: bool_operand_def range_bound_def split: rvalue.splits const.splits)

lemma steady_equality: "env_steady env \<Longrightarrow> steady (equality_values env op l r)"
proof -
  assume env: "env_steady env"
  then have var: "steady (ee_variant_value env v)" for v by (simp add: env_steady_def)
  have cmp: "steady (case quantity_operands env op v w of
        Some res \<Rightarrow> result_of res
      | None \<Rightarrow> give (bool_value (if op = OpNeq then \<not> value_equal env v w else value_equal env v w)))" for v w
    using quantity_no_fuel [OF env, of op v w] by (auto simp del: prog_simps then_do_simps intro: steady_intros steady_result_of split: option.split)
  show ?thesis unfolding equality_values_def Let_def by (intro steady_if steady_intros(3) var cmp)
qed

lemma steady_range: "steady (range_sequence l r)"
  unfolding range_sequence_def
  by (intro steady_intros(3) steady_result_of bool_operand_no_fuel)
    (simp add: steady_new_sequence steady_intros steady_step steady_charge)

lemmas no_fuel = arith_values_no_fuel compare_values_no_fuel unary_value_no_fuel bool_operand_no_fuel

lemma steady_elements: "(\<And>e. e \<in> set es \<Longrightarrow> steady (eval env fr e)) \<Longrightarrow> steady (eval_elements env fr es)"
  by (induction es) (simp_all add: steady_intros)

lemma steady_eval: "env_steady env \<Longrightarrow> steady (eval env fr e)"
proof (induction e)
  case (OperatorExpr op es)
  then have es: "\<And>e. e \<in> set es \<Longrightarrow> steady (eval env fr e)" by blast
  have "steady (case class_of op of
            ClassConditional \<Rightarrow>
              (case es of
                 [c, a, b] \<Rightarrow>
                   then_do (eval env fr c) (\<lambda>v. then_do (result_of (bool_operand v))
                     (\<lambda>held. if held then eval env fr a else eval env fr b))
               | _ \<Rightarrow> throw (ErrOther ''conditional requires 3 operands''))
          | ClassCoalesce \<Rightarrow>
              (case es of
                 [a, b] \<Rightarrow> then_do (eval env fr a) (\<lambda>l. if l = VNull then eval env fr b else give l)
               | _ \<Rightarrow> throw (ErrOther ''?? requires 2 operands''))
          | ClassArithmetic \<Rightarrow>
              (case es of
                 a # b # _ \<Rightarrow> then_do (eval env fr a) (\<lambda>l. then_do (eval env fr b) (\<lambda>r. result_of (arith_values env op l r)))
               | _ \<Rightarrow> throw (ErrOther ''arithmetic operator requires 2 operands''))
          | ClassEquality \<Rightarrow>
              (case es of
                 [a, b] \<Rightarrow> then_do (eval env fr a) (\<lambda>l. then_do (eval env fr b) (equality_values env op l))
               | _ \<Rightarrow> throw (ErrOther ''equality requires 2 operands''))
          | ClassIdentity \<Rightarrow>
              (case es of
                 [a, b] \<Rightarrow> then_do (eval env fr a) (\<lambda>l. then_do (eval env fr b) (\<lambda>r.
                   give (bool_value (if op = OpNeqEqEq then \<not> value_identical env l r else value_identical env l r))))
               | _ \<Rightarrow> throw (ErrOther ''identity requires 2 operands''))
          | ClassComparison \<Rightarrow>
              (case es of
                 [a, b] \<Rightarrow> then_do (eval env fr a) (\<lambda>l. then_do (eval env fr b) (\<lambda>r. result_of (compare_values env op l r)))
               | _ \<Rightarrow> throw (ErrOther ''comparison requires 2 operands''))
          | ClassLogical \<Rightarrow>
              (case es of
                 [a, b] \<Rightarrow>
                   then_do (eval env fr a) (\<lambda>v. then_do (result_of (bool_operand v)) (\<lambda>l.
                     case decided_by_left op l of
                       Some d \<Rightarrow> give (bool_value d)
                     | None \<Rightarrow>
                         then_do (eval env fr b) (\<lambda>w. then_do (result_of (bool_operand w))
                           (\<lambda>r. give (bool_value (logical_value op l r))))))
               | _ \<Rightarrow> throw (ErrOther ''logical operator requires 2 operands''))
          | ClassUnary \<Rightarrow>
              (case es of
                 [a] \<Rightarrow> then_do (eval env fr a) (\<lambda>v. result_of (unary_value env op v))
               | _ \<Rightarrow> throw (ErrOther ''unary operator requires 1 operand''))
          | ClassRange \<Rightarrow>
              (case es of
                 [a, b] \<Rightarrow> then_do (eval env fr a) (\<lambda>l. then_do (eval env fr b) (range_sequence l))
               | _ \<Rightarrow> throw ErrCalcArity)
          | ClassClassification \<Rightarrow> ee_classify env fr op es
          | ClassUnsupported \<Rightarrow> throw ErrUnsupportedOperator)"
    using es OperatorExpr.prems
    by (cases "class_of op")
      (auto simp del: prog_simps then_do_simps simp: steady_equality steady_range env_steady_def [of env] no_fuel
        intro!: steady_intros steady_result_of split: list.split option.split)
  then show ?case unfolding eval.simps by (intro steady_intros(3) steady_step) (auto intro: steady_intros split: option.split)
qed (simp_all add: steady_intros steady_step steady_eval_name steady_elements steady_new_sequence bool_value_def env_steady_def)


section \<open>Statements\<close>

definition host_steady :: "('n, 'o, 'c, 'sc) stmt_host \<Rightarrow> bool" where
  "host_steady h \<longleftrightarrow>
     (\<forall>sc a. env_steady (h_env h sc a)) \<and> (\<forall>n m sc. ends n (h_send h m sc)) \<and> (\<forall>n x v. ends n (h_assign_outer h x v))
     \<and> (\<forall>n v. ends n (h_accept_return h v)) \<and> (\<forall>n k m sc. ends n (h_effect h k m sc))
     \<and> (\<forall>m a. steady (h_declare_usage h m a))"

lemma ends_eval: "host_steady h \<Longrightarrow> ends n (eval_in h sc e)"
  unfolding eval_in_def by (intro ends_intros(4) ends_in_ctx steady_eval) (simp add: host_steady_def)

lemma ends_truth: "ends n (truth_of v)"
  by (auto simp: truth_of_def intro: ends_intros split: rvalue.split const.split)

lemma ends_condition: "host_steady h \<Longrightarrow> ends n (condition h sc c)"
  by (auto simp: condition_def intro!: ends_intros(2,3) ends_eval ends_truth split: option.split)

lemma ends_optional: "host_steady h \<Longrightarrow> ends n (optional_value h sc c)"
  by (auto simp: optional_value_def intro!: ends_intros(1) ends_eval split: option.split)

lemma assign_ctx:
  "assign_local x v st = Some st' \<Longrightarrow> es_ctx st' = es_ctx st"
  "assign_name x v st = Some st' \<Longrightarrow> es_ctx st' = es_ctx st"
  by (auto simp: assign_local_def assign_name_def split: option.splits if_splits)

lemma ends_assign: "host_steady h \<Longrightarrow> ends n (assign_value h x v)"
proof -
  assume "host_steady h"
  then have h: "ends n (h_assign_outer h x v)" by (simp add: host_steady_def)
  have "steps_left (es_ctx (fst (assign_value h x v st))) < n \<and> snd (assign_value h x v st) \<noteq> Inl ErrFuel"
    if "steps_left (es_ctx st) < n" for st
    using that h by (auto simp: assign_value_def ends_def maintains_def assign_ctx split: option.splits if_splits)
  then show ?thesis unfolding ends_def maintains_def by metis
qed

lemma ends_activation: "ends n p \<Longrightarrow> ends n (in_activation h p)"
proof -
  assume p: "ends n p"
  have "steps_left (es_ctx st') < n \<and> r \<noteq> Inl ErrFuel"
    if st: "steps_left (es_ctx st) < n" and run: "in_activation h p st = (st', r)" for st st' r
  proof -
    let ?e = "h_new_activation h (er_outer (rc_rest (es_ctx st)))"
    let ?st1 = "st\<lparr>es_ctx := (es_ctx st)\<lparr>rc_rest := (rc_rest (es_ctx st))\<lparr>er_outer := fst ?e\<rparr>\<rparr>, es_activation := snd ?e\<rparr>"
    obtain st2 r2 where p1: "p ?st1 = (st2, r2)" by force
    from st have "steps_left (es_ctx ?st1) < n" by (simp add: steps_left_def)
    with p p1 have "steps_left (es_ctx st2) < n \<and> r2 \<noteq> Inl ErrFuel"
      unfolding ends_def maintains_def by (metis fst_conv snd_conv)
    moreover have "steps_left (es_ctx st') = steps_left (es_ctx st2) \<and> r = r2"
      using run p1 by (auto simp: in_activation_def Let_def then_do_update finally_do_def steps_left_def)
    ultimately show ?thesis by simp
  qed
  then show ?thesis unfolding ends_def maintains_def by (metis prod.collapse)
qed

lemma ends_frame: "ends n p \<Longrightarrow> ends n (in_frame p)"
  unfolding in_frame_def
  by (intro ends_intros(3) ends_update ends_finally) (simp_all add: enter_frame_def leave_frame_def)

lemma ends_elements: "ends n p \<Longrightarrow> ends n (element_scope p)"
  unfolding element_scope_def by (intro ends_intros(4) ends_finally) (simp_all add: steps_left_def)

lemma ends_declare: "ends n (update (declare_name x v))" "ends n (update clear_frame)" "ends n (update (set_data x v))"
  by (auto simp: declare_name_def clear_frame_def set_data_def intro!: ends_update)

lemma for_elements_no_fuel: "for_elements h v \<noteq> Inl ErrFuel"
  by (auto simp: for_elements_def split: rvalue.split)

lemmas ends_values = ends_eval ends_condition ends_optional ends_assign
lemmas ends_ops = ends_values ends_declare

lemma engine_ends:
  "host_steady h \<Longrightarrow> ends (int n) (run_stmts h n ss)"
  "host_steady h \<Longrightarrow> ends (int n) (statement h n s)"
  "host_steady h \<Longrightarrow> ends (int n) (run_block h n b)"
  "host_steady h \<Longrightarrow> ends (int n) (block_flow h n nodes i)"
  "host_steady h \<Longrightarrow> ends (int n) (while_loop h n kd c u b)"
  "host_steady h \<Longrightarrow> ends (int n) (for_loop h n x b vs)"
proof (induction h n ss and h n s and h n b and h n nodes i and h n kd c u b and h n x b vs
    rule: run_stmts_statement_run_block_block_flow_while_loop_for_loop.induct)
  case (1 h n)
  then show ?case by (simp add: ends_done)
next
  case (2 h n s ss)
  then show ?case by (auto simp: run_stmts.simps intro!: ends_intros)
next
  case (3 h n s)
  note h = \<open>host_steady h\<close>
  from h have host: "\<And>m sc. ends (int n) (h_send h m sc)" "\<And>v. ends (int n) (h_accept_return h v)"
    "\<And>k m sc. ends (int n) (h_effect h k m sc)" "\<And>m a. steady (h_declare_usage h m a)"
    by (simp_all add: host_steady_def)
  note ih = 3 and ops = host ends_values [OF h] ends_declare for_elements_no_fuel [of h]
  show ?case
  proof (cases s)
    case (IfS c t e sc)
    then show ?thesis
      using ih unfolding statement.simps
      by (auto simp del: prog_simps then_do_simps intro!: ends_elements ends_intros ops ends_frame ends_activation split: option.split)
  next
    case (LoopS k c u x cl b sc)
    then show ?thesis
      using ih unfolding statement.simps
      by (auto simp del: prog_simps then_do_simps simp: for_elements_no_fuel intro!: ends_elements ends_intros ops ends_frame split: option.split sum.split)
  next
    case (BlockS b)
    then show ?thesis
      using ih unfolding statement.simps
      by (auto simp del: prog_simps then_do_simps intro!: ends_elements ends_frame ends_activation)
  qed (auto simp del: prog_simps then_do_simps intro!: ends_elements ends_intros ends_in_ctx ops)
next
  case (4 h n ss sc)
  then show ?case by simp
next
  case (5 h n nodes initial sc)
  then show ?case by (simp add: ends_intros split: option.split)
next
  case (6 h nodes i)
  show ?case unfolding block_flow.simps by (rule ends_step) simp_all
next
  case (7 h n nodes i)
  then show ?case
    unfolding block_flow.simps by (intro ends_step) (auto simp del: prog_simps then_do_simps intro!: ends_intros split: list.split)
next
  case (8 h kd c u b)
  show ?case unfolding while_loop.simps by (rule ends_step) simp_all
next
  case (9 h n kd c u b)
  then show ?case
    unfolding while_loop.simps
    by (intro ends_step) (auto simp del: prog_simps then_do_simps intro!: ends_intros ends_activation ends_ops split: option.split)
next
  case (10 h n x b)
  then show ?case by (simp add: ends_done)
next
  case (11 h n x b v vs)
  then show ?case
    unfolding for_loop.simps
    by (auto simp del: prog_simps then_do_simps intro!: ends_intros ends_in_ctx steady_step ends_activation ends_ops)
qed


section \<open>Bodies\<close>

text \<open>What a body relies on: evaluation, declarations, sends, feature writes and performed actions only spend steps.\<close>

definition base_steady :: "('n, 'o, 'c, 'sc) host_base \<Rightarrow> bool" where
  "base_steady hb \<longleftrightarrow> (\<forall>sc a. env_steady (hb_env hb sc a)) \<and> (\<forall>m a. steady (hb_declare_usage hb m a))"

definition outside_steady :: "('n, 'o, 'c, 'sc) outside \<Rightarrow> bool" where
  "outside_steady os \<longleftrightarrow>
     (\<forall>fr m sc. steady (os_send os fr m sc)) \<and> (\<forall>x v. steady (os_write_feature os x v)) \<and> (\<forall>m sc fr. steady (os_perform os m sc fr))"

lemma ends_feature: "outside_steady os \<Longrightarrow> ends n (feature_or_data os x v)"
  unfolding feature_or_data_def
  by (intro ends_intros(3) ends_in_ctx) (auto simp: outside_steady_def ends_intros ends_declare)

lemma ends_send: "outside_steady os \<Longrightarrow> ends n (outside_send os m sc)"
  unfolding outside_send_def by (intro ends_intros(4) ends_in_ctx) (simp add: outside_steady_def)

lemma ends_perform:
  "outside_steady os \<Longrightarrow> (\<And>nv st. es_ctx (f nv st) = es_ctx st) \<Longrightarrow>
     ends n (then_do (with_state (\<lambda>st. in_ctx (os_perform os m sc (g st)))) (\<lambda>outs. for_each (\<lambda>nv. update (f nv)) outs))"
  by (intro ends_intros(3-5) ends_in_ctx ends_update) (simp_all add: outside_steady_def)

lemma assign_output_ctx: "es_ctx (assign_output nv st) = es_ctx st"
  by (simp add: assign_output_def set_data_def assign_ctx split: option.split)

lemma calc_host_steady: "base_steady hb \<Longrightarrow> host_steady (calc_host hb outs)"
  by (simp add: host_steady_def calc_host_def base_steady_def calc_assign_outer_def ends_intros ends_declare ends_update
      split: option.split bool.split)

lemma action_host_steady: "base_steady hb \<Longrightarrow> outside_steady os \<Longrightarrow> host_steady (action_host hb os)"
  by (simp del: prog_simps then_do_simps add: host_steady_def action_host_def base_steady_def ends_intros(2) ends_declare
      ends_feature ends_send ends_perform assign_output_ctx)

lemma state_host_steady: "base_steady hb \<Longrightarrow> outside_steady os \<Longrightarrow> host_steady (state_host hb os)"
  by (simp del: prog_simps then_do_simps add: host_steady_def state_host_def base_steady_def ends_intros(2)
      ends_feature ends_send ends_perform set_data_def)

lemma body_runs:
  assumes "host_steady h"
  shows "snd (run_stmts h (stmt_fuel ctx) ss (new_engine h ctx data)) \<noteq> Inl ErrFuel"
proof -
  have "steps_left (es_ctx (new_engine h ctx data)) < int (stmt_fuel ctx)"
    by (simp add: new_engine_def Let_def steps_left_def stmt_fuel_def)
  with engine_ends(1) [OF assms, of "stmt_fuel ctx" ss] show ?thesis by (auto simp: ends_def maintains_def)
qed

lemma statements_end: "host_steady h \<Longrightarrow> snd (snd (execute_statements h ss ctx data)) \<noteq> Some ErrFuel"
  using body_runs [of h ctx ss data]
  by (cases "run_stmts h (stmt_fuel ctx) ss (new_engine h ctx data)")
    (auto simp: execute_statements_def finally_do_def split: sum.split)

lemma calc_ends: "base_steady hb \<Longrightarrow> snd (run_calc_steps hb outs ss ctx data) \<noteq> Inl ErrFuel"
  using body_runs [OF calc_host_steady, of hb outs ctx ss data]
  by (cases "run_stmts (calc_host hb outs) (stmt_fuel ctx) ss (new_engine (calc_host hb outs) ctx data)")
    (auto simp: run_calc_steps_def Let_def then_do_def split: sum.split)

text \<open>
  C34. The steps left of the budget are enough fuel for every body, of a calculation, of an action node
  and of a state, whatever loops and flows it holds: none runs out of it, so a body always ends, an
  endless one with the error of the exceeded step limit.\<close>

theorem body_ends:
  assumes "base_steady hb" "outside_steady os"
  shows "snd (snd (execute_statements (action_host hb os) ss ctx data)) \<noteq> Some ErrFuel
    \<and> snd (snd (execute_state_behavior hb os ss ctx data)) \<noteq> Some ErrFuel
    \<and> snd (run_calc_steps hb outs ss ctx data) \<noteq> Inl ErrFuel"
  using assms by (simp add: execute_state_behavior_def statements_end action_host_steady state_host_steady calc_ends)

text \<open>An action body that loops for ever, where nothing outside is reached.\<close>

definition quiet_outside :: "(unit, unit, unit, unit) outside" where
  "quiet_outside =
     \<lparr>os_send = (\<lambda>fr m sc. give ()), os_write_feature = (\<lambda>x v. give False), os_perform = (\<lambda>m sc fr. give []),
      os_parameter = (\<lambda>x. False)\<rparr>"

definition endless_loop :: "(unit, unit) stmt" where
  "endless_loop = LoopS LoopWhile (Some (LiteralBool True)) None [] None (Body [AssignS ''y'' (LiteralInteger ''1'') ()] ()) ()"

theorem body_ends_witness:
  "snd (snd (execute_statements (action_host plain_base quiet_outside) [endless_loop] (plain_context 20) (\<lambda>_. None)))
     = Some ErrStepLimitExceeded
    \<and> snd (snd (execute_state_behavior plain_base quiet_outside [endless_loop] (plain_context 20) (\<lambda>_. None)))
     = Some ErrStepLimitExceeded
    \<and> snd (run_calc_steps plain_base [] [endless_loop] (plain_context 20) (\<lambda>_. None)) \<noteq> Inl ErrFuel"
proof -
  have "env_steady plain_env" by (simp add: env_steady_def plain_env_def steady_intros)
  then have "base_steady plain_base" "outside_steady quiet_outside"
    by (simp_all add: base_steady_def outside_steady_def plain_base_def quiet_outside_def steady_intros)
  note ends = body_ends [OF this, of "[endless_loop]" "plain_context 20" "\<lambda>_. None" "[]"]
  have "snd (snd (execute_statements (action_host plain_base quiet_outside) [endless_loop] (plain_context 20) (\<lambda>_. None)))
     = Some ErrStepLimitExceeded" by code_simp
  moreover have "snd (snd (execute_state_behavior plain_base quiet_outside [endless_loop] (plain_context 20) (\<lambda>_. None)))
     = Some ErrStepLimitExceeded" by code_simp
  ultimately show ?thesis using ends by simp
qed

end
