(* ===== verification/Collections.thy ===== *)
theory Collections
  imports Statements "HOL-Library.AList"
begin

text \<open>
  The collection functions of the Kernel Function Library, \<open>internal/core/runtime/collections.go\<close>, their
  registry, \<open>builtins.go\<close>, and the invocation that dispatches to them, \<open>evalInvocation\<close> of \<open>eval.go\<close>. A
  function takes the values of its arguments; a body expression passed as an argument is a
  function the operation applies. What a body declares and where it is evaluated, and the
  calculations and library functions an invocation may also denote, are the record \<open>call_env\<close>.
\<close>

section \<open>Bodies\<close>

text \<open>\<open>ast.BodyExpr\<close>: its parameters, whether every member is a usage, and its result.\<close>

record 'n body_expr =
  be_params :: "string list"
  be_only_usages :: bool
  be_result :: "'n expr option"

record ('n, 'o, 'c) call_env =
  ce_env :: "('n, 'o, 'c) eval_env"
  ce_body :: "'n \<Rightarrow> 'n body_expr option"
  ce_body_env :: "'n \<Rightarrow> int \<Rightarrow> ('n, 'o, 'c) eval_env"
  ce_new_activation :: "'c \<Rightarrow> 'c \<times> int"
  ce_end_activation :: "int \<Rightarrow> 'c \<Rightarrow> 'c"

definition body_of :: "('n, 'o, 'c) call_env \<Rightarrow> ('n, 'o) rvalue \<Rightarrow> nat \<Rightarrow> (eval_error, 'n \<times> 'n body_expr) res" where
  "body_of cx v arity =
     (case v of
        VExpr n \<Rightarrow>
          (case ce_body cx n of
             None \<Rightarrow> Inl ErrTypeMismatch
           | Some b \<Rightarrow> if length (be_params b) \<noteq> arity then Inl ErrBodyArity else Inr (n, b))
      | _ \<Rightarrow> Inl ErrTypeMismatch)"

definition bind_params :: "string list \<Rightarrow> ('n, 'o) rvalue list \<Rightarrow> ('n, 'o) frame" where
  "bind_params ps vs = fold (\<lambda>(p, v) m. m(p \<mapsto> v)) (zip ps vs) (\<lambda>_. None)"

definition set_outer :: "'c \<Rightarrow> ('n, 'o, 'c) eval_ctx \<Rightarrow> ('n, 'o, 'c) eval_ctx" where
  "set_outer c ctx = ctx\<lparr>rc_rest := (rc_rest ctx)\<lparr>er_outer := c\<rparr>\<rparr>"

definition apply_body ::
  "('n, 'o, 'c) call_env \<Rightarrow> ('n, 'o) frame list \<Rightarrow> 'n \<times> 'n body_expr \<Rightarrow> ('n, 'o) rvalue list
    \<Rightarrow> ('n, 'o, 'c, ('n, 'o) rvalue) eprog" where
  "apply_body cx fr body args =
     (case be_result (snd body) of
        None \<Rightarrow> throw ErrNoResultExpression
      | Some e \<Rightarrow>
          if \<not> be_only_usages (snd body) then throw ErrUnsupportedBodyDeclaration
          else with_state (\<lambda>ctx.
            let entered = ce_new_activation cx (er_outer (rc_rest ctx)) in
            then_do (update (set_outer (fst entered)))
              (\<lambda>_. finally_do
                (eval (ce_body_env cx (fst body) (snd entered)) (fr @ [bind_params (be_params (snd body)) args]) e)
                (\<lambda>ctx1. set_outer (ce_end_activation cx (snd entered) (er_outer (rc_rest ctx1))) ctx1))))"

definition apply_predicate ::
  "('n, 'o, 'c) call_env \<Rightarrow> ('n, 'o) frame list \<Rightarrow> 'n \<times> 'n body_expr \<Rightarrow> ('n, 'o) rvalue \<Rightarrow> ('n, 'o, 'c, bool) eprog" where
  "apply_predicate cx fr body v = then_do (apply_body cx fr body [v]) (\<lambda>r. result_of (bool_operand r))"

section \<open>Positions\<close>

type_synonym ('n, 'o, 'c) builtin = "('n, 'o) rvalue list \<Rightarrow> ('n, 'o, 'c, ('n, 'o) rvalue) eprog"

definition index_of :: "('n, 'o) rvalue \<Rightarrow> (eval_error, int) res" where
  "index_of v = (case v of VConst (ConstInt a) \<Rightarrow> Inr (sint a) | _ \<Rightarrow> Inl ErrTypeMismatch)"

definition element_at :: "('n, 'o) rvalue list \<Rightarrow> int \<Rightarrow> (eval_error, ('n, 'o) rvalue) res" where
  "element_at vs i = (if i < 1 \<or> int (length vs) < i then Inl ErrIndexOutOfRange else Inr (vs ! nat (i - 1)))"

definition element_at_or_empty :: "('n, 'o) rvalue list \<Rightarrow> int \<Rightarrow> ('n, 'o) rvalue" where
  "element_at_or_empty vs i = (if i < 1 \<or> int (length vs) < i then VNull else vs ! nat (i - 1))"

definition eval_sequence_index ::
  "('n, 'o, 'c) eval_env \<Rightarrow> ('n, 'o) frame list \<Rightarrow> 'n expr \<Rightarrow> 'n expr \<Rightarrow> ('n, 'o, 'c, ('n, 'o) rvalue) eprog" where
  "eval_sequence_index env fr operand index =
     then_do (eval env fr operand) (\<lambda>v. then_do (eval env fr index) (\<lambda>w.
       then_do (result_of (index_of w)) (\<lambda>i. result_of (element_at (elements_of v) i))))"

definition with_arity :: "nat \<Rightarrow> ('n, 'o, 'c) builtin \<Rightarrow> ('n, 'o, 'c) builtin" where
  "with_arity n f args = (if length args \<noteq> n then throw ErrCalcArity else f args)"

definition int_value :: "int \<Rightarrow> ('n, 'o) rvalue" where
  "int_value n = VConst (ConstInt (word_of_int n))"

section \<open>Sequences\<close>

definition contains_value :: "('n, 'o, 'c) eval_env \<Rightarrow> ('n, 'o) rvalue list \<Rightarrow> ('n, 'o) rvalue \<Rightarrow> bool" where
  "contains_value env vs v = list_ex (\<lambda>e. value_equal env e v) vs"

definition includes_all :: "('n, 'o, 'c) eval_env \<Rightarrow> ('n, 'o) rvalue list \<Rightarrow> ('n, 'o) rvalue list \<Rightarrow> bool" where
  "includes_all env have want = list_all (contains_value env have) want"

definition sequence_index :: "('n, 'o, 'c) builtin" where
  "sequence_index = with_arity 2 (\<lambda>args.
     then_do (result_of (index_of (args ! 1))) (\<lambda>i. result_of (element_at (elements_of (args ! 0)) i)))"

definition sequence_size :: "('n, 'o, 'c) builtin" where
  "sequence_size = with_arity 1 (\<lambda>args. give (int_value (int (length (elements_of (args ! 0))))))"

definition sequence_is_empty :: "('n, 'o, 'c) builtin" where
  "sequence_is_empty = with_arity 1 (\<lambda>args. give (bool_value (elements_of (args ! 0) = [])))"

definition sequence_not_empty :: "('n, 'o, 'c) builtin" where
  "sequence_not_empty = with_arity 1 (\<lambda>args. give (bool_value (elements_of (args ! 0) \<noteq> [])))"

definition sequence_includes :: "('n, 'o, 'c) eval_env \<Rightarrow> ('n, 'o, 'c) builtin" where
  "sequence_includes env = with_arity 2 (\<lambda>args.
     give (bool_value (includes_all env (elements_of (args ! 0)) (elements_of (args ! 1)))))"

definition sequence_excludes :: "('n, 'o, 'c) eval_env \<Rightarrow> ('n, 'o, 'c) builtin" where
  "sequence_excludes env = with_arity 2 (\<lambda>args.
     give (bool_value (\<not> list_ex (contains_value env (elements_of (args ! 0))) (elements_of (args ! 1)))))"

definition sequence_includes_only :: "('n, 'o, 'c) eval_env \<Rightarrow> ('n, 'o, 'c) builtin" where
  "sequence_includes_only env = with_arity 2 (\<lambda>args.
     let s = elements_of (args ! 0); t = elements_of (args ! 1) in
     give (bool_value (includes_all env s t \<and> includes_all env t s)))"

definition sequence_equals :: "('n, 'o, 'c) eval_env \<Rightarrow> ('n, 'o, 'c) builtin" where
  "sequence_equals env = with_arity 2 (\<lambda>args.
     give (bool_value (list_all2 (value_equal env) (elements_of (args ! 0)) (elements_of (args ! 1)))))"

definition sequence_same :: "('n, 'o, 'c) eval_env \<Rightarrow> ('n, 'o, 'c) builtin" where
  "sequence_same env = with_arity 2 (\<lambda>args.
     give (bool_value (list_all2 (value_identical env) (elements_of (args ! 0)) (elements_of (args ! 1)))))"

definition sequence_union :: "('n, 'o, 'c) builtin" where
  "sequence_union = with_arity 2 (\<lambda>args. new_sequence (elements_of (args ! 0) @ elements_of (args ! 1)))"

definition sequence_intersection :: "('n, 'o, 'c) eval_env \<Rightarrow> ('n, 'o, 'c) builtin" where
  "sequence_intersection env = with_arity 2 (\<lambda>args.
     new_sequence (filter (contains_value env (elements_of (args ! 1))) (elements_of (args ! 0))))"

definition sequence_including :: "('n, 'o, 'c) builtin" where
  "sequence_including = with_arity 2 sequence_union"

definition sequence_excluding :: "('n, 'o, 'c) eval_env \<Rightarrow> ('n, 'o, 'c) builtin" where
  "sequence_excluding env = with_arity 2 (\<lambda>args.
     new_sequence (filter (\<lambda>e. \<not> contains_value env (elements_of (args ! 1)) e) (elements_of (args ! 0))))"

definition sequence_including_at :: "('n, 'o, 'c) builtin" where
  "sequence_including_at = with_arity 3 (\<lambda>args.
     let vs = elements_of (args ! 0); ws = elements_of (args ! 1) in
     then_do (result_of (index_of (args ! 2))) (\<lambda>i.
       if i < 1 \<or> int (length vs) + 1 < i then throw ErrIndexOutOfRange
       else new_sequence (take (nat (i - 1)) vs @ ws @ drop (nat (i - 1)) vs)))"

text \<open>The end position an optional third argument gives.\<close>

definition end_index :: "int \<Rightarrow> ('n, 'o) rvalue list \<Rightarrow> (eval_error, int) res" where
  "end_index d args = (if length args = 3 then index_of (args ! 2) else Inr d)"

definition sequence_subsequence :: "('n, 'o, 'c) builtin" where
  "sequence_subsequence args =
     (if length args \<notin> {2, 3} then throw ErrCalcArity
      else let vs = elements_of (args ! 0) in
        then_do (result_of (index_of (args ! 1))) (\<lambda>start.
        then_do (result_of (end_index (int (length vs)) args)) (\<lambda>stop.
          if start < 1 then throw ErrIndexOutOfRange
          else if stop < start then new_sequence []
          else if int (length vs) < stop then throw ErrIndexOutOfRange
          else new_sequence (take (nat (stop - start + 1)) (drop (nat (start - 1)) vs)))))"

definition sequence_excluding_at :: "('n, 'o, 'c) builtin" where
  "sequence_excluding_at args =
     (if length args \<notin> {2, 3} then throw ErrCalcArity
      else let vs = elements_of (args ! 0) in
        then_do (result_of (index_of (args ! 1))) (\<lambda>start.
        then_do (result_of (end_index start args)) (\<lambda>stop.
          if start < 1 \<or> int (length vs) < start then throw ErrIndexOutOfRange
          else if stop < start \<or> int (length vs) < stop then throw ErrIndexOutOfRange
          else new_sequence (take (nat (start - 1)) vs @ drop (nat stop) vs))))"

definition sequence_head :: "('n, 'o, 'c) builtin" where
  "sequence_head = with_arity 1 (\<lambda>args. give (element_at_or_empty (elements_of (args ! 0)) 1))"

definition sequence_tail :: "('n, 'o, 'c) builtin" where
  "sequence_tail = with_arity 1 (\<lambda>args. new_sequence (tl (elements_of (args ! 0))))"

definition sequence_last :: "('n, 'o, 'c) builtin" where
  "sequence_last = with_arity 1 (\<lambda>args.
     let vs = elements_of (args ! 0) in give (element_at_or_empty vs (int (length vs))))"

section \<open>Bodies over collections\<close>

primrec filter_with :: "('v \<Rightarrow> ('n, 'o, 'c, bool) eprog) \<Rightarrow> bool \<Rightarrow> 'v list \<Rightarrow> ('n, 'o, 'c, 'v list) eprog" where
  "filter_with p keep [] = give []"
| "filter_with p keep (v # vs) =
     then_do (p v) (\<lambda>holds. then_do (filter_with p keep vs) (\<lambda>rest. give (if holds = keep then v # rest else rest)))"

definition control_filter :: "('n, 'o, 'c) call_env \<Rightarrow> ('n, 'o) frame list \<Rightarrow> bool \<Rightarrow> ('n, 'o, 'c) builtin" where
  "control_filter cx fr keep = with_arity 2 (\<lambda>args.
     then_do (result_of (body_of cx (args ! 1) 1)) (\<lambda>body.
     then_do (filter_with (apply_predicate cx fr body) keep (elements_of (args ! 0))) new_sequence))"

definition control_select_one :: "('n, 'o, 'c) call_env \<Rightarrow> ('n, 'o) frame list \<Rightarrow> ('n, 'o, 'c) builtin" where
  "control_select_one cx fr args =
     then_do (control_filter cx fr True args) (\<lambda>v. give (element_at_or_empty (elements_of v) 1))"

primrec collect_with ::
  "('v \<Rightarrow> ('n, 'o, 'c, ('n, 'o) rvalue) eprog) \<Rightarrow> 'v list \<Rightarrow> ('n, 'o, 'c, ('n, 'o) rvalue list) eprog" where
  "collect_with p [] = give []"
| "collect_with p (v # vs) =
     then_do (p v) (\<lambda>r. then_do (charge_elements (int (length (elements_of r))))
       (\<lambda>_. then_do (collect_with p vs) (\<lambda>rest. give (elements_of r @ rest))))"

definition control_collect :: "('n, 'o, 'c) call_env \<Rightarrow> ('n, 'o) frame list \<Rightarrow> ('n, 'o, 'c) builtin" where
  "control_collect cx fr = with_arity 2 (\<lambda>args.
     then_do (result_of (body_of cx (args ! 1) 1)) (\<lambda>body.
     then_do (collect_with (\<lambda>v. apply_body cx fr body [v]) (elements_of (args ! 0))) (\<lambda>vs. give (VSequence vs))))"

definition control_reduce :: "('n, 'o, 'c) call_env \<Rightarrow> ('n, 'o) frame list \<Rightarrow> ('n, 'o, 'c) builtin" where
  "control_reduce cx fr = with_arity 2 (\<lambda>args.
     then_do (result_of (body_of cx (args ! 1) 2)) (\<lambda>body.
       case elements_of (args ! 0) of
         [] \<Rightarrow> give VNull
       | v # vs \<Rightarrow> fold_each (\<lambda>w acc. apply_body cx fr body [acc, w]) vs v))"

text \<open>The extremum so far, none before the first element; only a value strictly beyond it replaces it.\<close>

definition numeric_value :: "('n, 'o) rvalue \<Rightarrow> (eval_error, const) res" where
  "numeric_value v = (case v of VConst c \<Rightarrow> if is_numeric c then Inr c else Inl ErrTypeMismatch | _ \<Rightarrow> Inl ErrTypeMismatch)"

definition better :: "bool \<Rightarrow> const \<Rightarrow> const \<Rightarrow> bool" where
  "better least c best \<longleftrightarrow>
     float_less (as_real c) (as_real best) = least \<and> \<not> float_eq (as_real c) (as_real best)"

definition control_extremum :: "('n, 'o, 'c) call_env \<Rightarrow> ('n, 'o) frame list \<Rightarrow> bool \<Rightarrow> ('n, 'o, 'c) builtin" where
  "control_extremum cx fr least = with_arity 2 (\<lambda>args.
     then_do (result_of (body_of cx (args ! 1) 1)) (\<lambda>body.
       case elements_of (args ! 0) of
         [] \<Rightarrow> throw ErrMultiplicityViolation
       | v # vs \<Rightarrow>
           then_do (then_do (apply_body cx fr body [v]) (\<lambda>r. result_of (numeric_value r))) (\<lambda>first.
           then_do (fold_each (\<lambda>w best. then_do (then_do (apply_body cx fr body [w]) (\<lambda>r. result_of (numeric_value r)))
               (\<lambda>c. give (if better least c best then c else best))) vs first)
             (\<lambda>best. give (VConst best)))))"

primrec quantify_with :: "('v \<Rightarrow> ('n, 'o, 'c, bool) eprog) \<Rightarrow> bool \<Rightarrow> 'v list \<Rightarrow> ('n, 'o, 'c, ('n, 'o) rvalue) eprog" where
  "quantify_with p universal [] = give (bool_value universal)"
| "quantify_with p universal (v # vs) =
     then_do (p v) (\<lambda>holds. if holds \<noteq> universal then give (bool_value (\<not> universal)) else quantify_with p universal vs)"

definition control_quantify :: "('n, 'o, 'c) call_env \<Rightarrow> ('n, 'o) frame list \<Rightarrow> bool \<Rightarrow> ('n, 'o, 'c) builtin" where
  "control_quantify cx fr universal = with_arity 2 (\<lambda>args.
     then_do (result_of (body_of cx (args ! 1) 1)) (\<lambda>body.
       quantify_with (apply_predicate cx fr body) universal (elements_of (args ! 0))))"

definition control_truth :: "bool \<Rightarrow> ('n, 'o, 'c) builtin" where
  "control_truth universal = with_arity 1 (\<lambda>args.
     quantify_with (\<lambda>v. result_of (bool_operand v)) universal (elements_of (args ! 0)))"

section \<open>Aggregation\<close>

definition fold_numeric :: "operator \<Rightarrow> const \<Rightarrow> const \<Rightarrow> (eval_error, const) res" where
  "fold_numeric op acc elem =
     (case (acc, elem) of
        (ConstInt a, ConstInt b) \<Rightarrow>
          if op = OpAdd then
            (let r = a + b in
             if 0 < sint b \<and> sint r < sint a \<or> sint b < 0 \<and> sint a < sint r then Inl ErrArithmeticOverflow
             else Inr (ConstInt r))
          else if op = OpMul then
            (let r = a * b in
             if a \<noteq> 0 \<and> (quo_int64 r a \<noteq> b \<or> a = - 1 \<and> sint b = min_int64) then Inl ErrArithmeticOverflow
             else Inr (ConstInt r))
          else Inr (ConstInt 0)
      | _ \<Rightarrow>
          if acc = ConstInfinity \<or> elem = ConstInfinity then Inl ErrTypeMismatch
          else let x = (if op = OpAdd then float_add (as_real acc) (as_real elem)
                        else if op = OpMul then float_mul (as_real acc) (as_real elem) else Finite 0)
               in case x of Infinite _ \<Rightarrow> Inl ErrArithmeticOverflow | _ \<Rightarrow> Inr (ConstReal x))"

fun aggregate_quantities ::
  "('n, 'o, 'c) eval_env \<Rightarrow> operator \<Rightarrow> ('n, 'o) rvalue option \<Rightarrow> ('n, 'o) rvalue list \<Rightarrow> (eval_error, ('n, 'o) rvalue) res" where
  "aggregate_quantities env op acc [] = Inr (case acc of Some v \<Rightarrow> v | None \<Rightarrow> VNull)"
| "aggregate_quantities env op acc (v # vs) =
     (if \<not> as_quantity v then Inl ErrTypeMismatch
      else case acc of
        None \<Rightarrow> aggregate_quantities env op (Some v) vs
      | Some a \<Rightarrow> bind_res (ee_quantities env op a v) (\<lambda>r. aggregate_quantities env op (Some r) vs))"

primrec aggregate_numeric :: "operator \<Rightarrow> const \<Rightarrow> ('n, 'o) rvalue list \<Rightarrow> (eval_error, const) res" where
  "aggregate_numeric op acc [] = Inr acc"
| "aggregate_numeric op acc (v # vs) =
     bind_res (numeric_value v) (\<lambda>c. bind_res (fold_numeric op acc c) (\<lambda>r. aggregate_numeric op r vs))"

definition aggregate :: "('n, 'o, 'c) eval_env \<Rightarrow> operator \<Rightarrow> ('n, 'o, 'c) builtin" where
  "aggregate env op = with_arity 1 (\<lambda>args.
     let vs = elements_of (args ! 0) in
     result_of
       (if list_ex (\<lambda>v. value_kind_of v = KindQuantity) vs then aggregate_quantities env op None vs
        else map_res VConst (aggregate_numeric op (ConstInt (if op = OpMul then 1 else 0)) vs)))"

section \<open>The registry\<close>

definition integer_range :: "('n, 'o, 'c) builtin" where
  "integer_range = with_arity 2 (\<lambda>args. range_sequence (args ! 0) (args ! 1))"

definition builtins ::
  "('n, 'o, 'c) call_env \<Rightarrow> ('n, 'o) frame list \<Rightarrow> (string \<times> ('n, 'o, 'c) builtin) list" where
  "builtins cx fr =
     (let env = ce_env cx in
      [(''SequenceFunctions::#'', sequence_index), (''SequenceFunctions::size'', sequence_size),
       (''SequenceFunctions::isEmpty'', sequence_is_empty), (''SequenceFunctions::notEmpty'', sequence_not_empty),
       (''SequenceFunctions::includes'', sequence_includes env), (''SequenceFunctions::includesOnly'', sequence_includes_only env),
       (''SequenceFunctions::excludes'', sequence_excludes env), (''SequenceFunctions::equals'', sequence_equals env),
       (''SequenceFunctions::same'', sequence_same env), (''SequenceFunctions::union'', sequence_union),
       (''SequenceFunctions::intersection'', sequence_intersection env), (''SequenceFunctions::including'', sequence_including),
       (''SequenceFunctions::includingAt'', sequence_including_at), (''SequenceFunctions::excluding'', sequence_excluding env),
       (''SequenceFunctions::subsequence'', sequence_subsequence), (''SequenceFunctions::excludingAt'', sequence_excluding_at),
       (''SequenceFunctions::head'', sequence_head), (''SequenceFunctions::tail'', sequence_tail),
       (''SequenceFunctions::last'', sequence_last),
       (''CollectionFunctions::#'', sequence_index), (''CollectionFunctions::size'', sequence_size),
       (''CollectionFunctions::isEmpty'', sequence_is_empty), (''CollectionFunctions::notEmpty'', sequence_not_empty),
       (''CollectionFunctions::contains'', sequence_includes env), (''CollectionFunctions::containsAll'', sequence_includes env),
       (''CollectionFunctions::head'', sequence_head), (''CollectionFunctions::tail'', sequence_tail),
       (''CollectionFunctions::last'', sequence_last),
       (''ControlFunctions::select'', control_filter cx fr True), (''ControlFunctions::selectOne'', control_select_one cx fr),
       (''ControlFunctions::reject'', control_filter cx fr False), (''ControlFunctions::collect'', control_collect cx fr),
       (''ControlFunctions::forAll'', control_quantify cx fr True), (''ControlFunctions::exists'', control_quantify cx fr False),
       (''ControlFunctions::allTrue'', control_truth True), (''ControlFunctions::anyTrue'', control_truth False),
       (''ControlFunctions::reduce'', control_reduce cx fr), (''ControlFunctions::minimize'', control_extremum cx fr True),
       (''ControlFunctions::maximize'', control_extremum cx fr False),
       (''NumericalFunctions::sum'', aggregate env OpAdd), (''NumericalFunctions::product'', aggregate env OpMul),
       (''IntegerFunctions::..'', integer_range),
       (''IntegerFunctions::sum'', aggregate env OpAdd), (''IntegerFunctions::product'', aggregate env OpMul),
       (''RationalFunctions::sum'', aggregate env OpAdd), (''RationalFunctions::product'', aggregate env OpMul),
       (''RealFunctions::sum'', aggregate env OpAdd), (''RealFunctions::product'', aggregate env OpMul)])"

definition builtin_local_names :: "(string \<times> string) list" where
  "builtin_local_names =
     map (\<lambda>n. (n, ''SequenceFunctions::'' @ n))
       [''size'', ''isEmpty'', ''notEmpty'', ''includes'', ''includesOnly'', ''excludes'', ''equals'', ''same'', ''union'', ''intersection'',
        ''including'', ''includingAt'', ''excluding'', ''subsequence'', ''excludingAt'', ''head'', ''tail'', ''last'']
     @ map (\<lambda>n. (n, ''CollectionFunctions::'' @ n)) [''contains'', ''containsAll'']
     @ map (\<lambda>n. (n, ''ControlFunctions::'' @ n))
         [''select'', ''selectOne'', ''reject'', ''collect'', ''forAll'', ''exists'', ''allTrue'', ''anyTrue'', ''reduce'', ''minimize'', ''maximize'']
     @ map (\<lambda>n. (n, ''NumericalFunctions::'' @ n)) [''sum'', ''product'']"

text \<open>The unqualified names; an unregistered one would panic when the package is loaded.\<close>

definition builtin_by_local_name ::
  "('n, 'o, 'c) call_env \<Rightarrow> ('n, 'o) frame list \<Rightarrow> string \<Rightarrow> ('n, 'o, 'c) builtin option" where
  "builtin_by_local_name cx fr n = Option.bind (map_of builtin_local_names n) (map_of (builtins cx fr))"

section \<open>Invocations\<close>

text \<open>
  What a name denotes outside the registry: the symbol it resolves to with its qualified name, the
  library function an unresolved name stands for, and the call of a calculation.
\<close>

record ('n, 'o, 'c, 'y) callees =
  ca_resolve :: "string \<Rightarrow> 'y option"
  ca_qualified_name :: "'y \<Rightarrow> string"
  ca_library :: "string \<Rightarrow> (eval_error, (('n, 'o) rvalue list \<Rightarrow> (string \<times> ('n, 'o) rvalue) list \<Rightarrow> ('n, 'o, 'c, ('n, 'o) rvalue) eprog) option) res"
  ca_invoke :: "'y \<Rightarrow> ('n, 'o) rvalue list \<Rightarrow> (string \<times> ('n, 'o) rvalue) list \<Rightarrow> ('n, 'o, 'c, ('n, 'o) rvalue) eprog"

primrec eval_arguments ::
  "('n, 'o, 'c) eval_env \<Rightarrow> ('n, 'o) frame list \<Rightarrow> 'n expr list \<Rightarrow> ('n, 'o, 'c, ('n, 'o) rvalue list) eprog" where
  "eval_arguments env fr [] = give []"
| "eval_arguments env fr (e # es) =
     then_do (eval env fr e) (\<lambda>v. then_do (eval_arguments env fr es) (\<lambda>vs. give (v # vs)))"

primrec eval_named_arguments ::
  "('n, 'o, 'c) eval_env \<Rightarrow> ('n, 'o) frame list \<Rightarrow> (string list \<times> 'n expr) list \<Rightarrow> (string \<times> ('n, 'o) rvalue) list
    \<Rightarrow> ('n, 'o, 'c, (string \<times> ('n, 'o) rvalue) list) eprog" where
  "eval_named_arguments env fr [] acc = give acc"
| "eval_named_arguments env fr (ne # nes) acc =
     (if fst ne = [] then throw (ErrOther ''unnamed argument'')
      else then_do (eval env fr (snd ne)) (\<lambda>v. eval_named_arguments env fr nes (AList.update (last (fst ne)) v acc)))"

definition positional_only :: "('n, 'o, 'c) builtin \<Rightarrow> ('n, 'o) rvalue list \<Rightarrow> (string \<times> ('n, 'o) rvalue) list
    \<Rightarrow> ('n, 'o, 'c, ('n, 'o) rvalue) eprog" where
  "positional_only f args named = (if named \<noteq> [] then throw ErrUnknownParameter else f args)"

definition dispatch_call ::
  "('n, 'o, 'c) call_env \<Rightarrow> ('n, 'o, 'c, 'y) callees \<Rightarrow> ('n, 'o) frame list \<Rightarrow> string
    \<Rightarrow> ('n, 'o) rvalue list \<Rightarrow> (string \<times> ('n, 'o) rvalue) list \<Rightarrow> ('n, 'o, 'c, ('n, 'o) rvalue) eprog" where
  "dispatch_call cx ca fr name args named =
     (case map_of (builtins cx fr) name of
        Some f \<Rightarrow> positional_only f args named
      | None \<Rightarrow>
          (case ca_resolve ca name of
             None \<Rightarrow>
               (case ca_library ca name of
                  Inl x \<Rightarrow> throw x
                | Inr (Some f) \<Rightarrow> f args named
                | Inr None \<Rightarrow>
                    (case builtin_by_local_name cx fr name of
                       Some f \<Rightarrow> positional_only f args named
                     | None \<Rightarrow> throw ErrUnresolvedReference))
           | Some y \<Rightarrow>
               (case map_of (builtins cx fr) (ca_qualified_name ca y) of
                  Some f \<Rightarrow> positional_only f args named
                | None \<Rightarrow> ca_invoke ca y (if named \<noteq> [] then [] else args) named)))"

definition eval_invocation ::
  "('n, 'o, 'c) call_env \<Rightarrow> ('n, 'o, 'c, 'y) callees \<Rightarrow> ('n, 'o) frame list \<Rightarrow> string \<Rightarrow> 'n expr option
    \<Rightarrow> 'n expr list \<Rightarrow> (string list \<times> 'n expr) list \<Rightarrow> ('n, 'o, 'c, ('n, 'o) rvalue) eprog" where
  "eval_invocation cx ca fr name operand args named =
     (if operand \<noteq> None \<and> named \<noteq> [] then throw ErrReceiverWithNamedArgs
      else then_do (eval_arguments (ce_env cx) fr (case operand of Some e \<Rightarrow> e # args | None \<Rightarrow> args)) (\<lambda>vs.
        then_do (eval_named_arguments (ce_env cx) fr named []) (dispatch_call cx ca fr name vs)))"

text \<open>\<open>operand.{...}\<close> and \<open>operand.?{...}\<close>.\<close>

definition eval_collection_notation ::
  "('n, 'o, 'c) call_env \<Rightarrow> ('n, 'o) frame list \<Rightarrow> ('n, 'o, 'c) builtin \<Rightarrow> 'n expr \<Rightarrow> 'n expr option
    \<Rightarrow> ('n, 'o, 'c, ('n, 'o) rvalue) eprog" where
  "eval_collection_notation cx fr f operand body =
     then_do (eval (ce_env cx) fr operand) (\<lambda>v.
       case body of
         None \<Rightarrow> throw ErrNoResultExpression
       | Some b \<Rightarrow> then_do (eval (ce_env cx) fr b) (\<lambda>w. f [v, w]))"

end
