(* ===== verification/Collection_Properties.thy ===== *)
theory Collection_Properties
  imports Collections Statement_Budget
begin

text \<open>
  What the collection functions answer: positions, bodies applied to elements within the budgets,
  aggregation of integers, and the names they are called by.
\<close>

section \<open>Running within the budgets\<close>

text \<open>
  \<open>spare s e ctx\<close>: the context has \<open>s\<close> steps and \<open>e\<close> elements left. \<open>affords s e p a\<close>: within \<open>s\<close> steps and
  \<open>e\<close> elements \<open>p\<close> answers \<open>a\<close>.
\<close>

definition elements_left :: "('n, 'o, 'c) eval_ctx \<Rightarrow> int" where
  "elements_left ctx = er_max_elements (rc_rest ctx) - rc_elements ctx"

definition spare :: "int \<Rightarrow> int \<Rightarrow> ('n, 'o, 'c) eval_ctx \<Rightarrow> bool" where
  "spare s e ctx \<longleftrightarrow> 0 \<le> s \<and> 0 \<le> e \<and> s \<le> steps_left ctx \<and> e \<le> elements_left ctx"

definition affords :: "int \<Rightarrow> int \<Rightarrow> ('n, 'o, 'c, 'a) eprog \<Rightarrow> 'a \<Rightarrow> bool" where
  "affords s e p a \<longleftrightarrow>
     (\<forall>ctx S E. spare S E ctx \<longrightarrow> s \<le> S \<longrightarrow> e \<le> E \<longrightarrow> (\<exists>ctx'. p ctx = (ctx', Inr a) \<and> spare (S - s) (E - e) ctx'))"

lemma affordsD: "affords s e p a \<Longrightarrow> spare S E ctx \<Longrightarrow> s \<le> S \<Longrightarrow> e \<le> E \<Longrightarrow> snd (p ctx) = Inr a"
  by (fastforce simp: affords_def)

lemma affords_give: "0 \<le> s \<Longrightarrow> 0 \<le> e \<Longrightarrow> affords s e (give a) a"
  by (auto simp: affords_def spare_def)

lemma affords_giveI: "a = b \<Longrightarrow> affords 0 0 (give a) b"
  by (simp add: affords_give del: prog_simps)

lemma affords_resultI: "0 \<le> s \<Longrightarrow> 0 \<le> e \<Longrightarrow> r = Inr a \<Longrightarrow> affords s e (result_of r) a"
  by (simp add: result_of_def affords_give del: prog_simps)

lemma affords_then:
  assumes "affords s e p a" "affords s' e' (f a) b" "0 \<le> s'" "0 \<le> e'"
  shows "affords (s + s') (e + e') (then_do p f) b"
proof -
  have "\<exists>ctx'. then_do p f ctx = (ctx', Inr b) \<and> spare (S - (s + s')) (E - (e + e')) ctx'"
    if ctx: "spare S E ctx" "s + s' \<le> S" "e + e' \<le> E" for ctx S E
  proof -
    from assms(3,4) ctx have "s \<le> S" "e \<le> E" by simp_all
    with assms(1) ctx(1) obtain ctx1 where 1: "p ctx = (ctx1, Inr a)" "spare (S - s) (E - e) ctx1"
      unfolding affords_def by blast
    from ctx have "s' \<le> S - s" "e' \<le> E - e" by simp_all
    with assms(2) 1(2) obtain ctx2 where "f a ctx1 = (ctx2, Inr b)" "spare (S - s - s') (E - e - e') ctx2"
      unfolding affords_def by blast
    with 1 show ?thesis by (intro exI [of _ ctx2]) (simp add: algebra_simps)
  qed
  then show ?thesis by (simp add: affords_def)
qed

lemma affords_thenI:
  "affords s e p a \<Longrightarrow> affords s' e' (f a) b \<Longrightarrow> 0 \<le> s' \<Longrightarrow> 0 \<le> e' \<Longrightarrow> S = s + s' \<Longrightarrow> E = e + e'
    \<Longrightarrow> affords S E (then_do p f) b"
  by (simp add: affords_then)

lemma affords_charge: "0 \<le> n \<Longrightarrow> affords 0 n (charge_elements n) ()"
  by (auto simp: affords_def spare_def charge_elements_def Let_def elements_left_def steps_left_def)

lemma affords_sequence: "affords 0 (int (length vs)) (new_sequence vs) (VSequence vs)"
  unfolding new_sequence_def by (rule affords_thenI [OF affords_charge affords_give [of 0 0]]) simp_all

lemma affords_mono: "affords s e p a \<Longrightarrow> s \<le> s' \<Longrightarrow> e \<le> e' \<Longrightarrow> affords s' e' p a"
proof -
  assume p: "affords s e p a" and le: "s \<le> s'" "e \<le> e'"
  have "\<exists>ctx'. p ctx = (ctx', Inr a) \<and> spare (S - s') (E - e') ctx'"
    if ctx: "spare S E ctx" "s' \<le> S" "e' \<le> E" for ctx S E
  proof -
    from ctx le have "s \<le> S" "e \<le> E" by simp_all
    with p ctx(1) obtain ctx' where "p ctx = (ctx', Inr a)" "spare (S - s) (E - e) ctx'" unfolding affords_def by blast
    with ctx le show ?thesis by (auto simp: spare_def)
  qed
  then show ?thesis by (simp add: affords_def)
qed

section \<open>Bodies over elements\<close>

text \<open>A predicate that answers \<open>P\<close> on every element.\<close>

definition decides :: "int \<Rightarrow> int \<Rightarrow> ('v \<Rightarrow> ('n, 'o, 'c, 'a) eprog) \<Rightarrow> ('v \<Rightarrow> 'a) \<Rightarrow> 'v list \<Rightarrow> bool" where
  "decides s e p P vs \<longleftrightarrow> 0 \<le> s \<and> 0 \<le> e \<and> (\<forall>v \<in> set vs. affords s e (p v) (P v))"

lemma decides_Cons: "decides s e p P (v # vs) \<longleftrightarrow> affords s e (p v) (P v) \<and> decides s e p P vs"
  by (auto simp: decides_def)

lemma decides_nonneg: "decides s e p P vs \<Longrightarrow> 0 \<le> s \<and> 0 \<le> e"
  by (simp add: decides_def)

lemma filter_with_affords:
  "decides s e p P vs \<Longrightarrow>
     affords (s * int (length vs)) (e * int (length vs)) (filter_with p keep vs) (filter (\<lambda>v. P v = keep) vs)"
proof (induction vs)
  case Nil
  then show ?case by (simp add: affords_give del: prog_simps)
next
  case (Cons v vs)
  then have v: "affords s e (p v) (P v)" "decides s e p P vs" by (simp_all add: decides_Cons)
  have "affords (s * int (length vs)) (e * int (length vs))
      (then_do (filter_with p keep vs) (\<lambda>rest. give (if P v = keep then v # rest else rest))) (filter (\<lambda>v. P v = keep) (v # vs))"
    by (rule affords_thenI [OF Cons.IH [OF v(2)] affords_giveI]) simp_all
  with decides_nonneg [OF v(2)] show ?case
    unfolding filter_with.simps by (intro affords_thenI [OF v(1)]) (simp_all add: algebra_simps)
qed

lemma quantify_with_affords:
  "decides s e p P vs \<Longrightarrow>
     affords (s * int (length vs)) (e * int (length vs)) (quantify_with p universal vs)
       (bool_value (if universal then list_all P vs else list_ex P vs))"
proof (induction vs)
  case Nil
  then show ?case by (cases universal) (simp_all add: affords_give del: prog_simps)
next
  case (Cons v vs)
  then have v: "affords s e (p v) (P v)" "decides s e p P vs" by (simp_all add: decides_Cons)
  note pos = decides_nonneg [OF v(2)]
  let ?b = "bool_value (if universal then list_all P (v # vs) else list_ex P (v # vs))"
  let ?f = "\<lambda>holds. if holds \<noteq> universal then give (bool_value (\<not> universal)) else quantify_with p universal vs"
  have "affords (s * int (length vs)) (e * int (length vs)) (?f (P v)) ?b"
    using Cons.IH [OF v(2)] pos affords_give [of "s * int (length vs)" "e * int (length vs)" "bool_value (\<not> universal)"]
    by (cases universal; cases "P v") auto
  with pos show ?case
    unfolding quantify_with.simps by (intro affords_thenI [OF v(1)]) (simp_all add: algebra_simps)
qed

text \<open>The value closest to the end asked for, the first of equal ones.\<close>

fun first_best :: "bool \<Rightarrow> const list \<Rightarrow> const \<Rightarrow> const" where
  "first_best least [] c = c"
| "first_best least (d # ds) c = first_best least ds (if better least d c then d else c)"

lemma extremum_affords:
  "decides s e (\<lambda>w. then_do (p w) (\<lambda>r. result_of (numeric_value r))) C vs \<Longrightarrow>
     affords (s * int (length vs)) (e * int (length vs))
       (fold_each (\<lambda>w best. then_do (then_do (p w) (\<lambda>r. result_of (numeric_value r)))
          (\<lambda>c. give (if better least c best then c else best))) vs b) (first_best least (map C vs) b)"
proof (induction vs arbitrary: b)
  case Nil
  then show ?case by (simp add: affords_give del: prog_simps)
next
  case (Cons v vs)
  then have v: "affords s e (then_do (p v) (\<lambda>r. result_of (numeric_value r))) (C v)"
    "decides s e (\<lambda>w. then_do (p w) (\<lambda>r. result_of (numeric_value r))) C vs" by (simp_all add: decides_Cons)
  note pos = decides_nonneg [OF v(2)]
  let ?f = "\<lambda>w best. then_do (then_do (p w) (\<lambda>r. result_of (numeric_value r))) (\<lambda>c. give (if better least c best then c else best))"
  have "affords s e (?f v b) (if better least (C v) b then C v else b)"
    by (rule affords_thenI [OF v(1) affords_giveI]) simp_all
  with pos Cons.IH [OF v(2), of "if better least (C v) b then C v else b"] show ?case
    unfolding fold_each.simps list.map first_best.simps
    by (intro affords_thenI [of s e "?f v b"]) (simp_all add: algebra_simps del: prog_simps then_do_simps)
qed

definition is_number :: "float64 \<Rightarrow> bool" where
  "is_number x \<longleftrightarrow> x \<noteq> NotANumber"

lemma with_body:
  "body_of cx b n = Inr body \<Longrightarrow> then_do (result_of (body_of cx b n)) f = f body"
  by (simp add: result_of_def del: prog_simps)

lemma control_runs:
  assumes "body_of cx b 1 = Inr body"
  shows "control_filter cx fr keep [c, b] = then_do (filter_with (apply_predicate cx fr body) keep (elements_of c)) new_sequence"
    "control_quantify cx fr u [c, b] = quantify_with (apply_predicate cx fr body) u (elements_of c)"
  using assms by (simp_all add: control_filter_def control_quantify_def with_arity_def with_body)

text \<open>How far a value lies beyond another, for the least and the greatest.\<close>

definition beyond :: "bool \<Rightarrow> float64 \<Rightarrow> float64 \<Rightarrow> bool" where
  "beyond least x y = (if least then float_less x y else float_less y x)"

lemma better_beyond: "is_number (as_real c) \<Longrightarrow> is_number (as_real d) \<Longrightarrow> better least c d = beyond least (as_real c) (as_real d)"
  by (cases "as_real c"; cases "as_real d"; auto simp: better_def beyond_def is_number_def split: if_splits)

lemma beyond_order:
  "is_number x \<Longrightarrow> is_number y \<Longrightarrow> \<not> beyond least x y \<Longrightarrow> beyond least z y \<Longrightarrow> is_number z \<Longrightarrow> beyond least z x"
  "\<not> beyond least x x" "beyond least x y \<Longrightarrow> \<not> beyond least y x"
  subgoal by (cases x; cases y; cases z; auto simp: beyond_def is_number_def split: if_splits)
  subgoal by (cases x; auto simp: beyond_def)
  subgoal by (cases x; cases y; auto simp: beyond_def split: if_splits)
  done

lemma first_best_snoc: "first_best least (ds @ [d]) c = (let b = first_best least ds c in if better least d b then d else b)"
  by (induction ds arbitrary: c) (auto simp: Let_def)

lemma first_best_spec:
  assumes "list_all (\<lambda>c. is_number (as_real c)) (c # ds)"
  shows "\<exists>i < length (c # ds). first_best least ds c = (c # ds) ! i
    \<and> list_all (\<lambda>d. \<not> beyond least (as_real d) (as_real ((c # ds) ! i))) (c # ds)
    \<and> list_all (\<lambda>d. beyond least (as_real ((c # ds) ! i)) (as_real d)) (take i (c # ds))"
  using assms
proof (induction ds rule: rev_induct)
  case Nil
  then show ?case by (intro exI [of _ 0]) (simp add: beyond_order(2))
next
  case (snoc d ds)
  then obtain i where i: "i < length (c # ds)" "first_best least ds c = (c # ds) ! i"
    "list_all (\<lambda>d. \<not> beyond least (as_real d) (as_real ((c # ds) ! i))) (c # ds)"
    "list_all (\<lambda>d. beyond least (as_real ((c # ds) ! i)) (as_real d)) (take i (c # ds))" by auto
  let ?b = "(c # ds) ! i"
  have num: "list_all (\<lambda>c. is_number (as_real c)) (c # ds)" "is_number (as_real d)" using snoc.prems by simp_all
  then have b: "is_number (as_real ?b)" using i(1) by (metis list_all_length)
  show ?case
  proof (cases "beyond least (as_real d) (as_real ?b)")
    case True
    have "\<not> beyond least (as_real x) (as_real d) \<and> beyond least (as_real d) (as_real x)" if "x \<in> set (c # ds)" for x
    proof -
      have x: "is_number (as_real x)" "\<not> beyond least (as_real x) (as_real ?b)" using num(1) i(3) that by (auto simp: list_all_iff)
      have "beyond least (as_real d) (as_real x)" using beyond_order(1) [OF x(1) b x(2) True num(2)] .
      then show ?thesis using beyond_order(2,3) by blast
    qed
    then show ?thesis
      using True better_beyond [OF num(2) b] beyond_order(2)
      by (intro exI [of _ "length (c # ds)"]) (auto simp: first_best_snoc i(2) Let_def list_all_iff nth_append)
  next
    case False
    define xs where "xs = c # ds"
    have whole: "c # ds @ [d] = xs @ [d]" by (simp add: xs_def)
    have best: "first_best least (ds @ [d]) c = xs ! i"
      using False better_beyond [OF num(2) b] i(2) by (simp add: first_best_snoc Let_def xs_def)
    note at = i(1,3,4) False
    show ?thesis
      unfolding whole best by (intro exI [of _ i]) (use at in \<open>simp add: nth_append flip: xs_def\<close>)
  qed
qed

section \<open>Aggregation of integers\<close>

lemma sint_add_wrap:
  fixes a b :: int64
  shows "sint (a + b) = (if max_int64 < sint a + sint b then sint a + sint b - 2 ^ 64
     else if sint a + sint b < min_int64 then sint a + sint b + 2 ^ 64 else sint a + sint b)"
proof -
  let ?s = "sint a + sint b"
  note range = sint_in_int64 [of a] sint_in_int64 [of b]
  have w: "(word_of_int (?s - 2 ^ 64) :: int64) = a + b" "(word_of_int (?s + 2 ^ 64) :: int64) = a + b" "(word_of_int ?s :: int64) = a + b"
    by simp_all
  show ?thesis
    using sint_of_int64 [of "?s - 2 ^ 64"] sint_of_int64 [of "?s + 2 ^ 64"] sint_of_int64 [of ?s] range
    unfolding w by (auto simp: in_int64_def min_int64_def max_int64_def)
qed

lemma fold_add: "fold_numeric OpAdd (ConstInt a) (ConstInt b)
    = (if in_int64 (sint a + sint b) then Inr (ConstInt (a + b)) else Inl ErrArithmeticOverflow)"
  using sint_in_int64 [of a] sint_in_int64 [of b]
  by (auto simp: fold_numeric_def Let_def sint_add_wrap in_int64_def min_int64_def max_int64_def)

lemma fold_mul: "fold_numeric OpMul (ConstInt a) (ConstInt b)
    = (if in_int64 (sint a * sint b) then Inr (ConstInt (a * b)) else Inl ErrArithmeticOverflow)"
proof -
  have least: "c = word_of_int min_int64 \<longleftrightarrow> sint c = min_int64" for c :: int64
    using sint_inject [of c "word_of_int min_int64"] sint_of_int64 [of min_int64]
    by (simp add: in_int64_def min_int64_def max_int64_def)
  let ?m = "word_of_int min_int64 :: int64"
  have m: "?m \<noteq> 0" "?m \<noteq> - 1" "- 1 \<noteq> ?m" "quo_int64 ?m ?m \<noteq> - 1" "- ?m = ?m" by code_simp+
  have "quo_int64 0 c = 0" for c by (simp add: quo_int64_def)
  with m(1-4) have "fold_numeric OpMul (ConstInt a) (ConstInt b)
      = (case mul_int b a of None \<Rightarrow> Inl ErrArithmeticOverflow | Some r \<Rightarrow> Inr (ConstInt r))"
    by (auto simp: fold_numeric_def mul_int_def Let_def mult.commute m(5) simp flip: least)
  then show ?thesis by (simp add: mul_int_exact mult.commute)
qed

text \<open>The exact fold of the elements, and whether it and every fold of a prefix fit the type.\<close>

definition exact_fold :: "operator \<Rightarrow> int64 list \<Rightarrow> int" where
  "exact_fold op as = (if op = OpMul then prod_list (map sint as) else sum_list (map sint as))"

definition prefixes_fit :: "operator \<Rightarrow> int64 list \<Rightarrow> bool" where
  "prefixes_fit op as \<longleftrightarrow> list_all (\<lambda>n. in_int64 (exact_fold op (take n as))) [0..<Suc (length as)]"

lemma prefixes_fit_snoc: "prefixes_fit op (as @ [a]) \<longleftrightarrow> prefixes_fit op as \<and> in_int64 (exact_fold op (as @ [a]))"
  by (auto simp: prefixes_fit_def list_all_iff)

lemma aggregate_numeric_append:
  "aggregate_numeric op acc (vs @ ws) = bind_res (aggregate_numeric op acc vs) (\<lambda>r. aggregate_numeric op r ws)"
  by (induction vs arbitrary: acc) (auto simp: bind_res_def split: sum.split)

lemma no_quantity [simp]: "\<not> list_ex (\<lambda>v. value_kind_of v = KindQuantity) (map (\<lambda>a. VConst (ConstInt a)) as)"
  by (simp add: list_ex_iff)

lemma aggregate_integers:
  assumes "op = OpAdd \<or> op = OpMul"
  shows "aggregate_numeric op (ConstInt (if op = OpMul then 1 else 0)) (map (\<lambda>a. VConst (ConstInt a)) as)
    = (if prefixes_fit op as then Inr (ConstInt (word_of_int (exact_fold op as))) else Inl ErrArithmeticOverflow)"
proof (induction as rule: rev_induct)
  case Nil
  have "in_int64 0" "in_int64 1" by (simp_all add: in_int64_def min_int64_def max_int64_def)
  then show ?case using assms by (auto simp: prefixes_fit_def exact_fold_def)
next
  case (snoc a as)
  have num: "numeric_value (VConst (ConstInt a)) = Inr (ConstInt a)" by (simp add: numeric_value_def)
  show ?case
  proof (cases "prefixes_fit op as")
    case True
    then have fits: "in_int64 (exact_fold op as)" by (auto simp: prefixes_fit_def)
    have step: "fold_numeric op (ConstInt (word_of_int (exact_fold op as))) (ConstInt a)
        = (if in_int64 (exact_fold op (as @ [a])) then Inr (ConstInt (word_of_int (exact_fold op (as @ [a])))) else Inl ErrArithmeticOverflow)"
      using assms sint_of_int64 [OF fits]
      by (elim disjE) (simp_all add: exact_fold_def fold_add fold_mul sint_of_int64)
    show ?thesis
      unfolding map_append aggregate_numeric_append snoc by (simp add: True num step prefixes_fit_snoc bind_res_def)
  next
    case False
    then show ?thesis
      unfolding map_append aggregate_numeric_append snoc by (simp add: prefixes_fit_snoc bind_res_def)
  qed
qed

section \<open>Properties\<close>

text \<open>
  Over the elements of a collection, with a body that decides every one of them within \<open>s\<close> steps
  and \<open>e\<close> collection elements, \<open>select\<close> keeps the elements the body holds for, in order, \<open>reject\<close> the
  others, \<open>selectOne\<close> answers the first one or null, and \<open>forAll\<close> and \<open>exists\<close> are the quantifiers.\<close>

theorem selection_and_quantifiers:
  assumes "body_of cx b 1 = Inr body" "decides s e (apply_predicate cx fr body) P (elements_of c)"
    "spare (s * int (length (elements_of c))) ((e + 1) * int (length (elements_of c))) ctx"
  shows "snd (control_filter cx fr True [c, b] ctx) = Inr (VSequence (filter P (elements_of c)))
    \<and> snd (control_filter cx fr False [c, b] ctx) = Inr (VSequence (filter (\<lambda>v. \<not> P v) (elements_of c)))
    \<and> snd (control_select_one cx fr [c, b] ctx) = Inr (case filter P (elements_of c) of [] \<Rightarrow> VNull | v # _ \<Rightarrow> v)
    \<and> snd (control_quantify cx fr True [c, b] ctx) = Inr (bool_value (list_all P (elements_of c)))
    \<and> snd (control_quantify cx fr False [c, b] ctx) = Inr (bool_value (list_ex P (elements_of c)))"
proof -
  let ?n = "int (length (elements_of c))"
  note runs = control_runs [OF assms(1)]
  have filters: "affords (s * ?n) ((e + 1) * ?n) (control_filter cx fr keep [c, b]) (VSequence (filter (\<lambda>v. P v = keep) (elements_of c)))" for keep
    unfolding runs
  proof (rule affords_mono [OF affords_thenI [OF filter_with_affords [OF assms(2)] affords_sequence _ _ refl refl]])
    show "e * ?n + int (length (filter (\<lambda>v. P v = keep) (elements_of c))) \<le> (e + 1) * ?n"
      using length_filter_le [of "\<lambda>v. P v = keep" "elements_of c"] by (simp add: algebra_simps)
  qed simp_all
  have quantifiers: "affords (s * ?n) ((e + 1) * ?n) (control_quantify cx fr u [c, b])
      (bool_value (if u then list_all P (elements_of c) else list_ex P (elements_of c)))" for u
    unfolding runs by (rule affords_mono [OF quantify_with_affords [OF assms(2)]]) (simp_all add: algebra_simps)
  have one: "affords (s * ?n) ((e + 1) * ?n) (control_select_one cx fr [c, b]) (case filter P (elements_of c) of [] \<Rightarrow> VNull | v # _ \<Rightarrow> v)"
    unfolding control_select_one_def
    by (rule affords_thenI [OF filters affords_giveI _ _ add_0_right [symmetric] add_0_right [symmetric]]) (auto simp: element_at_or_empty_def split: list.split)
  show ?thesis
    using affordsD [OF filters [of True] assms(3)] affordsD [OF filters [of False] assms(3)] affordsD [OF one assms(3)]
      affordsD [OF quantifiers [of True] assms(3)] affordsD [OF quantifiers [of False] assms(3)]
    by simp
qed

text \<open>
  \<open>forAll\<close> and \<open>exists\<close> stop at the element that decides the answer: with the elements before it
  answered, nothing after it is evaluated, whatever it would spend or however it would fail.\<close>

theorem quantifiers_stop:
  assumes "body_of cx b 1 = Inr body" "decides s e (apply_predicate cx fr body) P (pre @ [v])"
    "list_all (\<lambda>w. P w = universal) pre" "P v \<noteq> universal"
    "spare (s * int (length pre + 1)) (e * int (length pre + 1)) ctx"
  shows "control_quantify cx fr universal [VSequence (pre @ v # post), b] ctx
      = control_quantify cx fr universal [VSequence (pre @ [v]), b] ctx
    \<and> snd (control_quantify cx fr universal [VSequence (pre @ v # post), b] ctx) = Inr (bool_value (\<not> universal))"
proof -
  let ?p = "apply_predicate cx fr body"
  have same: "quantify_with ?p universal (pre @ v # post) ctx = quantify_with ?p universal (pre @ [v]) ctx"
    using assms(2,3,5)
  proof (induction pre arbitrary: ctx)
    case Nil
    then have "affords s e (?p v) (P v)" "spare s e ctx" by (simp_all add: decides_Cons)
    then obtain ctx' where "?p v ctx = (ctx', Inr (P v))" unfolding affords_def by blast
    with assms(4) show ?case by simp
  next
    case (Cons w pre)
    then have w: "affords s e (?p w) (P w)" and rest: "decides s e ?p P (pre @ [v])" "list_all (\<lambda>w. P w = universal) pre" "P w = universal"
      by (simp_all add: decides_Cons)
    note pos = decides_nonneg [OF rest(1)]
    let ?S = "s * int (length pre + 1)" and ?E = "e * int (length pre + 1)"
    from Cons.prems(3) have sp: "spare (s + ?S) (e + ?E) ctx" by (simp add: algebra_simps)
    from w sp pos obtain ctx' where "?p w ctx = (ctx', Inr (P w))" "spare ?S ?E ctx'"
      unfolding affords_def by (metis (no_types, lifting) add_diff_cancel_left' le_add_same_cancel1 mult_nonneg_nonneg of_nat_0_le_iff)
    with Cons.IH [OF rest(1,2)] rest(3) show ?case by simp
  qed
  have "snd (quantify_with ?p universal (pre @ [v]) ctx) = Inr (bool_value (\<not> universal))"
    using affordsD [OF quantify_with_affords [OF assms(2), of universal], of "s * int (length pre + 1)" "e * int (length pre + 1)" ctx] assms(3-5)
    by (cases universal) (auto simp: list_ex_iff)
  with same control_runs [OF assms(1)] show ?thesis by simp
qed

text \<open>
  C36. The elements of a sequence at the positions \<open>a\<close> to \<open>b\<close>, counted from 1, can be cut out and put back:
  \<open>includingAt\<close> of \<open>subsequence\<close> into \<open>excludingAt\<close> at the first position is the sequence again, and
  twice its length is charged to the element budget.\<close>

theorem cut_and_paste:
  assumes "1 \<le> sint a" "sint a \<le> sint b" "sint b \<le> int (length (elements_of v))"
    "rc_elements ctx + 2 * int (length (elements_of v)) \<le> er_max_elements (rc_rest ctx)"
  shows "then_do (sequence_subsequence [v, VConst (ConstInt a), VConst (ConstInt b)]) (\<lambda>cut.
      then_do (sequence_excluding_at [v, VConst (ConstInt a), VConst (ConstInt b)]) (\<lambda>rest.
      sequence_including_at [rest, cut, VConst (ConstInt a)])) ctx
    = (ctx\<lparr>rc_elements := rc_elements ctx + 2 * int (length (elements_of v))\<rparr>, Inr (VSequence (elements_of v)))"
proof -
  let ?vs = "elements_of v" and ?i = "nat (sint a - 1)" and ?j = "nat (sint b)"
  let ?cut = "take (nat (sint b - sint a + 1)) (drop ?i ?vs)" and ?rest = "take ?i ?vs @ drop ?j ?vs"
  have index: "index_of (VConst (ConstInt c)) = Inr (sint c)" for c by (simp add: index_of_def)
  have sizes: "length ?cut = nat (sint b - sint a + 1)" "length ?rest = length ?vs - nat (sint b - sint a + 1)"
    "nat (sint b - sint a + 1) \<le> length ?vs" "?i \<le> length ?vs"
    using assms(1-3) by auto
  have "nat (sint b - sint a + 1) = ?j - ?i" using assms(1-3) by linarith
  then have cut: "?cut = take (?j - ?i) (drop ?i ?vs)" by simp
  have "?i \<le> ?j" using assms by simp
  then have "take ?i ?vs @ take (?j - ?i) (drop ?i ?vs) = take ?j ?vs"
    using take_add [of ?i "?j - ?i" ?vs] by simp
  then have whole: "take ?i ?vs @ ?cut @ drop ?j ?vs = ?vs" unfolding cut by (simp flip: append_assoc)
  have run: "new_sequence ws c = (c\<lparr>rc_elements := rc_elements c + int (length ws)\<rparr>, Inr (VSequence ws))"
    if "rc_elements c + int (length ws) \<le> er_max_elements (rc_rest c)" for ws and c :: "('a, 'b, 'c) eval_ctx"
    using that by (simp add: new_sequence_def charge_elements_def Let_def then_do_def)
  have total: "int (length ?rest) + int (length ?cut) = int (length ?vs)" using sizes(1,2,3) by linarith
  have 1: "sequence_subsequence [v, VConst (ConstInt a), VConst (ConstInt b)] = new_sequence ?cut"
    using assms(1-3) by (simp add: sequence_subsequence_def Let_def index end_index_def result_of_def del: prog_simps then_do_simps)
  have 2: "sequence_excluding_at [v, VConst (ConstInt a), VConst (ConstInt b)] = new_sequence ?rest"
    using assms(1-3) by (simp add: sequence_excluding_at_def Let_def index end_index_def result_of_def del: prog_simps then_do_simps)
  have "take ?i ?rest @ ?cut @ drop ?i ?rest = ?vs" using sizes(4) whole by simp
  then have 3: "sequence_including_at [VSequence ?rest, VSequence ?cut, VConst (ConstInt a)] = new_sequence ?vs"
    using assms(1-3) sizes by (simp add: sequence_including_at_def with_arity_def Let_def index result_of_def del: prog_simps then_do_simps)
  let ?c1 = "ctx\<lparr>rc_elements := rc_elements ctx + int (length ?cut)\<rparr>"
  let ?c2 = "ctx\<lparr>rc_elements := rc_elements ctx + int (length ?vs)\<rparr>"
  from total assms(4) have "new_sequence ?cut ctx = (?c1, Inr (VSequence ?cut))" "new_sequence ?rest ?c1 = (?c2, Inr (VSequence ?rest))"
    "new_sequence ?vs ?c2 = (ctx\<lparr>rc_elements := rc_elements ctx + 2 * int (length ?vs)\<rparr>, Inr (VSequence ?vs))"
    by (simp_all add: run algebra_simps)
  then show ?thesis by (simp add: 1 2 3)
qed


text \<open>
  C35. \<open>sum\<close> and \<open>product\<close> of integers are exact: the answer is the sum or the product when it and that of
  every prefix fits 64 bits, and an overflow otherwise, never a wrapped number; of no element it is the
  identity. No step and no element is spent.\<close>

theorem integer_aggregation_exact:
  "aggregate env OpAdd [VSequence (map (\<lambda>a. VConst (ConstInt a)) as)]
     = result_of (if prefixes_fit OpAdd as then Inr (int_value (sum_list (map sint as))) else Inl ErrArithmeticOverflow)
   \<and> aggregate env OpMul [VSequence (map (\<lambda>a. VConst (ConstInt a)) as)]
     = result_of (if prefixes_fit OpMul as then Inr (int_value (prod_list (map sint as))) else Inl ErrArithmeticOverflow)"
  by (simp add: aggregate_def with_arity_def Let_def exact_fold_def int_value_def
      aggregate_integers [of OpAdd, simplified] aggregate_integers [of OpMul, simplified])




definition builtin_names :: "string list" where
  "builtin_names =
    [''SequenceFunctions::#'', ''SequenceFunctions::size'', ''SequenceFunctions::isEmpty'',
     ''SequenceFunctions::notEmpty'', ''SequenceFunctions::includes'', ''SequenceFunctions::includesOnly'',
     ''SequenceFunctions::excludes'', ''SequenceFunctions::equals'', ''SequenceFunctions::same'',
     ''SequenceFunctions::union'', ''SequenceFunctions::intersection'', ''SequenceFunctions::including'',
     ''SequenceFunctions::includingAt'', ''SequenceFunctions::excluding'', ''SequenceFunctions::subsequence'',
     ''SequenceFunctions::excludingAt'', ''SequenceFunctions::head'', ''SequenceFunctions::tail'',
     ''SequenceFunctions::last'', ''CollectionFunctions::#'', ''CollectionFunctions::size'',
     ''CollectionFunctions::isEmpty'', ''CollectionFunctions::notEmpty'', ''CollectionFunctions::contains'',
     ''CollectionFunctions::containsAll'', ''CollectionFunctions::head'', ''CollectionFunctions::tail'',
     ''CollectionFunctions::last'', ''ControlFunctions::select'', ''ControlFunctions::selectOne'',
     ''ControlFunctions::reject'', ''ControlFunctions::collect'', ''ControlFunctions::forAll'',
     ''ControlFunctions::exists'', ''ControlFunctions::allTrue'', ''ControlFunctions::anyTrue'',
     ''ControlFunctions::reduce'', ''ControlFunctions::minimize'', ''ControlFunctions::maximize'',
     ''NumericalFunctions::sum'', ''NumericalFunctions::product'', ''IntegerFunctions::..'', ''IntegerFunctions::sum'',
     ''IntegerFunctions::product'', ''RationalFunctions::sum'', ''RationalFunctions::product'', ''RealFunctions::sum'',
     ''RealFunctions::product'']"

lemma builtin_names_are: "fst ` set (builtins cx fr) = set builtin_names"
  by (simp add: builtins_def builtin_names_def Let_def)

text \<open>
  Every unqualified name of a collection function denotes a registered one, so loading the package does
  not panic; and where neither the model nor the numeric library declares such a name, calling it is
  calling the qualified name it stands for, receiver, arguments and errors alike.\<close>

theorem local_names_denote_builtins:
  assumes n: "map_of builtin_local_names n = Some q" and free: "ca_resolve ca n = None" "ca_library ca n = Inr None"
  shows "list_all (\<lambda>nq. map_of (builtins cx fr) (snd nq) \<noteq> None) builtin_local_names
   \<and> eval_invocation cx ca fr n operand args nargs = eval_invocation cx ca fr q operand args nargs"
proof
  have none: "map_of (builtins cx fr) m = None \<longleftrightarrow> m \<notin> set builtin_names" for m
    by (simp add: map_of_eq_None_iff builtin_names_are)
  have "list_all (\<lambda>nq. snd nq \<in> set builtin_names \<and> fst nq \<notin> set builtin_names) builtin_local_names"
    by code_simp
  then have registered: "list_all (\<lambda>nq. map_of (builtins cx fr) (snd nq) \<noteq> None) builtin_local_names"
    and unqualified: "list_all (\<lambda>nq. map_of (builtins cx fr) (fst nq) = None) builtin_local_names"
    unfolding none by (auto simp: list_all_iff)
  then show "list_all (\<lambda>nq. map_of (builtins cx fr) (snd nq) \<noteq> None) builtin_local_names" by blast
  from map_of_SomeD [OF n] registered unqualified obtain f
    where "map_of (builtins cx fr) q = Some f" "map_of (builtins cx fr) n = None"
    by (fastforce simp: list_all_iff)
  with n free have "dispatch_call cx ca fr n = dispatch_call cx ca fr q"
    by (simp add: fun_eq_iff dispatch_call_def builtin_by_local_name_def)
  then show "eval_invocation cx ca fr n operand args nargs = eval_invocation cx ca fr q operand args nargs"
    by (simp add: eval_invocation_def)
qed

section \<open>A collection to run\<close>

text \<open>The bodies \<open>{in x; x > 1}\<close> and \<open>{in x; x}\<close>.\<close>

definition sample_calls :: "unit expr \<Rightarrow> (unit, unit, unit) call_env" where
  "sample_calls e =
     \<lparr>ce_env = plain_env, ce_body = (\<lambda>_. Some \<lparr>be_params = [''x''], be_only_usages = True, be_result = Some e\<rparr>),
      ce_body_env = (\<lambda>_ _. plain_env), ce_new_activation = (\<lambda>c. (c, 1)), ce_end_activation = (\<lambda>_ c. c)\<rparr>"

definition above_one :: "unit expr" where
  "above_one = OperatorExpr OpGt [NameExpr [''x''], LiteralInteger ''1'']"

abbreviation sample_body :: "unit expr \<Rightarrow> unit \<times> unit body_expr" where
  "sample_body e \<equiv> ((), \<lparr>be_params = [''x''], be_only_usages = True, be_result = Some e\<rparr>)"

definition ints :: "int64 list \<Rightarrow> (unit, unit) rvalue list" where
  "ints as = map (\<lambda>a. VConst (ConstInt a)) as"

lemma sample_body_of: "body_of (sample_calls e) (VExpr ()) 1 = Inr (sample_body e)"
  by (simp add: body_of_def sample_calls_def)

lemma affords_step: "affords 1 0 increment_step ()"
  by (auto simp: affords_def spare_def increment_step_def Let_def steps_left_def elements_left_def)

lemma affords_step_then: "affords s e (f ()) a \<Longrightarrow> 0 \<le> s \<Longrightarrow> 0 \<le> e \<Longrightarrow> affords (1 + s) e (then_do increment_step f) a"
  using affords_thenI [OF affords_step, of s e f a] by simp

lemma affords_finally:
  "affords s e p a \<Longrightarrow> (\<And>ctx S E. spare S E (f ctx) = spare S E ctx) \<Longrightarrow> affords s e (finally_do p f) a"
  unfolding affords_def finally_do_def by fastforce

lemma affords_sample:
  assumes "affords s e (eval plain_env [bind_params [''x''] [v]] ex) a"
  shows "affords s e (apply_body (sample_calls ex) [] (sample_body ex) [v]) a"
proof -
  let ?p = "finally_do (eval plain_env [bind_params [''x''] [v]] ex) (\<lambda>ctx. set_outer (er_outer (rc_rest ctx)) ctx)"
  have same: "set_outer u ctx = ctx" for u and ctx :: "(unit, unit, unit) eval_ctx"
    by (simp add: set_outer_def)
  have "apply_body (sample_calls ex) [] (sample_body ex) [v] = ?p"
    by (simp add: apply_body_def sample_calls_def Let_def same fun_eq_iff)
  moreover have "affords s e ?p a" by (rule affords_finally [OF assms]) (simp add: same)
  ultimately show ?thesis by simp
qed

lemma x_bound: "frame_lookup [bind_params [''x''] [v]] ''x'' = Some v"
  by (simp add: frame_lookup_def bind_params_def)

lemma eval_x: "affords 1 0 (eval plain_env [bind_params [''x''] [v]] (NameExpr [''x''])) v"
proof -
  have "affords 0 0 (eval_name plain_env [bind_params [''x''] [v]] [''x'']) v"
    by (simp add: eval_name_def x_bound plain_env_def affords_giveI del: prog_simps)
  from affords_step_then [OF this] show ?thesis by (simp del: prog_simps)
qed

lemma eval_one: "affords 1 0 (eval plain_env fr (LiteralInteger ''1'')) (VConst (ConstInt 1))"
proof -
  have one: "fst (parse_int64 ''1'') = 1" by code_simp
  have "affords (1 + 0) 0 (eval plain_env fr (LiteralInteger ''1'')) (VConst (ConstInt 1))"
    unfolding eval.simps one by (rule affords_step_then [OF affords_giveI]) simp_all
  then show ?thesis by simp
qed

lemma above_one_decides:
  "decides 3 0 (apply_predicate (sample_calls above_one) [] (sample_body above_one)) (\<lambda>v. v \<in> set (ints [2, 3])) (ints [1, 2, 3])"
proof -
  have dec: "affords 3 0 (apply_predicate (sample_calls above_one) [] (sample_body above_one) (VConst (ConstInt a))) (1 < sint a)" for a
  proof -
    let ?fr = "[bind_params [''x''] [VConst (ConstInt a)]]"
    have cmp: "compare_values plain_env OpGt (VConst (ConstInt a)) (VConst (ConstInt 1)) = Inr (bool_value (1 < sint a))"
      by (simp add: compare_values_def quantity_operands_def compare_consts_def compare_ints_def)
    have cls: "class_of OpGt = ClassComparison" "eval_const (ee_pow plain_env) above_one = None"
      by (simp_all add: class_of_def bool_ops_def above_one_def)
    have "affords (1 + (1 + (1 + 0))) 0 (eval plain_env ?fr above_one) (bool_value (1 < sint a))"
      unfolding above_one_def eval.simps(10) cls(2) [unfolded above_one_def] option.case cls(1) operator_class.case list.case
      by (intro affords_step_then affords_thenI [OF eval_x affords_thenI [OF eval_one affords_resultI [of 0 0]]])
        (simp_all add: cmp)
    from affords_sample [OF this] show ?thesis
      unfolding apply_predicate_def
      by (rule affords_thenI [OF _ affords_resultI [of 0 0]]) (simp_all add: bool_operand_def bool_value_def)
  qed
  from dec [of 1] dec [of 2] dec [of 3] show ?thesis by (simp add: decides_def ints_def)
qed


theorem selection_and_quantifiers_witness:
  "snd (control_filter (sample_calls above_one) [] True [VSequence (ints [1, 2, 3]), VExpr ()] (plain_context 9)) = Inr (VSequence (ints [2, 3]))
   \<and> snd (control_filter (sample_calls above_one) [] False [VSequence (ints [1, 2, 3]), VExpr ()] (plain_context 9)) = Inr (VSequence (ints [1]))
   \<and> snd (control_quantify (sample_calls above_one) [] False [VSequence (ints [1, 2, 3]), VExpr ()] (plain_context 9)) = Inr (bool_value True)"
proof -
  let ?c = "VSequence (ints [1, 2, 3])"
  have "decides 3 0 (apply_predicate (sample_calls above_one) [] (sample_body above_one)) (\<lambda>v. v \<in> set (ints [2, 3])) (elements_of ?c)"
    using above_one_decides by simp
  moreover have "spare (3 * int (length (elements_of ?c))) ((0 + 1) * int (length (elements_of ?c))) (plain_context 9)"
    by (simp add: spare_def plain_context_def steps_left_def elements_left_def ints_def)
  moreover have "filter (\<lambda>v. v \<in> set (ints [2, 3])) (elements_of ?c) = ints [2, 3]"
    "filter (\<lambda>v. v \<notin> set (ints [2, 3])) (elements_of ?c) = ints [1]" "list_ex (\<lambda>v. v \<in> set (ints [2, 3])) (elements_of ?c)"
    by (simp_all add: ints_def)
  ultimately show ?thesis
    using selection_and_quantifiers [OF sample_body_of, of 3 0 above_one "[]" "\<lambda>v. v \<in> set (ints [2, 3])" ?c "plain_context 9"]
    by (simp only: elements_of.simps simp_thms)
qed

text \<open>The third element, a string, could not be compared: it is never reached.\<close>

theorem quantifiers_stop_witness:
  "snd (control_quantify (sample_calls above_one) [] False [VSequence (ints [1] @ VConst (ConstInt 2) # [VString ''a'']), VExpr ()] (plain_context 9))
     = Inr (bool_value True)"
proof -
  have d: "decides 3 0 (apply_predicate (sample_calls above_one) [] (sample_body above_one)) (\<lambda>v. v \<in> set (ints [2, 3])) (ints [1] @ [VConst (ConstInt 2)])"
    using above_one_decides by (simp add: decides_def ints_def)
  have l: "list_all (\<lambda>v. (v \<in> set (ints [2, 3])) = False) (ints [1])" and n: "(VConst (ConstInt 2) \<in> set (ints [2, 3])) \<noteq> False"
    by (simp_all add: ints_def)
  have r: "spare (3 * int (length (ints [1]) + 1)) (0 * int (length (ints [1]) + 1)) (plain_context 9)"
    by (simp add: ints_def spare_def plain_context_def steps_left_def elements_left_def)
  from quantifiers_stop [OF sample_body_of d l n r, of "[VString ''a'']", THEN conjunct2] show ?thesis
    by (simp only: not_False_eq_True)
qed

theorem cut_and_paste_witness:
  "then_do (sequence_subsequence [VSequence (ints [5, 6, 7, 8]), VConst (ConstInt 2), VConst (ConstInt 3)]) (\<lambda>cut.
      then_do (sequence_excluding_at [VSequence (ints [5, 6, 7, 8]), VConst (ConstInt 2), VConst (ConstInt 3)]) (\<lambda>rest.
      sequence_including_at [rest, cut, VConst (ConstInt 2)])) (plain_context 9)
    = ((plain_context 9)\<lparr>rc_elements := 8\<rparr>, Inr (VSequence (ints [5, 6, 7, 8])))"
  using cut_and_paste [of 2 3 "VSequence (ints [5, 6, 7, 8])" "plain_context 9"]
  by (simp add: ints_def plain_context_def del: prog_simps then_do_simps)


text \<open>\<open>(4, 5)->size()\<close> where nothing else is declared.\<close>

definition no_callees :: "(unit, unit, unit, unit) callees" where
  "no_callees =
     \<lparr>ca_resolve = (\<lambda>_. None), ca_qualified_name = (\<lambda>_. []), ca_library = (\<lambda>_. Inr None),
      ca_invoke = (\<lambda>_ _ _. throw ErrUnresolvedReference)\<rparr>"

theorem local_names_denote_builtins_witness:
  "snd (eval_invocation (sample_calls above_one) no_callees [] ''size'' (Some (SequenceExpr [LiteralInteger ''4'', LiteralInteger ''5''])) []
      [] (plain_context 9)) = Inr (int_value 2)"
proof -
  have free: "ca_resolve no_callees ''size'' = None" "ca_library no_callees ''size'' = Inr None" by (simp_all add: no_callees_def)
  have "map_of builtin_local_names ''size'' = Some ''SequenceFunctions::size''" by code_simp
  note same = conjunct2 [OF local_names_denote_builtins [OF this free]]
  show ?thesis unfolding same by code_simp
qed

end
