(* ===== verification/Smt_Term.thy ===== *)
theory Smt_Term
  imports Float64
begin

text \<open>
  The term language of a constraint query, \<open>internal/core/solve/term.go\<close>, \<open>sort.go\<close> and \<open>query.go\<close>, and the
  choice of its SMT-LIB logic, \<open>logic.go\<close>. Below them, what SMT-LIB means by a term, against which the
  encodings of \<open>term.go\<close> are checked.
\<close>

section \<open>Sorts and terms\<close>

datatype sort_kind = SortBool | SortInt | SortReal | SortString | SortDatatype

record smt_sort =
  so_kind :: sort_kind
  so_name :: string
  so_values :: "string list"
  so_origin :: string
  so_variation :: bool

definition scalar_sort :: "sort_kind \<Rightarrow> string \<Rightarrow> smt_sort" where
  "scalar_sort k n = \<lparr>so_kind = k, so_name = n, so_values = [], so_origin = [], so_variation = False\<rparr>"

definition bool_sort :: smt_sort where "bool_sort = scalar_sort SortBool ''Bool''"
definition int_sort :: smt_sort where "int_sort = scalar_sort SortInt ''Int''"
definition real_sort :: smt_sort where "real_sort = scalar_sort SortReal ''Real''"
definition string_sort :: smt_sort where "string_sort = scalar_sort SortString ''String''"

definition numeric_sort :: "smt_sort \<Rightarrow> bool" where
  "numeric_sort s \<longleftrightarrow> so_kind s = SortInt \<or> so_kind s = SortReal"

definition same_sort :: "smt_sort \<Rightarrow> smt_sort \<Rightarrow> bool" where
  "same_sort s t \<longleftrightarrow> so_kind s = so_kind t \<and> so_name s = so_name t"

record smt_var =
  sv_name :: string
  sv_sort :: smt_sort
  sv_dimension :: string
  sv_unit :: string
  sv_location :: string

datatype smt_op =
    SmtNot | SmtAnd | SmtOr | SmtXor | SmtImplies
  | SmtEq | SmtNe | SmtLt | SmtLe | SmtGt | SmtGe
  | SmtAdd | SmtSub | SmtMul | SmtDiv | SmtIntDiv | SmtNeg
  | SmtIte | SmtToReal

datatype smt_term =
    BoolTerm bool
  | IntTerm int64
  | RealTerm rat
  | StringTerm string
  | ValueTerm smt_sort string
  | VarTerm smt_var
  | Compound smt_op smt_sort "smt_term list"

primrec term_sort :: "smt_term \<Rightarrow> smt_sort" where
  "term_sort (BoolTerm b) = bool_sort"
| "term_sort (IntTerm i) = int_sort"
| "term_sort (RealTerm r) = real_sort"
| "term_sort (StringTerm s) = string_sort"
| "term_sort (ValueTerm s v) = s"
| "term_sort (VarTerm v) = sv_sort v"
| "term_sort (Compound op s ts) = s"

fun literal_term :: "smt_term \<Rightarrow> bool" where
  "literal_term (VarTerm v) = False"
| "literal_term (Compound op s ts) = False"
| "literal_term t = True"

section \<open>Building terms\<close>

definition not_term :: "smt_term \<Rightarrow> smt_term" where
  "not_term t = (case t of Compound SmtNot s (a # _) \<Rightarrow> a | _ \<Rightarrow> Compound SmtNot bool_sort [t])"

definition junction :: "smt_op \<Rightarrow> bool \<Rightarrow> smt_term list \<Rightarrow> smt_term" where
  "junction op identity ts = (case ts of [] \<Rightarrow> BoolTerm identity | [t] \<Rightarrow> t | _ \<Rightarrow> Compound op bool_sort ts)"

definition and_term :: "smt_term list \<Rightarrow> smt_term" where
  "and_term ts = junction SmtAnd True ts"

definition or_term :: "smt_term list \<Rightarrow> smt_term" where
  "or_term ts = junction SmtOr False ts"

definition binary_term :: "smt_op \<Rightarrow> smt_sort \<Rightarrow> smt_term \<Rightarrow> smt_term \<Rightarrow> smt_term" where
  "binary_term op s l r = Compound op s [l, r]"

definition unary_term :: "smt_op \<Rightarrow> smt_sort \<Rightarrow> smt_term \<Rightarrow> smt_term" where
  "unary_term op s a = Compound op s [a]"

definition ite_term :: "smt_term \<Rightarrow> smt_term \<Rightarrow> smt_term \<Rightarrow> smt_term" where
  "ite_term c a b = Compound SmtIte (term_sort a) [c, a, b]"

definition to_real_term :: "smt_term \<Rightarrow> smt_term" where
  "to_real_term t =
     (if so_kind (term_sort t) = SortReal then t
      else case t of IntTerm i \<Rightarrow> RealTerm (of_int (sint i)) | _ \<Rightarrow> Compound SmtToReal real_sort [t])"

text \<open>Division and remainder that truncate, from the division SMT-LIB has.\<close>

definition trunc_div :: "smt_term \<Rightarrow> smt_term \<Rightarrow> smt_term" where
  "trunc_div a b =
     ite_term (binary_term SmtGe bool_sort a (IntTerm 0))
       (binary_term SmtIntDiv int_sort a b)
       (unary_term SmtNeg int_sort (binary_term SmtIntDiv int_sort (unary_term SmtNeg int_sort a) b))"

definition trunc_rem :: "smt_term \<Rightarrow> smt_term \<Rightarrow> smt_term" where
  "trunc_rem a b = binary_term SmtSub int_sort a (binary_term SmtMul int_sort b (trunc_div a b))"

text \<open>\<open>walk\<close>: the term and every term below it, parents first.\<close>

fun subterms :: "smt_term \<Rightarrow> smt_term list" where
  "subterms (Compound op s ts) = Compound op s ts # concat (map subterms ts)"
| "subterms t = [t]"

section \<open>Queries\<close>

datatype role =
    RoleRequired | RoleAssumed | RoleDenied | RoleDomain | RoleDefined | RolePinned | RoleExcluded

fun role_name :: "role \<Rightarrow> string" where
  "role_name RoleRequired = ''required condition''"
| "role_name RoleAssumed = ''assumed condition''"
| "role_name RoleDenied = ''denied conditions''"
| "role_name RoleDomain = ''declared domain''"
| "role_name RoleDefined = ''well-definedness''"
| "role_name RolePinned = ''fixed value''"
| "role_name RoleExcluded = ''excluded assignment''"

text \<open>Where an assertion came from; the declaration is known by its name, if it has one.\<close>

record provenance =
  pv_kind :: string
  pv_element :: string
  pv_condition :: string
  pv_role :: role
  pv_declared :: string
  pv_location :: string

datatype direction = Minimize | Maximize

record objective =
  ob_direction :: direction
  ob_term :: smt_term
  ob_name :: string
  ob_expression :: string
  ob_dimension :: string
  ob_unit :: string
  ob_location :: string

record smt_query =
  q_kind :: string
  q_element :: string
  q_negated :: bool
  q_sorts :: "smt_sort list"
  q_vars :: "smt_var list"
  q_assertions :: "(smt_term \<times> provenance) list"
  q_nonlinear :: bool
  q_integer_division :: bool
  q_pinned :: "smt_var list"
  q_objectives :: "objective list"

definition optimizes :: "smt_query \<Rightarrow> bool" where
  "optimizes q \<longleftrightarrow> q_objectives q \<noteq> []"

definition fixes_values :: "smt_query \<Rightarrow> bool" where
  "fixes_values q \<longleftrightarrow> q_pinned q \<noteq> []"

definition free_vars :: "smt_query \<Rightarrow> smt_var list" where
  "free_vars q = filter (\<lambda>v. v \<notin> set (q_pinned q)) (q_vars q)"

text \<open>The orders that make a script deterministic.\<close>

definition sort_vars :: "smt_var list \<Rightarrow> smt_var list" where
  "sort_vars vs = sort_key sv_name vs"

definition sort_sorts :: "smt_sort list \<Rightarrow> smt_sort list" where
  "sort_sorts ss = sort_key so_name ss"

definition sort_assertions :: "(smt_term \<times> provenance) list \<Rightarrow> (smt_term \<times> provenance) list" where
  "sort_assertions as = sort_key (\<lambda>a. pv_element (snd a)) (sort_key (\<lambda>a. pv_condition (snd a)) as)"

section \<open>The logic of a query\<close>

record features =
  fe_bool :: bool
  fe_int :: bool
  fe_real :: bool
  fe_strings :: bool
  fe_datatypes :: bool
  fe_nonlinear :: bool
  fe_integer_division :: bool

definition note_sort :: "smt_sort \<Rightarrow> features \<Rightarrow> features" where
  "note_sort s f =
     (case so_kind s of
        SortBool \<Rightarrow> f\<lparr>fe_bool := True\<rparr>
      | SortInt \<Rightarrow> f\<lparr>fe_int := True\<rparr>
      | SortReal \<Rightarrow> f\<lparr>fe_real := True\<rparr>
      | SortString \<Rightarrow> f\<lparr>fe_strings := True\<rparr>
      | SortDatatype \<Rightarrow> f\<lparr>fe_datatypes := True\<rparr>)"

text \<open>A compound term of these operators has two arguments.\<close>

definition note_term :: "smt_term \<Rightarrow> features \<Rightarrow> features" where
  "note_term t f =
     (case t of
        Compound op s (a # b # _) \<Rightarrow>
          (case op of
             SmtIntDiv \<Rightarrow>
               (let f1 = f\<lparr>fe_integer_division := True\<rparr> in if literal_term b then f1 else f1\<lparr>fe_nonlinear := True\<rparr>)
           | SmtDiv \<Rightarrow> if literal_term b then f else f\<lparr>fe_nonlinear := True\<rparr>
           | SmtMul \<Rightarrow> if literal_term a \<or> literal_term b then f else f\<lparr>fe_nonlinear := True\<rparr>
           | _ \<Rightarrow> f)
      | _ \<Rightarrow> f)"

definition note_terms :: "smt_term \<Rightarrow> features \<Rightarrow> features" where
  "note_terms t f = fold (\<lambda>u g. note_term u (note_sort (term_sort u) g)) (subterms t) f"

definition query_features :: "smt_query \<Rightarrow> features" where
  "query_features q =
     (let f0 = \<lparr>fe_bool = False, fe_int = False, fe_real = False, fe_strings = False, fe_datatypes = False,
                fe_nonlinear = q_nonlinear q, fe_integer_division = q_integer_division q\<rparr>;
          f1 = fold (\<lambda>v. note_sort (sv_sort v)) (q_vars q) f0;
          f2 = fold note_sort (q_sorts q) f1;
          f3 = fold (\<lambda>a. note_terms (fst a)) (q_assertions q) f2
      in fold (\<lambda>ob. note_terms (ob_term ob)) (q_objectives q) f3)"

record logic_choice =
  lo_name :: string
  lo_standard :: bool
  lo_why :: string

definition standard_logic :: "string \<Rightarrow> string \<Rightarrow> logic_choice" where
  "standard_logic n w = \<lparr>lo_name = n, lo_standard = True, lo_why = w\<rparr>"

definition unstandardised_why :: "features \<Rightarrow> string" where
  "unstandardised_why f = join_with '' and ''
     ((if fe_datatypes f then [''algebraic datatypes (declare-datatypes)''] else [])
      @ (if fe_strings f then [''the strings theory''] else []))"

definition logic_of_features :: "features \<Rightarrow> logic_choice" where
  "logic_of_features f =
     (if fe_datatypes f \<or> fe_strings f then \<lparr>lo_name = ''ALL'', lo_standard = False, lo_why = unstandardised_why f\<rparr>
      else if fe_int f \<and> fe_real f then
        (if fe_nonlinear f then standard_logic ''AUFNIRA'' ''nonlinear mixed integer and real arithmetic''
         else standard_logic ''AUFLIRA'' ''linear mixed integer and real arithmetic'')
      else if fe_real f then
        (if fe_nonlinear f then standard_logic ''QF_NRA'' ''nonlinear real arithmetic''
         else standard_logic ''QF_LRA'' ''linear real arithmetic'')
      else if fe_int f then
        (if fe_nonlinear f then standard_logic ''QF_NIA'' ''nonlinear integer arithmetic''
         else standard_logic ''QF_LIA'' ''linear integer arithmetic'')
      else standard_logic ''QF_UF'' ''propositional logic over declared constants'')"

definition logic_choice_of :: "smt_query \<Rightarrow> logic_choice" where
  "logic_choice_of q = logic_of_features (query_features q)"

datatype capability =
    CapDatatypes | CapStrings | CapIntegerDivision | CapNonlinearArith | CapMixedArith | CapNonStandardLogic

definition requires :: "smt_query \<Rightarrow> capability list" where
  "requires q =
     (let f = query_features q in
      (if fe_datatypes f then [CapDatatypes] else []) @ (if fe_strings f then [CapStrings] else [])
      @ (if fe_integer_division f then [CapIntegerDivision] else []) @ (if fe_nonlinear f then [CapNonlinearArith] else [])
      @ (if fe_int f \<and> fe_real f then [CapMixedArith] else [])
      @ (if lo_standard (logic_choice_of q) then [] else [CapNonStandardLogic]))"

section \<open>What SMT-LIB means by a term\<close>

datatype smt_value = BoolV bool | IntV int | RealV rat | StrV string | ConV string

text \<open>The division of the theory Ints leaves a remainder that is not negative.\<close>

definition euclid_div :: "int \<Rightarrow> int \<Rightarrow> int" where
  "euclid_div x y = (if 0 < y then x div y else - (x div - y))"

fun arith_op :: "smt_op \<Rightarrow> smt_value list \<Rightarrow> smt_value option" where
  "arith_op op [IntV x] = (if op = SmtNeg then Some (IntV (- x)) else if op = SmtToReal then Some (RealV (of_int x)) else None)"
| "arith_op op [RealV x] = (if op = SmtNeg then Some (RealV (- x)) else None)"
| "arith_op op [IntV x, IntV y] =
     (case op of
        SmtAdd \<Rightarrow> Some (IntV (x + y)) | SmtSub \<Rightarrow> Some (IntV (x - y)) | SmtMul \<Rightarrow> Some (IntV (x * y))
      | SmtIntDiv \<Rightarrow> if y = 0 then None else Some (IntV (euclid_div x y))
      | SmtLt \<Rightarrow> Some (BoolV (x < y)) | SmtLe \<Rightarrow> Some (BoolV (x \<le> y))
      | SmtGt \<Rightarrow> Some (BoolV (y < x)) | SmtGe \<Rightarrow> Some (BoolV (y \<le> x)) | _ \<Rightarrow> None)"
| "arith_op op [RealV x, RealV y] =
     (case op of
        SmtAdd \<Rightarrow> Some (RealV (x + y)) | SmtSub \<Rightarrow> Some (RealV (x - y)) | SmtMul \<Rightarrow> Some (RealV (x * y))
      | SmtDiv \<Rightarrow> if y = 0 then None else Some (RealV (x / y))
      | SmtLt \<Rightarrow> Some (BoolV (x < y)) | SmtLe \<Rightarrow> Some (BoolV (x \<le> y))
      | SmtGt \<Rightarrow> Some (BoolV (y < x)) | SmtGe \<Rightarrow> Some (BoolV (y \<le> x)) | _ \<Rightarrow> None)"
| "arith_op op vs = None"

fun all_some :: "'a option list \<Rightarrow> 'a list option" where
  "all_some [] = Some []"
| "all_some (x # xs) = (case x of None \<Rightarrow> None | Some a \<Rightarrow> map_option ((#) a) (all_some xs))"

definition truth :: "smt_value \<Rightarrow> bool option" where
  "truth v = (case v of BoolV b \<Rightarrow> Some b | _ \<Rightarrow> None)"

definition truths :: "smt_value list \<Rightarrow> bool list option" where
  "truths vs = all_some (map truth vs)"

definition apply_op :: "smt_op \<Rightarrow> smt_value list \<Rightarrow> smt_value option" where
  "apply_op op vs =
     (case op of
        SmtNot \<Rightarrow> (case truths vs of Some [b] \<Rightarrow> Some (BoolV (\<not> b)) | _ \<Rightarrow> None)
      | SmtAnd \<Rightarrow> map_option (\<lambda>bs. BoolV (list_all (\<lambda>b. b) bs)) (truths vs)
      | SmtOr \<Rightarrow> map_option (\<lambda>bs. BoolV (list_ex (\<lambda>b. b) bs)) (truths vs)
      | SmtXor \<Rightarrow> (case truths vs of Some [a, b] \<Rightarrow> Some (BoolV (a \<noteq> b)) | _ \<Rightarrow> None)
      | SmtImplies \<Rightarrow> (case truths vs of Some [a, b] \<Rightarrow> Some (BoolV (a \<longrightarrow> b)) | _ \<Rightarrow> None)
      | SmtEq \<Rightarrow> (case vs of [v, w] \<Rightarrow> Some (BoolV (v = w)) | _ \<Rightarrow> None)
      | SmtNe \<Rightarrow> (case vs of [v, w] \<Rightarrow> Some (BoolV (v \<noteq> w)) | _ \<Rightarrow> None)
      | SmtIte \<Rightarrow> (case vs of [c, v, w] \<Rightarrow> map_option (\<lambda>b. if b then v else w) (truth c) | _ \<Rightarrow> None)
      | _ \<Rightarrow> arith_op op vs)"

text \<open>A term has no value when one of its arguments has none: every operator is strict.\<close>

fun meaning :: "(string \<Rightarrow> smt_value) \<Rightarrow> smt_term \<Rightarrow> smt_value option" where
  "meaning m (BoolTerm b) = Some (BoolV b)"
| "meaning m (IntTerm i) = Some (IntV (sint i))"
| "meaning m (RealTerm r) = Some (RealV r)"
| "meaning m (StringTerm s) = Some (StrV s)"
| "meaning m (ValueTerm s v) = Some (ConV v)"
| "meaning m (VarTerm v) = Some (m (sv_name v))"
| "meaning m (Compound op s ts) = Option.bind (all_some (map (meaning m) ts)) (apply_op op)"

end
