(* ===== verification/Smt_Reader.thy ===== *)
theory Smt_Reader
  imports Smt_Term
begin

text \<open>
  The reader of a solver's replies, \<open>internal/core/solve/sexpr.go\<close>: S-expressions from the bytes the
  solver wrote, with what is left of them. Lists nest, so the recursion has fuel; every expression
  takes a byte, and the length of the text is shown to be enough.
\<close>

datatype sexpr = Atom string bool | SList "sexpr list"

text \<open>An atom is marked when it was written as a string literal.\<close>

definition atom_text :: "sexpr \<Rightarrow> string" where
  "atom_text s = (case s of Atom t quoted \<Rightarrow> t | SList es \<Rightarrow> [])"

datatype sexpr_error = ErrEOF | ErrUnbalanced | ErrNoFuel

section \<open>Writing an expression back\<close>

abbreviation dquote :: char where "dquote \<equiv> CHR 0x22"

definition double_quotes :: "string \<Rightarrow> string" where
  "double_quotes s = concat (map (\<lambda>c. if c = dquote then [dquote, dquote] else [c]) s)"

fun sexpr_string :: "sexpr \<Rightarrow> string" where
  "sexpr_string (Atom t quoted) = (if quoted then [dquote] @ double_quotes t @ [dquote] else t)"
| "sexpr_string (SList es) = ''('' @ join_with '' '' (map sexpr_string es) @ '')''"

definition is_error :: "sexpr \<Rightarrow> string option" where
  "is_error s =
     (case s of SList [a, b] \<Rightarrow> if atom_text a = ''error'' then Some (atom_text b) else None | _ \<Rightarrow> None)"

section \<open>Tokens\<close>

definition smt_space :: "char \<Rightarrow> bool" where
  "smt_space c \<longleftrightarrow> c \<in> {CHR '' '', CHR 0x09, CHR 0x0D, CHR 0x0A, CHR 0x0C, CHR 0x0B}"

abbreviation newline_byte :: char where "newline_byte \<equiv> CHR 0x0A"

text \<open>\<open>skipSpace\<close>: a comment runs to the end of its line.\<close>

function skip_space :: "string \<Rightarrow> (sexpr_error, string) res" where
  "skip_space s =
     (case s of
        [] \<Rightarrow> Inl ErrEOF
      | c # r \<Rightarrow>
          if smt_space c then skip_space r
          else if c = CHR '';'' then
            (case dropWhile (\<lambda>d. d \<noteq> newline_byte) r of [] \<Rightarrow> Inl ErrEOF | d # r' \<Rightarrow> skip_space r')
          else Inr s)"
  by pat_completeness auto

termination
proof (relation "measure length", goal_cases)
  case (3 s c r d r')
  have "length (dropWhile (\<lambda>d. d \<noteq> newline_byte) r) \<le> length r" by (rule length_dropWhile_le)
  with 3 show ?case by simp
qed auto

declare skip_space.simps [simp del]

definition ends_atom :: "char \<Rightarrow> bool" where
  "ends_atom c \<longleftrightarrow> smt_space c \<or> c = CHR ''('' \<or> c = CHR '')'' \<or> c = CHR '';''"

definition read_atom :: "string \<Rightarrow> (sexpr_error, sexpr \<times> string) res" where
  "read_atom s =
     (if s = [] then Inl ErrEOF
      else Inr (Atom (takeWhile (\<lambda>c. \<not> ends_atom c) s) False, dropWhile (\<lambda>c. \<not> ends_atom c) s))"

text \<open>A pair of quotes stands for one; the end of the text ends a literal only after its quote.\<close>

fun read_string :: "string \<Rightarrow> (sexpr_error, string \<times> string) res" where
  "read_string [] = Inl ErrEOF"
| "read_string [c] = (if c = dquote then Inr ([], []) else Inl ErrEOF)"
| "read_string (c # d # r) =
     (if c \<noteq> dquote then bind_res (read_string (d # r)) (\<lambda>(t, r'). Inr (c # t, r'))
      else if d = dquote then bind_res (read_string r) (\<lambda>(t, r'). Inr (dquote # t, r'))
      else Inr ([], d # r))"

definition read_quoted_symbol :: "string \<Rightarrow> (sexpr_error, string \<times> string) res" where
  "read_quoted_symbol s =
     (case dropWhile (\<lambda>c. c \<noteq> CHR ''|'') s of
        [] \<Rightarrow> Inl ErrEOF
      | b # r \<Rightarrow> Inr (takeWhile (\<lambda>c. c \<noteq> CHR ''|'') s, r))"

section \<open>Expressions\<close>

fun read_sexpr :: "nat \<Rightarrow> string \<Rightarrow> (sexpr_error, sexpr \<times> string) res"
  and read_list :: "nat \<Rightarrow> sexpr list \<Rightarrow> string \<Rightarrow> (sexpr_error, sexpr \<times> string) res"
where
  "read_sexpr 0 s = Inl ErrNoFuel"
| "read_sexpr (Suc n) s = bind_res (skip_space s) (\<lambda>s1.
     case s1 of
       [] \<Rightarrow> Inl ErrEOF
     | c # r \<Rightarrow>
         if c = CHR ''('' then read_list n [] r
         else if c = CHR '')'' then Inl ErrUnbalanced
         else if c = dquote then bind_res (read_string r) (\<lambda>(t, r'). Inr (Atom t True, r'))
         else if c = CHR ''|'' then bind_res (read_quoted_symbol r) (\<lambda>(t, r'). Inr (Atom t False, r'))
         else read_atom s1)"
| "read_list 0 es s = Inl ErrNoFuel"
| "read_list (Suc n) es s = bind_res (skip_space s) (\<lambda>s1.
     case s1 of
       [] \<Rightarrow> Inl ErrEOF
     | c # r \<Rightarrow>
         if c = CHR '')'' then Inr (SList es, r)
         else bind_res (read_sexpr n s1) (\<lambda>(e, r'). read_list n (es @ [e]) r'))"

definition read_reply :: "string \<Rightarrow> (sexpr_error, sexpr \<times> string) res" where
  "read_reply s = read_sexpr (2 * length s + 1) s"

section \<open>The fuel is enough\<close>

lemma skip_space_simps:
  "skip_space [] = Inl ErrEOF"
  "smt_space c \<Longrightarrow> skip_space (c # r) = skip_space r"
  "skip_space (CHR '';'' # r) = (case dropWhile (\<lambda>d. d \<noteq> newline_byte) r of [] \<Rightarrow> Inl ErrEOF | d # r' \<Rightarrow> skip_space r')"
  "\<not> smt_space c \<Longrightarrow> c \<noteq> CHR '';'' \<Longrightarrow> skip_space (c # r) = Inr (c # r)"
  by (subst skip_space.simps, simp add: smt_space_def)+

lemma skip_space_induct [case_names Nil Space Comment Other]:
  assumes "P []" "\<And>c r. smt_space c \<Longrightarrow> P r \<Longrightarrow> P (c # r)"
    "\<And>r. (\<And>d r'. dropWhile (\<lambda>d. d \<noteq> newline_byte) r = d # r' \<Longrightarrow> P r') \<Longrightarrow> P (CHR '';'' # r)"
    "\<And>c r. \<not> smt_space c \<Longrightarrow> c \<noteq> CHR '';'' \<Longrightarrow> P (c # r)"
  shows "P s"
proof (induction s rule: length_induct)
  case (1 s)
  show ?case
  proof (cases s)
    case Nil
    with assms(1) show ?thesis by simp
  next
    case (Cons c r)
    have "P r'" if "dropWhile (\<lambda>d. d \<noteq> newline_byte) r = d # r'" for d r'
      using 1 that length_dropWhile_le [of "\<lambda>d. d \<noteq> newline_byte" r] Cons by simp
    with 1 Cons assms(2-4) show ?thesis by (cases "smt_space c"; cases "c = CHR '';''") auto
  qed
qed

lemma skip_space_shrinks: "skip_space s = Inr s' \<Longrightarrow> length s' \<le> length s \<and> s' \<noteq> []"
proof (induction s rule: skip_space_induct)
  case (Comment r)
  then show ?case
    using length_dropWhile_le [of "\<lambda>d. d \<noteq> newline_byte" r] by (fastforce simp: skip_space_simps split: list.splits)
qed (auto simp: skip_space_simps)

lemma skip_space_head: "skip_space s = Inr (c # r) \<Longrightarrow> \<not> smt_space c \<and> c \<noteq> CHR '';''"
  by (induction s rule: skip_space_induct) (auto simp: skip_space_simps split: list.splits)

lemma skip_space_error: "skip_space s \<noteq> Inl ErrNoFuel"
  by (induction s rule: skip_space_induct) (auto simp: skip_space_simps split: list.splits)

lemma read_string_shrinks: "read_string s = Inr (t, r) \<Longrightarrow> length r < length s"
  by (induction s arbitrary: t rule: read_string.induct) (fastforce simp: bind_res_Inr split: if_splits)+

lemma read_string_error: "read_string s \<noteq> Inl ErrNoFuel"
  by (induction s rule: read_string.induct) (auto simp: bind_res_Inl)

lemma read_quoted_shrinks: "read_quoted_symbol s = Inr (t, r) \<Longrightarrow> length r < length s"
proof -
  have "length (dropWhile (\<lambda>c. c \<noteq> CHR ''|'') s) \<le> length s" by (rule length_dropWhile_le)
  then show "read_quoted_symbol s = Inr (t, r) \<Longrightarrow> length r < length s"
    by (auto simp: read_quoted_symbol_def split: list.splits)
qed

lemma read_quoted_error: "read_quoted_symbol s \<noteq> Inl ErrNoFuel"
  by (simp add: read_quoted_symbol_def split: list.split)

lemma read_atom_shrinks: "read_atom (c # s) = Inr (e, r) \<Longrightarrow> \<not> ends_atom c \<Longrightarrow> length r < length (c # s)"
  using length_dropWhile_le [of "\<lambda>c. \<not> ends_atom c" s] by (auto simp: read_atom_def)


lemma reader_enough:
  "(\<forall>e r. read_sexpr n s = Inr (e, r) \<longrightarrow> length r < length s) \<and> (2 * length s < n \<longrightarrow> read_sexpr n s \<noteq> Inl ErrNoFuel)"
  "(\<forall>e r. read_list n es s = Inr (e, r) \<longrightarrow> length r < length s) \<and> (2 * length s + 1 < n \<longrightarrow> read_list n es s \<noteq> Inl ErrNoFuel)"
proof (induction n s and n es s rule: read_sexpr_read_list.induct)
  case (2 n s)
  show ?case
  proof (cases "skip_space s")
    case (Inl x)
    then show ?thesis using skip_space_error [of s] by simp
  next
    case (Inr s1)
    with skip_space_shrinks [OF Inr] obtain c r where s1: "s1 = c # r" "length s1 \<le> length s" by (cases s1) auto
    with Inr skip_space_head have head: "\<not> smt_space c" "c \<noteq> CHR '';''" by blast+
    show ?thesis
    proof (cases "c = CHR ''(''")
      case True
      with 2 [OF s1(1) True] Inr s1 show ?thesis by fastforce
    next
      case False
      have "length r' < length (c # r)" if "read_string r = Inr (t, r')" for t r'
        using read_string_shrinks [OF that] by simp
      moreover have "length r' < length (c # r)" if "read_quoted_symbol r = Inr (t, r')" for t r'
        using read_quoted_shrinks [OF that] by simp
      moreover have "length r' < length (c # r)" if "c \<noteq> CHR '')''" "read_atom (c # r) = Inr (e, r')" for e r'
        using that read_atom_shrinks [of c r e r'] False head by (auto simp: ends_atom_def)
      moreover have "read_atom (c # r) \<noteq> Inl ErrNoFuel" by (simp add: read_atom_def)
      ultimately show ?thesis
        using False Inr s1 read_string_error [of r] read_quoted_error [of r]
        by (fastforce simp: bind_res_Inr bind_res_Inl split: if_splits)
    qed
  qed
next
  case (4 n es s)
  show ?case
  proof (cases "skip_space s")
    case (Inl x)
    then show ?thesis using skip_space_error [of s] by simp
  next
    case (Inr s1)
    with skip_space_shrinks [OF Inr] obtain c r where s1: "s1 = c # r" "length s1 \<le> length s" by (cases s1) auto
    show ?thesis
    proof (cases "c = CHR '')''")
      case True
      with Inr s1 show ?thesis by simp
    next
      case False
      note ih = 4(1) [OF s1(1) False]
      show ?thesis
      proof (cases "read_sexpr n s1")
        case (Inl x)
        with ih \<open>skip_space s = Inr s1\<close> s1 False show ?thesis by auto
      next
        case (Inr er)
        then obtain e r' where er: "read_sexpr n s1 = Inr (e, r')" by (cases er) auto
        with ih have "length r' < length s1" by blast
        with 4(2) [OF s1(1) False, of e r'] er \<open>skip_space s = Inr s1\<close> s1 False
        show ?thesis by fastforce
      qed
    qed
  qed
qed simp_all

lemma read_reply_total: "read_reply s \<noteq> Inl ErrNoFuel"
  using reader_enough(1) [of "2 * length s + 1" s] by (simp add: read_reply_def)

end
