(* ===== verification/Smt_Writer.thy ===== *)
theory Smt_Writer
  imports Smt_Reader Utf8
begin

text \<open>
  The writer of SMT-LIB2 scripts, \<open>internal/core/solve/smtlib.go\<close> with the symbols of \<open>sort.go\<close> and the
  labels a core is asked for by.
\<close>

section \<open>Symbols\<close>

definition letter_byte :: "char \<Rightarrow> bool" where
  "letter_byte c \<longleftrightarrow> (of_char c :: nat) \<in> {65..90} \<union> {97..122}"

text \<open>The characters of a simple symbol: \<open>~!@$%^&*_-+=<>.?/\<close> beside the letters and the digits.\<close>

definition symbol_punct :: "char \<Rightarrow> bool" where
  "symbol_punct c \<longleftrightarrow> c \<in> set ''~!@$%^&*_-+=<>.?/''"

definition simple_symbol :: "string \<Rightarrow> bool" where
  "simple_symbol s =
     (case s of
        [] \<Rightarrow> False
      | c # r \<Rightarrow> (letter_byte c \<or> symbol_punct c) \<and> list_all (\<lambda>d. letter_byte d \<or> decimal_digit d \<or> symbol_punct d) r)"

abbreviation bar :: char where "bar \<equiv> CHR ''|''"
abbreviation backslash :: char where "backslash \<equiv> CHR 0x5C"
abbreviation bang :: char where "bang \<equiv> CHR 0x21"

definition escape_char :: "char \<Rightarrow> string" where
  "escape_char c =
     (if c = bang then [bang, bang]
      else if c = bar then [bang, CHR ''p'']
      else if c = backslash then [bang, CHR ''b'']
      else [c])"

definition escape_name :: "string \<Rightarrow> string" where
  "escape_name s = concat (map escape_char s)"

definition smt_symbol :: "string \<Rightarrow> string" where
  "smt_symbol s =
     (if s = [] then [bar, bar]
      else if escape_name s = s \<and> simple_symbol s then s
      else [bar] @ escape_name s @ [bar])"

text \<open>The inverse of the escaping, the bars already gone.\<close>

fun smt_name :: "string \<Rightarrow> string" where
  "smt_name (c # d # r) =
     (if c \<noteq> bang then c # smt_name (d # r)
      else if d = bang then bang # smt_name r
      else if d = CHR ''p'' then bar # smt_name r
      else if d = CHR ''b'' then backslash # smt_name r
      else bang # d # smt_name r)"
| "smt_name s = s"

definition sort_string :: "smt_sort \<Rightarrow> string" where
  "sort_string s = smt_symbol (so_name s)"

section \<open>Literals\<close>

text \<open>\<open>strconv.Itoa\<close> and \<open>%d\<close>.\<close>

fun nat_text :: "nat \<Rightarrow> string" where
  "nat_text n = (if n < 10 then [char_of (48 + n)] else nat_text (n div 10) @ [char_of (48 + n mod 10)])"

declare nat_text.simps [simp del]

definition int_text :: "int \<Rightarrow> string" where
  "int_text i = (if i < 0 then ''-'' @ nat_text (nat (- i)) else nat_text (nat i))"

text \<open>The negation is of a 64-bit integer and wraps on the least of them.\<close>

definition write_int :: "int64 \<Rightarrow> string" where
  "write_int i = (if sint i < 0 then ''(- '' @ int_text (sint (- i)) @ '')'' else int_text (sint i))"

text \<open>How often a prime divides a denominator, and what is left; a denominator is positive.\<close>

function divide_out :: "int \<Rightarrow> int \<Rightarrow> nat \<times> int" where
  "divide_out p n =
     (if 1 < p \<and> 0 < n \<and> n mod p = 0 then (let (k, m) = divide_out p (n div p) in (Suc k, m)) else (0, n))"
  by pat_completeness auto
termination
proof (relation "measure (\<lambda>(p, n). nat n)", goal_cases)
  case (2 p n)
  then have "n div p < n" by (intro int_div_less_self) simp_all
  with 2 show ?case by simp
qed simp

declare divide_out.simps [simp del]

definition decimal_digits :: "int \<Rightarrow> nat option" where
  "decimal_digits den =
     (let (twos, r1) = divide_out 2 den; (fives, r2) = divide_out 5 r1
      in if r2 \<noteq> 1 then None else Some (max (max twos fives) 1))"

text \<open>\<open>Rat.FloatString\<close> of a magnitude, which rounds half away from zero.\<close>

definition float_string :: "nat \<Rightarrow> int \<Rightarrow> int \<Rightarrow> string" where
  "float_string prec num den =
     (let m = (2 * num * 10 ^ prec + den) div (2 * den);
          ds = nat_text (nat (m mod 10 ^ prec))
      in nat_text (nat (m div 10 ^ prec)) @ (if 0 < prec then ''.'' @ replicate (prec - length ds) (CHR ''0'') @ ds else []))"

definition write_magnitude :: "rat \<Rightarrow> string" where
  "write_magnitude r =
     (case quotient_of r of (num, den) \<Rightarrow>
        (case decimal_digits den of
           Some k \<Rightarrow> float_string k num den
         | None \<Rightarrow> ''(/ '' @ int_text num @ ''.0 '' @ int_text den @ ''.0)''))"

definition write_rat :: "rat \<Rightarrow> string" where
  "write_rat r = (if r < 0 then ''(- '' @ write_magnitude (- r) @ '')'' else write_magnitude r)"

section \<open>Terms\<close>

fun op_name :: "smt_op \<Rightarrow> string" where
  "op_name SmtNot = ''not''" | "op_name SmtAnd = ''and''" | "op_name SmtOr = ''or''" | "op_name SmtXor = ''xor''"
| "op_name SmtImplies = ''=>''" | "op_name SmtEq = ''=''" | "op_name SmtNe = ''distinct''"
| "op_name SmtLt = ''<''" | "op_name SmtLe = ''<=''" | "op_name SmtGt = ''>''" | "op_name SmtGe = ''>=''"
| "op_name SmtAdd = ''+''" | "op_name SmtSub = ''-''" | "op_name SmtMul = ''*''" | "op_name SmtDiv = ''/''"
| "op_name SmtIntDiv = ''div''" | "op_name SmtNeg = ''-''" | "op_name SmtIte = ''ite''" | "op_name SmtToReal = ''to_real''"

fun write_term :: "smt_term \<Rightarrow> string" where
  "write_term (BoolTerm b) = (if b then ''true'' else ''false'')"
| "write_term (IntTerm i) = write_int i"
| "write_term (RealTerm r) = write_rat r"
| "write_term (StringTerm s) = [dquote] @ double_quotes s @ [dquote]"
| "write_term (ValueTerm s v) = smt_symbol v"
| "write_term (VarTerm v) = smt_symbol (sv_name v)"
| "write_term (Compound op s ts) = ''('' @ op_name op @ '' '' @ join_with '' '' (map write_term ts) @ '')''"

section \<open>Comments\<close>

text \<open>\<open>strings.Fields\<close>, with what the current field holds so far.\<close>

function fields_from :: "string \<Rightarrow> string \<Rightarrow> string list" where
  "fields_from cur s =
     (if s = [] then (if cur = [] then [] else [cur])
      else
        let (r, n) = decode_rune s in
        if is_space_rune r then (if cur = [] then [] else [cur]) @ fields_from [] (drop n s)
        else fields_from (cur @ take n s) (drop n s))"
  by pat_completeness auto
termination
proof (relation "measure (\<lambda>(cur, s). length s)", goal_cases)
  case (2 cur s rn r n)
  then show ?case using decode_rune_width [of s] by (auto simp: prod_eq_iff)
next
  case (3 cur s rn r n)
  then show ?case using decode_rune_width [of s] by (auto simp: prod_eq_iff)
qed simp

declare fields_from.simps [simp del]

definition smt_comment :: "string \<Rightarrow> string" where
  "smt_comment s = join_with '' '' (fields_from [] s)"

definition optional_text :: "string \<Rightarrow> string \<Rightarrow> string" where
  "optional_text lead s = (if s = [] then [] else lead @ smt_comment s)"

definition var_comment :: "smt_var \<Rightarrow> string" where
  "var_comment v =
     smt_comment (sv_name v) @ optional_text '' in base units of '' (sv_dimension v)
     @ optional_text '', declared at '' (sv_location v)"

abbreviation em_dash :: string where "em_dash \<equiv> [CHR 0xE2, CHR 0x80, CHR 0x94]"

definition assertion_comment :: "provenance \<Rightarrow> string" where
  "assertion_comment p =
     role_name (pv_role p) @ '': '' @ smt_comment (pv_condition p)
     @ '' '' @ em_dash @ '' '' @ pv_kind p @ '' '' @ smt_comment (pv_element p)
     @ (if pv_declared p \<noteq> pv_element p then optional_text '', declared by '' (pv_declared p) else [])
     @ optional_text '', at '' (pv_location p)"

fun direction_name :: "direction \<Rightarrow> string" where
  "direction_name Minimize = ''minimize''"
| "direction_name Maximize = ''maximize''"

definition objective_comment :: "objective \<Rightarrow> string" where
  "objective_comment ob =
     direction_name (ob_direction ob) @ '': ''
     @ (if ob_name ob = [] then [] else smt_comment (ob_name ob) @ '' = '')
     @ smt_comment (ob_expression ob)
     @ (if ob_unit ob \<noteq> [] then '' in '' @ smt_comment (ob_unit ob)
        else optional_text '' in base units of '' (ob_dimension ob))
     @ optional_text '', at '' (ob_location ob)"

section \<open>Labels\<close>

definition core_label_prefix :: string where "core_label_prefix = ''sy!a''"

definition core_label :: "nat \<Rightarrow> string" where
  "core_label i = core_label_prefix @ nat_text i"

text \<open>The index a label names: what follows the prefix reads as an integer and is that integer's text.\<close>

definition core_label_index :: "string \<Rightarrow> nat option" where
  "core_label_index label =
     (if take (length core_label_prefix) label \<noteq> core_label_prefix then None
      else
        let rest = drop (length core_label_prefix) label; (i, ok) = parse_int64 rest
        in if \<not> ok \<or> sint i < 0 \<or> int_text (sint i) \<noteq> rest then None else Some (nat (sint i)))"

section \<open>Scripts\<close>

record script_options =
  op_labelled :: bool
  op_core :: bool
  op_request :: bool
  op_include :: "nat set option"

definition plain_script :: script_options where
  "plain_script = \<lparr>op_labelled = False, op_core = False, op_request = False, op_include = None\<rparr>"

definition index_set :: "nat list option \<Rightarrow> nat set option" where
  "index_set inc = map_option set inc"

definition asserts :: "script_options \<Rightarrow> nat \<Rightarrow> bool" where
  "asserts opts i = (case op_include opts of None \<Rightarrow> True | Some is' \<Rightarrow> i \<in> is')"

definition line :: "string \<Rightarrow> string" where
  "line s = s @ [newline_byte]"

definition write_preamble :: "smt_query \<Rightarrow> script_options \<Rightarrow> string" where
  "write_preamble q opts =
     line (''; OpenSysML SMT-LIB2 translation of '' @ q_kind q @ '' '' @ smt_comment (q_element q))
     @ line ''; the runtime evaluator remains normative; solving is an optional extension''
     @ (if q_negated q then line ''; the element asserts that its required conditions do not all hold'' else [])
     @ (if op_core opts
        then line ''; each assertion is named, so an unsat core names the conditions that conflict''
             @ line ''(set-option :produce-unsat-cores true)''
        else [])
     @ (if optimizes q
        then line ''; objectives are optimized lexicographically, in the order the analysis declares them:''
             @ line ''; each is optimized within what the ones before it already settled''
             @ line ''(set-option :opt.priority lex)''
        else [])
     @ (if lo_standard (logic_choice_of q) then []
        else line (''; no SMT-LIB logic covers '' @ smt_comment (lo_why (logic_choice_of q))
                   @ '', so the logic set below is '' @ lo_name (logic_choice_of q)
                   @ '', which the SMT-LIB logic list does not define''))
     @ line (''(set-logic '' @ lo_name (logic_choice_of q) @ '')'')"

definition write_sort :: "smt_sort \<Rightarrow> string" where
  "write_sort s =
     line (''; '' @ sort_string s @ '' of '' @ smt_comment (so_origin s))
     @ line (''(declare-datatypes (('' @ sort_string s @ '' 0)) ((''
             @ join_with '' '' (map (\<lambda>v. ''('' @ smt_symbol v @ '')'') (so_values s)) @ '')))'')"

definition write_var :: "smt_var \<Rightarrow> string" where
  "write_var v =
     line (''; '' @ var_comment v)
     @ line (''(declare-const '' @ smt_symbol (sv_name v) @ '' '' @ sort_string (sv_sort v) @ '')'')"

definition write_assertion :: "script_options \<Rightarrow> nat \<times> smt_term \<times> provenance \<Rightarrow> string" where
  "write_assertion opts a = (case a of (i, t, p) \<Rightarrow>
     if \<not> asserts opts i then []
     else
       line (''; '' @ assertion_comment p)
       @ line (if op_labelled opts then ''(assert (! '' @ write_term t @ '' :named '' @ core_label i @ ''))''
               else ''(assert '' @ write_term t @ '')''))"

definition write_objective :: "objective \<Rightarrow> string" where
  "write_objective ob =
     line (''; '' @ objective_comment ob)
     @ line (''('' @ direction_name (ob_direction ob) @ '' '' @ write_term (ob_term ob) @ '')'')"

definition write_script :: "smt_query \<Rightarrow> script_options \<Rightarrow> string" where
  "write_script q opts =
     write_preamble q opts
     @ concat (map write_sort (q_sorts q))
     @ concat (map write_var (q_vars q))
     @ concat (map (write_assertion opts) (List.enumerate 0 (q_assertions q)))
     @ concat (map write_objective (q_objectives q))
     @ line ''(check-sat)''
     @ (if op_request opts then line ''(get-unsat-core)'' else [])"

definition script :: "smt_query \<Rightarrow> string" where
  "script q = write_script q plain_script"

definition core_script :: "smt_query \<Rightarrow> nat list option \<Rightarrow> bool \<Rightarrow> string" where
  "core_script q inc request =
     write_script q \<lparr>op_labelled = True, op_core = True, op_request = request, op_include = index_set inc\<rparr>"

end
