(* ===== verification/Smt_Model.thy ===== *)
theory Smt_Model
  imports Smt_Writer
begin

text \<open>
  The values of a solver's model in the notation's own terms, \<open>internal/core/solve/model.go\<close>, and the
  optima it reports, the pure part of \<open>optimize.go\<close>.
\<close>

section \<open>Rational literals\<close>

text \<open>
  \<open>Rat.SetString\<close> on a text without \<open>/\<close>, which neither a literal of the notation nor a text passed on by
  \<open>ratOfSexpr\<close> has: a sign, a base prefix, a mantissa whose digits underscores may separate, and a decimal
  or binary exponent. The mantissa's state is the kind of character before, whether a separator was
  misplaced, the digits so far with those before the point, and their value.
\<close>

definition digit_code :: "char \<Rightarrow> int" where
  "digit_code c =
     (let n = of_char c :: int in
      if 48 \<le> n \<and> n \<le> 57 then n - 48 else if 97 \<le> n \<and> n \<le> 122 then n - 87
      else if 65 \<le> n \<and> n \<le> 90 then n - 55 else 63)"

record mantissa =
  ma_prev :: char
  ma_misplaced :: bool
  ma_count :: nat
  ma_point :: "nat option"
  ma_value :: int

definition mantissa_start :: "char \<Rightarrow> nat \<Rightarrow> mantissa" where
  "mantissa_start p n = \<lparr>ma_prev = p, ma_misplaced = False, ma_count = n, ma_point = None, ma_value = 0\<rparr>"

fun scan_mantissa :: "int \<Rightarrow> mantissa \<Rightarrow> string \<Rightarrow> mantissa \<times> string" where
  "scan_mantissa b m [] = (m, [])"
| "scan_mantissa b m (c # r) =
     (if c = CHR ''.'' \<and> ma_point m = None then
        scan_mantissa b (m\<lparr>ma_misplaced := (ma_misplaced m \<or> ma_prev m = CHR ''_''), ma_prev := CHR ''.'',
                           ma_point := Some (ma_count m)\<rparr>) r
      else if c = CHR ''_'' then
        scan_mantissa b (m\<lparr>ma_misplaced := (ma_misplaced m \<or> ma_prev m \<noteq> CHR ''0''), ma_prev := CHR ''_''\<rparr>) r
      else if digit_code c < b then
        scan_mantissa b (m\<lparr>ma_prev := CHR ''0'', ma_count := Suc (ma_count m), ma_value := b * ma_value m + digit_code c\<rparr>) r
      else (m, c # r))"

definition base_prefix :: "string \<Rightarrow> int \<times> char \<times> nat \<times> string" where
  "base_prefix s =
     (case s of
        CHR ''0'' # c # r \<Rightarrow>
          if c \<in> {CHR ''b'', CHR ''B''} then (2, CHR ''0'', 0, r)
          else if c \<in> {CHR ''o'', CHR ''O''} then (8, CHR ''0'', 0, r)
          else if c \<in> {CHR ''x'', CHR ''X''} then (16, CHR ''0'', 0, r)
          else (10, CHR ''0'', 1, c # r)
      | CHR ''0'' # [] \<Rightarrow> (10, CHR ''0'', 1, [])
      | _ \<Rightarrow> (10, CHR ''.'', 0, s))"

text \<open>The exponent: whether it is decimal, and its digits, checked as the mantissa's are, within 64 bits.\<close>

definition exponent_of :: "string \<Rightarrow> (bool \<times> int) option" where
  "exponent_of s =
     (case s of
        [] \<Rightarrow> Some (True, 0)
      | p # r \<Rightarrow>
          if p \<notin> set ''eEpP'' then None
          else
            let (neg, ds) = sign_of r; (m, rest) = scan_mantissa 10 (mantissa_start (CHR ''.'') 0 \<lparr>ma_point := Some 0\<rparr>) ds;
                e = (if neg then - ma_value m else ma_value m)
            in if rest \<noteq> [] \<or> ma_count m = 0 \<or> ma_misplaced m \<or> ma_prev m = CHR ''_'' \<or> e < min_int64 \<or> max_int64 < e
               then None else Some (p \<in> set ''eE'', e))"

definition rat_power :: "rat \<Rightarrow> int \<Rightarrow> rat" where
  "rat_power b e = (if 0 \<le> e then b ^ nat e else 1 / b ^ nat (- e))"

text \<open>The powers of five and of two the point and the exponent contribute, bounded as the library bounds them.\<close>

definition scaled_value :: "int \<Rightarrow> int \<Rightarrow> int \<Rightarrow> bool \<times> int \<Rightarrow> rat option" where
  "scaled_value b v fcount ex =
     (let (decimal, e) = ex;
          exp5 = (if b = 10 then fcount else 0) + (if decimal then e else 0);
          exp2 = (if b = 10 \<or> b = 2 then fcount else if b = 8 then fcount * 3 else fcount * 4) + e
      in if v = 0 then Some 0
         else if 1000000 < \<bar>exp5\<bar> \<or> 10000000 < \<bar>exp2\<bar> then None
         else Some (of_int v * rat_power 5 exp5 * rat_power 2 exp2))"

definition set_string :: "string \<Rightarrow> rat option" where
  "set_string s =
     (let (neg, t) = sign_of s; (b, p, n, u) = base_prefix t;
          (m, rest) = scan_mantissa b (mantissa_start p n) u;
          fcount = (case ma_point m of None \<Rightarrow> 0 | Some k \<Rightarrow> int k - int (ma_count m))
      in if ma_count m = 0 \<or> ma_misplaced m \<or> ma_prev m = CHR ''_'' then None
         else Option.bind (exponent_of rest) (\<lambda>e.
           map_option (\<lambda>x. if neg then - x else x) (scaled_value b (ma_value m) fcount e)))"

definition rat_of_atom :: "string \<Rightarrow> rat option" where
  "rat_of_atom s = (if list_ex (\<lambda>c. c \<in> set ''eE/'') s then None else set_string s)"

fun rat_of_sexpr :: "sexpr \<Rightarrow> rat option" where
  "rat_of_sexpr (Atom t quoted) = (if quoted then None else rat_of_atom t)"
| "rat_of_sexpr (SList [h, x]) =
     (if atom_text h = ''-'' then map_option uminus (rat_of_sexpr x)
      else if atom_text h = ''to_real'' then rat_of_sexpr x else None)"
| "rat_of_sexpr (SList [h, x, y]) =
     (if atom_text h \<noteq> ''/'' then None
      else case (rat_of_sexpr x, rat_of_sexpr y) of
        (Some a, Some b) \<Rightarrow> if b = 0 then None else Some (a / b)
      | _ \<Rightarrow> None)"
| "rat_of_sexpr (SList es) = None"

section \<open>Values\<close>

definition signed_float_string :: "nat \<Rightarrow> rat \<Rightarrow> string" where
  "signed_float_string prec r =
     (case quotient_of \<bar>r\<bar> of (num, den) \<Rightarrow> (if r < 0 then ''-'' else []) @ float_string prec num den)"

definition render_rat :: "rat \<Rightarrow> string" where
  "render_rat r =
     (case quotient_of r of (num, den) \<Rightarrow>
        if den = 1 then int_text num @ ''.0''
        else case decimal_digits den of
          Some k \<Rightarrow> signed_float_string k r
        | None \<Rightarrow> int_text num @ ''/'' @ int_text den)"

definition with_unit :: "string \<Rightarrow> string \<Rightarrow> string \<Rightarrow> string" where
  "with_unit magnitude unit dimension =
     (if unit \<noteq> [] then magnitude @ '' ['' @ unit @ '']''
      else if dimension \<noteq> [] then magnitude @ '' (in the base units of '' @ dimension @ '')''
      else magnitude)"

definition render_value :: "smt_var \<Rightarrow> sexpr \<Rightarrow> string option" where
  "render_value v s =
     (case so_kind (sv_sort v) of
        SortBool \<Rightarrow> (case s of Atom t q \<Rightarrow> if t = ''true'' \<or> t = ''false'' then Some t else None | _ \<Rightarrow> None)
      | SortString \<Rightarrow> (case s of Atom t q \<Rightarrow> if q then Some ([dquote] @ t @ [dquote]) else None | _ \<Rightarrow> None)
      | SortDatatype \<Rightarrow>
          (case s of Atom t q \<Rightarrow> if smt_name t \<in> set (so_values (sv_sort v)) then Some (smt_name t) else None | _ \<Rightarrow> None)
      | SortInt \<Rightarrow>
          (case rat_of_sexpr s of
             Some r \<Rightarrow> (case quotient_of r of (num, den) \<Rightarrow> if den = 1 then Some (int_text num) else None)
           | None \<Rightarrow> None)
      | SortReal \<Rightarrow> map_option (\<lambda>r. with_unit (render_rat r) (sv_unit v) (sv_dimension v)) (rat_of_sexpr s))"

record assignment =
  as_var :: smt_var
  as_value :: string
  as_raw :: string
  as_rendered :: bool

definition assign :: "smt_var \<Rightarrow> sexpr \<Rightarrow> assignment" where
  "assign v s =
     (case render_value v s of
        None \<Rightarrow> \<lparr>as_var = v, as_value = sexpr_string s, as_raw = sexpr_string s, as_rendered = False\<rparr>
      | Some t \<Rightarrow> \<lparr>as_var = v, as_value = t, as_raw = sexpr_string s, as_rendered = True\<rparr>)"

section \<open>Optima\<close>

datatype optimum_reading = OptFinite rat | OptInfinite | OptBound rat | OptUnreadable

text \<open>\<open>oo\<close> in either case, positive, or its negation.\<close>

fun infinity_sign :: "sexpr \<Rightarrow> int option" where
  "infinity_sign (Atom t q) =
     (if length t = 2 \<and> list_all (\<lambda>c. c = CHR ''o'' \<or> c = CHR ''O'') t then Some 1 else None)"
| "infinity_sign (SList [h, x]) =
     (if atom_text h = ''-'' \<and> infinity_sign x \<noteq> None then Some (- 1) else None)"
| "infinity_sign (SList es) = None"

fun has_epsilon :: "sexpr \<Rightarrow> bool" where
  "has_epsilon (Atom t q) \<longleftrightarrow> t = ''epsilon'' \<and> \<not> q"
| "has_epsilon (SList es) \<longleftrightarrow> list_ex has_epsilon es"

definition sum_ignoring :: "sexpr list \<Rightarrow> rat option" where
  "sum_ignoring es = map_option sum_list (all_some (map rat_of_sexpr (filter (\<lambda>e. \<not> has_epsilon e) es)))"

fun rat_ignoring_epsilon :: "sexpr \<Rightarrow> rat option" where
  "rat_ignoring_epsilon (Atom t q) = (if has_epsilon (Atom t q) then Some 0 else rat_of_sexpr (Atom t q))"
| "rat_ignoring_epsilon (SList (h # x # r)) =
     (if \<not> has_epsilon (SList (h # x # r)) then rat_of_sexpr (SList (h # x # r))
      else if atom_text h = ''+'' then sum_ignoring (x # r)
      else if r = [] \<and> atom_text h = ''-'' then map_option uminus (rat_ignoring_epsilon x)
      else if atom_text h = ''*'' then Some 0
      else None)"
| "rat_ignoring_epsilon (SList es) = (if \<not> has_epsilon (SList es) then rat_of_sexpr (SList es) else None)"

definition parse_plain_optimum :: "sexpr \<Rightarrow> optimum_reading" where
  "parse_plain_optimum s =
     (if has_epsilon s then (case rat_ignoring_epsilon s of Some r \<Rightarrow> OptBound r | None \<Rightarrow> OptUnreadable)
      else case rat_of_sexpr s of Some r \<Rightarrow> OptFinite r | None \<Rightarrow> OptUnreadable)"

definition parse_infinity :: "direction \<Rightarrow> int \<Rightarrow> optimum_reading" where
  "parse_infinity d sign = (if (d = Maximize) = (0 < sign) then OptInfinite else OptUnreadable)"

fun parse_optimum :: "direction \<Rightarrow> sexpr \<Rightarrow> optimum_reading" where
  "parse_optimum d (SList [h, lo, hi]) =
     (if atom_text h = ''interval'' then
        (case parse_optimum d (if d = Maximize then hi else lo) of OptFinite r \<Rightarrow> OptBound r | other \<Rightarrow> other)
      else parse_plain_optimum (SList [h, lo, hi]))"
| "parse_optimum d s = (case infinity_sign s of Some sign \<Rightarrow> parse_infinity d sign | None \<Rightarrow> parse_plain_optimum s)"

datatype status = StatusSat | StatusUnsat | StatusUnknown

datatype optimum_status =
  OptimumAttained | OptimumBounded | OptimumUnbounded | OptimumUnverified | OptimumUndecided

record optimum =
  om_objective :: objective
  om_status :: optimum_status
  om_value :: string
  om_bound :: string
  om_feasible :: string
  om_raw :: string
  om_detail :: string

definition quote_reply :: "sexpr \<Rightarrow> string" where
  "quote_reply s = [CHR 0x60] @ smt_comment (sexpr_string s) @ [CHR 0x60]"

fun better_word :: "direction \<Rightarrow> string" where
  "better_word Minimize = ''smaller''"
| "better_word Maximize = ''greater''"

definition render_magnitude :: "objective \<Rightarrow> rat \<Rightarrow> string" where
  "render_magnitude ob r =
     (case quotient_of r of (num, den) \<Rightarrow>
        with_unit (if so_kind (term_sort (ob_term ob)) = SortInt \<and> den = 1 then int_text num else render_rat r)
          (ob_unit ob) (ob_dimension ob))"

definition objective_name :: "objective \<Rightarrow> string" where
  "objective_name ob =
     (if ob_name ob \<noteq> [] then ''objective '' @ ob_name ob else ''the objective '' @ ob_expression ob)"

definition classify_optimum :: "objective \<Rightarrow> sexpr \<Rightarrow> rat \<Rightarrow> status \<Rightarrow> optimum" where
  "classify_optimum ob reported attained verified =
     (let out = \<lparr>om_objective = ob, om_status = OptimumAttained, om_value = [], om_bound = [],
                 om_feasible = render_magnitude ob attained, om_raw = sexpr_string reported, om_detail = []\<rparr>;
          better = better_word (ob_direction ob)
      in case parse_optimum (ob_direction ob) reported of
           OptInfinite \<Rightarrow>
             out\<lparr>om_status := OptimumUnbounded,
                 om_detail := ''the conditions permit arbitrarily '' @ better @ '' values''\<rparr>
         | OptUnreadable \<Rightarrow>
             out\<lparr>om_status := OptimumUndecided,
                 om_detail := ''the solver reported the optimum as '' @ quote_reply reported @ '', which is no number''\<rparr>
         | OptBound r \<Rightarrow>
             out\<lparr>om_status := OptimumBounded, om_bound := render_magnitude ob r,
                 om_detail := ''the objective approaches this bound without any assignment attaining it''\<rparr>
         | OptFinite r \<Rightarrow>
             (case verified of
                StatusSat \<Rightarrow>
                  out\<lparr>om_status := OptimumUnverified,
                      om_detail := ''the solver reported '' @ render_magnitude ob r @ '', but a strictly '' @ better
                                     @ '' value is feasible, so it is no optimum''\<rparr>
              | StatusUnknown \<Rightarrow>
                  out\<lparr>om_status := OptimumUndecided,
                      om_detail := ''the solver reported '' @ render_magnitude ob r @ '', but did not decide whether a ''
                                     @ better @ '' value is feasible''\<rparr>
              | StatusUnsat \<Rightarrow>
                  if r \<noteq> attained
                  then out\<lparr>om_status := OptimumBounded, om_bound := render_magnitude ob r,
                           om_detail := ''no assignment reported attains this value''\<rparr>
                  else out\<lparr>om_value := render_magnitude ob attained\<rparr>))"

definition classify_optima :: "smt_query \<Rightarrow> sexpr list \<Rightarrow> rat list \<Rightarrow> status \<Rightarrow> optimum list" where
  "classify_optima q reported attained verified =
     map (\<lambda>(ob, s, r). classify_optimum ob s r verified) (zip (q_objectives q) (zip reported attained))"

section \<open>The check of an optimum\<close>

text \<open>An integer beyond 64 bits wraps in the literal.\<close>

definition rat_term :: "smt_sort \<Rightarrow> rat \<Rightarrow> smt_term" where
  "rat_term s r =
     (case quotient_of r of (num, den) \<Rightarrow>
        if so_kind s = SortInt \<and> den = 1 then IntTerm (word_of_int num) else RealTerm r)"

definition better_term :: "objective \<Rightarrow> smt_term \<Rightarrow> smt_term" where
  "better_term ob t = binary_term (if ob_direction ob = Maximize then SmtGt else SmtLt) bool_sort (ob_term ob) t"

text \<open>\<open>verifyOptimal\<close>'s assertion: better in one objective and equal in the ones before it.\<close>

definition equal_term :: "objective \<Rightarrow> rat \<Rightarrow> smt_term" where
  "equal_term ob r = binary_term SmtEq bool_sort (ob_term ob) (rat_term (term_sort (ob_term ob)) r)"

definition improvement_clause :: "objective list \<Rightarrow> rat list \<Rightarrow> nat \<Rightarrow> smt_term" where
  "improvement_clause obs attained i =
     and_term (map (\<lambda>j. equal_term (obs ! j) (attained ! j)) [0..<i]
               @ [better_term (obs ! i) (rat_term (term_sort (ob_term (obs ! i))) (attained ! i))])"

definition improvement_term :: "objective list \<Rightarrow> rat list \<Rightarrow> smt_term" where
  "improvement_term obs attained = or_term (map (improvement_clause obs attained) [0..<length obs])"

end
