(* ===== verification/Smt_Session.thy ===== *)
theory Smt_Session
  imports Smt_Model
begin

text \<open>
  A dialogue with a solver, \<open>internal/core/solve/solver.go\<close> and the dialogues of \<open>core.go\<close>,
  \<open>configure.go\<close> and \<open>optimize.go\<close>. The solver is its behaviour towards the session: the bytes it
  writes, which are read as they come, and how many writes it takes before it stops reading. What it
  writes on standard error, which messages append, and the deadline of a dialogue are not modelled.
\<close>

section \<open>Sessions\<close>

record session =
  se_out :: string
  se_sent :: "string list"
  se_takes :: nat

record result =
  re_status :: status
  re_reason :: string
  re_model :: "assignment list"
  re_solutions :: "assignment list list"
  re_truncated :: bool
  re_at_bound :: bool
  re_undecided :: bool
  re_optima :: "optimum list"
  re_core :: "nat list option"

definition answered :: "status \<Rightarrow> result" where
  "answered st = \<lparr>re_status = st, re_reason = [], re_model = [], re_solutions = [], re_truncated = False,
     re_at_bound = False, re_undecided = False, re_optima = [], re_core = None\<rparr>"

text \<open>A failure past the first solution of an enumeration carries the ones reported.\<close>

datatype dialogue_error =
    ProcessError string string
  | CoreFailure string
  | OptimumFailure string string
  | NoOptimization string
  | PartialResult result dialogue_error

type_synonym 'a dialogue = "session \<Rightarrow> (dialogue_error, 'a \<times> session) res"

definition answer :: "'a \<Rightarrow> 'a dialogue" where
  "answer a se = Inr (a, se)"

definition refuse :: "dialogue_error \<Rightarrow> 'a dialogue" where
  "refuse e se = Inl e"

definition and_then :: "'a dialogue \<Rightarrow> ('a \<Rightarrow> 'b dialogue) \<Rightarrow> 'b dialogue" where
  "and_then m k se = (case m se of Inl e \<Rightarrow> Inl e | Inr (a, se') \<Rightarrow> k a se')"

definition send :: "string \<Rightarrow> unit dialogue" where
  "send s se =
     (if se_takes se = 0 then Inl (ProcessError ''write'' ''it stopped reading the script'')
      else Inr ((), se\<lparr>se_sent := se_sent se @ [s], se_takes := se_takes se - 1\<rparr>))"

text \<open>Acknowledgements are looked past; each takes bytes of the output.\<close>

function read_answer :: "string \<Rightarrow> (sexpr_error, sexpr \<times> string) res" where
  "read_answer out =
     (case read_reply out of
        Inl e \<Rightarrow> Inl e
      | Inr (s, r) \<Rightarrow> if atom_text s = ''success'' then read_answer r else Inr (s, r))"
  by pat_completeness auto
termination
proof (relation "measure length", goal_cases)
  case (2 out sr s r)
  then show ?case using reader_enough(1) [of "2 * length out + 1" out] by (auto simp: read_reply_def)
qed simp

declare read_answer.simps [simp del]

definition read_from :: "string \<Rightarrow> sexpr dialogue" where
  "read_from stage se =
     (case read_answer (se_out se) of
        Inl ErrEOF \<Rightarrow> Inl (ProcessError stage ''it stopped without answering'')
      | Inl _ \<Rightarrow> Inl (ProcessError stage ''its reply could not be read'')
      | Inr (s, r) \<Rightarrow> Inr (s, se\<lparr>se_out := r\<rparr>))"

definition verdict :: "status dialogue" where
  "verdict = and_then (read_from ''check-sat'') (\<lambda>s.
     case is_error s of
       Some msg \<Rightarrow> refuse (ProcessError ''check-sat'' (''it rejected the script: '' @ msg))
     | None \<Rightarrow>
         if atom_text s = ''sat'' then answer StatusSat
         else if atom_text s = ''unsat'' then answer StatusUnsat
         else if atom_text s = ''unknown'' then answer StatusUnknown
         else refuse (ProcessError ''check-sat'' (''it answered '' @ quote_reply s @ '' rather than sat, unsat or unknown'')))"

section \<open>Models\<close>

text \<open>\<open>pairs\<close>: a later value of a variable replaces an earlier one.\<close>

fun read_pairs :: "string set \<Rightarrow> (string \<rightharpoonup> sexpr) \<Rightarrow> sexpr list \<Rightarrow> (dialogue_error, string \<rightharpoonup> sexpr) res" where
  "read_pairs declared m [] = Inr m"
| "read_pairs declared m (p # ps) =
     (case p of
        SList [Atom t q, x] \<Rightarrow>
          if smt_name t \<notin> declared
          then Inl (ProcessError ''get-value'' (''its model names '' @ smt_name t @ '', which the query does not declare''))
          else read_pairs declared (m(smt_name t \<mapsto> x)) ps
      | _ \<Rightarrow> Inl (ProcessError ''get-value'' (''its model holds '' @ quote_reply p @ '' rather than a variable and a value'')))"

definition model_pairs :: "sexpr \<Rightarrow> smt_var list \<Rightarrow> (dialogue_error, string \<rightharpoonup> sexpr) res" where
  "model_pairs reply vs =
     (case reply of
        Atom t q \<Rightarrow> Inl (ProcessError ''get-value'' (''its model is not a list of assignments: '' @ quote_reply reply))
      | SList ps \<Rightarrow> read_pairs (sv_name ` set vs) Map.empty ps)"

fun assign_all :: "(string \<rightharpoonup> sexpr) \<Rightarrow> smt_var list \<Rightarrow> (dialogue_error, assignment list) res" where
  "assign_all m [] = Inr []"
| "assign_all m (v # vs) =
     (case m (sv_name v) of
        None \<Rightarrow> Inl (ProcessError ''get-value'' (''its model left out the variable '' @ sv_name v))
      | Some s \<Rightarrow> bind_res (assign_all m vs) (\<lambda>rest. Inr (assign v s # rest)))"

definition lift_res :: "(dialogue_error, 'a) res \<Rightarrow> 'a dialogue" where
  "lift_res x = (case x of Inl e \<Rightarrow> refuse e | Inr a \<Rightarrow> answer a)"

definition values_of :: "smt_var list \<Rightarrow> assignment list dialogue" where
  "values_of vs =
     (if vs = [] then answer []
      else and_then (send (''(get-value ('' @ join_with '' '' (map (\<lambda>v. smt_symbol (sv_name v)) vs) @ ''))'' @ [newline_byte])) (\<lambda>_.
           and_then (read_from ''get-value'') (\<lambda>reply.
           case is_error reply of
             Some msg \<Rightarrow> refuse (ProcessError ''get-value'' (''it would not report a model: '' @ msg))
           | None \<Rightarrow> lift_res (bind_res (model_pairs reply vs) (\<lambda>m. assign_all m vs)))))"

text \<open>A solver that declines to say why changes nothing.\<close>

definition reason_unknown :: "string dialogue" where
  "reason_unknown se =
     (case send (''(get-info :reason-unknown)'' @ [newline_byte]) se of
        Inl e \<Rightarrow> Inr ([], se)
      | Inr (_, se1) \<Rightarrow>
          (case read_from ''get-info'' se1 of
             Inl e \<Rightarrow> Inr ([], se1)
           | Inr (s, se2) \<Rightarrow>
               Inr (if is_error s \<noteq> None then []
                    else case s of SList [a, b] \<Rightarrow> trim_space (atom_text b) | _ \<Rightarrow> [], se2)))"

definition produce_models :: string where
  "produce_models = ''(set-option :produce-models true)'' @ [newline_byte]"

definition run_query :: "smt_query \<Rightarrow> result dialogue" where
  "run_query q =
     and_then (send (produce_models @ script q)) (\<lambda>_.
     and_then verdict (\<lambda>st.
     case st of
       StatusSat \<Rightarrow> and_then (values_of (q_vars q)) (\<lambda>m. answer ((answered st)\<lparr>re_model := m\<rparr>))
     | StatusUnknown \<Rightarrow> and_then reason_unknown (\<lambda>w. answer ((answered st)\<lparr>re_reason := w\<rparr>))
     | StatusUnsat \<Rightarrow> answer (answered st)))"

section \<open>Cores\<close>

text \<open>The labels of a core, each asserted and named once.\<close>

fun read_labels :: "nat \<Rightarrow> nat set option \<Rightarrow> nat list \<Rightarrow> sexpr list \<Rightarrow> (dialogue_error, nat list) res" where
  "read_labels n issued seen [] = Inr seen"
| "read_labels n issued seen (e # es) =
     (case (e, core_label_index (atom_text e)) of
        (Atom t q, Some i) \<Rightarrow>
          if n \<le> i \<or> (case issued of None \<Rightarrow> False | Some is' \<Rightarrow> i \<notin> is')
          then Inl (CoreFailure (''its core names '' @ quote_reply e @ '', which the query did not assert''))
          else if i \<in> set seen then Inl (CoreFailure (''its core names '' @ t @ '' twice''))
          else read_labels n issued (seen @ [i]) es
      | _ \<Rightarrow> Inl (CoreFailure (''its core names '' @ quote_reply e @ '', which the query did not assert'')))"

definition core_indices :: "nat \<Rightarrow> nat list option \<Rightarrow> sexpr \<Rightarrow> (dialogue_error, nat list) res" where
  "core_indices n inc reply =
     (case is_error reply of
        Some msg \<Rightarrow> Inl (CoreFailure (''it would not report an unsat core: '' @ msg))
      | None \<Rightarrow>
          (case reply of
             Atom t q \<Rightarrow> Inl (CoreFailure (''its core is '' @ quote_reply reply @ '' rather than a list of assertion names''))
           | SList es \<Rightarrow> bind_res (read_labels n (index_set inc) [] es) (\<lambda>is'.
               if is' = [] then Inl (CoreFailure ''its core is empty, though it answered unsat'') else Inr (sort is'))))"

definition unsat_core :: "smt_query \<Rightarrow> nat list option \<Rightarrow> nat list dialogue" where
  "unsat_core q inc =
     and_then (send (''(get-unsat-core)'' @ [newline_byte])) (\<lambda>_.
     and_then (read_from ''get-unsat-core'') (\<lambda>reply.
     lift_res (core_indices (length (q_assertions q)) inc reply)))"

definition explain_query :: "smt_query \<Rightarrow> nat list option \<Rightarrow> bool \<Rightarrow> result dialogue" where
  "explain_query q inc core =
     and_then (send (core_script q inc False)) (\<lambda>_.
     and_then verdict (\<lambda>st.
     case st of
       StatusUnsat \<Rightarrow>
         if \<not> core then answer (answered st)
         else and_then (unsat_core q inc) (\<lambda>is'. answer ((answered st)\<lparr>re_core := Some is'\<rparr>))
     | StatusUnknown \<Rightarrow> and_then reason_unknown (\<lambda>w. answer ((answered st)\<lparr>re_reason := w\<rparr>))
     | StatusSat \<Rightarrow> answer (answered st)))"

section \<open>Configurations\<close>

definition variations :: "smt_query \<Rightarrow> smt_var list" where
  "variations q = filter (\<lambda>v. so_kind (sv_sort v) = SortDatatype \<and> so_variation (sv_sort v)) (q_vars q)"

definition blocking_term :: "assignment \<Rightarrow> smt_term" where
  "blocking_term a = binary_term SmtEq bool_sort (VarTerm (as_var a)) (ValueTerm (sv_sort (as_var a)) (as_value a))"

fun blocking_parts :: "assignment list \<Rightarrow> (dialogue_error, string list) res" where
  "blocking_parts [] = Inr []"
| "blocking_parts (a # as) =
     (if \<not> as_rendered a
      then Inl (ProcessError ''get-value'' (''its model gave '' @ as_raw a @ '' for '' @ sv_name (as_var a)
                  @ '', which names no variant of '' @ so_name (sv_sort (as_var a))))
      else bind_res (blocking_parts as) (\<lambda>rest. Inr (write_term (blocking_term a) # rest)))"

definition blocking :: "assignment list \<Rightarrow> (dialogue_error, string) res" where
  "blocking as = bind_res (blocking_parts as) (\<lambda>ps.
     case ps of [p] \<Rightarrow> Inr p | _ \<Rightarrow> Inr (''(and '' @ join_with '' '' ps @ '')''))"

definition deny :: "assignment list \<Rightarrow> unit dialogue" where
  "deny as = and_then (lift_res (blocking as)) (\<lambda>c.
     send (line (''; '' @ role_name RoleExcluded @ '': a configuration already reported'')
           @ line (''(assert (not '' @ c @ ''))'') @ line ''(check-sat)''))"

definition stopped :: "assignment list list \<Rightarrow> result" where
  "stopped sols = (answered StatusSat)\<lparr>re_solutions := sols, re_truncated := True\<rparr>"

definition enumeration_failure :: "assignment list list \<Rightarrow> dialogue_error \<Rightarrow> dialogue_error" where
  "enumeration_failure sols e =
     (if sols = [] then e else PartialResult ((stopped sols)\<lparr>re_undecided := True\<rparr>) e)"

definition failing_with :: "assignment list list \<Rightarrow> 'a dialogue \<Rightarrow> 'a dialogue" where
  "failing_with sols m se = (case m se of Inl e \<Rightarrow> Inl (enumeration_failure sols e) | Inr r \<Rightarrow> Inr r)"

text \<open>The loop of \<open>enumerate\<close>, with how many more solutions the bound admits.\<close>

fun enumerate_more :: "smt_var list \<Rightarrow> nat \<Rightarrow> assignment list list \<Rightarrow> result dialogue" where
  "enumerate_more vs 0 sols = answer ((stopped sols)\<lparr>re_at_bound := True\<rparr>)"
| "enumerate_more vs (Suc n) sols =
     and_then (failing_with sols verdict) (\<lambda>st.
     case st of
       StatusUnsat \<Rightarrow>
         answer ((answered (if sols = [] then StatusUnsat else StatusSat))\<lparr>re_solutions := sols\<rparr>)
     | StatusUnknown \<Rightarrow> and_then reason_unknown (\<lambda>w.
         answer (if sols = [] then (answered StatusUnknown)\<lparr>re_reason := w\<rparr>
                 else (stopped sols)\<lparr>re_undecided := True, re_reason := w\<rparr>))
     | StatusSat \<Rightarrow>
         and_then (failing_with sols (values_of vs)) (\<lambda>as.
           if n = 0 then answer ((stopped (sols @ [as]))\<lparr>re_at_bound := True\<rparr>)
           else and_then (failing_with (sols @ [as]) (deny as)) (\<lambda>_. enumerate_more vs n (sols @ [as]))))"

definition enumerate_query :: "smt_query \<Rightarrow> smt_var list \<Rightarrow> nat \<Rightarrow> result dialogue" where
  "enumerate_query q vs bound =
     and_then (send (produce_models @ script q)) (\<lambda>_. enumerate_more vs bound [])"

section \<open>Optimization\<close>

fun optimum_entries :: "objective list \<Rightarrow> sexpr list \<Rightarrow> (dialogue_error, sexpr list) res" where
  "optimum_entries (ob # obs) (e # es) =
     (case e of
        SList [a, b] \<Rightarrow> bind_res (optimum_entries obs es) (\<lambda>rest. Inr (b # rest))
      | _ \<Rightarrow> Inl (OptimumFailure (objective_name ob)
                   (''reported '' @ quote_reply e @ '' rather than an objective and its optimum'')))"
| "optimum_entries obs es = Inr []"

definition optima_of_reply :: "objective list \<Rightarrow> sexpr \<Rightarrow> (dialogue_error, sexpr list) res" where
  "optima_of_reply obs reply =
     (case is_error reply of
        Some msg \<Rightarrow> Inl (NoOptimization (''rejected (get-objectives): '' @ msg))
      | None \<Rightarrow>
          if atom_text reply = ''unsupported''
          then Inl (NoOptimization (''answered '' @ quote_reply reply @ '' to (get-objectives)''))
          else case reply of
            SList (h # es) \<Rightarrow>
              if atom_text h \<noteq> ''objectives''
              then Inl (OptimumFailure [] (''answered '' @ quote_reply reply @ '' rather than its objectives''))
              else if length es \<noteq> length obs
              then Inl (OptimumFailure [] (''reported '' @ nat_text (length es) @ '' optima for ''
                          @ nat_text (length obs) @ '' objectives''))
              else optimum_entries obs es
          | _ \<Rightarrow> Inl (OptimumFailure [] (''answered '' @ quote_reply reply @ '' rather than its objectives'')))"

definition reported_optima :: "smt_query \<Rightarrow> sexpr list dialogue" where
  "reported_optima q =
     and_then (send (''(get-objectives)'' @ [newline_byte])) (\<lambda>_.
     and_then (read_from ''get-objectives'') (\<lambda>reply. lift_res (optima_of_reply (q_objectives q) reply)))"

definition attained_value :: "objective \<Rightarrow> sexpr \<Rightarrow> (dialogue_error, rat) res" where
  "attained_value ob reply =
     (case is_error reply of
        Some msg \<Rightarrow> Inl (ProcessError ''get-value'' (''it would not evaluate the objective: '' @ msg))
      | None \<Rightarrow>
          (case reply of
             SList [SList [a, b]] \<Rightarrow>
               (case rat_of_sexpr b of
                  Some r \<Rightarrow> Inr r
                | None \<Rightarrow> Inl (OptimumFailure (objective_name ob)
                            (''gave the objective the value '' @ quote_reply b @ '', which is no number'')))
           | _ \<Rightarrow> Inl (OptimumFailure (objective_name ob)
                   (''answered '' @ quote_reply reply @ '' rather than the value its model gives the objective''))))"

fun attained_values :: "objective list \<Rightarrow> rat list dialogue" where
  "attained_values [] = answer []"
| "attained_values (ob # obs) =
     and_then (send (''(get-value ('' @ write_term (ob_term ob) @ ''))'' @ [newline_byte])) (\<lambda>_.
     and_then (read_from ''get-value'') (\<lambda>reply.
     and_then (lift_res (attained_value ob reply)) (\<lambda>r.
     and_then (attained_values obs) (\<lambda>rs. answer (r # rs)))))"

definition verify_optimal :: "smt_query \<Rightarrow> rat list \<Rightarrow> status dialogue" where
  "verify_optimal q attained =
     and_then (send (line ''(push 1)''
                     @ line (''(assert '' @ write_term (improvement_term (q_objectives q) attained) @ '')'')
                     @ line ''(check-sat)'')) (\<lambda>_.
     and_then verdict (\<lambda>st.
     and_then (send (line ''(pop 1)'')) (\<lambda>_. answer st)))"

definition optimize_query :: "smt_query \<Rightarrow> result dialogue" where
  "optimize_query q =
     and_then (send (produce_models @ script q)) (\<lambda>_.
     and_then verdict (\<lambda>st.
     case st of
       StatusUnsat \<Rightarrow> answer (answered st)
     | StatusUnknown \<Rightarrow> and_then reason_unknown (\<lambda>w. answer ((answered st)\<lparr>re_reason := w\<rparr>))
     | StatusSat \<Rightarrow>
         and_then (reported_optima q) (\<lambda>reported.
         and_then (values_of (q_vars q)) (\<lambda>m.
         and_then (attained_values (q_objectives q)) (\<lambda>attained.
         and_then (verify_optimal q attained) (\<lambda>verified.
         answer ((answered st)\<lparr>re_model := m, re_optima := classify_optima q reported attained verified\<rparr>)))))))"

section \<open>Shrinking a core\<close>

text \<open>
  \<open>reduce\<close>: each round is a dialogue of its own with a fresh solver, which is a parameter here, as is
  whether a round still starts before the deadline. The candidates are the core's members in order.
\<close>

record core =
  co_indices :: "nat list"
  co_minimal :: bool
  co_note :: string
  co_rounds :: nat

definition without :: "nat list \<Rightarrow> nat \<Rightarrow> nat list" where
  "without is' i = filter (\<lambda>j. j \<noteq> i) is'"

definition undecided :: "string \<Rightarrow> bool \<Rightarrow> string" where
  "undecided reason timed_out =
     (if reason \<noteq> [] then reason else if timed_out then ''it ran out of time'' else ''it gave no reason'')"

fun reduce_loop ::
  "(nat list \<Rightarrow> (dialogue_error, result \<times> bool) res) \<Rightarrow> (nat \<Rightarrow> bool) \<Rightarrow> string
    \<Rightarrow> nat list \<Rightarrow> nat \<Rightarrow> nat list \<Rightarrow> (dialogue_error, core) res"
where
  "reduce_loop check intime budget kept rounds [] =
     Inr \<lparr>co_indices = kept, co_minimal = True, co_note = [], co_rounds = rounds\<rparr>"
| "reduce_loop check intime budget kept rounds (c # cs) =
     (if length kept \<le> 1 then Inr \<lparr>co_indices = kept, co_minimal = True, co_note = [], co_rounds = rounds\<rparr>
      else if \<not> intime rounds then
        Inr \<lparr>co_indices = kept, co_minimal = False,
             co_note = ''shrinking the core ran out of its '' @ budget @ '' budget'', co_rounds = rounds\<rparr>
      else bind_res (check (without kept c)) (\<lambda>(res, timed_out).
        case re_status res of
          StatusUnknown \<Rightarrow>
            Inr \<lparr>co_indices = kept, co_minimal = False,
                 co_note = ''the solver did not decide whether the core shrinks further: '' @ undecided (re_reason res) timed_out,
                 co_rounds = Suc rounds\<rparr>
        | StatusUnsat \<Rightarrow> reduce_loop check intime budget (without kept c) (Suc rounds) cs
        | StatusSat \<Rightarrow> reduce_loop check intime budget kept (Suc rounds) cs))"

definition reduce_core ::
  "(nat list \<Rightarrow> (dialogue_error, result \<times> bool) res) \<Rightarrow> (nat \<Rightarrow> bool) \<Rightarrow> string \<Rightarrow> nat
    \<Rightarrow> nat list \<Rightarrow> (dialogue_error, core) res"
where
  "reduce_core check intime budget bound raw =
     (if bound < length raw then
        Inr \<lparr>co_indices = raw, co_minimal = False,
             co_note = ''the core has more than '' @ nat_text bound @ '' members, past the bound on shrinking one'',
             co_rounds = 0\<rparr>
      else reduce_loop check intime budget raw 0 raw)"

definition members_of :: "smt_query \<Rightarrow> nat list \<Rightarrow> (smt_term \<times> provenance) list" where
  "members_of q is' = map (\<lambda>i. q_assertions q ! i) is'"

end
