(* ===== verification/Smt_Roundtrip.thy ===== *)
theory Smt_Roundtrip
  imports Smt_Session
begin

text \<open>
  What the reader makes of what the writer wrote: symbols, terms, comments and whole scripts.
\<close>

section \<open>Symbols\<close>

lemma smt_name_plain: "c \<noteq> bang \<Longrightarrow> smt_name (c # r) = c # smt_name r"
  by (cases r) simp_all

lemma smt_name_escape: "smt_name (escape_char c @ r) = c # smt_name r"
  by (simp add: escape_char_def smt_name_plain)

lemma escape_name_simps [simp]:
  "escape_name [] = []"
  "escape_name (c # s) = escape_char c @ escape_name s"
  by (simp_all add: escape_name_def)

lemma smt_name_inverse: "smt_name (escape_name s) = s"
  by (induction s) (simp_all add: smt_name_escape)

interpretation symbol_codec: codec escape_name "\<lambda>t. Some (smt_name t)" "\<lambda>s. True"
proof (unfold_locales, goal_cases)
  case (1 s)
  show ?case by (simp add: smt_name_inverse)
qed

lemma escape_no_bar: "bar \<notin> set (escape_name s)"
  by (induction s) (simp_all add: escape_char_def)

section \<open>Reading with any sufficient fuel\<close>

definition reads :: "string \<Rightarrow> sexpr \<Rightarrow> string \<Rightarrow> bool" where
  "reads s e r \<longleftrightarrow> (\<exists>N. \<forall>n\<ge>N. read_sexpr n s = Inr (e, r))"

definition reads_list :: "sexpr list \<Rightarrow> string \<Rightarrow> sexpr \<Rightarrow> string \<Rightarrow> bool" where
  "reads_list es s e r \<longleftrightarrow> (\<exists>N. \<forall>n\<ge>N. read_list n es s = Inr (e, r))"

lemma reader_mono:
  "read_sexpr n s \<noteq> Inl ErrNoFuel \<Longrightarrow> read_sexpr (Suc n) s = read_sexpr n s"
  "read_list n es s \<noteq> Inl ErrNoFuel \<Longrightarrow> read_list (Suc n) es s = read_list n es s"
proof (induction n s and n es s rule: read_sexpr_read_list.induct)
  case (2 n s)
  show ?case
  proof (cases "skip_space s")
    case (Inr s1)
    show ?thesis
    proof (cases s1)
      case (Cons c r)
      show ?thesis
      proof (cases "c = CHR ''(''")
        case True
        with 2 Inr Cons show ?thesis by simp
      qed (simp add: Inr Cons)
    qed (simp add: Inr)
  qed simp
next
  case (4 n es s)
  show ?case
  proof (cases "skip_space s")
    case (Inr s1)
    show ?thesis
    proof (cases s1)
      case (Cons c r)
      show ?thesis
      proof (cases "c = CHR '')''")
        case False
        have "read_sexpr n s1 \<noteq> Inl ErrNoFuel" using 4(3) Inr Cons False by auto
        with 4(1) [OF Cons False] have same: "read_sexpr (Suc n) s1 = read_sexpr n s1" .
        show ?thesis
        proof (cases "read_sexpr n s1")
          case (Inl x)
          with same \<open>skip_space s = Inr s1\<close> Cons False show ?thesis by simp
        next
          case (Inr er)
          obtain e r' where er: "er = (e, r')" by (cases er)
          have "read_list n (es @ [e]) r' \<noteq> Inl ErrNoFuel"
            using 4(3) \<open>skip_space s = Inr s1\<close> Cons False Inr er by simp
          with 4(2) [OF Cons False, of e r'] same \<open>skip_space s = Inr s1\<close> Cons False Inr er
          show ?thesis by simp
        qed
      qed (simp add: Inr Cons)
    qed (simp add: Inr)
  qed simp
qed simp_all

lemma reader_settled: "read_sexpr n s \<noteq> Inl ErrNoFuel \<Longrightarrow> n \<le> k \<Longrightarrow> read_sexpr k s = read_sexpr n s"
proof (induction k)
  case (Suc k)
  then show ?case using reader_mono(1) [of k s] by (cases "n = Suc k") auto
qed simp

lemma reads_reply: "reads s e r \<longleftrightarrow> read_reply s = Inr (e, r)"
proof
  assume "reads s e r"
  then obtain N where N: "read_sexpr n s = Inr (e, r)" if "N \<le> n" for n by (auto simp: reads_def)
  have "read_sexpr (max N (2 * length s + 1)) s = read_reply s"
    using reader_settled [of "2 * length s + 1" s] read_reply_total [of s] by (simp add: read_reply_def)
  with N show "read_reply s = Inr (e, r)" by simp
next
  assume "read_reply s = Inr (e, r)"
  then have "read_sexpr k s = Inr (e, r)" if "2 * length s + 1 \<le> k" for k
    using reader_settled [OF _ that] by (simp add: read_reply_def)
  then show "reads s e r" unfolding reads_def by blast
qed

section \<open>Rules of reading\<close>

lemma skip_self: "\<not> smt_space c \<Longrightarrow> c \<noteq> CHR '';'' \<Longrightarrow> skip_space (c # r) = Inr (c # r)"
  by (rule skip_space_simps(4))

lemma reads_SucI:
  assumes "\<And>n. N \<le> n \<Longrightarrow> read_sexpr (Suc n) s = Inr (e, r)"
  shows "reads s e r"
  unfolding reads_def
proof (intro exI allI impI)
  fix n assume "Suc N \<le> n"
  then show "read_sexpr n s = Inr (e, r)" using assms by (cases n) auto
qed

lemma reads_list_SucI:
  assumes "\<And>n. N \<le> n \<Longrightarrow> read_list (Suc n) es s = Inr (e, r)"
  shows "reads_list es s e r"
  unfolding reads_list_def
proof (intro exI allI impI)
  fix n assume "Suc N \<le> n"
  then show "read_list n es s = Inr (e, r)" using assms by (cases n) auto
qed

lemma reads_open:
  assumes "reads_list [] s e r"
  shows "reads (CHR ''('' # s) e r"
proof -
  obtain N where "\<forall>n\<ge>N. read_list n [] s = Inr (e, r)" using assms by (auto simp: reads_list_def)
  then show ?thesis by (intro reads_SucI [of N]) (simp add: skip_self smt_space_def)
qed

lemma reads_close: "reads_list es (CHR '')'' # r) (SList es) r"
  by (rule reads_list_SucI [of 0]) (simp add: skip_self smt_space_def)

lemma reads_list_space: "smt_space c \<Longrightarrow> reads_list es s e r \<Longrightarrow> reads_list es (c # s) e r"
proof -
  assume c: "smt_space c" and s: "reads_list es s e r"
  have "read_list n es (c # s) = read_list n es s" for n
    by (cases n) (simp_all add: skip_space_simps(2) [OF c])
  with s show ?thesis by (simp add: reads_list_def)
qed

lemma reads_list_item:
  assumes "reads (c # s) a r" "\<not> smt_space c" "c \<noteq> CHR '';''" "c \<noteq> CHR '')''" "reads_list (es @ [a]) r e r'"
  shows "reads_list es (c # s) e r'"
proof -
  obtain N where N: "\<forall>n\<ge>N. read_sexpr n (c # s) = Inr (a, r)" using assms(1) by (auto simp: reads_def)
  obtain M where M: "\<forall>n\<ge>M. read_list n (es @ [a]) r = Inr (e, r')" using assms(5) by (auto simp: reads_list_def)
  show ?thesis
    by (rule reads_list_SucI [of "max N M"]) (simp add: skip_self assms N M)
qed

lemma reads_atom:
  assumes "t \<noteq> []" "list_all (\<lambda>c. \<not> ends_atom c) t" "hd t \<noteq> dquote" "hd t \<noteq> bar" "r = [] \<or> ends_atom (hd r)"
  shows "reads (t @ r) (Atom t False) r"
proof -
  obtain c t' where t: "t = c # t'" using assms(1) by (cases t) auto
  have "takeWhile (\<lambda>c. \<not> ends_atom c) (t @ r) = t" "dropWhile (\<lambda>c. \<not> ends_atom c) (t @ r) = r"
    using assms(2,5) by (cases r; auto simp: list_all_iff takeWhile_append dropWhile_append)+
  then have "read_atom (t @ r) = Inr (Atom t False, r)" using assms(1) by (simp add: read_atom_def)
  moreover have "\<not> smt_space c" "c \<noteq> CHR '';''" "c \<noteq> CHR ''(''" "c \<noteq> CHR '')''"
    using assms(2) t by (auto simp: ends_atom_def)
  ultimately show ?thesis
    using assms(3,4) t by (intro reads_SucI [of 0]) (simp add: skip_self)
qed

lemma reads_bars:
  assumes "bar \<notin> set t"
  shows "reads ([bar] @ t @ [bar] @ r) (Atom t False) r"
proof -
  have "takeWhile (\<lambda>c. c \<noteq> bar) (t @ bar # r) = t" "dropWhile (\<lambda>c. c \<noteq> bar) (t @ bar # r) = bar # r"
    using assms by (auto simp: takeWhile_append dropWhile_append)
  then have "read_quoted_symbol (t @ bar # r) = Inr (t, r)" by (simp add: read_quoted_symbol_def)
  then show ?thesis by (intro reads_SucI [of 0]) (simp add: skip_self smt_space_def)
qed

lemma read_string_doubled:
  assumes "r = [] \<or> hd r \<noteq> dquote"
  shows "read_string (double_quotes t @ dquote # r) = Inr (t, r)"
proof (induction t)
  case Nil
  with assms show ?case by (cases r) (simp_all add: double_quotes_def)
next
  case (Cons c t)
  obtain d u where du: "double_quotes t @ dquote # r = d # u" by (cases "double_quotes t") auto
  with Cons show ?case by (cases "c = dquote") (auto simp: double_quotes_def)
qed

lemma reads_string:
  assumes "r = [] \<or> hd r \<noteq> dquote"
  shows "reads ([dquote] @ double_quotes t @ [dquote] @ r) (Atom t True) r"
  using read_string_doubled [OF assms, of t]
  by (intro reads_SucI [of 0]) (simp add: skip_self smt_space_def)

end
