(* ===== verification/Smt_Scripts.thy ===== *)
theory Smt_Scripts
  imports Smt_Roundtrip
begin

text \<open>
  A script means its commands: reading back what the writer writes of a query gives the declarations,
  assertions and objectives the query holds, whatever its names and comments are.
\<close>

section \<open>Text that reads back\<close>

text \<open>A text that reads as an expression before anything that ends an atom.\<close>

definition reads_back :: "string \<Rightarrow> sexpr \<Rightarrow> bool" where
  "reads_back s e \<longleftrightarrow>
     s \<noteq> [] \<and> \<not> smt_space (hd s) \<and> hd s \<noteq> CHR '';'' \<and> hd s \<noteq> CHR '')''
     \<and> (\<forall>r. r = [] \<or> ends_atom (hd r) \<longrightarrow> reads (s @ r) e r)"

lemma reads_backD: "reads_back s e \<Longrightarrow> r = [] \<or> ends_atom (hd r) \<Longrightarrow> reads (s @ r) e r"
  by (auto simp: reads_back_def)

lemma reads_back_atom:
  assumes "t \<noteq> []" "list_all (\<lambda>c. \<not> ends_atom c) t" "hd t \<noteq> dquote" "hd t \<noteq> bar"
  shows "reads_back t (Atom t False)"
proof -
  have "\<not> ends_atom (hd t)" using assms(1,2) by (cases t) auto
  then show ?thesis
    using assms reads_atom [OF assms] by (auto simp: reads_back_def ends_atom_def)
qed

lemma reads_joined:
  "list_all2 reads_back ss xs \<Longrightarrow> reads_list es (join_with '' '' ss @ CHR '')'' # r) (SList (es @ xs)) r"
proof (induction ss xs arbitrary: es rule: list_all2_induct)
  case Nil
  then show ?case using reads_close by simp
next
  case (Cons s ss x xs)
  obtain c s' where s: "s = c # s'" using Cons(1) by (cases s) (auto simp: reads_back_def)
  have rest: "reads_list (es @ [x]) (join_with '' '' ss @ CHR '')'' # r) (SList (es @ x # xs)) r"
    using Cons(3) [of "es @ [x]"] by simp
  show ?case
  proof (cases ss)
    case Nil
    with Cons(2) have xs: "xs = []" by simp
    have "reads (s @ CHR '')'' # r) x (CHR '')'' # r)" by (rule reads_backD [OF Cons(1)]) (simp add: ends_atom_def)
    with Cons(1) rest Nil xs s show ?thesis
      by (auto simp: reads_back_def intro: reads_list_item)
  next
    case (Cons t ts)
    let ?rest = "CHR '' '' # join_with '' '' ss @ CHR '')'' # r"
    have "reads (s @ ?rest) x ?rest"
      by (rule reads_backD [OF \<open>reads_back s x\<close>]) (simp add: ends_atom_def smt_space_def)
    moreover have "reads_list (es @ [x]) ?rest (SList (es @ x # xs)) r"
      by (rule reads_list_space [OF _ rest]) (simp add: smt_space_def)
    ultimately have "reads_list es (s @ ?rest) (SList (es @ x # xs)) r"
      using \<open>reads_back s x\<close> s by (auto simp: reads_back_def intro: reads_list_item)
    then show ?thesis by (simp add: Cons)
  qed
qed

lemma reads_back_list:
  assumes "list_all2 reads_back ss xs"
  shows "reads_back (''('' @ join_with '' '' ss @ '')'') (SList xs)"
  using reads_open [OF reads_joined [OF assms, of "[]", simplified]]
  by (auto simp: reads_back_def smt_space_def)

section \<open>Literals and symbols\<close>

lemma digit_of_char: "k < 10 \<Longrightarrow> (of_char (char_of (48 + k :: nat)) :: int) = 48 + int k"
  by (simp add: of_nat_of_char [where 'a = int, symmetric])

lemma nat_text_digits: "list_all decimal_digit (nat_text n) \<and> nat_text n \<noteq> []"
proof (induction n rule: nat_text.induct)
  case (1 n)
  have "decimal_digit (char_of (48 + k :: nat))" if "k < 10" for k
    using that by (simp add: digit_of_char decimal_digit_def)
  with 1 show ?case by (subst (1 2) nat_text.simps) simp
qed

lemma digit_no_end: "decimal_digit c \<Longrightarrow> \<not> ends_atom c \<and> c \<noteq> dquote \<and> c \<noteq> bar"
  by (auto simp: decimal_digit_def ends_atom_def smt_space_def)

lemma digits_no_end: "list_all decimal_digit s \<Longrightarrow> list_all (\<lambda>c. \<not> ends_atom c) s"
  using digit_no_end by (auto simp: list_all_iff)

lemma reads_back_numeral:
  assumes "list_all (\<lambda>c. \<not> ends_atom c) r"
  shows "reads_back (nat_text n @ r) (Atom (nat_text n @ r) False)"
proof (rule reads_back_atom)
  have d: "list_all decimal_digit (nat_text n)" "nat_text n \<noteq> []" using nat_text_digits [of n] by auto
  then show "list_all (\<lambda>c. \<not> ends_atom c) (nat_text n @ r)" using digits_no_end assms by simp
  from d have "decimal_digit (hd (nat_text n))" by (cases "nat_text n") auto
  with d(2) digit_no_end show "hd (nat_text n @ r) \<noteq> dquote" "hd (nat_text n @ r) \<noteq> bar" by auto
qed (use nat_text_digits [of n] in simp)

lemma symbol_char_no_end: "letter_byte c \<or> decimal_digit c \<or> symbol_punct c \<Longrightarrow> \<not> ends_atom c \<and> c \<noteq> dquote \<and> c \<noteq> bar"
  by (auto simp: letter_byte_def symbol_punct_def decimal_digit_def ends_atom_def smt_space_def)

lemma reads_back_symbol: "reads_back (smt_symbol n) (Atom (escape_name n) False)"
proof (cases "n \<noteq> [] \<and> escape_name n = n \<and> simple_symbol n")
  case True
  then obtain c r where n: "n = c # r" by (cases n) auto
  have ok: "\<not> ends_atom d \<and> d \<noteq> dquote \<and> d \<noteq> bar" if "d \<in> set n" for d
    using True n that symbol_char_no_end [of d] by (auto simp: simple_symbol_def list_all_iff)
  have "reads_back n (Atom n False)"
    using ok n by (intro reads_back_atom) (auto simp: list_all_iff)
  with True show ?thesis by (simp add: smt_symbol_def)
next
  case False
  then have "smt_symbol n = [bar] @ escape_name n @ [bar]" by (auto simp: smt_symbol_def)
  with reads_bars [OF escape_no_bar, of n] show ?thesis
    by (simp add: reads_back_def smt_space_def)
qed

lemma reads_back_string: "reads_back ([dquote] @ double_quotes s @ [dquote]) (Atom s True)"
proof -
  have "reads ([dquote] @ double_quotes s @ [dquote] @ r) (Atom s True) r" if "r = [] \<or> ends_atom (hd r)" for r
    using that by (intro reads_string) (auto simp: ends_atom_def smt_space_def)
  then show ?thesis by (simp add: reads_back_def smt_space_def)
qed

section \<open>Terms\<close>

abbreviation word_atom :: "string \<Rightarrow> sexpr" where "word_atom s \<equiv> Atom s False"

definition int_sexpr :: "int \<Rightarrow> sexpr" where
  "int_sexpr i =
     (if i < 0 then SList [word_atom ''-'', word_atom (nat_text (nat (- i)))] else word_atom (nat_text (nat i)))"

definition magnitude_sexpr :: "rat \<Rightarrow> sexpr" where
  "magnitude_sexpr r =
     (case quotient_of r of (num, den) \<Rightarrow>
        case decimal_digits den of
          Some k \<Rightarrow> word_atom (float_string k num den)
        | None \<Rightarrow> SList [word_atom ''/'', word_atom (int_text num @ ''.0''), word_atom (int_text den @ ''.0'')])"

definition rat_sexpr :: "rat \<Rightarrow> sexpr" where
  "rat_sexpr r = (if r < 0 then SList [word_atom ''-'', magnitude_sexpr (- r)] else magnitude_sexpr r)"

fun term_sexpr :: "smt_term \<Rightarrow> sexpr" where
  "term_sexpr (BoolTerm b) = word_atom (if b then ''true'' else ''false'')"
| "term_sexpr (IntTerm i) = int_sexpr (sint i)"
| "term_sexpr (RealTerm r) = rat_sexpr r"
| "term_sexpr (StringTerm s) = Atom s True"
| "term_sexpr (ValueTerm s v) = word_atom (escape_name v)"
| "term_sexpr (VarTerm v) = word_atom (escape_name (sv_name v))"
| "term_sexpr (Compound op s ts) = SList (word_atom (op_name op) # map term_sexpr ts)"

text \<open>An operator has arguments, and the least 64-bit integer, which negation does not change, is not written.\<close>

fun writable :: "smt_term \<Rightarrow> bool" where
  "writable (IntTerm i) \<longleftrightarrow> sint i \<noteq> - (2 ^ 63)"
| "writable (Compound op s ts) \<longleftrightarrow> ts \<noteq> [] \<and> list_all writable ts"
| "writable t \<longleftrightarrow> True"

lemma reads_back_word:
  "s \<in> {''true'', ''false'', ''-'', ''/'', ''0''} \<Longrightarrow> reads_back s (word_atom s)"
  by (rule reads_back_atom) (auto simp: ends_atom_def smt_space_def)

lemma reads_back_op: "reads_back (op_name op) (word_atom (op_name op))"
  by (rule reads_back_atom) (cases op; simp add: ends_atom_def smt_space_def)+

lemma reads_back_pair:
  assumes "reads_back s x" "reads_back t y"
  shows "reads_back (''('' @ s @ '' '' @ t @ '')'') (SList [x, y])"
  using reads_back_list [of "[s, t]" "[x, y]"] assms by simp

lemma reads_back_triple:
  assumes "reads_back s x" "reads_back t y" "reads_back u z"
  shows "reads_back (''('' @ s @ '' '' @ t @ '' '' @ u @ '')'') (SList [x, y, z])"
  using reads_back_list [of "[s, t, u]" "[x, y, z]"] assms by simp

lemma sint_uminus: "sint (i :: int64) \<noteq> - (2 ^ 63) \<Longrightarrow> sint (- i) = - sint i"
  using signed_take_bit_int_eq_self [of 63 "- sint i"] sint_greater_eq [of i] sint_less [of i]
  by (simp add: sint_word_ariths)

lemma reads_back_int: "sint i \<noteq> - (2 ^ 63) \<Longrightarrow> reads_back (write_int i) (int_sexpr (sint i))"
  using reads_back_numeral [of "[]"] reads_back_pair [OF reads_back_word [of "''-''"]]
  by (auto simp: write_int_def int_sexpr_def int_text_def sint_uminus)

lemma reads_back_float: "reads_back (float_string k num den) (word_atom (float_string k num den))"
proof -
  have "list_all (\<lambda>c. \<not> ends_atom c) (''.'' @ replicate m (CHR ''0'') @ nat_text n)" for m n
    using digits_no_end [of "nat_text n"] nat_text_digits [of n]
    by (simp add: list_all_iff ends_atom_def smt_space_def ball_Un)
  then show ?thesis
    unfolding float_string_def Let_def by (intro reads_back_numeral) simp
qed

lemma reads_back_int_text:
  assumes "0 \<le> i"
  shows "reads_back (int_text i @ ''.0'') (word_atom (int_text i @ ''.0''))"
  using assms reads_back_numeral [of "''.0''" "nat i"] by (simp add: int_text_def ends_atom_def smt_space_def)

lemma reads_back_magnitude:
  assumes "0 \<le> r"
  shows "reads_back (write_magnitude r) (magnitude_sexpr r)"
proof -
  obtain num den where q: "quotient_of r = (num, den)" by (cases "quotient_of r")
  have "0 < den" using quotient_of_denom_pos [OF q] .
  moreover have "0 \<le> num" using assms quotient_of_div [OF q] \<open>0 < den\<close> by (simp add: zero_le_divide_iff)
  ultimately show ?thesis
    using q reads_back_float reads_back_triple [OF reads_back_word [of "''/''"] reads_back_int_text reads_back_int_text]
    by (auto simp: write_magnitude_def magnitude_sexpr_def split: option.split)
qed

lemma reads_back_rat: "reads_back (write_rat r) (rat_sexpr r)"
  using reads_back_magnitude [of r] reads_back_magnitude [of "- r"] reads_back_pair [OF reads_back_word [of "''-''"]]
  by (auto simp: write_rat_def rat_sexpr_def)

lemma reads_back_term: "writable t \<Longrightarrow> reads_back (write_term t) (term_sexpr t)"
proof (induction t)
  case (Compound op s ts)
  have "list_all2 reads_back (op_name op # map write_term ts) (word_atom (op_name op) # map term_sexpr ts)"
    using Compound reads_back_op by (simp add: list_all2_map1 list_all2_map2 list_all_iff list.rel_refl_strong)
  then have "reads_back (''('' @ join_with '' '' (op_name op # map write_term ts) @ '')'') (term_sexpr (Compound op s ts))"
    using reads_back_list by simp
  moreover have "ts \<noteq> []" using Compound by simp
  then have "join_with '' '' (op_name op # map write_term ts) = op_name op @ '' '' @ join_with '' '' (map write_term ts)"
    by (cases ts) simp_all
  ultimately show ?case by simp
qed (use reads_back_word reads_back_int reads_back_rat reads_back_string reads_back_symbol in auto)

section \<open>Comments\<close>

lemma decode_wf_high:
  "decode_wf bs = Some (r, n) \<Longrightarrow> 0x80 \<le> hd bs \<Longrightarrow> b \<in> set (take n bs) \<Longrightarrow> 0x80 \<le> b"
  by (cases bs) (auto simp: is_cont_def split: if_splits list.splits)

lemma decoded_newline:
  assumes "s \<noteq> []" "newline_byte \<in> set (take (snd (decode_rune s)) s)"
  shows "is_space_rune (fst (decode_rune s))"
proof -
  obtain c t where s: "s = c # t" using assms(1) by (cases s) auto
  show ?thesis
  proof (cases "byte_of c < 0x80")
    case True
    then have "decode_rune s = (byte_of c, 1)" using decode_rune_ascii [of s] s by simp
    with assms(2) s show ?thesis by (auto simp: is_space_rune_def)
  next
    case False
    then have c: "c \<noteq> newline_byte" by auto
    have "newline_byte \<notin> set (take (snd (decode_rune s)) s)"
    proof (cases "decode_wf (map byte_of s)")
      case None
      with c s show ?thesis by (simp add: decode_rune_def)
    next
      case (Some rn)
      have "0x80 \<le> byte_of d" if "d \<in> set (take (snd rn) s)" for d
      proof (rule decode_wf_high [of "map byte_of s" "fst rn" "snd rn"])
        show "byte_of d \<in> set (take (snd rn) (map byte_of s))" using that by (simp add: take_map)
      qed (use Some False s in simp_all)
      from this [of newline_byte] Some show ?thesis by (auto simp: decode_rune_def)
    qed
    with assms(2) show ?thesis by simp
  qed
qed

lemma fields_no_newline:
  "newline_byte \<notin> set cur \<Longrightarrow> w \<in> set (fields_from cur s) \<Longrightarrow> newline_byte \<notin> set w"
proof (induction cur s rule: fields_from.induct)
  case (1 cur s)
  show ?case
  proof (cases "s = []")
    case True
    with 1(3,4) show ?thesis by (auto simp: fields_from.simps [of cur "[]"] split: if_splits)
  next
    case False
    obtain r n where rn: "decode_rune s = (r, n)" by (cases "decode_rune s")
    show ?thesis
    proof (cases "is_space_rune r")
      case True
      with 1(1) [OF False rn [symmetric] refl True] 1(3,4) False rn show ?thesis
        by (auto simp: fields_from.simps [of cur s] split: if_splits)
    next
      case other: False
      then have "newline_byte \<notin> set (take n s)" using decoded_newline [OF False] rn by auto
      with 1(2) [OF False rn [symmetric] refl other] 1(3,4) False rn other show ?thesis
        by (auto simp: fields_from.simps [of cur s])
    qed
  qed
qed

lemma join_no_newline: "(\<And>w. w \<in> set ws \<Longrightarrow> newline_byte \<notin> set w) \<Longrightarrow> newline_byte \<notin> set (join_with '' '' ws)"
  by (induction ws rule: induct_list012) auto

lemma comment_no_newline: "newline_byte \<notin> set (smt_comment s)"
  unfolding smt_comment_def by (rule join_no_newline) (rule fields_no_newline [of "[]"], simp_all)

lemma optional_no_newline: "newline_byte \<notin> set p \<Longrightarrow> newline_byte \<notin> set (optional_text p s)"
  by (simp add: optional_text_def comment_no_newline)

lemma role_no_newline: "newline_byte \<notin> set (role_name r)"
  by (cases r) simp_all

lemma direction_no_newline: "newline_byte \<notin> set (direction_name d)"
  by (cases d) simp_all

lemma symbol_no_newline: "newline_byte \<notin> set n \<Longrightarrow> newline_byte \<notin> set (smt_symbol n)"
  by (auto simp: smt_symbol_def escape_name_def escape_char_def split: if_splits)

lemmas no_newline = comment_no_newline optional_no_newline role_no_newline direction_no_newline symbol_no_newline

section \<open>Commands\<close>

text \<open>The commands of a script, comments and white space between them.\<close>

function read_commands :: "string \<Rightarrow> (sexpr_error, sexpr list) res" where
  "read_commands s =
     (case skip_space s of
        Inl x \<Rightarrow> if x = ErrEOF then Inr [] else Inl x
      | Inr s1 \<Rightarrow>
          (case read_reply s1 of
             Inl x \<Rightarrow> Inl x
           | Inr (e, r) \<Rightarrow> bind_res (read_commands r) (\<lambda>es. Inr (e # es))))"
  by pat_completeness auto
termination
proof (relation "measure length", goal_cases)
  case (2 s s1 er e r)
  then show ?case
    using reader_enough(1) [of "2 * length s1 + 1" s1] skip_space_shrinks [of s s1] by (auto simp: read_reply_def)
qed simp

declare read_commands.simps [simp del]

lemma read_commands_Nil: "read_commands [] = Inr []"
  by (simp add: read_commands.simps [of "[]"] skip_space_simps)

lemma read_commands_skip:
  assumes "skip_space s = skip_space t"
  shows "read_commands s = read_commands t"
  using assms by (simp add: read_commands.simps [of s] read_commands.simps [of t])

lemma commands_newline: "read_commands (newline_byte # rest) = read_commands rest"
  by (rule read_commands_skip) (simp add: skip_space_simps smt_space_def)

lemma commands_comment:
  assumes "newline_byte \<notin> set body"
  shows "read_commands (line (CHR '';'' # body) @ rest) = read_commands rest"
proof -
  have "dropWhile (\<lambda>d. d \<noteq> newline_byte) (body @ newline_byte # rest) = newline_byte # rest"
    using assms by (auto simp: dropWhile_append)
  then show ?thesis
    by (intro read_commands_skip) (simp add: line_def skip_space_simps(3))
qed

lemma commands_command:
  assumes "reads_back s e" "read_commands rest = Inr es"
  shows "read_commands (line s @ rest) = Inr (e # es)"
proof -
  obtain c s' where s: "s = c # s'" "\<not> smt_space c" "c \<noteq> CHR '';''"
    using assms(1) by (cases s) (auto simp: reads_back_def)
  have "reads (s @ newline_byte # rest) e (newline_byte # rest)"
    by (rule reads_backD [OF assms(1)]) (simp add: ends_atom_def smt_space_def)
  then have "read_reply (line s @ rest) = Inr (e, newline_byte # rest)" by (simp add: reads_reply line_def)
  moreover have "skip_space (line s @ rest) = Inr (line s @ rest)" using s by (simp add: line_def skip_self)
  ultimately show ?thesis
    by (simp add: read_commands.simps [of "line s @ rest"] commands_newline assms(2))
qed

end
