(* ===== verification/Smt_Properties.thy ===== *)
theory Smt_Properties
  imports Smt_Scripts
begin

text \<open>
  What a script commands, and the properties of symbols, scripts, model values and division.
\<close>

section \<open>The commands of a query\<close>

definition symbol_sexpr :: "string \<Rightarrow> sexpr" where
  "symbol_sexpr n = word_atom (escape_name n)"

definition command :: "string \<Rightarrow> sexpr list \<Rightarrow> sexpr" where
  "command c args = SList (word_atom c # args)"

definition sort_command :: "smt_sort \<Rightarrow> sexpr" where
  "sort_command s = command ''declare-datatypes''
     [SList [SList [symbol_sexpr (so_name s), word_atom ''0'']],
      SList [SList (map (\<lambda>v. SList [symbol_sexpr v]) (so_values s))]]"

definition var_command :: "smt_var \<Rightarrow> sexpr" where
  "var_command v = command ''declare-const'' [symbol_sexpr (sv_name v), symbol_sexpr (so_name (sv_sort v))]"

definition assertion_commands :: "script_options \<Rightarrow> nat \<times> smt_term \<times> provenance \<Rightarrow> sexpr list" where
  "assertion_commands opts a = (case a of (i, t, p) \<Rightarrow>
     if \<not> asserts opts i then []
     else if op_labelled opts
     then [command ''assert'' [command [bang] [term_sexpr t, word_atom '':named'', word_atom (core_label i)]]]
     else [command ''assert'' [term_sexpr t]])"

definition objective_command :: "objective \<Rightarrow> sexpr" where
  "objective_command ob = command (direction_name (ob_direction ob)) [term_sexpr (ob_term ob)]"

definition script_commands :: "smt_query \<Rightarrow> script_options \<Rightarrow> sexpr list" where
  "script_commands q opts =
     (if op_core opts then [command ''set-option'' [word_atom '':produce-unsat-cores'', word_atom ''true'']] else [])
     @ (if optimizes q then [command ''set-option'' [word_atom '':opt.priority'', word_atom ''lex'']] else [])
     @ [command ''set-logic'' [word_atom (lo_name (logic_choice_of q))]]
     @ map sort_command (q_sorts q)
     @ map var_command (q_vars q)
     @ concat (map (assertion_commands opts) (List.enumerate 0 (q_assertions q)))
     @ map objective_command (q_objectives q)
     @ [command ''check-sat'' []]
     @ (if op_request opts then [command ''get-unsat-core'' []] else [])"

text \<open>
  What the writer needs of a query: terms it can write, and no line break in the texts a comment shows
  as they are, the kinds and the names of the declared sorts.
\<close>

definition script_ready :: "smt_query \<Rightarrow> bool" where
  "script_ready q \<longleftrightarrow>
     newline_byte \<notin> set (q_kind q) \<and> list_all (\<lambda>s. newline_byte \<notin> set (so_name s)) (q_sorts q)
     \<and> list_all (\<lambda>(t, p). writable t \<and> newline_byte \<notin> set (pv_kind p)) (q_assertions q)
     \<and> list_all (\<lambda>ob. writable (ob_term ob)) (q_objectives q)"

section \<open>Lines\<close>

lemma reads_back_plain:
  "s \<noteq> [] \<Longrightarrow> list_all (\<lambda>c. letter_byte c \<or> symbol_punct c \<or> decimal_digit c \<or> c = CHR '':'') s \<Longrightarrow> reads_back s (word_atom s)"
proof (rule reads_back_atom)
  assume a: "s \<noteq> []" "list_all (\<lambda>c. letter_byte c \<or> symbol_punct c \<or> decimal_digit c \<or> c = CHR '':'') s"
  have colon: "\<not> ends_atom (CHR '':'')" by (simp add: ends_atom_def smt_space_def)
  have "\<not> ends_atom c \<and> c \<noteq> dquote \<and> c \<noteq> bar" if "c \<in> set s" for c
  proof (cases "c = CHR '':''")
    case False
    with a(2) that show ?thesis by (intro symbol_char_no_end) (auto simp: list_all_iff)
  qed (use colon in simp)
  with a(1) show "list_all (\<lambda>c. \<not> ends_atom c) s" "hd s \<noteq> dquote" "hd s \<noteq> bar"
    by (simp_all add: list_all_iff)
qed

lemmas plain_chars = letter_byte_def symbol_punct_def decimal_digit_def

lemma reads_back_command:
  assumes "reads_back c (word_atom c)" "list_all2 reads_back ss xs"
  shows "reads_back (''('' @ join_with '' '' (c # ss) @ '')'') (command c xs)"
  using reads_back_list [of "c # ss" "word_atom c # xs"] assms by (simp add: command_def)

lemma reads_back_label: "reads_back (core_label i) (word_atom (core_label i))"
proof (rule reads_back_plain)
  show "list_all (\<lambda>c. letter_byte c \<or> symbol_punct c \<or> decimal_digit c \<or> c = CHR '':'') (core_label i)"
    using nat_text_digits [of i] by (auto simp: core_label_def core_label_prefix_def plain_chars list_all_iff)
qed (simp add: core_label_def core_label_prefix_def)

lemma logic_name_plain: "reads_back (lo_name (logic_of_features f)) (word_atom (lo_name (logic_of_features f)))"
  by (rule reads_back_plain) (simp_all add: logic_of_features_def standard_logic_def plain_chars)

lemma logic_no_newline: "newline_byte \<notin> set (lo_name (logic_of_features f))"
  by (simp add: logic_of_features_def standard_logic_def)

lemma read_sort:
  assumes "newline_byte \<notin> set (so_name s)" "read_commands rest = Inr es"
  shows "read_commands (write_sort s @ rest) = Inr (sort_command s # es)"
proof -
  let ?name = "''('' @ join_with '' '' [sort_string s, ''0''] @ '')''"
  let ?vals = "''('' @ join_with '' '' (map (\<lambda>v. ''('' @ join_with '' '' [smt_symbol v] @ '')'') (so_values s)) @ '')''"
  have name: "reads_back ?name (SList [symbol_sexpr (so_name s), word_atom ''0''])"
    by (rule reads_back_list) (simp add: sort_string_def symbol_sexpr_def reads_back_symbol reads_back_word)
  have "reads_back (''('' @ join_with '' '' [smt_symbol v] @ '')'') (SList [symbol_sexpr v])" for v
    by (rule reads_back_list) (simp add: symbol_sexpr_def reads_back_symbol)
  then have "reads_back ?vals (SList (map (\<lambda>v. SList [symbol_sexpr v]) (so_values s)))"
    by (intro reads_back_list) (simp add: list_all2_map1 list_all2_map2 list.rel_refl)
  then have "reads_back (''('' @ join_with '' '' [?vals] @ '')'') (SList [SList (map (\<lambda>v. SList [symbol_sexpr v]) (so_values s))])"
    by (intro reads_back_list) simp
  moreover have "reads_back (''('' @ join_with '' '' [?name] @ '')'') (SList [SList [symbol_sexpr (so_name s), word_atom ''0'']])"
    using name by (intro reads_back_list) simp
  moreover have "reads_back ''declare-datatypes'' (word_atom ''declare-datatypes'')"
    by (rule reads_back_plain) (simp_all add: plain_chars)
  ultimately have "reads_back
      (''('' @ join_with '' '' [''declare-datatypes'', ''('' @ join_with '' '' [?name] @ '')'', ''('' @ join_with '' '' [?vals] @ '')''] @ '')'')
      (sort_command s)"
    unfolding sort_command_def by (intro reads_back_command) simp_all
  from commands_command [OF this assms(2)] show ?thesis
    using assms(1) commands_comment [of "'' '' @ sort_string s @ '' of '' @ smt_comment (so_origin s)"]
    by (simp add: write_sort_def sort_string_def no_newline)
qed

lemma read_var:
  assumes "read_commands rest = Inr es"
  shows "read_commands (write_var v @ rest) = Inr (var_command v # es)"
proof -
  have "reads_back ''declare-const'' (word_atom ''declare-const'')"
    by (rule reads_back_plain) (simp_all add: plain_chars)
  then have "reads_back (''('' @ join_with '' '' [''declare-const'', smt_symbol (sv_name v), sort_string (sv_sort v)] @ '')'') (var_command v)"
    unfolding var_command_def by (intro reads_back_command) (simp_all add: sort_string_def symbol_sexpr_def reads_back_symbol)
  from commands_command [OF this assms] show ?thesis
    using commands_comment [of "'' '' @ var_comment v"]
    by (simp add: write_var_def var_comment_def no_newline)
qed

lemma assertion_no_newline: "newline_byte \<notin> set (pv_kind p) \<Longrightarrow> newline_byte \<notin> set (assertion_comment p)"
  by (simp add: assertion_comment_def no_newline)

lemma read_assertion:
  assumes "writable t" "newline_byte \<notin> set (pv_kind p)" "read_commands rest = Inr es"
  shows "read_commands (write_assertion opts (i, t, p) @ rest) = Inr (assertion_commands opts (i, t, p) @ es)"
proof -
  have c: "reads_back ''assert'' (word_atom ''assert'')" "reads_back [bang] (word_atom [bang])"
    "reads_back '':named'' (word_atom '':named'')"
    by (rule reads_back_plain; simp add: plain_chars)+
  have t: "reads_back (write_term t) (term_sexpr t)" by (rule reads_back_term [OF assms(1)])
  have "reads_back (''('' @ join_with '' '' [''assert'', write_term t] @ '')'') (command ''assert'' [term_sexpr t])"
    using c t by (intro reads_back_command) simp_all
  note plain = commands_command [OF this assms(3)]
  have "reads_back (''('' @ join_with '' '' [[bang], write_term t, '':named'', core_label i] @ '')'')
      (command [bang] [term_sexpr t, word_atom '':named'', word_atom (core_label i)])"
    using c t reads_back_label by (intro reads_back_command) simp_all
  then have "reads_back (''('' @ join_with '' '' [''assert'', ''('' @ join_with '' '' [[bang], write_term t, '':named'', core_label i] @ '')''] @ '')'')
      (command ''assert'' [command [bang] [term_sexpr t, word_atom '':named'', word_atom (core_label i)]])"
    using c by (intro reads_back_command) simp_all
  note labelled = commands_command [OF this assms(3)]
  show ?thesis
    using plain labelled assms(3) commands_comment [of "'' '' @ assertion_comment p"] assertion_no_newline [OF assms(2)]
    by (simp add: write_assertion_def assertion_commands_def)
qed

lemma objective_no_newline: "newline_byte \<notin> set (objective_comment ob)"
  by (simp add: objective_comment_def no_newline)

lemma read_objective:
  assumes "writable (ob_term ob)" "read_commands rest = Inr es"
  shows "read_commands (write_objective ob @ rest) = Inr (objective_command ob # es)"
proof -
  have "reads_back (direction_name d) (word_atom (direction_name d))" for d
    by (rule reads_back_plain) (cases d; simp add: plain_chars)+
  then have "reads_back (''('' @ join_with '' '' [direction_name (ob_direction ob), write_term (ob_term ob)] @ '')'') (objective_command ob)"
    unfolding objective_command_def using reads_back_term [OF assms(1)] by (intro reads_back_command) simp_all
  from commands_command [OF this assms(2)] show ?thesis
    using commands_comment [of "'' '' @ objective_comment ob"]
    by (simp add: write_objective_def objective_no_newline)
qed

lemma read_each:
  assumes "\<And>x rest es. x \<in> set xs \<Longrightarrow> read_commands rest = Inr es \<Longrightarrow> read_commands (w x @ rest) = Inr (c x @ es)"
    "read_commands rest = Inr es"
  shows "read_commands (concat (map w xs) @ rest) = Inr (concat (map c xs) @ es)"
  using assms by (induction xs) simp_all

lemma read_preamble:
  assumes "newline_byte \<notin> set (q_kind q)" "read_commands rest = Inr es"
  shows "read_commands (write_preamble q opts @ rest) =
    Inr ((if op_core opts then [command ''set-option'' [word_atom '':produce-unsat-cores'', word_atom ''true'']] else [])
      @ (if optimizes q then [command ''set-option'' [word_atom '':opt.priority'', word_atom ''lex'']] else [])
      @ command ''set-logic'' [word_atom (lo_name (logic_choice_of q))] # es)"
proof -
  have logic: "read_commands (line (''(set-logic '' @ lo_name (logic_choice_of q) @ '')'') @ rest)
      = Inr (command ''set-logic'' [word_atom (lo_name (logic_choice_of q))] # es)"
  proof -
    have "reads_back ''set-logic'' (word_atom ''set-logic'')"
      by (rule reads_back_plain) (simp_all add: plain_chars)
    then have "reads_back (''('' @ join_with '' '' [''set-logic'', lo_name (logic_choice_of q)] @ '')'')
        (command ''set-logic'' [word_atom (lo_name (logic_choice_of q))])"
      using logic_name_plain by (intro reads_back_command) (simp_all add: logic_choice_of_def)
    from commands_command [OF this assms(2)] show ?thesis by simp
  qed
  have option: "read_commands (line (''(set-option '' @ k @ '' '' @ v @ '')'') @ r)
      = Inr (command ''set-option'' [word_atom k, word_atom v] # fs)"
    if "reads_back k (word_atom k)" "reads_back v (word_atom v)" "read_commands r = Inr fs" for k v r fs
  proof -
    have "reads_back ''set-option'' (word_atom ''set-option'')"
      by (rule reads_back_plain) (simp_all add: plain_chars)
    then have "reads_back (''('' @ join_with '' '' [''set-option'', k, v] @ '')'') (command ''set-option'' [word_atom k, word_atom v])"
      using that by (intro reads_back_command) simp_all
    from commands_command [OF this that(3)] show ?thesis by simp
  qed
  have words: "reads_back '':produce-unsat-cores'' (word_atom '':produce-unsat-cores'')"
    "reads_back '':opt.priority'' (word_atom '':opt.priority'')" "reads_back ''lex'' (word_atom ''lex'')"
    by (rule reads_back_plain; simp add: plain_chars)+
  have skip: "newline_byte \<notin> set body \<Longrightarrow> read_commands (line (CHR '';'' # body) @ r) = read_commands r" for body r
    by (rule commands_comment)
  have optimizing: "read_commands (line ''(set-option :opt.priority lex)'' @ r)
      = Inr (command ''set-option'' [word_atom '':opt.priority'', word_atom ''lex''] # fs)"
    if "read_commands r = Inr fs" for r fs
    using option [OF words(2,3) that] by simp
  have core: "read_commands (line ''(set-option :produce-unsat-cores true)'' @ r)
      = Inr (command ''set-option'' [word_atom '':produce-unsat-cores'', word_atom ''true''] # fs)"
    if "read_commands r = Inr fs" for r fs
    using option [OF words(1) reads_back_word that, of "''true''"] by simp
  show ?thesis
    unfolding write_preamble_def
    using assms(1) logic
    by (auto simp: skip core optimizing no_newline logic_choice_of_def logic_no_newline)
qed

text \<open>The lines after the assertions: the objectives, the check, and what an unsat core is asked with.\<close>

definition closing_commands :: "smt_query \<Rightarrow> script_options \<Rightarrow> sexpr list" where
  "closing_commands q opts =
     concat (map (\<lambda>ob. [objective_command ob]) (q_objectives q))
     @ command ''check-sat'' [] # (if op_request opts then [command ''get-unsat-core'' []] else [])"

definition closing_lines :: "smt_query \<Rightarrow> script_options \<Rightarrow> string" where
  "closing_lines q opts =
     concat (map write_objective (q_objectives q)) @ line ''(check-sat)'' @ (if op_request opts then line ''(get-unsat-core)'' else [])"

lemma read_closing:
  assumes "\<And>ob. ob \<in> set (q_objectives q) \<Longrightarrow> writable (ob_term ob)"
  shows "read_commands (closing_lines q opts) = Inr (closing_commands q opts)"
proof -
  have simple: "reads_back (''('' @ join_with '' '' [c] @ '')'') (command c [])" if "reads_back c (word_atom c)" for c
    using reads_back_command [of c "[]" "[]"] that by simp
  have "reads_back ''get-unsat-core'' (word_atom ''get-unsat-core'')" "reads_back ''check-sat'' (word_atom ''check-sat'')"
    by (rule reads_back_plain; simp add: plain_chars)+
  note ends = simple [OF this(1)] simple [OF this(2)]
  let ?request = "if op_request opts then line ''(get-unsat-core)'' else []"
  let ?closing = "(if op_request opts then [command ''get-unsat-core'' []] else [])"
  have 0: "read_commands ?request = Inr ?closing"
    using commands_command [OF ends(1) read_commands_Nil] by (simp add: read_commands_Nil)
  have 1: "read_commands (line ''(check-sat)'' @ ?request) = Inr (command ''check-sat'' [] # ?closing)"
    using commands_command [OF ends(2) 0] by simp
  show ?thesis
    unfolding closing_lines_def closing_commands_def
    using assms by (intro read_each [OF _ 1]) (simp add: read_objective)
qed

lemma read_assertions:
  assumes "\<And>t p. (t, p) \<in> set (q_assertions q) \<Longrightarrow> writable t \<and> newline_byte \<notin> set (pv_kind p)"
    "read_commands rest = Inr es"
  shows "read_commands (concat (map (write_assertion opts) (List.enumerate 0 (q_assertions q))) @ rest)
    = Inr (concat (map (assertion_commands opts) (List.enumerate 0 (q_assertions q))) @ es)"
proof (rule read_each [OF _ assms(2)])
  fix a rest es
  assume a: "a \<in> set (List.enumerate 0 (q_assertions q))" and r: "read_commands rest = Inr es"
  obtain i t p where itp: "a = (i, t, p)" by (cases a) auto
  with a have "(t, p) \<in> set (q_assertions q)" by (auto simp: enumerate_eq_zip dest: set_zip_rightD)
  with assms(1) r itp show "read_commands (write_assertion opts a @ rest) = Inr (assertion_commands opts a @ es)"
    by (simp add: read_assertion)
qed

text \<open>
  C20. A script means its commands. Whatever names, units, locations and conditions a query holds, reading
  the script written for it with the reader of solver replies gives exactly the options, the logic, the
  declarations, the assertions selected and the objectives of the query, in order: no name, string or
  comment breaks out of its place. The least 64-bit integer and a line break in the name of a declared
  sort are the exceptions, which the hypothesis leaves out.
\<close>

theorem script_reads_back:
  assumes "script_ready q"
  shows "read_commands (write_script q opts) = Inr (script_commands q opts)"
proof -
  have q: "newline_byte \<notin> set (q_kind q)" "\<And>s. s \<in> set (q_sorts q) \<Longrightarrow> newline_byte \<notin> set (so_name s)"
    "\<And>t p. (t, p) \<in> set (q_assertions q) \<Longrightarrow> writable t \<and> newline_byte \<notin> set (pv_kind p)"
    "\<And>ob. ob \<in> set (q_objectives q) \<Longrightarrow> writable (ob_term ob)"
    using assms by (auto simp: script_ready_def list_all_iff)
  note 1 = read_assertions [OF q(3) read_closing [OF q(4), where opts = opts], where opts = opts]
  let ?assertions = "concat (map (write_assertion opts) (List.enumerate 0 (q_assertions q))) @ closing_lines q opts"
  let ?asserted = "concat (map (assertion_commands opts) (List.enumerate 0 (q_assertions q))) @ closing_commands q opts"
  have 2: "read_commands (concat (map write_var (q_vars q)) @ ?assertions)
      = Inr (concat (map (\<lambda>v. [var_command v]) (q_vars q)) @ ?asserted)"
    by (intro read_each [OF _ 1]) (simp add: read_var)
  have 3: "read_commands (concat (map write_sort (q_sorts q)) @ concat (map write_var (q_vars q)) @ ?assertions)
      = Inr (concat (map (\<lambda>s. [sort_command s]) (q_sorts q)) @ concat (map (\<lambda>v. [var_command v]) (q_vars q)) @ ?asserted)"
    using q(2) by (intro read_each [OF _ 2]) (simp add: read_sort)
  show ?thesis
    unfolding write_script_def
    using read_preamble [OF q(1) 3] by (simp add: script_commands_def closing_lines_def closing_commands_def concat_map_singleton)
qed

text \<open>An enumeration whose literals need quoting, a variable of it, one assertion and no objective.\<close>

definition colour_sort :: smt_sort where
  "colour_sort = \<lparr>so_kind = SortDatatype, so_name = ''Paint colour'', so_values = [''red'', ''1|2''],
     so_origin = ''P::Colour'', so_variation = False\<rparr>"

definition colour_query :: smt_query where
  "colour_query =
     \<lparr>q_kind = ''constraint'', q_element = ''P::c'', q_negated = False, q_sorts = [colour_sort],
      q_vars = [\<lparr>sv_name = ''P::c::paint'', sv_sort = colour_sort, sv_dimension = [], sv_unit = [], sv_location = []\<rparr>],
      q_assertions = [(BoolTerm True,
         \<lparr>pv_kind = ''constraint'', pv_element = ''P::c'', pv_condition = ''true'', pv_role = RoleRequired,
          pv_declared = ''P::c'', pv_location = []\<rparr>)],
      q_nonlinear = False, q_integer_division = False, q_pinned = [], q_objectives = []\<rparr>"

theorem script_reads_back_witness:
  "read_commands (write_script colour_query plain_script) = Inr (script_commands colour_query plain_script)"
  by (rule script_reads_back) (simp add: script_ready_def colour_query_def colour_sort_def)

text \<open>
  Outside the hypotheses. The least integer is written with two signs, an atom after the minus that is not a
  numeral; a line break in a sort's name ends the comment before it, and the rest of the name is read.
\<close>

theorem least_integer_text: "write_term (IntTerm (word_of_int (- (2 ^ 63)))) = ''(- -9223372036854775808)''"
  by (simp add: write_int_def int_text_def nat_text.simps char_of_def bit_Suc_0_iff)

end
