(* ===== verification/Smt_Values.thy ===== *)
theory Smt_Values
  imports Smt_Scripts "HOL-Library.Signed_Division"
begin

text \<open>
  Numbers between a script and a model: a rational written for the solver is the rational read of it,
  exactly.
\<close>

section \<open>Digits\<close>

definition digits_code :: "string \<Rightarrow> int" where
  "digits_code s = fold (\<lambda>c n. 10 * n + digit_code c) s 0"

lemma digit_code_decimal: "decimal_digit c \<Longrightarrow> 0 \<le> digit_code c \<and> digit_code c < 10"
  by (simp add: digit_code_def decimal_digit_def Let_def)

lemma digit_code_text: "k < 10 \<Longrightarrow> digit_code (char_of (48 + k :: nat)) = int k"
  by (simp add: digit_code_def Let_def digit_of_char)

lemma fold_digits: "fold (\<lambda>c n. 10 * n + digit_code c) s a = a * 10 ^ length s + digits_code s"
proof (induction s arbitrary: a)
  case Nil
  then show ?case by (simp add: digits_code_def)
next
  case (Cons c s)
  have "digits_code (c # s) = digit_code c * 10 ^ length s + digits_code s"
    using Cons [of "digit_code c"] by (simp add: digits_code_def)
  moreover have "fold (\<lambda>c n. 10 * n + digit_code c) (c # s) a = (10 * a + digit_code c) * 10 ^ length s + digits_code s"
    using Cons [of "10 * a + digit_code c"] by simp
  ultimately show ?case by (simp add: distrib_right)
qed

lemma digits_code_append: "digits_code (s @ t) = digits_code s * 10 ^ length t + digits_code t"
  using fold_digits [of t "digits_code s"] by (simp add: digits_code_def)

lemma digits_code_text: "digits_code (nat_text n) = int n"
proof (induction n rule: nat_text.induct)
  case (1 n)
  show ?case
  proof (cases "n < 10")
    case True
    then show ?thesis by (simp add: nat_text.simps [of n] digits_code_def digit_code_text)
  next
    case False
    have "digits_code [char_of (48 + n mod 10)] = int (n mod 10)"
      by (simp add: digits_code_def digit_code_text)
    then have "digits_code (nat_text n) = int (n div 10) * 10 + int (n mod 10)"
      using 1 [OF False] False by (subst nat_text.simps) (simp add: digits_code_append)
    also have "\<dots> = int (n div 10 * 10 + n mod 10)" by (simp only: of_nat_add of_nat_mult of_nat_numeral)
    finally show ?thesis by (simp only: div_mult_mod_eq)
  qed
qed

lemma digits_code_zeros: "digits_code (replicate n (CHR ''0'')) = 0"
  by (induction n) (simp_all add: digits_code_def digit_code_def)

lemma nat_text_length: "0 < k \<Longrightarrow> n < 10 ^ k \<Longrightarrow> length (nat_text n) \<le> k"
proof (induction k arbitrary: n)
  case (Suc k)
  show ?case
  proof (cases "n < 10")
    case False
    then have "n div 10 < 10 ^ k" "0 < k" using Suc(3) by (cases k; auto simp: less_mult_imp_div_less)+
    with Suc(1) [of "n div 10"] show ?thesis by (subst nat_text.simps) simp
  qed (simp add: nat_text.simps [of n])
qed simp

lemma nat_text_hd: "hd (nat_text n) = CHR ''0'' \<longleftrightarrow> n = 0"
proof (induction n rule: nat_text.induct)
  case (1 n)
  show ?case
  proof (cases "n < 10")
    case True
    have "(char_of (48 + n) :: char) = CHR ''0'' \<longleftrightarrow> (of_char (char_of (48 + n) :: char) :: int) = of_char (CHR ''0'')"
      by (simp only: of_char_eq_iff)
    with True show ?thesis by (simp add: nat_text.simps [of n] digit_of_char)
  next
    case False
    with 1 [OF False] nat_text_digits [of "n div 10"] show ?thesis
      by (simp add: nat_text.simps [of n])
  qed
qed

section \<open>Reading decimals\<close>

definition after_digits :: "string \<Rightarrow> mantissa \<Rightarrow> mantissa" where
  "after_digits ds m = (if ds = [] then m else
     m\<lparr>ma_prev := CHR ''0'', ma_count := ma_count m + length ds, ma_value := ma_value m * 10 ^ length ds + digits_code ds\<rparr>)"

lemma scan_digits:
  "list_all decimal_digit ds \<Longrightarrow> scan_mantissa 10 m (ds @ r) = scan_mantissa 10 (after_digits ds m) r"
proof (induction ds arbitrary: m)
  case Nil
  then show ?case by (simp add: after_digits_def)
next
  case (Cons c ds)
  have c: "digit_code c < 10" "c \<noteq> CHR ''.''" "c \<noteq> CHR ''_''"
    using Cons(2) digit_code_decimal [of c] by (auto simp: decimal_digit_def)
  let ?m = "m\<lparr>ma_prev := CHR ''0'', ma_count := Suc (ma_count m), ma_value := 10 * ma_value m + digit_code c\<rparr>"
  have "after_digits ds ?m = after_digits (c # ds) m"
    using fold_digits [of ds "digit_code c"]
    by (auto simp: after_digits_def digits_code_def algebra_simps)
  with Cons c show ?case by simp
qed

lemma scan_point:
  "ma_point m = None \<Longrightarrow> ma_prev m = CHR ''0'' \<Longrightarrow>
    scan_mantissa b m (CHR ''.'' # r) = scan_mantissa b (m\<lparr>ma_prev := CHR ''.'', ma_point := Some (ma_count m)\<rparr>) r"
  by simp

text \<open>A decimal: the text of a number, a point, and some digits.\<close>

lemma base_prefix_other: "c \<noteq> CHR ''0'' \<Longrightarrow> base_prefix (c # r) = (10, CHR ''.'', 0, c # r)"
  by (cases c) (auto simp: base_prefix_def split: bool.split)

lemma base_prefix_text:
  "base_prefix (nat_text n @ CHR ''.'' # r) =
    (if n = 0 then (10, CHR ''0'', 1, CHR ''.'' # r) else (10, CHR ''.'', 0, nat_text n @ CHR ''.'' # r))"
proof (cases "n = 0")
  case True
  have "(char_of (48 :: nat) :: char) = CHR ''0''" using char_of_char [of "CHR ''0''", where 'a = nat] by simp
  with True show ?thesis by (simp add: nat_text.simps [of 0] base_prefix_def)
next
  case False
  obtain c t where t: "nat_text n = c # t" using nat_text_digits [of n] by (cases "nat_text n") auto
  with False nat_text_hd [of n] have "c \<noteq> CHR ''0''" by simp
  with t False show ?thesis by (simp add: base_prefix_other)
qed

lemma scan_decimal:
  assumes "list_all decimal_digit fs" "fs \<noteq> []"
  shows "\<exists>b p k u m. base_prefix (nat_text n @ CHR ''.'' # fs) = (b, p, k, u) \<and> b = 10
    \<and> scan_mantissa b (mantissa_start p k) u = (m, [])
    \<and> ma_value m = int n * 10 ^ length fs + digits_code fs \<and> ma_prev m = CHR ''0'' \<and> \<not> ma_misplaced m
    \<and> (\<exists>i. ma_point m = Some i \<and> ma_count m = i + length fs)"
proof (cases "n = 0")
  case True
  then show ?thesis
    using assms scan_digits [of fs _ "[]"]
    by (auto simp: base_prefix_text mantissa_start_def after_digits_def)
next
  case False
  have d: "list_all decimal_digit (nat_text n)" "nat_text n \<noteq> []" using nat_text_digits by auto
  have "scan_mantissa 10 (mantissa_start (CHR ''.'') 0) (nat_text n @ CHR ''.'' # fs)
      = scan_mantissa 10 (after_digits (nat_text n) (mantissa_start (CHR ''.'') 0)) (CHR ''.'' # fs)"
    by (rule scan_digits [OF d(1)])
  then show ?thesis
    using assms False scan_digits [of fs _ "[]"] d(2)
    by (auto simp: base_prefix_text mantissa_start_def after_digits_def digits_code_text)
qed

lemma sign_of_other: "c \<noteq> CHR ''+'' \<Longrightarrow> c \<noteq> CHR ''-'' \<Longrightarrow> sign_of (c # r) = (False, c # r)"
  by (cases c) (auto simp: sign_of_def split: bool.split)

lemma set_string_decimal:
  assumes "list_all decimal_digit fs" "fs \<noteq> []" "length fs \<le> 1000000"
  shows "set_string (nat_text n @ CHR ''.'' # fs) = Some (of_int (int n * 10 ^ length fs + digits_code fs) / 10 ^ length fs)"
proof -
  obtain c t where t: "nat_text n = c # t" "decimal_digit c" using nat_text_digits [of n] by (cases "nat_text n") auto
  then have "c \<noteq> CHR ''+''" "c \<noteq> CHR ''-''" by (auto simp: decimal_digit_def)
  with t have sign: "sign_of (nat_text n @ CHR ''.'' # fs) = (False, nat_text n @ CHR ''.'' # fs)"
    by (simp add: sign_of_other)
  obtain p k u m where s: "base_prefix (nat_text n @ CHR ''.'' # fs) = (10, p, k, u)"
      "scan_mantissa 10 (mantissa_start p k) u = (m, [])"
      "ma_value m = int n * 10 ^ length fs + digits_code fs" "ma_prev m = CHR ''0''" "\<not> ma_misplaced m"
      "\<exists>i. ma_point m = Some i \<and> ma_count m = i + length fs"
    using scan_decimal [OF assms(1,2)] by metis
  then obtain i where i: "ma_point m = Some i" "ma_count m = i + length fs" by blast
  have ten: "(10 :: rat) ^ length fs = 5 ^ length fs * 2 ^ length fs" by (simp add: power_mult_distrib [symmetric])
  have "scaled_value 10 (ma_value m) (- int (length fs)) (True, 0) = Some (of_int (ma_value m) / 10 ^ length fs)"
    using assms(2,3) by (auto simp: scaled_value_def rat_power_def ten Let_def)
  then show ?thesis
    using s i sign assms(2) by (simp add: set_string_def exponent_of_def)
qed

section \<open>Exact decimals\<close>

lemma divide_out_product: "1 < p \<Longrightarrow> 0 < n \<Longrightarrow> divide_out p n = (k, m) \<Longrightarrow> n = p ^ k * m \<and> 0 < m"
proof (induction p n arbitrary: k m rule: divide_out.induct)
  case (1 p n)
  show ?case
  proof (cases "n mod p = 0")
    case False
    with 1(2-4) show ?thesis by (simp add: divide_out.simps [of p n])
  next
    case True
    obtain j m' where d: "divide_out p (n div p) = (j, m')" by (cases "divide_out p (n div p)")
    have n: "n = p * (n div p)" using True by (metis mod_0_imp_dvd dvd_mult_div_cancel)
    then have "0 < n div p" using 1(2,3) by (metis zero_less_mult_pos order_less_trans zero_less_one)
    with 1(1) [OF _ 1(2) _ d] True 1(2,3) have "n div p = p ^ j * m' \<and> 0 < m'" by blast
    moreover have "k = Suc j" "m = m'" using 1(2-4) True d by (simp_all add: divide_out.simps [of p n])
    ultimately show ?thesis using n by simp
  qed
qed

lemma decimal_digits_dvd:
  assumes "0 < den" "decimal_digits den = Some k"
  shows "den dvd 10 ^ k" "0 < k"
proof -
  obtain a r1 where a: "divide_out 2 den = (a, r1)" by (cases "divide_out 2 den")
  obtain b r2 where b: "divide_out 5 r1 = (b, r2)" by (cases "divide_out 5 r1")
  have k: "r2 = 1" "k = max (max a b) 1" using assms(2) a b by (auto simp: decimal_digits_def split: if_splits)
  have "den = 2 ^ a * r1" "r1 = 5 ^ b * r2"
    using divide_out_product [OF _ assms(1) a] divide_out_product [OF _ _ b] by auto
  with k have "den = 2 ^ a * 5 ^ b" by simp
  moreover have "(2 :: int) ^ a dvd 2 ^ k" "(5 :: int) ^ b dvd 5 ^ k" using k by (auto intro: le_imp_power_dvd)
  ultimately have "den dvd 2 ^ k * 5 ^ k" by (simp add: mult_dvd_mono)
  then show "den dvd 10 ^ k" by (simp add: power_mult_distrib [symmetric])
  show "0 < k" using k by simp
qed

lemma rat_of_atom_decimal:
  assumes "list_all decimal_digit fs"
  shows "rat_of_atom (nat_text n @ CHR ''.'' # fs) = set_string (nat_text n @ CHR ''.'' # fs)"
proof -
  have d: "decimal_digit c \<Longrightarrow> c \<notin> set ''eE/''" for c by (auto simp: decimal_digit_def)
  have "c \<notin> set ''eE/''" if "c \<in> set (nat_text n @ CHR ''.'' # fs)" for c
    using that assms nat_text_digits [of n] d [of c] by (auto simp: list_all_iff)
  then have "\<not> list_ex (\<lambda>c. c \<in> set ''eE/'') (nat_text n @ CHR ''.'' # fs)"
    unfolding list_ex_iff by blast
  then show ?thesis by (simp only: rat_of_atom_def if_False)
qed

lemma float_string_exact:
  assumes "0 < k" "0 < den" "num * 10 ^ k = m * den" "0 \<le> m" "k \<le> 1000000"
  shows "rat_of_atom (float_string k num den) = Some (of_int m / 10 ^ k)"
proof -
  have a: "2 * num * 10 ^ k + den = den + m * (2 * den)" using assms(3) by (simp add: algebra_simps)
  have b: "(den + m * (2 * den)) div (2 * den) = m + den div (2 * den)"
    using assms(2) by (intro div_mult_self1) simp
  have c: "den div (2 * den) = 0" using assms(2) by simp
  have q: "(2 * num * 10 ^ k + den) div (2 * den) = m" by (simp only: a b c add_0_right)
  let ?ds = "nat_text (nat (m mod 10 ^ k))"
  let ?fs = "replicate (k - length ?ds) (CHR ''0'') @ ?ds"
  have "nat (m mod 10 ^ k) < 10 ^ k" by (simp add: nat_less_iff)
  then have len: "length ?fs = k" using nat_text_length [OF assms(1)] by simp
  have digits: "list_all decimal_digit ?fs"
    using nat_text_digits [of "nat (m mod 10 ^ k)"] by (auto simp: list_all_iff decimal_digit_def)
  have "digits_code ?fs = m mod 10 ^ k"
    by (simp add: digits_code_append digits_code_zeros digits_code_text)
  then have "int (nat (m div 10 ^ k)) * 10 ^ length ?fs + digits_code ?fs = m"
    using assms(4) len div_mult_mod_eq [of m "10 ^ k"] by (simp add: pos_imp_zdiv_nonneg_iff)
  moreover have "?fs \<noteq> []" using len assms(1) by fastforce
  ultimately have "set_string (nat_text (nat (m div 10 ^ k)) @ CHR ''.'' # ?fs) = Some (of_int m / 10 ^ k)"
    using set_string_decimal [OF digits, of "nat (m div 10 ^ k)"] len assms(5) by simp
  then show ?thesis
    using assms(1) rat_of_atom_decimal [OF digits, of "nat (m div 10 ^ k)"] by (simp add: float_string_def q Let_def)
qed

lemma whole_exact: "0 \<le> i \<Longrightarrow> rat_of_atom (int_text i @ ''.0'') = Some (of_int i)"
  using set_string_decimal [of "''0''" "nat i"] rat_of_atom_decimal [of "''0''" "nat i"]
  by (simp add: int_text_def decimal_digit_def digits_code_def digit_code_def)

text \<open>A magnitude whose decimal has at most a million digits after the point, the bound of the library's reader.\<close>

definition readable :: "rat \<Rightarrow> bool" where
  "readable r \<longleftrightarrow> (case decimal_digits (snd (quotient_of r)) of Some k \<Rightarrow> k \<le> 1000000 | None \<Rightarrow> True)"

lemma magnitude_exact:
  assumes "0 \<le> r" "readable r"
  shows "rat_of_sexpr (magnitude_sexpr r) = Some r"
proof -
  obtain num den where q: "quotient_of r = (num, den)" by (cases "quotient_of r")
  have den: "0 < den" using quotient_of_denom_pos [OF q] .
  have r: "r = of_int num / of_int den" using quotient_of_div [OF q] .
  then have num: "0 \<le> num" using assms(1) den by (simp add: zero_le_divide_iff)
  show ?thesis
  proof (cases "decimal_digits den")
    case None
    then show ?thesis
      using q num den r whole_exact [of num] whole_exact [of den] by (simp add: magnitude_sexpr_def atom_text_def)
  next
    case (Some k)
    note k = decimal_digits_dvd [OF den Some]
    then obtain c where c: "10 ^ k = den * c" by (auto elim: dvdE)
    then have "0 < c" using den by (metis zero_less_mult_pos zero_less_power zero_less_numeral)
    have "rat_of_atom (float_string k num den) = Some (of_int (num * c) / 10 ^ k)"
      using assms(2) Some q num den \<open>0 < c\<close> c by (intro float_string_exact [OF k(2) den]) (simp_all add: readable_def)
    moreover have "(10 :: rat) ^ k = of_int den * of_int c" using c by (metis of_int_mult of_int_power of_int_numeral)
    ultimately show ?thesis using q Some r den \<open>0 < c\<close> by (simp add: magnitude_sexpr_def)
  qed
qed

lemma readable_uminus: "readable (- r) = readable r"
  by (simp add: readable_def rat_uminus_code case_prod_beta)

lemma rational_exact: "readable r \<Longrightarrow> rat_of_sexpr (rat_sexpr r) = Some r"
  using magnitude_exact [of r] magnitude_exact [of "- r"] by (simp add: rat_sexpr_def readable_uminus atom_text_def)

text \<open>
  C25. Rationals cross to the solver and back exactly. The text written for a rational is one expression,
  which the reader of model values reads as that rational: as a decimal when it has a terminating one of
  at most a million digits, else as the quotient of two integers; no rounding enters in either
  direction.
\<close>

theorem rational_round_trip:
  assumes "readable r"
  shows "\<exists>e. read_reply (write_rat r) = Inr (e, []) \<and> rat_of_sexpr e = Some r"
  using reads_backD [OF reads_back_rat, of "[]" r] rational_exact [OF assms] by (auto simp: reads_reply)

theorem rational_round_trip_witness:
  "\<exists>e. read_reply (write_rat (- 27 / 40)) = Inr (e, []) \<and> rat_of_sexpr e = Some (- 27 / 40)"
proof (rule rational_round_trip)
  have "quotient_of (- 27 / 40) = (- 27, 40)" by code_simp
  moreover have "decimal_digits 40 = Some 3" by code_simp
  ultimately show "readable (- 27 / 40)" by (simp add: readable_def)
qed

text \<open>
  A name survives the escaping of a symbol: the text written for it is one symbol of the script
  language, from which the reader of models recovers the name, so that two names are never written as
  one symbol.
\<close>

theorem symbol_round_trip:
  "(\<exists>t. read_reply (smt_symbol n) = Inr (Atom t False, []) \<and> smt_name t = n) \<and> inj smt_symbol"
proof -
  have r: "read_reply (smt_symbol m) = Inr (Atom (escape_name m) False, [])" for m
    using reads_backD [OF reads_back_symbol, of "[]" m] by (simp add: reads_reply)
  have "inj smt_symbol"
  proof (rule injI)
    fix a b
    assume "smt_symbol a = smt_symbol b"
    with r [of a] r [of b] have "escape_name a = escape_name b" by simp
    then show "a = b" by (rule symbol_codec.enc_inj [OF TrueI TrueI])
  qed
  with r show ?thesis by (auto simp: smt_name_inverse)
qed

section \<open>Division\<close>

lemma euclid_trunc:
  assumes "(y :: int) \<noteq> 0"
  shows "0 \<le> x \<Longrightarrow> euclid_div x y = x sdiv y" "x < 0 \<Longrightarrow> - euclid_div (- x) y = x sdiv y"
  using assms by (auto simp: euclid_div_def signed_divide_int_def sgn_if)

lemma trunc_meaning:
  assumes "meaning m a = Some (IntV x)" "meaning m b = Some (IntV y)" "y \<noteq> 0"
  shows "meaning m (trunc_div a b) = Some (IntV (x sdiv y))" "meaning m (trunc_rem a b) = Some (IntV (x smod y))"
proof -
  show q: "meaning m (trunc_div a b) = Some (IntV (x sdiv y))"
    using assms euclid_trunc [OF assms(3), of x]
    by (auto simp: trunc_div_def ite_term_def binary_term_def unary_term_def apply_op_def truth_def)
  have "x smod y = x - y * (x sdiv y)" using sdiv_mult_smod_eq [of x y] by (simp add: algebra_simps)
  with q assms(1,2) show "meaning m (trunc_rem a b) = Some (IntV (x smod y))"
    by (simp add: trunc_rem_def binary_term_def apply_op_def)
qed

end
