(* ===== verification/Smt_Meaning.thy ===== *)
theory Smt_Meaning
  imports Smt_Term
begin

text \<open>The values of conjunctions and disjunctions, for the searches over a solver and for the conditions of a query.\<close>

lemma all_some_map: "list_all (\<lambda>x. f x = Some (g x)) xs \<Longrightarrow> all_some (map f xs) = Some (map g xs)"
  by (induction xs) auto

lemma truths_bools: "truths (map (\<lambda>t. BoolV (p t)) ts) = Some (map p ts)"
  by (induction ts) (simp_all add: truths_def truth_def)

lemma and_meaning:
  assumes "list_all (\<lambda>t. meaning m t = Some (BoolV (p t))) ts"
  shows "meaning m (and_term ts) = Some (BoolV (list_all p ts))"
proof -
  have "all_some (map (meaning m) ts) = Some (map (\<lambda>t. BoolV (p t)) ts)" using assms by (rule all_some_map)
  then have "meaning m (Compound SmtAnd bool_sort ts) = Some (BoolV (list_all p ts))"
    by (simp add: apply_op_def truths_bools list_all_iff)
  with assms show ?thesis by (auto simp: and_term_def junction_def split: list.split)
qed

lemma or_meaning:
  assumes "list_all (\<lambda>t. meaning m t = Some (BoolV (p t))) ts"
  shows "meaning m (or_term ts) = Some (BoolV (list_ex p ts))"
proof -
  have "all_some (map (meaning m) ts) = Some (map (\<lambda>t. BoolV (p t)) ts)" using assms by (rule all_some_map)
  then have "meaning m (Compound SmtOr bool_sort ts) = Some (BoolV (list_ex p ts))"
    by (simp add: apply_op_def truths_bools list_ex_iff)
  with assms show ?thesis by (auto simp: or_term_def junction_def split: list.split)
qed

text \<open>The same, for the values of the conjuncts as a list.\<close>

lemma and_values:
  assumes "map (meaning m) ts = map (Some \<circ> BoolV) bs"
  shows "meaning m (and_term ts) = Some (BoolV (list_all (\<lambda>b. b) bs))"
proof -
  let ?p = "\<lambda>t. meaning m t = Some (BoolV True)"
  have "list_all (\<lambda>t. meaning m t = Some (BoolV (?p t))) ts \<and> list_all ?p ts = list_all (\<lambda>b. b) bs"
    using assms by (induction bs arbitrary: ts) (auto simp: map_eq_Cons_conv)
  with and_meaning [of m ?p ts] show ?thesis by simp
qed

end
