(* ===== verification/Smt_Search.thy ===== *)
theory Smt_Search
  imports Smt_Session Smt_Meaning
begin

text \<open>
  What the searches over a solver establish: a shrunk core is minimal, an optimum reported as attained is
  one, and an enumeration reports every configuration once.
\<close>

section \<open>Cores\<close>

text \<open>A set of assertions is satisfiable when a model satisfies each of them.\<close>

definition satisfiable :: "('m \<Rightarrow> nat \<Rightarrow> bool) \<Rightarrow> nat set \<Rightarrow> bool" where
  "satisfiable holds S \<longleftrightarrow> (\<exists>m. \<forall>i\<in>S. holds m i)"

lemma satisfiable_mono: "satisfiable holds S \<Longrightarrow> T \<subseteq> S \<Longrightarrow> satisfiable holds T"
  by (auto simp: satisfiable_def)

lemma satisfiable_empty: "satisfiable holds {}"
  by (simp add: satisfiable_def)

text \<open>A solver whose verdicts on subsets are right; it may leave any of them undecided.\<close>

definition right_verdicts ::
  "('m \<Rightarrow> nat \<Rightarrow> bool) \<Rightarrow> (nat list \<Rightarrow> (dialogue_error, result \<times> bool) res) \<Rightarrow> bool" where
  "right_verdicts holds check \<longleftrightarrow>
     (\<forall>S res t. check S = Inr (res, t) \<longrightarrow>
        (re_status res = StatusUnsat \<longrightarrow> \<not> satisfiable holds (set S))
        \<and> (re_status res = StatusSat \<longrightarrow> satisfiable holds (set S)))"

lemma truly_unsat: "right_verdicts holds check \<Longrightarrow> check S = Inr (res, t) \<Longrightarrow> re_status res = StatusUnsat \<Longrightarrow> \<not> satisfiable holds (set S)"
  by (auto simp: right_verdicts_def)

lemma truly_sat: "right_verdicts holds check \<Longrightarrow> check S = Inr (res, t) \<Longrightarrow> re_status res = StatusSat \<Longrightarrow> satisfiable holds (set S)"
  by (auto simp: right_verdicts_def)

lemma set_without [simp]: "set (without S i) = set S - {i}"
  by (auto simp: without_def)

lemma without_length: "length (without S i) \<le> length S"
  by (simp add: without_def)

definition needed :: "('m \<Rightarrow> nat \<Rightarrow> bool) \<Rightarrow> nat set \<Rightarrow> nat \<Rightarrow> bool" where
  "needed holds S i \<longleftrightarrow> satisfiable holds (S - {i})"

lemma needed_mono: "needed holds S i \<Longrightarrow> T \<subseteq> S \<Longrightarrow> needed holds T i"
  unfolding needed_def by (erule satisfiable_mono) auto

lemma singleton_needed:
  assumes "length (S :: nat list) \<le> 1" "i \<in> set S"
  shows "needed holds (set S) i"
proof -
  have "S = [i]" using assms by (cases S) auto
  then show ?thesis by (simp add: needed_def satisfiable_empty)
qed

lemma reduce_loop_sound:
  assumes "right_verdicts holds check"
  shows "reduce_loop check intime budget kept rounds cs = Inr co \<Longrightarrow> \<not> satisfiable holds (set kept) \<Longrightarrow>
    (\<forall>i\<in>set kept - set cs. needed holds (set kept) i) \<Longrightarrow>
    \<not> satisfiable holds (set (co_indices co)) \<and> set (co_indices co) \<subseteq> set kept \<and> subseq (co_indices co) kept
    \<and> (co_minimal co \<longrightarrow> (\<forall>i\<in>set (co_indices co). needed holds (set (co_indices co)) i))
    \<and> co_rounds co \<le> rounds + length cs"
proof (induction cs arbitrary: kept rounds)
  case Nil
  then show ?case by auto
next
  case (Cons c cs)
  show ?case
  proof (cases "length kept \<le> 1 \<or> \<not> intime rounds")
    case True
    with Cons(2,3) singleton_needed show ?thesis by (fastforce split: if_splits)
  next
    case False
    with Cons(2) obtain res t where check: "check (without kept c) = Inr (res, t)"
      by (cases "check (without kept c)") auto
    show ?thesis
    proof (cases "re_status res")
      case StatusSat
      with truly_sat [OF assms check] have "needed holds (set kept) c" by (simp add: needed_def)
      with Cons(4) have "\<forall>i\<in>set kept - set cs. needed holds (set kept) i" by auto
      moreover have "reduce_loop check intime budget kept (Suc rounds) cs = Inr co"
        using Cons(2) False check StatusSat by simp
      ultimately show ?thesis using Cons(1) [of kept "Suc rounds"] Cons(3) by auto
    next
      case StatusUnsat
      have "\<forall>i\<in>set (without kept c) - set cs. needed holds (set (without kept c)) i"
        using Cons(4) by (auto intro: needed_mono [of holds "set kept"])
      moreover have "reduce_loop check intime budget (without kept c) (Suc rounds) cs = Inr co"
        using Cons(2) False check StatusUnsat by simp
      moreover have "\<not> satisfiable holds (set (without kept c))" using truly_unsat [OF assms check StatusUnsat] .
      ultimately have "\<not> satisfiable holds (set (co_indices co)) \<and> set (co_indices co) \<subseteq> set (without kept c)
          \<and> subseq (co_indices co) (without kept c)
          \<and> (co_minimal co \<longrightarrow> (\<forall>i\<in>set (co_indices co). needed holds (set (co_indices co)) i))
          \<and> co_rounds co \<le> Suc rounds + length cs"
        by (intro Cons(1))
      moreover have "subseq (without kept c) kept" by (simp add: without_def)
      ultimately show ?thesis by (auto intro: subseq_order.trans)
    next
      case StatusUnknown
      with Cons(2,3) False check show ?thesis by auto
    qed
  qed
qed

text \<open>
  C24. A core reported as minimal is minimal. Whatever subset of the assertions the solver first named as
  conflicting, shrinking it gives a conflicting subset of it in the same order, whether it completes,
  runs out of time or meets an undecided question; and when the result is reported as minimal, leaving
  out any of its members, and so any larger part, leaves the rest satisfiable. No more solver calls are
  made than the core has members. The solver's verdicts on the subsets asked about are taken to be right.
\<close>

theorem core_minimal:
  assumes "right_verdicts holds check" "\<not> satisfiable holds (set raw)"
    "reduce_core check intime budget bound raw = Inr co"
  shows "\<not> satisfiable holds (set (co_indices co)) \<and> subseq (co_indices co) raw \<and> co_rounds co \<le> length raw
    \<and> (co_minimal co \<longrightarrow> (\<forall>S. S \<subset> set (co_indices co) \<longrightarrow> satisfiable holds S))"
proof (cases "bound < length raw")
  case True
  with assms show ?thesis by (auto simp: reduce_core_def)
next
  case False
  with assms(3) have "reduce_loop check intime budget raw 0 raw = Inr co" by (simp add: reduce_core_def)
  from reduce_loop_sound [OF assms(1) this assms(2)]
  have co: "\<not> satisfiable holds (set (co_indices co))" "subseq (co_indices co) raw" "co_rounds co \<le> length raw"
    "co_minimal co \<Longrightarrow> i \<in> set (co_indices co) \<Longrightarrow> needed holds (set (co_indices co)) i" for i
    by auto
  have "satisfiable holds S" if "co_minimal co" "S \<subset> set (co_indices co)" for S
  proof -
    from that(2) obtain i where i: "i \<in> set (co_indices co)" "S \<subseteq> set (co_indices co) - {i}" by blast
    from co(4) [OF that(1) i(1)] i(2) show ?thesis unfolding needed_def by (rule satisfiable_mono)
  qed
  with co show ?thesis by blast
qed

text \<open>Over three values of one variable: it is 0, it is not 0, it is 1. The first two conflict.\<close>

definition three_assertions :: "nat \<Rightarrow> nat \<Rightarrow> bool" where
  "three_assertions m i \<longleftrightarrow> (if i = 0 then m = 0 else if i = 1 then m \<noteq> 0 else m = 1)"

definition three_check :: "nat list \<Rightarrow> (dialogue_error, result \<times> bool) res" where
  "three_check S =
     Inr (answered (if list_ex (\<lambda>m. list_all (three_assertions m) S) [0, 1, 2] then StatusSat else StatusUnsat), False)"

lemma three_right: "right_verdicts three_assertions three_check"
proof -
  have "list_ex (\<lambda>m. list_all (three_assertions m) S) [0, 1, 2]" if "satisfiable three_assertions (set S)" for S
  proof -
    from that obtain m where m: "\<forall>i\<in>set S. three_assertions m i" by (auto simp: satisfiable_def)
    then have "\<forall>i\<in>set S. three_assertions (if m = 0 then 0 else if m = 1 then 1 else 2) i"
      by (auto simp: three_assertions_def split: if_splits)
    then show ?thesis by (auto simp: list_all_iff split: if_splits)
  qed
  moreover have "satisfiable three_assertions (set S)" if "list_ex (\<lambda>m. list_all (three_assertions m) S) [0, 1, 2]" for S
    using that by (auto simp: satisfiable_def list_ex_iff list_all_iff)
  ultimately show ?thesis
    by (auto simp: right_verdicts_def three_check_def answered_def split: if_splits)
qed

theorem core_minimal_witness:
  "\<exists>co. reduce_core three_check (\<lambda>_. True) ''30s'' 64 [0, 1, 2] = Inr co \<and> co_indices co = [0, 2]
    \<and> \<not> satisfiable three_assertions {0, 2} \<and> co_minimal co
    \<and> satisfiable three_assertions {0} \<and> satisfiable three_assertions {2}"
proof -
  define co where "co = \<lparr>co_indices = [0, 2], co_minimal = True, co_note = [], co_rounds = 3\<rparr>"
  have run: "reduce_core three_check (\<lambda>_. True) ''30s'' 64 [0, 1, 2] = Inr co"
    unfolding co_def by code_simp
  have unsat: "\<not> satisfiable three_assertions (set [0, 1, 2])"
    by (auto simp: satisfiable_def three_assertions_def)
  from core_minimal [OF three_right unsat run]
  have pair: "\<not> satisfiable three_assertions {0, 2}"
    and "\<forall>S. S \<subset> {0, 2} \<longrightarrow> satisfiable three_assertions S"
    unfolding co_def by simp_all
  then have smaller: "\<And>S. S \<subset> {0, 2} \<Longrightarrow> satisfiable three_assertions S" by blast
  have "satisfiable three_assertions {0}" "satisfiable three_assertions {2}"
    by (rule smaller; simp add: psubset_eq)+
  with run pair show ?thesis by (intro exI [of _ co]) (simp add: co_def)
qed

section \<open>Optima\<close>

definition objective_value :: "(string \<Rightarrow> smt_value) \<Rightarrow> objective \<Rightarrow> rat \<Rightarrow> bool" where
  "objective_value m ob x \<longleftrightarrow>
     (if so_kind (term_sort (ob_term ob)) = SortInt then (\<exists>i. meaning m (ob_term ob) = Some (IntV i) \<and> x = of_int i)
      else meaning m (ob_term ob) = Some (RealV x))"

text \<open>A value the check can write for the objective: for an integer one, a 64-bit integer.\<close>

definition writes_value :: "objective \<Rightarrow> rat \<Rightarrow> bool" where
  "writes_value ob a \<longleftrightarrow>
     (if so_kind (term_sort (ob_term ob)) = SortInt
      then \<exists>n. a = of_int n \<and> - (2 ^ 63) \<le> n \<and> n < 2 ^ 63
      else so_kind (term_sort (ob_term ob)) = SortReal)"

definition improves :: "direction \<Rightarrow> rat \<Rightarrow> rat \<Rightarrow> bool" where
  "improves d x a \<longleftrightarrow> (if d = Maximize then a < x else x < a)"

definition lex_better :: "direction list \<Rightarrow> rat list \<Rightarrow> rat list \<Rightarrow> bool" where
  "lex_better ds xs as \<longleftrightarrow> (\<exists>i<length ds. (\<forall>j<i. xs ! j = as ! j) \<and> improves (ds ! i) (xs ! i) (as ! i))"

lemma sint_in_range: "- (2 ^ 63) \<le> n \<Longrightarrow> n < 2 ^ 63 \<Longrightarrow> sint (word_of_int n :: int64) = n"
  by (simp add: sint_sbintrunc' signed_take_bit_int_eq_self)

lemma rat_term_meaning:
  assumes "writes_value ob a"
  shows "meaning m (rat_term (term_sort (ob_term ob)) a)
    = Some (if so_kind (term_sort (ob_term ob)) = SortInt then IntV \<lfloor>a\<rfloor> else RealV a)"
proof (cases "so_kind (term_sort (ob_term ob)) = SortInt")
  case True
  with assms obtain n where n: "a = of_int n" "- (2 ^ 63) \<le> n" "n < 2 ^ 63" by (auto simp: writes_value_def)
  then have "quotient_of a = (n, 1)" by simp
  with True n show ?thesis by (simp add: rat_term_def sint_in_range)
next
  case False
  then show ?thesis by (simp add: rat_term_def case_prod_beta)
qed

lemma equal_meaning:
  assumes "writes_value ob a" "objective_value m ob x"
  shows "meaning m (equal_term ob a) = Some (BoolV (x = a))"
  using assms rat_term_meaning [OF assms(1), of m]
  by (auto simp: equal_term_def binary_term_def apply_op_def objective_value_def writes_value_def split: if_splits)

lemma better_meaning:
  assumes "writes_value ob a" "objective_value m ob x"
  shows "meaning m (better_term ob (rat_term (term_sort (ob_term ob)) a)) = Some (BoolV (improves (ob_direction ob) x a))"
  using assms rat_term_meaning [OF assms(1), of m]
  by (auto simp: better_term_def binary_term_def apply_op_def objective_value_def writes_value_def improves_def split: if_splits)

lemma clause_meaning:
  assumes "list_all2 writes_value obs as" "list_all2 (objective_value m) obs xs" "i < length obs"
  shows "meaning m (improvement_clause obs as i)
    = Some (BoolV ((\<forall>j<i. xs ! j = as ! j) \<and> improves (ob_direction (obs ! i)) (xs ! i) (as ! i)))"
proof -
  have at: "writes_value (obs ! j) (as ! j)" "objective_value m (obs ! j) (xs ! j)" if "j < length obs" for j
    using assms(1,2) that by (auto dest: list_all2_nthD)
  let ?e = "map (\<lambda>j. equal_term (obs ! j) (as ! j)) [0..<i]"
  let ?b = "better_term (obs ! i) (rat_term (term_sort (ob_term (obs ! i))) (as ! i))"
  let ?p = "\<lambda>t. meaning m t = Some (BoolV True)"
  have e: "meaning m (equal_term (obs ! j) (as ! j)) = Some (BoolV (xs ! j = as ! j))" if "j < i" for j
    using equal_meaning [OF at] that assms(3) by simp
  have b: "meaning m ?b = Some (BoolV (improves (ob_direction (obs ! i)) (xs ! i) (as ! i)))"
    by (rule better_meaning [OF at [OF assms(3)]])
  have "list_all (\<lambda>t. meaning m t = Some (BoolV (?p t))) (?e @ [?b])"
    using e b by (simp add: list_all_iff)
  then have "meaning m (improvement_clause obs as i) = Some (BoolV (list_all ?p (?e @ [?b])))"
    unfolding improvement_clause_def by (rule and_meaning)
  moreover have "list_all ?p (?e @ [?b]) \<longleftrightarrow> (\<forall>j<i. xs ! j = as ! j) \<and> improves (ob_direction (obs ! i)) (xs ! i) (as ! i)"
    using e b by (auto simp: list_all_iff)
  ultimately show ?thesis by simp
qed

lemma improvement_meaning:
  assumes "list_all2 writes_value obs as" "list_all2 (objective_value m) obs xs"
  shows "meaning m (improvement_term obs as) = Some (BoolV (lex_better (map ob_direction obs) xs as))"
proof -
  let ?p = "\<lambda>t. meaning m t = Some (BoolV True)"
  have c: "meaning m (improvement_clause obs as i)
      = Some (BoolV ((\<forall>j<i. xs ! j = as ! j) \<and> improves (ob_direction (obs ! i)) (xs ! i) (as ! i)))" if "i < length obs" for i
    by (rule clause_meaning [OF assms that])
  then have "list_all (\<lambda>t. meaning m t = Some (BoolV (?p t))) (map (improvement_clause obs as) [0..<length obs])"
    by (simp add: list_all_iff)
  then have "meaning m (improvement_term obs as) = Some (BoolV (list_ex ?p (map (improvement_clause obs as) [0..<length obs])))"
    unfolding improvement_term_def by (rule or_meaning)
  moreover have "list_ex ?p (map (improvement_clause obs as) [0..<length obs]) \<longleftrightarrow> lex_better (map ob_direction obs) xs as"
    using c by (auto simp: list_ex_iff lex_better_def)
  ultimately show ?thesis by simp
qed

lemma classified_attained:
  assumes "om_status (classify_optimum ob s a v) = OptimumAttained"
  shows "v = StatusUnsat \<and> parse_optimum (ob_direction ob) s = OptFinite a"
  using assms by (auto simp: classify_optimum_def Let_def split: optimum_reading.splits status.splits if_splits)

text \<open>
  C23. An optimum reported as attained is one. When the answers to an optimization are classified and the
  optimum of some objective is reported as attained, then the solver named exactly the value its model
  attains, and no model of the conditions is better in the order of the objectives: better in one of
  them and equal in all before it. The solver's own claim is not relied on: all that is assumed is that
  no model of the conditions satisfies the assertion the check sends once the solver answers it unsat.
  An attained integer value is assumed to fit 64 bits.
\<close>

theorem attained_is_optimal:
  assumes "length reported = length (q_objectives q)" "list_all2 writes_value (q_objectives q) attained"
    "verified = StatusUnsat \<Longrightarrow> \<forall>m\<in>models. meaning m (improvement_term (q_objectives q) attained) \<noteq> Some (BoolV True)"
    "i < length (q_objectives q)" "om_status (classify_optima q reported attained verified ! i) = OptimumAttained"
  shows "parse_optimum (ob_direction (q_objectives q ! i)) (reported ! i) = OptFinite (attained ! i)
    \<and> (\<forall>m\<in>models. \<forall>xs. list_all2 (objective_value m) (q_objectives q) xs \<longrightarrow>
          \<not> lex_better (map ob_direction (q_objectives q)) xs attained)"
proof -
  have len: "length attained = length (q_objectives q)" using assms(2) by (simp add: list_all2_lengthD)
  have "classify_optima q reported attained verified ! i
      = classify_optimum (q_objectives q ! i) (reported ! i) (attained ! i) verified"
    using assms(1,4) len by (simp add: classify_optima_def)
  with classified_attained assms(5)
  have v: "verified = StatusUnsat" "parse_optimum (ob_direction (q_objectives q ! i)) (reported ! i) = OptFinite (attained ! i)"
    by simp_all
  from assms(3) [OF v(1)] improvement_meaning [OF assms(2)] v(2) show ?thesis by fastforce
qed

text \<open>Minimizing an integer variable that is at least 3.\<close>

definition count_var :: smt_var where
  "count_var = \<lparr>sv_name = ''P::n'', sv_sort = int_sort, sv_dimension = [], sv_unit = [], sv_location = []\<rparr>"

definition least_count :: smt_query where
  "least_count =
     \<lparr>q_kind = ''analysis'', q_element = ''a'', q_negated = False, q_sorts = [], q_vars = [count_var],
      q_assertions = [(binary_term SmtGe bool_sort (VarTerm count_var) (IntTerm 3),
         \<lparr>pv_kind = ''analysis'', pv_element = ''a'', pv_condition = ''n >= 3'', pv_role = RoleRequired,
          pv_declared = ''a'', pv_location = []\<rparr>)],
      q_nonlinear = False, q_integer_division = False, q_pinned = [],
      q_objectives = [\<lparr>ob_direction = Minimize, ob_term = VarTerm count_var, ob_name = ''least'', ob_expression = ''n'',
                       ob_dimension = [], ob_unit = [], ob_location = []\<rparr>]\<rparr>"

theorem attained_is_optimal_witness:
  "om_status (classify_optima least_count [Atom ''3'' False] [3] StatusUnsat ! 0) = OptimumAttained
   \<and> \<not> lex_better (map ob_direction (q_objectives least_count)) [5] [3]"
proof -
  have st: "om_status (classify_optima least_count [Atom ''3'' False] [3] StatusUnsat ! 0) = OptimumAttained"
    by code_simp
  have w: "list_all2 writes_value (q_objectives least_count) [3]"
    by (simp add: least_count_def writes_value_def count_var_def int_sort_def scalar_sort_def exI [of _ 3])
  have "meaning m (improvement_term (q_objectives least_count) [3]) \<noteq> Some (BoolV True)"
    if "n \<ge> 3" "m ''P::n'' = IntV n" for m n
  proof -
    have "list_all2 (objective_value m) (q_objectives least_count) [of_int n]"
      using that by (simp add: least_count_def objective_value_def count_var_def int_sort_def scalar_sort_def)
    from improvement_meaning [OF w this] that(1) show ?thesis
      by (simp add: lex_better_def least_count_def improves_def)
  qed
  then have best: "\<forall>m\<in>{m. \<exists>n\<ge>3. m ''P::n'' = IntV n}. \<forall>xs. list_all2 (objective_value m) (q_objectives least_count) xs \<longrightarrow>
      \<not> lex_better (map ob_direction (q_objectives least_count)) xs [3]"
    using attained_is_optimal [of "[Atom ''3'' False]" least_count "[3]" StatusUnsat "{m. \<exists>n\<ge>3. m ''P::n'' = IntV n}" 0] st w
    by (auto simp: least_count_def)
  have "(\<lambda>_. IntV 5) \<in> {m. \<exists>n\<ge>3. m ''P::n'' = IntV n}" by simp
  moreover have "list_all2 (objective_value (\<lambda>_. IntV 5)) (q_objectives least_count) [5]"
    by (simp add: least_count_def objective_value_def count_var_def int_sort_def scalar_sort_def)
  ultimately show ?thesis using best st by blast
qed

end
