(* ===== verification/Smt_Configurations.thy ===== *)
theory Smt_Configurations
  imports Smt_Scripts
begin

text \<open>
  An enumeration of configurations, over a solver that answers rightly about what it was sent: each
  configuration is reported once, and an enumeration that was not cut short reports them all.
\<close>

definition chosen :: "assignment list \<Rightarrow> string list" where
  "chosen as = map as_value as"

text \<open>The sessions in which the configurations so far have been reported and denied.\<close>

inductive after_denials :: "smt_var list \<Rightarrow> session \<Rightarrow> assignment list list \<Rightarrow> session \<Rightarrow> bool"
  for vs :: "smt_var list" and se0 :: session
where
  start: "after_denials vs se0 [] se0"
| denied: "after_denials vs se0 sols se1 \<Longrightarrow> verdict se1 = Inr (StatusSat, se2) \<Longrightarrow> values_of vs se2 = Inr (as, se3) \<Longrightarrow>
    deny as se3 = Inr ((), se4) \<Longrightarrow> after_denials vs se0 (sols @ [as]) se4"

text \<open>
  The solver is right about the configurations \<open>F\<close> its conditions permit: it answers \<open>sat\<close> with one of them
  that was not denied, and \<open>unsat\<close> only when every one was.
\<close>

definition right_about :: "string list set \<Rightarrow> smt_var list \<Rightarrow> session \<Rightarrow> bool" where
  "right_about F vs se0 \<longleftrightarrow>
     (\<forall>sols se1. after_denials vs se0 sols se1 \<longrightarrow>
        (\<forall>se2. verdict se1 = Inr (StatusUnsat, se2) \<longrightarrow> F \<subseteq> chosen ` set sols)
        \<and> (\<forall>se2 as se3. verdict se1 = Inr (StatusSat, se2) \<longrightarrow> values_of vs se2 = Inr (as, se3) \<longrightarrow>
              chosen as \<in> F - chosen ` set sols))"

lemma right_unsat:
  "right_about F vs se0 \<Longrightarrow> after_denials vs se0 sols se1 \<Longrightarrow> verdict se1 = Inr (StatusUnsat, se2) \<Longrightarrow> F \<subseteq> chosen ` set sols"
  by (auto simp: right_about_def)

lemma right_sat:
  "right_about F vs se0 \<Longrightarrow> after_denials vs se0 sols se1 \<Longrightarrow> verdict se1 = Inr (StatusSat, se2) \<Longrightarrow>
    values_of vs se2 = Inr (as, se3) \<Longrightarrow> chosen as \<in> F - chosen ` set sols"
  by (auto simp: right_about_def)

definition listed :: "string list set \<Rightarrow> assignment list list \<Rightarrow> bool" where
  "listed F sols \<longleftrightarrow> distinct (map chosen sols) \<and> chosen ` set sols \<subseteq> F"

lemma listed_snoc: "listed F sols \<Longrightarrow> chosen as \<in> F - chosen ` set sols \<Longrightarrow> listed F (sols @ [as])"
  by (auto simp: listed_def)

text \<open>What a result says of the configurations, and what a failure still reports.\<close>

definition result_right :: "string list set \<Rightarrow> nat \<Rightarrow> result \<Rightarrow> bool" where
  "result_right F bound res \<longleftrightarrow>
     listed F (re_solutions res) \<and> length (re_solutions res) \<le> bound
     \<and> (re_at_bound res \<longrightarrow> re_truncated res \<and> length (re_solutions res) = bound)
     \<and> (re_status res = StatusUnsat \<longrightarrow> F = {})
     \<and> (re_status res = StatusSat \<longrightarrow> re_solutions res \<noteq> [] \<and> (\<not> re_truncated res \<longrightarrow> chosen ` set (re_solutions res) = F))"

fun outcome_right :: "string list set \<Rightarrow> nat \<Rightarrow> (dialogue_error, result \<times> session) res \<Rightarrow> bool" where
  "outcome_right F bound (Inr (res, se)) \<longleftrightarrow> result_right F bound res"
| "outcome_right F bound (Inl (PartialResult res e)) \<longleftrightarrow> result_right F bound res"
| "outcome_right F bound (Inl e) \<longleftrightarrow> True"

text \<open>The dialogues of an enumeration fail with plain errors.\<close>

lemma verdict_plain: "verdict se \<noteq> Inl (PartialResult r e)"
  by (auto simp: verdict_def and_then_def read_from_def refuse_def answer_def split: sum.splits option.splits sexpr_error.splits if_splits)

lemma read_pairs_plain: "read_pairs d m ps \<noteq> Inl (PartialResult r e)"
  by (induction ps arbitrary: m) (auto split: sexpr.splits list.splits if_splits)

lemma assign_all_plain: "assign_all m vs \<noteq> Inl (PartialResult r e)"
  by (induction m vs rule: assign_all.induct) (auto split: option.splits simp: bind_res_Inl)

lemma values_plain: "values_of vs se \<noteq> Inl (PartialResult r e)"
  using read_pairs_plain assign_all_plain
  by (auto simp: values_of_def and_then_def read_from_def refuse_def answer_def send_def lift_res_def model_pairs_def bind_res_Inl
      split: sum.splits option.splits sexpr_error.splits if_splits sexpr.splits)

lemma blocking_plain: "blocking_parts as \<noteq> Inl (PartialResult r e)"
  by (induction as) (auto simp: bind_res_Inl)

lemma deny_plain: "deny as se \<noteq> Inl (PartialResult r e)"
proof (cases "blocking_parts as")
  case (Inl x)
  with blocking_plain show ?thesis by (auto simp: deny_def blocking_def and_then_def refuse_def lift_res_def)
next
  case (Inr ps)
  then have "\<exists>c. blocking as = Inr c" by (simp add: blocking_def split: list.split)
  then obtain c where "blocking as = Inr c" by blast
  then show ?thesis by (simp add: deny_def and_then_def lift_res_def answer_def send_def)
qed

lemma failure_right:
  assumes "listed F sols" "length sols \<le> bound" "\<And>r d. e \<noteq> PartialResult r d"
  shows "outcome_right F bound (Inl (enumeration_failure sols e))"
proof (cases "sols = []")
  case True
  with assms(3) show ?thesis by (cases e) (auto simp: enumeration_failure_def)
next
  case False
  with assms show ?thesis by (simp add: enumeration_failure_def result_right_def stopped_def answered_def)
qed

lemma reason_never_fails: "reason_unknown se \<noteq> Inl e"
  by (auto simp: reason_unknown_def split: sum.splits)

lemma enumerate_right:
  assumes "right_about F vs se0"
  shows "after_denials vs se0 sols se \<Longrightarrow> listed F sols \<Longrightarrow> 0 < n \<Longrightarrow> length sols + n = bound \<Longrightarrow>
    outcome_right F bound (enumerate_more vs n sols se)"
proof (induction n arbitrary: sols se)
  case (Suc n)
  show ?case
  proof (cases "verdict se")
    case (Inl e)
    have "outcome_right F bound (Inl (enumeration_failure sols e))"
      using Suc.prems Inl verdict_plain by (intro failure_right) auto
    with Inl show ?thesis by (simp add: and_then_def failing_with_def)
  next
    case (Inr a)
    then obtain st se2 where v: "verdict se = Inr (st, se2)" by (cases a) auto
    show ?thesis
    proof (cases st)
      case StatusUnsat
      with v right_unsat [OF assms Suc(2)] have "F \<subseteq> chosen ` set sols" by blast
      with v StatusUnsat Suc(3,5) show ?thesis
        by (auto simp: and_then_def failing_with_def answer_def result_right_def listed_def answered_def)
    next
      case StatusUnknown
      obtain w se3 where r: "reason_unknown se2 = Inr (w, se3)"
        using reason_never_fails by (cases "reason_unknown se2") auto
      with v StatusUnknown Suc(3,5) show ?thesis
        by (auto simp: and_then_def failing_with_def answer_def result_right_def listed_def answered_def stopped_def)
    next
      case StatusSat
      show ?thesis
      proof (cases "values_of vs se2")
        case (Inl e)
        have "outcome_right F bound (Inl (enumeration_failure sols e))"
          using Suc.prems Inl values_plain by (intro failure_right) auto
        with v StatusSat Inl show ?thesis by (simp add: and_then_def failing_with_def)
      next
        case (Inr b)
        then obtain as se3 where as: "values_of vs se2 = Inr (as, se3)" by (cases b) auto
        have l: "listed F (sols @ [as])"
          using listed_snoc [OF Suc(3)] right_sat [OF assms Suc(2)] v as StatusSat by blast
        show ?thesis
        proof (cases n)
          case 0
          with v StatusSat as l Suc(5) show ?thesis
            by (simp add: and_then_def failing_with_def answer_def result_right_def answered_def stopped_def)
        next
          case (Suc k)
          show ?thesis
          proof (cases "deny as se3")
            case (Inl e)
            have "outcome_right F bound (Inl (enumeration_failure (sols @ [as]) e))"
              using Suc.prems(4) Inl l deny_plain by (intro failure_right) auto
            with v StatusSat as Inl \<open>n = Suc k\<close> show ?thesis by (simp add: and_then_def failing_with_def)
          next
            case (Inr c)
            then obtain se4 where d: "deny as se3 = Inr ((), se4)" by (cases c) auto
            have "after_denials vs se0 (sols @ [as]) se4"
              using denied [OF Suc.prems(1) _ as d] v StatusSat by simp
            from Suc.IH [OF this l] \<open>n = Suc k\<close> Suc.prems(4) v StatusSat as d show ?thesis
              by (simp add: and_then_def failing_with_def)
          qed
        qed
      qed
    qed
  qed
qed simp


text \<open>One variation point with one variant, and a solver that reports it and then has no other.\<close>

definition seat_sort :: smt_sort where
  "seat_sort = \<lparr>so_kind = SortDatatype, so_name = ''P::s'', so_values = [''P::s::a''], so_origin = ''P::s'', so_variation = True\<rparr>"

definition seat_var :: smt_var where
  "seat_var = \<lparr>sv_name = ''P::s'', sv_sort = seat_sort, sv_dimension = [], sv_unit = [], sv_location = []\<rparr>"

definition seat_query :: smt_query where
  "seat_query =
     \<lparr>q_kind = ''constraint'', q_element = ''c'', q_negated = False, q_sorts = [seat_sort], q_vars = [seat_var],
      q_assertions = [], q_nonlinear = False, q_integer_division = False, q_pinned = [], q_objectives = []\<rparr>"

definition seat_model :: string where
  "seat_model = '' ((|P::s| |P::s::a|)) unsat''"

definition seat_session :: session where
  "seat_session = \<lparr>se_out = ''sat'' @ seat_model, se_sent = [], se_takes = 9\<rparr>"

definition seat_chosen :: "assignment list" where
  "seat_chosen = [assign seat_var (Atom ''P::s::a'' False)]"

lemma reads_space: "smt_space c \<Longrightarrow> reads s e r \<Longrightarrow> reads (c # s) e r"
proof -
  assume c: "smt_space c" and s: "reads s e r"
  have "read_sexpr n (c # s) = read_sexpr n s" for n
    by (cases n) (simp_all add: skip_space_simps(2) [OF c])
  with s show ?thesis by (simp add: reads_def)
qed

lemma read_answerI: "reads s e r \<Longrightarrow> atom_text e \<noteq> ''success'' \<Longrightarrow> read_answer s = Inr (e, r)"
  by (simp add: read_answer.simps [of s] reads_reply)

lemma seat_replies:
  "read_answer (''sat'' @ seat_model) = Inr (Atom ''sat'' False, seat_model)"
  "read_answer seat_model = Inr (SList [SList [Atom ''P::s'' False, Atom ''P::s::a'' False]], '' unsat'')"
  "read_answer '' unsat'' = Inr (Atom ''unsat'' False, [])"
proof -
  have words: "reads_back ''sat'' (Atom ''sat'' False)" "reads_back ''unsat'' (Atom ''unsat'' False)"
    by (rule reads_back_atom; simp add: ends_atom_def smt_space_def)+
  show "read_answer (''sat'' @ seat_model) = Inr (Atom ''sat'' False, seat_model)"
    by (intro read_answerI reads_backD [OF words(1)]) (simp_all add: seat_model_def ends_atom_def smt_space_def atom_text_def)
  have "reads '' unsat'' (Atom ''unsat'' False) []"
    using reads_space [of "CHR '' ''", OF _ reads_backD [OF words(2), of "[]"]] by (simp add: smt_space_def)
  then show "read_answer '' unsat'' = Inr (Atom ''unsat'' False, [])"
    by (intro read_answerI) (simp_all add: atom_text_def)
  have names: "reads_back ''|P::s|'' (Atom ''P::s'' False)" "reads_back ''|P::s::a|'' (Atom ''P::s::a'' False)"
    using reads_back_symbol [of "''P::s''"] reads_back_symbol [of "''P::s::a''"]
    by (simp_all add: smt_symbol_def escape_name_def escape_char_def simple_symbol_def letter_byte_def symbol_punct_def decimal_digit_def)
  have "reads_back (''('' @ join_with '' '' [''|P::s|'', ''|P::s::a|''] @ '')'') (SList [Atom ''P::s'' False, Atom ''P::s::a'' False])"
    by (rule reads_back_list) (simp only: list_all2_Cons list_all2_Nil names simp_thms)
  then have "reads_back (''('' @ join_with '' '' [''('' @ join_with '' '' [''|P::s|'', ''|P::s::a|''] @ '')''] @ '')'')
      (SList [SList [Atom ''P::s'' False, Atom ''P::s::a'' False]])"
    by (intro reads_back_list) (simp only: list_all2_Cons list_all2_Nil simp_thms)
  from reads_space [of "CHR '' ''", OF _ reads_backD [OF this, of "'' unsat''"]]
  show "read_answer seat_model = Inr (SList [SList [Atom ''P::s'' False, Atom ''P::s::a'' False]], '' unsat'')"
    by (intro read_answerI) (simp_all add: seat_model_def ends_atom_def smt_space_def atom_text_def)
qed

definition seat_asked :: session where
  "seat_asked = seat_session\<lparr>se_sent := [produce_models @ script seat_query], se_takes := 8\<rparr>"

lemma seat_sat: "se_out se = ''sat'' @ seat_model \<Longrightarrow> verdict se = Inr (StatusSat, se\<lparr>se_out := seat_model\<rparr>)"
  using seat_replies(1) by (simp add: verdict_def and_then_def read_from_def is_error_def atom_text_def answer_def)

lemma seat_unsat: "se_out se = '' unsat'' \<Longrightarrow> verdict se = Inr (StatusUnsat, se\<lparr>se_out := []\<rparr>)"
  using seat_replies(3) by (simp add: verdict_def and_then_def read_from_def is_error_def atom_text_def answer_def)

lemma seat_names: "smt_name ''P::s'' = ''P::s''" "smt_name ''P::s::a'' = ''P::s::a''"
  by (simp_all add: smt_name_plain)

lemma seat_values:
  "se_out se = seat_model \<Longrightarrow> values_of [seat_var] se = Inr (as, se') \<Longrightarrow> as = seat_chosen \<and> se_out se' = '' unsat''"
  using seat_replies(2) seat_names
  by (auto simp: values_of_def and_then_def read_from_def send_def is_error_def atom_text_def answer_def lift_res_def refuse_def
      model_pairs_def seat_var_def seat_chosen_def split: if_splits)

lemma deny_out: "deny as se = Inr (u, se') \<Longrightarrow> se_out se' = se_out se"
  by (auto simp: deny_def and_then_def lift_res_def refuse_def answer_def send_def split: sum.splits if_splits)

lemma seat_chosen_name: "chosen seat_chosen = [''P::s::a'']"
  by (simp add: chosen_def seat_chosen_def assign_def render_value_def seat_var_def seat_sort_def seat_names)

lemma seat_states:
  "after_denials [seat_var] seat_asked sols se \<Longrightarrow>
    sols = [] \<and> se_out se = ''sat'' @ seat_model \<or> sols = [seat_chosen] \<and> se_out se = '' unsat''"
proof (induction rule: after_denials.induct)
  case start
  then show ?case by (simp add: seat_asked_def seat_session_def)
next
  case (denied sols se1 se2 as se3 se4)
  from denied.IH denied(2) seat_unsat [of se1] have "sols = []" "se_out se1 = ''sat'' @ seat_model" by auto
  with seat_sat [of se1] denied(2) have "se_out se2 = seat_model" by auto
  from seat_values [OF this denied(3)] deny_out [OF denied(4)] \<open>sols = []\<close> show ?case by simp
qed

lemma seat_right: "right_about {[''P::s::a'']} [seat_var] seat_asked"
  unfolding right_about_def
proof (intro allI impI conjI)
  fix sols se1 se2
  assume "after_denials [seat_var] seat_asked sols se1" "verdict se1 = Inr (StatusUnsat, se2)"
  with seat_states [of sols se1] seat_sat [of se1] show "{[''P::s::a'']} \<subseteq> chosen ` set sols"
    by (auto simp: seat_chosen_name)
next
  fix sols se1 se2 as se3
  assume a: "after_denials [seat_var] seat_asked sols se1" "verdict se1 = Inr (StatusSat, se2)" "values_of [seat_var] se2 = Inr (as, se3)"
  with seat_states [of sols se1] seat_unsat [of se1] have "sols = []" "se_out se1 = ''sat'' @ seat_model" by auto
  with seat_sat [of se1] a(2) have "se_out se2 = seat_model" by auto
  from seat_values [OF this a(3)] \<open>sols = []\<close> show "chosen as \<in> {[''P::s::a'']} - chosen ` set sols"
    by (simp add: seat_chosen_name)
qed


end
