(* ===== verification/Smt_Translate.thy ===== *)
theory Smt_Translate
  imports Smt_Model Eval
begin

text \<open>
  The translation of expressions and conditions to terms, \<open>internal/core/solve/translate.go\<close>. What a name
  or a feature chain reads, quantities and their dimensions are the record \<open>tr_env\<close>: \<open>reference.go\<close> and the
  semantic model. A translation keeps the side conditions it asserted; the rest of its state, which
  references declare variables in, is \<open>'s\<close>.
\<close>

section \<open>State and refusals\<close>

record 's tr_state =
  ts_guards :: "(smt_term \<times> provenance) list"
  ts_guarded :: "string set"
  ts_nonlinear :: bool
  ts_int_div :: bool
  ts_outer :: 's

record refusal =
  rf_construct :: string
  rf_reason :: string
  rf_element :: string
  rf_condition :: string
  rf_file :: string
  rf_location :: string

text \<open>What the translation is of: the subject, and the condition being translated.\<close>

record subject =
  su_kind :: string
  su_name :: string
  su_negated :: bool
  su_label :: string
  su_file :: string

type_synonym 's translation = "('s tr_state, refusal, smt_term) prog"

record ('n, 's) tr_env =
  te_pow :: "float64 \<Rightarrow> float64 \<Rightarrow> float64"
  te_reference :: "subject \<Rightarrow> nat \<Rightarrow> string list \<Rightarrow> 's translation"
  te_node :: "subject \<Rightarrow> nat \<Rightarrow> 'n \<Rightarrow> 's translation"
  te_commensurable :: "'n expr \<Rightarrow> 'n expr \<Rightarrow> bool"
  te_dimension_text :: "'n expr \<Rightarrow> string"
  te_location :: "string \<Rightarrow> 'n expr option \<Rightarrow> string"

definition refusal_of :: "('n, 's) tr_env \<Rightarrow> subject \<Rightarrow> 'n expr option \<Rightarrow> string \<Rightarrow> string \<Rightarrow> refusal" where
  "refusal_of env su node what why =
     \<lparr>rf_construct = what, rf_reason = why, rf_element = su_kind su @ '' '' @ su_name su,
      rf_condition = su_label su, rf_file = su_file su, rf_location = te_location env (su_file su) node\<rparr>"

definition refuse_at :: "('n, 's) tr_env \<Rightarrow> subject \<Rightarrow> 'n expr \<Rightarrow> string \<Rightarrow> string \<Rightarrow> ('s tr_state, refusal, 'a) prog" where
  "refuse_at env su node what why = throw (refusal_of env su (Some node) what why)"

fun operator_text :: "operator \<Rightarrow> string" where
  "operator_text OpConditional = ''if''" | "operator_text OpNullCoalesce = ''??''" | "operator_text OpImplies = ''implies''"
| "operator_text OpOr = ''|''" | "operator_text OpConditionalOr = ''or''" | "operator_text OpXor = ''xor''"
| "operator_text OpAnd = ''&''" | "operator_text OpConditionalAnd = ''and''" | "operator_text OpEq = ''==''"
| "operator_text OpNeq = [CHR 0x21, CHR ''='']" | "operator_text OpEqEqEq = ''===''"
| "operator_text OpNeqEqEq = [CHR 0x21, CHR ''='', CHR ''='']" | "operator_text OpHasType = ''hastype''"
| "operator_text OpIsType = ''istype''" | "operator_text OpAt = ''@''" | "operator_text OpMetaAt = ''@@''"
| "operator_text OpAs = ''as''" | "operator_text OpMeta = ''meta''" | "operator_text OpLt = ''<''" | "operator_text OpGt = ''>''"
| "operator_text OpLe = ''<=''" | "operator_text OpGe = ''>=''" | "operator_text OpRange = ''..''" | "operator_text OpAdd = ''+''"
| "operator_text OpSub = ''-''" | "operator_text OpMul = ''*''" | "operator_text OpDiv = ''/''" | "operator_text OpMod = ''%''"
| "operator_text OpPow = ''**''" | "operator_text OpNeg = ''-''" | "operator_text OpPos = ''+''" | "operator_text OpBitNot = ''~''"
| "operator_text OpNot = ''not''" | "operator_text OpAll = ''all''" | "operator_text OpIndex = ''[]''"

definition tick :: "string \<Rightarrow> string" where
  "tick s = [CHR 0x60] @ s @ [CHR 0x60]"

definition operator_construct :: "operator \<Rightarrow> string" where
  "operator_construct op = ''operator '' @ tick (operator_text op)"

definition operator_reason :: "operator \<Rightarrow> string" where
  "operator_reason op =
     (if op = OpPow then ''exponentiation is outside the arithmetic encoded here''
      else if op = OpRange then ''a range is a collection''
      else if op \<in> {OpIndex, OpAll} then ''a collection operation is outside the subset''
      else if op \<in> {OpEqEqEq, OpNeqEqEq} then ''identity compares objects rather than values''
      else if op \<in> {OpHasType, OpIsType, OpAs, OpMeta, OpAt, OpMetaAt} then ''classification and metadata are not encoded as terms''
      else if op = OpNullCoalesce then ''a null value has no term''
      else if op = OpBitNot then ''bitwise negation is outside the subset''
      else ''it is outside the subset'')"

section \<open>Operands\<close>

definition promote :: "smt_term \<Rightarrow> smt_term \<Rightarrow> smt_term \<times> smt_term" where
  "promote l r =
     (if so_kind (term_sort l) = SortInt \<and> so_kind (term_sort r) = SortReal then (to_real_term l, r)
      else if so_kind (term_sort l) = SortReal \<and> so_kind (term_sort r) = SortInt then (l, to_real_term r)
      else (l, r))"

definition require_sort :: "('n, 's) tr_env \<Rightarrow> subject \<Rightarrow> operator \<Rightarrow> 'n expr \<Rightarrow> smt_sort \<Rightarrow> smt_term \<Rightarrow> 's translation" where
  "require_sort env su op node want t =
     (if same_sort (term_sort t) want then give t
      else refuse_at env su node (''operand of '' @ tick (operator_text op))
        (''it yields '' @ so_name (term_sort t) @ '' rather than '' @ so_name want))"

definition missing_operand :: "('n, 's) tr_env \<Rightarrow> subject \<Rightarrow> operator \<Rightarrow> 'n expr \<Rightarrow> 's translation" where
  "missing_operand env su op node = refuse_at env su node (operator_construct op) ''it is missing an operand''"

definition require_numbers ::
  "('n, 's) tr_env \<Rightarrow> subject \<Rightarrow> operator \<Rightarrow> 'n expr \<Rightarrow> smt_term \<Rightarrow> smt_term
    \<Rightarrow> ('s tr_state, refusal, smt_term \<times> smt_term) prog" where
  "require_numbers env su op node l r =
     (if \<not> numeric_sort (term_sort l) \<or> \<not> numeric_sort (term_sort r)
      then refuse_at env su node (operator_construct op)
        (''its operands yield '' @ so_name (term_sort l) @ '' and '' @ so_name (term_sort r) @ '' rather than numbers'')
      else give (promote l r))"

definition same_dimension ::
  "('n, 's) tr_env \<Rightarrow> subject \<Rightarrow> operator \<Rightarrow> 'n expr \<Rightarrow> 'n expr \<Rightarrow> 'n expr \<Rightarrow> ('s tr_state, refusal, unit) prog" where
  "same_dimension env su op node a b =
     (if te_commensurable env a b then give ()
      else refuse_at env su node (operator_construct op)
        (''incommensurable units: '' @ te_dimension_text env a @ '' against '' @ te_dimension_text env b))"

section \<open>Operators\<close>

definition equality_term ::
  "('n, 's) tr_env \<Rightarrow> subject \<Rightarrow> operator \<Rightarrow> 'n expr \<Rightarrow> 'n expr \<Rightarrow> 'n expr \<Rightarrow> smt_op \<Rightarrow> smt_term \<Rightarrow> smt_term \<Rightarrow> 's translation" where
  "equality_term env su op node a b sop l0 r0 =
     (let (l, r) = promote l0 r0 in
      if \<not> same_sort (term_sort l) (term_sort r)
      then refuse_at env su node (operator_construct op)
        (''its operands yield '' @ so_name (term_sort l) @ '' and '' @ so_name (term_sort r))
      else if numeric_sort (term_sort l)
      then then_do (same_dimension env su op node a b) (\<lambda>_. give (binary_term sop bool_sort l r))
      else give (binary_term sop bool_sort l r))"

definition comparison_term ::
  "('n, 's) tr_env \<Rightarrow> subject \<Rightarrow> operator \<Rightarrow> 'n expr \<Rightarrow> 'n expr \<Rightarrow> 'n expr \<Rightarrow> smt_op \<Rightarrow> smt_term \<Rightarrow> smt_term \<Rightarrow> 's translation" where
  "comparison_term env su op node a b sop l0 r0 =
     then_do (require_numbers env su op node l0 r0) (\<lambda>(l, r).
     then_do (same_dimension env su op node a b) (\<lambda>_. give (binary_term sop bool_sort l r)))"

definition additive_term ::
  "('n, 's) tr_env \<Rightarrow> subject \<Rightarrow> operator \<Rightarrow> 'n expr \<Rightarrow> 'n expr \<Rightarrow> 'n expr \<Rightarrow> smt_op \<Rightarrow> smt_term \<Rightarrow> smt_term \<Rightarrow> 's translation" where
  "additive_term env su op node a b sop l0 r0 =
     then_do (require_numbers env su op node l0 r0) (\<lambda>(l, r).
     then_do (same_dimension env su op node a b) (\<lambda>_. give (binary_term sop (term_sort l) l r)))"

definition zero_term :: "smt_term \<Rightarrow> bool" where
  "zero_term t = (case t of IntTerm i \<Rightarrow> i = 0 | RealTerm r \<Rightarrow> r = 0 | _ \<Rightarrow> False)"

definition zero_of :: "smt_sort \<Rightarrow> smt_term" where
  "zero_of s = (if so_kind s = SortInt then IntTerm 0 else RealTerm 0)"

definition hoistable :: "subject \<Rightarrow> nat \<Rightarrow> bool" where
  "hoistable su br \<longleftrightarrow> br = 0 \<and> \<not> su_negated su"

definition guard_provenance :: "('n, 's) tr_env \<Rightarrow> subject \<Rightarrow> 'n expr \<Rightarrow> provenance" where
  "guard_provenance env su node =
     \<lparr>pv_kind = su_kind su, pv_element = su_name su, pv_condition = su_label su, pv_role = RoleDefined,
      pv_declared = [], pv_location = te_location env (su_file su) (Some node)\<rparr>"

definition add_guard :: "smt_term \<Rightarrow> provenance \<Rightarrow> 's tr_state \<Rightarrow> 's tr_state" where
  "add_guard t p st =
     (if write_term t \<in> ts_guarded st then st
      else st\<lparr>ts_guarded := insert (write_term t) (ts_guarded st), ts_guards := ts_guards st @ [(t, p)]\<rparr>)"

definition nonzero_term :: "smt_term \<Rightarrow> smt_term" where
  "nonzero_term d = binary_term SmtNe bool_sort d (zero_of (term_sort d))"

definition check_divisor ::
  "('n, 's) tr_env \<Rightarrow> subject \<Rightarrow> nat \<Rightarrow> operator \<Rightarrow> 'n expr \<Rightarrow> smt_term \<Rightarrow> ('s tr_state, refusal, unit) prog" where
  "check_divisor env su br op node d =
     (if literal_term d then
        (if zero_term d
         then refuse_at env su node (operator_construct op @ '' by zero'') ''the evaluator reports division by zero''
         else give ())
      else if \<not> hoistable su br
      then refuse_at env su node (operator_construct op @ '' by a computed divisor'')
        (''asserting the divisor non-zero would deny assignments the evaluator accepts, ''
         @ ''as this division may go unevaluated'')
      else update (\<lambda>st. add_guard (nonzero_term d) (guard_provenance env su node) (st\<lparr>ts_nonlinear := True\<rparr>)))"

definition note_int_div :: "('s tr_state, refusal, unit) prog" where
  "note_int_div = update (\<lambda>st. st\<lparr>ts_int_div := True\<rparr>)"

definition division_term ::
  "('n, 's) tr_env \<Rightarrow> subject \<Rightarrow> nat \<Rightarrow> 'n expr \<Rightarrow> smt_term \<Rightarrow> smt_term \<Rightarrow> 's translation" where
  "division_term env su br node l0 r0 =
     then_do (require_numbers env su OpDiv node l0 r0) (\<lambda>(l, r).
     then_do (check_divisor env su br OpDiv node r) (\<lambda>_.
       if so_kind (term_sort l) = SortInt \<and> so_kind (term_sort r) = SortInt
       then then_do note_int_div (\<lambda>_. give (trunc_div l r))
       else give (binary_term SmtDiv real_sort (to_real_term l) (to_real_term r))))"

definition product_term :: "('n, 's) tr_env \<Rightarrow> subject \<Rightarrow> 'n expr \<Rightarrow> smt_term \<Rightarrow> smt_term \<Rightarrow> 's translation" where
  "product_term env su node l0 r0 =
     then_do (require_numbers env su OpMul node l0 r0) (\<lambda>(l, r).
     then_do (update (\<lambda>st. if \<not> literal_term l \<and> \<not> literal_term r then st\<lparr>ts_nonlinear := True\<rparr> else st))
       (\<lambda>_. give (binary_term SmtMul (term_sort l) l r)))"

definition remainder_term ::
  "('n, 's) tr_env \<Rightarrow> subject \<Rightarrow> nat \<Rightarrow> 'n expr \<Rightarrow> smt_term \<Rightarrow> smt_term \<Rightarrow> 's translation" where
  "remainder_term env su br node l0 r0 =
     then_do (require_numbers env su OpMod node l0 r0) (\<lambda>(l, r).
       if so_kind (term_sort l) \<noteq> SortInt \<or> so_kind (term_sort r) \<noteq> SortInt
       then refuse_at env su node (operator_construct OpMod @ '' on real numbers'')
         ''the evaluator computes it in floating point, which this encoding does not model''
       else then_do (check_divisor env su br OpMod node r) (\<lambda>_.
            then_do note_int_div (\<lambda>_. give (trunc_rem l r))))"

text \<open>What the constant folder answers for a division or a remainder of constants.\<close>

definition folded_term :: "('n, 's) tr_env \<Rightarrow> 'n expr \<Rightarrow> smt_term option" where
  "folded_term env node =
     (case eval_const (te_pow env) node of
        Some (ConstInt i) \<Rightarrow> Some (IntTerm i)
      | Some (ConstReal (Finite q)) \<Rightarrow> Some (RealTerm q)
      | _ \<Rightarrow> None)"

definition negated_term :: "smt_term \<Rightarrow> smt_term" where
  "negated_term t =
     (case t of IntTerm i \<Rightarrow> IntTerm (- i) | RealTerm r \<Rightarrow> RealTerm (- r) | _ \<Rightarrow> unary_term SmtNeg (term_sort t) t)"

definition sign_term :: "('n, 's) tr_env \<Rightarrow> subject \<Rightarrow> operator \<Rightarrow> 'n expr \<Rightarrow> smt_term \<Rightarrow> 's translation" where
  "sign_term env su op node t =
     (if \<not> numeric_sort (term_sort t)
      then refuse_at env su node (operator_construct op)
        (''its operand yields '' @ so_name (term_sort t) @ '' rather than a number'')
      else give (if op = OpPos then t else negated_term t))"

definition branches_term :: "('n, 's) tr_env \<Rightarrow> subject \<Rightarrow> 'n expr \<Rightarrow> smt_term \<Rightarrow> smt_term \<Rightarrow> smt_term \<Rightarrow> 's translation" where
  "branches_term env su node c a0 b0 =
     (let (a, b) = promote a0 b0 in
      if \<not> same_sort (term_sort a) (term_sort b)
      then refuse_at env su node ''conditional expression''
        (''its branches yield '' @ so_name (term_sort a) @ '' and '' @ so_name (term_sort b))
      else give (ite_term c a b))"

fun connective_of :: "operator \<Rightarrow> smt_op option" where
  "connective_of OpAnd = Some SmtAnd" | "connective_of OpConditionalAnd = Some SmtAnd"
| "connective_of OpOr = Some SmtOr" | "connective_of OpConditionalOr = Some SmtOr"
| "connective_of OpXor = Some SmtXor" | "connective_of OpImplies = Some SmtImplies"
| "connective_of op = None"

definition connective_term :: "smt_op \<Rightarrow> smt_term \<Rightarrow> smt_term \<Rightarrow> smt_term" where
  "connective_term c l r =
     (if c = SmtAnd then and_term [l, r] else if c = SmtOr then or_term [l, r] else binary_term c bool_sort l r)"

fun comparison_of :: "operator \<Rightarrow> smt_op option" where
  "comparison_of OpLt = Some SmtLt" | "comparison_of OpLe = Some SmtLe" | "comparison_of OpGt = Some SmtGt"
| "comparison_of OpGe = Some SmtGe" | "comparison_of op = None"

text \<open>The operators on two translated operands.\<close>

definition operands_term ::
  "('n, 's) tr_env \<Rightarrow> subject \<Rightarrow> nat \<Rightarrow> operator \<Rightarrow> 'n expr \<Rightarrow> 'n expr \<Rightarrow> 'n expr \<Rightarrow> smt_term \<Rightarrow> smt_term \<Rightarrow> 's translation" where
  "operands_term env su br op node a b l r =
     (case comparison_of op of
        Some sop \<Rightarrow> comparison_term env su op node a b sop l r
      | None \<Rightarrow>
          if op = OpEq then equality_term env su op node a b SmtEq l r
          else if op = OpNeq then equality_term env su op node a b SmtNe l r
          else if op = OpAdd then additive_term env su op node a b SmtAdd l r
          else if op = OpSub then additive_term env su op node a b SmtSub l r
          else if op = OpMul then product_term env su node l r
          else if op = OpDiv then division_term env su br node l r
          else remainder_term env su br node l r)"

definition two_operand_ops :: "operator set" where
  "two_operand_ops = {OpEq, OpNeq, OpLt, OpLe, OpGt, OpGe, OpAdd, OpSub, OpMul, OpDiv, OpMod}"

fun node_text :: "'n expr \<Rightarrow> string" where
  "node_text NullExpr = tick ''null''"
| "node_text LiteralInfinity = tick ''*''"
| "node_text e = ''expression''"

section \<open>Expressions\<close>

text \<open>\<open>br\<close> counts the enclosing contexts that may leave the expression unevaluated.\<close>

fun translate_expr :: "('n, 's) tr_env \<Rightarrow> subject \<Rightarrow> nat \<Rightarrow> 'n expr \<Rightarrow> 's translation" where
  "translate_expr env su br (LiteralBool b) = give (BoolTerm b)"
| "translate_expr env su br (LiteralInteger s) =
     (case parse_int64 s of (i, ok) \<Rightarrow>
        if ok then give (IntTerm i)
        else refuse_at env su (LiteralInteger s) (''integer literal '' @ s) ''it does not fit a 64-bit integer'')"
| "translate_expr env su br (LiteralReal s) =
     (case set_string s of
        Some r \<Rightarrow> give (RealTerm r)
      | None \<Rightarrow> refuse_at env su (LiteralReal s) (''real literal '' @ s) ''it is not an exact rational'')"
| "translate_expr env su br (LiteralString s) = give (StringTerm (strip_quotes s))"
| "translate_expr env su br (NameExpr ns) = te_reference env su br ns"
| "translate_expr env su br (OtherE n) = te_node env su br n"
| "translate_expr env su br (SequenceExpr es) =
     (case es of
        [e] \<Rightarrow> translate_expr env su br e
      | _ \<Rightarrow> refuse_at env su (SequenceExpr es) ''sequence'' ''a collection is outside the subset'')"
| "translate_expr env su br (OperatorExpr op es) =
     (if op = OpNot then
        (case es of
           [] \<Rightarrow> missing_operand env su op (OperatorExpr op es)
         | a # _ \<Rightarrow> then_do (translate_expr env su (Suc br) a) (\<lambda>t.
             then_do (require_sort env su op a bool_sort t) (\<lambda>t'. give (not_term t'))))
      else case connective_of op of
        Some c \<Rightarrow>
          (case es of
             [] \<Rightarrow> missing_operand env su op (OperatorExpr op es)
           | a # rest \<Rightarrow> then_do (translate_expr env su (if c = SmtAnd then br else Suc br) a) (\<lambda>l0.
               then_do (require_sort env su op a bool_sort l0) (\<lambda>l.
               case rest of
                 [] \<Rightarrow> missing_operand env su op (OperatorExpr op es)
               | b # _ \<Rightarrow> then_do (translate_expr env su (if c = SmtAnd then br else Suc br) b) (\<lambda>r0.
                   then_do (require_sort env su op b bool_sort r0) (\<lambda>r. give (connective_term c l r))))))
      | None \<Rightarrow>
          if op \<in> two_operand_ops then
            (case (if op = OpDiv \<or> op = OpMod then folded_term env (OperatorExpr op es) else None) of
               Some t \<Rightarrow> give t
             | None \<Rightarrow>
                 (case es of
                    [a, b] \<Rightarrow> then_do (translate_expr env su br a) (\<lambda>l. then_do (translate_expr env su br b)
                      (\<lambda>r. operands_term env su br op (OperatorExpr op es) a b l r))
                  | _ \<Rightarrow> refuse_at env su (OperatorExpr op es) (operator_construct op) ''it takes two operands''))
          else if op = OpNeg \<or> op = OpPos then
            (case es of
               [a] \<Rightarrow> then_do (translate_expr env su br a) (sign_term env su op (OperatorExpr op es))
             | _ \<Rightarrow> refuse_at env su (OperatorExpr op es) (operator_construct op) ''it takes one operand'')
          else if op = OpConditional then
            (case es of
               [c, a, b] \<Rightarrow> then_do (translate_expr env su br c) (\<lambda>t.
                 then_do (require_sort env su op c bool_sort t) (\<lambda>t'.
                 then_do (translate_expr env su (Suc br) a) (\<lambda>l.
                 then_do (translate_expr env su (Suc br) b) (\<lambda>r.
                   branches_term env su (OperatorExpr op es) t' l r))))
             | _ \<Rightarrow> refuse_at env su (OperatorExpr op es) ''conditional expression'' ''it takes a condition and two branches'')
          else refuse_at env su (OperatorExpr op es) (operator_construct op) (operator_reason op))"
| "translate_expr env su br e = refuse_at env su e (node_text e) ''it is outside the subset''"

end
