(* ===== verification/Smt_Agreement.thy ===== *)
theory Smt_Agreement
  imports Smt_Translate Smt_Values Eval_Properties
begin

text \<open>
  The translation of an expression against the evaluation of it: in a model that satisfies the side
  conditions the translation asserted, the term has the value the evaluator computes.
\<close>

section \<open>Subterms\<close>

lemma subterms_self: "t \<in> set (subterms t)"
  by (cases t) simp_all

lemma subterms_arg: "a \<in> set ts \<Longrightarrow> u \<in> set (subterms a) \<Longrightarrow> u \<in> set (subterms (Compound op s ts))"
  by auto

lemma subterms_trans: "u \<in> set (subterms t) \<Longrightarrow> w \<in> set (subterms u) \<Longrightarrow> w \<in> set (subterms t)"
proof (induction t)
  case (Compound op s ts)
  then show ?case by (cases "u = Compound op s ts") auto
qed simp_all

text \<open>
  The terms the comparison is about: no real arithmetic, whose doubles the encoding takes as exact numbers;
  integers a double holds exactly, below \<open>2\<^sup>5\<^sup>3\<close>, so that nothing wraps and constants compare as they do
  at run time; and divisors whose side condition, if it was asserted, holds. \<open>G\<close> are the asserted texts.
\<close>

definition tame_at :: "(string \<Rightarrow> smt_value) \<Rightarrow> string set \<Rightarrow> smt_term \<Rightarrow> bool" where
  "tame_at m G u \<longleftrightarrow>
     so_kind (term_sort u) \<noteq> SortReal
     \<and> (\<forall>x. meaning m u = Some (IntV x) \<longrightarrow> \<bar>x\<bar> < 2 ^ 53)
     \<and> (\<not> literal_term u \<longrightarrow> so_kind (term_sort u) = SortInt \<longrightarrow> write_term (nonzero_term u) \<in> G \<longrightarrow>
           meaning m (nonzero_term u) = Some (BoolV True))"

definition tame :: "(string \<Rightarrow> smt_value) \<Rightarrow> string set \<Rightarrow> smt_term \<Rightarrow> bool" where
  "tame m G t \<longleftrightarrow> (\<forall>u\<in>set (subterms t). tame_at m G u)"

lemma tame_self: "tame m G t \<Longrightarrow> tame_at m G t"
  using subterms_self [of t] by (simp add: tame_def)

lemma tame_sub: "tame m G t \<Longrightarrow> u \<in> set (subterms t) \<Longrightarrow> tame m G u"
  using subterms_trans [of u t] by (auto simp: tame_def)

lemma tame_arg: "tame m G (Compound op s ts) \<Longrightarrow> a \<in> set ts \<Longrightarrow> tame m G a"
  using tame_sub [of m G "Compound op s ts" a] subterms_arg [OF _ subterms_self, of a ts op s] by blast

lemma tame_not_real: "tame m G t \<Longrightarrow> so_kind (term_sort t) \<noteq> SortReal"
  using tame_self by (auto simp: tame_at_def)

lemma tame_binary:
  assumes "tame m G (binary_term sop s l r)"
  shows "tame m G l" "tame m G r"
  using assms by (auto simp: binary_term_def intro: tame_arg)

lemma tame_trunc_div:
  assumes "tame m G (trunc_div l r)"
  shows "tame m G l" "tame m G r"
proof -
  have "tame m G (binary_term SmtIntDiv int_sort l r)"
    using assms by (auto simp: trunc_div_def ite_term_def intro: tame_arg)
  then show "tame m G l" "tame m G r" by (rule tame_binary)+
qed

lemma tame_trunc_rem:
  assumes "tame m G (trunc_rem l r)"
  shows "tame m G l" "tame m G r" "tame m G (trunc_div l r)"
proof -
  have "tame m G l" "tame m G (binary_term SmtMul int_sort r (trunc_div l r))"
    using assms unfolding trunc_rem_def by (rule tame_binary)+
  then show "tame m G l" "tame m G r" "tame m G (trunc_div l r)" using tame_binary by blast+
qed

section \<open>Negations\<close>

fun unary_nots :: "smt_term \<Rightarrow> bool" where
  "unary_nots (Compound op s ts) \<longleftrightarrow>
     (op = SmtNot \<longrightarrow> length ts = 1 \<and> list_all (\<lambda>a. so_kind (term_sort a) = SortBool) ts) \<and> list_all unary_nots ts"
| "unary_nots t \<longleftrightarrow> True"

lemma unary_not_term: "unary_nots t \<Longrightarrow> same_sort (term_sort t) bool_sort \<Longrightarrow> unary_nots (not_term t)"
  by (cases t) (auto simp: not_term_def same_sort_def bool_sort_def scalar_sort_def split: smt_op.split list.split)

lemma unary_binary: "unary_nots l \<Longrightarrow> unary_nots r \<Longrightarrow> sop \<noteq> SmtNot \<Longrightarrow> unary_nots (binary_term sop s l r)"
  by (simp add: binary_term_def)

lemma unary_trunc_div: "unary_nots l \<Longrightarrow> unary_nots r \<Longrightarrow> unary_nots (trunc_div l r)"
  by (simp add: trunc_div_def ite_term_def binary_term_def unary_term_def)

lemma unary_trunc_rem: "unary_nots l \<Longrightarrow> unary_nots r \<Longrightarrow> unary_nots (trunc_rem l r)"
  by (simp add: trunc_rem_def binary_term_def unary_trunc_div)

lemma unary_to_real: "unary_nots t \<Longrightarrow> unary_nots (to_real_term t)"
  by (cases t) (simp_all add: to_real_term_def)

lemma unary_promote: "unary_nots l \<Longrightarrow> unary_nots r \<Longrightarrow> promote l r = (l', r') \<Longrightarrow> unary_nots l' \<and> unary_nots r'"
  by (auto simp: promote_def unary_to_real split: if_splits)

lemma unary_connective: "unary_nots l \<Longrightarrow> unary_nots r \<Longrightarrow> connective_of op = Some c \<Longrightarrow> unary_nots (connective_term c l r)"
  by (cases op) (auto simp: connective_term_def and_term_def or_term_def junction_def binary_term_def)

lemma unary_negated: "unary_nots t \<Longrightarrow> unary_nots (negated_term t)"
  by (cases t) (simp_all add: negated_term_def unary_term_def)

section \<open>What a successful translation is\<close>

lemma require_sort_ok [simp]:
  "require_sort env su op node want t0 st = (st', Inr t) \<longleftrightarrow> same_sort (term_sort t0) want \<and> st' = st \<and> t = t0"
  by (auto simp: require_sort_def refuse_at_def)

lemma missing_never [simp]: "missing_operand env su op node st = (st', Inr t) \<longleftrightarrow> False"
  by (simp add: missing_operand_def refuse_at_def)

lemma refuse_never [simp]: "refuse_at env su node what why st = (st', Inr t) \<longleftrightarrow> False"
  by (simp add: refuse_at_def)

lemma require_numbers_ok:
  "require_numbers env su op node l0 r0 st = (st', Inr p) \<longleftrightarrow>
    numeric_sort (term_sort l0) \<and> numeric_sort (term_sort r0) \<and> st' = st \<and> p = promote l0 r0"
  by (auto simp: require_numbers_def)

lemma same_dimension_ok:
  "same_dimension env su op node a b st = (st', Inr u) \<longleftrightarrow> te_commensurable env a b \<and> st' = st"
  by (auto simp: same_dimension_def)

definition divisor_ok :: "subject \<Rightarrow> nat \<Rightarrow> smt_term \<Rightarrow> 's tr_state \<Rightarrow> bool" where
  "divisor_ok su br d st \<longleftrightarrow>
     (if literal_term d then \<not> zero_term d else hoistable su br \<and> write_term (nonzero_term d) \<in> ts_guarded st)"

lemma check_divisor_ok:
  assumes "check_divisor env su br op node d st = (st', Inr u)"
  shows "divisor_ok su br d st' \<and> ts_guarded st \<subseteq> ts_guarded st'"
  using assms by (auto simp: check_divisor_def divisor_ok_def add_guard_def split: if_splits)

lemma note_int_div_ok: "note_int_div st = (st', Inr u) \<Longrightarrow> ts_guarded st' = ts_guarded st"
  by (auto simp: note_int_div_def)

text \<open>The operators on two operands, by what they yield.\<close>

inductive operands_yield :: "subject \<Rightarrow> nat \<Rightarrow> operator \<Rightarrow> smt_term \<Rightarrow> smt_term \<Rightarrow> 's tr_state \<Rightarrow> smt_term \<Rightarrow> bool" where
  compare: "comparison_of op = Some sop \<Longrightarrow> numeric_sort (term_sort l) \<Longrightarrow> numeric_sort (term_sort r) \<Longrightarrow>
    operands_yield su br op l r st (binary_term sop bool_sort l r)"
| equal: "(op = OpEq \<and> sop = SmtEq) \<or> (op = OpNeq \<and> sop = SmtNe) \<Longrightarrow> same_sort (term_sort l) (term_sort r) \<Longrightarrow>
    operands_yield su br op l r st (binary_term sop bool_sort l r)"
| arith: "(op = OpAdd \<and> sop = SmtAdd) \<or> (op = OpSub \<and> sop = SmtSub) \<or> (op = OpMul \<and> sop = SmtMul) \<Longrightarrow>
    numeric_sort (term_sort l) \<Longrightarrow> numeric_sort (term_sort r) \<Longrightarrow>
    operands_yield su br op l r st (binary_term sop (term_sort l) l r)"
| quotient: "op = OpDiv \<Longrightarrow> divisor_ok su br r st \<Longrightarrow> so_kind (term_sort l) = SortInt \<Longrightarrow> so_kind (term_sort r) = SortInt \<Longrightarrow>
    operands_yield su br op l r st (trunc_div l r)"
| ratio: "op = OpDiv \<Longrightarrow> divisor_ok su br r st \<Longrightarrow>
    operands_yield su br op l r st (binary_term SmtDiv real_sort (to_real_term l) (to_real_term r))"
| remain: "op = OpMod \<Longrightarrow> divisor_ok su br r st \<Longrightarrow> so_kind (term_sort l) = SortInt \<Longrightarrow> so_kind (term_sort r) = SortInt \<Longrightarrow>
    operands_yield su br op l r st (trunc_rem l r)"

lemma promote_numeric:
  "numeric_sort (term_sort l0) \<Longrightarrow> numeric_sort (term_sort r0) \<Longrightarrow> promote l0 r0 = (l, r) \<Longrightarrow>
    numeric_sort (term_sort l) \<and> numeric_sort (term_sort r)"
  by (auto simp: promote_def to_real_term_def numeric_sort_def real_sort_def scalar_sort_def split: if_splits smt_term.splits)

lemma operands_term_yields:
  assumes "operands_term env su br op node a b l0 r0 st = (st', Inr t)" "op \<in> two_operand_ops" "promote l0 r0 = (l, r)"
  shows "operands_yield su br op l r st' t \<and> ts_guarded st \<subseteq> ts_guarded st'"
proof -
  note defs = operands_term_def two_operand_ops_def comparison_term_def equality_term_def additive_term_def product_term_def
    division_term_def remainder_term_def then_do_Inr require_numbers_ok same_dimension_ok
  consider sop where "comparison_of op = Some sop" | "op \<in> {OpEq, OpNeq}" | "op \<in> {OpAdd, OpSub, OpMul}"
    | "op = OpDiv" | "op = OpMod"
    using assms(2) by (auto simp: two_operand_ops_def)
  then show ?thesis
  proof cases
    case 1
    with assms promote_numeric [OF _ _ assms(3)] show ?thesis
      by (auto simp: defs intro: operands_yield.compare)
  next
    case 2
    with assms show ?thesis
      by (auto simp: defs Let_def split: if_splits intro: operands_yield.equal)
  next
    case 3
    with assms promote_numeric [OF _ _ assms(3)] show ?thesis
      by (auto simp: defs intro: operands_yield.arith split: if_splits)
  next
    case 4
    with assms promote_numeric [OF _ _ assms(3)] check_divisor_ok note_int_div_ok show ?thesis
      by (fastforce simp: defs divisor_ok_def intro: operands_yield.quotient operands_yield.ratio split: if_splits)
  next
    case 5
    with assms promote_numeric [OF _ _ assms(3)] check_divisor_ok note_int_div_ok show ?thesis
      by (fastforce simp: defs divisor_ok_def intro: operands_yield.remain split: if_splits)
  qed
qed

section \<open>Values\<close>

fun kind_of_value :: "smt_value \<Rightarrow> sort_kind" where
  "kind_of_value (BoolV b) = SortBool"
| "kind_of_value (IntV i) = SortInt"
| "kind_of_value (RealV r) = SortReal"
| "kind_of_value (StrV s) = SortString"
| "kind_of_value (ConV c) = SortDatatype"

text \<open>A value of the evaluator and the value of a term; a literal of an enumeration goes by its name.\<close>

fun agrees :: "('o \<Rightarrow> string) \<Rightarrow> ('n, 'o) rvalue \<Rightarrow> smt_value \<Rightarrow> bool" where
  "agrees nm (VConst (ConstBool b)) sv \<longleftrightarrow> sv = BoolV b"
| "agrees nm (VConst (ConstInt i)) sv \<longleftrightarrow> sv = IntV (sint i)"
| "agrees nm (VString s) sv \<longleftrightarrow> sv = StrV s"
| "agrees nm (VEnumLiteral l) sv \<longleftrightarrow> sv = ConV (nm l)"
| "agrees nm v sv \<longleftrightarrow> False"

lemma agrees_int: "agrees nm v (IntV x) \<longleftrightarrow> (\<exists>i. v = VConst (ConstInt i) \<and> sint i = x)"
  by (cases "(nm, v, IntV x)" rule: agrees.cases) auto

lemma agrees_bool: "agrees nm v (BoolV b) \<longleftrightarrow> v = VConst (ConstBool b)"
  by (cases "(nm, v, BoolV b)" rule: agrees.cases) auto

lemma agrees_string: "agrees nm v (StrV s) \<longleftrightarrow> v = VString s"
  by (cases "(nm, v, StrV s)" rule: agrees.cases) auto

lemma agrees_name: "agrees nm v (ConV c) \<longleftrightarrow> (\<exists>l. v = VEnumLiteral l \<and> nm l = c)"
  by (cases "(nm, v, ConV c)" rule: agrees.cases) auto

lemmas agrees_value = agrees_int agrees_bool agrees_string agrees_name

lemma kind_int: "kind_of_value sv = SortInt \<longleftrightarrow> (\<exists>x. sv = IntV x)"
  by (cases sv) simp_all

lemma int_value:
  "numeric_sort s \<Longrightarrow> so_kind s \<noteq> SortReal \<Longrightarrow> kind_of_value sv = so_kind s \<Longrightarrow> \<exists>x. sv = IntV x"
  by (cases sv) (auto simp: numeric_sort_def)

lemma sint_zero: "sint (i :: int64) = 0 \<longleftrightarrow> i = 0"
  using signed_word_eqI [of i 0] by auto

lemma kind_bool: "kind_of_value sv = SortBool \<longleftrightarrow> (\<exists>b. sv = BoolV b)"
  by (cases sv) simp_all

definition operand_prog ::
  "('n, 'o, 'c) eval_env \<Rightarrow> operator \<Rightarrow> ('n, 'o) rvalue \<Rightarrow> ('n, 'o) rvalue \<Rightarrow> ('n, 'o, 'c, ('n, 'o) rvalue) eprog" where
  "operand_prog eenv op v w =
     (case class_of op of
        ClassArithmetic \<Rightarrow> result_of (arith_values eenv op v w)
      | ClassEquality \<Rightarrow> equality_values eenv op v w
      | _ \<Rightarrow> result_of (compare_values eenv op v w))"

lemma small_word: "\<bar>n\<bar> < 2 ^ 53 \<Longrightarrow> sint (word_of_int n :: int64) = n"
  by (rule sint_of_int64) (simp add: in_int64_def min_int64_def max_int64_def abs_less_iff)

lemma small_exact: "\<bar>sint i\<bar> < 2 ^ 53 \<Longrightarrow> exact_double i"
  by (simp add: exact_double_def)

lemma word_arith: "(a :: int64) + b = word_of_int (sint a + sint b)" "a - b = word_of_int (sint a - sint b)"
  "a * b = word_of_int (sint a * sint b)"
  by (simp_all add: wi_hom_add [symmetric] wi_hom_sub [symmetric] wi_hom_mult [symmetric])

lemma relation_ints:
  assumes "comparison_of op = Some sop"
  shows "class_of op = ClassComparison"
    and "arith_op sop [IntV x, IntV y] = Some (BoolV b) \<Longrightarrow> sint i = x \<Longrightarrow> sint j = y \<Longrightarrow> compare_ints op i j = b"
    and "\<exists>b. apply_op sop [IntV x, IntV y] = Some (BoolV b) \<and> arith_op sop [IntV x, IntV y] = Some (BoolV b)"
  using assms by (cases op; auto simp: class_of_def bool_ops_def compare_ints_def apply_op_def)+

lemma divisor_nonzero:
  assumes "divisor_ok su br d st" "ts_guarded st \<subseteq> G" "tame m G d" "meaning m d = Some (IntV y)" "so_kind (term_sort d) = SortInt"
  shows "y \<noteq> 0"
proof (cases "literal_term d")
  case True
  with assms(1,4) show ?thesis by (cases d) (auto simp: divisor_ok_def zero_term_def sint_zero)
next
  case False
  with assms(1,2) have "write_term (nonzero_term d) \<in> G" by (auto simp: divisor_ok_def)
  with tame_self [OF assms(3)] False assms(5) have "meaning m (nonzero_term d) = Some (BoolV True)" by (simp add: tame_at_def)
  with assms(4,5) show ?thesis by (auto simp: nonzero_term_def binary_term_def zero_of_def apply_op_def)
qed

lemma equality_agrees_values:
  assumes "kind_of_value sl = kind_of_value sr" "kind_of_value sl \<noteq> SortReal" "inj nm"
    "\<And>x. sl = IntV x \<Longrightarrow> \<bar>x\<bar> < 2 ^ 53" "\<And>x. sr = IntV x \<Longrightarrow> \<bar>x\<bar> < 2 ^ 53"
    "agrees nm v sl" "agrees nm w sr"
  shows "equality_values eenv op v w = give (bool_value (if op = OpNeq then sl \<noteq> sr else sl = sr))"
proof -
  have "value_equal eenv v w \<longleftrightarrow> sl = sr"
  proof (cases sl)
    case (BoolV b)
    with assms obtain c where "sr = BoolV c" by (cases sr) auto
    with assms(6,7) BoolV show ?thesis by (auto simp: agrees_value eval_binary_def bool_ops_def eval_equality_def)
  next
    case (IntV x)
    with assms obtain y where "sr = IntV y" by (cases sr) auto
    with assms(4-7) IntV show ?thesis
      by (auto simp: agrees_value eval_binary_def bool_ops_def eval_equality_def exact_double_compare small_exact)
  next
    case (StrV s)
    with assms obtain t where "sr = StrV t" by (cases sr) auto
    with assms(6,7) StrV show ?thesis by (auto simp: agrees_value value_equal.simps [of _ "VString s"])
  next
    case (ConV c)
    with assms obtain d where "sr = ConV d" by (cases sr) auto
    with assms(3,6,7) ConV show ?thesis
      by (auto simp: agrees_value value_equal.simps [of _ "VEnumLiteral _"] dest: injD)
  qed (use assms(2) in auto)
  moreover have "quantity_operands eenv op v w = None" "is_variant v = is_variant w"
    using assms(1,2,6,7) by (cases sl; cases sr; auto simp: agrees_value quantity_operands_def is_variant_def)+
  ultimately show ?thesis by (simp add: equality_values_def)
qed

lemma operands_agree:
  assumes "operands_yield su br op l r st t" "ts_guarded st \<subseteq> G" "tame m G t" "inj nm"
    "meaning m l = Some sl" "kind_of_value sl = so_kind (term_sort l)"
    "meaning m r = Some sr" "kind_of_value sr = so_kind (term_sort r)"
  shows "\<exists>sv. meaning m t = Some sv \<and> kind_of_value sv = so_kind (term_sort t)
    \<and> (\<forall>v w. agrees nm v sl \<longrightarrow> agrees nm w sr \<longrightarrow> (\<exists>u. operand_prog eenv op v w = give u \<and> agrees nm u sv))"
  using assms(1)
proof cases
  case (compare sop)
  then have lr: "tame m G l" "tame m G r" using assms(3) tame_binary by blast+
  obtain x y where xy: "sl = IntV x" "sr = IntV y"
    using int_value [OF compare(3) tame_not_real [OF lr(1)] assms(6)]
      int_value [OF compare(4) tame_not_real [OF lr(2)] assms(8)] by blast
  obtain b where b: "apply_op sop [IntV x, IntV y] = Some (BoolV b)" "arith_op sop [IntV x, IntV y] = Some (BoolV b)"
    using relation_ints(3) [OF compare(2)] by blast
  have "operand_prog eenv op (VConst (ConstInt i)) (VConst (ConstInt j)) = give (bool_value b)"
    if "sint i = x" "sint j = y" for i j
    using relation_ints(1,2) [OF compare(2)] b(2) that
    by (simp add: operand_prog_def compare_values_def compare_consts_def)
  with compare(1) b xy assms(5,7) show ?thesis
    by (auto simp: binary_term_def bool_sort_def scalar_sort_def agrees_value bool_value_def)
next
  case (equal sop)
  then have lr: "tame m G l" "tame m G r" using assms(3) tame_binary by blast+
  have kinds: "kind_of_value sl = kind_of_value sr" "kind_of_value sl \<noteq> SortReal"
    using equal(3) tame_not_real [OF lr(1)] assms(6,8) by (simp_all add: same_sort_def)
  have small: "sl = IntV x \<Longrightarrow> \<bar>x\<bar> < 2 ^ 53" "sr = IntV x \<Longrightarrow> \<bar>x\<bar> < 2 ^ 53" for x
    using tame_self [OF lr(1)] tame_self [OF lr(2)] assms(5,7) by (simp_all add: tame_at_def)
  have "class_of op = ClassEquality" using equal(2) by (auto simp: class_of_def)
  then have "operand_prog eenv op v w = give (bool_value (if op = OpNeq then sl \<noteq> sr else sl = sr))"
    if "agrees nm v sl" "agrees nm w sr" for v w
    using equality_agrees_values [OF kinds assms(4) small that, where eenv = eenv and op = op] by (simp add: operand_prog_def)
  with equal assms(5,7) show ?thesis
    by (auto simp: binary_term_def bool_sort_def scalar_sort_def agrees_value bool_value_def apply_op_def)
next
  case (arith sop)
  then have lr: "tame m G l" "tame m G r" using assms(3) tame_binary by blast+
  obtain x y where xy: "sl = IntV x" "sr = IntV y"
    using int_value [OF arith(3) tame_not_real [OF lr(1)] assms(6)]
      int_value [OF arith(4) tame_not_real [OF lr(2)] assms(8)] by blast
  obtain z where z: "apply_op sop [IntV x, IntV y] = Some (IntV z)"
      "\<And>i j. sint i = x \<Longrightarrow> sint j = y \<Longrightarrow> int_arith op i j = Inr (word_of_int z)"
    using arith(2) by (auto simp: apply_op_def word_arith)
  have mt: "meaning m t = Some (IntV z)" using arith(1) xy z(1) assms(5,7) by (simp add: binary_term_def)
  with tame_self [OF assms(3)] have "\<bar>z\<bar> < 2 ^ 53" by (simp add: tame_at_def)
  then have "sint (word_of_int z :: int64) = z" by (rule small_word)
  moreover have "operand_prog eenv op (VConst (ConstInt i)) (VConst (ConstInt j)) = give (VConst (ConstInt (word_of_int z)))"
    if "sint i = x" "sint j = y" for i j
    using arith(2) z(2) [OF that] by (auto simp: operand_prog_def class_of_def arith_values_def arith_consts_def)
  ultimately show ?thesis
    using mt arith(1) assms(6) xy by (auto simp: binary_term_def agrees_value)
next
  case quotient
  then have lr: "tame m G l" "tame m G r" using assms(3) tame_trunc_div by blast+
  from quotient(4,5) obtain x y where xy: "sl = IntV x" "sr = IntV y"
    using assms(6,8) by (metis kind_int)
  have nz: "y \<noteq> 0" using divisor_nonzero [OF quotient(3) assms(2) lr(2)] assms(7) xy quotient(5) by simp
  have mt: "meaning m t = Some (IntV (x sdiv y))"
    using trunc_meaning(1) [OF _ _ nz] quotient(1) assms(5,7) xy by simp
  with tame_self [OF assms(3)] have "\<bar>x sdiv y\<bar> < 2 ^ 53" by (simp add: tame_at_def)
  then have "sint (word_of_int (x sdiv y) :: int64) = x sdiv y" by (rule small_word)
  moreover have "operand_prog eenv op (VConst (ConstInt i)) (VConst (ConstInt j)) = give (VConst (ConstInt (word_of_int (x sdiv y))))"
    if "sint i = x" "sint j = y" for i j
    using quotient(2) nz that by (auto simp: operand_prog_def class_of_def arith_values_def arith_consts_def quo_int64_def)
  ultimately show ?thesis
    using mt quotient(1,4) xy
    by (auto simp: trunc_div_def ite_term_def binary_term_def int_sort_def scalar_sort_def agrees_value)
next
  case ratio
  with tame_not_real [OF assms(3)] show ?thesis by (simp add: binary_term_def real_sort_def scalar_sort_def)
next
  case remain
  then have lr: "tame m G l" "tame m G r" using assms(3) tame_trunc_rem by blast+
  from remain(4,5) obtain x y where xy: "sl = IntV x" "sr = IntV y"
    using assms(6,8) by (metis kind_int)
  have nz: "y \<noteq> 0" using divisor_nonzero [OF remain(3) assms(2) lr(2)] assms(7) xy remain(5) by simp
  have mt: "meaning m t = Some (IntV (x smod y))"
    using trunc_meaning(2) [OF _ _ nz] remain(1) assms(5,7) xy by simp
  with tame_self [OF assms(3)] have "\<bar>x smod y\<bar> < 2 ^ 53" by (simp add: tame_at_def)
  then have "sint (word_of_int (x smod y) :: int64) = x smod y" by (rule small_word)
  moreover have "operand_prog eenv op (VConst (ConstInt i)) (VConst (ConstInt j)) = give (VConst (ConstInt (word_of_int (x smod y))))"
    if "sint i = x" "sint j = y" for i j
    using remain(2) nz that by (auto simp: operand_prog_def class_of_def arith_values_def arith_consts_def rem_int64_def)
  ultimately show ?thesis
    using mt remain(1,4) xy
    by (auto simp: trunc_rem_def binary_term_def int_sort_def scalar_sort_def agrees_value)
qed

section \<open>Leaves\<close>

text \<open>An evaluation that agrees with a value, or runs out of steps.\<close>

definition result_agrees :: "('o \<Rightarrow> string) \<Rightarrow> smt_value \<Rightarrow> ('n, 'o, 'c, ('n, 'o) rvalue) eprog \<Rightarrow> bool" where
  "result_agrees nm sv p \<longleftrightarrow>
     (\<forall>ctx. case snd (p ctx) of Inr v \<Rightarrow> agrees nm v sv | Inl x \<Rightarrow> x = ErrStepLimitExceeded)"

text \<open>
  What is assumed of names and of the nodes the model leaves to its environment: the term one translates
  to has, in the model, the value one evaluates to, a value of the term's sort.
\<close>

definition leaf_agrees ::
  "(string \<Rightarrow> smt_value) \<Rightarrow> ('o \<Rightarrow> string) \<Rightarrow> 's translation \<Rightarrow> ('n, 'o, 'c, ('n, 'o) rvalue) eprog \<Rightarrow> bool" where
  "leaf_agrees m nm tr p \<longleftrightarrow>
     (\<forall>st st' t. tr st = (st', Inr t) \<longrightarrow>
        ts_guarded st' = ts_guarded st \<and> unary_nots t
        \<and> (\<exists>sv. meaning m t = Some sv \<and> kind_of_value sv = so_kind (term_sort t) \<and> result_agrees nm sv p))"

definition leaves_agree ::
  "('n, 's) tr_env \<Rightarrow> subject \<Rightarrow> (string \<Rightarrow> smt_value) \<Rightarrow> ('o \<Rightarrow> string) \<Rightarrow> ('n, 'o, 'c) eval_env
    \<Rightarrow> ('n, 'o) frame list \<Rightarrow> bool" where
  "leaves_agree env su m nm eenv fr \<longleftrightarrow>
     (\<forall>br ns. leaf_agrees m nm (te_reference env su br ns) (eval_name eenv fr ns))
     \<and> (\<forall>br n. leaf_agrees m nm (te_node env su br n) (ee_node eenv fr n))"

definition arity_of :: "operator \<Rightarrow> nat" where
  "arity_of op = (if op \<in> {OpNeg, OpPos, OpNot, OpBitNot, OpAll} then 1 else if op = OpConditional then 3 else 2)"

text \<open>
  The expressions the parser builds, which has no sequence of one element, without a quotient of
  constants, which the folder takes as a real number.
\<close>

fun encodable :: "(float64 \<Rightarrow> float64 \<Rightarrow> float64) \<Rightarrow> 'n expr \<Rightarrow> bool" where
  "encodable mpow (OperatorExpr op es) \<longleftrightarrow>
     length es = arity_of op \<and> list_all (encodable mpow) es \<and> (op = OpDiv \<longrightarrow> eval_const mpow (OperatorExpr op es) = None)"
| "encodable mpow (SequenceExpr es) \<longleftrightarrow> length es \<noteq> 1"
| "encodable mpow e \<longleftrightarrow> True"

lemma agrees_give: "agrees nm v sv \<Longrightarrow> result_agrees nm sv (give v)"
  by (simp add: result_agrees_def)

lemma agrees_bind:
  assumes "result_agrees nm s1 p" "\<And>v. agrees nm v s1 \<Longrightarrow> result_agrees nm sv (f v)"
  shows "result_agrees nm sv (then_do p f)"
  unfolding result_agrees_def
proof
  fix ctx
  obtain ctx1 r where p: "p ctx = (ctx1, r)" by force
  show "case snd (then_do p f ctx) of Inr v \<Rightarrow> agrees nm v sv | Inl x \<Rightarrow> x = ErrStepLimitExceeded"
  proof (cases r)
    case (Inl x)
    with assms(1) p show ?thesis by (auto simp: result_agrees_def dest: spec [of _ ctx])
  next
    case (Inr v)
    with assms(1) p have "agrees nm v s1" by (auto simp: result_agrees_def dest: spec [of _ ctx])
    with assms(2) p Inr show ?thesis by (simp add: result_agrees_def)
  qed
qed

lemma agrees_step: "result_agrees nm sv p \<Longrightarrow> result_agrees nm sv (then_do increment_step (\<lambda>_. p))"
  by (auto simp: result_agrees_def then_do_def increment_step_def Let_def split: if_splits)

section \<open>Translated operators\<close>

text \<open>An operator expression of the parser, by the translation that takes it.\<close>

lemma operator_cases [consumes 1, case_names not_op connect two sign cond never]:
  assumes "length es = arity_of op"
  obtains (not_op) a where "op = OpNot" "es = [a]"
    | (connect) c a b where "connective_of op = Some c" "es = [a, b]"
    | (two) a b where "op \<in> two_operand_ops" "es = [a, b]"
    | (sign) a where "op = OpNeg \<or> op = OpPos" "es = [a]"
    | (cond) c a b where "op = OpConditional" "es = [c, a, b]"
    | (never) "op \<notin> two_operand_ops" "op \<noteq> OpNot" "connective_of op = None" "op \<noteq> OpNeg" "op \<noteq> OpPos" "op \<noteq> OpConditional"
  using assms by (cases op) (auto simp: arity_of_def two_operand_ops_def length_Suc_conv eval_nat_numeral)

lemma two_op: "op \<in> two_operand_ops \<Longrightarrow> op \<noteq> OpNot \<and> connective_of op = None"
  by (auto simp: two_operand_ops_def)

lemma sign_op: "op = OpNeg \<or> op = OpPos \<Longrightarrow> op \<noteq> OpNot \<and> connective_of op = None \<and> op \<notin> two_operand_ops"
  by (auto simp: two_operand_ops_def)

lemma cond_op: "OpConditional \<notin> two_operand_ops"
  by (simp add: two_operand_ops_def)

lemma translated_not:
  assumes "translate_expr env su br (OperatorExpr OpNot [a]) st = (st', Inr t)"
  obtains t0 where "translate_expr env su (Suc br) a st = (st', Inr t0)" "same_sort (term_sort t0) bool_sort" "t = not_term t0"
  using assms by (auto simp: then_do_Inr)

lemma translated_connective:
  assumes "translate_expr env su br (OperatorExpr op [a, b]) st = (st', Inr t)" "connective_of op = Some c"
  obtains br' st1 l r where "br' = (if c = SmtAnd then br else Suc br)" "translate_expr env su br' a st = (st1, Inr l)"
    "translate_expr env su br' b st1 = (st', Inr r)" "same_sort (term_sort l) bool_sort" "same_sort (term_sort r) bool_sort"
    "t = connective_term c l r"
proof -
  have "op \<noteq> OpNot" using assms(2) by auto
  with assms that show ?thesis by (auto simp: then_do_Inr)
qed

lemma translated_two:
  assumes "translate_expr env su br (OperatorExpr op [a, b]) st = (st', Inr t)" "op \<in> two_operand_ops"
  obtains (folded) "op = OpDiv \<or> op = OpMod" "folded_term env (OperatorExpr op [a, b]) = Some t" "st' = st"
  | (operands) l r st1 st2 l' r' where "translate_expr env su br a st = (st1, Inr l)" "translate_expr env su br b st1 = (st2, Inr r)"
      "promote l r = (l', r')" "operands_yield su br op l' r' st' t" "ts_guarded st2 \<subseteq> ts_guarded st'"
proof (cases "if op = OpDiv \<or> op = OpMod then folded_term env (OperatorExpr op [a, b]) else None")
  case (Some u)
  then have f: "op = OpDiv \<or> op = OpMod" "folded_term env (OperatorExpr op [a, b]) = Some u" by (simp_all split: if_splits)
  with assms(1) two_op [OF assms(2)] assms(2) have "u = t" "st' = st" by simp_all
  with f folded show ?thesis by simp
next
  case None
  with assms two_op [OF assms(2)] have "then_do (translate_expr env su br a) (\<lambda>l. then_do (translate_expr env su br b)
      (\<lambda>r. operands_term env su br op (OperatorExpr op [a, b]) a b l r)) st = (st', Inr t)"
    by simp
  then obtain st1 l st2 r where t: "translate_expr env su br a st = (st1, Inr l)" "translate_expr env su br b st1 = (st2, Inr r)"
      "operands_term env su br op (OperatorExpr op [a, b]) a b l r st2 = (st', Inr t)"
    unfolding then_do_Inr by blast
  obtain l' r' where lr: "promote l r = (l', r')" by (cases "promote l r")
  from operands t(1,2) lr operands_term_yields [OF t(3) assms(2) lr] show ?thesis by blast
qed

lemma translated_sign:
  assumes "translate_expr env su br (OperatorExpr op [a]) st = (st', Inr t)" "op = OpNeg \<or> op = OpPos"
  obtains t0 where "translate_expr env su br a st = (st', Inr t0)" "numeric_sort (term_sort t0)"
    "t = (if op = OpPos then t0 else negated_term t0)"
proof -
  from assms sign_op [OF assms(2)]
  have "then_do (translate_expr env su br a) (sign_term env su op (OperatorExpr op [a])) st = (st', Inr t)" by auto
  then obtain st1 t0 where "translate_expr env su br a st = (st1, Inr t0)" "sign_term env su op (OperatorExpr op [a]) t0 st1 = (st', Inr t)"
    unfolding then_do_Inr by blast
  with that show ?thesis by (auto simp: sign_term_def split: if_splits)
qed

lemma translated_cond:
  assumes "translate_expr env su br (OperatorExpr OpConditional [c, a, b]) st = (st', Inr t)"
  obtains st1 tc l st2 r l' r' where "translate_expr env su br c st = (st1, Inr tc)" "same_sort (term_sort tc) bool_sort"
    "translate_expr env su (Suc br) a st1 = (st2, Inr l)" "translate_expr env su (Suc br) b st2 = (st', Inr r)"
    "promote l r = (l', r')" "same_sort (term_sort l') (term_sort r')" "t = ite_term tc l' r'"
proof -
  from assms cond_op have "then_do (translate_expr env su br c) (\<lambda>t. then_do (require_sort env su OpConditional c bool_sort t) (\<lambda>t'.
      then_do (translate_expr env su (Suc br) a) (\<lambda>l. then_do (translate_expr env su (Suc br) b) (\<lambda>r.
        branches_term env su (OperatorExpr OpConditional [c, a, b]) t' l r)))) st = (st', Inr t)"
    by simp
  then obtain st1 tc st2 l st3 r where t: "translate_expr env su br c st = (st1, Inr tc)" "same_sort (term_sort tc) bool_sort"
      "translate_expr env su (Suc br) a st1 = (st2, Inr l)" "translate_expr env su (Suc br) b st2 = (st3, Inr r)"
      "branches_term env su (OperatorExpr OpConditional [c, a, b]) tc l r st3 = (st', Inr t)"
    unfolding then_do_Inr require_sort_ok by blast
  obtain l' r' where lr: "promote l r = (l', r')" by (cases "promote l r")
  with t(5) have "st3 = st'" "same_sort (term_sort l') (term_sort r')" "t = ite_term tc l' r'"
    by (auto simp: branches_term_def split: if_splits)
  with that t lr show ?thesis by blast
qed

lemma yields_unary:
  assumes "operands_yield su br op l r st t" "unary_nots l" "unary_nots r"
  shows "unary_nots t"
  using assms(1)
proof cases
  case (compare sop)
  then have "sop \<noteq> SmtNot" by (cases op) auto
  with compare assms(2,3) show ?thesis by (simp add: unary_binary)
qed (use assms(2,3) in \<open>auto simp: unary_binary unary_trunc_div unary_trunc_rem unary_to_real\<close>)

lemma unary_folded: "folded_term env e = Some t \<Longrightarrow> unary_nots t"
  by (auto simp: folded_term_def split: option.splits const.splits float64.splits)

lemma translated_shape:
  assumes "leaves_agree env su m nm eenv fr"
  shows "translate_expr env su br e st = (st', Inr t) \<Longrightarrow> encodable (te_pow env) e \<Longrightarrow>
    unary_nots t \<and> ts_guarded st \<subseteq> ts_guarded st'"
proof (induction e arbitrary: br st st' t)
  case (NameExpr ns)
  with assms show ?case by (auto simp: leaves_agree_def leaf_agrees_def)
next
  case (OtherE n)
  with assms show ?case by (auto simp: leaves_agree_def leaf_agrees_def)
next
  case (SequenceExpr es)
  then show ?case by (auto split: list.splits)
next
  case (OperatorExpr op es)
  have ih: "unary_nots t \<and> ts_guarded st \<subseteq> ts_guarded st'"
    if "e \<in> set es" "translate_expr env su br e st = (st', Inr t)" for e br st st' t
    using OperatorExpr.IH [OF that] OperatorExpr.prems(2) that(1) by (simp add: list_all_iff)
  have "length es = arity_of op" using OperatorExpr.prems(2) by simp
  then show ?case
  proof (cases rule: operator_cases)
    case (not_op a)
    with OperatorExpr.prems(1) have "translate_expr env su br (OperatorExpr OpNot [a]) st = (st', Inr t)" by simp
    then obtain t0 where "translate_expr env su (Suc br) a st = (st', Inr t0)" "same_sort (term_sort t0) bool_sort" "t = not_term t0"
      by (rule translated_not)
    with ih [of a] not_op unary_not_term show ?thesis by auto
  next
    case (connect c a b)
    from OperatorExpr.prems(1) [unfolded connect(2)] connect(1)
    obtain br' st1 l r where t: "translate_expr env su br' a st = (st1, Inr l)"
      "translate_expr env su br' b st1 = (st', Inr r)" "t = connective_term c l r"
      by (rule translated_connective)
    from ih [OF _ t(1)] ih [OF _ t(2)] connect t(3) unary_connective [OF _ _ connect(1), of l r] show ?thesis by auto
  next
    case (two a b)
    from OperatorExpr.prems(1) [unfolded two(2)] two(1) show ?thesis
    proof (cases rule: translated_two)
      case folded
      then show ?thesis by (simp add: unary_folded)
    next
      case (operands l r st1 st2 l' r')
      note 1 = ih [OF _ operands(1)] and 2 = ih [OF _ operands(2)]
      then have u: "unary_nots l'" "unary_nots r'" using unary_promote [OF _ _ operands(3)] two(2) by auto
      from yields_unary [OF operands(4) u] 1 2 operands(5) two(2) show ?thesis by auto
    qed
  next
    case (sign a)
    from OperatorExpr.prems(1) [unfolded sign(2)] sign(1) obtain t0 where
      t: "translate_expr env su br a st = (st', Inr t0)" "t = (if op = OpPos then t0 else negated_term t0)"
      by (rule translated_sign)
    from ih [OF _ t(1)] sign(2) t(2) unary_negated show ?thesis by auto
  next
    case (cond c a b)
    from OperatorExpr.prems(1) [unfolded cond] obtain st1 tc l st2 r l' r' where
      t: "translate_expr env su br c st = (st1, Inr tc)" "translate_expr env su (Suc br) a st1 = (st2, Inr l)"
      "translate_expr env su (Suc br) b st2 = (st', Inr r)" "promote l r = (l', r')" "t = ite_term tc l' r'"
      by (rule translated_cond)
    note 1 = ih [OF _ t(1)] and 2 = ih [OF _ t(2)] and 3 = ih [OF _ t(3)]
    then have "unary_nots l'" "unary_nots r'" using unary_promote [OF _ _ t(4)] cond(2) by auto
    with 1 2 3 t(5) cond(2) show ?thesis by (auto simp: ite_term_def)
  next
    case never
    with OperatorExpr.prems(1) show ?thesis by simp
  qed
qed (auto split: if_splits option.splits prod.splits)

end
