(* ===== verification/Smt_Faithful.thy ===== *)
theory Smt_Faithful
  imports Smt_Agreement
begin

text \<open>The induction over expressions: terms mean what the evaluator computes.\<close>

section \<open>Operators\<close>

lemma eval_operator:
  fixes eenv :: "('n, 'o, 'c) eval_env"
  assumes "\<And>c. eval_const (ee_pow eenv) (OperatorExpr op es) = Some c \<Longrightarrow> agrees nm (VConst c :: ('n, 'o) rvalue) sv"
    "eval_const (ee_pow eenv) (OperatorExpr op es) = None \<Longrightarrow> result_agrees nm sv p"
    "eval_const (ee_pow eenv) (OperatorExpr op es) = None \<Longrightarrow> eval eenv fr (OperatorExpr op es) = then_do increment_step (\<lambda>_. p)"
  shows "result_agrees nm sv (eval eenv fr (OperatorExpr op es))"
proof (cases "eval_const (ee_pow eenv) (OperatorExpr op es)")
  case None
  with assms(2,3) show ?thesis by (simp add: agrees_step)
next
  case (Some c)
  then have "eval eenv fr (OperatorExpr op es) = then_do increment_step (\<lambda>_. give (VConst c))" by simp
  with assms(1) [OF Some] show ?thesis by (simp only: agrees_step agrees_give)
qed

lemma small_value: "tame m G t \<Longrightarrow> meaning m t = Some (IntV x) \<Longrightarrow> \<bar>x\<bar> < 2 ^ 53"
  using tame_self by (auto simp: tame_at_def)

text \<open>A folded operation on constants is the one on values.\<close>

lemma folded_operands:
  assumes "eval_binary (ee_pow eenv) op l r = Some c" "op \<in> two_operand_ops" "op \<noteq> OpDiv"
    "\<And>i. l = ConstInt i \<Longrightarrow> exact_double i" "\<And>i. r = ConstInt i \<Longrightarrow> exact_double i"
  shows "operand_prog eenv op (VConst l) (VConst r) = give (VConst c)"
proof -
  have same: "same_answer op (Some l) (Some r)"
    using assms(3-5) by (auto simp: same_answer_def split: const.split)
  from assms(1) show ?thesis
  proof (cases rule: binary_class)
    case (logic a b)
    with assms(2) show ?thesis by (auto simp: two_operand_ops_def bool_ops_def)
  next
    case equality
    then show ?thesis using equality_agrees [OF equality(3,2), where env = eenv] by (simp add: operand_prog_def)
  next
    case comparison
    then show ?thesis using comparison_agrees [OF comparison(3) same comparison(2), where env = eenv] by (simp add: operand_prog_def)
  next
    case arithmetic
    then show ?thesis using arith_agrees [OF arithmetic(3) same arithmetic(2)] by (simp add: operand_prog_def)
  qed
qed

lemma connective_value:
  assumes "connective_of op = Some c" "meaning m l = Some (BoolV p)" "meaning m r = Some (BoolV q)"
  shows "meaning m (connective_term c l r) = Some (BoolV (logical_value op p q))"
    "so_kind (term_sort (connective_term c l r)) = SortBool" "op \<in> bool_ops"
  using assms
  by (cases op; auto simp: connective_term_def and_term_def or_term_def junction_def binary_term_def apply_op_def truths_def truth_def
      logical_value_def bool_ops_def bool_sort_def scalar_sort_def)+

lemma tame_connective:
  assumes "connective_of op = Some c" "tame m G (connective_term c l r)"
  shows "tame m G l" "tame m G r"
  using assms
  by (cases op; auto simp: connective_term_def and_term_def or_term_def junction_def binary_term_def intro: tame_arg)+

lemma logical_class: "op \<in> bool_ops \<Longrightarrow> class_of op = ClassLogical"
  by (auto simp: bool_ops_def class_of_def)

lemma same_bool: "same_sort s bool_sort \<Longrightarrow> so_kind s = SortBool"
  by (simp add: same_sort_def bool_sort_def scalar_sort_def)

lemma tame_not:
  assumes "tame m G (not_term t)" "unary_nots t" "so_kind (term_sort t) = SortBool"
  shows "tame m G t"
proof (cases "\<exists>s ts. t = Compound SmtNot s ts")
  case False
  then have "not_term t = Compound SmtNot bool_sort [t]" by (cases t) (auto simp: not_term_def split: smt_op.split)
  with assms(1) show ?thesis by (metis tame_arg list.set_intros(1))
next
  case True
  with assms(2) obtain s a where t: "t = Compound SmtNot s [a]" by (auto simp: length_Suc_conv)
  then have "tame m G a" using assms(1) by (simp add: not_term_def)
  moreover have "so_kind s = SortBool" using assms(3) t by simp
  then have "tame_at m G t" using t by (auto simp: tame_at_def apply_op_def split: option.splits list.splits)
  ultimately show ?thesis using t by (auto simp: tame_def)
qed

lemma not_value:
  assumes "meaning m t = Some (BoolV b)" "unary_nots t"
  shows "meaning m (not_term t) = Some (BoolV (\<not> b)) \<and> so_kind (term_sort (not_term t)) = SortBool"
proof (cases "\<exists>s ts. t = Compound SmtNot s ts")
  case False
  then have "not_term t = Compound SmtNot bool_sort [t]" by (cases t) (auto simp: not_term_def split: smt_op.split)
  with assms(1) show ?thesis by (simp add: apply_op_def truths_def truth_def bool_sort_def scalar_sort_def)
next
  case True
  with assms(2) obtain s a where t: "t = Compound SmtNot s [a]" by (auto simp: length_Suc_conv)
  then have "meaning m a = Some (BoolV (\<not> b))"
    using assms(1) by (auto simp: apply_op_def truths_def truth_def split: option.splits smt_value.splits)
  with t assms(2) show ?thesis by (simp add: not_term_def)
qed

section \<open>Expressions\<close>

text \<open>What is shown of a translated expression: its term's value, the folder's and the evaluator's.\<close>

definition means ::
  "(string \<Rightarrow> smt_value) \<Rightarrow> ('o \<Rightarrow> string) \<Rightarrow> ('n, 'o, 'c) eval_env \<Rightarrow> ('n, 'o) frame list \<Rightarrow> 'n expr \<Rightarrow> smt_term \<Rightarrow> smt_value \<Rightarrow> bool" where
  "means m nm eenv fr e t sv \<longleftrightarrow>
     meaning m t = Some sv \<and> kind_of_value sv = so_kind (term_sort t)
     \<and> (\<forall>c. eval_const (ee_pow eenv) e = Some c \<longrightarrow> agrees nm (VConst c :: ('n, 'o) rvalue) sv)
     \<and> result_agrees nm sv (eval eenv fr e)"

lemma means_leaf:
  assumes "meaning m t = Some sv" "kind_of_value sv = so_kind (term_sort t)" "eval_const (ee_pow eenv) e = None"
    "result_agrees nm sv p" "eval eenv fr e = then_do increment_step (\<lambda>_. p)"
  shows "means m nm eenv fr e t sv"
  using assms by (simp add: means_def agrees_step)

lemma means_bool:
  assumes "means m nm eenv fr e t sv" "same_sort (term_sort t) bool_sort"
  obtains b where "sv = BoolV b"
  using assms by (cases sv) (auto simp: means_def same_sort_def bool_sort_def scalar_sort_def)

lemma means_const:
  assumes "means m nm eenv fr e t (BoolV b)" "eval_const (ee_pow eenv) e = Some c"
  shows "c = ConstBool b"
  using assms by (cases c) (auto simp: means_def)

lemma means_exact:
  assumes "means m nm eenv fr e t sv" "tame m G t" "eval_const (ee_pow eenv) e = Some (ConstInt i)"
  shows "exact_double i"
  using assms small_value [OF assms(2)] by (auto simp: means_def exact_double_def)

lemma means_operator:
  fixes eenv :: "('n, 'o, 'c) eval_env"
  assumes "meaning m t = Some sv" "kind_of_value sv = so_kind (term_sort t)"
    "\<And>c. eval_const (ee_pow eenv) (OperatorExpr op es) = Some c \<Longrightarrow> agrees nm (VConst c :: ('n, 'o) rvalue) sv"
    "result_agrees nm sv p"
    "eval_const (ee_pow eenv) (OperatorExpr op es) = None \<Longrightarrow> eval eenv fr (OperatorExpr op es) = then_do increment_step (\<lambda>_. p)"
  shows "means m nm eenv fr (OperatorExpr op es) t sv"
proof -
  have "result_agrees nm sv (eval eenv fr (OperatorExpr op es))"
    by (rule eval_operator [where p = p]) (fact assms(3), rule assms(4), fact assms(5))
  moreover have "\<forall>c. eval_const (ee_pow eenv) (OperatorExpr op es) = Some c \<longrightarrow> agrees nm (VConst c :: ('n, 'o) rvalue) sv"
    by (intro allI impI) (fact assms(3))
  ultimately show ?thesis using assms(1,2) by (simp only: means_def simp_thms)
qed

lemma means_not:
  fixes eenv :: "('n, 'o, 'c) eval_env"
  assumes "means m nm eenv fr a t (BoolV b)" "unary_nots t"
  shows "means m nm eenv fr (OperatorExpr OpNot [a]) (not_term t) (BoolV (\<not> b))"
proof (rule means_operator)
  have a: "result_agrees nm (BoolV b) (eval eenv fr a)" "meaning m t = Some (BoolV b)" using assms(1) by (simp_all add: means_def)
  from not_value [OF a(2) assms(2)]
  show "meaning m (not_term t) = Some (BoolV (\<not> b))" "kind_of_value (BoolV (\<not> b)) = so_kind (term_sort (not_term t))" by simp_all
  show "agrees nm (VConst c :: ('n, 'o) rvalue) (BoolV (\<not> b))" if "eval_const (ee_pow eenv) (OperatorExpr OpNot [a]) = Some c" for c
    using that means_const [OF assms(1)] by (auto simp: eval_unary_def split: option.splits)
  show "result_agrees nm (BoolV (\<not> b)) (then_do (eval eenv fr a) (\<lambda>v. result_of (unary_value eenv OpNot v)))"
    by (rule agrees_bind [OF a(1)]) (auto simp: agrees_value unary_value_def bool_value_def simp del: prog_simps intro: agrees_give)
  show "eval eenv fr (OperatorExpr OpNot [a])
      = then_do increment_step (\<lambda>_. then_do (eval eenv fr a) (\<lambda>v. result_of (unary_value eenv OpNot v)))"
    if "eval_const (ee_pow eenv) (OperatorExpr OpNot [a]) = None"
    using that by (simp add: class_of_def bool_ops_def)
qed

lemma means_connective:
  fixes eenv :: "('n, 'o, 'c) eval_env"
  assumes "means m nm eenv fr a l (BoolV p)" "means m nm eenv fr b r (BoolV q)" "connective_of op = Some c"
  shows "means m nm eenv fr (OperatorExpr op [a, b]) (connective_term c l r) (BoolV (logical_value op p q))"
proof (rule means_operator)
  have a: "result_agrees nm (BoolV p) (eval eenv fr a)" "meaning m l = Some (BoolV p)" using assms(1) by (simp_all add: means_def)
  have b: "result_agrees nm (BoolV q) (eval eenv fr b)" "meaning m r = Some (BoolV q)" using assms(2) by (simp_all add: means_def)
  note v = connective_value [OF assms(3) a(2) b(2)]
  then show "meaning m (connective_term c l r) = Some (BoolV (logical_value op p q))"
    "kind_of_value (BoolV (logical_value op p q)) = so_kind (term_sort (connective_term c l r))" by simp_all
  show "agrees nm (VConst d :: ('n, 'o) rvalue) (BoolV (logical_value op p q))"
    if "eval_const (ee_pow eenv) (OperatorExpr op [a, b]) = Some d" for d
  proof -
    from that obtain x y where xy: "eval_const (ee_pow eenv) a = Some x" "eval_const (ee_pow eenv) b = Some y"
        "eval_binary (ee_pow eenv) op x y = Some d"
      by (auto split: if_splits option.splits)
    have "x = ConstBool p" "y = ConstBool q" using means_const [OF assms(1) xy(1)] means_const [OF assms(2) xy(2)] by simp_all
    with xy(3) v(3) show ?thesis
      by (auto simp: eval_binary_def eval_bool_op_def logical_value_def bool_ops_def)
  qed
  let ?k = "\<lambda>v. then_do (result_of (bool_operand v)) (\<lambda>l. case decided_by_left op l of
        Some d \<Rightarrow> give (bool_value d)
      | None \<Rightarrow> then_do (eval eenv fr b) (\<lambda>w. then_do (result_of (bool_operand w)) (\<lambda>r. give (bool_value (logical_value op l r)))))"
  have second: "result_agrees nm (BoolV (logical_value op p q))
      (then_do (eval eenv fr b) (\<lambda>w. then_do (result_of (bool_operand w)) (\<lambda>r. give (bool_value (logical_value op p r)))))"
    by (rule agrees_bind [OF b(1)])
      (auto simp: agrees_value bool_operand_def bool_value_def simp del: prog_simps intro!: agrees_give)
  have first: "?k (VConst (ConstBool p)) = (case decided_by_left op p of
        Some d \<Rightarrow> give (bool_value d)
      | None \<Rightarrow> then_do (eval eenv fr b) (\<lambda>w. then_do (result_of (bool_operand w)) (\<lambda>r. give (bool_value (logical_value op p r)))))"
    by (simp add: bool_operand_def)
  have "result_agrees nm (BoolV (logical_value op p q)) (?k (VConst (ConstBool p)))"
    unfolding first using second decided_agrees [OF _ v(3), of p _ q]
    by (auto simp: bool_value_def simp del: prog_simps split: option.split intro!: agrees_give)
  then show "result_agrees nm (BoolV (logical_value op p q)) (then_do (eval eenv fr a) ?k)"
    by (intro agrees_bind [OF a(1)]) (simp only: agrees_bool)
  show "eval eenv fr (OperatorExpr op [a, b]) = then_do increment_step (\<lambda>_. then_do (eval eenv fr a) ?k)"
    if "eval_const (ee_pow eenv) (OperatorExpr op [a, b]) = None"
    using that logical_class [OF v(3)] by simp
qed

lemma means_two:
  fixes eenv :: "('n, 'o, 'c) eval_env"
  assumes "means m nm eenv fr a l sl" "means m nm eenv fr b r sr" "tame m G l" "tame m G r"
    "operands_yield su br op l r st t" "ts_guarded st \<subseteq> G" "tame m G t" "inj nm" "op \<in> two_operand_ops"
    "op = OpDiv \<Longrightarrow> eval_const (ee_pow eenv) (OperatorExpr op [a, b]) = None"
  shows "\<exists>sv. means m nm eenv fr (OperatorExpr op [a, b]) t sv"
proof -
  have l: "meaning m l = Some sl" "kind_of_value sl = so_kind (term_sort l)" "result_agrees nm sl (eval eenv fr a)"
    and r: "meaning m r = Some sr" "kind_of_value sr = so_kind (term_sort r)" "result_agrees nm sr (eval eenv fr b)"
    using assms(1,2) by (simp_all add: means_def)
  obtain sv where sv: "meaning m t = Some sv" "kind_of_value sv = so_kind (term_sort t)"
      "\<And>v w. agrees nm v sl \<Longrightarrow> agrees nm w sr \<Longrightarrow> \<exists>u. operand_prog eenv op v w = give u \<and> agrees nm u sv"
    using operands_agree [OF assms(5-8) l(1,2) r(1,2), where eenv = eenv] by blast
  have "means m nm eenv fr (OperatorExpr op [a, b]) t sv"
  proof (rule means_operator [OF sv(1,2)])
    show "agrees nm (VConst c :: ('n, 'o) rvalue) sv" if c: "eval_const (ee_pow eenv) (OperatorExpr op [a, b]) = Some c" for c
    proof -
      from c assms(9) obtain x y where xy: "eval_const (ee_pow eenv) a = Some x" "eval_const (ee_pow eenv) b = Some y"
          "eval_binary (ee_pow eenv) op x y = Some c"
        by (auto split: if_splits option.splits)
      have "op \<noteq> OpDiv" using assms(10) c by auto
      then have folded: "operand_prog eenv op (VConst x) (VConst y) = give (VConst c)"
        using folded_operands [OF xy(3) assms(9)] means_exact [OF assms(1,3)] means_exact [OF assms(2,4)] xy(1,2) by blast
      have "agrees nm (VConst x :: ('n, 'o) rvalue) sl" "agrees nm (VConst y :: ('n, 'o) rvalue) sr"
        using assms(1,2) xy(1,2) by (simp_all add: means_def)
      from sv(3) [OF this] folded obtain u where "give u = (give (VConst c) :: ('n, 'o, 'c, ('n, 'o) rvalue) eprog)" "agrees nm u sv"
        by metis
      then show ?thesis by (auto simp: fun_eq_iff)
    qed
    show "result_agrees nm sv (then_do (eval eenv fr a) (\<lambda>v. then_do (eval eenv fr b) (operand_prog eenv op v)))"
    proof (intro agrees_bind [OF l(3)] agrees_bind [OF r(3)])
      fix v w :: "('n, 'o) rvalue" assume "agrees nm v sl" "agrees nm w sr"
      from sv(3) [OF this] show "result_agrees nm sv (operand_prog eenv op v w)" by (auto simp del: prog_simps intro: agrees_give)
    qed
    show "eval eenv fr (OperatorExpr op [a, b])
        = then_do increment_step (\<lambda>_. then_do (eval eenv fr a) (\<lambda>v. then_do (eval eenv fr b) (operand_prog eenv op v)))"
      if "eval_const (ee_pow eenv) (OperatorExpr op [a, b]) = None"
    proof -
      have "class_of op \<in> {ClassArithmetic, ClassEquality, ClassComparison}"
        using assms(9) by (auto simp: two_operand_ops_def class_of_def bool_ops_def)
      with that show ?thesis by (auto simp: operand_prog_def [abs_def])
    qed
  qed
  then show ?thesis by blast
qed

lemma least_negated: "sint (i :: int64) = - (2 ^ 63) \<Longrightarrow> \<not> \<bar>sint (- i)\<bar> < 2 ^ 53"
proof -
  assume "sint i = - (2 ^ 63)"
  then have "i = word_of_int (- (2 ^ 63))" by (intro signed_word_eqI) simp
  then show ?thesis by simp
qed

lemma means_sign:
  fixes eenv :: "('n, 'o, 'c) eval_env"
  assumes "means m nm eenv fr a t0 sv0" "numeric_sort (term_sort t0)" "so_kind (term_sort t0) \<noteq> SortReal"
    "op = OpNeg \<or> op = OpPos" "t = (if op = OpPos then t0 else negated_term t0)" "tame m G t"
  shows "\<exists>sv. means m nm eenv fr (OperatorExpr op [a]) t sv"
proof -
  have a: "meaning m t0 = Some sv0" "kind_of_value sv0 = so_kind (term_sort t0)" "result_agrees nm sv0 (eval eenv fr a)"
    using assms(1) by (simp_all add: means_def)
  obtain x where x: "sv0 = IntV x" using int_value [OF assms(2,3) a(2)] by blast
  let ?z = "if op = OpPos then x else - x"
  have mt: "meaning m t = Some (IntV ?z)"
  proof (cases "op = OpPos")
    case False
    show ?thesis
    proof (cases t0)
      case (IntTerm i)
      with a(1) x have "sint i = x" by simp
      moreover have "meaning m t = Some (IntV (sint (- i)))" using assms(5) False IntTerm by (simp add: negated_term_def)
      then have "\<bar>sint (- i)\<bar> < 2 ^ 53" using small_value [OF assms(6)] by blast
      then have "sint i \<noteq> - (2 ^ 63)" by (rule contrapos_pn) (rule least_negated)
      then have "sint (- i) = - sint i" by (rule sint_uminus)
      ultimately show ?thesis using assms(5) False IntTerm by (simp add: negated_term_def)
    qed (use a x assms(5) False in \<open>auto simp: negated_term_def unary_term_def apply_op_def\<close>)
  qed (use a x assms(5) in simp)
  have kt: "so_kind (term_sort t) = SortInt"
    using a(2) x assms(5) by (cases t0) (auto simp: negated_term_def unary_term_def int_sort_def scalar_sort_def)
  have word: "sint (if op = OpPos then i else - i) = ?z" if "sint i = x" for i :: int64
  proof -
    have "\<bar>x\<bar> < 2 ^ 53" using small_value [OF assms(6) mt] by (simp split: if_splits)
    then have "sint i \<noteq> - (2 ^ 63)" using that by auto
    with that show ?thesis by (simp add: sint_uminus)
  qed
  have unary: "unary_value eenv op (VConst (ConstInt i)) = Inr (VConst (ConstInt (if op = OpPos then i else - i)))" for i
    using assms(4) by (auto simp: unary_value_def eval_unary_def)
  have "means m nm eenv fr (OperatorExpr op [a]) t (IntV ?z)"
  proof (rule means_operator [OF mt])
    show "kind_of_value (IntV ?z) = so_kind (term_sort t)" using kt by simp
    show "agrees nm (VConst c :: ('n, 'o) rvalue) (IntV ?z)" if "eval_const (ee_pow eenv) (OperatorExpr op [a]) = Some c" for c
    proof -
      from that assms(4) obtain d where d: "eval_const (ee_pow eenv) a = Some d" "eval_unary op d = Some c"
        by (auto split: option.splits)
      with assms(1) x have "agrees nm (VConst d :: ('n, 'o) rvalue) (IntV x)" by (simp add: means_def)
      then obtain i where i: "d = ConstInt i" "sint i = x" by (auto simp: agrees_int)
      with d(2) assms(4) have "c = ConstInt (if op = OpPos then i else - i)" by (auto simp: eval_unary_def)
      with word [OF i(2)] show ?thesis by simp
    qed
    show "result_agrees nm (IntV ?z) (then_do (eval eenv fr a) (\<lambda>v. result_of (unary_value eenv op v)))"
    proof (rule agrees_bind [OF a(3)])
      fix v :: "('n, 'o) rvalue" assume "agrees nm v sv0"
      then obtain i where i: "v = VConst (ConstInt i)" "sint i = x" using x by (auto simp: agrees_int)
      have "agrees nm (VConst (ConstInt (if op = OpPos then i else - i)) :: ('n, 'o) rvalue) (IntV ?z)"
        using word [OF i(2)] by simp
      then show "result_agrees nm (IntV ?z) (result_of (unary_value eenv op v))"
        unfolding i(1) unary by (simp only: result_of_def sum.case agrees_give)
    qed
    show "eval eenv fr (OperatorExpr op [a])
        = then_do increment_step (\<lambda>_. then_do (eval eenv fr a) (\<lambda>v. result_of (unary_value eenv op v)))"
      if "eval_const (ee_pow eenv) (OperatorExpr op [a]) = None"
    proof -
      have "class_of op = ClassUnary" using assms(4) by (auto simp: class_of_def bool_ops_def)
      with that show ?thesis by simp
    qed
  qed
  then show ?thesis by blast
qed

lemma means_cond:
  fixes eenv :: "('n, 'o, 'c) eval_env"
  assumes "means m nm eenv fr c tc (BoolV p)" "means m nm eenv fr a l sl" "means m nm eenv fr b r sr"
    "same_sort (term_sort l) (term_sort r)"
  shows "means m nm eenv fr (OperatorExpr OpConditional [c, a, b]) (ite_term tc l r) (if p then sl else sr)"
proof (rule means_operator)
  have c: "meaning m tc = Some (BoolV p)" "result_agrees nm (BoolV p) (eval eenv fr c)"
    and l: "meaning m l = Some sl" "kind_of_value sl = so_kind (term_sort l)" "result_agrees nm sl (eval eenv fr a)"
    and r: "meaning m r = Some sr" "kind_of_value sr = so_kind (term_sort r)" "result_agrees nm sr (eval eenv fr b)"
    using assms(1-3) by (simp_all add: means_def)
  show "meaning m (ite_term tc l r) = Some (if p then sl else sr)"
    using c(1) l(1) r(1) by (simp add: ite_term_def apply_op_def truth_def)
  show "kind_of_value (if p then sl else sr) = so_kind (term_sort (ite_term tc l r))"
    using l(2) r(2) assms(4) by (simp add: ite_term_def same_sort_def)
  show "agrees nm (VConst d :: ('n, 'o) rvalue) (if p then sl else sr)"
    if "eval_const (ee_pow eenv) (OperatorExpr OpConditional [c, a, b]) = Some d" for d
  proof -
    from that obtain q where q: "eval_const (ee_pow eenv) c = Some (ConstBool q)"
        "(if q then eval_const (ee_pow eenv) a else eval_const (ee_pow eenv) b) = Some d"
      by (auto split: option.splits const.splits)
    with means_const [OF assms(1)] have "q = p" by auto
    with q(2) assms(2,3) show ?thesis by (auto simp: means_def split: if_splits)
  qed
  let ?k = "\<lambda>v. then_do (result_of (bool_operand v)) (\<lambda>held. if held then eval eenv fr a else eval eenv fr b)"
  have chosen: "?k (VConst (ConstBool p)) = (if p then eval eenv fr a else eval eenv fr b)" by (simp add: bool_operand_def)
  have "result_agrees nm (if p then sl else sr) (?k (VConst (ConstBool p)))"
    unfolding chosen using l(3) r(3) by (cases p) simp_all
  then show "result_agrees nm (if p then sl else sr) (then_do (eval eenv fr c) ?k)"
    by (intro agrees_bind [OF c(2)]) (simp only: agrees_bool)
  show "eval eenv fr (OperatorExpr OpConditional [c, a, b]) = then_do increment_step (\<lambda>_. then_do (eval eenv fr c) ?k)"
    if "eval_const (ee_pow eenv) (OperatorExpr OpConditional [c, a, b]) = None"
    using that by (simp add: class_of_def)
qed


section \<open>The induction\<close>

lemma promote_tame:
  assumes "promote l0 r0 = (l, r)" "so_kind (term_sort l) \<noteq> SortReal" "so_kind (term_sort r) \<noteq> SortReal"
  shows "l = l0 \<and> r = r0"
  using assms by (auto simp: promote_def to_real_term_def real_sort_def scalar_sort_def split: if_splits smt_term.splits)

lemma yields_tame:
  assumes "operands_yield su br op l r st t" "tame m G t"
  shows "tame m G l \<and> tame m G r"
  using assms(1)
proof cases
  case ratio
  with tame_not_real [OF assms(2)] show ?thesis by (simp add: binary_term_def real_sort_def scalar_sort_def)
qed (use assms(2) in \<open>auto dest: tame_binary tame_trunc_div tame_trunc_rem\<close>)

lemma leaf_value:
  "leaf_agrees m nm tr p \<Longrightarrow> tr st = (st', Inr t) \<Longrightarrow>
    \<exists>sv. meaning m t = Some sv \<and> kind_of_value sv = so_kind (term_sort t) \<and> result_agrees nm sv p"
  by (auto simp: leaf_agrees_def)

lemma translation_means:
  fixes eenv :: "('n, 'o, 'c) eval_env"
  assumes "leaves_agree env su m nm eenv fr" "inj nm" "te_pow env = ee_pow eenv"
  shows "translate_expr env su br e st = (st', Inr t) \<Longrightarrow> encodable (te_pow env) e \<Longrightarrow> ts_guarded st' \<subseteq> G \<Longrightarrow> tame m G t \<Longrightarrow>
    \<exists>sv. means m nm eenv fr e t sv"
proof (induction e arbitrary: br st st' t)
  case (OperatorExpr op es)
  have ih: "\<exists>sv. means m nm eenv fr e t sv"
    if "e \<in> set es" "translate_expr env su br e st = (st', Inr t)" "ts_guarded st' \<subseteq> G" "tame m G t" for e br st st' t
    using OperatorExpr.IH [OF that(1,2) _ that(3,4)] OperatorExpr.prems(2) that(1) by (simp add: list_all_iff)
  have shape: "unary_nots t \<and> ts_guarded st \<subseteq> ts_guarded st'"
    if "e \<in> set es" "translate_expr env su br e st = (st', Inr t)" for e br st st' t
    using translated_shape [OF assms(1) that(2)] OperatorExpr.prems(2) that(1) by (simp add: list_all_iff)
  note prems = OperatorExpr.prems
  have "length es = arity_of op" using prems(2) by simp
  then show ?case
  proof (cases rule: operator_cases)
    case (not_op a)
    with prems(1) have "translate_expr env su br (OperatorExpr OpNot [a]) st = (st', Inr t)" by simp
    then obtain t0 where t: "translate_expr env su (Suc br) a st = (st', Inr t0)" "same_sort (term_sort t0) bool_sort" "t = not_term t0"
      by (rule translated_not)
    have u: "unary_nots t0" using shape [OF _ t(1)] not_op by simp
    obtain sv where sv: "means m nm eenv fr a t0 sv"
      using ih [OF _ t(1) prems(3) tame_not [OF prems(4) [unfolded t(3)] u same_bool [OF t(2)]]] not_op by auto
    with means_bool [OF sv t(2)] means_not [OF _ u] not_op t(3) show ?thesis by metis
  next
    case (connect c a b)
    from prems(1) [unfolded connect(2)] connect(1)
    obtain br' st1 l r where t: "translate_expr env su br' a st = (st1, Inr l)" "translate_expr env su br' b st1 = (st', Inr r)"
      "same_sort (term_sort l) bool_sort" "same_sort (term_sort r) bool_sort" "t = connective_term c l r"
      by (rule translated_connective)
    note lr = tame_connective [OF connect(1) prems(4) [unfolded t(5)]]
    have "ts_guarded st1 \<subseteq> G" using shape [OF _ t(2)] connect(2) prems(3) by auto
    then obtain sl where sl: "means m nm eenv fr a l sl" using ih [OF _ t(1) _ lr(1)] connect(2) by auto
    obtain sr where sr: "means m nm eenv fr b r sr" using ih [OF _ t(2) prems(3) lr(2)] connect(2) by auto
    obtain p q where "sl = BoolV p" "sr = BoolV q" using means_bool [OF sl t(3)] means_bool [OF sr t(4)] by metis
    with means_connective [of m nm eenv fr a l p b r q] sl sr connect t(5) show ?thesis by blast
  next
    case (two a b)
    from prems(1) [unfolded two(2)] two(1) show ?thesis
    proof (cases rule: translated_two)
      case folded
      then have op: "op = OpMod" using prems(2) two(2) by (auto simp: folded_term_def)
      obtain c where c: "eval_const (ee_pow eenv) (OperatorExpr op [a, b]) = Some c"
        using folded(2) assms(3) by (auto simp: folded_term_def split: option.splits)
      then have ev: "eval eenv fr (OperatorExpr op [a, b]) = then_do increment_step (\<lambda>_. give (VConst c))" by simp
      show ?thesis
      proof (cases c)
        case (ConstInt i)
        then have t: "t = IntTerm i" using folded(2) c assms(3) by (simp add: folded_term_def)
        have "means m nm eenv fr (OperatorExpr op [a, b]) t (IntV (sint i))"
          unfolding means_def ev c t ConstInt
          by (simp add: int_sort_def scalar_sort_def agrees_step agrees_give del: prog_simps then_do_simps)
        with two(2) show ?thesis by blast
      next
        case (ConstReal q)
        then have "so_kind (term_sort t) = SortReal"
          using folded(2) c assms(3) by (auto simp: folded_term_def real_sort_def scalar_sort_def split: float64.splits)
        with tame_not_real [OF prems(4)] show ?thesis by blast
      qed (use folded(2) c assms(3) in \<open>auto simp: folded_term_def\<close>)
    next
      case (operands l0 r0 st1 st2 l r)
      have "tame m G l \<and> tame m G r" by (rule yields_tame [OF operands(4) prems(4)])
      then have lr: "tame m G l0" "tame m G r0" "l = l0" "r = r0"
        using promote_tame [OF operands(3)] tame_not_real by auto
      have g: "ts_guarded st2 \<subseteq> G" "ts_guarded st1 \<subseteq> G"
        using operands(5) prems(3) shape [OF _ operands(2)] two(2) by auto
      obtain sl where sl: "means m nm eenv fr a l sl" using ih [OF _ operands(1) g(2) lr(1)] two(2) lr(3) by auto
      obtain sr where sr: "means m nm eenv fr b r sr" using ih [OF _ operands(2) g(1) lr(2)] two(2) lr(4) by auto
      have "op = OpDiv \<Longrightarrow> eval_const (ee_pow eenv) (OperatorExpr op [a, b]) = None" using prems(2) two(2) assms(3) by simp
      from means_two [OF sl sr _ _ operands(4) prems(3,4) assms(2) two(1) this] lr two(2) show ?thesis by blast
    qed
  next
    case (sign a)
    from prems(1) [unfolded sign(2)] sign(1) obtain t0 where
      t: "translate_expr env su br a st = (st', Inr t0)" "numeric_sort (term_sort t0)" "t = (if op = OpPos then t0 else negated_term t0)"
      by (rule translated_sign)
    have k: "so_kind (term_sort t0) \<noteq> SortReal"
      using tame_not_real [OF prems(4)] t(3)
      by (cases t0) (auto simp: negated_term_def unary_term_def split: if_splits)
    show ?thesis
    proof (cases "tame m G t0")
      case True
      then obtain sv where "means m nm eenv fr a t0 sv" using ih [OF _ t(1) prems(3)] sign(2) by auto
      from means_sign [OF this t(2) k sign(1) t(3) prems(4)] sign(2) show ?thesis by blast
    next
      case False
      then obtain i where i: "t0 = IntTerm i" "op \<noteq> OpPos" using prems(4) t(3) k
        by (cases t0) (auto simp: negated_term_def unary_term_def real_sort_def scalar_sort_def intro: tame_arg split: if_splits)
      have "\<bar>sint (- i)\<bar> < 2 ^ 53" using small_value [OF prems(4)] i t(3) by (simp add: negated_term_def)
      then have "sint i \<noteq> - (2 ^ 63)" using least_negated by blast
      then have "sint (- i) = - sint i" by (rule sint_uminus)
      with False i \<open>\<bar>sint (- i)\<bar> < 2 ^ 53\<close> show ?thesis by (simp add: tame_def tame_at_def int_sort_def scalar_sort_def)
    qed
  next
    case (cond c a b)
    from prems(1) [unfolded cond] obtain st1 tc l0 st2 r0 l r where
      t: "translate_expr env su br c st = (st1, Inr tc)" "same_sort (term_sort tc) bool_sort"
        "translate_expr env su (Suc br) a st1 = (st2, Inr l0)" "translate_expr env su (Suc br) b st2 = (st', Inr r0)"
        "promote l0 r0 = (l, r)" "same_sort (term_sort l) (term_sort r)" "t = ite_term tc l r"
      by (rule translated_cond)
    have sub: "tame m G tc" "tame m G l" "tame m G r" using prems(4) t(7) by (auto simp: ite_term_def intro: tame_arg)
    with promote_tame [OF t(5)] tame_not_real have lr: "l = l0" "r = r0" by blast+
    have g: "ts_guarded st2 \<subseteq> G" "ts_guarded st1 \<subseteq> G"
      using prems(3) shape [OF _ t(3)] shape [OF _ t(4)] cond(2) by auto
    obtain sc where sc: "means m nm eenv fr c tc sc" using ih [OF _ t(1) g(2) sub(1)] cond(2) by auto
    obtain sl where sl: "means m nm eenv fr a l sl" using ih [OF _ t(3) g(1)] sub(2) lr cond(2) by auto
    obtain sr where sr: "means m nm eenv fr b r sr" using ih [OF _ t(4) prems(3)] sub(3) lr cond(2) by auto
    obtain p where "sc = BoolV p" using means_bool [OF sc t(2)] .
    with means_cond [OF _ sl sr t(6)] sc t(7) cond show ?thesis by blast
  next
    case never
    with prems(1) show ?thesis by simp
  qed
next
  case (LiteralInteger s)
  then obtain i where i: "parse_int64 s = (i, True)" "t = IntTerm i" by (auto split: prod.splits if_splits)
  then show ?case
    by (intro exI [of _ "IntV (sint i)"])
      (simp add: means_def int_sort_def scalar_sort_def agrees_step agrees_give del: prog_simps then_do_simps)
next
  case (LiteralReal s)
  with tame_not_real [OF LiteralReal(4)] show ?case by (auto simp: real_sort_def scalar_sort_def split: option.splits)
next
  case (LiteralBool b)
  then have "t = BoolTerm b" by simp
  then show ?case
    by (intro exI [of _ "BoolV b"])
      (simp add: means_def bool_sort_def scalar_sort_def bool_value_def agrees_step agrees_give del: prog_simps then_do_simps)
next
  case (LiteralString s)
  then have "t = StringTerm (strip_quotes s)" by simp
  then show ?case
    by (intro exI [of _ "StrV (strip_quotes s)"])
      (simp add: means_def string_sort_def scalar_sort_def agrees_step agrees_give del: prog_simps then_do_simps)
next
  case (NameExpr ns)
  have "leaf_agrees m nm (te_reference env su br ns) (eval_name eenv fr ns)" using assms(1) by (simp add: leaves_agree_def)
  from leaf_value [OF this, of st st' t] NameExpr(1) obtain sv where "meaning m t = Some sv" "kind_of_value sv = so_kind (term_sort t)"
      "result_agrees nm sv (eval_name eenv fr ns)"
    by auto
  then show ?case by (intro exI [of _ sv] means_leaf [where p = "eval_name eenv fr ns"]) simp_all
next
  case (OtherE n)
  have "leaf_agrees m nm (te_node env su br n) (ee_node eenv fr n)" using assms(1) by (simp add: leaves_agree_def)
  from leaf_value [OF this, of st st' t] OtherE(1) obtain sv where "meaning m t = Some sv" "kind_of_value sv = so_kind (term_sort t)"
      "result_agrees nm sv (ee_node eenv fr n)"
    by auto
  then show ?case by (intro exI [of _ sv] means_leaf [where p = "ee_node eenv fr n"]) simp_all
next
  case (SequenceExpr es)
  then show ?case by (auto split: list.splits)
qed simp_all

section \<open>The property\<close>


text \<open>One integer variable \<open>x\<close>: its term, and its value in the evaluator's frame.\<close>

definition x_var :: smt_var where
  "x_var = \<lparr>sv_name = ''x'', sv_sort = int_sort, sv_dimension = [], sv_unit = [], sv_location = []\<rparr>"

definition x_refusal :: refusal where
  "x_refusal = \<lparr>rf_construct = ''name'', rf_reason = [], rf_element = [], rf_condition = [], rf_file = [], rf_location = []\<rparr>"

definition x_env :: "(unit, unit) tr_env" where
  "x_env = \<lparr>te_pow = \<lambda>_ _. NotANumber,
     te_reference = \<lambda>su br ns. if ns = [''x''] then give (VarTerm x_var) else throw x_refusal,
     te_node = \<lambda>su br n. throw x_refusal,
     te_commensurable = \<lambda>_ _. True, te_dimension_text = \<lambda>_. [], te_location = \<lambda>_ _. []\<rparr>"

definition x_subject :: subject where
  "x_subject = \<lparr>su_kind = ''constraint'', su_name = ''c'', su_negated = False, su_label = [], su_file = []\<rparr>"

definition x_start :: "unit tr_state" where
  "x_start = \<lparr>ts_guards = [], ts_guarded = {}, ts_nonlinear = False, ts_int_div = False, ts_outer = ()\<rparr>"

definition x_frame :: "int \<Rightarrow> (unit, unit) frame" where
  "x_frame i n = (if n = ''x'' then Some (VConst (ConstInt (word_of_int i))) else None)"

definition x_model :: "int \<Rightarrow> string \<Rightarrow> smt_value" where
  "x_model i n = IntV i"

text \<open>\<open>10 / x > 1\<close> and \<open>(x > 0 and 10 / x > 1) == false\<close>.\<close>

definition quotient_expr :: "unit expr" where
  "quotient_expr = OperatorExpr OpGt [OperatorExpr OpDiv [LiteralInteger ''10'', NameExpr [''x'']], LiteralInteger ''1'']"

definition guarded_expr :: "unit expr" where
  "guarded_expr = OperatorExpr OpEq [OperatorExpr OpConditionalAnd
     [OperatorExpr OpGt [NameExpr [''x''], LiteralInteger ''0''], quotient_expr], LiteralBool False]"

definition quotient_term :: smt_term where
  "quotient_term = binary_term SmtGt bool_sort (trunc_div (IntTerm 10) (VarTerm x_var)) (IntTerm 1)"

lemma x_leaves: "leaves_agree x_env su (x_model 3) (\<lambda>_. ''l'') plain_env [x_frame 3]"
  by (auto simp: leaves_agree_def leaf_agrees_def x_env_def x_var_def plain_env_def eval_name_def frame_lookup_def x_frame_def x_model_def
      int_sort_def scalar_sort_def agrees_give simp del: then_do_simps)

lemma quotient_translated:
  "snd (translate_expr x_env x_subject 0 quotient_expr x_start) = Inr quotient_term"
  by code_simp

lemma quotient_tame: "tame (x_model 3) G quotient_term"
  by (simp add: tame_def tame_at_def quotient_term_def trunc_div_def ite_term_def binary_term_def unary_term_def nonzero_term_def
      zero_of_def x_model_def x_var_def apply_op_def truth_def truths_def bool_sort_def int_sort_def scalar_sort_def
      euclid_div_def del: write_term.simps)


text \<open>
  The side condition of a quotient is asserted for the whole condition even where the evaluator may skip the
  quotient: below an equality, the second operand of \<open>and\<close>. At \<open>x = 0\<close> the evaluator accepts
  \<open>(x > 0 and 10 / x > 1) == false\<close>, and the asserted side condition denies it.
\<close>

theorem hoisted_guard_denies:
  "map fst (ts_guards (fst (translate_expr x_env x_subject 0 guarded_expr x_start))) = [nonzero_term (VarTerm x_var)]
    \<and> meaning (x_model 0) (nonzero_term (VarTerm x_var)) = Some (BoolV False)
    \<and> snd (eval plain_env [x_frame 0] guarded_expr (plain_context 20)) = Inr (VConst (ConstBool True))"
  by (intro conjI; code_simp)

end
