(* ===== verification/Smt_Conditions.thy ===== *)
theory Smt_Conditions
  imports Smt_Translate
begin

text \<open>
  The conditions an element states, \<open>internal/core/runtime/condition.go\<close>: their texts, their evaluation and
  the verdict of a check; and the query made of them, \<open>internal/core/solve/translate.go\<close>. Scopes are \<open>'sc\<close>.
\<close>

section \<open>Conditions\<close>

text \<open>A condition states an expression or, as a group, the conjunction of its conditions.\<close>

datatype ('n, 'sc) stated_condition =
    CondExpr (cd_expr: "'n expr option") (cd_scope: 'sc) (cd_negated: bool) (cd_required: bool)
  | CondGroup (cd_group: "('n, 'sc) stated_condition list") (cd_negated: bool) (cd_required: bool)

definition qualified_text :: "string list \<Rightarrow> string" where
  "qualified_text ns = join_with ''::'' (filter (\<lambda>s. s \<noteq> []) ns)"

text \<open>Nodes outside the expression type have a label of their own, the parameter \<open>lab\<close>, and a text, \<open>txt\<close>.\<close>

definition trace_label :: "('n \<Rightarrow> string) \<Rightarrow> 'n expr \<Rightarrow> string" where
  "trace_label lab e =
     (case e of
        LiteralInteger s \<Rightarrow> ''literal '' @ s
      | LiteralReal s \<Rightarrow> ''literal '' @ s
      | LiteralBool b \<Rightarrow> ''literal '' @ (if b then ''true'' else ''false'')
      | LiteralString s \<Rightarrow> ''literal '' @ s
      | LiteralInfinity \<Rightarrow> ''literal *''
      | NullExpr \<Rightarrow> ''null''
      | NameExpr ns \<Rightarrow> ''feature '' @ qualified_text ns
      | OperatorExpr op es \<Rightarrow> ''operator '' @ operator_text op
      | SequenceExpr es \<Rightarrow> ''sequence of '' @ nat_text (length es)
      | OtherE n \<Rightarrow> lab n)"

fun condition_text :: "('n \<Rightarrow> string) \<Rightarrow> ('n \<Rightarrow> string) \<Rightarrow> 'n expr \<Rightarrow> string" where
  "condition_text lab txt (LiteralInteger s) = s"
| "condition_text lab txt (LiteralReal s) = s"
| "condition_text lab txt (LiteralString s) = s"
| "condition_text lab txt (LiteralBool b) = (if b then ''true'' else ''false'')"
| "condition_text lab txt (NameExpr ns) = qualified_text ns"
| "condition_text lab txt (OperatorExpr op es) =
     (case es of
        [a] \<Rightarrow> operator_text op @ '' '' @ condition_text lab txt a
      | [a, b] \<Rightarrow> condition_text lab txt a @ '' '' @ operator_text op @ '' '' @ condition_text lab txt b
      | _ \<Rightarrow> trace_label lab (OperatorExpr op es))"
| "condition_text lab txt (OtherE n) = txt n"
| "condition_text lab txt e = trace_label lab e"

text \<open>\<open>nt\<close> has the labels and the texts of the nodes outside the expression type.\<close>

type_synonym 'n node_texts = "('n \<Rightarrow> string) \<times> ('n \<Rightarrow> string)"

fun condition_label :: "'n node_texts \<Rightarrow> ('n, 'sc) stated_condition \<Rightarrow> string" where
  "condition_label nt (CondExpr e sc n r) =
     (if n then ''not '' else []) @ (case e of Some x \<Rightarrow> condition_text (fst nt) (snd nt) x | None \<Rightarrow> ''nil'')"
| "condition_label nt (CondGroup cs n r) =
     (if n then ''not '' else []) @ ''{ '' @ join_with ''; '' (map (condition_label nt) cs) @ '' }''"

definition negated_text :: "'n node_texts \<Rightarrow> ('n, 'sc) stated_condition list \<Rightarrow> string" where
  "negated_text nt conds =
     (case map (condition_label nt) (filter cd_required conds) of
        [t] \<Rightarrow> ''not '' @ t
      | ts \<Rightarrow> ''not ('' @ join_with '' and '' ts @ '')'')"

section \<open>Checking conditions\<close>

text \<open>
  What a check evaluates in: the evaluator of a scope and an activation, and the activations the context
  begins and ends around a check.
\<close>

record ('n, 'o, 'c, 'sc) check_env =
  ke_eval :: "'sc \<Rightarrow> int \<Rightarrow> ('n, 'o, 'c) eval_env"
  ke_begin :: "'c \<Rightarrow> 'c \<times> int"
  ke_end :: "int \<Rightarrow> 'c \<Rightarrow> 'c"
  ke_text :: "'n node_texts"

record ('n, 'o) condition_check =
  ck_kind :: string
  ck_what :: string
  ck_name :: string
  ck_bindings :: "('n, 'o) frame option"
  ck_negated :: bool

datatype check_error =
    CheckNoConditions string string
  | CheckFailed string string string eval_error
  | CheckViolation string string string string

type_synonym ('n, 'o, 'c, 'a) cprog = "(('n, 'o, 'c) eval_ctx, check_error, 'a) prog"

definition check_frames :: "('n, 'o) condition_check \<Rightarrow> ('n, 'o) frame list" where
  "check_frames ck = (case ck_bindings ck of None \<Rightarrow> [] | Some f \<Rightarrow> [f])"

definition condition_verdict :: "bool \<Rightarrow> ('n, 'o) rvalue \<Rightarrow> ('n, 'o, 'c, bool) eprog" where
  "condition_verdict negated v =
     (case v of
        VConst (ConstBool b) \<Rightarrow> give (b \<noteq> negated)
      | _ \<Rightarrow> throw (ErrOther ''condition must evaluate to boolean''))"

text \<open>A group evaluates all of its conditions, also after one that does not hold.\<close>

fun condition_holds ::
  "('n, 'o, 'c, 'sc) check_env \<Rightarrow> ('n, 'o) frame list \<Rightarrow> int \<Rightarrow> ('n, 'sc) stated_condition \<Rightarrow> ('n, 'o, 'c, bool) eprog"
  and group_holds ::
  "('n, 'o, 'c, 'sc) check_env \<Rightarrow> ('n, 'o) frame list \<Rightarrow> int \<Rightarrow> ('n, 'sc) stated_condition list \<Rightarrow> ('n, 'o, 'c, bool) eprog"
where
  "condition_holds ke fr act (CondExpr e sc n r) =
     then_do (case e of
        Some x \<Rightarrow> eval (ke_eval ke sc act) fr x
      | None \<Rightarrow> then_do increment_step (\<lambda>_. throw (ErrOther ''unsupported node type''))) (condition_verdict n)"
| "condition_holds ke fr act (CondGroup cs n r) = then_do (group_holds ke fr act cs) (\<lambda>b. give (b \<noteq> n))"
| "group_holds ke fr act [] = give True"
| "group_holds ke fr act (c # cs) =
     then_do (condition_holds ke fr act c) (\<lambda>h. then_do (group_holds ke fr act cs) (\<lambda>b. give (h \<and> b)))"

definition check_failing :: "('n, 'o) condition_check \<Rightarrow> ('n, 'o, 'c, 'a) eprog \<Rightarrow> ('n, 'o, 'c, 'a) cprog" where
  "check_failing ck p ctx =
     (case p ctx of
        (ctx', Inl x) \<Rightarrow> (ctx', Inl (CheckFailed (ck_kind ck) (ck_name ck) (ck_what ck) x))
      | (ctx', Inr a) \<Rightarrow> (ctx', Inr a))"

definition violated_by :: "('n, 'o) condition_check \<Rightarrow> string \<Rightarrow> check_error" where
  "violated_by ck c = CheckViolation (ck_kind ck) (ck_name ck) (ck_what ck) c"

text \<open>The loop over the conditions: \<open>seen\<close> says whether one of those before was required.\<close>

fun check_each ::
  "('n, 'o, 'c, 'sc) check_env \<Rightarrow> ('n, 'o) condition_check \<Rightarrow> int \<Rightarrow> ('n, 'sc) stated_condition list \<Rightarrow> bool
    \<Rightarrow> ('n, 'sc) stated_condition list \<Rightarrow> ('n, 'o, 'c, bool) cprog" where
  "check_each ke ck act conds seen [] =
     (if ck_negated ck then
        (if \<not> seen then throw (CheckNoConditions (ck_kind ck) (ck_name ck))
         else throw (violated_by ck (negated_text (ke_text ke) conds)))
      else give True)"
| "check_each ke ck act conds seen (c # cs) =
     then_do (check_failing ck (condition_holds ke (check_frames ck) act c)) (\<lambda>h.
       if cd_required c \<and> \<not> h then
         (if ck_negated ck then give True else throw (violated_by ck (condition_label (ke_text ke) c)))
       else check_each ke ck act conds (seen \<or> cd_required c) cs)"

definition outer_updated :: "('c \<Rightarrow> 'c) \<Rightarrow> ('n, 'o, 'c) eval_ctx \<Rightarrow> ('n, 'o, 'c) eval_ctx" where
  "outer_updated f ctx = ctx\<lparr>rc_rest := (rc_rest ctx)\<lparr>er_outer := f (er_outer (rc_rest ctx))\<rparr>\<rparr>"

text \<open>One check is one step: an activation, ended with it, and the elements it held are released.\<close>

definition in_step :: "('n, 'o, 'c, 'sc) check_env \<Rightarrow> (int \<Rightarrow> ('n, 'o, 'c, 'a) cprog) \<Rightarrow> ('n, 'o, 'c, 'a) cprog" where
  "in_step ke p ctx =
     (let act = snd (ke_begin ke (er_outer (rc_rest ctx)))
      in finally_do (p act) (\<lambda>ctx'. (outer_updated (ke_end ke act) ctx')\<lparr>rc_elements := rc_elements ctx\<rparr>)
           (outer_updated (\<lambda>c. fst (ke_begin ke c)) ctx))"

definition evaluate_conditions ::
  "('n, 'o, 'c, 'sc) check_env \<Rightarrow> ('n, 'o) condition_check \<Rightarrow> ('n, 'sc) stated_condition list \<Rightarrow> ('n, 'o, 'c, bool) cprog" where
  "evaluate_conditions ke ck conds =
     (if conds = [] then throw (CheckNoConditions (ck_kind ck) (ck_name ck))
      else in_step ke (\<lambda>act. check_each ke ck act conds False conds))"

section \<open>Translating conditions\<close>

text \<open>A declaring element: its name, its document, and where it was declared.\<close>

record decl_site =
  de_name :: string
  de_document :: string
  de_location :: string

text \<open>
  What the translation of a query reads around its expressions: the translation of names in a scope, the
  element a scope belongs to, and the declarations and pinned values the references put in the state.
\<close>

record ('n, 's, 'sc) query_env =
  qe_env :: "'sc \<Rightarrow> ('n, 's) tr_env"
  qe_owner :: "'sc \<Rightarrow> decl_site option"
  qe_subject :: "decl_site option"
  qe_nowhere :: "string \<Rightarrow> string"
  qe_text :: "'n node_texts"
  qe_vars :: "'s \<Rightarrow> smt_var list"
  qe_sorts :: "'s \<Rightarrow> smt_sort list"
  qe_domains :: "'s \<Rightarrow> (smt_term \<times> provenance) list"
  qe_pins :: "'s \<Rightarrow> (smt_var \<times> smt_term \<times> provenance) list"
  qe_objectives :: "'s \<Rightarrow> objective list"
  qe_base_unit :: "'s \<Rightarrow> string \<Rightarrow> string"
  qe_fix :: "('s tr_state, refusal, unit) prog"

definition negate_term :: "smt_term \<Rightarrow> bool \<Rightarrow> smt_term" where
  "negate_term t negated = (if negated then not_term t else t)"

definition condition_term :: "('n, 's) tr_env \<Rightarrow> subject \<Rightarrow> 'n expr \<Rightarrow> bool \<Rightarrow> smt_term \<Rightarrow> 's translation" where
  "condition_term env su node negated t =
     (if so_kind (term_sort t) \<noteq> SortBool
      then refuse_at env su node ''condition'' (''it yields '' @ so_name (term_sort t) @ '' rather than a boolean'')
      else give (negate_term t negated))"

fun translate_condition :: "('n, 's, 'sc) query_env \<Rightarrow> subject \<Rightarrow> nat \<Rightarrow> ('n, 'sc) stated_condition \<Rightarrow> 's translation"
  and translate_group ::
    "('n, 's, 'sc) query_env \<Rightarrow> subject \<Rightarrow> nat \<Rightarrow> ('n, 'sc) stated_condition list \<Rightarrow> ('s tr_state, refusal, smt_term list) prog"
where
  "translate_condition qe su br (CondExpr e sc n r) =
     (case e of
        None \<Rightarrow> throw (refusal_of (qe_env qe sc) su None ''empty condition'' ''it states no expression'')
      | Some x \<Rightarrow>
          then_do (translate_expr (qe_env qe sc) su (if n then Suc br else br) x) (condition_term (qe_env qe sc) su x n))"
| "translate_condition qe su br (CondGroup cs n r) =
     then_do (translate_group qe su (if n then Suc br else br) cs) (\<lambda>ts. give (negate_term (and_term ts) n))"
| "translate_group qe su br [] = give []"
| "translate_group qe su br (c # cs) =
     then_do (translate_condition qe su br c) (\<lambda>t. then_do (translate_group qe su br cs) (\<lambda>ts. give (t # ts)))"

text \<open>The element that declared a condition and where the condition was written.\<close>

fun condition_origin :: "('n, 's, 'sc) query_env \<Rightarrow> ('n, 'sc) stated_condition \<Rightarrow> decl_site option \<times> ('sc \<times> 'n expr) option" where
  "condition_origin qe (CondGroup cs n r) = (case cs of [] \<Rightarrow> (None, None) | c # _ \<Rightarrow> condition_origin qe c)"
| "condition_origin qe (CondExpr e sc n r) = (qe_owner qe sc, map_option (Pair sc) e)"

definition condition_file :: "('n, 's, 'sc) query_env \<Rightarrow> ('n, 'sc) stated_condition \<Rightarrow> string" where
  "condition_file qe c = (case fst (condition_origin qe c) of Some d \<Rightarrow> de_document d | None \<Rightarrow> [])"

definition condition_location :: "('n, 's, 'sc) query_env \<Rightarrow> ('n, 'sc) stated_condition \<Rightarrow> string" where
  "condition_location qe c =
     (case condition_origin qe c of
        (_, Some (sc, x)) \<Rightarrow> te_location (qe_env qe sc) (condition_file qe c) (Some x)
      | (Some d, None) \<Rightarrow> de_location d
      | (None, None) \<Rightarrow> qe_nowhere qe [])"

definition declared_name :: "decl_site option \<Rightarrow> string" where
  "declared_name d = (case d of Some x \<Rightarrow> de_name x | None \<Rightarrow> [])"

definition at_condition :: "('n, 's, 'sc) query_env \<Rightarrow> subject \<Rightarrow> ('n, 'sc) stated_condition \<Rightarrow> subject" where
  "at_condition qe su c = su\<lparr>su_label := condition_label (qe_text qe) c, su_file := condition_file qe c\<rparr>"

definition condition_provenance :: "('n, 's, 'sc) query_env \<Rightarrow> subject \<Rightarrow> ('n, 'sc) stated_condition \<Rightarrow> provenance" where
  "condition_provenance qe su c =
     \<lparr>pv_kind = su_kind su, pv_element = su_name su, pv_condition = condition_label (qe_text qe) c,
      pv_role = (if cd_required c then RoleRequired else RoleAssumed),
      pv_declared = declared_name (fst (condition_origin qe c)), pv_location = condition_location qe c\<rparr>"

text \<open>A negated element denies the conjunction of its required conditions; \<open>file\<close> is that of the last one.\<close>

definition denied_provenance :: "('n, 's, 'sc) query_env \<Rightarrow> subject \<Rightarrow> ('n, 'sc) stated_condition list \<Rightarrow> string \<Rightarrow> provenance" where
  "denied_provenance qe su required file =
     \<lparr>pv_kind = su_kind su, pv_element = su_name su,
      pv_condition = ''not ('' @ join_with '' and '' (map (condition_label (qe_text qe)) required) @ '')'',
      pv_role = RoleDenied, pv_declared = declared_name (qe_subject qe),
      pv_location = (case qe_subject qe of Some d \<Rightarrow> de_location d | None \<Rightarrow> qe_nowhere qe file)\<rparr>"

text \<open>The terms a negated element denies, and the assertions of the other conditions, in order.\<close>

fun translate_each ::
  "('n, 's, 'sc) query_env \<Rightarrow> subject \<Rightarrow> ('n, 'sc) stated_condition list
    \<Rightarrow> ('s tr_state, refusal, smt_term list \<times> (smt_term \<times> provenance) list) prog" where
  "translate_each qe su [] = give ([], [])"
| "translate_each qe su (c # cs) =
     then_do (translate_condition qe (at_condition qe su c) 0 c) (\<lambda>t.
     then_do (translate_each qe su cs) (\<lambda>(required, asserted).
       if su_negated su \<and> cd_required c then give (t # required, asserted)
       else give (required, (t, condition_provenance qe su c) # asserted)))"

datatype translate_error = Refused refusal | NothingToDeny string string | NothingToTranslate string string

definition refusing :: "('m, refusal, 'a) prog \<Rightarrow> ('m, translate_error, 'a) prog" where
  "refusing p st = (case p st of (st', Inl x) \<Rightarrow> (st', Inl (Refused x)) | (st', Inr a) \<Rightarrow> (st', Inr a))"

definition translate_conditions ::
  "('n, 's, 'sc) query_env \<Rightarrow> subject \<Rightarrow> ('n, 'sc) stated_condition list
    \<Rightarrow> ('s tr_state, translate_error, (smt_term \<times> provenance) list) prog" where
  "translate_conditions qe su conds =
     then_do (refusing (translate_each qe su conds)) (\<lambda>(required, asserted).
       if \<not> su_negated su then give asserted
       else if required = [] then throw (NothingToDeny (su_kind su) (su_name su))
       else give (asserted @
         [(not_term (and_term required), denied_provenance qe su (filter cd_required conds) (condition_file qe (last conds)))]))"

section \<open>The query\<close>

definition with_base_unit :: "(string \<Rightarrow> string) \<Rightarrow> smt_var \<Rightarrow> smt_var" where
  "with_base_unit base v = (if sv_unit v = [] then v\<lparr>sv_unit := base (sv_dimension v)\<rparr> else v)"

definition objective_with_base :: "(string \<Rightarrow> string) \<Rightarrow> objective \<Rightarrow> objective" where
  "objective_with_base base ob = (if ob_unit ob = [] then ob\<lparr>ob_unit := base (ob_dimension ob)\<rparr> else ob)"

text \<open>The pinned values, in the order of the variables they fix.\<close>

definition pinned_assertions :: "(smt_var \<times> smt_term \<times> provenance) list \<Rightarrow> (smt_var \<times> smt_term \<times> provenance) list" where
  "pinned_assertions ps = sort_key (\<lambda>p. sv_name (fst p)) ps"

text \<open>
  A variable without a unit takes the base unit of its dimension, where it is declared and where it is pinned;
  terms are read by the names of their variables only.
\<close>

definition query_of ::
  "('n, 's, 'sc) query_env \<Rightarrow> subject \<Rightarrow> (smt_term \<times> provenance) list \<Rightarrow> 's tr_state \<Rightarrow> smt_query" where
  "query_of qe su asserted st =
     (let s = ts_outer st; base = qe_base_unit qe s; pins = pinned_assertions (qe_pins qe s) in
      \<lparr>q_kind = su_kind su, q_element = su_name su, q_negated = su_negated su,
       q_sorts = sort_sorts (qe_sorts qe s), q_vars = sort_vars (map (with_base_unit base) (qe_vars qe s)),
       q_assertions = sort_assertions (qe_domains qe s) @ map snd pins @ ts_guards st @ asserted,
       q_nonlinear = ts_nonlinear st, q_integer_division = ts_int_div st,
       q_pinned = map (with_base_unit base \<circ> fst) pins, q_objectives = map (objective_with_base base) (qe_objectives qe s)\<rparr>)"

definition translate_with ::
  "('n, 's, 'sc) query_env \<Rightarrow> subject \<Rightarrow> ('n, 'sc) stated_condition list \<Rightarrow> ('s tr_state, translate_error, smt_query) prog" where
  "translate_with qe su conds =
     (if conds = [] then throw (NothingToTranslate (su_kind su) (su_name su))
      else then_do (translate_conditions qe su conds) (\<lambda>asserted.
           then_do (refusing (qe_fix qe)) (\<lambda>_. with_state (\<lambda>st. give (query_of qe su asserted st)))))"

end
