(* ===== verification/Smt_Verdict.thy ===== *)
theory Smt_Verdict
  imports Smt_Faithful Smt_Conditions Smt_Meaning
begin

text \<open>
  The query made of an element's conditions against the check of the same conditions: where the side
  conditions hold, the assertions of the query say what the check answers.
\<close>

section \<open>Shape\<close>

fun condition_encodable :: "('n, 's, 'sc) query_env \<Rightarrow> ('n, 'sc) stated_condition \<Rightarrow> bool" where
  "condition_encodable qe (CondExpr e sc n r) \<longleftrightarrow>
     (case e of Some x \<Rightarrow> encodable (te_pow (qe_env qe sc)) x | None \<Rightarrow> True)"
| "condition_encodable qe (CondGroup cs n r) \<longleftrightarrow> list_all (condition_encodable qe) cs"

text \<open>In every scope, names and other nodes mean to the solver what the evaluator reads.\<close>

definition scopes_agree ::
  "('n, 's, 'sc) query_env \<Rightarrow> ('n, 'o, 'c, 'sc) check_env \<Rightarrow> (string \<Rightarrow> smt_value) \<Rightarrow> ('o \<Rightarrow> string)
    \<Rightarrow> ('n, 'o) frame list \<Rightarrow> bool" where
  "scopes_agree qe ke m nm fr \<longleftrightarrow>
     (\<forall>sc act. te_pow (qe_env qe sc) = ee_pow (ke_eval ke sc act)
        \<and> (\<forall>su. leaves_agree (qe_env qe sc) su m nm (ke_eval ke sc act) fr))"

definition bool_term :: "smt_term \<Rightarrow> bool" where
  "bool_term t \<longleftrightarrow> unary_nots t \<and> so_kind (term_sort t) = SortBool"

lemma unary_not_kind: "bool_term t \<Longrightarrow> bool_term (not_term t)"
  by (cases t) (auto simp: bool_term_def not_term_def bool_sort_def scalar_sort_def split: smt_op.split list.split)

lemma bool_negate: "bool_term t \<Longrightarrow> bool_term (negate_term t n)"
  by (simp add: negate_term_def unary_not_kind)

lemma bool_and: "list_all bool_term ts \<Longrightarrow> bool_term (and_term ts)"
  by (auto simp: bool_term_def and_term_def junction_def bool_sort_def scalar_sort_def list_all_iff split: list.split)

lemma group_shape:
  assumes "\<And>c st st' t. c \<in> set cs \<Longrightarrow> translate_condition qe su br c st = (st', Inr t) \<Longrightarrow>
      bool_term t \<and> ts_guarded st \<subseteq> ts_guarded st'"
  shows "translate_group qe su br cs st = (st', Inr ts) \<Longrightarrow> list_all bool_term ts \<and> ts_guarded st \<subseteq> ts_guarded st'"
  using assms
proof (induction cs arbitrary: st st' ts)
  case (Cons c cs)
  from Cons.prems(1) obtain st1 t us where t: "translate_condition qe su br c st = (st1, Inr t)"
      "translate_group qe su br cs st1 = (st', Inr us)" "ts = t # us"
    by (auto simp: then_do_Inr)
  have "bool_term t \<and> ts_guarded st \<subseteq> ts_guarded st1" using Cons.prems(2) [OF _ t(1)] by simp
  moreover have "list_all bool_term us \<and> ts_guarded st1 \<subseteq> ts_guarded st'"
    by (rule Cons.IH [OF t(2)], rule Cons.prems(2), auto)
  ultimately show ?case using t(3) by auto
qed simp

lemma translated_expr:
  assumes "translate_condition qe su br (CondExpr e sc n r) st = (st', Inr t)"
  obtains x t0 where "e = Some x" "translate_expr (qe_env qe sc) su (if n then Suc br else br) x st = (st', Inr t0)"
    "so_kind (term_sort t0) = SortBool" "t = negate_term t0 n"
proof (cases e)
  case (Some x)
  with assms obtain st1 t0 where t: "translate_expr (qe_env qe sc) su (if n then Suc br else br) x st = (st1, Inr t0)"
      "condition_term (qe_env qe sc) su x n t0 st1 = (st', Inr t)"
    by (auto simp: then_do_Inr)
  then have "so_kind (term_sort t0) = SortBool" "st1 = st'" "t = negate_term t0 n"
    by (auto simp: condition_term_def split: if_splits)
  with Some t that show ?thesis by blast
qed (use assms in simp)

lemma translated_group:
  assumes "translate_condition qe su br (CondGroup cs n r) st = (st', Inr t)"
  obtains ts where "translate_group qe su (if n then Suc br else br) cs st = (st', Inr ts)" "t = negate_term (and_term ts) n"
  using assms that by (auto simp: then_do_Inr)

lemma condition_shape:
  assumes "scopes_agree qe ke m nm fr"
  shows "translate_condition qe su br c st = (st', Inr t) \<Longrightarrow> condition_encodable qe c \<Longrightarrow>
      bool_term t \<and> ts_guarded st \<subseteq> ts_guarded st'"
proof (induction c arbitrary: br st st' t)
  case (CondExpr e sc n r)
  from CondExpr.prems(1) obtain x t0 where x: "e = Some x"
      "translate_expr (qe_env qe sc) su (if n then Suc br else br) x st = (st', Inr t0)"
      "so_kind (term_sort t0) = SortBool" "t = negate_term t0 n"
    by (rule translated_expr)
  have "leaves_agree (qe_env qe sc) su m nm (ke_eval ke sc 0) fr" using assms by (simp add: scopes_agree_def)
  from translated_shape [OF this x(2)] CondExpr.prems(2) x have "bool_term t0 \<and> ts_guarded st \<subseteq> ts_guarded st'"
    by (simp add: bool_term_def)
  with x(4) bool_negate show ?case by simp
next
  case (CondGroup cs n r)
  from CondGroup.prems(1) obtain ts where ts: "translate_group qe su (if n then Suc br else br) cs st = (st', Inr ts)"
      "t = negate_term (and_term ts) n"
    by (rule translated_group)
  have "list_all bool_term ts \<and> ts_guarded st \<subseteq> ts_guarded st'"
    by (rule group_shape [OF _ ts(1)]) (use CondGroup in \<open>auto simp: list_all_iff\<close>)
  with ts(2) show ?case by (simp add: bool_negate bool_and)
qed

section \<open>Values\<close>

text \<open>A Boolean computation that answers \<open>b\<close>, or runs out of steps.\<close>

definition decides_as :: "bool \<Rightarrow> ('m, eval_error, bool) prog \<Rightarrow> bool" where
  "decides_as b p \<longleftrightarrow> (\<forall>ctx. case snd (p ctx) of Inr h \<Rightarrow> h = b | Inl x \<Rightarrow> x = ErrStepLimitExceeded)"

lemma decides_give: "decides_as b (give b)"
  by (simp add: decides_as_def)

lemma decides_bind: "decides_as a p \<Longrightarrow> decides_as b (f a) \<Longrightarrow> decides_as b (then_do p f)"
  unfolding decides_as_def
proof
  fix ctx
  assume p: "\<forall>ctx. case snd (p ctx) of Inr h \<Rightarrow> h = a | Inl x \<Rightarrow> x = ErrStepLimitExceeded"
    and f: "\<forall>ctx. case snd (f a ctx) of Inr h \<Rightarrow> h = b | Inl x \<Rightarrow> x = ErrStepLimitExceeded"
  show "case snd (then_do p f ctx) of Inr h \<Rightarrow> h = b | Inl x \<Rightarrow> x = ErrStepLimitExceeded"
    using spec [OF p, of ctx] f by (cases "p ctx"; cases "snd (p ctx)") auto
qed

lemma decides_verdict:
  assumes "result_agrees nm (BoolV b) p"
  shows "decides_as (b \<noteq> n) (then_do p (condition_verdict n))"
  unfolding decides_as_def
proof
  fix ctx
  obtain ctx1 r where p: "p ctx = (ctx1, r)" by force
  have "case r of Inr v \<Rightarrow> agrees nm v (BoolV b) | Inl x \<Rightarrow> x = ErrStepLimitExceeded"
    using assms p by (auto simp: result_agrees_def dest: spec [of _ ctx])
  with p show "case snd (then_do p (condition_verdict n) ctx) of Inr h \<Rightarrow> h = (b \<noteq> n) | Inl x \<Rightarrow> x = ErrStepLimitExceeded"
    by (cases r) (auto simp: agrees_bool condition_verdict_def)
qed

lemma tame_negate: "tame m G (negate_term t n) \<Longrightarrow> bool_term t \<Longrightarrow> tame m G t"
  by (cases n) (auto simp: negate_term_def bool_term_def intro: tame_not)

lemma tame_and: "tame m G (and_term ts) \<Longrightarrow> t \<in> set ts \<Longrightarrow> tame m G t"
  by (auto simp: and_term_def junction_def intro: tame_arg split: list.splits)

lemma negate_meaning:
  "meaning m t = Some (BoolV b) \<Longrightarrow> bool_term t \<Longrightarrow> meaning m (negate_term t n) = Some (BoolV (b \<noteq> n))"
  using not_value by (cases n) (auto simp: negate_term_def bool_term_def)

lemma group_value:
  assumes "\<And>c st st' t. c \<in> set cs \<Longrightarrow> translate_condition qe su br c st = (st', Inr t) \<Longrightarrow> ts_guarded st' \<subseteq> G \<Longrightarrow> tame m G t \<Longrightarrow>
      \<exists>b. meaning m t = Some (BoolV b) \<and> decides_as b (condition_holds ke fr act c)"
    and "\<And>c st st' t. c \<in> set cs \<Longrightarrow> translate_condition qe su br c st = (st', Inr t) \<Longrightarrow> bool_term t \<and> ts_guarded st \<subseteq> ts_guarded st'"
  shows "translate_group qe su br cs st = (st', Inr ts) \<Longrightarrow> ts_guarded st' \<subseteq> G \<Longrightarrow> list_all (tame m G) ts \<Longrightarrow>
      \<exists>bs. map (meaning m) ts = map (Some \<circ> BoolV) bs \<and> decides_as (list_all (\<lambda>b. b) bs) (group_holds ke fr act cs)"
  using assms
proof (induction cs arbitrary: st st' ts)
  case Nil
  then have "ts = []" by simp
  then show ?case by (intro exI [of _ "[]"]) (simp add: decides_give del: prog_simps)
next
  case (Cons c cs)
  from Cons.prems(1) obtain st1 t us where t: "translate_condition qe su br c st = (st1, Inr t)"
      "translate_group qe su br cs st1 = (st', Inr us)" "ts = t # us"
    by (auto simp: then_do_Inr)
  have "list_all bool_term us \<and> ts_guarded st1 \<subseteq> ts_guarded st'"
    by (rule group_shape [OF _ t(2)], rule Cons.prems(5), auto)
  then obtain b where b: "meaning m t = Some (BoolV b)" "decides_as b (condition_holds ke fr act c)"
    using Cons.prems(4) [OF _ t(1)] Cons.prems(2,3) t(3) by auto
  have "\<exists>bs. map (meaning m) us = map (Some \<circ> BoolV) bs \<and> decides_as (list_all (\<lambda>b. b) bs) (group_holds ke fr act cs)"
  proof (rule Cons.IH [OF t(2) Cons.prems(2)])
    show "list_all (tame m G) us" using Cons.prems(3) t(3) by simp
  qed (rule Cons.prems(4) Cons.prems(5); simp)+
  then obtain bs where bs: "map (meaning m) us = map (Some \<circ> BoolV) bs" "decides_as (list_all (\<lambda>b. b) bs) (group_holds ke fr act cs)"
    by blast
  have "decides_as (b \<and> list_all (\<lambda>b. b) bs) (group_holds ke fr act (c # cs))"
    unfolding group_holds.simps by (intro decides_bind [OF b(2)] decides_bind [OF bs(2)] decides_give)
  with b(1) bs(1) t(3) show ?case by (intro exI [of _ "b # bs"]) simp
qed

lemma condition_value:
  fixes ke :: "('n, 'o, 'c, 'sc) check_env"
  assumes "scopes_agree qe ke m nm fr" "inj nm"
  shows "translate_condition qe su br c st = (st', Inr t) \<Longrightarrow> condition_encodable qe c \<Longrightarrow> ts_guarded st' \<subseteq> G \<Longrightarrow> tame m G t \<Longrightarrow>
      \<exists>b. meaning m t = Some (BoolV b) \<and> decides_as b (condition_holds ke fr act c)"
proof (induction c arbitrary: br st st' t)
  case (CondExpr e sc n r)
  from CondExpr.prems(1) obtain x t0 where x: "e = Some x"
      "translate_expr (qe_env qe sc) su (if n then Suc br else br) x st = (st', Inr t0)"
      "so_kind (term_sort t0) = SortBool" "t = negate_term t0 n"
    by (rule translated_expr)
  have leaves: "leaves_agree (qe_env qe sc) su m nm (ke_eval ke sc act) fr" "te_pow (qe_env qe sc) = ee_pow (ke_eval ke sc act)"
    using assms(1) by (simp_all add: scopes_agree_def)
  have enc: "encodable (te_pow (qe_env qe sc)) x" using CondExpr.prems(2) x(1) by simp
  have t0: "bool_term t0" using translated_shape [OF leaves(1) x(2) enc] x(3) by (simp add: bool_term_def)
  have "tame m G t0" using CondExpr.prems(4) x(4) t0 tame_negate by blast
  from translation_means [OF leaves(1) assms(2) leaves(2) x(2) enc CondExpr.prems(3) this] obtain sv where
    sv: "meaning m t0 = Some sv" "kind_of_value sv = SortBool" "result_agrees nm sv (eval (ke_eval ke sc act) fr x)"
    using x(3) by (auto simp: means_def)
  then obtain b where b: "sv = BoolV b" using kind_bool by blast
  have "decides_as (b \<noteq> n) (then_do (eval (ke_eval ke sc act) fr x) (condition_verdict n))"
    using sv(3) b by (intro decides_verdict [of nm]) simp
  with x(1) have "decides_as (b \<noteq> n) (condition_holds ke fr act (CondExpr e sc n r))" by simp
  moreover have "meaning m t = Some (BoolV (b \<noteq> n))" using negate_meaning sv(1) b t0 x(4) by simp
  ultimately show ?case by blast
next
  case (CondGroup cs n r)
  from CondGroup.prems(1) obtain ts where ts: "translate_group qe su (if n then Suc br else br) cs st = (st', Inr ts)"
      "t = negate_term (and_term ts) n"
    by (rule translated_group)
  have enc: "condition_encodable qe c" if "c \<in> set cs" for c using CondGroup.prems(2) that by (simp add: list_all_iff)
  have shape: "bool_term t \<and> ts_guarded st \<subseteq> ts_guarded st'"
    if "c \<in> set cs" "translate_condition qe su br c st = (st', Inr t)" for c br st st' t
    using condition_shape [OF assms(1) that(2) enc [OF that(1)]] .
  have "list_all bool_term ts \<and> ts_guarded st \<subseteq> ts_guarded st'" by (rule group_shape [OF _ ts(1)], rule shape)
  then have and_ok: "bool_term (and_term ts)" using bool_and by blast
  then have "tame m G (and_term ts)" using CondGroup.prems(4) ts(2) tame_negate by blast
  then have tame: "list_all (tame m G) ts" using tame_and by (auto simp: list_all_iff)
  have "\<exists>bs. map (meaning m) ts = map (Some \<circ> BoolV) bs \<and> decides_as (list_all (\<lambda>b. b) bs) (group_holds ke fr act cs)"
  proof (rule group_value [OF _ _ ts(1) CondGroup.prems(3) tame])
    fix c st st' t assume c: "c \<in> set cs" "translate_condition qe su (if n then Suc br else br) c st = (st', Inr t)"
    then show "bool_term t \<and> ts_guarded st \<subseteq> ts_guarded st'" by (rule shape)
    show "\<exists>b. meaning m t = Some (BoolV b) \<and> decides_as b (condition_holds ke fr act c)"
      if "ts_guarded st' \<subseteq> G" "tame m G t"
      using CondGroup.IH [OF c enc [OF c(1)] that] .
  qed
  then obtain bs where bs: "map (meaning m) ts = map (Some \<circ> BoolV) bs"
      "decides_as (list_all (\<lambda>b. b) bs) (group_holds ke fr act cs)" by blast
  have "meaning m t = Some (BoolV (list_all (\<lambda>b. b) bs \<noteq> n))" using negate_meaning [OF and_values [OF bs(1)] and_ok] ts(2) by simp
  moreover have "decides_as (list_all (\<lambda>b. b) bs \<noteq> n) (condition_holds ke fr act (CondGroup cs n r))"
    unfolding condition_holds.simps by (intro decides_bind [OF bs(2)] decides_give)
  ultimately show ?case by blast
qed

section \<open>Checks\<close>

text \<open>The answer of a check whose conditions say \<open>ok\<close>: it holds, is violated, or ran out of steps.\<close>

fun judged :: "bool \<Rightarrow> (check_error, bool) res \<Rightarrow> bool" where
  "judged ok (Inr h) \<longleftrightarrow> h \<and> ok"
| "judged ok (Inl (CheckViolation k e w c)) \<longleftrightarrow> \<not> ok"
| "judged ok (Inl (CheckFailed k e w x)) \<longleftrightarrow> x = ErrStepLimitExceeded"
| "judged ok (Inl (CheckNoConditions k e)) \<longleftrightarrow> False"

definition some_fails :: "('n, 'sc) stated_condition list \<Rightarrow> bool list \<Rightarrow> bool" where
  "some_fails cs bs \<longleftrightarrow> (\<exists>(c, b)\<in>set (zip cs bs). cd_required c \<and> \<not> b)"

lemma some_fails_simps [simp]:
  "\<not> some_fails [] bs" "some_fails (c # cs) (b # bs) \<longleftrightarrow> (cd_required c \<and> \<not> b) \<or> some_fails cs bs"
  by (auto simp: some_fails_def)

lemma check_each_judged:
  assumes "list_all2 (\<lambda>c b. decides_as b (condition_holds ke (check_frames ck) act c)) cs bs"
    "ck_negated ck \<Longrightarrow> seen \<or> list_ex cd_required cs"
  shows "judged (ck_negated ck = some_fails cs bs) (snd (check_each ke ck act conds seen cs ctx))"
  using assms
proof (induction cs bs arbitrary: seen ctx rule: list_all2_induct)
  case Nil
  then show ?case by (auto simp: violated_by_def)
next
  case (Cons c cs b bs)
  obtain ctx1 r where run: "condition_holds ke (check_frames ck) act c ctx = (ctx1, r)" by force
  show ?case
  proof (cases r)
    case (Inl x)
    moreover from Cons.hyps(1) run Inl have "x = ErrStepLimitExceeded" by (auto simp: decides_as_def dest: spec [of _ ctx])
    ultimately show ?thesis using run by (simp add: check_failing_def then_do_def)
  next
    case (Inr h)
    with Cons.hyps(1) run have h: "h = b" by (auto simp: decides_as_def dest: spec [of _ ctx])
    have step: "check_each ke ck act conds seen (c # cs) ctx =
        (if cd_required c \<and> \<not> b
         then (if ck_negated ck then give True else throw (violated_by ck (condition_label (ke_text ke) c))) ctx1
         else check_each ke ck act conds (seen \<or> cd_required c) cs ctx1)"
      using run Inr h by (simp add: check_failing_def then_do_def)
    show ?thesis
    proof (cases "cd_required c \<and> \<not> b")
      case True
      then show ?thesis unfolding step by (auto simp: violated_by_def)
    next
      case False
      then show ?thesis unfolding step using Cons.IH [of "seen \<or> cd_required c" ctx1] Cons.prems by auto
    qed
  qed
qed

lemma check_judged:
  assumes "\<And>act. list_all2 (\<lambda>c b. decides_as b (condition_holds ke (check_frames ck) act c)) conds bs" "conds \<noteq> []"
    "ck_negated ck \<Longrightarrow> list_ex cd_required conds"
  shows "judged (ck_negated ck = some_fails conds bs) (snd (evaluate_conditions ke ck conds ctx))"
proof -
  have "judged (ck_negated ck = some_fails conds bs) (snd (check_each ke ck act conds False conds c1))" for act c1
    by (rule check_each_judged [OF assms(1)]) (use assms(3) in simp)
  then show ?thesis using assms(2) by (simp add: evaluate_conditions_def in_step_def finally_do_def Let_def split: prod.split)
      (metis snd_conv)
qed

section \<open>Queries\<close>

lemma each_shape:
  assumes "scopes_agree qe ke m nm fr"
  shows "translate_each qe su cs st = (st', Inr (req, asserted)) \<Longrightarrow> list_all (condition_encodable qe) cs \<Longrightarrow>
    list_all bool_term req \<and> ts_guarded st \<subseteq> ts_guarded st'"
proof (induction cs arbitrary: st req asserted)
  case (Cons c cs)
  from Cons.prems(1) obtain st1 t req1 as1 where t: "translate_condition qe (at_condition qe su c) 0 c st = (st1, Inr t)"
      "translate_each qe su cs st1 = (st', Inr (req1, as1))" "req = req1 \<or> req = t # req1"
    by (auto simp: then_do_Inr split: if_splits)
  with condition_shape [OF assms t(1)] Cons.IH [OF t(2)] Cons.prems(2) show ?case by auto
qed simp

text \<open>The conditions have values, the assertions have the same, and a negated element's required terms too.\<close>

lemma each_value:
  fixes ke :: "('n, 'o, 'c, 'sc) check_env"
  assumes "scopes_agree qe ke m nm fr" "inj nm"
  shows "translate_each qe su cs st = (st', Inr (req, asserted)) \<Longrightarrow> list_all (condition_encodable qe) cs \<Longrightarrow> ts_guarded st' \<subseteq> G \<Longrightarrow>
    list_all (tame m G) req \<Longrightarrow> list_all (\<lambda>a. tame m G (fst a)) asserted \<Longrightarrow>
    \<exists>bs. (\<forall>act. list_all2 (\<lambda>c b. decides_as b (condition_holds ke fr act c)) cs bs)
      \<and> (\<forall>a\<in>set asserted. \<exists>b. meaning m (fst a) = Some (BoolV b))
      \<and> (if su_negated su
         then map (meaning m) req = map (Some \<circ> BoolV) (map snd (filter (\<lambda>(c, b). cd_required c) (zip cs bs)))
           \<and> (\<forall>a\<in>set asserted. pv_role (snd a) = RoleAssumed)
         else some_fails cs bs = (\<exists>a\<in>set asserted. pv_role (snd a) \<noteq> RoleAssumed \<and> meaning m (fst a) = Some (BoolV False)))"
proof (induction cs arbitrary: st req asserted)
  case Nil
  then have "req = []" "asserted = []" by simp_all
  then show ?case by (intro exI [of _ "[]"]) simp
next
  case (Cons c cs)
  from Cons.prems(1) obtain st1 t req1 as1 where t: "translate_condition qe (at_condition qe su c) 0 c st = (st1, Inr t)"
      "translate_each qe su cs st1 = (st', Inr (req1, as1))"
      "if su_negated su \<and> cd_required c then req = t # req1 \<and> asserted = as1
       else req = req1 \<and> asserted = (t, condition_provenance qe su c) # as1"
    by (auto simp: then_do_Inr split: if_splits)
  have enc: "condition_encodable qe c" "list_all (condition_encodable qe) cs" using Cons.prems(2) by simp_all
  have tame: "tame m G t" "list_all (tame m G) req1" "list_all (\<lambda>a. tame m G (fst a)) as1"
    using t(3) Cons.prems(4,5) by (auto split: if_splits)
  have g: "ts_guarded st1 \<subseteq> G" using each_shape [OF assms(1) t(2) enc(2)] Cons.prems(3) by auto
  have one: "\<exists>b. meaning m t = Some (BoolV b) \<and> decides_as b (condition_holds ke fr act c)" for act
    by (rule condition_value [OF assms t(1) enc(1) g tame(1)])
  then obtain b where b: "meaning m t = Some (BoolV b)" by blast
  have run: "decides_as b (condition_holds ke fr act c)" for act using one [of act] b by auto
  obtain bs where bs: "\<And>act. list_all2 (\<lambda>c b. decides_as b (condition_holds ke fr act c)) cs bs"
      "\<forall>a\<in>set as1. \<exists>b. meaning m (fst a) = Some (BoolV b)"
      "if su_negated su
       then map (meaning m) req1 = map (Some \<circ> BoolV) (map snd (filter (\<lambda>(c, b). cd_required c) (zip cs bs)))
         \<and> (\<forall>a\<in>set as1. pv_role (snd a) = RoleAssumed)
       else some_fails cs bs = (\<exists>a\<in>set as1. pv_role (snd a) \<noteq> RoleAssumed \<and> meaning m (fst a) = Some (BoolV False))"
    using Cons.IH [OF t(2) enc(2) Cons.prems(3) tame(2,3)] by blast
  have role: "pv_role (condition_provenance qe su c) = (if cd_required c then RoleRequired else RoleAssumed)"
    by (simp add: condition_provenance_def)
  show ?case
  proof (rule exI [of _ "b # bs"], intro conjI)
    show "\<forall>act. list_all2 (\<lambda>c b. decides_as b (condition_holds ke fr act c)) (c # cs) (b # bs)" using run bs(1) by simp
    show "\<forall>a\<in>set asserted. \<exists>b. meaning m (fst a) = Some (BoolV b)" using t(3) bs(2) b by (auto split: if_splits)
    show "if su_negated su
         then map (meaning m) req = map (Some \<circ> BoolV) (map snd (filter (\<lambda>(c, b). cd_required c) (zip (c # cs) (b # bs))))
           \<and> (\<forall>a\<in>set asserted. pv_role (snd a) = RoleAssumed)
         else some_fails (c # cs) (b # bs)
           = (\<exists>a\<in>set asserted. pv_role (snd a) \<noteq> RoleAssumed \<and> meaning m (fst a) = Some (BoolV False))"
    proof (cases "su_negated su")
      case True
      with t(3) bs(3) b role show ?thesis by (cases "cd_required c") (simp_all del: map_eq_conv)
    next
      case False
      with t(3) have "asserted = (t, condition_provenance qe su c) # as1" by simp
      with False bs(3) b role show ?thesis by (cases "cd_required c") simp_all
    qed
  qed
qed

lemma each_unnegated: "translate_each qe su cs st = (st', Inr (req, asserted)) \<Longrightarrow> \<not> su_negated su \<Longrightarrow> req = []"
  by (induction cs arbitrary: st req asserted) (auto simp: then_do_Inr)

lemma each_required:
  "translate_each qe su cs st = (st', Inr (req, asserted)) \<Longrightarrow> req \<noteq> [] \<Longrightarrow> list_ex cd_required cs"
  by (induction cs arbitrary: st req asserted) (auto simp: then_do_Inr split: if_splits)

lemma refusing_Inr: "refusing p st = (st', Inr a) \<longleftrightarrow> p st = (st', Inr a)"
  by (auto simp: refusing_def split: prod.splits sum.splits)

lemma required_all:
  "length cs = length bs \<Longrightarrow>
    list_all (\<lambda>b. b) (map snd (filter (\<lambda>(c, b). cd_required c) (zip cs bs))) \<longleftrightarrow> \<not> some_fails cs bs"
  by (auto simp: list_all_iff some_fails_def)

text \<open>The conditions of a translated query have values, and the assertions say whether one that is required fails.\<close>

lemma asserted_values:
  fixes ke :: "('n, 'o, 'c, 'sc) check_env"
  assumes "translate_conditions qe su conds st = (st', Inr asserted)" "list_all (condition_encodable qe) conds"
    "scopes_agree qe ke m nm fr" "inj nm" "\<forall>a\<in>set asserted. tame m (ts_guarded st') (fst a)"
  shows "\<exists>bs. (\<forall>act. list_all2 (\<lambda>c b. decides_as b (condition_holds ke fr act c)) conds bs)
    \<and> (\<forall>a\<in>set asserted. \<exists>b. meaning m (fst a) = Some (BoolV b))
    \<and> (su_negated su = some_fails conds bs
       \<longleftrightarrow> (\<forall>a\<in>set asserted. pv_role (snd a) = RoleAssumed \<or> meaning m (fst a) = Some (BoolV True)))
    \<and> (su_negated su \<longrightarrow> list_ex cd_required conds)"
proof -
  obtain req as1 where e: "translate_each qe su conds st = (st', Inr (req, as1))"
      "su_negated su \<Longrightarrow> req \<noteq> []"
      "asserted = (if su_negated su then as1 @ [(not_term (and_term req),
         denied_provenance qe su (filter cd_required conds) (condition_file qe (last conds)))] else as1)"
    using assms(1) by (auto simp: translate_conditions_def then_do_Inr refusing_Inr split: if_splits)
  have shape: "list_all bool_term req" using each_shape [OF assms(3) e(1) assms(2)] by simp
  have denied: "su_negated su \<Longrightarrow> tame m (ts_guarded st') (and_term req)"
    using assms(5) e(3) tame_not bool_and [OF shape] by (auto simp: bool_term_def)
  have tame: "list_all (tame m (ts_guarded st')) req" "list_all (\<lambda>a. tame m (ts_guarded st') (fst a)) as1"
  proof -
    show "list_all (\<lambda>a. tame m (ts_guarded st') (fst a)) as1" using assms(5) e(3) by (auto simp: list_all_iff split: if_splits)
    show "list_all (tame m (ts_guarded st')) req"
    proof (cases "su_negated su")
      case True
      with denied tame_and show ?thesis by (auto simp: list_all_iff)
    next
      case False
      with each_unnegated [OF e(1)] show ?thesis by simp
    qed
  qed
  obtain bs where bs: "\<And>act. list_all2 (\<lambda>c b. decides_as b (condition_holds ke fr act c)) conds bs"
      "\<forall>a\<in>set as1. \<exists>b. meaning m (fst a) = Some (BoolV b)"
      "if su_negated su
       then map (meaning m) req = map (Some \<circ> BoolV) (map snd (filter (\<lambda>(c, b). cd_required c) (zip conds bs)))
         \<and> (\<forall>a\<in>set as1. pv_role (snd a) = RoleAssumed)
       else some_fails conds bs = (\<exists>a\<in>set as1. pv_role (snd a) \<noteq> RoleAssumed \<and> meaning m (fst a) = Some (BoolV False))"
    using each_value [OF assms(3,4) e(1) assms(2) subset_refl tame] by blast
  have len: "length conds = length bs" using bs(1) list_all2_lengthD by blast
  have denial: "meaning m (not_term (and_term req)) = Some (BoolV (some_fails conds bs))" if "su_negated su"
    using negate_meaning [OF and_values bool_and [OF shape], of m _ True] bs(3) that required_all [OF len]
    by (simp add: negate_term_def del: map_eq_conv map_map)
  have "(su_negated su = some_fails conds bs)
      \<longleftrightarrow> (\<forall>a\<in>set asserted. pv_role (snd a) = RoleAssumed \<or> meaning m (fst a) = Some (BoolV True))"
  proof (cases "su_negated su")
    case True
    with e(3) bs(3) denial show ?thesis by (auto simp: denied_provenance_def)
  next
    case False
    have "meaning m (fst a) = Some (BoolV True) \<longleftrightarrow> meaning m (fst a) \<noteq> Some (BoolV False)" if "a \<in> set as1" for a
      using bspec [OF bs(2) that] by auto
    with False e(3) bs(3) show ?thesis by auto
  qed
  moreover have "\<forall>a\<in>set asserted. \<exists>b. meaning m (fst a) = Some (BoolV b)" using bs(2) e(3) denial by (auto split: if_splits)
  moreover have "su_negated su \<longrightarrow> list_ex cd_required conds" using e(2) each_required [OF e(1)] by auto
  ultimately show ?thesis using bs(1) by blast
qed


text \<open>The condition \<open>10 / x > 1\<close>, required, at \<open>x = 3\<close>.\<close>

definition x_query :: "(unit, unit, unit) query_env" where
  "x_query =
     \<lparr>qe_env = \<lambda>_. x_env, qe_owner = \<lambda>_. None, qe_subject = None, qe_nowhere = \<lambda>_. [], qe_text = (\<lambda>_. [], \<lambda>_. []),
      qe_vars = \<lambda>_. [x_var], qe_sorts = \<lambda>_. [], qe_domains = \<lambda>_. [], qe_pins = \<lambda>_. [], qe_objectives = \<lambda>_. [],
      qe_base_unit = \<lambda>_ _. [], qe_fix = give ()\<rparr>"

definition x_checks :: "(unit, unit, unit, unit) check_env" where
  "x_checks = \<lparr>ke_eval = \<lambda>_ _. plain_env, ke_begin = \<lambda>c. (c, 1), ke_end = \<lambda>_ c. c, ke_text = (\<lambda>_. [], \<lambda>_. [])\<rparr>"

definition x_check :: "(unit, unit) condition_check" where
  "x_check = \<lparr>ck_kind = ''constraint'', ck_what = ''assertion'', ck_name = ''c'', ck_bindings = Some (x_frame 3), ck_negated = False\<rparr>"

definition x_conditions :: "(unit, unit) stated_condition list" where
  "x_conditions = [CondExpr (Some quotient_expr) () False True]"

definition x_asserted :: "(smt_term \<times> provenance) list" where
  "x_asserted = [(quotient_term, condition_provenance x_query x_subject (hd x_conditions))]"

lemma x_translated: "snd (translate_conditions x_query x_subject x_conditions x_start) = Inr x_asserted"
  by code_simp


end
