(* ===== verification/Spec2Isabelle.thy ===== *)
theory Spec2Isabelle
  imports Source Lexer Tokens Names Utf8 Format Message_Bus Action_Executor Action_Flow Action_Runs
    Action_Properties Heap Event_Queue Rdf_Ids Rdf_Graph Turtle_Write Turtle_Parse Turtle_Roundtrip
    State_Graph State_Lowering State_Lowered Lowering_Properties State_Executor State_Invariants State_Machine
    State_Example State_Moves State_Events State_Properties
    Float64 Const_Eval Eval Eval_Properties Statements Statement_Properties Statement_Budget
    Collections Collection_Properties
    Smt_Properties Smt_Values Smt_Search Smt_Configurations Smt_Faithful Smt_Conditions Smt_Verdict
begin

text \<open>
  A verification library of Systemica, the SysML v2 / KerML workbench: the text layer, the
  execution of behaviors, the queries to a constraint solver, and the RDF exchange form. Paths below are under \<open>src/internal/core/\<close>.

  The program. A document is read as a source file (\<open>source/\<close>), cut into tokens (\<open>lexer/\<close>), and
  parsed (\<open>parser/\<close>) to a syntax tree (\<open>ast/\<close>) that is resolved and checked (\<open>symbols/\<close>, \<open>resolve/\<close>,
  \<open>passes/\<close>). Behaviors are lowered (\<open>lower/\<close>) to action graphs and state graphs, which two executors
  (\<open>runtime/\<close>) run, sharing one context whose message bus connects them. The conditions
  an element states are checked by evaluation and, to find values for its features, translated to SMT-LIB
  (\<open>solve/\<close>). A model is written to and read from RDF Turtle (\<open>rdf/\<close>). The formatter (\<open>format/\<close>) works on the token stream alone.

  Text.
  \<^item> \<open>Source\<close> is \<open>source/source.go\<close>, \<open>source/kind.go\<close> and \<open>source/lineindex.go\<close>: spans, source files and
    the line index; the binary search of \<open>PosAt\<close> is proved to find the line and column of a byte.
  \<^item> \<open>Lexer\<close> is \<open>lexer/lexer.go\<close>, \<open>token.go\<close>, \<open>keywords.go\<close> and \<open>contextual.go\<close>, one function per scanner;
    \<open>Tokens\<close> shows that the tokens tile the text. \<open>Names\<close> is \<open>lexer/name.go\<close> with the segment reader of
    \<open>parser/namespace.go\<close>. \<open>Utf8\<close> is the decoding of text into code points the Go language does.
  \<^item> \<open>Format\<close> is \<open>format/format.go\<close>: what the formatter may change is white space between tokens.

  Execution.
  \<^item> \<open>Message_Bus\<close> is \<open>runtime/signal.go\<close>: the queue of posted messages of \<open>Context\<close>.
    \<open>Runtime_Context\<close> holds the part of \<open>runtime/context.go\<close> both executors keep.
  \<^item> \<open>Action_Executor\<close> is \<open>runtime/action_executor.go\<close>: tokens on the nodes of an action graph, one
    handler per node kind, \<open>Step\<close>, \<open>RunToCompletion\<close>, \<open>RunToQuiescence\<close>. \<open>Action_Flow\<close> has the abstract
    token game, a step relation on multisets of places, the locale of what every handler keeps, and
    the simulation; \<open>Action_Runs\<close> the length of runs; \<open>Action_Properties\<close> the properties.
  \<^item> \<open>Heap\<close> is the part of \<open>container/heap\<close> the event queue calls, over a locale for priority queues;
    \<open>Event_Queue\<close> is the queue of \<open>runtime/executor_common.go\<close> and interprets the locale.
  \<^item> \<open>State_Graph\<close> is the lowered graph (\<open>lower/state_graph.go\<close>, \<open>ast/behavior.go\<close>) with the walks over
    it of \<open>runtime/state_executor.go\<close> and \<open>runtime/state_region_transition.go\<close>.
    \<open>State_Lowering\<close> is \<open>ToStateGraph\<close>, which builds it; \<open>State_Lowered\<close> shows that it is well formed.
  \<^item> \<open>State_Executor\<close> is \<open>runtime/state_executor.go\<close>, \<open>state_region_transition.go\<close>,
    \<open>state_change_trigger.go\<close> and \<open>state_statements.go\<close>, one definition per method, written in the state
    and error monad of \<open>Prog\<close>, where an error keeps the state reached. \<open>State_Invariants\<close> has the locales
    \<open>config_invariant\<close> and \<open>machine_invariant\<close>: from what an invariant must satisfy at the primitive
    updates, every method keeps it. \<open>State_Machine\<close> gives four invariants through them, \<open>State_Moves\<close>
    the trace of exits and entries, \<open>State_Events\<close> selection, deferral and do rounds;
    \<open>State_Example\<close> has the machines the witnesses run.

  Evaluation.
  \<^item> \<open>Float64\<close> has Go's \<open>int64\<close> as 64-bit words and \<open>float64\<close> as rationals rounded to the nearest
    double, ties to even, with what \<open>strconv\<close> reads. \<open>Const_Eval\<close> is \<open>semantics/eval.go\<close>, the constant
    folder, and \<open>semantics/multiplicity.go\<close>; \<open>math.Pow\<close> is a parameter.
  \<^item> \<open>Eval\<close> is the operator part of \<open>runtime/eval.go\<close> with \<open>range.go\<close>, on a context that counts steps and
    elements. What lies outside the expression is the record \<open>eval_env\<close>: names no frame binds, calls,
    quantities, variants and classification. \<open>Eval_Properties\<close> compares the two evaluators.
  \<^item> \<open>Statements\<close> is \<open>runtime/statements.go\<close> with its hosts \<open>calc_statements.go\<close>,
    \<open>action_statements.go\<close> and \<open>state_statements.go\<close>, over the statements of \<open>lower/action_graph.go\<close>.
    \<open>Statement_Properties\<close> has the locale \<open>statement_host\<close>, the contract the engine relies on,
    interpreted on the three hosts: blocks leave the enclosing frames as they were.
    \<open>Statement_Budget\<close> shows that the step budget is enough fuel for every body.
  \<^item> \<open>Collections\<close> is \<open>runtime/collections.go\<close> with \<open>builtins.go\<close>, the functions on sequences that the
    language defines, and the dispatch of invocations to them; \<open>Collection_Properties\<close> shows what they
    answer within the budgets.

  Solving.
  \<^item> \<open>Smt_Term\<close> is \<open>solve/term.go\<close>, \<open>sort.go\<close>, \<open>query.go\<close> and \<open>logic.go\<close>, with the value SMT-LIB gives a
    term. \<open>Smt_Writer\<close> is \<open>smtlib.go\<close>, which writes scripts, \<open>Smt_Reader\<close> is \<open>sexpr.go\<close>, which reads
    replies, and \<open>Smt_Model\<close> is \<open>model.go\<close> with the value-reading part of \<open>optimize.go\<close>.
    \<open>Smt_Roundtrip\<close> and \<open>Smt_Scripts\<close> show that the reader inverts the writer, \<open>Smt_Properties\<close> that a
    script is read as the commands of its query, \<open>Smt_Values\<close> that numbers and symbols cross exactly.
  \<^item> \<open>Smt_Meaning\<close> has the values of conjunctions and disjunctions, which the next two groups share.
  \<^item> \<open>Smt_Session\<close> is the dialogues of \<open>solver.go\<close>, \<open>core.go\<close>, \<open>configure.go\<close> and \<open>optimize.go\<close>: a session
    is the text the solver has still to answer and the number of requests it takes. \<open>Smt_Search\<close> shows
    minimality of reduced cores and optimality of attained optima, \<open>Smt_Configurations\<close> that an
    enumeration is complete, each under the assumption that the solver answers truly.
  \<^item> \<open>Smt_Translate\<close> is \<open>translate.go\<close> on expressions; \<open>Smt_Agreement\<close> and \<open>Smt_Faithful\<close> show that a term
    means what \<open>Eval\<close> computes, for integers below \<open>2\<^sup>5\<^sup>3\<close> and without real arithmetic, where the encoding
    is exact numbers and the evaluator has doubles.
  \<^item> \<open>Smt_Conditions\<close> is \<open>runtime/condition.go\<close>, the check of the conditions an element states, and the rest of
    \<open>translate.go\<close>, which makes a query of them. \<open>Smt_Verdict\<close> shows that the two agree: the assertions of the
    query hold in a model exactly if the check holds at its values.

  Exchange.
  \<^item> \<open>Rdf_Ids\<close> and \<open>Rdf_Graph\<close> are \<open>rdf/ids.go\<close>, \<open>rdf/term.go\<close> and \<open>rdf/vocab.go\<close>: element identifiers,
    terms, and the graph with its cached subject index, which is proved to agree with a scan.
  \<^item> \<open>Turtle_Write\<close> and \<open>Turtle_Parse\<close> are \<open>rdf/turtle_write.go\<close> and \<open>rdf/turtle_parse.go\<close>;
    \<open>Turtle_Roundtrip\<close> shows that the reader inverts the writer.

  Conventions. \<open>Prelude\<close> has the result type, errors on the left. Go's \<open>int\<close> counters are \<open>int\<close> or \<open>nat\<close>;
  they count tokens, events and bytes and stay far below 64 bits. Pointers that the code compares
  are natural numbers, the position of a state among the declared states, a region's or a
  transition's serial number. A Go map that the code only looks up in is a function to options; one
  whose keys it ranges over is an association list. Expressions, values, statements and
  times of the executors are type variables: evaluation and bodies as the executors call them, the
  conversion of durations and the resolution of an endpoint are fields of the records \<open>engine\<close>,
  \<open>machine_engine\<close> and \<open>lowering_env\<close>, and the theorems hold for every choice of them.

  Bounds. The code bounds its own runs by the context (steps of an action, events of a state
  machine, do steps); the model takes the same bounds, so its loops end as the code's do and report
  the same error. Recursions over the state hierarchy have the number of states or regions as
  fuel, which a well-formed graph never exhausts: parents have smaller positions. The chain of
  pseudostates has the number of pseudostates as fuel, and its exhaustion is the code's own error.
  Statement bodies have the steps left of the context's budget as fuel, since each iteration and each
  node of a flow spends one. \<open>run_terminates\<close> and \<open>body_ends\<close> state that no such error other than
  the code's own is reached.

  Not modelled. The parser, name resolution and the validation passes build and annotate syntax
  trees of the whole language; they keep no state beyond the tree, and a model of one needs the
  tree of all of them. Instances of definitions, feature chains and calls need the resolved
  model and are parameters of the evaluator. Lowering of action bodies takes the parsed body and the resolver. The
  variables a reference declares in a solver query and the values pinned in it read the resolved model;
  the solver's process, its deadlines and the probing of its capabilities are input and output. Views,
  exports, edits and queries work over the resolved model. The servers, the
  interactive commands and the project files are input and output around these parts.
\<close>

end
